(* ===== verification/Prelude.thy ===== *)
theory Prelude
  imports Main "HOL-Library.Word" "HOL-Library.Monad_Syntax"
begin

text \<open>
  Shared foundations of the libosmocore development.

  \<^item> Machine integers: \<open>u8\<close>, \<open>u16\<close>, \<open>u32\<close>, \<open>u64\<close> are words of that width; an
    \<open>unsigned int\<close> used as an index or a count is a \<open>nat\<close>, and the wrap-around of C is
    written out with \<open>wrap32\<close> wherever an expression of the source can leave the range.
  \<^item> C memory: a buffer is a list; \<open>rd\<close> and \<open>wr\<close> are the indexed accesses. They give
    \<open>None\<close> outside the buffer. A model of type \<open>\<dots> option\<close> therefore returns \<open>Some\<close>
    exactly when the C code stays inside the buffers it was given, and every functional
    theorem of the form \<open>f \<dots> = Some r\<close> is also a memory-safety theorem.
  \<^item> Loops: \<open>for_loop\<close> is \<open>for (i = lo; i < hi; i++) body\<close>; \<open>for_break\<close> the same with
    \<open>break\<close> or an early \<open>return\<close>. Their rules \<open>for_loop_rule\<close> and \<open>for_break_rule\<close> give
    total correctness from an invariant.
  \<^item> Error returns: \<open>errno\<close> values as they are written in the sources.
  \<^item> Bit views of octets used by the bit-level components.
\<close>

unbundle bit_operations_syntax

named_theorems c_mem \<open>reading and writing C buffers\<close>
named_theorems bit_view \<open>octets seen as bits\<close>

subsection \<open>Machine integers\<close>

type_synonym u8 = "8 word"
type_synonym u16 = "16 word"
type_synonym u32 = "32 word"
type_synonym u64 = "64 word"

type_synonym 'a res = "'a option"

abbreviation UINT_MAX1 :: nat where
  "UINT_MAX1 \<equiv> 4294967296"

definition wrap32 :: "nat \<Rightarrow> nat" where
  "wrap32 n = n mod UINT_MAX1"

definition sub32 :: "nat \<Rightarrow> nat \<Rightarrow> nat" where
  "sub32 a b = wrap32 (a + (UINT_MAX1 - wrap32 b))"

lemma wrap32_id [simp]: "n < UINT_MAX1 \<Longrightarrow> wrap32 n = n"
  by (simp add: wrap32_def)

lemma wrap32_less [simp]: "wrap32 n < UINT_MAX1"
  by (simp add: wrap32_def)

lemma sub32_ge: "b \<le> a \<Longrightarrow> a < UINT_MAX1 \<Longrightarrow> sub32 a b = a - b"
  by (simp add: sub32_def wrap32_def) (metis add.commute add_diff_assoc less_imp_diff_less mod_add_self1 mod_less)

subsection \<open>Error returns\<close>

datatype errno = EINVAL | E2BIG | ENOMEM | EOVERFLOW | ENOENT | EBUSY | EAGAIN | ENOSPC
  | ERANGE | ENOTSUP | EIO | EPERM | ENODEV | EMSGSIZE | EBADMSG | EEXIST | EACCES

subsection \<open>C buffers\<close>

definition rd :: "'a list \<Rightarrow> nat \<Rightarrow> 'a res" where
  "rd xs i = (if i < length xs then Some (xs ! i) else None)"

definition wr :: "'a list \<Rightarrow> nat \<Rightarrow> 'a \<Rightarrow> 'a list res" where
  "wr xs i v = (if i < length xs then Some (xs[i := v]) else None)"

text \<open>\<open>memcpy (dst + d, src + s, n)\<close> on two distinct buffers.\<close>

definition memcpy :: "'a list \<Rightarrow> nat \<Rightarrow> 'a list \<Rightarrow> nat \<Rightarrow> nat \<Rightarrow> 'a list res" where
  "memcpy dst d src s n =
     (if d + n \<le> length dst \<and> s + n \<le> length src
      then Some (take d dst @ take n (drop s src) @ drop (d + n) dst) else None)"

text \<open>\<open>memmove (buf + d, buf + s, n)\<close> inside one buffer.\<close>

definition memmove :: "'a list \<Rightarrow> nat \<Rightarrow> nat \<Rightarrow> nat \<Rightarrow> 'a list res" where
  "memmove buf d s n = memcpy buf d buf s n"

lemma rd_Some [c_mem]: "i < length xs \<Longrightarrow> rd xs i = Some (xs ! i)"
  by (simp add: rd_def)

lemma wr_Some [c_mem]: "i < length xs \<Longrightarrow> wr xs i v = Some (xs[i := v])"
  by (simp add: wr_def)

lemma rd_eq_Some_iff: "rd xs i = Some v \<longleftrightarrow> i < length xs \<and> v = xs ! i"
  by (auto simp: rd_def)

lemma wr_eq_Some_iff: "wr xs i v = Some ys \<longleftrightarrow> i < length xs \<and> ys = xs[i := v]"
  by (auto simp: wr_def)

lemma rd_eq_None_iff [simp]: "rd xs i = None \<longleftrightarrow> length xs \<le> i"
  by (auto simp: rd_def)

lemma wr_eq_None_iff [simp]: "wr xs i v = None \<longleftrightarrow> length xs \<le> i"
  by (auto simp: wr_def)

lemma memcpy_Some [c_mem]:
  "d + n \<le> length dst \<Longrightarrow> s + n \<le> length src \<Longrightarrow>
   memcpy dst d src s n = Some (take d dst @ take n (drop s src) @ drop (d + n) dst)"
  by (simp add: memcpy_def)

lemma memcpy_length: "memcpy dst d src s n = Some r \<Longrightarrow> length r = length dst"
  by (auto simp: memcpy_def split: if_splits)

lemma nth_memcpy:
  assumes "memcpy dst d src s n = Some r" and "i < length dst"
  shows "r ! i = (if d \<le> i \<and> i < d + n then src ! (s + (i - d)) else dst ! i)"
proof -
  from assms have b: "d + n \<le> length dst" "s + n \<le> length src"
    and r: "r = take d dst @ take n (drop s src) @ drop (d + n) dst"
    by (auto simp: memcpy_def split: if_splits)
  from b have "length (take d dst) = d" "length (take n (drop s src)) = n" by auto
  with b assms(2) show ?thesis by (auto simp: r nth_append)
qed

subsection \<open>Loops\<close>

function for_loop :: "nat \<Rightarrow> nat \<Rightarrow> (nat \<Rightarrow> 's \<Rightarrow> 's res) \<Rightarrow> 's \<Rightarrow> 's res" where
  "for_loop i n body s =
     (if i < n then (case body i s of None \<Rightarrow> None | Some s' \<Rightarrow> for_loop (Suc i) n body s')
      else Some s)"
  by pat_completeness auto
termination
  by (relation "measure (\<lambda>(i, n, body, s). n - i)") auto

declare for_loop.simps [simp del]

lemma for_loop_done: "n \<le> i \<Longrightarrow> for_loop i n body s = Some s"
  by (simp add: for_loop.simps)

lemma for_loop_step:
  "i < n \<Longrightarrow> for_loop i n body s =
     (case body i s of None \<Rightarrow> None | Some s' \<Rightarrow> for_loop (Suc i) n body s')"
  by (subst for_loop.simps) simp

text \<open>The total-correctness rule: an invariant indexed by the loop counter.\<close>

lemma for_loop_rule:
  assumes "P lo s" and "lo \<le> hi"
    and "\<And>i t. lo \<le> i \<Longrightarrow> i < hi \<Longrightarrow> P i t \<Longrightarrow> \<exists>t'. body i t = Some t' \<and> P (Suc i) t'"
  shows "\<exists>s'. for_loop lo hi body s = Some s' \<and> P hi s'"
  using assms
proof (induction lo hi body s rule: for_loop.induct)
  case (1 i n body s)
  show ?case
  proof (cases "i < n")
    case True
    with "1.prems" obtain s' where s': "body i s = Some s'" "P (Suc i) s'"
      by blast
    with True "1.IH" "1.prems"(3) have "\<exists>r. for_loop (Suc i) n body s' = Some r \<and> P n r"
      by (simp add: Suc_leD)
    with True s'(1) show ?thesis
      by (simp add: for_loop_step)
  next
    case False
    with "1.prems" show ?thesis
      by (simp add: for_loop_done)
  qed
qed

lemma for_loop_cong:
  assumes "\<And>i s. lo \<le> i \<Longrightarrow> i < hi \<Longrightarrow> f i s = g i s"
  shows "for_loop lo hi f s = for_loop lo hi g s"
  using assms
proof (induction lo hi f s rule: for_loop.induct)
  case (1 i n body s)
  then show ?case
    by (cases "i < n") (auto simp: for_loop_done for_loop_step split: option.splits)
qed

lemma for_loop_None:
  assumes "i \<le> k" and "k < n"
    and "\<And>s. body k s = None"
  shows "for_loop i n body s = None"
  using assms
proof (induction i n body s rule: for_loop.induct)
  case (1 i n body s)
  show ?case
  proof (cases "i = k")
    case True
    with "1.prems" show ?thesis by (simp add: for_loop_step)
  next
    case False
    with "1.prems" have "i < n" "Suc i \<le> k" by auto
    with "1.IH" "1.prems" show ?thesis
      by (simp add: for_loop_step split: option.splits)
  qed
qed

text \<open>The frequent case: iteration \<open>i\<close> stores \<open>f i\<close> at index \<open>i\<close>.\<close>

lemma for_loop_pointwise:
  assumes "lo \<le> hi" and "hi \<le> length out"
    and "\<And>i buf. lo \<le> i \<Longrightarrow> i < hi \<Longrightarrow> length buf = length out \<Longrightarrow> body i buf = Some (buf[i := f i])"
  shows "\<exists>out'. for_loop lo hi body out = Some out' \<and> length out' = length out \<and>
           (\<forall>k < length out. out' ! k = (if lo \<le> k \<and> k < hi then f k else out ! k))"
proof -
  let ?P = "\<lambda>i buf. length buf = length out \<and>
       (\<forall>k < length out. buf ! k = (if lo \<le> k \<and> k < i then f k else out ! k))"
  have "\<exists>s'. for_loop lo hi body out = Some s' \<and> ?P hi s'"
  proof (rule for_loop_rule)
    show "?P lo out" by auto
    show "\<exists>t'. body i t = Some t' \<and> ?P (Suc i) t'" if "lo \<le> i" "i < hi" "?P i t" for i t
      using that assms(3) [of i t] by (auto simp: nth_list_update less_Suc_eq)
  qed (rule assms)
  then show ?thesis by blast
qed

text \<open>A loop with early exit: \<open>Inl r\<close> leaves the loop with \<open>r\<close>, \<open>Inr s\<close> continues.\<close>

function for_break ::
  "nat \<Rightarrow> nat \<Rightarrow> (nat \<Rightarrow> 's \<Rightarrow> ('r + 's) res) \<Rightarrow> 's \<Rightarrow> ('r + 's) res" where
  "for_break i n body s =
     (if i < n then (case body i s of None \<Rightarrow> None
                     | Some (Inl r) \<Rightarrow> Some (Inl r)
                     | Some (Inr s') \<Rightarrow> for_break (Suc i) n body s')
      else Some (Inr s))"
  by pat_completeness auto
termination
  by (relation "measure (\<lambda>(i, n, body, s). n - i)") auto

declare for_break.simps [simp del]

lemma for_break_done: "n \<le> i \<Longrightarrow> for_break i n body s = Some (Inr s)"
  by (simp add: for_break.simps)

lemma for_break_step:
  "i < n \<Longrightarrow> for_break i n body s =
     (case body i s of None \<Rightarrow> None | Some (Inl r) \<Rightarrow> Some (Inl r)
      | Some (Inr s') \<Rightarrow> for_break (Suc i) n body s')"
  by (subst for_break.simps) simp

lemma for_break_rule:
  assumes "P lo s" and "lo \<le> hi"
    and "\<And>i t. lo \<le> i \<Longrightarrow> i < hi \<Longrightarrow> P i t \<Longrightarrow>
          (\<exists>t'. body i t = Some (Inr t') \<and> P (Suc i) t') \<or> (\<exists>r. body i t = Some (Inl r) \<and> Q r)"
  shows "(\<exists>s'. for_break lo hi body s = Some (Inr s') \<and> P hi s') \<or>
         (\<exists>r. for_break lo hi body s = Some (Inl r) \<and> Q r)"
  using assms
proof (induction lo hi body s rule: for_break.induct)
  case (1 i n body s)
  show ?case
  proof (cases "i < n")
    case True
    with "1.prems"(1) "1.prems"(3) [of i s]
    consider s' where "body i s = Some (Inr s')" "P (Suc i) s'"
      | r where "body i s = Some (Inl r)" "Q r" by auto
    then show ?thesis
    proof cases
      case 1
      with True "1.IH" "1.prems"(3) have
        "(\<exists>r. for_break (Suc i) n body s' = Some (Inr r) \<and> P n r) \<or>
         (\<exists>r. for_break (Suc i) n body s' = Some (Inl r) \<and> Q r)"
        by (simp add: Suc_leD)
      with True 1 show ?thesis by (simp add: for_break_step)
    next
      case 2
      with True show ?thesis by (simp add: for_break_step)
    qed
  next
    case False
    with "1.prems" show ?thesis by (simp add: for_break_done)
  qed
qed

subsection \<open>Octets as bits, most significant first\<close>

text \<open>\<open>msb_bit w j\<close> is bit \<open>j\<close> of an octet when the bits are numbered from the most
  significant one, the convention of \<open>pbit_t\<close> and of \<open>struct bitvec\<close>.\<close>

definition msb_bit :: "u8 \<Rightarrow> nat \<Rightarrow> bool" where
  "msb_bit w j = bit w (7 - j)"

text \<open>Bit \<open>i\<close> of a packed buffer: \<open>array[i/8] & (1 << (7 - i%8))\<close>.\<close>

definition pbit :: "u8 list \<Rightarrow> nat \<Rightarrow> bool" where
  "pbit buf i = msb_bit (buf ! (i div 8)) (i mod 8)"

lemma u8_bit_cases: "n < 8 \<longleftrightarrow> n \<in> {0, 1, 2, 3, 4, 5, 6, 7 :: nat}"
  by auto

lemma octet_index: "j < 8 \<Longrightarrow> (8 * k + j) div 8 = k" "j < 8 \<Longrightarrow> (8 * k + j) mod 8 = (j :: nat)"
  by simp_all

lemma not_bit_u8 [simp]: "8 \<le> n \<Longrightarrow> \<not> bit (w :: u8) n"
  using bit_imp_le_length [of w n] by auto

lemma u8_eqI:
  fixes a b :: u8
  assumes "\<And>j. j < 8 \<Longrightarrow> bit a j = bit b j"
  shows "a = b"
  by (rule bit_word_eqI) (use assms in simp)

lemma u8_eq_iff: "(a :: u8) = b \<longleftrightarrow> (\<forall>j<8. bit a j = bit b j)"
  by (auto intro: u8_eqI)

lemma u8_msb_eqI:
  fixes a b :: u8
  assumes "\<And>j. j < 8 \<Longrightarrow> msb_bit a j = msb_bit b j"
  shows "a = b"
proof (rule u8_eqI)
  fix j :: nat
  assume "j < 8"
  then have "7 - (7 - j) = j" "7 - j < 8" by auto
  with assms [of "7 - j"] show "bit a j = bit b j" by (simp add: msb_bit_def)
qed

lemma pbits_eq_take:
  assumes "n \<le> length xs" and "n \<le> length ys"
    and "\<And>i. i < 8 * n \<Longrightarrow> pbit xs i = pbit ys i"
  shows "take n xs = take n ys"
proof (rule nth_equalityI)
  show "length (take n xs) = length (take n ys)" using assms by simp
next
  fix k
  assume "k < length (take n xs)"
  then have k: "k < n" by simp
  have "xs ! k = ys ! k"
  proof (rule u8_msb_eqI)
    fix j :: nat
    assume "j < 8"
    with k assms(3) [of "8 * k + j"] show "msb_bit (xs ! k) j = msb_bit (ys ! k) j"
      by (simp add: pbit_def)
  qed
  with k show "take n xs ! k = take n ys ! k" by simp
qed

lemma bit_and_one_u8: "bit ((w :: u8) AND 1) j \<longleftrightarrow> j = 0 \<and> bit w 0"
  by (auto simp: bit_simps bit_1_iff)

lemma u8_mask_bit: "bit (push_bit k (1 :: u8)) j \<longleftrightarrow> k < 8 \<and> j = k"
  by (auto simp: bit_simps)

lemma and_two_power_eq_0_iff: "k < 8 \<Longrightarrow> (w :: u8) AND 2 ^ k = 0 \<longleftrightarrow> \<not> bit w k"
  by (auto simp: u8_eq_iff bit_simps)

text \<open>Bounded quantifiers over small ranges, for evaluation by \<open>code_simp\<close>.\<close>

lemma all_less_list_all: "(\<forall>j<n. P j) \<longleftrightarrow> list_all P [0..<n]"
  by (auto simp: list_all_iff)

text \<open>All octets, for properties checked by running through them.\<close>

definition octets :: "u8 list" where
  "octets = [0, 1, 2, 3, 4, 5, 6, 7, 8, 9, 10, 11, 12, 13, 14, 15, 16, 17, 18, 19, 20, 21, 22, 23, 24, 25,
    26, 27, 28, 29, 30, 31, 32, 33, 34, 35, 36, 37, 38, 39, 40, 41, 42, 43, 44, 45, 46, 47, 48, 49,
    50, 51, 52, 53, 54, 55, 56, 57, 58, 59, 60, 61, 62, 63, 64, 65, 66, 67, 68, 69, 70, 71, 72, 73,
    74, 75, 76, 77, 78, 79, 80, 81, 82, 83, 84, 85, 86, 87, 88, 89, 90, 91, 92, 93, 94, 95, 96, 97,
    98, 99, 100, 101, 102, 103, 104, 105, 106, 107, 108, 109, 110, 111, 112, 113, 114, 115, 116,
    117, 118, 119, 120, 121, 122, 123, 124, 125, 126, 127, 128, 129, 130, 131, 132, 133, 134, 135,
    136, 137, 138, 139, 140, 141, 142, 143, 144, 145, 146, 147, 148, 149, 150, 151, 152, 153, 154,
    155, 156, 157, 158, 159, 160, 161, 162, 163, 164, 165, 166, 167, 168, 169, 170, 171, 172, 173,
    174, 175, 176, 177, 178, 179, 180, 181, 182, 183, 184, 185, 186, 187, 188, 189, 190, 191, 192,
    193, 194, 195, 196, 197, 198, 199, 200, 201, 202, 203, 204, 205, 206, 207, 208, 209, 210, 211,
    212, 213, 214, 215, 216, 217, 218, 219, 220, 221, 222, 223, 224, 225, 226, 227, 228, 229, 230,
    231, 232, 233, 234, 235, 236, 237, 238, 239, 240, 241, 242, 243, 244, 245, 246, 247, 248, 249,
    250, 251, 252, 253, 254, 255]"
lemma octets_eq: "octets = map word_of_nat [0..<256]"
  unfolding octets_def by code_simp

lemma all_octets: "(\<forall>x. P x) \<longleftrightarrow> list_all P octets"
proof -
  have "x \<in> set octets" for x :: u8
  proof -
    have "unat x < 256" using unsigned_less [of x, where 'a = nat] by simp
    moreover have "x = word_of_nat (unat x)" by simp
    ultimately show ?thesis unfolding octets_eq set_map set_upt by (metis atLeastLessThan_iff imageI zero_le)
  qed
  then show ?thesis by (auto simp: list_all_iff)
qed

lemma octets_ceil: "(if n mod 8 \<noteq> 0 then n div 8 + 1 else n div 8) = (n + 7) div (8 :: nat)"
proof -
  obtain q r where n: "n = 8 * q + r" "r < 8" by (metis mod_less_divisor mult_div_mod_eq zero_less_numeral)
  then have d: "n div 8 = q" "n mod 8 = r" by (simp_all only: octet_index)
  show ?thesis
  proof (cases "r = 0")
    case True
    have "(8 * q + 7) div 8 = q" by simp
    with True n(1) d show ?thesis by simp
  next
    case False
    then have "n + 7 = 8 * (q + 1) + (r - 1)" "r - 1 < 8" using n by auto
    then have "(n + 7) div 8 = q + 1" by (simp only: octet_index)
    with False d show ?thesis by simp
  qed
qed

lemma Suc_octet:
  "i mod 8 = 7 \<Longrightarrow> Suc i div 8 = Suc (i div 8)" "i mod 8 = 7 \<Longrightarrow> Suc i mod 8 = 0"
  "i mod 8 \<noteq> 7 \<Longrightarrow> Suc i div 8 = i div 8" "i mod 8 \<noteq> 7 \<Longrightarrow> Suc i mod 8 = Suc (i mod 8)"
  by (simp_all add: div_Suc mod_Suc dvd_eq_mod_eq_0)

end
