(* ===== verification/Bit_Store.thy ===== *)
theory Bit_Store
  imports Prelude
begin

text \<open>
  The interface of a bit-addressable store, which packed buffers (\<open>bits.c\<close>) and bit vectors
  (\<open>bitvec.c\<close>) provide and the field operations (writing and reading an unsigned value as
  consecutive bits, most significant first) rely on. The locale \<open>bit_store\<close> states the laws
  of a single-bit read and update; inside it, writing a run of bits and reading it back is
  proved once. \<open>field_bits\<close> and \<open>field_val\<close> relate an unsigned value to its bits.
\<close>

subsection \<open>A value as bits, most significant first\<close>

definition field_bits :: "'w::len word \<Rightarrow> nat \<Rightarrow> bool list" where
  "field_bits v n = map (\<lambda>i. bit v (n - i - 1)) [0..<n]"

text \<open>The accumulation \<open>ui |= 1 << (n - i - 1)\<close> of a reading loop.\<close>

definition field_val :: "bool list \<Rightarrow> 'w::len word" where
  "field_val bs = fold (\<lambda>i ui. if bs ! i then ui OR push_bit (length bs - i - 1) 1 else ui) [0..<length bs] 0"

lemma length_field_bits [simp]: "length (field_bits v n) = n"
  by (simp add: field_bits_def)

lemma nth_field_bits: "i < n \<Longrightarrow> field_bits v n ! i = bit v (n - i - 1)"
  by (simp add: field_bits_def)

lemma bit_fold_or:
  "bit (fold (\<lambda>i ui. if P i then ui OR push_bit (f i) 1 else ui) xs w) j =
     (bit w j \<or> (\<exists>i \<in> set xs. P i \<and> j = f i \<and> j < LENGTH('w)))"
  for w :: "'w::len word"
  by (induction xs arbitrary: w) (auto simp: bit_simps)

lemma bit_field_val:
  "bit (field_val bs :: 'w::len word) j \<longleftrightarrow> j < length bs \<and> j < LENGTH('w) \<and> bs ! (length bs - j - 1)"
proof -
  have "(\<exists>i \<in> set [0..<length bs]. bs ! i \<and> j = length bs - i - 1 \<and> j < LENGTH('w)) \<longleftrightarrow>
        j < length bs \<and> j < LENGTH('w) \<and> bs ! (length bs - j - 1)"
    by (auto intro!: bexI [of _ "length bs - j - 1"])
  then show ?thesis unfolding field_val_def bit_fold_or by simp
qed

lemma field_val_bits: "field_val (field_bits v n) = take_bit n v"
  for v :: "'w::len word"
proof (rule bit_word_eqI)
  fix j
  assume "j < LENGTH('w)"
  then show "bit (field_val (field_bits v n) :: 'w word) j = bit (take_bit n v) j"
    by (cases "j < n") (auto simp: bit_field_val nth_field_bits bit_simps)
qed

subsection \<open>The interface\<close>

locale bit_store =
  fixes get :: "'s \<Rightarrow> nat \<Rightarrow> bool"
    and upd :: "'s \<Rightarrow> nat \<Rightarrow> bool \<Rightarrow> 's"
    and size :: "'s \<Rightarrow> nat"
  assumes get_upd_same: "p < size s \<Longrightarrow> get (upd s p b) p = b"
    and get_upd_other: "p < size s \<Longrightarrow> q \<noteq> p \<Longrightarrow> get (upd s p b) q = get s q"
    and size_upd: "size (upd s p b) = size s"
begin

fun put_bits :: "'s \<Rightarrow> nat \<Rightarrow> bool list \<Rightarrow> 's" where
  "put_bits s p [] = s"
| "put_bits s p (b # bs) = put_bits (upd s p b) (Suc p) bs"

definition get_bits :: "'s \<Rightarrow> nat \<Rightarrow> nat \<Rightarrow> bool list" where
  "get_bits s p n = map (get s) [p..<p + n]"

lemma size_put_bits: "size (put_bits s p bs) = size s"
  by (induction s p bs rule: put_bits.induct) (simp_all add: size_upd)

lemma get_put_bits:
  "p + length bs \<le> size s \<Longrightarrow>
   get (put_bits s p bs) q = (if p \<le> q \<and> q < p + length bs then bs ! (q - p) else get s q)"
proof (induction s p bs rule: put_bits.induct)
  case (1 s p)
  then show ?case by auto
next
  case (2 s p b bs)
  then have p: "p < size s" by simp
  have IH: "get (put_bits (upd s p b) (Suc p) bs) q =
      (if Suc p \<le> q \<and> q < Suc p + length bs then bs ! (q - Suc p) else get (upd s p b) q)"
    using 2 by (simp add: size_upd)
  show ?case
  proof (cases "q = p")
    case True
    with IH p show ?thesis by (simp add: get_upd_same)
  next
    case False
    with IH p show ?thesis by (auto simp: get_upd_other nth_Cons')
  qed
qed

lemma get_bits_put_bits:
  "p + length bs \<le> size s \<Longrightarrow> get_bits (put_bits s p bs) p (length bs) = bs"
  by (auto simp: get_bits_def get_put_bits intro: nth_equalityI)

lemma get_bits_frame:
  "p + length bs \<le> size s \<Longrightarrow> q + n \<le> p \<or> p + length bs \<le> q \<Longrightarrow>
   get_bits (put_bits s p bs) q n = get_bits s q n"
  by (auto simp: get_bits_def get_put_bits)

lemma field_roundtrip:
  fixes v :: "'w::len word"
  assumes "p + n \<le> size s"
  shows "field_val (get_bits (put_bits s p (field_bits v n)) p n) = take_bit n v"
  using get_bits_put_bits [of p "field_bits v n" s] assms by (simp add: field_val_bits)

end

end
