(* ===== verification/Bits.thy ===== *)
theory Bits
  imports Bit_Store
begin

text \<open>
  The bit-level support code of \<open>src/src/core/bits.c\<close> (and the inline functions of
  \<open>include/osmocom/core/bits.h\<close>): conversion between unpacked bits (\<open>ubit_t\<close>, one bit per
  octet), packed bits (\<open>pbit_t\<close>, eight per octet, most significant first) and soft bits
  (\<open>sbit_t\<close>), shifting a buffer by a nibble, and bit reversal. Output buffers are arguments
  and results, so that writing outside them is \<open>None\<close>.

  Shown: packing computes the packed form of its input and unpacking is its inverse; the
  extended versions with bit offsets touch exactly the addressed bits; nibble shifting
  left undoes shifting right; \<open>osmo_bit_reversal\<close> permutes the bits by exclusive-or of
  their index with the mode; the 256-entry table is bit reversal.
\<close>

subsection \<open>Unpacked and packed bits\<close>

definition osmo_pbit_bytesize :: "nat \<Rightarrow> nat" where
  "osmo_pbit_bytesize num_bits =
     (let pbit_bytesize = num_bits div 8
      in if num_bits mod 8 \<noteq> 0 then pbit_bytesize + 1 else pbit_bytesize)"

text \<open>One iteration of the packing loop; the state is \<open>(out, curbyte, outptr - out)\<close>.\<close>

definition ubit2pbit_body ::
  "u8 list \<Rightarrow> nat \<Rightarrow> u8 list \<times> u8 \<times> nat \<Rightarrow> (u8 list \<times> u8 \<times> nat) res" where
  "ubit2pbit_body inp i = (\<lambda>(out, curbyte, outptr). do {
     b \<leftarrow> rd inp i;
     let curbyte = curbyte OR push_bit (7 - i mod 8) b;
     if i mod 8 = 7 then do { out \<leftarrow> wr out outptr curbyte; Some (out, 0, outptr + 1) }
     else Some (out, curbyte, outptr)
   })"

definition osmo_ubit2pbit :: "u8 list \<Rightarrow> u8 list \<Rightarrow> nat \<Rightarrow> (u8 list \<times> nat) res" where
  "osmo_ubit2pbit out inp num_bits = do {
     (out, curbyte, outptr) \<leftarrow> for_loop 0 num_bits (ubit2pbit_body inp) (out, 0, 0);
     if num_bits mod 8 \<noteq> 0 then do { out \<leftarrow> wr out outptr curbyte; Some (out, outptr + 1) }
     else Some (out, outptr)
   }"

text \<open>The eight unrolled stores of \<open>osmo_pbit2ubit\<close>: \<open>Inl\<close> is the \<open>break\<close>.\<close>

fun pbit2ubit_stores ::
  "nat \<Rightarrow> u8 \<Rightarrow> nat list \<Rightarrow> u8 list \<times> nat \<Rightarrow> ((u8 list \<times> nat) + (u8 list \<times> nat)) res" where
  "pbit2ubit_stores limit byte [] s = Some (Inr s)"
| "pbit2ubit_stores limit byte (k # ks) (out, cur) = do {
     out \<leftarrow> wr out cur (drop_bit k byte AND 1);
     if limit \<le> cur + 1 then Some (Inl (out, cur + 1))
     else pbit2ubit_stores limit byte ks (out, cur + 1)
   }"

definition osmo_pbit2ubit :: "u8 list \<Rightarrow> u8 list \<Rightarrow> nat \<Rightarrow> (u8 list \<times> nat) res" where
  "osmo_pbit2ubit out inp num_bits = do {
     r \<leftarrow> for_break 0 (num_bits div 8 + 1)
           (\<lambda>i s. do { byte \<leftarrow> rd inp i;
                       pbit2ubit_stores num_bits byte [7, 6, 5, 4, 3, 2, 1, 0] s }) (out, 0);
     Some (case r of Inl s \<Rightarrow> s | Inr s \<Rightarrow> s)
   }"

subsection \<open>The extended conversions: bit offsets and both bit orders\<close>

definition osmo_ubit2pbit_ext ::
  "u8 list \<Rightarrow> nat \<Rightarrow> u8 list \<Rightarrow> nat \<Rightarrow> nat \<Rightarrow> bool \<Rightarrow> (u8 list \<times> nat) res" where
  "osmo_ubit2pbit_ext out out_ofs inp in_ofs num_bits lsb_mode = do {
     out \<leftarrow> for_loop 0 num_bits (\<lambda>i out. do {
       let opos = wrap32 (out_ofs + i);
       let bn = (if lsb_mode then opos mod 8 else 7 - opos mod 8);
       b \<leftarrow> rd inp (wrap32 (in_ofs + i));
       o8 \<leftarrow> rd out (opos div 8);
       if b \<noteq> 0 then wr out (opos div 8) (o8 OR push_bit bn 1)
       else wr out (opos div 8) (o8 AND NOT (push_bit bn 1))
     }) out;
     Some (out, wrap32 (sub32 (wrap32 (out_ofs + num_bits)) 1 div 8 + 1))
   }"

definition osmo_pbit2ubit_ext ::
  "u8 list \<Rightarrow> nat \<Rightarrow> u8 list \<Rightarrow> nat \<Rightarrow> nat \<Rightarrow> bool \<Rightarrow> (u8 list \<times> nat) res" where
  "osmo_pbit2ubit_ext out out_ofs inp in_ofs num_bits lsb_mode = do {
     out \<leftarrow> for_loop 0 num_bits (\<lambda>i out. do {
       let ip = wrap32 (in_ofs + i);
       let bn = (if lsb_mode then ip mod 8 else 7 - ip mod 8);
       i8 \<leftarrow> rd inp (ip div 8);
       wr out (wrap32 (out_ofs + i)) (if i8 AND push_bit bn 1 \<noteq> 0 then 1 else 0)
     }) out;
     Some (out, wrap32 (out_ofs + num_bits))
   }"

subsection \<open>Soft bits\<close>

type_synonym s8 = "8 word"

definition osmo_ubit2sbit :: "s8 list \<Rightarrow> u8 list \<Rightarrow> nat \<Rightarrow> s8 list res" where
  "osmo_ubit2sbit out inp num_bits =
     for_loop 0 num_bits (\<lambda>i out. do {
       b \<leftarrow> rd inp i;
       wr out i (if b \<noteq> 0 then word_of_int (- 127) else 127)
     }) out"

definition osmo_sbit2ubit :: "u8 list \<Rightarrow> s8 list \<Rightarrow> nat \<Rightarrow> u8 list res" where
  "osmo_sbit2ubit out inp num_bits =
     for_loop 0 num_bits (\<lambda>i out. do {
       b \<leftarrow> rd inp i;
       wr out i (if sint b < 0 then 1 else 0)
     }) out"

subsection \<open>Shifting a buffer by one nibble\<close>

text \<open>The expressions \<open>((p & 0xF) << 4) | (c >> 4)\<close> and \<open>(p & 0xF) << 4\<close>.\<close>

definition nib_join :: "u8 \<Rightarrow> u8 \<Rightarrow> u8" where
  "nib_join p c = push_bit 4 (p AND 0xF) OR drop_bit 4 c"

definition nib_last :: "u8 \<Rightarrow> u8" where
  "nib_last p = push_bit 4 (p AND 0xF)"

definition osmo_nibble_shift_right :: "u8 list \<Rightarrow> u8 list \<Rightarrow> nat \<Rightarrow> u8 list res" where
  "osmo_nibble_shift_right out inp num_nibbles =
     (let num_whole_bytes = num_nibbles div 2 in
      if num_whole_bytes = 0 then Some out else do {
        a0 \<leftarrow> rd inp 0;
        out \<leftarrow> wr out 0 (drop_bit 4 a0);
        out \<leftarrow> for_loop 1 num_whole_bytes (\<lambda>i out. do {
          p \<leftarrow> rd inp (i - 1);
          c \<leftarrow> rd inp i;
          wr out i (nib_join p c) }) out;
        let i = num_whole_bytes;
        p \<leftarrow> rd inp (i - 1);
        if num_nibbles mod 2 = 1 then do {
          c \<leftarrow> rd inp i;
          wr out i (nib_join p c) }
        else wr out i (nib_last p)
      })"

definition osmo_nibble_shift_left_unal :: "u8 list \<Rightarrow> u8 list \<Rightarrow> nat \<Rightarrow> u8 list res" where
  "osmo_nibble_shift_left_unal out inp num_nibbles =
     (let num_whole_bytes = num_nibbles div 2 in
      if num_whole_bytes = 0 then Some out else do {
        out \<leftarrow> for_loop 0 num_whole_bytes (\<lambda>i out. do {
          c \<leftarrow> rd inp i;
          n \<leftarrow> rd inp (i + 1);
          wr out i (nib_join c n) }) out;
        let i = num_whole_bytes;
        if num_nibbles mod 2 = 1 then do {
          c \<leftarrow> rd inp i;
          wr out i (nib_last c) }
        else Some out
      })"

subsection \<open>Bit reversal\<close>

definition flip_table :: "u8 list" where
  "flip_table = [
    0x00, 0x80, 0x40, 0xc0, 0x20, 0xa0, 0x60, 0xe0, 0x10, 0x90, 0x50, 0xd0, 0x30, 0xb0, 0x70, 0xf0,
    0x08, 0x88, 0x48, 0xc8, 0x28, 0xa8, 0x68, 0xe8, 0x18, 0x98, 0x58, 0xd8, 0x38, 0xb8, 0x78, 0xf8,
    0x04, 0x84, 0x44, 0xc4, 0x24, 0xa4, 0x64, 0xe4, 0x14, 0x94, 0x54, 0xd4, 0x34, 0xb4, 0x74, 0xf4,
    0x0c, 0x8c, 0x4c, 0xcc, 0x2c, 0xac, 0x6c, 0xec, 0x1c, 0x9c, 0x5c, 0xdc, 0x3c, 0xbc, 0x7c, 0xfc,
    0x02, 0x82, 0x42, 0xc2, 0x22, 0xa2, 0x62, 0xe2, 0x12, 0x92, 0x52, 0xd2, 0x32, 0xb2, 0x72, 0xf2,
    0x0a, 0x8a, 0x4a, 0xca, 0x2a, 0xaa, 0x6a, 0xea, 0x1a, 0x9a, 0x5a, 0xda, 0x3a, 0xba, 0x7a, 0xfa,
    0x06, 0x86, 0x46, 0xc6, 0x26, 0xa6, 0x66, 0xe6, 0x16, 0x96, 0x56, 0xd6, 0x36, 0xb6, 0x76, 0xf6,
    0x0e, 0x8e, 0x4e, 0xce, 0x2e, 0xae, 0x6e, 0xee, 0x1e, 0x9e, 0x5e, 0xde, 0x3e, 0xbe, 0x7e, 0xfe,
    0x01, 0x81, 0x41, 0xc1, 0x21, 0xa1, 0x61, 0xe1, 0x11, 0x91, 0x51, 0xd1, 0x31, 0xb1, 0x71, 0xf1,
    0x09, 0x89, 0x49, 0xc9, 0x29, 0xa9, 0x69, 0xe9, 0x19, 0x99, 0x59, 0xd9, 0x39, 0xb9, 0x79, 0xf9,
    0x05, 0x85, 0x45, 0xc5, 0x25, 0xa5, 0x65, 0xe5, 0x15, 0x95, 0x55, 0xd5, 0x35, 0xb5, 0x75, 0xf5,
    0x0d, 0x8d, 0x4d, 0xcd, 0x2d, 0xad, 0x6d, 0xed, 0x1d, 0x9d, 0x5d, 0xdd, 0x3d, 0xbd, 0x7d, 0xfd,
    0x03, 0x83, 0x43, 0xc3, 0x23, 0xa3, 0x63, 0xe3, 0x13, 0x93, 0x53, 0xd3, 0x33, 0xb3, 0x73, 0xf3,
    0x0b, 0x8b, 0x4b, 0xcb, 0x2b, 0xab, 0x6b, 0xeb, 0x1b, 0x9b, 0x5b, 0xdb, 0x3b, 0xbb, 0x7b, 0xfb,
    0x07, 0x87, 0x47, 0xc7, 0x27, 0xa7, 0x67, 0xe7, 0x17, 0x97, 0x57, 0xd7, 0x37, 0xb7, 0x77, 0xf7,
    0x0f, 0x8f, 0x4f, 0xcf, 0x2f, 0xaf, 0x6f, 0xef, 0x1f, 0x9f, 0x5f, 0xdf, 0x3f, 0xbf, 0x7f, 0xff]"

text \<open>One stage \<open>(x & m) << s | (x & m') >> s\<close> of the reversals.\<close>

definition swap_bits :: "nat \<Rightarrow> u32 \<Rightarrow> u32 \<Rightarrow> u32 \<Rightarrow> u32" where
  "swap_bits s m m' x = push_bit s (x AND m) OR drop_bit s (x AND m')"

definition osmo_bit_reversal :: "u32 \<Rightarrow> nat \<Rightarrow> u32" where
  "osmo_bit_reversal x k =
     (let x = (if bit k 0 then swap_bits 1 0x55555555 0xAAAAAAAA x else x);
          x = (if bit k 1 then swap_bits 2 0x33333333 0xCCCCCCCC x else x);
          x = (if bit k 2 then swap_bits 4 0x0F0F0F0F 0xF0F0F0F0 x else x);
          x = (if bit k 3 then swap_bits 8 0x00FF00FF 0xFF00FF00 x else x);
          x = (if bit k 4 then swap_bits 16 0x0000FFFF 0xFFFF0000 x else x)
      in x)"

definition OSMO_BR_BITS_IN_DWORD :: nat where "OSMO_BR_BITS_IN_DWORD = 31"
definition OSMO_BR_BYTES_IN_DWORD :: nat where "OSMO_BR_BYTES_IN_DWORD = 24"
definition OSMO_BR_BITS_IN_BYTE :: nat where "OSMO_BR_BITS_IN_BYTE = 7"
definition OSMO_BR_WORD_SWAP :: nat where "OSMO_BR_WORD_SWAP = 16"

definition osmo_revbytebits_32 :: "u32 \<Rightarrow> u32" where
  "osmo_revbytebits_32 x =
     (let x = swap_bits 1 0x55555555 0xAAAAAAAA x;
          x = swap_bits 2 0x33333333 0xCCCCCCCC x;
          x = swap_bits 4 0x0F0F0F0F 0xF0F0F0F0 x
      in x)"

definition osmo_revbytebits_8 :: "u8 \<Rightarrow> u32" where
  "osmo_revbytebits_8 x = ucast (flip_table ! unat x)"

definition osmo_revbytebits_buf :: "u8 list \<Rightarrow> int \<Rightarrow> u8 list res" where
  "osmo_revbytebits_buf buf len =
     for_loop 0 (nat len) (\<lambda>i buf. do { b \<leftarrow> rd buf i; wr buf i (flip_table ! unat b) }) buf"

text \<open>\<open>osmo_rol16\<close>: the operands are promoted to \<open>int\<close> and the result truncated to 16 bits.\<close>

definition osmo_rol16 :: "u16 \<Rightarrow> nat \<Rightarrow> u16" where
  "osmo_rol16 x shift = push_bit shift x OR drop_bit (16 - shift) x"

section \<open>Properties\<close>

subsection \<open>Packing\<close>

lemma osmo_pbit_bytesize_alt: "osmo_pbit_bytesize n = (n + 7) div 8"
  unfolding osmo_pbit_bytesize_def Let_def by (rule octets_ceil)

text \<open>The first \<open>n\<close> octets of a buffer are unpacked bits.\<close>

definition ubits :: "nat \<Rightarrow> u8 list \<Rightarrow> bool" where
  "ubits n buf \<longleftrightarrow> n \<le> length buf \<and> (\<forall>i<n. buf ! i \<in> {0, 1})"

text \<open>What packing leaves in the buffers: the invariant of the loop after \<open>i\<close> bits.\<close>

definition pack_inv :: "u8 list \<Rightarrow> u8 list \<Rightarrow> nat \<Rightarrow> u8 list \<times> u8 \<times> nat \<Rightarrow> bool" where
  "pack_inv out inp i = (\<lambda>(out', cur, p).
     p = i div 8 \<and> length out' = length out \<and>
     (\<forall>k < 8 * p. pbit out' k = (inp ! k = 1)) \<and>
     (\<forall>j < 8. msb_bit cur j = (j < i mod 8 \<and> inp ! (8 * p + j) = 1)) \<and>
     drop p out' = drop p out)"

lemma msb_bit_or_ubit:
  "k < 8 \<Longrightarrow> j < 8 \<Longrightarrow> b \<in> {0, 1} \<Longrightarrow>
   msb_bit (w OR push_bit (7 - k) b) j = (msb_bit w j \<or> (j = k \<and> b = 1))"
  by (auto simp: msb_bit_def bit_simps)

lemma pbit_list_update:
  "k < length buf \<Longrightarrow> pbit (buf[k := v]) i = (if i div 8 = k then msb_bit v (i mod 8) else pbit buf i)"
  by (auto simp: pbit_def)

lemma ubit2pbit_step:
  assumes inv: "pack_inv out inp i s" and "i < n" "ubits n inp"
    and size: "osmo_pbit_bytesize n \<le> length out"
  shows "\<exists>s'. ubit2pbit_body inp i s = Some s' \<and> pack_inv out inp (Suc i) s'"
proof -
  obtain out' cur p where s: "s = (out', cur, p)" by (cases s)
  define b where "b = inp ! i"
  have b: "b \<in> {0, 1}"
    using assms(2,3) by (simp add: b_def ubits_def)
  have ilen: "i < length inp" using assms(2,3) by (simp add: ubits_def)
  have p: "p = i div 8" "length out' = length out"
    and low: "\<forall>k < 8 * p. pbit out' k = (inp ! k = 1)"
    and cur: "\<forall>j < 8. msb_bit cur j = (j < i mod 8 \<and> inp ! (8 * p + j) = 1)"
    and rest: "drop p out' = drop p out"
    using inv unfolding pack_inv_def s prod.case by blast+
  have plen: "p < length out'"
    using p assms(2) size by (simp add: osmo_pbit_bytesize_alt)
  have i: "8 * p + i mod 8 = i" using p(1) by simp
  have cur': "\<forall>j < 8. msb_bit (cur OR push_bit (7 - i mod 8) b) j = (j \<le> i mod 8 \<and> inp ! (8 * p + j) = 1)"
    using cur b i by (auto simp: msb_bit_or_ubit b_def le_less)
  show ?thesis
  proof (cases "i mod 8 = 7")
    case True
    let ?w = "cur OR push_bit (7 - i mod 8) b"
    from True p(1) have si: "Suc i div 8 = Suc p" "Suc i mod 8 = 0" by (simp_all add: Suc_octet)
    have "\<forall>k < 8 * Suc p. pbit (out'[p := ?w]) k = (inp ! k = 1)"
    proof (intro allI impI)
      fix k assume k: "k < 8 * Suc p"
      show "pbit (out'[p := ?w]) k = (inp ! k = 1)"
      proof (cases "k < 8 * p")
        case True
        then have "k div 8 \<noteq> p" by auto
        with True low plen show ?thesis by (simp add: pbit_list_update)
      next
        case False
        with k have kp: "k div 8 = p" by auto
        have "8 * p + k mod 8 = k" unfolding kp [symmetric] by simp
        with kp cur' \<open>i mod 8 = 7\<close> plen show ?thesis by (simp add: pbit_list_update)
      qed
    qed
    moreover have "drop (Suc p) (out'[p := ?w]) = drop (Suc p) out"
      using rest by (metis drop_Suc drop_update_cancel lessI tl_drop)
    ultimately show ?thesis
      using True si p plen ilen by (simp add: ubit2pbit_body_def s rd_Some wr_Some b_def [symmetric] pack_inv_def msb_bit_def)
  next
    case False
    then have si: "Suc i div 8 = p" "Suc i mod 8 = Suc (i mod 8)" using p(1) by (simp_all add: Suc_octet)
    show ?thesis
      using False si p ilen low cur' rest
      by (simp add: ubit2pbit_body_def s rd_Some b_def [symmetric] pack_inv_def less_Suc_eq_le)
  qed
qed

lemma ubit2pbit_spec:
  assumes "ubits n inp" and "osmo_pbit_bytesize n \<le> length out"
  shows "\<exists>out'. osmo_ubit2pbit out inp n = Some (out', osmo_pbit_bytesize n) \<and>
           length out' = length out \<and>
           (\<forall>k < 8 * osmo_pbit_bytesize n. pbit out' k = (k < n \<and> inp ! k = 1)) \<and>
           drop (osmo_pbit_bytesize n) out' = drop (osmo_pbit_bytesize n) out"
proof -
  have "pack_inv out inp 0 (out, 0, 0)" by (simp add: pack_inv_def msb_bit_def)
  then obtain s where loop: "for_loop 0 n (ubit2pbit_body inp) (out, 0, 0) = Some s"
    and inv: "pack_inv out inp n s"
    using for_loop_rule [where P = "pack_inv out inp" and lo = 0 and hi = n and body = "ubit2pbit_body inp"]
      ubit2pbit_step [OF _ _ assms] by blast
  obtain out' cur p where s: "s = (out', cur, p)" by (cases s)
  have p: "p = n div 8" "length out' = length out"
    and low: "\<forall>k < 8 * p. pbit out' k = (inp ! k = 1)"
    and cur: "\<forall>j < 8. msb_bit cur j = (j < n mod 8 \<and> inp ! (8 * p + j) = 1)"
    and rest: "drop p out' = drop p out"
    using inv unfolding pack_inv_def s prod.case by blast+
  show ?thesis
  proof (cases "n mod 8 = 0")
    case True
    then have n: "n = 8 * p" using p(1) by auto
    then show ?thesis using True loop low rest p
      by (simp add: osmo_ubit2pbit_def s osmo_pbit_bytesize_def Let_def)
  next
    case False
    have size: "osmo_pbit_bytesize n = Suc p" using False p(1) by (simp add: osmo_pbit_bytesize_def Let_def)
    then have plen: "p < length out'" using assms(2) p(2) by simp
    have "pbit (out'[p := cur]) k = (k < n \<and> inp ! k = 1)" if k: "k < 8 * Suc p" for k
    proof (cases "k < 8 * p")
      case True
      then have "k div 8 \<noteq> p" "k < n" using p(1) by auto
      with True low plen show ?thesis by (simp add: pbit_list_update)
    next
      case k': False
      with k have kp: "k div 8 = p" by auto
      have km: "8 * p + k mod 8 = k" unfolding kp [symmetric] by simp
      have "k < n \<longleftrightarrow> k mod 8 < n mod 8" using km p(1) by (metis mult_div_mod_eq nat_add_left_cancel_less)
      with kp km cur plen show ?thesis by (simp add: pbit_list_update)
    qed
    moreover have "drop (Suc p) (out'[p := cur]) = drop (Suc p) out"
      using rest by (metis drop_Suc drop_update_cancel lessI tl_drop)
    ultimately show ?thesis using False loop plen p(2)
      by (simp add: osmo_ubit2pbit_def s size wr_Some)
  qed
qed

subsection \<open>Unpacking\<close>

lemma pbit2ubit_stores_spec:
  assumes "ks \<noteq> []" and "n \<le> length out" and "cur < n"
  shows "pbit2ubit_stores n byte ks (out, cur) =
    (let m = min (length ks) (n - cur);
         s = (take cur out @ map (\<lambda>k. drop_bit k byte AND 1) (take m ks) @ drop (cur + m) out, cur + m)
     in Some (if n \<le> cur + length ks then Inl s else Inr s))"
  using assms
proof (induction ks arbitrary: out cur)
  case Nil
  then show ?case by simp
next
  case (Cons k ks)
  let ?v = "drop_bit k byte AND 1" and ?out = "out[cur := drop_bit k byte AND 1]"
  have out: "?out = take cur out @ [?v] @ drop (Suc cur) out"
    using Cons.prems by (simp add: upd_conv_take_nth_drop)
  have w: "wr out cur ?v = Some ?out" using Cons.prems by (simp add: wr_Some)
  consider "n \<le> cur + 1" | "cur + 1 < n" "ks = []" | "cur + 1 < n" "ks \<noteq> []" by linarith
  then show ?case
  proof cases
    case 1
    with Cons.prems have "n - cur = 1" by simp
    with 1 w out show ?thesis by (simp add: Let_def)
  next
    case 2
    with w out show ?thesis by (simp add: Let_def)
  next
    case 3
    have m: "min (Suc (length ks)) (n - cur) = Suc (min (length ks) (n - Suc cur))" using 3 by simp
    have t: "take (Suc cur) ?out = take cur out @ [?v]"
      using Cons.prems by (simp add: take_Suc_conv_app_nth)
    have d: "drop (Suc (cur + m)) ?out = drop (Suc (cur + m)) out" for m by simp
    show ?thesis
      using Cons.IH [of ?out "Suc cur"] 3 Cons.prems w by (simp add: Let_def m t d)
  qed
qed

definition ubits_of :: "u8 list \<Rightarrow> nat \<Rightarrow> u8 list" where
  "ubits_of buf n = map (\<lambda>k. if pbit buf k then 1 else 0) [0..<n]"

lemma ubits_of_add:
  "ubits_of buf (a + b) = ubits_of buf a @ map (\<lambda>k. if pbit buf k then 1 else 0) [a..<a + b]"
  unfolding ubits_of_def using upt_add_eq_append [of 0 a b] by simp

lemma drop_bit_and_one: "drop_bit (7 - j) (w :: u8) AND 1 = (if msb_bit w j then 1 else 0)"
  by (auto simp: msb_bit_def u8_eq_iff bit_simps bit_1_iff intro!: gr0I)

lemma unpack_octet:
  assumes "m \<le> 8"
  shows "map (\<lambda>k. drop_bit k (buf ! i) AND 1) (take m [7, 6, 5, 4, 3, 2, 1, 0]) =
         map (\<lambda>k. if pbit buf k then 1 else 0) [8 * i..<8 * i + m]"
proof (rule nth_equalityI)
  show "length (map (\<lambda>k. drop_bit k (buf ! i) AND 1) (take m [7, 6, 5, 4, 3, 2, 1, 0])) =
        length (map (\<lambda>k. if pbit buf k then 1 else 0 :: u8) [8 * i..<8 * i + m])"
    using assms by simp
next
  fix j
  assume "j < length (map (\<lambda>k. drop_bit k (buf ! i) AND 1) (take m [7, 6, 5, 4, 3, 2, 1, 0]))"
  then have j: "j < m" "j < 8" by auto
  have "[7, 6, 5, 4, 3, 2, 1, 0] = map (\<lambda>j. 7 - j) [0..<8]" by (simp add: upt_rec)
  then have "[7, 6, 5, 4, 3, 2, 1, 0] ! j = 7 - j" using j(2) by (metis add_0 diff_zero length_upt nth_map nth_upt)
  then show "map (\<lambda>k. drop_bit k (buf ! i) AND 1) (take m [7, 6, 5, 4, 3, 2, 1, 0]) ! j =
             map (\<lambda>k. if pbit buf k then 1 else 0) [8 * i..<8 * i + m] ! j"
    using j by (simp add: drop_bit_and_one pbit_def)
qed

lemma pbit2ubit_spec:
  assumes "0 < n" and "osmo_pbit_bytesize n \<le> length inp" and "n \<le> length out"
  shows "osmo_pbit2ubit out inp n = Some (ubits_of inp n @ drop n out, n)"
proof -
  let ?body = "\<lambda>i s. do { byte \<leftarrow> rd inp i; pbit2ubit_stores n byte [7, 6, 5, 4, 3, 2, 1, 0] s }"
  let ?P = "\<lambda>i s. 8 * i < n \<and> s = (ubits_of inp (8 * i) @ drop (8 * i) out, 8 * i)"
  let ?Q = "\<lambda>s. s = (ubits_of inp n @ drop n out, n)"
  have step: "(\<exists>t'. ?body i t = Some (Inr t') \<and> ?P (Suc i) t') \<or> (\<exists>r. ?body i t = Some (Inl r) \<and> ?Q r)"
    if P: "?P i t" for i t
  proof -
    have i: "8 * i < n" "i < length inp" using P assms(2) by (auto simp: osmo_pbit_bytesize_alt)
    let ?out = "ubits_of inp (8 * i) @ drop (8 * i) out"
    have len: "length (ubits_of inp (8 * i)) = 8 * i" by (simp add: ubits_of_def)
    define m where "m = min 8 (n - 8 * i)"
    have m8: "m \<le> 8" by (simp add: m_def)
    have "?body i t = pbit2ubit_stores n (inp ! i) [7, 6, 5, 4, 3, 2, 1, 0] (?out, 8 * i)"
      using P i by (simp add: rd_Some)
    also have "\<dots> = Some ((if n \<le> 8 * i + 8 then Inl else Inr)
        (ubits_of inp (8 * i + m) @ drop (8 * i + m) out, 8 * i + m))"
    proof -
      have "take (8 * i) ?out @ map (\<lambda>k. drop_bit k (inp ! i) AND 1) (take m [7, 6, 5, 4, 3, 2, 1, 0]) @
            drop (8 * i + m) ?out = ubits_of inp (8 * i + m) @ drop (8 * i + m) out"
        unfolding unpack_octet [OF m8] ubits_of_add by (simp add: len add.commute del: upt_Suc)
      moreover have "min (length [7, 6, 5, 4, 3, 2, 1, 0 :: nat]) (n - 8 * i) = m" by (simp add: m_def)
      ultimately show ?thesis
        using i assms(3) len pbit2ubit_stores_spec [of "[7, 6, 5, 4, 3, 2, 1, 0]" n ?out "8 * i" "inp ! i"]
        by (simp only: Let_def) simp
    qed
    finally have body: "?body i t = \<dots>" .
    show ?thesis
    proof (cases "n \<le> 8 * i + 8")
      case True
      then have "8 * i + m = n" using i by (simp add: m_def)
      with body True show ?thesis by simp
    next
      case False
      then have "8 * i + m = 8 * Suc i" by (simp add: m_def)
      with body False show ?thesis by (simp add: add.commute)
    qed
  qed
  have "?P 0 (out, 0)" using assms(1) by (simp add: ubits_of_def)
  then have "(\<exists>s'. for_break 0 (n div 8 + 1) ?body (out, 0) = Some (Inr s') \<and> ?P (n div 8 + 1) s') \<or>
        (\<exists>r. for_break 0 (n div 8 + 1) ?body (out, 0) = Some (Inl r) \<and> ?Q r)"
    using step by (intro for_break_rule) auto
  moreover have "\<not> 8 * (n div 8 + 1) < n" by presburger
  ultimately have "for_break 0 (n div 8 + 1) ?body (out, 0) = Some (Inl (ubits_of inp n @ drop n out, n))"
    by blast
  then show ?thesis by (simp add: osmo_pbit2ubit_def)
qed

subsection \<open>The extended conversions\<close>

text \<open>Bit \<open>p\<close> of a packed buffer in either bit order.\<close>

definition ebit_place :: "bool \<Rightarrow> nat \<Rightarrow> nat" where
  "ebit_place lsb_mode p = (if lsb_mode then p mod 8 else 7 - p mod 8)"

definition ebit :: "bool \<Rightarrow> u8 list \<Rightarrow> nat \<Rightarrow> bool" where
  "ebit lsb_mode buf p = bit (buf ! (p div 8)) (ebit_place lsb_mode p)"

lemma ebit_cases: "ebit True buf p = bit (buf ! (p div 8)) (p mod 8)" "ebit False buf p = bit (buf ! (p div 8)) (7 - p mod 8)"
  by (simp_all add: ebit_def ebit_place_def)

lemma ebit_place_less [simp]: "ebit_place lsb p < 8"
  by (auto simp: ebit_place_def intro: le_less_trans [of _ 7])

lemma ebit_place_inj:
  assumes "p div 8 = q div 8" and "ebit_place lsb p = ebit_place lsb q"
  shows "p = q"
proof -
  have "p mod 8 < 8" "q mod 8 < 8" by simp_all
  with assms(2) have "p mod 8 = q mod 8" by (auto simp: ebit_place_def split: if_splits)
  with assms(1) show ?thesis by (metis div_mult_mod_eq)
qed

text \<open>Setting or clearing one bit of a packed buffer.\<close>

definition ebit_upd :: "bool \<Rightarrow> u8 list \<Rightarrow> nat \<Rightarrow> bool \<Rightarrow> u8 list" where
  "ebit_upd lsb buf p b =
     buf[p div 8 := (if b then buf ! (p div 8) OR push_bit (ebit_place lsb p) 1
                     else buf ! (p div 8) AND NOT (push_bit (ebit_place lsb p) 1))]"

lemma length_ebit_upd [simp]: "length (ebit_upd lsb buf p b) = length buf"
  by (simp add: ebit_upd_def)

lemma ebit_upd_same: "p < 8 * length buf \<Longrightarrow> ebit lsb (ebit_upd lsb buf p b) p = b"
  by (auto simp: ebit_def ebit_upd_def bit_simps less_mult_imp_div_less mult.commute)

lemma ebit_upd_other: "p < 8 * length buf \<Longrightarrow> q \<noteq> p \<Longrightarrow> ebit lsb (ebit_upd lsb buf p b) q = ebit lsb buf q"
  using ebit_place_inj [of p q lsb]
  by (cases "p div 8 = q div 8") (auto simp: ebit_def ebit_upd_def bit_simps nth_list_update)

text \<open>A packed buffer is a bit store, in both bit orders.\<close>

interpretation pk: bit_store "ebit lsb" "ebit_upd lsb" "\<lambda>buf. 8 * length buf" for lsb
  by unfold_locales (simp_all add: ebit_upd_same ebit_upd_other)

lemma ubit2pbit_ext_spec:
  assumes "out_ofs + n \<le> 8 * length out" and "in_ofs + n \<le> length inp"
    and "out_ofs + n < UINT_MAX1" and "in_ofs + n < UINT_MAX1"
  shows "\<exists>out'. osmo_ubit2pbit_ext out out_ofs inp in_ofs n lsb =
             Some (out', wrap32 (sub32 (out_ofs + n) 1 div 8 + 1)) \<and>
           length out' = length out \<and>
           (\<forall>p. ebit lsb out' p =
              (if out_ofs \<le> p \<and> p < out_ofs + n then inp ! (in_ofs + (p - out_ofs)) \<noteq> 0
               else ebit lsb out p))"
proof -
  let ?body = "\<lambda>i out. do {
       let opos = wrap32 (out_ofs + i);
       let bn = ebit_place lsb opos;
       b \<leftarrow> rd inp (wrap32 (in_ofs + i));
       o8 \<leftarrow> rd out (opos div 8);
       if b \<noteq> 0 then wr out (opos div 8) (o8 OR push_bit bn 1)
       else wr out (opos div 8) (o8 AND NOT (push_bit bn 1))
     }"
  let ?P = "\<lambda>i buf. length buf = length out \<and>
      (\<forall>p. ebit lsb buf p =
         (if out_ofs \<le> p \<and> p < out_ofs + i then inp ! (in_ofs + (p - out_ofs)) \<noteq> 0 else ebit lsb out p))"
  have step: "\<exists>t'. ?body i t = Some t' \<and> ?P (Suc i) t'" if "i < n" and P: "?P i t" for i t
  proof -
    let ?t = "ebit_upd lsb t (out_ofs + i) (inp ! (in_ofs + i) \<noteq> 0)"
    have pos: "out_ofs + i < 8 * length t" using \<open>i < n\<close> P assms(1) by simp
    then have "(out_ofs + i) div 8 < length t" by simp
    then have "?body i t = Some ?t" using \<open>i < n\<close> assms
      by (simp add: rd_Some wr_Some ebit_upd_def Let_def)
    moreover have "?P (Suc i) ?t"
      using P ebit_upd_same [OF pos] ebit_upd_other [OF pos] by (auto simp: less_Suc_eq)
    ultimately show ?thesis by blast
  qed
  have "?P 0 out" by auto
  then obtain out' where "for_loop 0 n ?body out = Some out'" "?P n out'"
    using step for_loop_rule [where P = ?P and lo = 0 and hi = n and body = ?body] by blast
  with assms(3) show ?thesis unfolding osmo_ubit2pbit_ext_def [folded ebit_place_def] by auto
qed

lemma pbit2ubit_ext_spec:
  assumes "out_ofs + n \<le> length out" and "in_ofs + n \<le> 8 * length inp"
    and "out_ofs + n < UINT_MAX1" and "in_ofs + n < UINT_MAX1"
  shows "\<exists>out'. osmo_pbit2ubit_ext out out_ofs inp in_ofs n lsb = Some (out', out_ofs + n) \<and>
           length out' = length out \<and>
           (\<forall>p < length out. out' ! p =
              (if out_ofs \<le> p \<and> p < out_ofs + n
               then (if ebit lsb inp (in_ofs + (p - out_ofs)) then 1 else 0) else out ! p))"
proof -
  let ?body = "\<lambda>i out. do {
       let ip = wrap32 (in_ofs + i);
       let bn = ebit_place lsb ip;
       i8 \<leftarrow> rd inp (ip div 8);
       wr out (wrap32 (out_ofs + i)) (if i8 AND push_bit bn 1 \<noteq> 0 then 1 else 0)
     }"
  let ?P = "\<lambda>i buf. length buf = length out \<and>
      (\<forall>p < length out. buf ! p =
         (if out_ofs \<le> p \<and> p < out_ofs + i
          then (if ebit lsb inp (in_ofs + (p - out_ofs)) then 1 else 0) else out ! p))"
  have step: "\<exists>t'. ?body i t = Some t' \<and> ?P (Suc i) t'" if "i < n" and P: "?P i t" for i t
  proof -
    let ?t = "t[out_ofs + i := (if ebit lsb inp (in_ofs + i) then 1 else 0)]"
    have "(in_ofs + i) div 8 < length inp" using \<open>i < n\<close> assms(2) by simp
    then have "?body i t = Some ?t" using \<open>i < n\<close> P assms
      by (simp add: rd_Some wr_Some ebit_def and_two_power_eq_0_iff Let_def)
    moreover have "?P (Suc i) ?t" using P by (auto simp: nth_list_update less_Suc_eq)
    ultimately show ?thesis by blast
  qed
  have "?P 0 out" by auto
  then obtain out' where "for_loop 0 n ?body out = Some out'" "?P n out'"
    using step for_loop_rule [where P = ?P and lo = 0 and hi = n and body = ?body] by blast
  with assms(3) show ?thesis unfolding osmo_pbit2ubit_ext_def [folded ebit_place_def] by auto
qed

subsection \<open>Nibble shifting\<close>

text \<open>Nibble \<open>k\<close> of a buffer, the high nibble of each octet first.\<close>

definition nib :: "u8 list \<Rightarrow> nat \<Rightarrow> u8" where
  "nib buf k = (if k mod 2 = 0 then drop_bit 4 (buf ! (k div 2)) else buf ! (k div 2) AND 0xF)"

lemma nib_of_join:
  "drop_bit 4 (nib_join a b) = a AND 0xF" "nib_join a b AND 0xF = drop_bit 4 b"
  "drop_bit 4 (nib_last a) = a AND 0xF" "nib_last a AND 0xF = 0"
  "drop_bit 4 (drop_bit 4 (b :: u8)) = 0" "drop_bit 4 b AND 0xF = drop_bit 4 (b :: u8)"
  unfolding nib_join_def nib_last_def
  by (auto simp: u8_eq_iff bit_simps u8_bit_cases)


lemma pred_parity:
  "0 < k div 2 \<Longrightarrow> (k - 1) div 2 = (if k mod 2 = 0 then k div 2 - 1 else k div 2)"
  "0 < k div 2 \<Longrightarrow> (k - 1) mod 2 = (if k mod 2 = 0 then 1 else (0 :: nat))"
  by presburger+

lemma nibble_shift_right_spec:
  assumes "2 \<le> n" and "(n + 1) div 2 \<le> length inp" and "n div 2 + 1 \<le> length out"
  shows "\<exists>out'. osmo_nibble_shift_right out inp n = Some out' \<and> length out' = length out \<and>
           (\<forall>k \<le> n. nib out' k = (if k = 0 then 0 else nib inp (k - 1)))"
proof -
  define w where "w = n div 2"
  have w: "0 < w" "w < length out" "w - 1 < length inp" "n mod 2 = 1 \<Longrightarrow> w < length inp"
    "\<And>i. i < w \<Longrightarrow> i < length inp" "0 < length inp"
    using assms by (auto simp: w_def) presburger+
  define f where "f i = nib_join (inp ! (i - 1)) (inp ! i)" for i
  define l where "l = (if n mod 2 = 1 then f w else nib_last (inp ! (w - 1)))"
  let ?body = "\<lambda>i out. do { p \<leftarrow> rd inp (i - 1); c \<leftarrow> rd inp i;
          wr out i (nib_join p c) }"
  let ?out = "out[0 := drop_bit 4 (inp ! 0)]"
  obtain o1 where o1: "for_loop 1 w ?body ?out = Some o1" "length o1 = length out"
    "\<forall>k < length out. o1 ! k = (if 1 \<le> k \<and> k < w then f k else ?out ! k)"
    using for_loop_pointwise [of 1 w ?out ?body f] w by (auto simp: rd_Some wr_Some f_def)
  have "0 < length out" using w(2) by linarith
  then have "osmo_nibble_shift_right out inp n = Some (o1[w := l])"
    using w o1 by (auto simp: osmo_nibble_shift_right_def w_def [symmetric] rd_Some wr_Some Let_def l_def f_def)
  moreover have "nib (o1[w := l]) k = (if k = 0 then 0 else nib inp (k - 1))" if "k \<le> n" for k
  proof -
    have kw: "k div 2 \<le> w" using that by (simp add: w_def div_le_mono)
    consider "k div 2 = 0" | "0 < k div 2" "k div 2 < w" | "0 < k div 2" "k div 2 = w" using kw by linarith
    then show ?thesis
    proof cases
      case 1
      then have "k = 0 \<or> k = 1" by auto
      moreover have "o1 ! 0 = drop_bit 4 (inp ! 0)" using w o1 by (cases out) auto
      ultimately show ?thesis using w by (auto simp: nib_def nib_of_join)
    next
      case 2
      then show ?thesis using pred_parity [of k] w o1 by (auto simp: nib_def nib_of_join f_def)
    next
      case 3
      have "k mod 2 = 1 \<Longrightarrow> n mod 2 = 1"
        using that 3(2) unfolding w_def by presburger
      then show ?thesis using 3 pred_parity [of k] w o1 by (auto simp: nib_def nib_of_join f_def l_def)
    qed
  qed
  ultimately show ?thesis using o1(2) by simp
qed

lemma nibble_shift_left_spec:
  assumes "2 \<le> n" and "n div 2 + 1 \<le> length inp" and "(n + 1) div 2 \<le> length out"
  shows "\<exists>out'. osmo_nibble_shift_left_unal out inp n = Some out' \<and> length out' = length out \<and>
           (\<forall>k < n. nib out' k = nib inp (k + 1))"
proof -
  define w where "w = n div 2"
  have w: "0 < w" "w \<le> length out" "n mod 2 = 1 \<Longrightarrow> w < length out" "w < length inp"
    using assms by (auto simp: w_def) presburger+
  define f where "f i = nib_join (inp ! i) (inp ! (i + 1))" for i
  let ?body = "\<lambda>i out. do { c \<leftarrow> rd inp i; n \<leftarrow> rd inp (i + 1);
          wr out i (nib_join c n) }"
  obtain o1 where o1: "for_loop 0 w ?body out = Some o1" "length o1 = length out"
    "\<forall>k < length out. o1 ! k = (if 0 \<le> k \<and> k < w then f k else out ! k)"
    using for_loop_pointwise [of 0 w out ?body f] w by (auto simp: rd_Some wr_Some f_def)
  define o2 where "o2 = (if n mod 2 = 1 then o1[w := nib_last (inp ! w)] else o1)"
  have "osmo_nibble_shift_left_unal out inp n = Some o2"
    using w o1 by (auto simp: osmo_nibble_shift_left_unal_def w_def [symmetric] rd_Some wr_Some Let_def o2_def)
  moreover have "nib o2 k = nib inp (k + 1)" if "k < n" for k
  proof -
    have kw: "k div 2 < w \<or> (k = 2 * w \<and> n mod 2 = 1)" using that by (simp add: w_def) presburger
    have idx: "(k + 1) div 2 = (if k mod 2 = 0 then k div 2 else k div 2 + 1)"
        "(k + 1) mod 2 = (if k mod 2 = 0 then 1 else 0)" by presburger+
    from kw show ?thesis
    proof
      assume "k div 2 < w"
      then show ?thesis using idx w o1 by (auto simp: nib_def nib_of_join f_def o2_def)
    next
      assume "k = 2 * w \<and> n mod 2 = 1"
      then show ?thesis using idx w o1 by (auto simp: nib_def nib_of_join o2_def)
    qed
  qed
  moreover have "length o2 = length out" using o1(2) by (simp add: o2_def)
  ultimately show ?thesis by blast
qed

lemma nibble_roundtrip:
  assumes "2 \<le> n" and "(n + 1) div 2 \<le> length inp" and "n div 2 + 1 \<le> length tmp"
    and "(n + 1) div 2 \<le> length out"
  shows "\<exists>mid out'. osmo_nibble_shift_right tmp inp n = Some mid \<and>
           osmo_nibble_shift_left_unal out mid n = Some out' \<and> (\<forall>k < n. nib out' k = nib inp k)"
proof -
  obtain mid where mid: "osmo_nibble_shift_right tmp inp n = Some mid" "length mid = length tmp"
    "\<forall>k \<le> n. nib mid k = (if k = 0 then 0 else nib inp (k - 1))"
    using nibble_shift_right_spec [OF assms(1-3)] by blast
  moreover obtain out' where "osmo_nibble_shift_left_unal out mid n = Some out'"
    "\<forall>k < n. nib out' k = nib mid (k + 1)"
    using nibble_shift_left_spec [of n mid out] mid(2) assms by auto
  ultimately show ?thesis by auto
qed

subsection \<open>Bit reversal\<close>



lemma swap_stage_general:
  fixes x m m' :: u32
  assumes "\<forall>j<32. (s \<le> j \<and> bit m (j - s)) = bit j t" and "\<forall>j<32. bit m' (s + j) = (\<not> bit j t)"
    and "\<forall>j<32. j XOR s = (if bit j t then j - s else s + j)" and "j < 32"
  shows "bit (swap_bits s m m' x) j = bit x (j XOR s)"
  using assms by (auto simp: swap_bits_def bit_simps)

lemma swap_stage:
  fixes x :: u32
  assumes "j < 32"
  shows "bit (swap_bits 1 0x55555555 0xAAAAAAAA x) j = bit x (j XOR 1)"
    and "bit (swap_bits 2 0x33333333 0xCCCCCCCC x) j = bit x (j XOR 2)"
    and "bit (swap_bits 4 0x0F0F0F0F 0xF0F0F0F0 x) j = bit x (j XOR 4)"
    and "bit (swap_bits 8 0x00FF00FF 0xFF00FF00 x) j = bit x (j XOR 8)"
    and "bit (swap_bits 16 0x0000FFFF 0xFFFF0000 x) j = bit x (j XOR 16)"
      apply (rule swap_stage_general [where t = 0, OF _ _ _ assms]; unfold all_less_list_all; code_simp)
     apply (rule swap_stage_general [where t = 1, OF _ _ _ assms]; unfold all_less_list_all; code_simp)
    apply (rule swap_stage_general [where t = 2, OF _ _ _ assms]; unfold all_less_list_all; code_simp)
   apply (rule swap_stage_general [where t = 3, OF _ _ _ assms]; unfold all_less_list_all; code_simp)
  apply (rule swap_stage_general [where t = 4, OF _ _ _ assms]; unfold all_less_list_all; code_simp)
  done

lemma xor_less_32: "j < (32::nat) \<Longrightarrow> m < 32 \<Longrightarrow> j XOR m < 32"
  using XOR_upper [of "int j" 5 "int m"] by (simp add: xor_nat_def)

text \<open>The bit of the argument that stage by stage ends up at bit \<open>j\<close> of the result.\<close>

definition br_index :: "nat \<Rightarrow> nat \<Rightarrow> nat" where
  "br_index k j = (let j = (if bit k 4 then j XOR 16 else j);
                       j = (if bit k 3 then j XOR 8 else j);
                       j = (if bit k 2 then j XOR 4 else j);
                       j = (if bit k 1 then j XOR 2 else j)
                   in if bit k 0 then j XOR 1 else j)"

lemma bit_osmo_bit_reversal: "j < 32 \<Longrightarrow> bit (osmo_bit_reversal x k) j = bit x (br_index k j)"
  by (simp add: osmo_bit_reversal_def br_index_def Let_def swap_stage xor_less_32 del: One_nat_def)

text \<open>The generator given in the comment above the table.\<close>

definition flip_gen :: "u8 \<Rightarrow> u8" where
  "flip_gen i = fold (\<lambda>k sample. if bit i k then sample OR drop_bit k 0x80 else sample) [0..<8] 0"

lemma bit_flip_gen: "j < 8 \<Longrightarrow> bit (flip_gen i) j = bit i (7 - j)"
  by (simp add: flip_gen_def upt_rec) (simp add: u8_bit_cases bit_simps; elim disjE; simp add: numeral_eq_Suc)

lemma flip_table_gen: "map flip_gen octets = flip_table"
  unfolding octets_def flip_table_def by (simp add: flip_gen_def upt_rec)

lemma flip_table_nth: "flip_table ! unat x = flip_gen x"
proof -
  have "unat x < 256" using unsigned_less [of x, where 'a = nat] by simp
  then show ?thesis unfolding flip_table_gen [symmetric] octets_eq by simp
qed

lemma flip_gen_flip_gen: "flip_gen (flip_gen x) = x"
proof (rule u8_eqI)
  fix j :: nat
  assume "j < 8"
  then have "7 - j < 8" "7 - (7 - j) = j" by auto
  with \<open>j < 8\<close> show "bit (flip_gen (flip_gen x)) j = bit x j" by (simp only: bit_flip_gen)
qed

lemma upt_32: "[0..<32] = [0, 1, 2, 3, 4, 5, 6, 7, 8, 9, 10, 11, 12, 13, 14, 15, 16, 17, 18, 19, 20, 21, 22, 23,
    24, 25, 26, 27, 28, 29, 30, 31]"
  by code_simp

lemma br_index_31: "j < 32 \<Longrightarrow> br_index 31 j = 31 - j"
proof -
  have k: "bit (31 :: nat) 0" "bit (31 :: nat) 1" "bit (31 :: nat) 2" "bit (31 :: nat) 3" "bit (31 :: nat) 4"
    by code_simp+
  have three: "3 = Suc (Suc (Suc 0))" by simp
  have "\<forall>j<32. ((((j XOR 16) XOR 8) XOR 4) XOR 2) XOR 1 = 31 - (j :: nat)"
    unfolding all_less_list_all upt_32 by (simp flip: three)
  then show "j < 32 \<Longrightarrow> br_index 31 j = 31 - j" by (simp only: br_index_def k Let_def if_True)
qed

lemma osmo_revbytebits_buf_eq: "osmo_revbytebits_buf buf (int (length buf)) = Some (map flip_gen buf)"
proof -
  let ?body = "\<lambda>i buf. do { b \<leftarrow> rd buf i; wr buf i (flip_table ! unat b) }"
  let ?P = "\<lambda>i b. length b = length buf \<and>
       (\<forall>k < length buf. b ! k = (if k < i then flip_gen (buf ! k) else buf ! k))"
  have "\<exists>r. for_loop 0 (length buf) ?body buf = Some r \<and> ?P (length buf) r"
    by (rule for_loop_rule [where P = ?P])
       (auto simp: rd_Some wr_Some flip_table_nth nth_list_update less_Suc_eq)
  then obtain r where "for_loop 0 (length buf) ?body buf = Some r" "?P (length buf) r" by blast
  moreover from this have "r = map flip_gen buf" by (intro nth_equalityI) auto
  ultimately show ?thesis by (simp add: osmo_revbytebits_buf_def)
qed

section \<open>Claims\<close>

text \<open>C25: Packing unpacked bits and unpacking the result gives the bits back. For any
  \<open>num_bits > 0\<close> octets that hold 0 or 1 and buffers of the documented sizes, both
  conversions stay inside their buffers, \<open>osmo_ubit2pbit\<close> reports the packed size,
  \<open>osmo_pbit2ubit\<close> reports \<open>num_bits\<close>, its output starts with the original bits and the rest
  of the output buffer is untouched.\<close>

theorem ubit2pbit_roundtrip:
  assumes "ubits num_bits inp" and "0 < num_bits"
    and "osmo_pbit_bytesize num_bits \<le> length packed" and "num_bits \<le> length out"
  shows "\<exists>packed'. osmo_ubit2pbit packed inp num_bits = Some (packed', osmo_pbit_bytesize num_bits) \<and>
           osmo_pbit2ubit out packed' num_bits = Some (take num_bits inp @ drop num_bits out, num_bits)"
proof -
  from ubit2pbit_spec [OF assms(1,3)] obtain packed' where
    packed': "osmo_ubit2pbit packed inp num_bits = Some (packed', osmo_pbit_bytesize num_bits)"
      "length packed' = length packed"
      "\<forall>k < 8 * osmo_pbit_bytesize num_bits. pbit packed' k = (k < num_bits \<and> inp ! k = 1)"
    by blast
  have "ubits_of packed' num_bits = take num_bits inp"
    using assms(1) packed'(3) by (intro nth_equalityI) (auto simp: ubits_of_def ubits_def osmo_pbit_bytesize_alt)
  then show ?thesis
    using packed' pbit2ubit_spec [OF assms(2) _ assms(4), of packed'] assms(3) by simp
qed

theorem ubit2pbit_roundtrip_witness:
  "\<exists>packed'. osmo_ubit2pbit [0, 0] [1, 0, 1, 1, 0, 0, 0, 1, 1] 9 = Some (packed', 2) \<and>
     osmo_pbit2ubit [7, 7, 7, 7, 7, 7, 7, 7, 7, 7] packed' 9 = Some ([1, 0, 1, 1, 0, 0, 0, 1, 1, 7], 9)"
proof -
  have "ubits 9 [1, 0, 1, 1, 0, 0, 0, 1, 1]" unfolding ubits_def all_less_list_all by code_simp
  moreover have "osmo_pbit_bytesize 9 = 2" by (simp add: osmo_pbit_bytesize_def)
  ultimately show ?thesis
    using ubit2pbit_roundtrip [of 9 "[1, 0, 1, 1, 0, 0, 0, 1, 1]" "[0, 0]" "[7, 7, 7, 7, 7, 7, 7, 7, 7, 7]"]
    by simp
qed

text \<open>C24: The extended conversions address exactly the bits they are told to, in either bit
  order: bit number \<open>p\<close> is in octet \<open>p div 8\<close>, counted in the octet from the least significant bit when \<open>lsb_mode\<close> is set and from the
  most significant one when not. Writing \<open>n\<close> unpacked bits at a bit offset of a packed buffer stores them in these places, keeps every other bit of
  the buffer, and reading \<open>n\<close> bits at the same offset returns what was written and leaves the
  rest of the output alone.\<close>

theorem ubit2pbit_ext_roundtrip:
  assumes "ubits (in_ofs + n) inp" and "out_ofs + n \<le> 8 * length packed" and "res_ofs + n \<le> length res"
    and "in_ofs + n < UINT_MAX1" and "out_ofs + n < UINT_MAX1" and "res_ofs + n < UINT_MAX1"
  shows "\<exists>packed' rc res'.
           osmo_ubit2pbit_ext packed out_ofs inp in_ofs n lsb_mode = Some (packed', rc) \<and>
           (0 < n \<longrightarrow> rc = osmo_pbit_bytesize (out_ofs + n)) \<and> length packed' = length packed \<and>
           (\<forall>p. bit (packed' ! (p div 8)) (if lsb_mode then p mod 8 else 7 - p mod 8) =
              (if out_ofs \<le> p \<and> p < out_ofs + n then inp ! (in_ofs + (p - out_ofs)) = 1
               else bit (packed ! (p div 8)) (if lsb_mode then p mod 8 else 7 - p mod 8))) \<and>
           osmo_pbit2ubit_ext res res_ofs packed' out_ofs n lsb_mode = Some (res', res_ofs + n) \<and>
           res' = take res_ofs res @ take n (drop in_ofs inp) @ drop (res_ofs + n) res"
proof -
  have len: "in_ofs + n \<le> length inp" and ub: "\<And>i. i < in_ofs + n \<Longrightarrow> inp ! i \<in> {0, 1}"
    using assms(1) by (auto simp: ubits_def)
  obtain packed' where p': "osmo_ubit2pbit_ext packed out_ofs inp in_ofs n lsb_mode =
             Some (packed', wrap32 (sub32 (out_ofs + n) 1 div 8 + 1))"
      "length packed' = length packed"
      "\<And>p. ebit lsb_mode packed' p =
              (if out_ofs \<le> p \<and> p < out_ofs + n then inp ! (in_ofs + (p - out_ofs)) \<noteq> 0
               else ebit lsb_mode packed p)"
    using ubit2pbit_ext_spec [OF assms(2) len assms(5,4), of lsb_mode] by blast
  obtain res' where r': "osmo_pbit2ubit_ext res res_ofs packed' out_ofs n lsb_mode = Some (res', res_ofs + n)"
      "length res' = length res"
      "\<And>p. p < length res \<Longrightarrow> res' ! p =
              (if res_ofs \<le> p \<and> p < res_ofs + n
               then (if ebit lsb_mode packed' (out_ofs + (p - res_ofs)) then 1 else 0) else res ! p)"
    using pbit2ubit_ext_spec [of res_ofs n res out_ofs packed' lsb_mode] assms(2-6) p'(2) by auto
  have "res' = take res_ofs res @ take n (drop in_ofs inp) @ drop (res_ofs + n) res"
  proof (rule nth_equalityI)
    show "length res' = length (take res_ofs res @ take n (drop in_ofs inp) @ drop (res_ofs + n) res)"
      using r'(2) assms(3) len by simp
    fix p
    assume p: "p < length res'"
    have "inp ! (in_ofs + (p - res_ofs)) \<in> {0, 1}" if "res_ofs \<le> p" "p < res_ofs + n"
      using ub that by simp
    then show "res' ! p = (take res_ofs res @ take n (drop in_ofs inp) @ drop (res_ofs + n) res) ! p"
      using p r'(2,3) p'(3) assms(3) len by (auto simp: nth_append)
  qed
  moreover have "wrap32 (sub32 (out_ofs + n) 1 div 8 + 1) = osmo_pbit_bytesize (out_ofs + n)" if "0 < n"
    using that assms(5) by (simp add: sub32_ge osmo_pbit_bytesize_alt)
  moreover have "inp ! (in_ofs + (p - out_ofs)) \<noteq> 0 \<longleftrightarrow> inp ! (in_ofs + (p - out_ofs)) = 1" if "out_ofs \<le> p \<and> p < out_ofs + n" for p
    using ub [of "in_ofs + (p - out_ofs)"] that by auto
  ultimately show ?thesis using p' r'(1) unfolding ebit_def ebit_place_def by (intro exI conjI) (assumption | auto)+
qed

theorem ubit2pbit_ext_roundtrip_witness:
  "\<exists>packed' rc res'. osmo_ubit2pbit_ext [0xFF, 0xFF] 6 [1, 0, 0, 1] 1 3 False = Some (packed', rc) \<and> rc = 2 \<and>
     osmo_pbit2ubit_ext [9, 9, 9, 9] 1 packed' 6 3 False = Some (res', 4) \<and> res' = [9, 0, 0, 1]"
proof -
  have "ubits (1 + 3) [1, 0, 0, 1]" unfolding ubits_def all_less_list_all by code_simp
  moreover have "osmo_pbit_bytesize (6 + 3) = 2" by (simp add: osmo_pbit_bytesize_def)
  ultimately show ?thesis
    using ubit2pbit_ext_roundtrip [of 1 3 "[1, 0, 0, 1]" 6 "[0xFF, 0xFF]" 1 "[9, 9, 9, 9]" False]
    by auto
qed

text \<open>Bit reversal. In mode \<open>OSMO_BR_BITS_IN_DWORD\<close> bit \<open>j\<close> of the result is bit
  \<open>31 - j\<close> of the argument; \<open>osmo_revbytebits_32\<close> is \<open>osmo_bit_reversal\<close> in mode
  \<open>OSMO_BR_BITS_IN_BYTE\<close>; the look-up table behind \<open>osmo_revbytebits_8\<close> reverses the bits of
  every octet; and reversing a buffer twice restores it.\<close>

theorem bit_reversal_correct:
  "(\<forall>j<32. bit (osmo_bit_reversal x OSMO_BR_BITS_IN_DWORD) j = bit x (31 - j)) \<and>
   osmo_revbytebits_32 x = osmo_bit_reversal x OSMO_BR_BITS_IN_BYTE \<and>
   (\<forall>b. \<forall>j<8. bit (osmo_revbytebits_8 b) j = bit b (7 - j)) \<and>
   Option.bind (osmo_revbytebits_buf buf (int (length buf))) (\<lambda>b. osmo_revbytebits_buf b (int (length b)))
     = Some buf"
proof (intro conjI allI impI)
  fix j :: nat
  assume "j < 32"
  then show "bit (osmo_bit_reversal x OSMO_BR_BITS_IN_DWORD) j = bit x (31 - j)"
    by (simp add: bit_osmo_bit_reversal OSMO_BR_BITS_IN_DWORD_def br_index_31)
next
  show "osmo_revbytebits_32 x = osmo_bit_reversal x OSMO_BR_BITS_IN_BYTE"
  proof -
    have "bit (7 :: nat) 0" "bit (7 :: nat) 1" "bit (7 :: nat) 2" "\<not> bit (7 :: nat) 3" "\<not> bit (7 :: nat) 4"
      by code_simp+
    then show ?thesis
      by (simp add: osmo_revbytebits_32_def osmo_bit_reversal_def OSMO_BR_BITS_IN_BYTE_def Let_def
          del: One_nat_def)
  qed
next
  fix b :: u8 and j :: nat
  assume "j < 8"
  then show "bit (osmo_revbytebits_8 b) j = bit b (7 - j)"
    by (simp add: osmo_revbytebits_8_def flip_table_nth bit_simps bit_flip_gen)
next
  show "Option.bind (osmo_revbytebits_buf buf (int (length buf)))
          (\<lambda>b. osmo_revbytebits_buf b (int (length b))) = Some buf"
    by (simp add: osmo_revbytebits_buf_eq o_def flip_gen_flip_gen)
qed

theorem bit_reversal_correct_witness:
  "bit (osmo_bit_reversal 1 OSMO_BR_BITS_IN_DWORD) 31 = bit (1 :: u32) 0 \<and>
   bit (osmo_revbytebits_8 0x80) 0 = bit (0x80 :: u8) 7"
proof -
  note c = bit_reversal_correct [of 1 "[]"]
  show ?thesis
    using c [THEN conjunct1, THEN spec [of _ 31]] c [THEN conjunct2, THEN conjunct2, THEN conjunct1, THEN spec [of _ "0x80"], THEN spec [of _ 0]] by simp
qed

end
