(* ===== verification/Bitvec.thy ===== *)
theory Bitvec
  imports Bits Bit_Store
begin

text \<open>
  The bit vector of \<open>src/src/core/bitvec.c\<close>. \<open>struct bitvec\<close> is the record below; its
  \<open>data_len\<close> is the length of the list \<open>data\<close>. A function that returns a code and changes the
  vector gives the pair of both; a function that reads the data without a check of its own
  is \<open>None\<close> where it would leave the array.

  Shown: single-bit reads and updates satisfy the interface \<open>bit_store\<close>; writing an
  unsigned field moves the cursor by its width, touches exactly its bits and is undone by
  reading the field; octets written at any bit offset are read back; the run-length, search
  and padding functions meet their descriptions; what the shift really does.
\<close>

subsection \<open>Data\<close>

datatype bit_value = ZERO | ONE | L | H

record bitvec =
  cur_bit :: nat
  data :: "u8 list"

abbreviation data_len :: "bitvec \<Rightarrow> nat" where
  "data_len bv \<equiv> length (data bv)"

type_synonym 'a rc = "errno + 'a"

subsection \<open>Single bits\<close>

definition bytenum_from_bitnum :: "nat \<Rightarrow> nat" where
  "bytenum_from_bitnum bitnum = bitnum div 8"

fun bitval2mask :: "bit_value \<Rightarrow> nat \<Rightarrow> u8" where
  "bitval2mask ZERO bitnum = push_bit bitnum 0"
| "bitval2mask ONE bitnum = push_bit bitnum 1"
| "bitval2mask L bitnum = (0x2b XOR push_bit bitnum 0) AND push_bit bitnum 1"
| "bitval2mask H bitnum = (0x2b XOR push_bit bitnum 1) AND push_bit bitnum 1"

definition bitvec_get_bit_pos :: "bitvec \<Rightarrow> nat \<Rightarrow> bit_value rc" where
  "bitvec_get_bit_pos bv bitnr =
     (let bytenum = bytenum_from_bitnum bitnr; bitnum = 7 - bitnr mod 8 in
      if bytenum \<ge> data_len bv then Inl EINVAL
      else let bitval = bitval2mask ONE bitnum in
           if data bv ! bytenum AND bitval \<noteq> 0 then Inr ONE else Inr ZERO)"

definition bitvec_get_bit_pos_high :: "bitvec \<Rightarrow> nat \<Rightarrow> bit_value rc" where
  "bitvec_get_bit_pos_high bv bitnr =
     (let bytenum = bytenum_from_bitnum bitnr; bitnum = 7 - bitnr mod 8 in
      if bytenum \<ge> data_len bv then Inl EINVAL
      else let bitval = bitval2mask H bitnum in
           if data bv ! bytenum AND push_bit bitnum 1 = bitval then Inr H else Inr L)"

text \<open>The loop of \<open>bitvec_get_nth_set_bit\<close>; \<open>k\<close> counts the set bits seen so far.\<close>

definition bitvec_get_nth_set_bit :: "bitvec \<Rightarrow> nat \<Rightarrow> nat" where
  "bitvec_get_nth_set_bit bv n =
     (case for_break 0 (wrap32 (data_len bv * 8))
        (\<lambda>i k. Some (if bitvec_get_bit_pos bv i = Inr ONE
                     then (if wrap32 (k + 1) = n then Inl i else Inr (wrap32 (k + 1))) else Inr k)) 0 of
        Some (Inl i) \<Rightarrow> i | _ \<Rightarrow> 0)"

definition bitvec_set_bit_pos :: "bitvec \<Rightarrow> nat \<Rightarrow> bit_value \<Rightarrow> unit rc \<times> bitvec" where
  "bitvec_set_bit_pos bv bitnr bt =
     (let bytenum = bytenum_from_bitnum bitnr; bitnum = 7 - bitnr mod 8 in
      if bytenum \<ge> data_len bv then (Inl EINVAL, bv)
      else let cleared = data bv ! bytenum AND NOT (bitval2mask ONE bitnum)
           in (Inr (), bv\<lparr>data := (data bv)[bytenum := cleared OR bitval2mask bt bitnum]\<rparr>))"

definition bitvec_set_bit :: "bitvec \<Rightarrow> bit_value \<Rightarrow> unit rc \<times> bitvec" where
  "bitvec_set_bit bv bt =
     (case bitvec_set_bit_pos bv (cur_bit bv) bt of
        (Inl e, bv) \<Rightarrow> (Inl e, bv)
      | (Inr u, bv) \<Rightarrow> (Inr u, bv\<lparr>cur_bit := wrap32 (cur_bit bv + 1)\<rparr>))"

definition bitvec_get_bit_high :: "bitvec \<Rightarrow> bit_value rc \<times> bitvec" where
  "bitvec_get_bit_high bv =
     (case bitvec_get_bit_pos_high bv (cur_bit bv) of
        Inl e \<Rightarrow> (Inl e, bv)
      | Inr b \<Rightarrow> (Inr b, bv\<lparr>cur_bit := wrap32 (cur_bit bv + 1)\<rparr>))"

subsection \<open>Runs of bits and unsigned fields\<close>

text \<open>The common loop: append bits until one fails.\<close>

fun bitvec_set_bits :: "bitvec \<Rightarrow> bit_value list \<Rightarrow> unit rc \<times> bitvec" where
  "bitvec_set_bits bv [] = (Inr (), bv)"
| "bitvec_set_bits bv (b # bits) =
     (case bitvec_set_bit bv b of (Inl e, bv) \<Rightarrow> (Inl e, bv) | (Inr _, bv) \<Rightarrow> bitvec_set_bits bv bits)"

definition u64_bit :: "u64 \<Rightarrow> nat \<Rightarrow> bool \<Rightarrow> nat \<Rightarrow> bit_value" where
  "u64_bit v num_bits use_lh i =
     (if bit v (num_bits - i - 1) then (if use_lh then H else ONE) else (if use_lh then L else ZERO))"

text \<open>\<open>num_bits\<close> has type \<open>uint8_t\<close>: callers that pass a wider value truncate it.\<close>

definition bitvec_set_u64 :: "bitvec \<Rightarrow> u64 \<Rightarrow> nat \<Rightarrow> bool \<Rightarrow> unit rc \<times> bitvec" where
  "bitvec_set_u64 bv v num_bits use_lh =
     (let num_bits = num_bits mod 256 in
      if num_bits > 64 then (Inl E2BIG, bv)
      else bitvec_set_bits bv (map (u64_bit v num_bits use_lh) [0..<num_bits]))"

definition bitvec_set_uint :: "bitvec \<Rightarrow> u32 \<Rightarrow> nat \<Rightarrow> unit rc \<times> bitvec" where
  "bitvec_set_uint bv ui num_bits = bitvec_set_u64 bv (ucast ui) num_bits False"

definition osmo_load16be :: "u8 \<Rightarrow> u8 \<Rightarrow> u16" where
  "osmo_load16be q0 q1 = push_bit 8 (ucast q0) OR ucast q1"

definition bitvec_get_int16_msb :: "bitvec \<Rightarrow> nat \<Rightarrow> u16 rc res" where
  "bitvec_get_int16_msb bv num_bits =
     (if num_bits > 15 \<or> cur_bit bv < num_bits then Some (Inl EINVAL)
      else if num_bits < 9 then do {
        d0 \<leftarrow> rd (data bv) 0;
        Some (Inr (ucast (drop_bit (8 - num_bits) d0))) }
      else do {
        d0 \<leftarrow> rd (data bv) 0;
        d1 \<leftarrow> rd (data bv) 1;
        Some (Inr (drop_bit (16 - num_bits) (osmo_load16be d0 d1))) })"

text \<open>
  \<open>bitvec_get_uint\<close> returns \<open>int\<close>: the accumulated \<open>unsigned int\<close> read as signed, or
  \<open>-EINVAL\<close>. A shift by 32 or more positions is undefined.
\<close>

abbreviation EINVAL_no :: int where
  "EINVAL_no \<equiv> 22"

fun get_uint_loop :: "nat \<Rightarrow> nat \<Rightarrow> u32 \<Rightarrow> bitvec \<Rightarrow> (int \<times> bitvec) res" where
  "get_uint_loop num_bits 0 ui bv = Some (sint ui, bv)"
| "get_uint_loop num_bits (Suc left) ui bv =
     (case bitvec_get_bit_pos bv (cur_bit bv) of
        Inl e \<Rightarrow> Some (- EINVAL_no, bv)
      | Inr b \<Rightarrow>
          (let bv' = bv\<lparr>cur_bit := wrap32 (cur_bit bv + 1)\<rparr> in
           if b \<noteq> ZERO then
             (if left < 32 then get_uint_loop num_bits left (ui OR push_bit left 1) bv' else None)
           else get_uint_loop num_bits left ui bv'))"

definition bitvec_get_uint :: "bitvec \<Rightarrow> nat \<Rightarrow> (int \<times> bitvec) res" where
  "bitvec_get_uint bv num_bits = get_uint_loop num_bits num_bits 0 bv"

definition bitvec_fill :: "bitvec \<Rightarrow> nat \<Rightarrow> bit_value \<Rightarrow> unit rc \<times> bitvec" where
  "bitvec_fill bv num_bits fill =
     (let stop = wrap32 (cur_bit bv + num_bits) in
      case bitvec_set_bits bv (replicate (stop - cur_bit bv) fill) of
        (Inl e, bv) \<Rightarrow> (Inl EINVAL, bv) | (Inr u, bv) \<Rightarrow> (Inr u, bv))"

text \<open>\<open>int n = up_to_bit - cur_bit + 1\<close>: unsigned arithmetic, then read as signed.\<close>

definition int_of_u32 :: "nat \<Rightarrow> int" where
  "int_of_u32 n = (if n < 2147483648 then int n else int n - 4294967296)"

definition bitvec_spare_padding :: "bitvec \<Rightarrow> nat \<Rightarrow> unit rc \<times> bitvec" where
  "bitvec_spare_padding bv up_to_bit =
     (let n = int_of_u32 (wrap32 (sub32 up_to_bit (cur_bit bv) + 1)) in
      if n < 1 then (Inr (), bv) else bitvec_fill bv (nat n) L)"

definition bitvec_find_bit_pos :: "bitvec \<Rightarrow> nat \<Rightarrow> bit_value \<Rightarrow> int" where
  "bitvec_find_bit_pos bv n val =
     (case for_break n (wrap32 (data_len bv * 8))
        (\<lambda>i u. Some (if bitvec_get_bit_pos bv i = Inr val then Inl i else Inr u)) () of
        Some (Inl i) \<Rightarrow> int_of_u32 i | _ \<Rightarrow> - 1)"

subsection \<open>Octets\<close>

text \<open>The copy loop of \<open>bitvec_get_bytes\<close> at a non-zero bit offset.\<close>

fun get_bytes_loop :: "nat \<Rightarrow> u8 \<Rightarrow> u8 list \<Rightarrow> nat \<Rightarrow> nat \<Rightarrow> u8 list res" where
  "get_bytes_loop bit_offs last_c d src 0 = Some []"
| "get_bytes_loop bit_offs last_c d src (Suc i) = do {
     c \<leftarrow> rd d src;
     rest \<leftarrow> get_bytes_loop bit_offs c d (src + 1) i;
     Some ((push_bit bit_offs last_c OR drop_bit (8 - bit_offs) c) # rest) }"

definition bitvec_get_bytes :: "bitvec \<Rightarrow> nat \<Rightarrow> (u8 list rc \<times> bitvec) res" where
  "bitvec_get_bytes bv count =
     (let byte_offs = bytenum_from_bitnum (cur_bit bv); bit_offs = cur_bit bv mod 8 in
      if wrap32 (byte_offs + count + (if bit_offs \<noteq> 0 then 1 else 0)) > data_len bv
      then Some (Inl EINVAL, bv)
      else do {
        bytes \<leftarrow> (if bit_offs = 0 then memcpy (replicate count 0) 0 (data bv) byte_offs count
                  else do { last_c \<leftarrow> rd (data bv) byte_offs;
                            get_bytes_loop bit_offs last_c (data bv) (byte_offs + 1) count });
        Some (Inr bytes, bv\<lparr>cur_bit := wrap32 (cur_bit bv + count * 8)\<rparr>) })"

fun set_bytes_loop :: "nat \<Rightarrow> u8 \<Rightarrow> u8 list \<Rightarrow> nat \<Rightarrow> u8 list \<Rightarrow> u8 list res" where
  "set_bytes_loop bit_offs last_c d dst [] = do {
     x \<leftarrow> rd d dst;
     wr d dst ((x AND (push_bit (8 - bit_offs) 1 - 1)) OR push_bit (8 - bit_offs) last_c) }"
| "set_bytes_loop bit_offs last_c d dst (c # bytes) = do {
     d \<leftarrow> wr d dst (push_bit (8 - bit_offs) last_c OR drop_bit bit_offs c);
     set_bytes_loop bit_offs c d (dst + 1) bytes }"

definition bitvec_set_bytes :: "bitvec \<Rightarrow> u8 list \<Rightarrow> (unit rc \<times> bitvec) res" where
  "bitvec_set_bytes bv bytes =
     (let byte_offs = bytenum_from_bitnum (cur_bit bv); bit_offs = cur_bit bv mod 8;
          count = length bytes in
      if wrap32 (byte_offs + count + (if bit_offs \<noteq> 0 then 1 else 0)) > data_len bv
      then Some (Inl EINVAL, bv)
      else do {
        d \<leftarrow> (if bit_offs = 0 then memcpy (data bv) byte_offs bytes 0 count
              else if count > 0 then do {
                x \<leftarrow> rd (data bv) byte_offs;
                set_bytes_loop bit_offs (drop_bit (8 - bit_offs) x) (data bv) byte_offs bytes }
              else Some (data bv));
        Some (Inr (), bv\<lparr>data := d, cur_bit := wrap32 (cur_bit bv + count * 8)\<rparr>) })"

text \<open>Whether \<open>talloc\<close> finds memory for the structure and for the array is not in the hands
  of this code: two arguments.\<close>

definition bitvec_alloc :: "bool \<Rightarrow> bool \<Rightarrow> nat \<Rightarrow> bitvec option" where
  "bitvec_alloc talloc_ok talloc_array_ok sz =
     (if \<not> talloc_ok then None
      else if \<not> talloc_array_ok then None
      else Some \<lparr>cur_bit = 0, data = replicate sz 0\<rparr>)"

definition bitvec_pack :: "bitvec \<Rightarrow> u8 list \<Rightarrow> (u8 list \<times> nat) res" where
  "bitvec_pack bv buffer = do {
     buffer \<leftarrow> for_loop 0 (data_len bv) (\<lambda>i b. do { x \<leftarrow> rd (data bv) i; wr b i x }) buffer;
     Some (buffer, data_len bv) }"

definition bitvec_unpack :: "bitvec \<Rightarrow> u8 list \<Rightarrow> (bitvec \<times> nat) res" where
  "bitvec_unpack bv buffer = do {
     d \<leftarrow> for_loop 0 (data_len bv) (\<lambda>i d. do { x \<leftarrow> rd buffer i; wr d i x }) (data bv);
     Some (bv\<lparr>data := d\<rparr>, data_len bv) }"

subsection \<open>Indexed fields\<close>

text \<open>
  \<open>bitvec_read_field\<close>: \<open>Inl EOVERFLOW\<close> is \<open>errno = EOVERFLOW\<close> (the C function then returns
  0); otherwise the value, the advanced \<open>read_index\<close> and the vector with its cursor moved.
  Shifting by 64 or more positions is undefined.
\<close>

fun read_field_loop :: "nat \<Rightarrow> u64 \<Rightarrow> bitvec \<Rightarrow> (u64 \<times> bitvec) res" where
  "read_field_loop 0 ui bv = Some (ui, bv)"
| "read_field_loop (Suc left) ui bv = do {
     d \<leftarrow> rd (data bv) (bytenum_from_bitnum (cur_bit bv));
     let bitnum = 7 - cur_bit bv mod 8;
     let bv' = bv\<lparr>cur_bit := wrap32 (cur_bit bv + 1)\<rparr>;
     if d AND push_bit bitnum 1 \<noteq> 0
     then (if left < 64 then read_field_loop left (ui OR push_bit left 1) bv' else None)
     else read_field_loop left ui bv' }"

definition bitvec_read_field :: "bitvec \<Rightarrow> nat \<Rightarrow> nat \<Rightarrow> ((u64 \<times> nat) rc \<times> bitvec) res" where
  "bitvec_read_field bv read_index len =
     (if len \<noteq> 0 \<and> bytenum_from_bitnum (sub32 (wrap32 (read_index + len)) 1) \<ge> data_len bv
      then Some (Inl EOVERFLOW, bv)
      else do {
        (ui, bv) \<leftarrow> read_field_loop len 0 (bv\<lparr>cur_bit := read_index\<rparr>);
        Some (Inr (ui, wrap32 (read_index + len)), bv) })"

definition bitvec_write_field :: "bitvec \<Rightarrow> nat \<Rightarrow> u64 \<Rightarrow> nat \<Rightarrow> nat rc \<times> bitvec" where
  "bitvec_write_field bv write_index val len =
     (case bitvec_set_u64 (bv\<lparr>cur_bit := write_index\<rparr>) val len False of
        (Inl e, bv) \<Rightarrow> (Inl e, bv) | (Inr _, bv) \<Rightarrow> (Inr (wrap32 (write_index + len)), bv))"

subsection \<open>Printing\<close>

fun bit_value_to_char :: "bit_value \<Rightarrow> char" where
  "bit_value_to_char ZERO = CHR ''0''"
| "bit_value_to_char ONE = CHR ''1''"
| "bit_value_to_char L = CHR ''L''"
| "bit_value_to_char H = CHR ''H''"

text \<open>\<open>None\<close> is \<open>osmo_panic\<close>, reached when the cursor is beyond the data.\<close>

definition bitvec_to_string_r :: "bitvec \<Rightarrow> string res" where
  "bitvec_to_string_r bv =
     for_loop 0 (cur_bit bv) (\<lambda>i str.
       case bitvec_get_bit_pos bv i of Inl e \<Rightarrow> None
       | Inr b \<Rightarrow> Some (str @ (if i mod 8 = 0 then '' '' else []) @ [bit_value_to_char b])) []"

subsection \<open>Run lengths\<close>

definition leading_bits :: "u8 \<Rightarrow> bool \<Rightarrow> nat" where
  "leading_bits x b =
     (if b then
        (if x < 0x80 then 0 else if x < 0xC0 then 1 else if x < 0xE0 then 2 else if x < 0xF0 then 3
         else if x < 0xF8 then 4 else if x < 0xFC then 5 else if x < 0xFE then 6 else 7)
      else
        (if x > 0x7F then 0 else if x > 0x3F then 1 else if x > 0x1F then 2 else if x > 0xF then 3
         else if x > 7 then 4 else if x > 3 then 5 else if x > 1 then 6 else 7))"

definition bitvec_zero :: "bitvec \<Rightarrow> bitvec" where
  "bitvec_zero bv = bv\<lparr>cur_bit := 0, data := replicate (data_len bv) 0\<rparr>"

definition bitvec_rl :: "bitvec \<Rightarrow> bool \<Rightarrow> nat res" where
  "bitvec_rl bv b = do {
     r \<leftarrow> for_break 0 (if cur_bit bv mod 8 \<noteq> 0 then cur_bit bv div 8 + 1 else cur_bit bv div 8)
       (\<lambda>i u. do { d \<leftarrow> rd (data bv) i;
                   Some (if (if b then 0xFF else 0) \<noteq> d then Inl (i * 8 + leading_bits d b) else Inr u) }) ();
     Some (case r of Inl n \<Rightarrow> n | Inr _ \<Rightarrow> cur_bit bv) }"

text \<open>The bit-wise prefix loop of \<open>bitvec_rl_curbit\<close> up to the next octet boundary; \<open>Inl\<close> is its
  early \<open>return\<close>. \<open>bitvec_read_field\<close> gives 0 on overflow.\<close>

fun rl_prefix :: "nat \<Rightarrow> bool \<Rightarrow> nat \<Rightarrow> nat \<Rightarrow> nat \<Rightarrow> bitvec \<Rightarrow> ((nat \<times> bitvec) + (nat \<times> nat \<times> bitvec)) res" where
  "rl_prefix 0 b max_bits readIndex temp_res bv = Some (Inr (readIndex, temp_res, bv))"
| "rl_prefix (Suc j) b max_bits readIndex temp_res bv =
     (if readIndex < max_bits then
        do { (r, bv) \<leftarrow> bitvec_read_field bv readIndex 1;
             let (v, idx) = (case r of Inl e \<Rightarrow> (0, readIndex) | Inr (v, idx) \<Rightarrow> (v, idx));
             if v = (if b then 1 else 0) then rl_prefix j b max_bits idx (temp_res + 1) bv
             else Some (Inl (temp_res, bv\<lparr>cur_bit := sub32 (cur_bit bv) 1\<rparr>)) }
      else Some (Inl (temp_res, bv\<lparr>cur_bit := sub32 (cur_bit bv) 1\<rparr>)))"

definition bitvec_rl_curbit :: "bitvec \<Rightarrow> bool \<Rightarrow> nat \<Rightarrow> (nat \<times> bitvec) res" where
  "bitvec_rl_curbit bv b max_bits = do {
     let remaining_bits = max_bits mod 8;
     let remaining_bytes = max_bits div 8;
     p \<leftarrow> (if cur_bit bv mod 8 \<noteq> 0 then rl_prefix (8 - cur_bit bv mod 8) b max_bits (cur_bit bv) 0 bv
           else Some (Inr (cur_bit bv, 0, bv)));
     case p of
       Inl (n, bv) \<Rightarrow> Some (n, bv)
     | Inr (readIndex, temp_res, bv) \<Rightarrow> do {
         let first = readIndex div 8;
         let stop = (if remaining_bits \<noteq> 0 then remaining_bytes + 1 else remaining_bytes);
         r \<leftarrow> for_break first stop
           (\<lambda>i count. do { d \<leftarrow> rd (data bv) i;
              Some (if (if b then 0xFF else 0) \<noteq> d
                    then Inl (count * 8 + leading_bits d b) else Inr (count + 1)) }) 0;
         case r of
           Inl n \<Rightarrow> Some (n + temp_res, bv\<lparr>cur_bit := wrap32 (n + readIndex)\<rparr>)
         | Inr count \<Rightarrow>
             (let c = wrap32 (temp_res + count * 8 + readIndex);
                  c = (if c > max_bits then max_bits else c)
              in Some (wrap32 (sub32 c readIndex + temp_res), bv\<lparr>cur_bit := c\<rparr>)) } }"

subsection \<open>Shifting and arrays\<close>

text \<open>\<open>tmp[0]\<close> after storing \<open>t << (n % 8)\<close> in big-endian order is the high octet.\<close>

definition bitvec_shiftl :: "bitvec \<Rightarrow> nat \<Rightarrow> bitvec res" where
  "bitvec_shiftl bv n =
     (if n = 0 then Some bv
      else if n \<ge> cur_bit bv then Some (bitvec_zero bv)
      else do {
        d \<leftarrow> memmove (data bv) 0 (n div 8) (data_len bv - n div 8);
        d \<leftarrow> for_loop 0 (sub32 (data_len bv) 2) (\<lambda>i d. do {
               q0 \<leftarrow> rd d i;
               q1 \<leftarrow> rd d (i + 1);
               wr d i (ucast (drop_bit 8 (push_bit (n mod 8) (osmo_load16be q0 q1)))) }) d;
        l \<leftarrow> rd d (sub32 (data_len bv) 1);
        d \<leftarrow> wr d (sub32 (data_len bv) 1) (push_bit (n mod 8) l);
        Some (bv\<lparr>data := d, cur_bit := cur_bit bv - n\<rparr>) })"

text \<open>The return codes of the setters are ignored, as in the source.\<close>

fun add_array_loop :: "bitvec \<Rightarrow> u32 list \<Rightarrow> nat \<Rightarrow> bitvec" where
  "add_array_loop bv [] num_bits = bv"
| "add_array_loop bv (x # xs) num_bits =
     add_array_loop (snd (bitvec_set_uint (snd (bitvec_set_bit bv ONE)) x num_bits)) xs num_bits"

definition bitvec_add_array :: "bitvec \<Rightarrow> u32 list \<Rightarrow> bool \<Rightarrow> nat \<Rightarrow> nat \<times> bitvec" where
  "bitvec_add_array bv arr dry_run num_bits =
     (if dry_run then (wrap32 (1 + length arr * (1 + num_bits)), bv)
      else (0, snd (bitvec_set_bit (add_array_loop bv arr num_bits) ZERO)))"

definition bitvec_used_bytes :: "bitvec \<Rightarrow> nat" where
  "bitvec_used_bytes bv = (if cur_bit bv mod 8 \<noteq> 0 then cur_bit bv div 8 + 1 else cur_bit bv div 8)"

definition bitvec_tailroom_bits :: "bitvec \<Rightarrow> nat" where
  "bitvec_tailroom_bits bv = sub32 (wrap32 (data_len bv * 8)) (cur_bit bv)"

section \<open>Properties\<close>

subsection \<open>Bit vectors are bit stores\<close>

lemma ebit_False_pbit: "ebit False = pbit"
  by (intro ext) (simp add: ebit_def pbit_def msb_bit_def ebit_place_def)

fun bit_of :: "bit_value \<Rightarrow> nat \<Rightarrow> bool" where
  "bit_of ZERO p = False"
| "bit_of ONE p = True"
| "bit_of L p = bit (0x2b :: u8) (7 - p mod 8)"
| "bit_of H p = (\<not> bit (0x2b :: u8) (7 - p mod 8))"

definition bv_upd :: "bitvec \<Rightarrow> nat \<Rightarrow> bool \<Rightarrow> bitvec" where
  "bv_upd bv p b = bv\<lparr>data := ebit_upd False (data bv) p b\<rparr>"

definition bv_bit :: "bitvec \<Rightarrow> nat \<Rightarrow> bool" where
  "bv_bit bv p = pbit (data bv) p"

definition bv_size :: "bitvec \<Rightarrow> nat" where
  "bv_size bv = 8 * data_len bv"

lemma bitval2mask_eq:
  "k < 8 \<Longrightarrow> bitval2mask bt k = (if bit_of bt (7 - k) then push_bit k 1 else 0)"
  by (cases bt) (auto simp: u8_eq_iff bit_simps)

lemma get_bit_pos_eq:
  "bitvec_get_bit_pos bv p = (if p < bv_size bv then Inr (if bv_bit bv p then ONE else ZERO) else Inl EINVAL)"
  by (auto simp: bitvec_get_bit_pos_def bytenum_from_bitnum_def bv_size_def bv_bit_def pbit_def msb_bit_def
      and_two_power_eq_0_iff less_Suc_eq_le Let_def)

lemma set_bit_pos_eq:
  "bitvec_set_bit_pos bv p bt =
     (if p < bv_size bv then (Inr (), bv_upd bv p (bit_of bt p)) else (Inl EINVAL, bv))"
proof (cases "p < bv_size bv")
  case True
  then have "p div 8 < data_len bv" by (simp add: bv_size_def less_mult_imp_div_less mult.commute)
  moreover have k: "7 - p mod 8 < 8" "bit_of bt (7 - (7 - p mod 8)) = bit_of bt p"
    by (simp_all add: less_Suc_eq_le, cases bt, auto simp: less_Suc_eq_le)
  have "w AND NOT (bitval2mask ONE (7 - p mod 8)) OR bitval2mask bt (7 - p mod 8) =
        (if bit_of bt p then w OR push_bit (7 - p mod 8) 1 else w AND NOT (push_bit (7 - p mod 8) 1))" for w :: u8
    unfolding bitval2mask_eq [OF k(1)] k(2) by (auto simp: u8_eq_iff bit_simps)
  ultimately show ?thesis using True
    by (simp add: bitvec_set_bit_pos_def bytenum_from_bitnum_def bv_upd_def ebit_upd_def ebit_place_def Let_def)
next
  case False
  then show ?thesis by (simp add: bitvec_set_bit_pos_def bytenum_from_bitnum_def bv_size_def Let_def)
qed

interpretation bvs: bit_store bv_bit bv_upd bv_size
  by unfold_locales
     (simp_all add: bv_bit_def bv_upd_def bv_size_def ebit_False_pbit [symmetric] ebit_upd_same ebit_upd_other)


lemma data_bv_upd_cur [simp]: "bv_upd (bv\<lparr>cur_bit := c\<rparr>) p b = (bv_upd bv p b)\<lparr>cur_bit := c\<rparr>"
  by (simp add: bv_upd_def)

lemma cur_bit_bv_upd [simp]: "cur_bit (bv_upd bv p b) = cur_bit bv"
  by (simp add: bv_upd_def)

lemma bv_bit_cur [simp]: "bv_bit (bv\<lparr>cur_bit := c\<rparr>) = bv_bit bv"
  by (intro ext) (simp add: bv_bit_def)

lemma bv_size_cur [simp]: "bv_size (bv\<lparr>cur_bit := c\<rparr>) = bv_size bv"
  by (simp add: bv_size_def)

lemma get_bits_cur [simp]: "bvs.get_bits (bv\<lparr>cur_bit := c\<rparr>) p n = bvs.get_bits bv p n"
  by (simp add: bvs.get_bits_def)

lemma put_bits_cur [simp]:
  "bvs.put_bits (bv\<lparr>cur_bit := c\<rparr>) p bs = (bvs.put_bits bv p bs)\<lparr>cur_bit := c\<rparr>"
proof (induction bv p bs rule: bvs.put_bits.induct)
  case (1 s p)
  then show ?case by simp
next
  case (2 s p b bs)
  then show ?case by simp
qed

subsection \<open>Appending bits\<close>

definition bv_ok :: "bitvec \<Rightarrow> bool" where
  "bv_ok bv \<longleftrightarrow> cur_bit bv \<le> bv_size bv \<and> bv_size bv < UINT_MAX1"

fun bits_at :: "nat \<Rightarrow> bit_value list \<Rightarrow> bool list" where
  "bits_at p [] = []"
| "bits_at p (b # bs) = bit_of b p # bits_at (Suc p) bs"

lemma length_bits_at [simp]: "length (bits_at p bs) = length bs"
  by (induction p bs rule: bits_at.induct) auto

lemma nth_bits_at: "i < length bs \<Longrightarrow> bits_at p bs ! i = bit_of (bs ! i) (p + i)"
  by (induction p bs arbitrary: i rule: bits_at.induct) (auto simp: nth_Cons split: nat.splits)

definition bv_append :: "bitvec \<Rightarrow> bool list \<Rightarrow> bitvec" where
  "bv_append bv bs = (bvs.put_bits bv (cur_bit bv) bs)\<lparr>cur_bit := cur_bit bv + length bs\<rparr>"

lemma set_bit_eq:
  "bv_ok bv \<Longrightarrow> bitvec_set_bit bv bt =
     (if cur_bit bv < bv_size bv
      then (Inr (), (bv_upd bv (cur_bit bv) (bit_of bt (cur_bit bv)))\<lparr>cur_bit := Suc (cur_bit bv)\<rparr>)
      else (Inl EINVAL, bv))"
  by (simp add: bitvec_set_bit_def set_bit_pos_eq bv_ok_def)

lemma set_bits_eq:
  "bv_ok bv \<Longrightarrow> bitvec_set_bits bv bits =
     (if cur_bit bv + length bits \<le> bv_size bv then Inr () else Inl EINVAL,
      bv_append bv (take (bv_size bv - cur_bit bv) (bits_at (cur_bit bv) bits)))"
proof (induction bits arbitrary: bv)
  case Nil
  then show ?case by (simp add: bv_append_def bv_ok_def)
next
  case (Cons b bits)
  show ?case
  proof (cases "cur_bit bv < bv_size bv")
    case True
    let ?bv = "(bv_upd bv (cur_bit bv) (bit_of b (cur_bit bv)))\<lparr>cur_bit := Suc (cur_bit bv)\<rparr>"
    have ok: "bv_ok ?bv" using Cons.prems True by (simp add: bv_ok_def bvs.size_upd)
    have room: "bv_size bv - cur_bit bv = Suc (bv_size bv - Suc (cur_bit bv))" using True by simp
    show ?thesis
      using True Cons.prems Cons.IH [OF ok]
      by (simp add: set_bit_eq bv_append_def bvs.size_upd room)
  next
    case False
    with Cons.prems show ?thesis by (simp add: set_bit_eq bv_append_def bv_ok_def)
  qed
qed

lemma bits_at_u64: "bits_at p (map (u64_bit v n False) [0..<n]) = field_bits v n"
  by (rule nth_equalityI) (auto simp: nth_bits_at u64_bit_def nth_field_bits)

lemma set_u64_eq:
  assumes "bv_ok bv" and "n \<le> 64"
  shows "bitvec_set_u64 bv v n False =
     (if cur_bit bv + n \<le> bv_size bv then Inr () else Inl EINVAL,
      bv_append bv (take (bv_size bv - cur_bit bv) (field_bits v n)))"
  using assms by (simp add: bitvec_set_u64_def set_bits_eq bits_at_u64 Let_def)

lemma bv_size_append [simp]: "bv_size (bv_append bv bs) = bv_size bv"
  by (simp add: bv_append_def bvs.size_put_bits)

lemma data_len_append [simp]: "data_len (bv_append bv bs) = data_len bv"
  using bv_size_append [of bv bs] unfolding bv_size_def by simp

lemma cur_bit_append [simp]: "cur_bit (bv_append bv bs) = cur_bit bv + length bs"
  by (simp add: bv_append_def)

lemma bv_bit_append:
  "cur_bit bv + length bs \<le> bv_size bv \<Longrightarrow>
   bv_bit (bv_append bv bs) p =
     (if cur_bit bv \<le> p \<and> p < cur_bit bv + length bs then bs ! (p - cur_bit bv) else bv_bit bv p)"
  by (simp add: bv_append_def bvs.get_put_bits)

subsection \<open>Reading fields\<close>

lemma field_val_Cons:
  "field_val (b # bs) = (if b then push_bit (length bs) 1 else 0) OR (field_val bs :: 'w::len word)"
proof (rule bit_word_eqI)
  fix j
  assume "j < LENGTH('w)"
  then show "bit (field_val (b # bs) :: 'w word) j =
             bit ((if b then push_bit (length bs) 1 else 0) OR (field_val bs :: 'w word)) j"
    by (auto simp: bit_field_val bit_simps nth_Cons' less_Suc_eq)
qed

lemma field_val_Nil [simp]: "field_val [] = 0"
  by (simp add: field_val_def)

lemma get_bits_Suc: "bvs.get_bits bv p (Suc n) = bv_bit bv p # bvs.get_bits bv (Suc p) n"
  by (simp add: bvs.get_bits_def upt_conv_Cons del: upt_Suc)

lemma length_get_bits [simp]: "length (bvs.get_bits bv p n) = n"
  by (simp add: bvs.get_bits_def)

lemma read_field_loop_eq:
  assumes "n \<le> 64" and "cur_bit bv + n \<le> bv_size bv" and "bv_size bv < UINT_MAX1"
  shows "read_field_loop n ui bv =
     Some (ui OR field_val (bvs.get_bits bv (cur_bit bv) n), bv\<lparr>cur_bit := cur_bit bv + n\<rparr>)"
  using assms
proof (induction n arbitrary: ui bv)
  case 0
  then show ?case by (simp add: bvs.get_bits_def)
next
  case (Suc n)
  have oct: "cur_bit bv div 8 < data_len bv" using Suc.prems(2) by (simp add: bv_size_def)
  have bit: "data bv ! (cur_bit bv div 8) AND 2 ^ (7 - cur_bit bv mod 8) \<noteq> 0 \<longleftrightarrow> bv_bit bv (cur_bit bv)"
    by (simp add: bv_bit_def pbit_def msb_bit_def and_two_power_eq_0_iff less_Suc_eq_le)
  show ?case
    using Suc.prems Suc.IH [of "bv\<lparr>cur_bit := Suc (cur_bit bv)\<rparr>"] oct
    by (simp add: rd_Some bytenum_from_bitnum_def bit Let_def get_bits_Suc field_val_Cons or.assoc)
qed

lemma get_uint_loop_eq:
  assumes "n \<le> 32" and "cur_bit bv + n \<le> bv_size bv" and "bv_size bv < UINT_MAX1"
  shows "get_uint_loop m n ui bv =
     Some (sint (ui OR field_val (bvs.get_bits bv (cur_bit bv) n)), bv\<lparr>cur_bit := cur_bit bv + n\<rparr>)"
  using assms
proof (induction n arbitrary: ui bv)
  case 0
  then show ?case by (simp add: bvs.get_bits_def)
next
  case (Suc n)
  then show ?case
    using Suc.IH [of "bv\<lparr>cur_bit := Suc (cur_bit bv)\<rparr>"]
    by (simp add: get_bit_pos_eq Let_def get_bits_Suc field_val_Cons or.assoc)
qed

text \<open>Leading zero bits beyond the width of the result are skipped.\<close>

lemma get_uint_loop_zeros:
  assumes "\<forall>i<k. \<not> bv_bit bv (cur_bit bv + i)" and "cur_bit bv + k + n \<le> bv_size bv" and "bv_size bv < UINT_MAX1"
  shows "get_uint_loop m (k + n) ui bv = get_uint_loop m n ui (bv\<lparr>cur_bit := cur_bit bv + k\<rparr>)"
  using assms
proof (induction k arbitrary: bv)
  case (Suc k)
  then have "\<forall>i<k. \<not> bv_bit (bv\<lparr>cur_bit := Suc (cur_bit bv)\<rparr>) (Suc (cur_bit bv) + i)" by auto
  then show ?case
    using Suc.prems Suc.IH [of "bv\<lparr>cur_bit := Suc (cur_bit bv)\<rparr>"] by (auto simp: get_bit_pos_eq Let_def)
qed simp

lemma get_uint_field:
  assumes "n \<le> 64" and "cur_bit bv + n \<le> bv_size bv" and "bv_size bv < UINT_MAX1" and f: "bvs.get_bits bv (cur_bit bv) n = field_bits (ucast (ui :: u32) :: u64) n"
  shows "bitvec_get_uint bv n = Some (if n < 32 then uint (take_bit n ui) else sint ui, bv\<lparr>cur_bit := cur_bit bv + n\<rparr>)"
proof -
  define k where "k = n - 32"
  define r where "r = n - k"
  have n: "n = k + r" "r \<le> 32" by (auto simp: k_def r_def)
  have b: "bv_bit bv (cur_bit bv + i) = bit ui (n - 1 - i)" if "i < n" for i
    
  proof -
    have "n - Suc i < 64" using that assms(1) by linarith
    then show ?thesis using arg_cong [OF f, of "\<lambda>xs. xs ! i"] that by (simp add: bvs.get_bits_def nth_field_bits bit_simps)
  qed
  have "\<forall>i<k. \<not> bv_bit bv (cur_bit bv + i)" using b by (auto simp: k_def dest!: bit_imp_le_length)
  then have "bitvec_get_uint bv n = get_uint_loop n r 0 (bv\<lparr>cur_bit := cur_bit bv + k\<rparr>)"
    unfolding bitvec_get_uint_def using assms(2,3) n get_uint_loop_zeros [of k bv r n 0] by simp
  also have "\<dots> = Some (sint (field_val (bvs.get_bits bv (cur_bit bv + k) r) :: u32), bv\<lparr>cur_bit := cur_bit bv + n\<rparr>)"
    using get_uint_loop_eq [of r "bv\<lparr>cur_bit := cur_bit bv + k\<rparr>" n 0] assms(2,3) n by (simp add: add.assoc)
  also have "bvs.get_bits bv (cur_bit bv + k) r = field_bits ui r"
    by (rule nth_equalityI) (use b n in \<open>auto simp: bvs.get_bits_def nth_field_bits add.assoc\<close>)
  also have "(field_val (field_bits ui r) :: u32) = take_bit r ui" using n(2) by (simp add: field_val_bits)
  finally have "bitvec_get_uint bv n = Some (sint (take_bit r ui), bv\<lparr>cur_bit := cur_bit bv + n\<rparr>)" .
  moreover have "sint (take_bit n ui) = uint (take_bit n ui)" if "n < 32"
    using that by (simp add: sint_uint signed_take_bit_eq_if_positive bit_simps unsigned_take_bit_eq take_bit_take_bit)
  moreover have "r = n" if "n < 32" using that by (simp add: r_def k_def)
  moreover have "take_bit r ui = ui" if "\<not> n < 32" using that by (simp add: r_def k_def take_bit_word_eq_self)
  ultimately show ?thesis by auto
qed

lemma set_get_uint:
  assumes "bv_ok bv" and n: "n \<le> 64" "cur_bit bv + n \<le> bv_size bv"
  shows "bitvec_get_uint ((snd (bitvec_set_uint bv ui n))\<lparr>cur_bit := cur_bit bv\<rparr>) n =
        Some (if n < 32 then uint (take_bit n ui) else sint ui, snd (bitvec_set_uint bv ui n))"
proof -
  let ?bs = "field_bits (ucast ui :: u64) n" and ?bv' = "bv_append bv (field_bits (ucast ui :: u64) n)"
  have "take (bv_size bv - cur_bit bv) ?bs = ?bs"
    using n by (intro take_all, unfold length_field_bits, linarith)
  then have set: "snd (bitvec_set_uint bv ui n) = ?bv'"
    using n assms(1) by (simp add: bitvec_set_uint_def set_u64_eq)
  have "bvs.get_bits ?bv' (cur_bit bv) n = ?bs"
    using n bvs.get_bits_put_bits [of "cur_bit bv" ?bs bv] by (simp add: bv_append_def)
  then show ?thesis
    using n assms get_uint_field [of n "?bv'\<lparr>cur_bit := cur_bit bv\<rparr>" ui] unfolding set by (simp add: bv_ok_def bv_append_def bvs.size_put_bits)
qed

lemma get_bit_pos_high_eq:
  "bitvec_get_bit_pos_high bv p = (if p < bv_size bv then Inr (if bv_bit bv p = bit_of H p then H else L) else Inl EINVAL)"
proof (cases "p < bv_size bv")
  case True
  then have "p div 8 < data_len bv" by (simp add: bv_size_def less_mult_imp_div_less mult.commute)
  moreover have k: "7 - p mod 8 < 8" "bit_of H (7 - (7 - p mod 8)) = bit_of H p" by (simp_all add: less_Suc_eq_le)
  have "w AND push_bit (7 - p mod 8) 1 = bitval2mask H (7 - p mod 8) \<longleftrightarrow> bit w (7 - p mod 8) = bit_of H p" for w :: u8
    unfolding bitval2mask_eq [OF k(1)] k(2) using k(1) by (auto simp: u8_eq_iff bit_simps simp del: bit_of.simps dest!: spec [of _ "7 - p mod 8"])
  ultimately show ?thesis using True
    by (auto simp: bitvec_get_bit_pos_high_def bytenum_from_bitnum_def bv_bit_def pbit_def msb_bit_def Let_def)
next
  case False
  then show ?thesis by (simp add: bitvec_get_bit_pos_high_def bytenum_from_bitnum_def bv_size_def Let_def)
qed

text \<open>The octet 0x2b of the L and H values, from its most significant bit.\<close>

definition pad_bits :: "bool list" where
  "pad_bits = [False, False, True, False, True, False, True, True]"

lemma bit_of_LH: "bit_of L p = pad_bits ! (p mod 8)" "bit_of H p = (\<not> pad_bits ! (p mod 8))"
proof -
  have "bit (0x2b :: u8) (7 - k) = pad_bits ! k" if "k < 8" for k
  proof -
    have "list_all (\<lambda>k. bit (0x2b :: u8) (7 - k) = pad_bits ! k) [0..<8]" by code_simp
    then show ?thesis using that by (simp add: list_all_iff)
  qed
  then show "bit_of L p = pad_bits ! (p mod 8)" "bit_of H p = (\<not> pad_bits ! (p mod 8))" by simp_all
qed

lemma bits_at_u64_lh:
  "bits_at p (map (u64_bit v n use_lh) [0..<n]) = map (\<lambda>i. bit v (n - 1 - i) \<noteq> (use_lh \<and> pad_bits ! ((p + i) mod 8))) [0..<n]"
  by (rule nth_equalityI) (auto simp: nth_bits_at u64_bit_def bit_of_LH simp del: bit_of.simps(3,4))

subsection \<open>Octets at a bit offset\<close>

lemma pbit_Cons_small: "q < 8 \<Longrightarrow> pbit (v # bs) q = msb_bit v q"
  by (simp add: pbit_def)

lemma pbit_Cons_add: "pbit (v # bs) (8 + q) = pbit bs q"
  by (simp add: pbit_def div_add_self1)

lemma set_bytes_loop_eq:
  assumes "0 < ofs" and "ofs < 8" and "dst + length bytes < length d"
  shows "\<exists>d'. set_bytes_loop ofs last_c d dst bytes = Some d' \<and> length d' = length d \<and>
     (\<forall>p. pbit d' p =
        (if p < 8 * dst then pbit d p
         else if p < 8 * dst + ofs then bit last_c (ofs - 1 - (p - 8 * dst))
         else if p < 8 * dst + ofs + 8 * length bytes then pbit bytes (p - (8 * dst + ofs))
         else pbit d p))"
  using assms(3)
proof (induction bytes arbitrary: d dst last_c)
  case Nil
  define v where "v = (d ! dst AND (push_bit (8 - ofs) 1 - 1)) OR push_bit (8 - ofs) last_c"
  have m: "push_bit (8 - ofs) (1 :: u8) - 1 = mask (8 - ofs)" by (simp add: mask_eq_exp_minus_1)
  have bits: "msb_bit v j = (if j < ofs then bit last_c (ofs - 1 - j) else msb_bit (d ! dst) j)" if "j < 8" for j
    using that assms(1,2) unfolding v_def m by (auto simp: msb_bit_def bit_simps)
  have "pbit (d[dst := v]) p =
        (if p < 8 * dst then pbit d p else if p < 8 * dst + ofs then bit last_c (ofs - 1 - (p - 8 * dst)) else pbit d p)" for p
  proof (cases "p div 8 = dst")
    case True
    then have k: "8 * dst \<le> p" "p - 8 * dst = p mod 8" "p < 8 * dst + ofs \<longleftrightarrow> p mod 8 < ofs"
      by (auto simp: minus_mod_eq_mult_div [symmetric])
    with True Nil bits [of "p mod 8"] show ?thesis by (simp add: pbit_list_update pbit_def)
  next
    case False
    then have "p < 8 * dst \<or> 8 * dst + 8 \<le> p" by auto
    with False Nil assms(2) show ?thesis by (auto simp: pbit_list_update)
  qed
  with Nil show ?case by (simp add: rd_Some wr_Some v_def [symmetric, simplified])
next
  case (Cons c bytes)
  let ?v = "push_bit (8 - ofs) last_c OR drop_bit ofs c"
  let ?d = "d[dst := ?v]"
  have bits: "msb_bit ?v j = (if j < ofs then bit last_c (ofs - 1 - j) else msb_bit c (j - ofs))" if "j < 8" for j
    using that assms(1,2) by (auto simp: msb_bit_def bit_simps add.commute)
  obtain d' where d': "set_bytes_loop ofs c ?d (dst + 1) bytes = Some d'" "length d' = length d"
    "\<And>p. pbit d' p =
        (if p < 8 * (dst + 1) then pbit ?d p
         else if p < 8 * (dst + 1) + ofs then bit c (ofs - 1 - (p - 8 * (dst + 1)))
         else if p < 8 * (dst + 1) + ofs + 8 * length bytes then pbit bytes (p - (8 * (dst + 1) + ofs))
         else pbit ?d p)"
    using Cons.IH [of "dst + 1" ?d c] Cons.prems by auto
  have "pbit d' p =
        (if p < 8 * dst then pbit d p
         else if p < 8 * dst + ofs then bit last_c (ofs - 1 - (p - 8 * dst))
         else if p < 8 * dst + ofs + 8 * length (c # bytes) then pbit (c # bytes) (p - (8 * dst + ofs))
         else pbit d p)" for p
  proof -
    consider "p < 8 * dst" | "8 * dst \<le> p" "p < 8 * dst + 8" | "8 * dst + 8 \<le> p" "p < 8 * dst + 8 + ofs"
      | "8 * dst + 8 + ofs \<le> p" by linarith
    then show ?thesis
    proof cases
      case 1
      then have "p div 8 \<noteq> dst" by auto
      with 1 Cons.prems show ?thesis by (simp add: d'(3) pbit_list_update)
    next
      case 2
      then have k1: "p div 8 = dst" by auto
      then have k: "p div 8 = dst" "p - 8 * dst = p mod 8" by (simp, metis minus_mult_div_eq_mod)
      have "pbit ?d p = msb_bit ?v (p - 8 * dst)" using k Cons.prems by (simp add: pbit_list_update)
      moreover have "pbit (c # bytes) (p - (8 * dst + ofs)) = msb_bit c (p - 8 * dst - ofs)" if "ofs \<le> p - 8 * dst"
        using 2 that by (simp add: pbit_def)
      ultimately show ?thesis using 2 by (auto simp: d'(3) bits)
    next
      case 3
      then have "p - (8 * dst + ofs) < 8" "7 - (p - (8 * dst + ofs)) = ofs - 1 - (p - 8 * (dst + 1))" using assms(2) by auto
      with 3 assms(2) show ?thesis by (simp add: d'(3) pbit_Cons_small msb_bit_def)
    next
      case 4
      define q where "q = p - (8 * dst + 8 + ofs)"
      have q: "p = 8 * dst + 8 + ofs + q" using 4 by (simp add: q_def)
      have "p div 8 \<noteq> dst" using 4 by auto
      with Cons.prems have "pbit ?d p = pbit d p" by (simp add: pbit_list_update)
      moreover have "pbit (c # bytes) (p - (8 * dst + ofs)) = pbit bytes q"
        using pbit_Cons_add [of c bytes q] unfolding q by simp
      ultimately show ?thesis using q by (simp add: d'(3))
    qed
  qed
  with d'(1,2) Cons.prems show ?case by (auto simp: wr_Some)
qed

lemma get_bytes_loop_eq:
  assumes "0 < ofs" and "ofs < 8" and "src + n \<le> length d"
  shows "\<exists>bs. get_bytes_loop ofs last_c d src n = Some bs \<and> length bs = n \<and>
     (\<forall>q < 8 * n. pbit bs q = (if q < 8 - ofs then bit last_c (7 - ofs - q) else pbit d (8 * src + (q - (8 - ofs)))))"
  using assms(3)
proof (induction n arbitrary: src last_c)
  case 0
  then show ?case by simp
next
  case (Suc n)
  let ?c = "d ! src" and ?v = "push_bit ofs last_c OR drop_bit (8 - ofs) (d ! src)"
  obtain bs where bs: "get_bytes_loop ofs ?c d (src + 1) n = Some bs" "length bs = n"
    "\<forall>q < 8 * n. pbit bs q = (if q < 8 - ofs then bit ?c (7 - ofs - q) else pbit d (8 * (src + 1) + (q - (8 - ofs))))"
    using Suc.IH [of "src + 1" ?c] Suc.prems by auto
  have "pbit (?v # bs) q = (if q < 8 - ofs then bit last_c (7 - ofs - q) else pbit d (8 * src + (q - (8 - ofs))))"
    if q: "q < 8 * Suc n" for q
  proof (cases "q < 8")
    case True
    have "msb_bit ?v q = (if q < 8 - ofs then bit last_c (7 - ofs - q) else msb_bit ?c (q - (8 - ofs)))"
      using True assms(1,2) by (auto simp: msb_bit_def bit_simps add.commute)
    moreover have "pbit d (8 * src + r) = msb_bit ?c r" if "r < 8" for r
      using that by (simp add: pbit_def)
    then have "pbit d (8 * src + (q - (8 - ofs))) = msb_bit ?c (q - (8 - ofs))"
      using True by (meson diff_le_self le_less_trans)
    moreover have "pbit (?v # bs) q = msb_bit ?v q" using True by (simp add: pbit_def)
    ultimately show ?thesis by metis
  next
    case False
    define r where "r = q - 8"
    have r: "q = 8 + r" "r < 8 * n" using False q by (auto simp: r_def)
    have "pbit (?v # bs) q = pbit bs r" unfolding r by (rule pbit_Cons_add)
    also have "\<dots> = pbit d (8 * src + (q - (8 - ofs)))"
    proof (cases "r < 8 - ofs")
      case True
      then have k: "q - (8 - ofs) = r + ofs" "r + ofs < 8" "7 - ofs - r = 7 - (r + ofs)" using r(1) assms(2) by auto
      have "pbit bs r = bit ?c (7 - (r + ofs))" using bs(3) r(2) True k(3) by metis
      moreover have "pbit d (8 * src + (r + ofs)) = bit ?c (7 - (r + ofs))"
        using k(2) by (simp add: pbit_def msb_bit_def)
      ultimately show ?thesis by (simp only: k(1))
    next
      case False
      then have "8 * (src + 1) + (r - (8 - ofs)) = 8 * src + (q - (8 - ofs))" using r(1) by simp
      with False bs(3) r(2) show ?thesis by simp
    qed
    finally have eq: "pbit (?v # bs) q = pbit d (8 * src + (q - (8 - ofs)))" .
    have "\<not> q < 8 - ofs" using False by linarith
    then show ?thesis unfolding eq by (simp only: if_False)
  qed
  with bs Suc.prems show ?case by (auto simp: rd_Some)
qed


lemma take_drop_pbit:
  assumes "b + n \<le> length d" and "p < 8 * n"
  shows "pbit (take n (drop b d)) p = pbit d (8 * b + p)"
  using assms by (simp add: pbit_def)

lemma set_bytes_eq:
  assumes "bv_ok bv" and "cur_bit bv + 8 * length bytes \<le> bv_size bv" and "bytes \<noteq> []"
  shows "\<exists>bv'. bitvec_set_bytes bv bytes = Some (Inr (), bv') \<and>
     cur_bit bv' = cur_bit bv + 8 * length bytes \<and> bv_size bv' = bv_size bv \<and>
     (\<forall>p < bv_size bv. bv_bit bv' p =
        (if cur_bit bv \<le> p \<and> p < cur_bit bv + 8 * length bytes then pbit bytes (p - cur_bit bv) else bv_bit bv p))"
proof -
  define b where "b = cur_bit bv div 8"
  define ofs where "ofs = cur_bit bv mod 8"
  have cur: "cur_bit bv = 8 * b + ofs" "ofs < 8" by (simp_all add: b_def ofs_def)
  have fits: "b + length bytes + (if ofs \<noteq> 0 then 1 else 0) \<le> data_len bv"
    using assms(2) cur by (auto simp: bv_size_def)
  have small: "bv_size bv < UINT_MAX1" using assms(1) by (simp add: bv_ok_def)
  show ?thesis
  proof (cases "ofs = 0")
    case True
    let ?d = "take b (data bv) @ bytes @ drop (b + length bytes) (data bv)"
    have mc: "memcpy (data bv) b bytes 0 (length bytes) = Some ?d"
      using fits True by (simp add: memcpy_def)
    have "pbit ?d p = (if 8 * b \<le> p \<and> p < 8 * b + 8 * length bytes then pbit bytes (p - 8 * b) else pbit (data bv) p)"
      if "p < bv_size bv" for p
    proof -
      have "p div 8 < data_len bv" using that by (simp add: bv_size_def less_mult_imp_div_less mult.commute)
      then have "?d ! (p div 8) = (if b \<le> p div 8 \<and> p div 8 < b + length bytes then bytes ! (p div 8 - b) else data bv ! (p div 8))"
        using nth_memcpy [OF mc, of "p div 8"] by simp
      moreover have "b \<le> p div 8 \<and> p div 8 < b + length bytes \<longleftrightarrow> 8 * b \<le> p \<and> p < 8 * b + 8 * length bytes" by auto
      moreover have "(p - 8 * b) div 8 = p div 8 - b" "(p - 8 * b) mod 8 = p mod 8" if "8 * b \<le> p"
        using that by (auto simp: le_iff_add)
      ultimately show ?thesis by (auto simp: pbit_def)
    qed
    moreover have "data_len (bv\<lparr>data := ?d\<rparr>) = data_len bv" using fits by simp
    ultimately show ?thesis
      using True fits cur small assms(2) mc
      by (auto simp: bitvec_set_bytes_def bytenum_from_bitnum_def b_def [symmetric] ofs_def [symmetric] Let_def
          bv_size_def bv_bit_def)
  next
    case False
    let ?x = "drop_bit (8 - ofs) (data bv ! b)"
    obtain d' where d': "set_bytes_loop ofs ?x (data bv) b bytes = Some d'" "length d' = data_len bv"
      "\<And>p. pbit d' p =
        (if p < 8 * b then pbit (data bv) p
         else if p < 8 * b + ofs then bit ?x (ofs - 1 - (p - 8 * b))
         else if p < 8 * b + ofs + 8 * length bytes then pbit bytes (p - (8 * b + ofs))
         else pbit (data bv) p)"
      using set_bytes_loop_eq [of ofs b bytes "data bv" ?x] False cur(2) fits by auto
    have low: "bit ?x (ofs - 1 - (p - 8 * b)) = pbit (data bv) p" if "8 * b \<le> p" "p < 8 * b + ofs" for p
    proof -
      obtain j where j: "p = 8 * b + j" using \<open>8 * b \<le> p\<close> by (auto simp: le_iff_add)
      then have "j < ofs" "j < 8" "8 - ofs + (ofs - 1 - j) = 7 - j" using that cur(2) by auto
      then show ?thesis by (simp add: j pbit_def msb_bit_def bit_drop_bit_eq)
    qed
    have "pbit d' p = (if cur_bit bv \<le> p \<and> p < cur_bit bv + 8 * length bytes
                       then pbit bytes (p - cur_bit bv) else pbit (data bv) p)" for p
      using low [of p] unfolding d'(3) cur(1) by auto
    then show ?thesis
      using False fits small assms(2,3) d' cur
      by (auto simp: bitvec_set_bytes_def bytenum_from_bitnum_def b_def [symmetric] ofs_def [symmetric] Let_def
          bv_size_def bv_bit_def rd_Some)
  qed
qed

lemma get_bytes_eq:
  assumes "bv_ok bv" and "cur_bit bv + 8 * n \<le> bv_size bv" and "0 < n"
  shows "\<exists>bs. bitvec_get_bytes bv n = Some (Inr bs, bv\<lparr>cur_bit := cur_bit bv + 8 * n\<rparr>) \<and>
     length bs = n \<and> (\<forall>q < 8 * n. pbit bs q = bv_bit bv (cur_bit bv + q))"
proof -
  define b where "b = cur_bit bv div 8"
  define ofs where "ofs = cur_bit bv mod 8"
  have cur: "cur_bit bv = 8 * b + ofs" "ofs < 8" by (simp_all add: b_def ofs_def)
  have fits: "b + n + (if ofs \<noteq> 0 then 1 else 0) \<le> data_len bv"
    using assms(2) cur by (auto simp: bv_size_def)
  have small: "bv_size bv < UINT_MAX1" using assms(1) by (simp add: bv_ok_def)
  show ?thesis
  proof (cases "ofs = 0")
    case True
    have "memcpy (replicate n 0) 0 (data bv) b n = Some (take n (drop b (data bv)))"
      using fits by (simp add: memcpy_def)
    then show ?thesis
      using True fits cur small assms(2)
      by (auto simp: bitvec_get_bytes_def bytenum_from_bitnum_def b_def [symmetric] ofs_def [symmetric] Let_def
          bv_size_def bv_bit_def take_drop_pbit mult.commute)
  next
    case False
    let ?x = "data bv ! b"
    obtain bs where bs: "get_bytes_loop ofs ?x (data bv) (b + 1) n = Some bs" "length bs = n"
      "\<forall>q < 8 * n. pbit bs q = (if q < 8 - ofs then bit ?x (7 - ofs - q) else pbit (data bv) (8 * (b + 1) + (q - (8 - ofs))))"
      using get_bytes_loop_eq [of ofs "b + 1" n "data bv" ?x] False cur(2) fits by auto
    have "pbit bs q = bv_bit bv (cur_bit bv + q)" if "q < 8 * n" for q
    proof (cases "q < 8 - ofs")
      case True
      then have "ofs + q < 8" "7 - ofs - q = 7 - (ofs + q)" by auto
      then have "pbit (data bv) (8 * b + (ofs + q)) = bit ?x (7 - ofs - q)" by (simp add: pbit_def msb_bit_def)
      with True bs(3) that show ?thesis by (simp add: bv_bit_def cur(1) add.assoc)
    next
      case False
      then have "8 * (b + 1) + (q - (8 - ofs)) = cur_bit bv + q" using cur by simp
      with False bs(3) that show ?thesis by (simp add: bv_bit_def)
    qed
    with bs show ?thesis
      using False fits cur small assms(2)
      by (auto simp: bitvec_get_bytes_def bytenum_from_bitnum_def b_def [symmetric] ofs_def [symmetric] Let_def
          bv_size_def rd_Some mult.commute)
  qed
qed

subsection \<open>Run lengths\<close>

lemma leading_bits_takeWhile:
  "leading_bits x True = length (takeWhile (msb_bit x) [0, 1, 2, 3, 4, 5, 6])"
  "leading_bits x False = length (takeWhile (\<lambda>j. \<not> msb_bit x j) [0, 1, 2, 3, 4, 5, 6])"
proof -
  have "\<forall>x. leading_bits x True = length (takeWhile (msb_bit x) [0, 1, 2, 3, 4, 5, 6])"
    unfolding all_octets octets_def by (simp add: leading_bits_def msb_bit_def)
  then show "leading_bits x True = length (takeWhile (msb_bit x) [0, 1, 2, 3, 4, 5, 6])" by blast
  have "\<forall>x. leading_bits x False = length (takeWhile (\<lambda>j. \<not> msb_bit x j) [0, 1, 2, 3, 4, 5, 6])"
    unfolding all_octets octets_def by (simp add: leading_bits_def msb_bit_def)
  then show "leading_bits x False = length (takeWhile (\<lambda>j. \<not> msb_bit x j) [0, 1, 2, 3, 4, 5, 6])" by blast
qed

lemma leading_bits_length:
  "leading_bits x b = length (takeWhile (\<lambda>j. msb_bit x j = b) [0..<7])"
proof -
  have "[0..<7] = [0, 1, 2, 3, 4, 5, 6]" by code_simp
  then show ?thesis using leading_bits_takeWhile [of x] by (cases b) simp_all
qed

lemma leading_bits_run: "j < leading_bits x b \<Longrightarrow> msb_bit x j = b"
  unfolding leading_bits_length
  by (metis (mono_tags, lifting) add_0 diff_zero length_takeWhile_le length_upt nth_mem nth_upt
      order_less_le_trans set_takeWhileD takeWhile_nth)

lemma full_octet: "j < 8 \<Longrightarrow> msb_bit (if b then 0xFF else 0) j = b"
  by (cases b) (auto simp: msb_bit_def u8_bit_cases)

lemma leading_bits_stop:
  assumes "x \<noteq> (if b then 0xFF else 0)"
  shows "leading_bits x b < 8 \<and> msb_bit x (leading_bits x b) \<noteq> b"
proof -
  have le: "leading_bits x b \<le> 7"
    unfolding leading_bits_length by (metis diff_zero length_takeWhile_le length_upt)
  show ?thesis
  proof (cases "leading_bits x b < 7")
    case True
    then have "\<not> (msb_bit x ([0..<7] ! leading_bits x b) = b)"
      unfolding leading_bits_length by (intro nth_length_takeWhile) simp
    with True show ?thesis by simp
  next
    case False
    with le have n: "leading_bits x b = 7" by simp
    have "msb_bit x 7 \<noteq> b"
    proof
      assume 7: "msb_bit x 7 = b"
      have "x = (if b then 0xFF else 0)"
      proof (rule u8_msb_eqI)
        fix j :: nat
        assume "j < 8"
        then have "j < leading_bits x b \<or> j = 7" using n by linarith
        then show "msb_bit x j = msb_bit (if b then 0xFF else 0) j"
          using leading_bits_run 7 full_octet [OF \<open>j < 8\<close>] by blast
      qed
      with assms show False by blast
    qed
    with n show ?thesis by simp
  qed
qed

lemma bitvec_used_bytes_alt: "bitvec_used_bytes bv = (cur_bit bv + 7) div 8"
  unfolding bitvec_used_bytes_def by (rule octets_ceil)

lemma bitvec_rl_eq:
  assumes "bv_ok bv"
  shows "\<exists>n. bitvec_rl bv b = Some n \<and> (\<forall>i < n. bv_bit bv i = b) \<and>
     (n = cur_bit bv \<or> (n < 8 * bitvec_used_bytes bv \<and> bv_bit bv n \<noteq> b))"
proof -
  let ?m = "bitvec_used_bytes bv"
  let ?body = "\<lambda>i u. do { d \<leftarrow> rd (data bv) i;
                   Some (if (if b then 0xFF else 0) \<noteq> d then Inl (i * 8 + leading_bits d b) else Inr u) }"
  let ?P = "\<lambda>i (u :: unit). \<forall>k < 8 * i. bv_bit bv k = b"
  let ?Q = "\<lambda>n. (\<forall>i < n. bv_bit bv i = b) \<and> n < 8 * ?m \<and> bv_bit bv n \<noteq> b"
  have m: "?m \<le> data_len bv" using assms unfolding bitvec_used_bytes_alt bv_ok_def bv_size_def by linarith
  have "(\<exists>s. for_break 0 ?m ?body () = Some (Inr s) \<and> ?P ?m s) \<or> (\<exists>r. for_break 0 ?m ?body () = Some (Inl r) \<and> ?Q r)"
  proof (rule for_break_rule)
    fix i u
    assume i: "i < ?m" and P: "?P i u"
    let ?d = "data bv ! i"
    have rd: "rd (data bv) i = Some ?d" using i m by (simp add: rd_Some)
    have bits: "bv_bit bv (8 * i + j) = msb_bit ?d j" if "j < 8" for j
      using that by (simp add: bv_bit_def pbit_def)
    show "(\<exists>t'. ?body i u = Some (Inr t') \<and> ?P (Suc i) t') \<or> (\<exists>r. ?body i u = Some (Inl r) \<and> ?Q r)"
    proof (cases "?d = (if b then 0xFF else 0)")
      case True
      have "bv_bit bv k = b" if "k < 8 * Suc i" for k
      proof (cases "k < 8 * i")
        case False
        define j where "j = k - 8 * i"
        have "k = 8 * i + j" "j < 8" using False that by (auto simp: j_def)
        then show ?thesis using bits full_octet True by simp
      qed (use P in blast)
      with True rd show ?thesis by auto
    next
      case False
      define n where "n = leading_bits ?d b"
      have n: "n < 8" "msb_bit ?d n \<noteq> b" "\<And>j. j < n \<Longrightarrow> msb_bit ?d j = b"
        using leading_bits_stop [OF False] leading_bits_run [of _ ?d b] by (auto simp: n_def)
      have "bv_bit bv k = b" if "k < 8 * i + n" for k
      proof (cases "k < 8 * i")
        case False
        define j where "j = k - 8 * i"
        have "k = 8 * i + j" "j < n" using False that by (auto simp: j_def)
        then show ?thesis using bits n by simp
      qed (use P in blast)
      moreover have "8 * i + n < 8 * ?m" using i n(1) by linarith
      ultimately have "?Q (8 * i + n)" using n(1,2) bits [OF n(1)] by blast
      with False rd show ?thesis by (auto simp: n_def mult.commute)
    qed
  qed auto
  then show ?thesis
  proof (elim disjE exE conjE)
    fix s
    assume "for_break 0 ?m ?body () = Some (Inr s)" and P: "?P ?m s"
    then have "bitvec_rl bv b = Some (cur_bit bv)" by (simp add: bitvec_rl_def bitvec_used_bytes_def)
    moreover have "cur_bit bv \<le> 8 * ?m" by (simp add: bitvec_used_bytes_alt)
    ultimately show ?thesis using P by auto
  next
    fix r
    assume "for_break 0 ?m ?body () = Some (Inl r)" and "\<forall>i < r. bv_bit bv i = b" "r < 8 * ?m" "bv_bit bv r \<noteq> b"
    then show ?thesis by (auto simp: bitvec_rl_def bitvec_used_bytes_def)
  qed
qed

subsection \<open>Shifting\<close>

lemma shift_octet:
  fixes a c :: u8
  assumes "s < 8" and "j < 8"
  shows "msb_bit (ucast (drop_bit 8 (push_bit s (osmo_load16be a c)))) j =
         (if j + s < 8 then msb_bit a (j + s) else msb_bit c (j + s - 8))"
  using assms by (auto simp: msb_bit_def osmo_load16be_def bit_simps)

lemma bitvec_shiftl_eq:
  assumes "bv_ok bv" and "0 < n" and "n < cur_bit bv" and "2 \<le> data_len bv"
  shows "\<exists>bv'. bitvec_shiftl bv n = Some bv' \<and> cur_bit bv' = cur_bit bv - n \<and> bv_size bv' = bv_size bv \<and>
     (\<forall>p. p + n < bv_size bv \<longrightarrow> p < bv_size bv - 16 \<longrightarrow> bv_bit bv' p = bv_bit bv (p + n)) \<and>
     (\<forall>p. p + n < bv_size bv \<longrightarrow> bv_size bv - 16 \<le> p \<longrightarrow> p < bv_size bv - 8 \<longrightarrow>
          bv_bit bv' p = bv_bit bv (p + 8 * (n div 8))) \<and>
     (\<forall>p. p + n < bv_size bv \<longrightarrow> bv_size bv - 8 \<le> p \<longrightarrow> bv_bit bv' p = bv_bit bv (p + n))"
proof -
  define len where "len = data_len bv"
  define s where "s = n mod 8"
  define b where "b = n div 8"
  have n: "n = 8 * b + s" "s < 8" by (simp_all add: s_def b_def)
  have bl: "b \<le> len" "len < UINT_MAX1" "2 \<le> len" "bv_size bv = 8 * len"
    using assms by (auto simp: bv_ok_def bv_size_def len_def n)
  define m where "m = take (len - b) (drop b (data bv)) @ drop (len - b) (data bv)"
  have m: "memmove (data bv) 0 b (len - b) = Some m" "length m = len"
    using bl by (simp_all add: memmove_def memcpy_def m_def len_def)
  have mnth: "m ! i = data bv ! (i + b)" if "i + b < len" for i
  proof -
    have "i < len - b" using that by linarith
    then show ?thesis using bl(1) by (simp add: m_def nth_append len_def add.commute)
  qed
  have mbit: "pbit m q = bv_bit bv (q + 8 * b)" if "q + 8 * b < 8 * len" for q
    using that mnth [of "q div 8"] by (simp add: pbit_def bv_bit_def add.commute)
  let ?f = "\<lambda>i. ucast (drop_bit 8 (push_bit s (osmo_load16be (m ! i) (m ! (i + 1))))) :: u8"
  let ?body = "\<lambda>i d. do { q0 \<leftarrow> rd d i; q1 \<leftarrow> rd d (i + 1);
               wr d i (ucast (drop_bit 8 (push_bit s (osmo_load16be q0 q1)))) }"
  let ?P = "\<lambda>i d. length d = len \<and> (\<forall>k < len. d ! k = (if k < i then ?f k else m ! k))"
  have "\<exists>d. for_loop 0 (len - 2) ?body m = Some d \<and> ?P (len - 2) d"
  proof (rule for_loop_rule)
    show "?P 0 m" using m by simp
    fix i d
    assume "i < len - 2" "?P i d"
    then show "\<exists>d'. ?body i d = Some d' \<and> ?P (Suc i) d'"
      by (auto simp: rd_Some wr_Some nth_list_update less_Suc_eq)
  qed simp
  then obtain d where d: "for_loop 0 (len - 2) ?body m = Some d" "length d = len"
    "\<forall>k < len. d ! k = (if k < len - 2 then ?f k else m ! k)" by blast
  define d' where "d' = d[len - 1 := push_bit s (m ! (len - 1))]"
  have "bitvec_shiftl bv n = Some (bv\<lparr>data := d', cur_bit := cur_bit bv - n\<rparr>)"
    using assms(2,3) m d bl
    by (simp add: bitvec_shiftl_def len_def [symmetric] b_def [symmetric] s_def [symmetric] sub32_ge rd_Some wr_Some d'_def)
  moreover have "pbit d' p = bv_bit bv (p + n)" if "p + n < 8 * len" "p < 8 * len - 16" for p
  proof -
    define i j where "i = p div 8" "j = p mod 8"
    have p: "p = 8 * i + j" "j < 8" by (simp_all add: i_j_def)
    have i: "i < len - 2" using that(2) p(1) by linarith
    have "d' ! i = ?f i" using i d bl by (simp add: d'_def)
    then have "pbit d' p = (if j + s < 8 then msb_bit (m ! i) (j + s) else msb_bit (m ! (i + 1)) (j + s - 8))"
      using p n(2) by (simp add: pbit_def shift_octet)
    also have "\<dots> = pbit m (p + s)"
    proof (cases "j + s < 8")
      case False
      define t where "t = j + s - 8"
      have "p + s = 8 * (i + 1) + t" "t < 8" using False p n(2) by (auto simp: t_def)
      then have "(p + s) div 8 = i + 1" "(p + s) mod 8 = t" by (simp_all only: octet_index)
      with False show ?thesis by (simp add: pbit_def t_def)
    qed (simp add: pbit_def p add.assoc)
    also have "\<dots> = bv_bit bv (p + n)" using mbit [of "p + s"] that(1) n(1) by (simp add: add.assoc add.commute)
    finally show ?thesis .
  qed
  moreover have "pbit d' p = bv_bit bv (p + 8 * b)" if "p + n < 8 * len" "8 * len - 16 \<le> p" "p < 8 * len - 8" for p
  proof -
    have "p div 8 = len - 2" using that(2,3) bl(3) by linarith
    then have "d' ! (p div 8) = m ! (p div 8)" using d bl(3) by (simp add: d'_def)
    then show ?thesis using mbit [of p] that(1) n(1) by (simp add: pbit_def)
  qed
  moreover have "pbit d' p = bv_bit bv (p + n)" if "p + n < 8 * len" "8 * len - 8 \<le> p" for p
  proof -
    define j where "j = p - 8 * (len - 1)"
    have p: "p = 8 * (len - 1) + j" "8 * (len - 1) + 8 = 8 * len" using that(2) bl(3) by (auto simp: j_def)
    have j: "j + s < 8" "b = 0" using that(1) n(1) p by linarith+
    then have i: "p div 8 = len - 1" "p mod 8 = j" by (simp_all only: p(1) octet_index)
    have "b = 0" "p mod 8 + s < 8" "(p + s) div 8 = len - 1" "(p + s) mod 8 = j + s"
      using j i octet_index [of "j + s" "len - 1"] by (simp_all add: p(1) add.assoc)
    moreover have "s \<le> 7 - j" "7 - j < 8" using j(1) by linarith+
    ultimately have "pbit d' p = pbit m (p + s)" using i d(2) bl(3) n(2)
      by (simp add: d'_def pbit_def msb_bit_def bit_simps)
    then show ?thesis using mbit [of "p + s"] that(1) n(1) \<open>b = 0\<close> by simp
  qed
  ultimately show ?thesis using d(2) bl
    by (simp add: bv_size_def bv_bit_def d'_def len_def b_def)
qed

lemma bitvec_shiftl_one:
  assumes "bv_ok bv" and "0 < n" and "n < cur_bit bv" and one: "data_len bv = 1"
  shows "bitvec_shiftl bv n = None"
proof -
  have n8: "n div 8 = 0" "sub32 1 2 = 4294967295"
    using assms by (auto simp: bv_ok_def bv_size_def sub32_def wrap32_def)
  let ?body = "\<lambda>i d. do { q0 \<leftarrow> rd d i; q1 \<leftarrow> rd d (i + 1);
             wr d i (ucast (drop_bit 8 (push_bit (n mod 8) (osmo_load16be q0 q1)))) }"
  have "for_loop 0 4294967295 ?body (data bv) = None"
    using one by (subst for_loop_step) (auto simp: rd_def)
  then show ?thesis
    using assms(2,3) one n8 by (simp add: bitvec_shiftl_def memmove_def memcpy_def)
qed

section \<open>Claims\<close>

text \<open>C18: An unsigned field written with \<open>bitvec_write_field\<close> at any bit index is read back by
  \<open>bitvec_read_field\<close>. For a width up to 64 bits that fits into the vector both succeed, both
  advance the index by the width, the value read is the value written reduced to the width,
  and no bit outside the field changes.\<close>

theorem write_read_field:
  assumes "bv_size bv < UINT_MAX1" and "len \<le> 64" and "idx + len \<le> bv_size bv"
  shows "\<exists>bv'. bitvec_write_field bv idx v len = (Inr (idx + len), bv') \<and>
           bitvec_read_field bv' idx len =
             Some (Inr (take_bit len v, idx + len), bv'\<lparr>cur_bit := idx + len\<rparr>) \<and>
           bv_size bv' = bv_size bv \<and>
           (\<forall>p. p < idx \<or> idx + len \<le> p \<longrightarrow> bv_bit bv' p = bv_bit bv p)"
proof -
  let ?bv = "bv\<lparr>cur_bit := idx\<rparr>" and ?bs = "field_bits v len"
  let ?bv' = "bv_append ?bv ?bs"
  have "bitvec_write_field bv idx v len = (Inr (idx + len), ?bv')"
    using assms set_u64_eq [of ?bv len v] by (simp add: bitvec_write_field_def bv_ok_def)
  moreover have "bvs.get_bits ?bv' idx len = ?bs"
    using assms bvs.get_bits_put_bits [of idx ?bs bv] by (simp add: bv_append_def)
  then have "bitvec_read_field ?bv' idx len =
      Some (Inr (take_bit len v, idx + len), ?bv'\<lparr>cur_bit := idx + len\<rparr>)"
    using assms read_field_loop_eq [of len "?bv'\<lparr>cur_bit := idx\<rparr>" 0]
    by (auto simp: bitvec_read_field_def bytenum_from_bitnum_def sub32_ge bv_size_def field_val_bits)
  moreover have "\<forall>p. p < idx \<or> idx + len \<le> p \<longrightarrow> bv_bit ?bv' p = bv_bit bv p"
    using assms by (auto simp: bv_bit_append)
  ultimately show ?thesis by (intro exI [of _ ?bv']) simp
qed

theorem write_read_field_witness:
  "\<exists>bv'. bitvec_write_field \<lparr>cur_bit = 0, data = [0xFF, 0xFF]\<rparr> 5 0x15 6 = (Inr 11, bv') \<and>
     bitvec_read_field bv' 5 6 = Some (Inr (0x15, 11), bv'\<lparr>cur_bit := 11\<rparr>)"
proof -
  have "take_bit 6 (0x15 :: u64) = 0x15" by code_simp
  then show ?thesis
    using write_read_field [of "\<lparr>cur_bit = 0, data = [0xFF, 0xFF]\<rparr>" 6 5 "0x15"] by (auto simp: bv_size_def)
qed

text \<open>C27: Appending an unsigned value with \<open>bitvec_set_u64\<close>, on every branch and for both kinds of bits. More than 64 bits
  is refused with \<open>E2BIG\<close> and changes nothing; a value that fits is appended most significant
  bit first and the cursor moves by its width; a value that does not fit gives \<open>EINVAL\<close> after
  its leading bits have filled the vector to its end. Without \<open>use_lh\<close> the bits are stored as they are; with it a 0 is stored as L, the bit of the
  padding octet 0x2b at its place, and a 1 as H, the opposite. Bits before the cursor never change and
  the vector stays well-formed. Read back from their places, by \<open>bitvec_get_bit_pos\<close> or \<open>bitvec_get_bit_pos_high\<close>, the bits are those
  of the value. \<open>bitvec_set_uint\<close> followed by \<open>bitvec_get_uint\<close> from the same
  position returns the value for widths below 32 bits, and for widths of 32 to 64 the 32 bit value converted to \<open>int\<close>, which is negative from
  2147483648 on and can then be an error code.\<close>

theorem set_u64_every_branch:
  assumes "bv_ok bv" and "n < 256"
  shows "bitvec_set_u64 bv v n use_lh =
     (if 64 < n then (Inl E2BIG, bv)
      else (if cur_bit bv + n \<le> bv_size bv then Inr () else Inl EINVAL,
            bv_append bv (take (bv_size bv - cur_bit bv)
              (map (\<lambda>i. bit v (n - 1 - i) \<noteq> (use_lh \<and> [False, False, True, False, True, False, True, True] ! ((cur_bit bv + i) mod 8))) [0..<n])))) \<and>
   bv_ok (snd (bitvec_set_u64 bv v n use_lh)) \<and>
   (\<forall>p < cur_bit bv. bv_bit (snd (bitvec_set_u64 bv v n use_lh)) p = bv_bit bv p) \<and>
   (n \<le> 64 \<and> cur_bit bv + n \<le> bv_size bv \<longrightarrow>
      (\<forall>i<n. if use_lh then bitvec_get_bit_pos_high (snd (bitvec_set_u64 bv v n use_lh)) (cur_bit bv + i) = Inr (if bit v (n - 1 - i) then H else L)
        else bitvec_get_bit_pos (snd (bitvec_set_u64 bv v n use_lh)) (cur_bit bv + i) = Inr (if bit v (n - 1 - i) then ONE else ZERO)) \<and>
      bitvec_get_uint ((snd (bitvec_set_uint bv ui n))\<lparr>cur_bit := cur_bit bv\<rparr>) n =
        Some (if n < 32 then uint (take_bit n ui) else sint ui, snd (bitvec_set_uint bv ui n)))"
proof -
  let ?bs = "map (\<lambda>i. bit v (n - 1 - i) \<noteq> (use_lh \<and> pad_bits ! ((cur_bit bv + i) mod 8))) [0..<n]"
  have eq: "bitvec_set_u64 bv v n use_lh =
     (if 64 < n then (Inl E2BIG, bv)
      else (if cur_bit bv + n \<le> bv_size bv then Inr () else Inl EINVAL, bv_append bv (take (bv_size bv - cur_bit bv) ?bs)))"
    using assms by (auto simp: bitvec_set_u64_def set_bits_eq bits_at_u64_lh Let_def)
  have ok: "bv_ok (snd (bitvec_set_u64 bv v n use_lh))"
    using assms by (auto simp: eq bv_ok_def)
  have pre: "\<forall>p < cur_bit bv. bv_bit (snd (bitvec_set_u64 bv v n use_lh)) p = bv_bit bv p"
    using assms by (auto simp: eq bv_bit_append bv_ok_def)
  have bits: "if use_lh then bitvec_get_bit_pos_high (snd (bitvec_set_u64 bv v n use_lh)) (cur_bit bv + i) = Inr (if bit v (n - 1 - i) then H else L)
        else bitvec_get_bit_pos (snd (bitvec_set_u64 bv v n use_lh)) (cur_bit bv + i) = Inr (if bit v (n - 1 - i) then ONE else ZERO)"
    if n: "n \<le> 64" "cur_bit bv + n \<le> bv_size bv" and i: "i < n" for i
  proof -
    obtain bv' where bv': "bv' = snd (bitvec_set_u64 bv v n use_lh)" by blast
    have "bv' = bv_append bv ?bs" using n by (simp add: eq bv')
    then have "bv_bit bv' (cur_bit bv + i) = (bit v (n - 1 - i) \<noteq> (use_lh \<and> pad_bits ! ((cur_bit bv + i) mod 8)))" "cur_bit bv + i < bv_size bv'"
      using n i by (simp_all add: bv_bit_append)
    then show ?thesis
      unfolding bv' [symmetric] get_bit_pos_high_eq get_bit_pos_eq bit_of_LH by (cases use_lh) auto
  qed
  show ?thesis
    unfolding pad_bits_def [symmetric]
    by (intro conjI impI, rule eq, rule ok, rule pre) (intro allI impI, rule bits, simp_all add: set_get_uint [OF assms(1)])
qed

theorem set_u64_every_branch_witness:
  "bitvec_set_u64 \<lparr>cur_bit = 4, data = [0xA0]\<rparr> 0x3F 6 False =
     (Inl EINVAL, bv_append \<lparr>cur_bit = 4, data = [0xA0]\<rparr> [True, True, True, True]) \<and>
   bitvec_set_u64 \<lparr>cur_bit = 4, data = [0xA0]\<rparr> 0x6 3 True =
     (Inr (), bv_append \<lparr>cur_bit = 4, data = [0xA0]\<rparr> [False, True, True])"
proof -
  have ok: "bv_ok \<lparr>cur_bit = 4, data = [0xA0]\<rparr>" by (simp add: bv_ok_def bv_size_def)
  have v: "take 4 (map (\<lambda>i. bit (0x3F :: u64) (6 - 1 - i) \<noteq> (False \<and> [False, False, True, False, True, False, True, True] ! ((4 + i) mod 8))) [0..<6]) = [True, True, True, True]"
    "take 4 (map (\<lambda>i. bit (0x6 :: u64) (3 - 1 - i) \<noteq> (True \<and> [False, False, True, False, True, False, True, True] ! ((4 + i) mod 8))) [0..<3]) = [False, True, True]"
    by code_simp+
  show ?thesis
    using set_u64_every_branch [OF ok, of 6 "0x3F" False] set_u64_every_branch [OF ok, of 3 "0x6" True] v by (simp add: bv_size_def)
qed

text \<open>C26: Octets survive any alignment. Writing a non-empty run of octets at the cursor with
  \<open>bitvec_set_bytes\<close>, whatever the bit offset, and reading as many octets from the same place
  with \<open>bitvec_get_bytes\<close> gives the octets back; the bits around them are untouched and neither
  call leaves the data array.\<close>

theorem set_get_bytes:
  assumes "bv_ok bv" and "bytes \<noteq> []" and "cur_bit bv + 8 * length bytes \<le> bv_size bv"
  shows "\<exists>bv'. bitvec_set_bytes bv bytes = Some (Inr (), bv') \<and>
           bitvec_get_bytes (bv'\<lparr>cur_bit := cur_bit bv\<rparr>) (length bytes) = Some (Inr bytes, bv') \<and>
           (\<forall>p < bv_size bv. p < cur_bit bv \<or> cur_bit bv + 8 * length bytes \<le> p \<longrightarrow>
              bv_bit bv' p = bv_bit bv p)"
proof -
  obtain bv' where bv': "bitvec_set_bytes bv bytes = Some (Inr (), bv')"
    "cur_bit bv' = cur_bit bv + 8 * length bytes" "bv_size bv' = bv_size bv"
    "\<forall>p < bv_size bv. bv_bit bv' p =
        (if cur_bit bv \<le> p \<and> p < cur_bit bv + 8 * length bytes then pbit bytes (p - cur_bit bv) else bv_bit bv p)"
    using set_bytes_eq [OF assms(1,3,2)] by blast
  let ?bv = "bv'\<lparr>cur_bit := cur_bit bv\<rparr>"
  have "bv_ok ?bv" using assms(1) bv'(3) by (simp add: bv_ok_def)
  then obtain bs where bs: "bitvec_get_bytes ?bv (length bytes) = Some (Inr bs, bv'\<lparr>cur_bit := cur_bit bv'\<rparr>)"
    "length bs = length bytes" "\<forall>q < 8 * length bytes. pbit bs q = bv_bit bv' (cur_bit bv + q)"
    using get_bytes_eq [of ?bv "length bytes"] assms bv'(2,3) by auto
  have "pbit bs q = pbit bytes q" if "q < 8 * length bytes" for q
    using that bs(3) bv'(4) assms(3) by simp
  then have "bs = bytes"
    using pbits_eq_take [of "length bytes" bs bytes] bs(2) by simp
  with bv' bs(1) show ?thesis by auto
qed

theorem set_get_bytes_witness:
  "\<exists>bv'. bitvec_set_bytes \<lparr>cur_bit = 3, data = [0xFF, 0, 0]\<rparr> [0xAB, 0xCD] = Some (Inr (), bv') \<and>
     bitvec_get_bytes (bv'\<lparr>cur_bit := 3\<rparr>) 2 = Some (Inr [0xAB, 0xCD], bv')"
  using set_get_bytes [of "\<lparr>cur_bit = 3, data = [0xFF, 0, 0]\<rparr>" "[0xAB, 0xCD]"]
  by (auto simp: bv_ok_def bv_size_def numeral_2_eq_2)

text \<open>\<open>bitvec_rl\<close> measures the initial run of equal bits and never leaves the data. The
  result is the cursor when every octet in use consists of that bit, and otherwise the position
  of the first other bit, which is searched for in whole octets and may therefore lie behind
  the cursor.\<close>

theorem bitvec_rl_correct:
  assumes "bv_ok bv"
  shows "\<exists>n. bitvec_rl bv b = Some n \<and> (\<forall>i < n. bv_bit bv i = b) \<and>
     (n = cur_bit bv \<or> (n < 8 * bitvec_used_bytes bv \<and> bv_bit bv n \<noteq> b))"
  using assms by (rule bitvec_rl_eq)

theorem bitvec_rl_correct_witness:
  "bv_ok \<lparr>cur_bit = 4, data = [0xF8]\<rparr> \<and> bitvec_rl \<lparr>cur_bit = 4, data = [0xF8]\<rparr> True = Some 5 \<and>
   (\<exists>n. bitvec_rl \<lparr>cur_bit = 4, data = [0xF8]\<rparr> True = Some n \<and> (\<forall>i < n. bv_bit \<lparr>cur_bit = 4, data = [0xF8]\<rparr> i))"
proof -
  have ok: "bv_ok \<lparr>cur_bit = 4, data = [0xF8]\<rparr>" by (simp add: bv_ok_def bv_size_def)
  show ?thesis
    using ok bitvec_rl_correct [OF ok, of True]
    by (auto simp: bitvec_rl_def for_break_step rd_def leading_bits_def)
qed

text \<open>What \<open>bitvec_shiftl\<close> really does to a vector of two or more octets: the cursor moves
  back by \<open>n\<close>, and every bit of the result is the bit \<open>n\<close> places further on, except in the last but one
  octet, which the loop bound \<open>data_len - 2\<close> leaves out: there the bits are moved by whole
  octets only. A vector of one octet is read outside its bounds (\<open>None\<close>).\<close>

theorem bitvec_shiftl_actual:
  assumes "bv_ok bv" and "0 < n" and "n < cur_bit bv"
  shows "(2 \<le> data_len bv \<longrightarrow>
    (\<exists>bv'. bitvec_shiftl bv n = Some bv' \<and> cur_bit bv' = cur_bit bv - n \<and> bv_size bv' = bv_size bv \<and>
     (\<forall>p. p + n < bv_size bv \<longrightarrow> p < bv_size bv - 16 \<longrightarrow> bv_bit bv' p = bv_bit bv (p + n)) \<and>
     (\<forall>p. p + n < bv_size bv \<longrightarrow> bv_size bv - 16 \<le> p \<longrightarrow> p < bv_size bv - 8 \<longrightarrow>
          bv_bit bv' p = bv_bit bv (p + 8 * (n div 8))) \<and>
     (\<forall>p. p + n < bv_size bv \<longrightarrow> bv_size bv - 8 \<le> p \<longrightarrow> bv_bit bv' p = bv_bit bv (p + n)))) \<and>
    (data_len bv = 1 \<longrightarrow> bitvec_shiftl bv n = None)"
  using bitvec_shiftl_eq [OF assms] bitvec_shiftl_one [OF assms] by blast

theorem bitvec_shiftl_actual_witness:
  "\<exists>bv'. bitvec_shiftl \<lparr>cur_bit = 24, data = [0, 0x40, 0]\<rparr> 1 = Some bv' \<and> \<not> bv_bit bv' 8 \<and>
     bv_bit \<lparr>cur_bit = 24, data = [0, 0x40, 0]\<rparr> (8 + 1)"
proof -
  let ?bv = "\<lparr>cur_bit = 24, data = [0, 0x40, 0 :: u8]\<rparr>"
  have ok: "bv_ok ?bv" by (simp add: bv_ok_def bv_size_def)
  have bits: "\<not> bv_bit ?bv 8" "bv_bit ?bv (8 + 1)" by code_simp+
  have "\<exists>bv'. bitvec_shiftl ?bv 1 = Some bv' \<and>
      (\<forall>p. p + 1 < bv_size ?bv \<longrightarrow> bv_size ?bv - 16 \<le> p \<longrightarrow> p < bv_size ?bv - 8 \<longrightarrow>
          bv_bit bv' p = bv_bit ?bv (p + 8 * (1 div 8)))"
    using bitvec_shiftl_actual [OF ok, of 1] by auto
  then obtain bv' where bv': "bitvec_shiftl ?bv 1 = Some bv'"
    "\<And>p. p + 1 < bv_size ?bv \<Longrightarrow> bv_size ?bv - 16 \<le> p \<Longrightarrow> p < bv_size ?bv - 8 \<Longrightarrow>
          bv_bit bv' p = bv_bit ?bv (p + 8 * (1 div 8))" by blast
  have "bv_bit bv' 8 = bv_bit ?bv 8" using bv'(2) [of 8] by (simp add: bv_size_def)
  with bits bv'(1) show ?thesis by auto
qed

end
