(* ===== verification/Load_Store.thy ===== *)
theory Load_Store
  imports Prelude
begin

text \<open>
  The unaligned integer accessors of \<open>include/osmocom/core/bitXXgen.h.tpl\<close>. The template is
  instantiated by the build for 16, 32 and 64 bits; here the width is the type parameter of
  the word, \<open>XX = LENGTH('w)\<close>. A pointer argument is a buffer with an offset into it, and
  \<open>OSMO_ASSERT\<close> on the octet count gives \<open>None\<close>, as an access outside the buffer does.

  Shown: storing the low \<open>n\<close> octets and loading them again returns them, in either byte
  order, and the store leaves all other octets of the buffer alone.
\<close>

abbreviation sizeof :: "'w::len word itself \<Rightarrow> nat" where
  "sizeof t \<equiv> LENGTH('w) div 8"

subsection \<open>Accessors\<close>

definition osmo_loadXXle_ext :: "u8 list \<Rightarrow> nat \<Rightarrow> nat \<Rightarrow> 'w::len word res" where
  "osmo_loadXXle_ext buf p n =
     (if n \<le> sizeof TYPE('w word)
      then for_loop 0 n (\<lambda>i r. do { q \<leftarrow> rd buf (p + i); Some (r OR push_bit (8 * i) (ucast q)) }) 0
      else None)"

definition osmo_loadXXbe_ext :: "u8 list \<Rightarrow> nat \<Rightarrow> nat \<Rightarrow> 'w::len word res" where
  "osmo_loadXXbe_ext buf p n =
     (if n \<le> sizeof TYPE('w word)
      then for_loop 0 n (\<lambda>i r. do { q \<leftarrow> rd buf (p + i); Some (r OR push_bit (LENGTH('w) - 8 * (1 + i)) (ucast q)) }) 0
      else None)"

definition osmo_loadXXbe_ext_2 :: "u8 list \<Rightarrow> nat \<Rightarrow> nat \<Rightarrow> 'w::len word res" where
  "osmo_loadXXbe_ext_2 buf p n =
     (if n \<le> sizeof TYPE('w word)
      then for_loop 0 n (\<lambda>i r. do {
             q \<leftarrow> rd buf (p + i);
             Some (r OR push_bit (LENGTH('w) - 8 * (1 + i + (sizeof TYPE('w word) - n))) (ucast q)) }) 0
      else None)"

definition osmo_storeXXle_ext :: "'w::len word \<Rightarrow> u8 list \<Rightarrow> nat \<Rightarrow> nat \<Rightarrow> u8 list res" where
  "osmo_storeXXle_ext x buf p n =
     (if n \<le> sizeof TYPE('w word)
      then for_loop 0 n (\<lambda>i buf. wr buf (p + i) (ucast (drop_bit (i * 8) x AND 0xFF))) buf else None)"

definition osmo_storeXXbe_ext :: "'w::len word \<Rightarrow> u8 list \<Rightarrow> nat \<Rightarrow> nat \<Rightarrow> u8 list res" where
  "osmo_storeXXbe_ext x buf p n =
     (if n \<le> sizeof TYPE('w word)
      then for_loop 0 n (\<lambda>i buf. wr buf (p + i) (ucast (drop_bit ((n - 1 - i) * 8) x AND 0xFF))) buf else None)"

definition osmo_loadXXle :: "u8 list \<Rightarrow> nat \<Rightarrow> 'w::len word res" where
  "osmo_loadXXle buf p = osmo_loadXXle_ext buf p (LENGTH('w) div 8)"

definition osmo_loadXXbe :: "u8 list \<Rightarrow> nat \<Rightarrow> 'w::len word res" where
  "osmo_loadXXbe buf p = osmo_loadXXbe_ext buf p (LENGTH('w) div 8)"

definition osmo_storeXXle :: "'w::len word \<Rightarrow> u8 list \<Rightarrow> nat \<Rightarrow> u8 list res" where
  "osmo_storeXXle x buf p = osmo_storeXXle_ext x buf p (LENGTH('w) div 8)"

definition osmo_storeXXbe :: "'w::len word \<Rightarrow> u8 list \<Rightarrow> nat \<Rightarrow> u8 list res" where
  "osmo_storeXXbe x buf p = osmo_storeXXbe_ext x buf p (LENGTH('w) div 8)"

section \<open>Properties\<close>

text \<open>Both loops place octet \<open>i\<close> of memory at octet \<open>pos i\<close> of the integer.\<close>

lemma load_loop:
  fixes buf :: "u8 list"
  assumes "p + n \<le> length buf"
  shows "\<exists>r. for_loop 0 n (\<lambda>i r. do { q \<leftarrow> rd buf (p + i); Some (r OR push_bit (8 * pos i) (ucast q)) }) 0 = Some (r :: 'w::len word)
    \<and> (\<forall>k < LENGTH('w). bit r k \<longleftrightarrow> (\<exists>i<n. pos i = k div 8 \<and> bit (buf ! (p + i)) (k mod 8)))"
proof -
  let ?P = "\<lambda>m (r :: 'w word). \<forall>k < LENGTH('w). bit r k \<longleftrightarrow> (\<exists>i<m. pos i = k div 8 \<and> bit (buf ! (p + i)) (k mod 8))"
  have octet: "8 * a \<le> k \<and> bit (w :: u8) (k - 8 * a) \<longleftrightarrow> a = k div 8 \<and> bit w (k mod 8)" for a k w
  proof (cases "a = k div 8")
    case True
    then show ?thesis by (simp add: minus_mult_div_eq_mod)
  next
    case False
    have "\<not> (8 * a \<le> k \<and> k - 8 * a < 8)" using False by auto
    with False show ?thesis by (auto simp: not_less)
  qed
  show ?thesis
  proof (rule for_loop_rule [where P = ?P])
    fix i and r :: "'w word"
    assume i: "i < n" and IH: "?P i r"
    have b: "bit (r OR push_bit (8 * pos i) (ucast (buf ! (p + i)))) k \<longleftrightarrow>
        bit r k \<or> pos i = k div 8 \<and> bit (buf ! (p + i)) (k mod 8)" if "k < LENGTH('w)" for k
      using that octet [of "pos i" k "buf ! (p + i)"] by (auto simp: bit_simps)
    show "\<exists>r'. do { q \<leftarrow> rd buf (p + i); Some (r OR push_bit (8 * pos i) (ucast q)) } = Some r' \<and> ?P (Suc i) r'"
      using i assms IH by (auto simp: c_mem b less_Suc_eq)
  qed simp_all
qed

lemma store_loop:
  assumes "p + n \<le> length buf"
  shows "\<exists>buf'. for_loop 0 n (\<lambda>i buf. wr buf (p + i) (f i)) buf = Some buf' \<and> length buf' = length buf
    \<and> (\<forall>k < length buf. buf' ! k = (if p \<le> k \<and> k < p + n then f (k - p) else buf ! k))"
proof -
  let ?P = "\<lambda>m b. length b = length buf \<and> (\<forall>k < length buf. b ! k = (if p \<le> k \<and> k < p + m then f (k - p) else buf ! k))"
  show ?thesis
  proof (rule for_loop_rule [where P = ?P])
    fix i b
    assume i: "i < n" and IH: "?P i b"
    then have "wr b (p + i) (f i) = Some (b[p + i := f i])" using assms by (simp add: c_mem)
    moreover have "?P (Suc i) (b[p + i := f i])" using IH by (auto simp: nth_list_update less_Suc_eq)
    ultimately show "\<exists>b'. wr b (p + i) (f i) = Some b' \<and> ?P (Suc i) b'" by blast
  qed auto
qed

lemma low_octet [simp]: "ucast (drop_bit m x AND 0xFF) = (ucast (drop_bit m (x :: 'w::len word)) :: u8)"
proof (rule u8_eqI)
  fix j :: nat
  assume "j < 8"
  have "bit (0xFF :: 'w word) j \<longleftrightarrow> bit (mask 8 :: 'w word) j" by (simp add: mask_eq_exp_minus_1)
  with \<open>j < 8\<close> show "bit (ucast (drop_bit m x AND 0xFF) :: u8) j = bit (ucast (drop_bit m x) :: u8) j"
    by (auto simp: bit_simps dest: bit_imp_le_length)
qed

lemma bij_index:
  assumes "bij_betw pos {..<n} {..<n}"
  shows "(\<exists>i<n. pos i = d) \<longleftrightarrow> d < (n :: nat)"
proof -
  have "(\<exists>i<n. pos i = d) \<longleftrightarrow> d \<in> pos ` {..<n}" by blast
  also have "pos ` {..<n} = {..<n}" by (rule bij_betw_imp_surj_on [OF assms])
  finally show ?thesis by simp
qed

text \<open>An integer stored with octet order \<open>pos\<close> and loaded with the same order.\<close>

lemma load_store_loop:
  fixes x :: "'w::len word" and buf :: "u8 list"
  assumes "p + n \<le> length buf" and "bij_betw pos {..<n} {..<n}"
  obtains buf' where
    "for_loop 0 n (\<lambda>i buf. wr buf (p + i) (ucast (drop_bit (8 * pos i) x))) buf = Some buf'" "length buf' = length buf"
    "take p buf' = take p buf" "drop (p + n) buf' = drop (p + n) buf"
    "for_loop 0 n (\<lambda>i r. do { q \<leftarrow> rd buf' (p + i); Some (r OR push_bit (8 * pos i) (ucast q)) }) 0 = Some (take_bit (8 * n) x)"
proof -
  from store_loop [OF assms(1), of "\<lambda>i. ucast (drop_bit (8 * pos i) x)"] obtain buf' where s:
    "for_loop 0 n (\<lambda>i buf. wr buf (p + i) (ucast (drop_bit (8 * pos i) x))) buf = Some buf'" "length buf' = length buf"
    "\<And>k. k < length buf \<Longrightarrow> buf' ! k = (if p \<le> k \<and> k < p + n then ucast (drop_bit (8 * pos (k - p)) x) else buf ! k)"
    by blast
  obtain r :: "'w word" where r:
    "for_loop 0 n (\<lambda>i r. do { q \<leftarrow> rd buf' (p + i); Some (r OR push_bit (8 * pos i) (ucast q)) }) 0 = Some r"
    "\<And>k. k < LENGTH('w) \<Longrightarrow> bit r k \<longleftrightarrow> (\<exists>i<n. pos i = k div 8 \<and> bit (buf' ! (p + i)) (k mod 8))"
    using load_loop [of p n buf' pos] assms(1) s(2) by auto
  have "r = take_bit (8 * n) x"
  proof (rule bit_word_eqI)
    fix k assume k: "k < LENGTH('w)"
    have o: "bit (buf' ! (p + i)) (k mod 8) \<longleftrightarrow> bit x k" if "i < n" "pos i = k div 8" for i
    proof -
      have "buf' ! (p + i) = ucast (drop_bit (8 * (k div 8)) x)" using s(3) that assms(1) by simp
      then show ?thesis by (simp add: bit_simps)
    qed
    have "(\<exists>i<n. pos i = k div 8) \<longleftrightarrow> k div 8 < n"
      by (rule bij_index [OF assms(2)])
    then show "bit r k \<longleftrightarrow> bit (take_bit (8 * n) x) k"
      using r(2) [OF k] o k by (auto simp: bit_take_bit_iff div_less_iff_less_mult mult.commute)
  qed
  moreover have "take p buf' = take p buf" "drop (p + n) buf' = drop (p + n) buf"
    using s(2,3) assms(1) by (auto intro!: nth_equalityI)
  ultimately show thesis using that s(1,2) r(1) by blast
qed

lemma bij_reverse: "bij_betw (\<lambda>i. n - 1 - i) {..<n} {..<(n :: nat)}"
  by (rule bij_betw_byWitness [where f' = "\<lambda>i. n - 1 - i"]) auto

lemma load_shifted:
  assumes "for_loop 0 n (\<lambda>i r. do { q \<leftarrow> rd buf (p + i); Some (r OR push_bit (8 * pos i) (ucast (q :: u8))) }) 0 = Some (r :: 'w::len word)"
    and "p + n \<le> length buf"
  shows "for_loop 0 n (\<lambda>i r. do { q \<leftarrow> rd buf (p + i); Some (r OR push_bit (8 * (pos i + c)) (ucast q)) }) 0 = Some (push_bit (8 * c) r)"
proof -
  obtain r' :: "'w word" where r':
    "for_loop 0 n (\<lambda>i r. do { q \<leftarrow> rd buf (p + i); Some (r OR push_bit (8 * (pos i + c)) (ucast q)) }) 0 = Some r'"
    "\<And>k. k < LENGTH('w) \<Longrightarrow> bit r' k \<longleftrightarrow> (\<exists>i<n. pos i + c = k div 8 \<and> bit (buf ! (p + i)) (k mod 8))"
    using load_loop [of p n buf "\<lambda>i. pos i + c"] assms(2) by auto
  have r: "bit r k \<longleftrightarrow> (\<exists>i<n. pos i = k div 8 \<and> bit (buf ! (p + i)) (k mod 8))" if "k < LENGTH('w)" for k
    using load_loop [of p n buf pos, where 'w = 'w] assms that by auto
  have "r' = push_bit (8 * c) r"
  proof (rule bit_word_eqI)
    fix k assume k: "k < LENGTH('w)"
    show "bit r' k \<longleftrightarrow> bit (push_bit (8 * c) r) k"
    proof (cases "8 * c \<le> k")
      case True
      then obtain d where d: "k = 8 * c + d" using le_Suc_ex by blast
      then have "k div 8 = c + d div 8" "k mod 8 = d mod 8" by simp_all
      then have "bit r' k \<longleftrightarrow> bit r d"
        using r'(2) [OF k] r [of d] k d by (simp add: add.commute)
      with d k show ?thesis by (simp add: bit_simps)
    next
      case False
      then have "k div 8 < c" by (simp add: div_less_iff_less_mult mult.commute)
      with False k show ?thesis using r'(2) [OF k] by (auto simp: bit_simps)
    qed
  qed
  with r'(1) show ?thesis by simp
qed

text \<open>The octets of an integer in network order, and the full-width accessors in terms of them.\<close>

definition be_octets :: "'w::len word \<Rightarrow> u8 list" where
  "be_octets x = map (\<lambda>i. ucast (drop_bit (8 * (LENGTH('w) div 8 - 1 - i)) x)) [0..<LENGTH('w) div 8]"

lemma length_be_octets [simp]: "length (be_octets (x :: 'w::len word)) = LENGTH('w) div 8"
  by (simp add: be_octets_def)

lemma storebe_splice:
  fixes x :: "'w::len word"
  assumes "p + LENGTH('w) div 8 \<le> length buf"
  shows "osmo_storeXXbe x buf p = Some (take p buf @ be_octets x @ drop (p + LENGTH('w) div 8) buf)"
proof -
  let ?s = "LENGTH('w) div 8" and ?f = "\<lambda>i. ucast (drop_bit (8 * (LENGTH('w) div 8 - 1 - i)) x) :: u8"
  obtain buf' where s: "for_loop 0 ?s (\<lambda>i buf. wr buf (p + i) (?f i)) buf = Some buf'" "length buf' = length buf"
    "\<forall>k < length buf. buf' ! k = (if p \<le> k \<and> k < p + ?s then ?f (k - p) else buf ! k)"
    using store_loop [OF assms, of ?f] by blast
  have "buf' = take p buf @ be_octets x @ drop (p + ?s) buf"
    using s(2,3) assms by (intro nth_equalityI) (auto simp: nth_append be_octets_def min_def)
  with s(1) show ?thesis by (simp add: osmo_storeXXbe_def osmo_storeXXbe_ext_def mult.commute)
qed

lemma loadbe_octets:
  fixes x :: "'w::len word"
  assumes "8 dvd LENGTH('w)" and "p + LENGTH('w) div 8 \<le> length buf" and "take (LENGTH('w) div 8) (drop p buf) = be_octets x"
  shows "osmo_loadXXbe buf p = Some x"
proof -
  obtain s where s: "LENGTH('w) = 8 * s" using assms(1) by blast
  have nth: "buf ! (p + i) = ucast (drop_bit (8 * (s - 1 - i)) x)" if "i < s" for i
  proof -
    have "take s (drop p buf) ! i = be_octets x ! i" using assms(3) s by simp
    with that assms(2) s show ?thesis by (simp add: be_octets_def)
  qed
  obtain r :: "'w word" where r:
    "for_loop 0 s (\<lambda>i r. do { q \<leftarrow> rd buf (p + i); Some (r OR push_bit (8 * (s - 1 - i)) (ucast q)) }) 0 = Some r"
    "\<And>k. k < LENGTH('w) \<Longrightarrow> bit r k \<longleftrightarrow> (\<exists>i < s. s - 1 - i = k div 8 \<and> bit (buf ! (p + i)) (k mod 8))"
    using load_loop [of p s buf "\<lambda>i. s - 1 - i", where 'w = 'w] assms(2) s by auto
  have "r = x"
  proof (rule bit_word_eqI)
    fix k assume k: "k < LENGTH('w)"
    then have kd: "k div 8 < s" using s by (simp add: div_less_iff_less_mult mult.commute)
    have "bit (buf ! (p + i)) (k mod 8) \<longleftrightarrow> bit x k" if "i < s" "s - 1 - i = k div 8" for i
      using nth [OF that(1)] unfolding that(2) by (simp add: bit_simps)
    moreover have "\<exists>i < s. s - 1 - i = k div 8" using kd bij_index [OF bij_reverse [of s], of "k div 8"] by simp
    ultimately show "bit r k \<longleftrightarrow> bit x k" using r(2) [OF k] by blast
  qed
  moreover have "osmo_loadXXbe buf p =
      for_loop 0 s (\<lambda>i r. do { q \<leftarrow> rd buf (p + i); Some (r OR push_bit (8 * (s - 1 - i)) (ucast q :: 'w word)) }) 0"
    unfolding osmo_loadXXbe_def osmo_loadXXbe_ext_def using s by (auto intro!: for_loop_cong simp: diff_mult_distrib2)
  ultimately show ?thesis using r(1) by simp
qed

text \<open>C30: The accessors of bitXXgen.h. For every width that is a whole number of octets, storing the low
  \<open>n\<close> octets of an integer stays inside the buffer, changes only the addressed octets, and loading
  them back gives the integer truncated to \<open>n\<close> octets, in little-endian and, through
  \<open>osmo_loadXXbe_ext_2\<close>, in big-endian order. \<open>osmo_loadXXbe_ext\<close> returns the same octets in the
  most significant positions, as its warning says.\<close>

theorem load_store_roundtrip:
  fixes x :: "'w::len word" and buf :: "u8 list"
  assumes "8 dvd LENGTH('w)" and "n \<le> LENGTH('w) div 8" and "p + n \<le> length buf"
  shows "(\<exists>buf'. osmo_storeXXle_ext x buf p n = Some buf' \<and> length buf' = length buf \<and>
            take p buf' = take p buf \<and> drop (p + n) buf' = drop (p + n) buf \<and>
            osmo_loadXXle_ext buf' p n = Some (take_bit (8 * n) x)) \<and>
         (\<exists>buf'. osmo_storeXXbe_ext x buf p n = Some buf' \<and> length buf' = length buf \<and>
            take p buf' = take p buf \<and> drop (p + n) buf' = drop (p + n) buf \<and>
            osmo_loadXXbe_ext_2 buf' p n = Some (take_bit (8 * n) x) \<and>
            osmo_loadXXbe_ext buf' p n = Some (push_bit (LENGTH('w) - 8 * n) x))"
proof (rule conjI)
  from load_store_loop [OF assms(3), of "\<lambda>i. i" x]
  show "\<exists>buf'. osmo_storeXXle_ext x buf p n = Some buf' \<and> length buf' = length buf \<and>
            take p buf' = take p buf \<and> drop (p + n) buf' = drop (p + n) buf \<and>
            osmo_loadXXle_ext buf' p n = Some (take_bit (8 * n) x)"
    using assms(2) by (auto simp: osmo_storeXXle_ext_def osmo_loadXXle_ext_def bij_betw_def mult.commute)
  obtain s where s: "LENGTH('w) = 8 * s" using assms(1) by blast
  with assms(2) have ns: "n \<le> s" by simp
  from load_store_loop [OF assms(3) bij_reverse, of x] obtain buf' where b:
    "for_loop 0 n (\<lambda>i buf. wr buf (p + i) (ucast (drop_bit (8 * (n - 1 - i)) x))) buf = Some buf'" "length buf' = length buf"
    "take p buf' = take p buf" "drop (p + n) buf' = drop (p + n) buf"
    "for_loop 0 n (\<lambda>i r. do { q \<leftarrow> rd buf' (p + i); Some (r OR push_bit (8 * (n - 1 - i)) (ucast q)) }) 0 = Some (take_bit (8 * n) x)"
    by blast
  have sh: "for_loop 0 n (\<lambda>i r. do { q \<leftarrow> rd buf' (p + i); Some (r OR push_bit (8 * (n - 1 - i + (s - n))) (ucast q)) }) 0 =
      Some (push_bit (8 * (s - n)) (take_bit (8 * n) x))"
    by (rule load_shifted [OF b(5)]) (use b(2) assms(3) in simp)
  have "push_bit (8 * (s - n)) (take_bit (8 * n) x) = push_bit (LENGTH('w) - 8 * n) x"
    by (rule bit_word_eqI) (use s ns in \<open>auto simp: bit_simps diff_mult_distrib2\<close>)
  moreover have "osmo_loadXXbe_ext buf' p n =
      for_loop 0 n (\<lambda>i r. do { q \<leftarrow> rd buf' (p + i); Some (r OR push_bit (8 * (n - 1 - i + (s - n))) (ucast q :: 'w word)) }) 0"
    unfolding osmo_loadXXbe_ext_def using assms(2) s ns
    by (auto intro!: for_loop_cong simp: diff_mult_distrib2 algebra_simps)
  moreover have "osmo_loadXXbe_ext_2 buf' p n =
      for_loop 0 n (\<lambda>i r. do { q \<leftarrow> rd buf' (p + i); Some (r OR push_bit (8 * (n - 1 - i)) (ucast q :: 'w word)) }) 0"
    unfolding osmo_loadXXbe_ext_2_def using assms(2) s ns
    by (auto intro!: for_loop_cong simp: diff_mult_distrib2 algebra_simps)
  ultimately show "\<exists>buf'. osmo_storeXXbe_ext x buf p n = Some buf' \<and> length buf' = length buf \<and>
            take p buf' = take p buf \<and> drop (p + n) buf' = drop (p + n) buf \<and>
            osmo_loadXXbe_ext_2 buf' p n = Some (take_bit (8 * n) x) \<and>
            osmo_loadXXbe_ext buf' p n = Some (push_bit (LENGTH('w) - 8 * n) x)"
    using b sh assms(2) by (auto simp: osmo_storeXXbe_ext_def mult.commute)
qed

theorem load_store_roundtrip_witness:
  "(\<exists>buf'. osmo_storeXXle_ext (0x00345678 :: u32) [1, 2, 3, 4, 5] 1 3 = Some buf' \<and> length buf' = Suc (Suc (Suc (Suc (Suc 0)))) \<and>
      take 1 buf' = [1] \<and> drop 4 buf' = [5] \<and> osmo_loadXXle_ext buf' 1 3 = Some (0x345678 :: u32)) \<and>
   (\<exists>buf'. osmo_storeXXbe_ext (0x00345678 :: u32) [1, 2, 3, 4, 5] 1 3 = Some buf' \<and> length buf' = Suc (Suc (Suc (Suc (Suc 0)))) \<and>
      take 1 buf' = [1] \<and> drop 4 buf' = [5] \<and> osmo_loadXXbe_ext_2 buf' 1 3 = Some (0x345678 :: u32) \<and>
      osmo_loadXXbe_ext buf' 1 3 = Some (0x34567800 :: u32))"
proof -
  note * = load_store_roundtrip [of 3 1 "[1, 2, 3, 4, 5]" "0x00345678 :: u32"]
  have "take_bit 24 (0x00345678 :: u32) = 0x345678" "push_bit 8 (0x00345678 :: u32) = 0x34567800" by simp_all
  with * show ?thesis by simp
qed

end
