(* ===== verification/Llist.thy ===== *)
theory Llist
  imports Prelude
begin

text \<open>
  The doubly linked circular lists of \<open>include/osmocom/core/linuxlist.h\<close>, on an explicit
  store: an address is a \<open>nat\<close>, and the two fields of \<open>struct llist_head\<close> are functions from
  addresses to addresses. Every operation is the sequence of field assignments of the
  source, so aliasing between the nodes it touches is part of the model.

  \<open>ring h q xs\<close> says that the cycle starting and ending at the list head \<open>q\<close> visits the
  nodes \<open>xs\<close> in this order, in both directions. Shown: each operation changes the sequence of
  the ring as its list counterpart does and leaves every ring disjoint from it alone;
  counting a ring terminates with its length. The locale \<open>fifo\<close> is the queue interface that
  the message queues provide.
\<close>

type_synonym addr = nat

record llist_mem =
  nxt :: "addr \<Rightarrow> addr"
  prv :: "addr \<Rightarrow> addr"

abbreviation set_nxt :: "llist_mem \<Rightarrow> addr \<Rightarrow> addr \<Rightarrow> llist_mem" where
  "set_nxt h a b \<equiv> h\<lparr>nxt := (nxt h)(a := b)\<rparr>"

abbreviation set_prv :: "llist_mem \<Rightarrow> addr \<Rightarrow> addr \<Rightarrow> llist_mem" where
  "set_prv h a b \<equiv> h\<lparr>prv := (prv h)(a := b)\<rparr>"

definition LLIST_POISON1 :: addr where "LLIST_POISON1 = 0x00100100"
definition LLIST_POISON2 :: addr where "LLIST_POISON2 = 0x00200200"

subsection \<open>Operations\<close>

definition INIT_LLIST_HEAD :: "addr \<Rightarrow> llist_mem \<Rightarrow> llist_mem" where
  "INIT_LLIST_HEAD p h = (let h = set_nxt h p p in set_prv h p p)"

definition llist_add_between :: "addr \<Rightarrow> addr \<Rightarrow> addr \<Rightarrow> llist_mem \<Rightarrow> llist_mem" where
  "llist_add_between new prev next h =
     (let h = set_prv h next new;
          h = set_nxt h new next;
          h = set_prv h new prev
      in set_nxt h prev new)"

definition llist_add :: "addr \<Rightarrow> addr \<Rightarrow> llist_mem \<Rightarrow> llist_mem" where
  "llist_add new head h = llist_add_between new head (nxt h head) h"

definition llist_add_tail :: "addr \<Rightarrow> addr \<Rightarrow> llist_mem \<Rightarrow> llist_mem" where
  "llist_add_tail new head h = llist_add_between new (prv h head) head h"

definition llist_del_between :: "addr \<Rightarrow> addr \<Rightarrow> llist_mem \<Rightarrow> llist_mem" where
  "llist_del_between prev next h = (let h = set_prv h next prev in set_nxt h prev next)"

definition llist_del :: "addr \<Rightarrow> llist_mem \<Rightarrow> llist_mem" where
  "llist_del entry h =
     (let h = llist_del_between (prv h entry) (nxt h entry) h;
          h = set_nxt h entry LLIST_POISON1
      in set_prv h entry LLIST_POISON2)"

definition llist_del_init :: "addr \<Rightarrow> llist_mem \<Rightarrow> llist_mem" where
  "llist_del_init entry h = INIT_LLIST_HEAD entry (llist_del_between (prv h entry) (nxt h entry) h)"

definition llist_move :: "addr \<Rightarrow> addr \<Rightarrow> llist_mem \<Rightarrow> llist_mem" where
  "llist_move entry head h = llist_add entry head (llist_del_between (prv h entry) (nxt h entry) h)"

definition llist_move_tail :: "addr \<Rightarrow> addr \<Rightarrow> llist_mem \<Rightarrow> llist_mem" where
  "llist_move_tail entry head h = llist_add_tail entry head (llist_del_between (prv h entry) (nxt h entry) h)"

definition llist_empty :: "addr \<Rightarrow> llist_mem \<Rightarrow> bool" where
  "llist_empty head h \<longleftrightarrow> nxt h head = head"

definition llist_splice_between :: "addr \<Rightarrow> addr \<Rightarrow> llist_mem \<Rightarrow> llist_mem" where
  "llist_splice_between llist head h =
     (let first = nxt h llist; last = prv h llist; at = nxt h head;
          h = set_prv h first head;
          h = set_nxt h head first;
          h = set_nxt h last at
      in set_prv h at last)"

definition llist_splice :: "addr \<Rightarrow> addr \<Rightarrow> llist_mem \<Rightarrow> llist_mem" where
  "llist_splice llist head h = (if \<not> llist_empty llist h then llist_splice_between llist head h else h)"

definition llist_splice_init :: "addr \<Rightarrow> addr \<Rightarrow> llist_mem \<Rightarrow> llist_mem" where
  "llist_splice_init llist head h =
     (if \<not> llist_empty llist h then INIT_LLIST_HEAD llist (llist_splice_between llist head h) else h)"

text \<open>The loop \<open>llist_for_each (entry, head) i++\<close>; on a broken list it need not end.\<close>

partial_function (option) llist_count_from :: "addr \<Rightarrow> llist_mem \<Rightarrow> addr \<Rightarrow> nat \<Rightarrow> nat option" where
  "llist_count_from head h entry i =
     (if entry = head then Some i else llist_count_from head h (nxt h entry) (wrap32 (i + 1)))"

definition llist_count :: "addr \<Rightarrow> llist_mem \<Rightarrow> nat option" where
  "llist_count head h = llist_count_from head h (nxt h head) 0"

section \<open>Properties\<close>

subsection \<open>Segments and rings\<close>

fun seg :: "llist_mem \<Rightarrow> addr \<Rightarrow> addr list \<Rightarrow> addr \<Rightarrow> bool" where
  "seg h a [] b \<longleftrightarrow> nxt h a = b \<and> prv h b = a"
| "seg h a (x # xs) b \<longleftrightarrow> nxt h a = x \<and> prv h x = a \<and> seg h x xs b"

definition ring :: "llist_mem \<Rightarrow> addr \<Rightarrow> addr list \<Rightarrow> bool" where
  "ring h q xs \<longleftrightarrow> distinct (q # xs) \<and> seg h q xs q"

lemma seg_append: "seg h a (xs @ x # ys) b \<longleftrightarrow> seg h a xs x \<and> seg h x ys b"
  by (induction xs arbitrary: a) auto

lemma seg_cong:
  assumes "\<And>x. x \<in> set (a # xs) \<Longrightarrow> nxt h x = nxt h' x" and "\<And>x. x \<in> set (xs @ [b]) \<Longrightarrow> prv h x = prv h' x"
  shows "seg h a xs b \<longleftrightarrow> seg h' a xs b"
  using assms by (induction xs arbitrary: a) auto

lemma seg_first: "seg h a xs b \<Longrightarrow> nxt h a = hd (xs @ [b])"
  by (cases xs) auto

lemma seg_last: "seg h a xs b \<Longrightarrow> prv h b = last (a # xs)"
  by (induction xs arbitrary: a) auto

lemma ring_empty_iff: "ring h q xs \<Longrightarrow> llist_empty q h \<longleftrightarrow> xs = []"
  by (cases xs) (auto simp: ring_def llist_empty_def)

text \<open>Every operation writes only to nodes of the rings it works on.\<close>

lemma ring_frame:
  assumes "ring h q xs" and "\<And>x. x \<in> set (q # xs) \<Longrightarrow> nxt h' x = nxt h x \<and> prv h' x = prv h x"
  shows "ring h' q xs"
  using assms seg_cong [of q xs h h' q] by (auto simp: ring_def)

lemma ring_init: "ring (INIT_LLIST_HEAD q h) q []"
  by (simp add: ring_def INIT_LLIST_HEAD_def Let_def)

lemma add_between_fields:
  "nxt (llist_add_between new p n h) x = (if x = p then new else if x = new then n else nxt h x)"
  "prv (llist_add_between new p n h) x = (if x = new then p else if x = n then new else prv h x)"
  by (simp_all add: llist_add_between_def Let_def)

text \<open>Insertion between two neighbours of a ring.\<close>

lemma ring_insert:
  assumes "ring h q (xs @ ys)" and "new \<notin> set (q # xs @ ys)"
    and "p = last (q # xs)" and "n = hd (ys @ [q])"
  shows "ring (llist_add_between new p n h) q (xs @ new # ys)"
proof -
  let ?h = "llist_add_between new p n h"
  have d: "distinct (q # xs @ ys)" using assms(1) by (simp add: ring_def)
  have left: "seg ?h q xs new"
  proof (cases xs rule: rev_cases)
    case Nil
    with assms(2,3) show ?thesis by (simp add: add_between_fields)
  next
    case (snoc zs z)
    then have p: "p = z" using assms(3) by simp
    have sz: "seg h q zs z" using assms(1) snoc by (auto simp: ring_def seg_append)
    have n: "n \<notin> set (zs @ [z])" "n \<noteq> new" using assms(2,4) d snoc by (cases ys; auto)+
    have "seg ?h q zs z \<longleftrightarrow> seg h q zs z"
      using assms(2) d n snoc p by (intro seg_cong) (auto simp: add_between_fields)
    with sz have "seg ?h q zs z" by simp
    moreover have "seg ?h z [] new" using p by (simp add: add_between_fields)
    ultimately show ?thesis unfolding snoc by (simp add: seg_append)
  qed
  have right: "seg ?h new ys q"
  proof (cases ys)
    case Nil
    with assms(2,3,4) show ?thesis by (cases xs rule: rev_cases) (auto simp: add_between_fields)
  next
    case (Cons y zs)
    then have n: "n = y" using assms(4) by simp
    have sy: "seg h y zs q" using assms(1) Cons by (auto simp: ring_def seg_append)
    have "p \<in> set (q # xs)" using assms(3) by simp
    then have p: "p \<notin> set (y # zs)" "p \<noteq> new" using assms(2) d Cons by auto
    have "seg ?h y zs q \<longleftrightarrow> seg h y zs q"
      using assms(2) d n Cons p by (intro seg_cong) (auto simp: add_between_fields)
    with sy n p assms(2) Cons show ?thesis by (auto simp: add_between_fields)
  qed
  from left right have "seg ?h q (xs @ new # ys) q" by (simp add: seg_append)
  with d assms(2) show ?thesis by (auto simp: ring_def)
qed

lemma ring_add:
  "ring h q xs \<Longrightarrow> new \<notin> set (q # xs) \<Longrightarrow> ring (llist_add new q h) q (new # xs)"
  using ring_insert [of h q "[]" xs new q "nxt h q"] seg_first [of h q xs q]
  by (simp add: llist_add_def ring_def)

lemma ring_add_tail:
  "ring h q xs \<Longrightarrow> new \<notin> set (q # xs) \<Longrightarrow> ring (llist_add_tail new q h) q (xs @ [new])"
  using ring_insert [of h q xs "[]" new "prv h q" q] seg_last [of h q xs q]
  by (simp add: llist_add_tail_def ring_def)

lemma del_between_fields:
  "nxt (llist_del_between p n h) x = (if x = p then n else nxt h x)"
  "prv (llist_del_between p n h) x = (if x = n then p else prv h x)"
  by (simp_all add: llist_del_between_def Let_def)

text \<open>Removal of an inner node of a segment, whose end points may coincide.\<close>

lemma seg_remove:
  assumes "seg h a (xs @ e # ys) b" and "distinct (a # xs @ e # ys)" and "b \<notin> set (xs @ e # ys)"
  shows "seg (llist_del_between (prv h e) (nxt h e) h) a (xs @ ys) b"
  using assms
proof (induction xs arbitrary: a)
  case Nil
  then have "prv h e = a" "nxt h e = hd (ys @ [b])" by (auto dest: seg_first)
  moreover from Nil have "seg h e ys b" by simp
  ultimately show ?case using Nil
  proof (cases ys)
    case (Cons y zs)
    have "seg (llist_del_between a y h) y zs b \<longleftrightarrow> seg h y zs b"
      using Nil.prems Cons by (intro seg_cong) (auto simp: del_between_fields)
    with Nil Cons \<open>prv h e = a\<close> \<open>nxt h e = _\<close> show ?thesis by (auto simp: del_between_fields)
  qed (auto simp: del_between_fields)
next
  case (Cons x xs)
  let ?h = "llist_del_between (prv h e) (nxt h e) h"
  from Cons have IH: "seg ?h x (xs @ ys) b" by simp
  have s: "seg h x xs e" "seg h e ys b" using Cons.prems by (simp_all add: seg_append)
  have "prv h e \<in> set (x # xs)" using seg_last [OF s(1)] by simp
  then have "prv h e \<noteq> a" using Cons.prems(2) by auto
  moreover have "nxt h e \<noteq> x" using seg_first [OF s(2)] Cons.prems(2,3)
    by (cases ys) auto
  ultimately show ?case using IH Cons.prems(1) by (simp add: del_between_fields)
qed

lemma ring_remove:
  "ring h q (xs @ e # ys) \<Longrightarrow> ring (llist_del_between (prv h e) (nxt h e) h) q (xs @ ys)"
  using seg_remove [of h q xs e ys q] by (auto simp: ring_def)

lemma ring_neighbours:
  assumes "ring h q (xs @ e # ys)"
  shows "prv h e \<in> set (q # xs)" "nxt h e \<in> set (ys @ [q])"
proof -
  have s: "seg h q xs e" "seg h e ys q" using assms by (simp_all add: ring_def seg_append)
  show "prv h e \<in> set (q # xs)" using seg_last [OF s(1)] by simp
  show "nxt h e \<in> set (ys @ [q])" using seg_first [OF s(2)] by (cases ys) simp_all
qed

lemma ring_del:
  assumes "ring h q (xs @ e # ys)"
  shows "ring (llist_del e h) q (xs @ ys)"
proof (rule ring_frame [OF ring_remove [OF assms]])
  fix x assume "x \<in> set (q # xs @ ys)"
  moreover have "e \<notin> set (q # xs @ ys)" using assms by (auto simp: ring_def)
  ultimately show "nxt (llist_del e h) x = nxt (llist_del_between (prv h e) (nxt h e) h) x \<and>
      prv (llist_del e h) x = prv (llist_del_between (prv h e) (nxt h e) h) x"
    by (auto simp: llist_del_def Let_def)
qed

lemma ring_del_init:
  assumes "ring h q (xs @ e # ys)"
  shows "ring (llist_del_init e h) q (xs @ ys)" "ring (llist_del_init e h) e []"
proof -
  show "ring (llist_del_init e h) q (xs @ ys)"
  proof (rule ring_frame [OF ring_remove [OF assms]])
    fix x assume "x \<in> set (q # xs @ ys)"
    moreover have "e \<notin> set (q # xs @ ys)" using assms by (auto simp: ring_def)
    ultimately show "nxt (llist_del_init e h) x = nxt (llist_del_between (prv h e) (nxt h e) h) x \<and>
        prv (llist_del_init e h) x = prv (llist_del_between (prv h e) (nxt h e) h) x"
      by (auto simp: llist_del_init_def INIT_LLIST_HEAD_def Let_def)
  qed
  show "ring (llist_del_init e h) e []" by (simp add: llist_del_init_def ring_init)
qed

lemma ring_move:
  assumes "ring h q (xs @ e # ys)"
  shows "ring (llist_move e q h) q (e # xs @ ys)" "ring (llist_move_tail e q h) q (xs @ ys @ [e])"
proof -
  have "e \<notin> set (q # xs @ ys)" using assms by (auto simp: ring_def)
  then show "ring (llist_move e q h) q (e # xs @ ys)" "ring (llist_move_tail e q h) q (xs @ ys @ [e])"
    using ring_add [OF ring_remove [OF assms]] ring_add_tail [OF ring_remove [OF assms]]
    by (simp_all add: llist_move_def llist_move_tail_def)
qed

lemma splice_between_fields:
  assumes "first = nxt h q" and "l = prv h q" and "at = nxt h p"
  shows "nxt (llist_splice_between q p h) x = (if x = l then at else if x = p then first else nxt h x)"
    "prv (llist_splice_between q p h) x = (if x = at then l else if x = first then p else prv h x)"
  using assms by (simp_all add: llist_splice_between_def Let_def)

text \<open>Splicing a non-empty ring \<open>q\<close> in front of the ring \<open>p\<close>.\<close>

lemma ring_splice_between:
  assumes q: "ring h q (x # xs)" and p: "ring h p ys" and disj: "set (q # x # xs) \<inter> set (p # ys) = {}"
  shows "ring (llist_splice_between q p h) p (x # xs @ ys)"
proof -
  let ?h = "llist_splice_between q p h" and ?at = "hd (ys @ [p])"
  obtain zs l where zs: "x # xs = zs @ [l]" by (metis rev_exhaust list.distinct(1))
  have d: "distinct (zs @ [l])" "set (x # xs) = set (zs @ [l])" "last (x # xs) = l"
    using q by (simp_all only: zs [symmetric]) (auto simp: ring_def zs)
  have f: "x = nxt h q" "l = prv h q" "?at = nxt h p"
    using q p d(3) seg_first [of h p ys p] seg_last [of h q "x # xs" q] by (auto simp: ring_def)
  note fields = splice_between_fields [OF f]
  have at: "?at \<in> set (p # ys)" by (cases ys) auto
  have dl: "set (zs @ [l]) \<inter> set (p # ys) = {}" using disj d(2) by auto
  have head: "seg ?h p zs l"
  proof (cases zs)
    case Nil
    then have "x = l" using zs by simp
    with dl at show ?thesis unfolding Nil by (auto simp: fields)
  next
    case (Cons z zs')
    then have zx: "zs = x # zs'" using zs by simp
    have sx: "seg h x zs' l" using q zs by (simp add: ring_def zx seg_append)
    have "seg ?h x zs' l \<longleftrightarrow> seg h x zs' l"
      using d(1) dl at zx by (intro seg_cong) (auto simp: fields)
    with sx d(1) dl at show ?thesis unfolding zx by (auto simp: fields)
  qed
  have tail: "seg ?h l ys p"
  proof (cases ys)
    case Nil
    then show ?thesis by (simp add: fields)
  next
    case (Cons y ys')
    have "seg ?h y ys' p \<longleftrightarrow> seg h y ys' p"
      using p disj dl Cons by (intro seg_cong) (auto simp: fields ring_def)
    with p Cons show ?thesis by (auto simp: fields ring_def)
  qed
  from head tail have "seg ?h p (zs @ l # ys) p" by (simp add: seg_append)
  moreover have "zs @ l # ys = x # xs @ ys" using zs by (metis append.assoc append_Cons append_Nil)
  ultimately show ?thesis using q p disj by (auto simp: ring_def)
qed

lemma ring_splice:
  assumes "ring h q xs" and "ring h p ys" and "set (q # xs) \<inter> set (p # ys) = {}"
  shows "ring (llist_splice q p h) p (xs @ ys)"
  using assms ring_splice_between [of h q "hd xs" "tl xs" p ys] ring_empty_iff [OF assms(1)]
  by (cases xs) (auto simp: llist_splice_def)

lemma ring_splice_init:
  assumes "ring h q xs" and "ring h p ys" and "set (q # xs) \<inter> set (p # ys) = {}"
  shows "ring (llist_splice_init q p h) p (xs @ ys)" "ring (llist_splice_init q p h) q []"
proof -
  note e = ring_empty_iff [OF assms(1)]
  show "ring (llist_splice_init q p h) p (xs @ ys)"
  proof (cases xs)
    case (Cons x zs)
    have "q \<notin> set (p # xs @ ys)" using assms by (auto simp: ring_def)
    moreover have "ring (llist_splice_between q p h) p (xs @ ys)"
      using assms ring_splice_between [of h q x zs p ys] Cons by simp
    ultimately have "ring (INIT_LLIST_HEAD q (llist_splice_between q p h)) p (xs @ ys)"
      by (elim ring_frame) (auto simp: INIT_LLIST_HEAD_def Let_def)
    with Cons e show ?thesis by (simp add: llist_splice_init_def)
  qed (use assms e in \<open>simp add: llist_splice_init_def\<close>)
  show "ring (llist_splice_init q p h) q []"
    using e assms(1) by (auto simp: llist_splice_init_def ring_init)
qed

text \<open>Counting a ring ends, with its length; the counter is an \<open>unsigned int\<close>.\<close>

lemma count_from_seg:
  assumes "seg h a xs q" and "q \<notin> set xs"
  shows "llist_count_from q h (nxt h a) i = Some (if xs = [] then i else wrap32 (i + length xs))"
  using assms
proof (induction xs arbitrary: a i)
  case Nil
  then show ?case by (subst llist_count_from.simps) simp
next
  case (Cons x xs)
  have IH: "llist_count_from q h (nxt h x) (wrap32 (i + 1)) =
      Some (if xs = [] then wrap32 (i + 1) else wrap32 (wrap32 (i + 1) + length xs))"
    by (rule Cons.IH) (use Cons.prems in auto)
  have w: "wrap32 (wrap32 (i + 1) + length xs) = wrap32 (i + length (x # xs))"
    by (simp add: wrap32_def mod_simps)
  show ?case using Cons.prems IH w by (subst llist_count_from.simps) auto
qed

lemma ring_count: "ring h q xs \<Longrightarrow> llist_count q h = Some (wrap32 (length xs))"
  by (auto simp: llist_count_def ring_def count_from_seg)

text \<open>The sequence a list head stands for is determined by the store.\<close>

lemma seg_unique: "seg h a xs q \<Longrightarrow> seg h a ys q \<Longrightarrow> q \<notin> set xs \<Longrightarrow> q \<notin> set ys \<Longrightarrow> xs = ys"
proof (induction xs arbitrary: a ys)
  case Nil
  then show ?case by (cases ys) auto
next
  case (Cons x xs)
  then show ?case by (cases ys) auto
qed

lemma ring_unique: "ring h q xs \<Longrightarrow> ring h q ys \<Longrightarrow> xs = ys"
  using seg_unique by (auto simp: ring_def)

section \<open>First-in first-out queues\<close>

datatype 'a queue_op = Enq 'a | Deq

text \<open>The abstract queue: the sequence of its elements; the answers of a run of operations.\<close>

fun fifo_spec :: "'a list \<Rightarrow> 'a queue_op list \<Rightarrow> 'a option list \<times> 'a list" where
  "fifo_spec xs [] = ([], xs)"
| "fifo_spec xs (Enq x # ops) = fifo_spec (xs @ [x]) ops"
| "fifo_spec [] (Deq # ops) = (let (outs, ys) = fifo_spec [] ops in (None # outs, ys))"
| "fifo_spec (x # xs) (Deq # ops) = (let (outs, ys) = fifo_spec xs ops in (Some x # outs, ys))"

fun fifo_run :: "('a \<Rightarrow> 'q \<Rightarrow> 'q) \<Rightarrow> ('q \<Rightarrow> 'q \<times> 'a option) \<Rightarrow> 'q \<Rightarrow> 'a queue_op list \<Rightarrow> 'a option list \<times> 'q" where
  "fifo_run enq deq q [] = ([], q)"
| "fifo_run enq deq q (Enq x # ops) = fifo_run enq deq (enq x q) ops"
| "fifo_run enq deq q (Deq # ops) = (let (q, r) = deq q; (outs, q) = fifo_run enq deq q ops in (r # outs, q))"

text \<open>An element may be added when it is eligible and not in the queue already.\<close>

fun ops_ok :: "('a \<Rightarrow> bool) \<Rightarrow> 'a list \<Rightarrow> 'a queue_op list \<Rightarrow> bool" where
  "ops_ok P xs [] \<longleftrightarrow> True"
| "ops_ok P xs (Enq x # ops) \<longleftrightarrow> P x \<and> x \<notin> set xs \<and> ops_ok P (xs @ [x]) ops"
| "ops_ok P xs (Deq # ops) \<longleftrightarrow> ops_ok P (tl xs) ops"

locale fifo =
  fixes rep :: "'q \<Rightarrow> 'a list \<Rightarrow> bool" and eligible :: "'a \<Rightarrow> bool"
    and enq :: "'a \<Rightarrow> 'q \<Rightarrow> 'q" and deq :: "'q \<Rightarrow> 'q \<times> 'a option"
  assumes enq_law: "rep q xs \<Longrightarrow> eligible x \<Longrightarrow> x \<notin> set xs \<Longrightarrow> rep (enq x q) (xs @ [x])"
    and deq_empty: "rep q [] \<Longrightarrow> rep (fst (deq q)) [] \<and> snd (deq q) = None"
    and deq_law: "rep q (x # xs) \<Longrightarrow> rep (fst (deq q)) xs \<and> snd (deq q) = Some x"
begin

lemma refines:
  "rep q xs \<Longrightarrow> ops_ok eligible xs ops \<Longrightarrow>
   fst (fifo_run enq deq q ops) = fst (fifo_spec xs ops) \<and> rep (snd (fifo_run enq deq q ops)) (snd (fifo_spec xs ops))"
proof (induction xs ops arbitrary: q rule: fifo_spec.induct)
  case (2 xs x ops)
  then show ?case using enq_law by simp
next
  case (3 ops)
  with deq_empty [of q] show ?case by (auto simp: split_def Let_def)
next
  case (4 x xs ops)
  with deq_law [of q x xs] show ?case by (auto simp: split_def Let_def)
qed simp

end

lemma fifo_spec_fill: "fifo_spec xs (map Enq ys @ ops) = fifo_spec (xs @ ys) ops"
  by (induction ys arbitrary: xs) auto

lemma fifo_spec_drain: "fifo_spec (xs @ ys) (replicate (length xs) Deq) = (map Some xs, ys)"
  by (induction xs) auto

lemma ops_ok_fill:
  "distinct (xs @ ys) \<Longrightarrow> (\<forall>y \<in> set ys. P y) \<Longrightarrow> ops_ok P (xs @ ys) ops \<Longrightarrow> ops_ok P xs (map Enq ys @ ops)"
  by (induction ys arbitrary: xs) auto

lemma ops_ok_drain: "ops_ok P xs (replicate n Deq)"
  by (induction n arbitrary: xs) auto

end
