(* ===== verification/Msgb.thy ===== *)
theory Msgb
  imports Load_Store Llist
begin

text \<open>
  Message buffers: \<open>src/core/msgb.c\<close> and the inline functions of \<open>include/osmocom/core/msgb.h\<close>.

  A \<open>msgb\<close> is its memory \<open>mem\<close> (the array \<open>_data\<close>) and its pointers into it, as integer
  offsets from \<open>_data\<close>; a layer pointer is \<open>None\<close> when it is \<open>NULL\<close>. \<open>data_len\<close> and \<open>len\<close> are
  \<open>uint16_t\<close> and wrap. Operations return \<open>Ok\<close>, \<open>Panic\<close> when \<open>MSGB_ABORT\<close> or \<open>OSMO_ASSERT\<close>
  stops the program, and \<open>Fault\<close> when the code dereferences \<open>NULL\<close> or leaves the memory.
  Whether talloc can allocate is an argument of the allocating functions.

  Shown: the invariant tested by \<open>msgb_test_invariant\<close> is preserved by the operations that
  change the message, push/pull and put/get are inverse, copying keeps the message, a sub-area
  resize is the list edit it stands for, and the queues are first in, first out.
\<close>

datatype 'a run = Ok 'a | Panic | Fault

fun and_then :: "'a run \<Rightarrow> ('a \<Rightarrow> 'b run) \<Rightarrow> 'b run" where
  "and_then (Ok x) f = f x"
| "and_then Panic f = Panic"
| "and_then Fault f = Fault"

fun mem_access :: "'a res \<Rightarrow> 'a run" where
  "mem_access None = Fault"
| "mem_access (Some x) = Ok x"

record msgb =
  l1h :: "int option"
  l2h :: "int option"
  l3h :: "int option"
  l4h :: "int option"
  dst :: nat
  lchan :: nat
  cb :: "u64 list"
  data_len :: nat
  len :: nat
  head :: int
  tail :: int
  data :: int
  mem :: "u8 list"

subsection \<open>Integer conversions of the source\<close>

definition u16_of :: "int \<Rightarrow> nat" where
  "u16_of i = nat (i mod 65536)"

definition u32_of :: "int \<Rightarrow> nat" where
  "u32_of i = nat (i mod 4294967296)"

text \<open>The cast \<open>(int) len\<close> of an \<open>unsigned int\<close>.\<close>

definition int_of_u32 :: "nat \<Rightarrow> int" where
  "int_of_u32 n = (if n < 2147483648 then int n else int n - 4294967296)"

text \<open>Memory accesses through a pointer given as an offset.\<close>

definition at_ptr :: "msgb \<Rightarrow> int \<Rightarrow> (u8 list \<Rightarrow> nat \<Rightarrow> 'a res) \<Rightarrow> 'a run" where
  "at_ptr m p f = (if 0 \<le> p then mem_access (f (mem m) (nat p)) else Fault)"

subsection \<open>Allocation\<close>

definition msgb_alloc_c :: "bool \<Rightarrow> nat \<Rightarrow> msgb option" where
  "msgb_alloc_c avail sz =
     (if \<not> avail then None
      else Some \<lparr>l1h = None, l2h = None, l3h = None, l4h = None, dst = 0, lchan = 0, cb = replicate 5 0,
                 data_len = sz, len = 0, head = 0, tail = 0, data = 0, mem = replicate sz 0\<rparr>)"

definition msgb_reset :: "msgb \<Rightarrow> msgb" where
  "msgb_reset m = m\<lparr>len := 0, data := 0, head := 0, tail := 0, dst := 0, lchan := 0,
                    l2h := None, l3h := None, l4h := None, cb := replicate (length (cb m)) 0\<rparr>"

definition msgb_reserve :: "msgb \<Rightarrow> int \<Rightarrow> msgb" where
  "msgb_reserve m n = m\<lparr>data := data m + n, tail := tail m + n\<rparr>"

definition msgb_alloc_headroom_c :: "bool \<Rightarrow> nat \<Rightarrow> nat \<Rightarrow> msgb option run" where
  "msgb_alloc_headroom_c avail sz headroom =
     (if sz \<ge> headroom then Ok (map_option (\<lambda>m. msgb_reserve m (int headroom)) (msgb_alloc_c avail sz))
      else Panic)"

subsection \<open>Lengths\<close>

definition msgb_length :: "msgb \<Rightarrow> nat" where
  "msgb_length m = len m"

fun layer_len :: "msgb \<Rightarrow> int option \<Rightarrow> nat run" where
  "layer_len m None = Panic"
| "layer_len m (Some h) = Ok (u32_of (tail m - h))"

definition msgb_l1len :: "msgb \<Rightarrow> nat run" where "msgb_l1len m = layer_len m (l1h m)"
definition msgb_l2len :: "msgb \<Rightarrow> nat run" where "msgb_l2len m = layer_len m (l2h m)"
definition msgb_l3len :: "msgb \<Rightarrow> nat run" where "msgb_l3len m = layer_len m (l3h m)"
definition msgb_l4len :: "msgb \<Rightarrow> nat run" where "msgb_l4len m = layer_len m (l4h m)"

definition msgb_headlen :: "msgb \<Rightarrow> nat" where
  "msgb_headlen m = u32_of (int (len m) - int (data_len m))"

definition msgb_tailroom :: "msgb \<Rightarrow> int" where
  "msgb_tailroom m = (head m + int (data_len m)) - tail m"

definition msgb_headroom :: "msgb \<Rightarrow> int" where
  "msgb_headroom m = data m - head m"

subsection \<open>Appending and removing at the end\<close>

text \<open>The result is the buffer and the returned pointer.\<close>

definition msgb_put :: "msgb \<Rightarrow> nat \<Rightarrow> (msgb \<times> int) run" where
  "msgb_put m n =
     (let tmp = tail m in
      if msgb_tailroom m < int_of_u32 n then Panic
      else Ok (m\<lparr>tail := tail m + int n, len := u16_of (int (len m) + int n)\<rparr>, tmp))"

definition msgb_put_u8 :: "msgb \<Rightarrow> u8 \<Rightarrow> msgb run" where
  "msgb_put_u8 m word = and_then (msgb_put m 1) (\<lambda>(m, space).
     and_then (at_ptr m space (\<lambda>b i. wr b i (word AND 0xFF))) (\<lambda>b. Ok (m\<lparr>mem := b\<rparr>)))"

definition msgb_put_u16 :: "msgb \<Rightarrow> u16 \<Rightarrow> msgb run" where
  "msgb_put_u16 m word = and_then (msgb_put m 2) (\<lambda>(m, space).
     and_then (at_ptr m space (osmo_storeXXbe word)) (\<lambda>b. Ok (m\<lparr>mem := b\<rparr>)))"

definition msgb_put_u32 :: "msgb \<Rightarrow> u32 \<Rightarrow> msgb run" where
  "msgb_put_u32 m word = and_then (msgb_put m 4) (\<lambda>(m, space).
     and_then (at_ptr m space (osmo_storeXXbe word)) (\<lambda>b. Ok (m\<lparr>mem := b\<rparr>)))"

definition msgb_get :: "msgb \<Rightarrow> nat \<Rightarrow> (msgb \<times> int) run" where
  "msgb_get m n =
     (if msgb_length m < n then Panic
      else let m = m\<lparr>tail := tail m - int n, len := u16_of (int (len m) - int n)\<rparr> in Ok (m, tail m))"

definition msgb_get_u8 :: "msgb \<Rightarrow> (msgb \<times> u8) run" where
  "msgb_get_u8 m = and_then (msgb_get m 1) (\<lambda>(m, space). and_then (at_ptr m space rd) (\<lambda>v. Ok (m, v)))"

definition msgb_get_u16 :: "msgb \<Rightarrow> (msgb \<times> u16) run" where
  "msgb_get_u16 m = and_then (msgb_get m 2) (\<lambda>(m, space). and_then (at_ptr m space osmo_loadXXbe) (\<lambda>v. Ok (m, v)))"

definition msgb_get_u32 :: "msgb \<Rightarrow> (msgb \<times> u32) run" where
  "msgb_get_u32 m = and_then (msgb_get m 4) (\<lambda>(m, space). and_then (at_ptr m space osmo_loadXXbe) (\<lambda>v. Ok (m, v)))"

subsection \<open>Prepending and removing at the front\<close>

definition msgb_push :: "msgb \<Rightarrow> nat \<Rightarrow> (msgb \<times> int) run" where
  "msgb_push m n =
     (if msgb_headroom m < int_of_u32 n then Panic
      else let m = m\<lparr>data := data m - int n, len := u16_of (int (len m) + int n)\<rparr> in Ok (m, data m))"

definition msgb_push_u8 :: "msgb \<Rightarrow> u8 \<Rightarrow> msgb run" where
  "msgb_push_u8 m word = and_then (msgb_push m 1) (\<lambda>(m, space).
     and_then (at_ptr m space (\<lambda>b i. wr b i word)) (\<lambda>b. Ok (m\<lparr>mem := b\<rparr>)))"

definition msgb_push_u16 :: "msgb \<Rightarrow> u16 \<Rightarrow> msgb run" where
  "msgb_push_u16 m word = and_then (msgb_push m 2) (\<lambda>(m, space).
     and_then (at_ptr m space (osmo_storeXXbe word)) (\<lambda>b. Ok (m\<lparr>mem := b\<rparr>)))"

definition msgb_push_u32 :: "msgb \<Rightarrow> u32 \<Rightarrow> msgb run" where
  "msgb_push_u32 m word = and_then (msgb_push m 4) (\<lambda>(m, space).
     and_then (at_ptr m space (osmo_storeXXbe word)) (\<lambda>b. Ok (m\<lparr>mem := b\<rparr>)))"

definition msgb_push_tl :: "msgb \<Rightarrow> u8 \<Rightarrow> (msgb \<times> int) run" where
  "msgb_push_tl m tag = and_then (msgb_push m 2) (\<lambda>(m, p).
     and_then (at_ptr m p (\<lambda>b i. do { b \<leftarrow> wr b i tag; wr b (i + 1) (word_of_int (int (len m) - 2)) }))
       (\<lambda>b. Ok (m\<lparr>mem := b\<rparr>, p)))"

definition msgb_pull :: "msgb \<Rightarrow> nat \<Rightarrow> (msgb \<times> int) run" where
  "msgb_pull m n =
     (if msgb_length m < n then Panic
      else let m = m\<lparr>len := u16_of (int (len m) - int n), data := data m + int n\<rparr> in Ok (m, data m))"

definition msgb_pull_to_l3 :: "msgb \<Rightarrow> (msgb \<times> int) run" where
  "msgb_pull_to_l3 m = (case l3h m of None \<Rightarrow> Fault | Some h \<Rightarrow>
     and_then (msgb_pull m (u32_of (h - data m))) (\<lambda>(m, p). Ok (m\<lparr>l1h := None, l2h := None\<rparr>, p)))"

definition msgb_pull_to_l2 :: "msgb \<Rightarrow> (msgb \<times> int) run" where
  "msgb_pull_to_l2 m = (case l2h m of None \<Rightarrow> Fault | Some h \<Rightarrow>
     and_then (msgb_pull m (u32_of (h - data m))) (\<lambda>(m, p). Ok (m\<lparr>l1h := None\<rparr>, p)))"

definition msgb_pull_u8 :: "msgb \<Rightarrow> (msgb \<times> u8) run" where
  "msgb_pull_u8 m = and_then (msgb_pull m 1) (\<lambda>(m, p). and_then (at_ptr m (p - 1) rd) (\<lambda>v. Ok (m, v)))"

definition msgb_pull_u16 :: "msgb \<Rightarrow> (msgb \<times> u16) run" where
  "msgb_pull_u16 m = and_then (msgb_pull m 2) (\<lambda>(m, p). and_then (at_ptr m (p - 2) osmo_loadXXbe) (\<lambda>v. Ok (m, v)))"

definition msgb_pull_u32 :: "msgb \<Rightarrow> (msgb \<times> u32) run" where
  "msgb_pull_u32 m = and_then (msgb_pull m 4) (\<lambda>(m, p). and_then (at_ptr m (p - 4) osmo_loadXXbe) (\<lambda>v. Ok (m, v)))"

subsection \<open>Trimming, copying and resizing\<close>

text \<open>The result is the buffer and the returned status, 0 or -1.\<close>

definition msgb_trim :: "msgb \<Rightarrow> int \<Rightarrow> (msgb \<times> int) run" where
  "msgb_trim m n =
     (if n < 0 then Panic
      else if n > int (data_len m) then Ok (m, -1)
      else Ok (m\<lparr>len := u16_of n, tail := data m + n\<rparr>, 0))"

definition msgb_l3trim :: "msgb \<Rightarrow> int \<Rightarrow> (msgb \<times> int) run" where
  "msgb_l3trim m l3len = (case l3h m of None \<Rightarrow> Fault | Some h \<Rightarrow> msgb_trim m ((h - data m) + l3len))"

definition msgb_copy_resize_c :: "bool \<Rightarrow> msgb \<Rightarrow> nat \<Rightarrow> msgb option run" where
  "msgb_copy_resize_c avail m new_len =
     (if int new_len < data m + int (msgb_length m) then Ok None
      else case msgb_alloc_c avail new_len of
        None \<Rightarrow> Ok None
      | Some new_msg \<Rightarrow>
          let new_msg = new_msg\<lparr>len := len m, data := data new_msg + data m, head := head new_msg + head m,
                                tail := tail new_msg + tail m\<rparr> in
          if data m < 0 then Fault
          else and_then (mem_access (memcpy (mem new_msg) (nat (data new_msg)) (mem m) (nat (data m)) (msgb_length m)))
            (\<lambda>b. Ok (Some (new_msg\<lparr>mem := b, l1h := l1h m, l2h := l2h m, l3h := l3h m, l4h := l4h m\<rparr>))))"

definition msgb_copy_c :: "bool \<Rightarrow> msgb \<Rightarrow> msgb option run" where
  "msgb_copy_c avail m = msgb_copy_resize_c avail m (data_len m)"

definition shift_from :: "int \<Rightarrow> int \<Rightarrow> int option \<Rightarrow> int option" where
  "shift_from post_start delta h = (case h of Some p \<Rightarrow> if p \<ge> post_start then Some (p + delta) else Some p | None \<Rightarrow> None)"

definition msgb_resize_area :: "msgb \<Rightarrow> int \<Rightarrow> int \<Rightarrow> int \<Rightarrow> (msgb \<times> int) run" where
  "msgb_resize_area m area old_size new_size =
     (let post_start = area + old_size;
          pre_len = area - data m;
          post_len = int (len m) - old_size - pre_len;
          delta_size = new_size - old_size
      in
      if old_size < 0 \<or> new_size < 0 then Panic
      else if area < data m \<or> post_start > tail m then Panic
      else if delta_size = 0 then Ok (m, 0)
      else and_then (if delta_size > 0 then msgb_trim m (int (len m) + delta_size) else Ok (m, 0)) (\<lambda>(m, rc).
        if rc < 0 then Ok (m, rc)
        else if post_len < 0 \<or> area < 0 then Fault
        else and_then (mem_access (memmove (mem m) (nat (area + new_size)) (nat (area + old_size)) (nat post_len))) (\<lambda>b.
          let m = m\<lparr>mem := b,
                    l1h := shift_from post_start delta_size (l1h m), l2h := shift_from post_start delta_size (l2h m),
                    l3h := shift_from post_start delta_size (l3h m), l4h := shift_from post_start delta_size (l4h m)\<rparr>
          in and_then (if delta_size < 0 then msgb_trim m (int (len m) + delta_size) else Ok (m, 0))
               (\<lambda>(m, _). Ok (m, 0)))))"

subsection \<open>Consistency test and comparison\<close>

definition check_layer :: "int option \<Rightarrow> int option \<Rightarrow> int option" where
  "check_layer h lbound = (case (h, lbound) of
     (Some p, Some b) \<Rightarrow> if p < b then None else Some p | _ \<Rightarrow> lbound)"

definition msgb_test_invariant :: "msgb \<Rightarrow> bool" where
  "msgb_test_invariant m =
     (if data m + int (len m) \<noteq> tail m \<or> data m < head m \<or> tail m > head m + int (data_len m) then False
      else case check_layer (l4h m) (check_layer (l3h m) (check_layer (l2h m) (check_layer (l1h m) (Some (head m))))) of
             None \<Rightarrow> False
           | Some lbound \<Rightarrow> lbound \<le> head m + int (data_len m))"

definition msgb_eq_part :: "msgb \<Rightarrow> nat \<Rightarrow> int option \<Rightarrow> u8 list \<Rightarrow> bool run" where
  "msgb_eq_part m m_len p d =
     (if m_len \<noteq> length d then Ok False
      else case p of None \<Rightarrow> Fault
           | Some p \<Rightarrow> if p < 0 \<or> nat p + m_len > length (mem m) then Fault
                       else Ok (take m_len (drop (nat p) (mem m)) = d))"

text \<open>\<open>_msgb_eq\<close> without its log output; \<open>None\<close> is the \<open>NULL\<close> pointer of \<open>msg\<close> and of the data.\<close>

definition msgb_eq :: "nat \<Rightarrow> msgb option \<Rightarrow> u8 list option \<Rightarrow> bool run" where
  "msgb_eq level msg dat = (case (msg, dat) of
     (Some m, Some d) \<Rightarrow>
       if level = 0 then msgb_eq_part m (msgb_length m) (Some (data m)) d
       else if level = 1 then and_then (msgb_l1len m) (\<lambda>n. msgb_eq_part m n (l1h m) d)
       else if level = 2 then and_then (msgb_l2len m) (\<lambda>n. msgb_eq_part m n (l2h m) d)
       else if level = 3 then and_then (msgb_l3len m) (\<lambda>n. msgb_eq_part m n (l3h m) d)
       else if level = 4 then and_then (msgb_l4len m) (\<lambda>n. msgb_eq_part m n (l4h m) d)
       else Ok False
   | _ \<Rightarrow> Ok False)"

text \<open>\<open>msgb_printf\<close>: the formatted text is an argument; \<open>vsnprintf\<close> stores at most
  \<open>tailroom - 1\<close> characters of it and a nul, and returns its full length (or a negative value).\<close>

definition msgb_printf :: "msgb \<Rightarrow> u8 list option \<Rightarrow> (msgb \<times> bool) run" where
  "msgb_printf m formatted =
     (if msgb_tailroom m < 1 then Ok (m, False)
      else case formatted of
        None \<Rightarrow> Ok (m, False)
      | Some s \<Rightarrow>
          let out = take (nat (msgb_tailroom m) - 1) s @ [0] in
          and_then (at_ptr m (tail m) (\<lambda>b i. memcpy b i out 0 (length out))) (\<lambda>b.
            let m = m\<lparr>mem := b\<rparr> in
            if int (length s) \<ge> msgb_tailroom m then Ok (m, False)
            else and_then (msgb_put m (length s)) (\<lambda>(m, _). Ok (m, True))))"

subsection \<open>Queues\<close>

text \<open>The list node is the first field of a \<open>msgb\<close>, so its address is that of the \<open>msgb\<close>;
  address 0 is \<open>NULL\<close>.\<close>

definition msgb_enqueue :: "addr \<Rightarrow> addr \<Rightarrow> llist_mem \<Rightarrow> llist_mem" where
  "msgb_enqueue queue msg h = llist_add_tail msg queue h"

definition msgb_dequeue :: "addr \<Rightarrow> llist_mem \<Rightarrow> llist_mem \<times> addr option" where
  "msgb_dequeue queue h =
     (if llist_empty queue h then (h, None)
      else let lh = nxt h queue in
           if lh \<noteq> 0 then (llist_del lh h, Some lh) else (h, None))"

definition msgb_enqueue_count :: "addr \<Rightarrow> addr \<Rightarrow> nat \<Rightarrow> llist_mem \<Rightarrow> llist_mem \<times> nat" where
  "msgb_enqueue_count queue msg count h = (msgb_enqueue queue msg h, wrap32 (count + 1))"

definition msgb_dequeue_count :: "addr \<Rightarrow> nat \<Rightarrow> llist_mem \<Rightarrow> llist_mem \<times> addr option \<times> nat" where
  "msgb_dequeue_count queue count h =
     (case msgb_dequeue queue h of
        (h, Some msg) \<Rightarrow> (h, Some msg, sub32 count 1)
      | (h, None) \<Rightarrow> (h, None, count))"

text \<open>\<open>msgb_queue_free\<close>, with the list of freed messages; on a broken list it need not end.\<close>

partial_function (option) msgb_queue_free :: "addr \<Rightarrow> llist_mem \<Rightarrow> addr list \<Rightarrow> (llist_mem \<times> addr list) option" where
  "msgb_queue_free queue h freed =
     (case msgb_dequeue queue h of
        (h, Some msg) \<Rightarrow> msgb_queue_free queue h (freed @ [msg])
      | (h, None) \<Rightarrow> Some (h, freed))"

section \<open>Properties\<close>

subsection \<open>The invariant\<close>

fun layers_ok :: "int \<Rightarrow> int \<Rightarrow> int option list \<Rightarrow> bool" where
  "layers_ok b u [] \<longleftrightarrow> b \<le> u"
| "layers_ok b u (None # hs) \<longleftrightarrow> layers_ok b u hs"
| "layers_ok b u (Some p # hs) \<longleftrightarrow> b \<le> p \<and> layers_ok p u hs"

lemma test_invariant_iff:
  "msgb_test_invariant m \<longleftrightarrow>
     data m + int (len m) = tail m \<and> head m \<le> data m \<and> tail m \<le> head m + int (data_len m) \<and>
     layers_ok (head m) (head m + int (data_len m)) [l1h m, l2h m, l3h m, l4h m]"
  by (cases "l1h m"; cases "l2h m"; cases "l3h m"; cases "l4h m")
     (auto simp: msgb_test_invariant_def check_layer_def)

lemma layers_ok_weaken: "layers_ok b u hs \<Longrightarrow> b' \<le> b \<Longrightarrow> layers_ok b' u hs"
  by (induction b u hs arbitrary: b' rule: layers_ok.induct) auto

text \<open>The buffer proper: the memory is the array behind \<open>head\<close>.\<close>

definition msgb_ok :: "msgb \<Rightarrow> bool" where
  "msgb_ok m \<longleftrightarrow> msgb_test_invariant m \<and> head m = 0 \<and> length (mem m) = data_len m \<and> data_len m < 65536"

text \<open>The message: the octets between \<open>data\<close> and \<open>tail\<close>.\<close>

definition contents :: "msgb \<Rightarrow> u8 list" where
  "contents m = take (len m) (drop (nat (data m)) (mem m))"

lemma msgb_okD:
  assumes "msgb_ok m"
  shows "0 \<le> data m" "tail m = data m + int (len m)" "nat (data m) + len m \<le> data_len m"
    "length (mem m) = data_len m" "data_len m < 65536" "head m = 0"
    "msgb_headroom m = data m" "msgb_tailroom m = int (data_len m) - data m - int (len m)"
  using assms by (auto simp: msgb_ok_def test_invariant_iff msgb_headroom_def msgb_tailroom_def)

lemma length_contents: "msgb_ok m \<Longrightarrow> length (contents m) = len m"
  using msgb_okD [of m] by (simp add: contents_def)

lemma u16_id [simp]: "0 \<le> i \<Longrightarrow> i < 65536 \<Longrightarrow> u16_of i = nat i"
  by (simp add: u16_of_def)

lemma int_of_u32_small [simp]: "n < 2147483648 \<Longrightarrow> int_of_u32 n = int n"
  by (simp add: int_of_u32_def)

lemma layers_ok_irrelevant:
  assumes "msgb_ok m" and "head m' = head m" and "data_len m' = data_len m" and "length (mem m') = length (mem m)"
    and "l1h m' = l1h m" and "l2h m' = l2h m" and "l3h m' = l3h m" and "l4h m' = l4h m"
    and "tail m' = data m' + int (len m')" and "0 \<le> data m'" and "nat (data m') + len m' \<le> data_len m"
  shows "msgb_ok m'"
  using assms by (auto simp: msgb_ok_def test_invariant_iff simp del: layers_ok.simps)

lemma put_spec:
  assumes "msgb_ok m" and "n < 2147483648"
  shows "msgb_put m n = (if int n \<le> msgb_tailroom m
     then Ok (m\<lparr>tail := tail m + int n, len := len m + n\<rparr>, tail m) else Panic)"
  using msgb_okD [OF assms(1)] assms(2) by (auto simp: msgb_put_def Let_def nat_add_distrib)

lemma get_spec:
  assumes "msgb_ok m"
  shows "msgb_get m n = (if n \<le> len m
     then Ok (m\<lparr>tail := tail m - int n, len := len m - n\<rparr>, tail m - int n) else Panic)"
  using msgb_okD [OF assms(1)] by (auto simp: msgb_get_def msgb_length_def Let_def nat_diff_distrib)

lemma push_spec:
  assumes "msgb_ok m" and "n < 2147483648"
  shows "msgb_push m n = (if int n \<le> msgb_headroom m
     then Ok (m\<lparr>data := data m - int n, len := len m + n\<rparr>, data m - int n) else Panic)"
  using msgb_okD [OF assms(1)] assms(2) by (auto simp: msgb_push_def Let_def nat_add_distrib)

lemma pull_spec:
  assumes "msgb_ok m"
  shows "msgb_pull m n = (if n \<le> len m
     then Ok (m\<lparr>len := len m - n, data := data m + int n\<rparr>, data m + int n) else Panic)"
  using msgb_okD [OF assms(1)] by (auto simp: msgb_pull_def msgb_length_def Let_def nat_diff_distrib)

lemmas msgb_specs = put_spec get_spec push_spec pull_spec

lemma move_ok:
  assumes "msgb_ok m"
  shows "int n \<le> msgb_tailroom m \<Longrightarrow> msgb_ok (m\<lparr>tail := tail m + int n, len := len m + n\<rparr>)"
    "n \<le> len m \<Longrightarrow> msgb_ok (m\<lparr>tail := tail m - int n, len := len m - n\<rparr>)"
    "int n \<le> msgb_headroom m \<Longrightarrow> msgb_ok (m\<lparr>data := data m - int n, len := len m + n\<rparr>)"
    "n \<le> len m \<Longrightarrow> msgb_ok (m\<lparr>len := len m - n, data := data m + int n\<rparr>)"
  using msgb_okD [OF assms] by (auto intro!: layers_ok_irrelevant [OF assms])

lemma mem_ok: "msgb_ok m \<Longrightarrow> length b = length (mem m) \<Longrightarrow> msgb_ok (m\<lparr>mem := b\<rparr>)"
  by (auto intro!: layers_ok_irrelevant [of m] dest: msgb_okD)

text \<open>A store of octets right behind or right before the message.\<close>

lemma put_store:
  assumes "msgb_ok m" and "int (length ws) \<le> msgb_tailroom m" and "length ws < 2147483648"
  shows "\<exists>m'. and_then (msgb_put m (length ws)) (\<lambda>(m, space).
           and_then (at_ptr m space (\<lambda>b p. Some (take p b @ ws @ drop (p + length ws) b))) (\<lambda>b. Ok (m\<lparr>mem := b\<rparr>))) = Ok m'
         \<and> msgb_ok m' \<and> contents m' = contents m @ ws \<and> msgb_headroom m' = msgb_headroom m
         \<and> msgb_tailroom m' = msgb_tailroom m - int (length ws)"
proof -
  let ?n = "length ws" and ?b = "take (nat (tail m)) (mem m) @ ws @ drop (nat (tail m) + length ws) (mem m)"
  let ?m = "m\<lparr>tail := tail m + int ?n, len := len m + ?n, mem := ?b\<rparr>"
  note d = msgb_okD [OF assms(1)]
  have t: "nat (tail m) = nat (data m) + len m" using d by simp
  have l: "length ?b = length (mem m)" using d t assms(2) by simp
  have "msgb_ok ?m" using mem_ok [OF move_ok(1) [OF assms(1,2)], of ?b] l by simp
  moreover have "contents ?m = contents m @ ws"
  proof -
    have "take (nat (tail m)) (mem m) = take (nat (data m)) (mem m) @ contents m"
      by (simp add: t contents_def take_add)
    moreover have "length (take (nat (data m)) (mem m)) = nat (data m)" using d by simp
    ultimately show ?thesis using length_contents [OF assms(1)] by (subst contents_def) simp
  qed
  moreover have "and_then (msgb_put m ?n) (\<lambda>(m, space).
           and_then (at_ptr m space (\<lambda>b p. Some (take p b @ ws @ drop (p + ?n) b))) (\<lambda>b. Ok (m\<lparr>mem := b\<rparr>))) = Ok ?m"
    using d assms by (simp add: put_spec at_ptr_def)
  moreover have "msgb_headroom ?m = msgb_headroom m" "msgb_tailroom ?m = msgb_tailroom m - int ?n"
    by (simp_all add: msgb_headroom_def msgb_tailroom_def)
  ultimately show ?thesis by blast
qed

lemma push_store:
  assumes "msgb_ok m" and "int (length ws) \<le> msgb_headroom m" and "length ws < 2147483648"
  shows "\<exists>m'. and_then (msgb_push m (length ws)) (\<lambda>(m, space).
           and_then (at_ptr m space (\<lambda>b p. Some (take p b @ ws @ drop (p + length ws) b))) (\<lambda>b. Ok (m\<lparr>mem := b\<rparr>))) = Ok m'
         \<and> msgb_ok m' \<and> contents m' = ws @ contents m \<and> msgb_headroom m' = msgb_headroom m - int (length ws)
         \<and> msgb_tailroom m' = msgb_tailroom m"
proof -
  let ?p = "nat (data m) - length ws" and ?n = "length ws"
  let ?b = "take ?p (mem m) @ ws @ drop (nat (data m)) (mem m)"
  let ?m = "m\<lparr>data := data m - int ?n, len := len m + ?n, mem := ?b\<rparr>"
  note d = msgb_okD [OF assms(1)]
  have n: "?n \<le> nat (data m)" using assms(2) d by simp
  have p: "nat (data m - int ?n) = ?p" "?p + ?n = nat (data m)" using n by (auto simp: nat_diff_distrib)
  have l: "length ?b = length (mem m)" using d n by simp
  have "msgb_ok ?m" using mem_ok [OF move_ok(3) [OF assms(1,2)], of ?b] l by simp
  moreover have "contents ?m = ws @ contents m"
    using d n p by (simp add: contents_def take_append)
  moreover have "and_then (msgb_push m ?n) (\<lambda>(m, space).
           and_then (at_ptr m space (\<lambda>b p. Some (take p b @ ws @ drop (p + ?n) b))) (\<lambda>b. Ok (m\<lparr>mem := b\<rparr>))) = Ok ?m"
    using d n p assms by (simp add: push_spec at_ptr_def)
  moreover have "msgb_headroom ?m = msgb_headroom m - int ?n" "msgb_tailroom ?m = msgb_tailroom m"
    by (simp_all add: msgb_headroom_def msgb_tailroom_def)
  ultimately show ?thesis by blast
qed

lemma wr_splice: "p < length b \<Longrightarrow> wr b p w = Some (take p b @ [w] @ drop (p + length [w]) b)"
  by (simp add: wr_def upd_conv_take_nth_drop)

lemma at_ptr_cong:
  "0 \<le> p \<Longrightarrow> nat p < n \<Longrightarrow> (\<And>q. q < n \<Longrightarrow> f (mem m) q = g (mem m) q) \<Longrightarrow> at_ptr m p f = at_ptr m p g"
  by (simp add: at_ptr_def)

lemma u8_and_255 [simp]: "(w :: u8) AND 255 = w"
proof -
  have "(255 :: u8) = - 1" by simp
  then show ?thesis by (simp only: and.right_neutral)
qed

lemma put_u8_spec:
  assumes "msgb_ok m"
  shows "if 1 \<le> msgb_tailroom m then \<exists>m'. msgb_put_u8 m w = Ok m' \<and> msgb_ok m' \<and> contents m' = contents m @ [w]
           \<and> msgb_headroom m' = msgb_headroom m \<and> msgb_tailroom m' = msgb_tailroom m - 1
         else msgb_put_u8 m w = Panic"
  using put_store [OF assms, of "[w]"] msgb_okD [OF assms]
  by (auto simp: msgb_put_u8_def put_spec [OF assms] at_ptr_def wr_splice split: if_splits)

lemma push_u8_spec:
  assumes "msgb_ok m"
  shows "if 1 \<le> msgb_headroom m then \<exists>m'. msgb_push_u8 m w = Ok m' \<and> msgb_ok m' \<and> contents m' = w # contents m
           \<and> msgb_headroom m' = msgb_headroom m - 1 \<and> msgb_tailroom m' = msgb_tailroom m
         else msgb_push_u8 m w = Panic"
  using push_store [OF assms, of "[w]"] msgb_okD [OF assms]
  by (auto simp: msgb_push_u8_def push_spec [OF assms] at_ptr_def wr_splice split: if_splits)

lemma put_u16_spec:
  assumes "msgb_ok m"
  shows "if 2 \<le> msgb_tailroom m then \<exists>m'. msgb_put_u16 m w = Ok m' \<and> msgb_ok m' \<and> contents m' = contents m @ be_octets w
         else msgb_put_u16 m w = Panic"
  using put_store [OF assms, of "be_octets w"] msgb_okD [OF assms]
  by (auto simp: msgb_put_u16_def put_spec [OF assms] at_ptr_def storebe_splice split: if_splits)

lemma put_u32_spec:
  assumes "msgb_ok m"
  shows "if 4 \<le> msgb_tailroom m then \<exists>m'. msgb_put_u32 m w = Ok m' \<and> msgb_ok m' \<and> contents m' = contents m @ be_octets w
         else msgb_put_u32 m w = Panic"
  using put_store [OF assms, of "be_octets w"] msgb_okD [OF assms]
  by (auto simp: msgb_put_u32_def put_spec [OF assms] at_ptr_def storebe_splice split: if_splits)

lemma push_u16_spec:
  assumes "msgb_ok m"
  shows "if 2 \<le> msgb_headroom m then \<exists>m'. msgb_push_u16 m w = Ok m' \<and> msgb_ok m' \<and> contents m' = be_octets w @ contents m
         else msgb_push_u16 m w = Panic"
  using push_store [OF assms, of "be_octets w"] msgb_okD [OF assms]
  by (auto simp: msgb_push_u16_def push_spec [OF assms] at_ptr_def storebe_splice split: if_splits)

lemma push_u32_spec:
  assumes "msgb_ok m"
  shows "if 4 \<le> msgb_headroom m then \<exists>m'. msgb_push_u32 m w = Ok m' \<and> msgb_ok m' \<and> contents m' = be_octets w @ contents m
         else msgb_push_u32 m w = Panic"
  using push_store [OF assms, of "be_octets w"] msgb_okD [OF assms]
  by (auto simp: msgb_push_u32_def push_spec [OF assms] at_ptr_def storebe_splice split: if_splits)

text \<open>Reading at either end of the message.\<close>

lemma contents_pull: "msgb_ok m \<Longrightarrow> n \<le> len m \<Longrightarrow>
    contents (m\<lparr>len := len m - n, data := data m + int n\<rparr>) = drop n (contents m)"
  using msgb_okD [of m] by (simp add: contents_def drop_take nat_add_distrib add.commute)

lemma contents_get: "msgb_ok m \<Longrightarrow> n \<le> len m \<Longrightarrow>
    contents (m\<lparr>tail := tail m - int n, len := len m - n\<rparr>) = take (len m - n) (contents m)"
  by (simp add: contents_def)

lemma contents_nth: "msgb_ok m \<Longrightarrow> i < len m \<Longrightarrow> contents m ! i = mem m ! (nat (data m) + i)"
  using msgb_okD [of m] by (simp add: contents_def)

lemma contents_slice: "msgb_ok m \<Longrightarrow> i + n \<le> len m \<Longrightarrow>
    take n (drop (nat (data m) + i) (mem m)) = take n (drop i (contents m))"
  using msgb_okD [of m] by (simp add: contents_def drop_take min_def add.commute)

lemma pull_u8_spec:
  assumes "msgb_ok m"
  shows "case contents m of w # ws \<Rightarrow> \<exists>m'. msgb_pull_u8 m = Ok (m', w) \<and> msgb_ok m' \<and> contents m' = ws
             \<and> msgb_headroom m' = msgb_headroom m + 1 \<and> msgb_tailroom m' = msgb_tailroom m
         | [] \<Rightarrow> msgb_pull_u8 m = Panic"
  using msgb_okD [OF assms] move_ok(4) [OF assms, of 1] contents_pull [OF assms, of 1]
    length_contents [OF assms] contents_nth [OF assms, of 0]
  by (auto simp: msgb_pull_u8_def pull_spec [OF assms] at_ptr_def c_mem msgb_headroom_def msgb_tailroom_def
      split: list.splits)

lemma get_u8_spec:
  assumes "msgb_ok m" and "contents m = ws @ [w]"
  shows "\<exists>m'. msgb_get_u8 m = Ok (m', w) \<and> msgb_ok m' \<and> contents m' = ws
    \<and> msgb_headroom m' = msgb_headroom m \<and> msgb_tailroom m' = msgb_tailroom m + 1"
proof -
  have n: "len m = Suc (length ws)" using length_contents [OF assms(1)] assms(2) by simp
  then have p: "nat (tail m - 1) = nat (data m) + length ws" "0 \<le> tail m - 1"
    using msgb_okD [OF assms(1)] by auto
  have "at_ptr m (tail m - 1) rd = Ok w"
    using p msgb_okD [OF assms(1)] n contents_nth [OF assms(1), of "length ws"] assms(2)
    by (simp add: at_ptr_def c_mem)
  then show ?thesis
    using n p(2) move_ok(2) [OF assms(1), of 1] contents_get [OF assms(1), of 1] assms(2)
    by (auto simp: msgb_get_u8_def get_spec [OF assms(1)] at_ptr_def msgb_headroom_def msgb_tailroom_def)
qed

lemma pull_be_octets:
  fixes w :: "'w::len word"
  assumes "msgb_ok m" and "contents m = be_octets w @ ws" and "8 dvd LENGTH('w)" and "n = LENGTH('w) div 8"
  shows "\<exists>m'. and_then (msgb_pull m n) (\<lambda>(m, p). and_then (at_ptr m (p - int n) osmo_loadXXbe) (\<lambda>v. Ok (m, v))) = Ok (m', w)
      \<and> msgb_ok m' \<and> contents m' = ws"
proof -
  have n: "n \<le> len m" using length_contents [OF assms(1)] assms(2,4) by simp
  have "osmo_loadXXbe (mem m) (nat (data m)) = Some w"
    using msgb_okD [OF assms(1)] n contents_slice [OF assms(1), of 0 n] assms by (intro loadbe_octets) auto
  then show ?thesis
    using msgb_okD [OF assms(1)] n move_ok(4) [OF assms(1) n] contents_pull [OF assms(1) n] assms(2,4)
    by (auto simp: pull_spec [OF assms(1)] at_ptr_def)
qed

lemma get_be_octets:
  fixes w :: "'w::len word"
  assumes "msgb_ok m" and "contents m = ws @ be_octets w" and "8 dvd LENGTH('w)" and "n = LENGTH('w) div 8"
  shows "\<exists>m'. and_then (msgb_get m n) (\<lambda>(m, p). and_then (at_ptr m p osmo_loadXXbe) (\<lambda>v. Ok (m, v))) = Ok (m', w)
      \<and> msgb_ok m' \<and> contents m' = ws"
proof -
  have n: "len m = length ws + n" using length_contents [OF assms(1)] assms(2,4) by simp
  have "osmo_loadXXbe (mem m) (nat (data m) + length ws) = Some w"
    using msgb_okD [OF assms(1)] n contents_slice [OF assms(1), of "length ws" n] assms by (intro loadbe_octets) auto
  moreover have "nat (tail m - int n) = nat (data m) + length ws" "0 \<le> tail m - int n"
    using msgb_okD [OF assms(1)] n by auto
  ultimately show ?thesis
    using n move_ok(2) [OF assms(1), of n] contents_get [OF assms(1), of n] assms(2,4)
    by (auto simp: get_spec [OF assms(1)] at_ptr_def)
qed

subsection \<open>The buffer as a double-ended queue of octets\<close>

fun run_all :: "('b \<Rightarrow> 'a \<Rightarrow> 'b run) \<Rightarrow> 'b \<Rightarrow> 'a list \<Rightarrow> 'b run" where
  "run_all f b [] = Ok b"
| "run_all f b (x # xs) = and_then (f b x) (\<lambda>b. run_all f b xs)"

fun take_all :: "('b \<Rightarrow> ('b \<times> 'a) run) \<Rightarrow> 'b \<Rightarrow> nat \<Rightarrow> ('b \<times> 'a list) run" where
  "take_all f b 0 = Ok (b, [])"
| "take_all f b (Suc n) = and_then (f b) (\<lambda>(b, x). and_then (take_all f b n) (\<lambda>(b, xs). Ok (b, x # xs)))"

text \<open>What a protocol layer relies on: room at both ends, and the message as a sequence.\<close>

locale packet_buffer =
  fixes ok :: "'b \<Rightarrow> bool" and msg :: "'b \<Rightarrow> 'a list" and headroom :: "'b \<Rightarrow> int" and tailroom :: "'b \<Rightarrow> int"
    and push :: "'b \<Rightarrow> 'a \<Rightarrow> 'b run" and put :: "'b \<Rightarrow> 'a \<Rightarrow> 'b run"
    and pull :: "'b \<Rightarrow> ('b \<times> 'a) run" and get :: "'b \<Rightarrow> ('b \<times> 'a) run"
  assumes push_law: "ok b \<Longrightarrow> 1 \<le> headroom b \<Longrightarrow>
      \<exists>b'. push b x = Ok b' \<and> ok b' \<and> msg b' = x # msg b \<and> headroom b' = headroom b - 1 \<and> tailroom b' = tailroom b"
    and put_law: "ok b \<Longrightarrow> 1 \<le> tailroom b \<Longrightarrow>
      \<exists>b'. put b x = Ok b' \<and> ok b' \<and> msg b' = msg b @ [x] \<and> headroom b' = headroom b \<and> tailroom b' = tailroom b - 1"
    and pull_law: "ok b \<Longrightarrow> msg b = x # xs \<Longrightarrow>
      \<exists>b'. pull b = Ok (b', x) \<and> ok b' \<and> msg b' = xs \<and> headroom b' = headroom b + 1 \<and> tailroom b' = tailroom b"
    and get_law: "ok b \<Longrightarrow> msg b = xs @ [x] \<Longrightarrow>
      \<exists>b'. get b = Ok (b', x) \<and> ok b' \<and> msg b' = xs \<and> headroom b' = headroom b \<and> tailroom b' = tailroom b + 1"
begin

lemma push_all:
  assumes "ok b" and "int (length hs) \<le> headroom b"
  shows "\<exists>b'. run_all push b (rev hs) = Ok b' \<and> ok b' \<and> msg b' = hs @ msg b \<and>
           headroom b' = headroom b - int (length hs) \<and> tailroom b' = tailroom b"
proof -
  have "\<exists>b'. run_all push b xs = Ok b' \<and> ok b' \<and> msg b' = rev xs @ msg b \<and>
           headroom b' = headroom b - int (length xs) \<and> tailroom b' = tailroom b"
    if "ok b" "int (length xs) \<le> headroom b" for b xs
    using that
  proof (induction xs arbitrary: b)
    case (Cons x xs)
    from push_law [of b x] Cons.prems obtain b' where "push b x = Ok b'" "ok b'" "msg b' = x # msg b"
      "headroom b' = headroom b - 1" "tailroom b' = tailroom b" by auto
    with Cons.IH [of b'] Cons.prems show ?case by auto
  qed simp
  from this [of b "rev hs"] assms show ?thesis by simp
qed

lemma put_all:
  assumes "ok b" and "int (length ts) \<le> tailroom b"
  shows "\<exists>b'. run_all put b ts = Ok b' \<and> ok b' \<and> msg b' = msg b @ ts \<and>
           headroom b' = headroom b \<and> tailroom b' = tailroom b - int (length ts)"
  using assms
proof (induction ts arbitrary: b)
  case (Cons x xs)
  from put_law [of b x] Cons.prems obtain b' where "put b x = Ok b'" "ok b'" "msg b' = msg b @ [x]"
    "headroom b' = headroom b" "tailroom b' = tailroom b - 1" by auto
  with Cons.IH [of b'] Cons.prems show ?case by auto
qed simp

lemma pull_all:
  assumes "ok b" and "msg b = hs @ rest"
  shows "\<exists>b'. take_all pull b (length hs) = Ok (b', hs) \<and> ok b' \<and> msg b' = rest \<and>
           headroom b' = headroom b + int (length hs) \<and> tailroom b' = tailroom b"
  using assms
proof (induction hs arbitrary: b)
  case (Cons x xs)
  from pull_law [of b x "xs @ rest"] Cons.prems obtain b' where "pull b = Ok (b', x)" "ok b'" "msg b' = xs @ rest"
    "headroom b' = headroom b + 1" "tailroom b' = tailroom b" by auto
  with Cons.IH [of b'] show ?case by auto
qed simp

lemma get_all:
  assumes "ok b" and "msg b = front @ ts"
  shows "\<exists>b'. take_all get b (length ts) = Ok (b', rev ts) \<and> ok b' \<and> msg b' = front \<and>
           headroom b' = headroom b \<and> tailroom b' = tailroom b + int (length ts)"
  using assms
proof (induction ts arbitrary: b rule: rev_induct)
  case (snoc x xs)
  from get_law [of b "front @ xs" x] snoc.prems obtain b' where "get b = Ok (b', x)" "ok b'" "msg b' = front @ xs"
    "headroom b' = headroom b" "tailroom b' = tailroom b + 1" by auto
  with snoc.IH [of b'] show ?case by auto
qed simp

text \<open>A layer adds a header and a trailer; its peer strips them and finds the payload, with
  all the room given back.\<close>

lemma encapsulation:
  assumes "ok b" and "int (length hs) \<le> headroom b" and "int (length ts) \<le> tailroom b"
  shows "\<exists>b1 b2 b3 b4. run_all push b (rev hs) = Ok b1 \<and> run_all put b1 ts = Ok b2 \<and>
     ok b2 \<and> msg b2 = hs @ msg b @ ts \<and>
     take_all pull b2 (length hs) = Ok (b3, hs) \<and> take_all get b3 (length ts) = Ok (b4, rev ts) \<and>
     ok b4 \<and> msg b4 = msg b \<and> headroom b4 = headroom b \<and> tailroom b4 = tailroom b"
proof -
  from push_all [OF assms(1,2)] obtain b1 where b1: "run_all push b (rev hs) = Ok b1" "ok b1" "msg b1 = hs @ msg b"
    "headroom b1 = headroom b - int (length hs)" "tailroom b1 = tailroom b" by auto
  with put_all [of b1 ts] assms(3) obtain b2 where b2: "run_all put b1 ts = Ok b2" "ok b2" "msg b2 = hs @ msg b @ ts"
    "headroom b2 = headroom b1" "tailroom b2 = tailroom b1 - int (length ts)" by auto
  with pull_all [of b2 hs "msg b @ ts"] obtain b3 where b3: "take_all pull b2 (length hs) = Ok (b3, hs)" "ok b3"
    "msg b3 = msg b @ ts" "headroom b3 = headroom b2 + int (length hs)" "tailroom b3 = tailroom b2" by auto
  from get_all [OF b3(2,3)] b1 b2 b3 show ?thesis by auto
qed

end

interpretation mb: packet_buffer msgb_ok contents msgb_headroom msgb_tailroom
  msgb_push_u8 msgb_put_u8 msgb_pull_u8 msgb_get_u8
proof (unfold_locales, goal_cases)
  case (1 b x)
  then show ?case using push_u8_spec [of b x] by simp
next
  case (2 b x)
  then show ?case using put_u8_spec [of b x] by simp
next
  case (3 b x xs)
  then show ?case using pull_u8_spec [of b] by simp
next
  case (4 b xs x)
  then show ?case by (rule get_u8_spec)
qed

subsection \<open>Trimming and resizing\<close>

lemma trim_ok:
  assumes "msgb_ok m" and "0 \<le> n" and "n \<le> int (data_len m)"
  shows "msgb_trim m n = Ok (m\<lparr>len := nat n, tail := data m + n\<rparr>, 0)"
    "msgb_ok (m\<lparr>len := nat n, tail := data m + n\<rparr>) \<longleftrightarrow> data m + n \<le> int (data_len m)"
  using assms msgb_okD [OF assms(1)]
  by (auto simp: msgb_trim_def msgb_ok_def test_invariant_iff simp del: layers_ok.simps)

lemma memmove_splice:
  assumes "memmove b d s n = Some b'"
  shows "b' = take d b @ take n (drop s b) @ drop (d + n) b"
  using assms by (auto simp: memmove_def memcpy_def split: if_splits)

text \<open>The octets of the message after the tail part has been moved from \<open>i\<close> to \<open>j\<close>.\<close>

lemma moved_tail:
  assumes "D + l \<le> length b" and "i \<le> l" and "D + j + (l - i) \<le> length b"
  shows "take (j + (l - i)) (drop D (take (D + j) b @ take (l - i) (drop (D + i) b) @ drop (D + j + (l - i)) b)) =
         take j (drop D b) @ drop i (take l (drop D b))"
proof -
  have "take (D + j) b = take D b @ take j (drop D b)" by (simp add: take_add)
  moreover have "take (l - i) (drop (D + i) b) = drop i (take l (drop D b))" by (simp add: drop_take add.commute)
  moreover have "length (take D b) = D" "length (take j (drop D b)) = j" "length (drop i (take l (drop D b))) = l - i"
    using assms by auto
  ultimately show ?thesis by simp
qed

text \<open>\<open>msgb_resize_area\<close> of an area at offset \<open>a\<close> of the message, \<open>o\<close> octets long.\<close>

lemma resize_area_move:
  assumes "msgb_ok m" and "a + old \<le> len m" and "a + new + (len m - (a + old)) + nat (data m) \<le> data_len m" and "new \<noteq> old"
  shows "\<exists>m'. msgb_resize_area m (data m + int a) (int old) (int new) = Ok (m', 0) \<and>
     data m' = data m \<and> len m' = a + new + (len m - (a + old)) \<and> tail m' = data m' + int (len m') \<and>
     contents m' = take (a + new) (drop (nat (data m)) (mem m)) @ drop (a + old) (contents m) \<and>
     head m' = head m \<and> data_len m' = data_len m \<and> length (mem m') = length (mem m) \<and>
     [l1h m', l2h m', l3h m', l4h m'] =
       map (shift_from (data m + int a + int old) (int new - int old)) [l1h m, l2h m, l3h m, l4h m]"
proof -
  note d = msgb_okD [OF assms(1)]
  let ?D = "nat (data m)" and ?l' = "a + new + (len m - (a + old))"
  let ?b = "take (?D + (a + new)) (mem m) @ take (len m - (a + old)) (drop (?D + (a + old)) (mem m)) @ drop (?D + (a + new) + (len m - (a + old))) (mem m)"
  have n: "nat (data m + int a + int new) = ?D + (a + new)" "nat (data m + int a + int old) = ?D + (a + old)"
    "nat (int (len m) - int old - int a) = len m - (a + old)" using d assms by auto
  have mv: "memmove (mem m) (?D + (a + new)) (?D + (a + old)) (len m - (a + old)) = Some ?b"
    using d assms by (simp add: memmove_def memcpy_def)
  have lb: "length ?b = length (mem m)" using mv unfolding memmove_def by (rule memcpy_length)
  have t: "0 \<le> int (len m) + (int new - int old)" "int (len m) + (int new - int old) \<le> int (data_len m)"
    "int (len m) + (int new - int old) = int ?l'" using d assms by auto
  have c: "take ?l' (drop ?D ?b) = take (a + new) (drop ?D (mem m)) @ drop (a + old) (contents m)"
    using moved_tail [of ?D "len m" "mem m" "a + old" "a + new"] d assms by (simp add: contents_def add.assoc)
  let ?m = "m\<lparr>mem := ?b, l1h := shift_from (data m + int a + int old) (int new - int old) (l1h m),
     l2h := shift_from (data m + int a + int old) (int new - int old) (l2h m),
     l3h := shift_from (data m + int a + int old) (int new - int old) (l3h m),
     l4h := shift_from (data m + int a + int old) (int new - int old) (l4h m),
     len := ?l', tail := data m + int ?l'\<rparr>"
  have guards: "\<not> (data m + int a < data m \<or> data m + int a + int old > tail m)"
    "\<not> (int (len m) - int old - (data m + int a - data m) < 0 \<or> data m + int a < 0)"
    "nat (int (len m) - int old - (data m + int a - data m)) = len m - (a + old)"
    "u16_of (int new + int (len m) - int old) = new + len m - old"
    using d assms by (auto simp: nat_diff_distrib)
  have r: "msgb_resize_area m (data m + int a) (int old) (int new) = Ok (?m, 0)"
    unfolding msgb_resize_area_def Let_def
    using assms(4) t(1,2) guards(1,2)
    by (cases "new > old") (simp_all add: msgb_trim_def guards(3,4) n mv t(3))
  have "contents ?m = take ?l' (drop ?D ?b)" by (simp add: contents_def)
  also note c
  finally have "contents ?m = take (a + new) (drop ?D (mem m)) @ drop (a + old) (contents m)" .
  moreover have "length (mem ?m) = length (mem m)" using lb by simp
  ultimately show ?thesis by (intro exI [of _ ?m] conjI r) simp_all
qed

lemma layers_ok_grow: "layers_ok b u hs \<Longrightarrow> u \<le> u' \<Longrightarrow> layers_ok b u' hs"
  by (induction b u hs rule: layers_ok.induct) auto

lemma msgb_ok_layers: "msgb_ok m \<Longrightarrow> layers_ok 0 (int (data_len m)) [l1h m, l2h m, l3h m, l4h m]"
  unfolding msgb_ok_def test_invariant_iff by (elim conjE) (simp only: add_0)

subsection \<open>Queues of messages\<close>

lemma dequeue_ring:
  assumes "ring h q xs" and "0 \<notin> set xs"
  shows "msgb_dequeue q h = (case xs of [] \<Rightarrow> (h, None) | x # _ \<Rightarrow> (llist_del x h, Some x))"
  using assms ring_empty_iff [OF assms(1)] by (cases xs) (auto simp: msgb_dequeue_def ring_def Let_def)

interpretation mq: fifo "\<lambda>h xs. ring h q xs \<and> 0 \<notin> set xs" "\<lambda>m. m \<noteq> 0 \<and> m \<noteq> q" "msgb_enqueue q" "msgb_dequeue q"
  for q :: addr
proof (unfold_locales, goal_cases)
  case (1 h xs m)
  then show ?case by (auto simp: msgb_enqueue_def intro!: ring_add_tail)
next
  case (2 h)
  then show ?case by (auto simp: dequeue_ring)
next
  case (3 h m xs)
  then show ?case using ring_del [of h q "[]" m xs] by (auto simp: dequeue_ring)
qed

lemma queue_free_ring:
  "ring h q xs \<Longrightarrow> 0 \<notin> set xs \<Longrightarrow> \<exists>h'. msgb_queue_free q h freed = Some (h', freed @ xs) \<and> ring h' q []"
proof (induction xs arbitrary: h freed)
  case Nil
  then show ?case by (subst msgb_queue_free.simps) (auto simp: dequeue_ring)
next
  case (Cons x xs)
  from Cons.prems(1) have "ring (llist_del x h) q xs" using ring_del [of h q "[]" x xs] by simp
  with Cons.IH [of "llist_del x h" "freed @ [x]"] Cons.prems show ?case
    by (subst msgb_queue_free.simps) (auto simp: dequeue_ring)
qed

lemma get_u16_spec:
  assumes "msgb_ok m" and "contents m = ws @ be_octets w"
  shows "\<exists>m'. msgb_get_u16 m = Ok (m', w) \<and> msgb_ok m' \<and> contents m' = ws"
  unfolding msgb_get_u16_def by (rule get_be_octets [OF assms]) simp_all

lemma get_u32_spec:
  assumes "msgb_ok m" and "contents m = ws @ be_octets w"
  shows "\<exists>m'. msgb_get_u32 m = Ok (m', w) \<and> msgb_ok m' \<and> contents m' = ws"
  unfolding msgb_get_u32_def by (rule get_be_octets [OF assms]) simp_all

lemma pull_u16_spec:
  assumes "msgb_ok m" and "contents m = be_octets w @ ws"
  shows "\<exists>m'. msgb_pull_u16 m = Ok (m', w) \<and> msgb_ok m' \<and> contents m' = ws"
  unfolding msgb_pull_u16_def by (rule pull_be_octets [OF assms, of 2, unfolded of_nat_numeral]) simp_all

lemma pull_u32_spec:
  assumes "msgb_ok m" and "contents m = be_octets w @ ws"
  shows "\<exists>m'. msgb_pull_u32 m = Ok (m', w) \<and> msgb_ok m' \<and> contents m' = ws"
  unfolding msgb_pull_u32_def by (rule pull_be_octets [OF assms, of 4, unfolded of_nat_numeral]) simp_all

section \<open>Claims\<close>


definition demo_msg :: msgb where
  "demo_msg = \<lparr>l1h = None, l2h = None, l3h = None, l4h = None, dst = 0, lchan = 0, cb = [0, 0, 0, 0, 0],
     data_len = 8, len = 2, head = 0, tail = 5, data = 3, mem = [0, 0, 0, 7, 9, 0, 0, 0]\<rparr>"

lemma demo_msg_ok: "msgb_ok demo_msg" "contents demo_msg = [7, 9]" "msgb_tailroom demo_msg = 3" "msgb_headroom demo_msg = 3"
  "len demo_msg = 2" "data demo_msg = 3" "tail demo_msg = 5" "data_len demo_msg = 8"
  by (simp_all add: demo_msg_def msgb_ok_def msgb_test_invariant_def check_layer_def contents_def msgb_tailroom_def msgb_headroom_def)


text \<open>C23: Encapsulation. Header octets pushed in front of a message and trailer octets put behind it are
  found again, in order, by the peer that pulls the header and gets the trailer; the payload and the
  room at both ends are what they were. The same holds for 16 and 32 bit fields.\<close>

theorem msgb_encapsulation:
  assumes "msgb_ok m"
  shows "(int (length hs) \<le> msgb_headroom m \<longrightarrow> int (length ts) \<le> msgb_tailroom m \<longrightarrow>
           (\<exists>m1 m2 m3 m4. run_all msgb_push_u8 m (rev hs) = Ok m1 \<and> run_all msgb_put_u8 m1 ts = Ok m2 \<and>
              msgb_ok m2 \<and> contents m2 = hs @ contents m @ ts \<and>
              take_all msgb_pull_u8 m2 (length hs) = Ok (m3, hs) \<and> take_all msgb_get_u8 m3 (length ts) = Ok (m4, rev ts) \<and>
              msgb_ok m4 \<and> contents m4 = contents m \<and>
              msgb_headroom m4 = msgb_headroom m \<and> msgb_tailroom m4 = msgb_tailroom m)) \<and>
         (2 \<le> msgb_tailroom m \<longrightarrow> (\<exists>m1 m2. msgb_put_u16 m w16 = Ok m1 \<and> msgb_get_u16 m1 = Ok (m2, w16) \<and> msgb_ok m2 \<and> contents m2 = contents m)) \<and>
         (4 \<le> msgb_tailroom m \<longrightarrow> (\<exists>m1 m2. msgb_put_u32 m w32 = Ok m1 \<and> msgb_get_u32 m1 = Ok (m2, w32) \<and> msgb_ok m2 \<and> contents m2 = contents m)) \<and>
         (2 \<le> msgb_headroom m \<longrightarrow> (\<exists>m1 m2. msgb_push_u16 m w16 = Ok m1 \<and> msgb_pull_u16 m1 = Ok (m2, w16) \<and> msgb_ok m2 \<and> contents m2 = contents m)) \<and>
         (4 \<le> msgb_headroom m \<longrightarrow> (\<exists>m1 m2. msgb_push_u32 m w32 = Ok m1 \<and> msgb_pull_u32 m1 = Ok (m2, w32) \<and> msgb_ok m2 \<and> contents m2 = contents m))"
proof (intro conjI impI)
  show "\<exists>m1 m2 m3 m4. run_all msgb_push_u8 m (rev hs) = Ok m1 \<and> run_all msgb_put_u8 m1 ts = Ok m2 \<and>
      msgb_ok m2 \<and> contents m2 = hs @ contents m @ ts \<and>
      take_all msgb_pull_u8 m2 (length hs) = Ok (m3, hs) \<and> take_all msgb_get_u8 m3 (length ts) = Ok (m4, rev ts) \<and>
      msgb_ok m4 \<and> contents m4 = contents m \<and> msgb_headroom m4 = msgb_headroom m \<and> msgb_tailroom m4 = msgb_tailroom m"
    if "int (length hs) \<le> msgb_headroom m" "int (length ts) \<le> msgb_tailroom m"
    using mb.encapsulation [OF assms that] .
  show "\<exists>m1 m2. msgb_put_u16 m w16 = Ok m1 \<and> msgb_get_u16 m1 = Ok (m2, w16) \<and> msgb_ok m2 \<and> contents m2 = contents m"
    if "2 \<le> msgb_tailroom m"
  proof -
    from put_u16_spec [OF assms, of w16] that obtain m1 where "msgb_put_u16 m w16 = Ok m1" "msgb_ok m1"
      "contents m1 = contents m @ be_octets w16" by auto
    with get_u16_spec [of m1] show ?thesis by blast
  qed
  show "\<exists>m1 m2. msgb_put_u32 m w32 = Ok m1 \<and> msgb_get_u32 m1 = Ok (m2, w32) \<and> msgb_ok m2 \<and> contents m2 = contents m"
    if "4 \<le> msgb_tailroom m"
  proof -
    from put_u32_spec [OF assms, of w32] that obtain m1 where "msgb_put_u32 m w32 = Ok m1" "msgb_ok m1"
      "contents m1 = contents m @ be_octets w32" by auto
    with get_u32_spec [of m1] show ?thesis by blast
  qed
  show "\<exists>m1 m2. msgb_push_u16 m w16 = Ok m1 \<and> msgb_pull_u16 m1 = Ok (m2, w16) \<and> msgb_ok m2 \<and> contents m2 = contents m"
    if "2 \<le> msgb_headroom m"
  proof -
    from push_u16_spec [OF assms, of w16] that obtain m1 where "msgb_push_u16 m w16 = Ok m1" "msgb_ok m1"
      "contents m1 = be_octets w16 @ contents m" by auto
    with pull_u16_spec [of m1] show ?thesis by blast
  qed
  show "\<exists>m1 m2. msgb_push_u32 m w32 = Ok m1 \<and> msgb_pull_u32 m1 = Ok (m2, w32) \<and> msgb_ok m2 \<and> contents m2 = contents m"
    if "4 \<le> msgb_headroom m"
  proof -
    from push_u32_spec [OF assms, of w32] that obtain m1 where "msgb_push_u32 m w32 = Ok m1" "msgb_ok m1"
      "contents m1 = be_octets w32 @ contents m" by auto
    with pull_u32_spec [of m1] show ?thesis by blast
  qed
qed

theorem msgb_encapsulation_witness:
  "(\<exists>m1 m2 m3 m4. run_all msgb_push_u8 demo_msg [2, 1] = Ok m1 \<and> run_all msgb_put_u8 m1 [3] = Ok m2 \<and>
      msgb_ok m2 \<and> contents m2 = [1, 2, 7, 9, 3] \<and>
      take_all msgb_pull_u8 m2 (Suc (Suc 0)) = Ok (m3, [1, 2]) \<and> take_all msgb_get_u8 m3 (Suc 0) = Ok (m4, [3]) \<and>
      msgb_ok m4 \<and> contents m4 = [7, 9] \<and> msgb_headroom m4 = 3 \<and> msgb_tailroom m4 = 3) \<and>
   (\<exists>m1 m2. msgb_push_u16 demo_msg 0x1234 = Ok m1 \<and> msgb_pull_u16 m1 = Ok (m2, 0x1234) \<and> msgb_ok m2 \<and> contents m2 = [7, 9])"
proof -
  note * = msgb_encapsulation [OF demo_msg_ok(1), of "[1, 2]" "[3]" "0x1234" 0]
  have r: "int (length [1, 2 :: u8]) \<le> msgb_headroom demo_msg" "int (length [3 :: u8]) \<le> msgb_tailroom demo_msg"
    "2 \<le> msgb_headroom demo_msg" by (simp_all add: demo_msg_ok)
  have l: "length [1, 2 :: u8] = Suc (Suc 0)" "length [3 :: u8] = Suc 0" "rev [1, 2 :: u8] = [2, 1]" "rev [3 :: u8] = [3]" by simp_all
  show ?thesis using * r unfolding l demo_msg_ok append_Cons append_Nil by blast
qed

text \<open>\<open>msgb_trim\<close> and the headroom. The length is only compared with the size of the whole buffer: with
  \<open>n \<le> data_len\<close> the call succeeds, and the result is consistent exactly when \<open>n\<close> also fits behind the
  headroom; otherwise \<open>tail\<close> points beyond the memory.\<close>

theorem msgb_trim_headroom:
  assumes "msgb_ok m"
  shows "(n < 0 \<longrightarrow> msgb_trim m n = Panic) \<and>
         (int (data_len m) < n \<longrightarrow> msgb_trim m n = Ok (m, -1)) \<and>
         (0 \<le> n \<and> n \<le> int (data_len m) \<longrightarrow>
            (\<exists>m'. msgb_trim m n = Ok (m', 0) \<and> tail m' = data m + n \<and>
                  (msgb_test_invariant m' \<longleftrightarrow> n \<le> int (len m) + msgb_tailroom m) \<and>
                  (n \<le> int (len m) \<longrightarrow> contents m' = take (nat n) (contents m)) \<and>
                  (int (len m) + msgb_tailroom m < n \<longrightarrow> tail m' > int (length (mem m')))))"
proof (intro conjI impI, goal_cases)
  case 3
  let ?m = "m\<lparr>len := nat n, tail := data m + n\<rparr>"
  have "msgb_test_invariant ?m \<longleftrightarrow> n \<le> int (len m) + msgb_tailroom m"
    using 3 trim_ok(2) [OF assms, of n] msgb_okD [OF assms] by (auto simp: msgb_ok_def)
  moreover have "contents ?m = take (nat n) (contents m)" if "n \<le> int (len m)"
    using that by (simp add: contents_def min_def) linarith
  ultimately show ?case using 3 trim_ok(1) [OF assms, of n] msgb_okD [OF assms] by auto
qed (simp_all add: msgb_trim_def)

theorem msgb_trim_headroom_witness:
  "\<exists>m'. msgb_trim demo_msg 6 = Ok (m', 0) \<and> \<not> msgb_test_invariant m' \<and> tail m' > int (length (mem m'))"
  using msgb_trim_headroom [OF demo_msg_ok(1), of 6] by (auto simp: demo_msg_ok)



text \<open>Allocation and copies. A buffer allocated with headroom is consistent and empty, a reset makes any
  buffer empty with no headroom, and a copy into a buffer of \<open>sz\<close> octets keeps the message, its
  position and the layer pointers and is consistent, unless the message does not fit, in which case
  there is no copy.\<close>

theorem msgb_copy_spec:
  assumes "msgb_ok m" and "sz < 65536"
  shows "(hr \<le> sz \<longrightarrow> (\<exists>e. msgb_alloc_headroom_c True sz hr = Ok (Some e) \<and> msgb_ok e \<and> contents e = [] \<and>
            msgb_headroom e = int hr \<and> msgb_tailroom e = int (sz - hr))) \<and>
         (sz < hr \<longrightarrow> msgb_alloc_headroom_c True sz hr = Panic) \<and>
         contents (msgb_reset m) = [] \<and> msgb_headroom (msgb_reset m) = 0 \<and>
         msgb_tailroom (msgb_reset m) = int (data_len m) \<and>
         (if nat (data m) + len m \<le> sz
          then \<exists>c. msgb_copy_resize_c True m sz = Ok (Some c) \<and> contents c = contents m \<and> data c = data m \<and> data_len c = sz \<and>
                 l1h c = l1h m \<and> l2h c = l2h m \<and> l3h c = l3h m \<and> l4h c = l4h m \<and>
                 (data_len m \<le> sz \<longrightarrow> msgb_ok c)
          else msgb_copy_resize_c True m sz = Ok None)"
proof (intro conjI impI, goal_cases)
  case 6
  note d = msgb_okD [OF assms(1)]
  show ?case
  proof (cases "nat (data m) + len m \<le> sz")
    case True
    let ?b = "take (nat (data m)) (replicate sz 0) @ contents m @ drop (nat (data m) + len m) (replicate sz 0)"
    let ?c = "\<lparr>l1h = l1h m, l2h = l2h m, l3h = l3h m, l4h = l4h m, dst = 0, lchan = 0, cb = replicate 5 0,
       data_len = sz, len = len m, head = head m, tail = tail m, data = data m, mem = ?b\<rparr>"
    have r: "msgb_copy_resize_c True m sz = Ok (Some ?c)"
      using True d by (simp add: msgb_copy_resize_c_def msgb_alloc_c_def msgb_length_def memcpy_def Let_def contents_def
          del: replicate.simps take_replicate drop_replicate)
    have c: "contents ?c = contents m"
      using True d length_contents [OF assms(1)] by (subst contents_def) (simp add: min_def)
    have k: "msgb_ok ?c" if "data_len m \<le> sz"
    proof -
      have "layers_ok 0 (int sz) [l1h m, l2h m, l3h m, l4h m]"
        by (rule layers_ok_grow [OF msgb_ok_layers [OF assms(1)]]) (use that in simp)
      then show ?thesis using d that assms(2) length_contents [OF assms(1)]
        by (simp add: msgb_ok_def test_invariant_iff min_def del: layers_ok.simps)
    qed
    show ?thesis unfolding if_P [OF True] by (intro exI [of _ ?c] conjI impI r c k) simp_all
  next
    case False
    then have "int sz < data m + int (len m)" using d(1) by linarith
    with False show ?thesis by (simp add: msgb_copy_resize_c_def msgb_length_def)
  qed
next
  case 1
  then show ?case
    by (auto simp: msgb_alloc_headroom_c_def msgb_alloc_c_def msgb_reserve_def msgb_ok_def test_invariant_iff
        contents_def msgb_headroom_def msgb_tailroom_def assms(2))
qed (simp_all add: msgb_alloc_headroom_c_def msgb_reset_def contents_def msgb_headroom_def msgb_tailroom_def)

theorem msgb_copy_spec_witness:
  "(\<exists>c. msgb_copy_resize_c True demo_msg 9 = Ok (Some c) \<and> contents c = [7, 9] \<and> msgb_ok c) \<and>
   msgb_copy_resize_c True demo_msg 4 = Ok None"
  using msgb_copy_spec [OF demo_msg_ok(1), of 9 0] msgb_copy_spec [OF demo_msg_ok(1), of 4 0]
  by (auto simp: demo_msg_ok)

text \<open>C7: Message queues. On the linked-list store, any run of \<open>msgb_enqueue\<close> and \<open>msgb_dequeue\<close> on a well-formed
  queue answers like the abstract first-in first-out queue and leaves a well-formed queue of the
  remaining messages; \<open>msgb_queue_free\<close> ends, having freed exactly the queued messages.\<close>

theorem msgb_queue_refines_fifo:
  assumes "ring h q xs" and "0 \<notin> set xs" and "ops_ok (\<lambda>m. m \<noteq> 0 \<and> m \<noteq> q) xs ops"
  shows "fst (fifo_run (msgb_enqueue q) (msgb_dequeue q) h ops) = fst (fifo_spec xs ops) \<and>
         ring (snd (fifo_run (msgb_enqueue q) (msgb_dequeue q) h ops)) q (snd (fifo_spec xs ops)) \<and>
         (\<exists>h'. msgb_queue_free q h [] = Some (h', xs) \<and> ring h' q [])"
  using mq.refines [of h q xs ops] queue_free_ring [of h q xs "[]"] assms by simp

theorem msgb_queue_refines_fifo_witness:
  "fst (fifo_run (msgb_enqueue 1) (msgb_dequeue 1) (INIT_LLIST_HEAD 1 \<lparr>nxt = \<lambda>_. 0, prv = \<lambda>_. 0\<rparr>) [Enq 5, Enq 6, Deq, Enq 5, Deq, Deq, Deq]) =
   [Some 5, Some 6, Some 5, None]"
  using msgb_queue_refines_fifo [of "INIT_LLIST_HEAD 1 \<lparr>nxt = \<lambda>_. 0, prv = \<lambda>_. 0\<rparr>" 1 "[]" "[Enq 5, Enq 6, Deq, Enq 5, Deq, Deq, Deq]"]
  by (simp add: ring_init)

end
