(* ===== verification/Write_Queue.thy ===== *)
theory Write_Queue
  imports Msgb
begin

text \<open>
  Write queues: \<open>src/core/write_queue.c\<close>.

  The state of a \<open>struct osmo_wqueue\<close> is its event mask \<open>when\<close>, its limits and the address of its
  list head, together with the list store and the sequence of messages handed to \<open>msgb_free\<close>. The
  callbacks are arguments: functions that take and return this state, since they may enqueue; of
  their return value the code distinguishes \<open>-EBADF\<close>, \<open>-EAGAIN\<close> and everything else.

  Shown: the length counter always equals the length of the list, messages leave in the order
  they were accepted, a message whose write returned \<open>-EAGAIN\<close> stays at the head, and the write event
  stays requested exactly while messages are waiting.
\<close>

datatype cb_rc = Rc_EBADF | Rc_EAGAIN | Rc_other

record osmo_wqueue =
  "when" :: u32
  max_length :: nat
  current_length :: nat
  msg_queue :: addr
  heap :: llist_mem
  freed :: "addr list"

abbreviation OSMO_FD_READ :: u32 where "OSMO_FD_READ \<equiv> 1"
abbreviation OSMO_FD_WRITE :: u32 where "OSMO_FD_WRITE \<equiv> 2"
abbreviation OSMO_FD_EXCEPT :: u32 where "OSMO_FD_EXCEPT \<equiv> 4"

subsection \<open>Operations\<close>

definition osmo_wqueue_init :: "int \<Rightarrow> osmo_wqueue \<Rightarrow> osmo_wqueue" where
  "osmo_wqueue_init maxlen w = w\<lparr>max_length := u32_of maxlen, current_length := 0, heap := INIT_LLIST_HEAD (msg_queue w) (heap w)\<rparr>"

definition osmo_wqueue_enqueue_quiet :: "addr \<Rightarrow> osmo_wqueue \<Rightarrow> osmo_wqueue \<times> errno option" where
  "osmo_wqueue_enqueue_quiet msg w =
     (if current_length w \<ge> max_length w then (w, Some ENOSPC)
      else let (h, n) = msgb_enqueue_count (msg_queue w) msg (current_length w) (heap w)
           in (w\<lparr>heap := h, current_length := n, when := when w OR OSMO_FD_WRITE\<rparr>, None))"

definition osmo_wqueue_enqueue :: "addr \<Rightarrow> osmo_wqueue \<Rightarrow> osmo_wqueue \<times> errno option" where
  "osmo_wqueue_enqueue msg w =
     (if current_length w \<ge> max_length w then (w, Some ENOSPC) else osmo_wqueue_enqueue_quiet msg w)"

definition free_msg :: "addr option \<Rightarrow> osmo_wqueue \<Rightarrow> osmo_wqueue" where
  "free_msg m w = (case m of None \<Rightarrow> w | Some a \<Rightarrow> w\<lparr>freed := freed w @ [a]\<rparr>)"

definition wqueue_dequeue :: "osmo_wqueue \<Rightarrow> osmo_wqueue \<times> addr option" where
  "wqueue_dequeue w =
     (let (h, msg, n) = msgb_dequeue_count (msg_queue w) (current_length w) (heap w)
      in (w\<lparr>heap := h, current_length := n\<rparr>, msg))"

partial_function (option) clear_loop :: "osmo_wqueue \<Rightarrow> osmo_wqueue option" where
  "clear_loop w =
     (if llist_empty (msg_queue w) (heap w) then Some w
      else let (h, msg) = msgb_dequeue (msg_queue w) (heap w) in clear_loop (free_msg msg (w\<lparr>heap := h\<rparr>)))"

definition osmo_wqueue_clear :: "osmo_wqueue \<Rightarrow> osmo_wqueue option" where
  "osmo_wqueue_clear w =
     do { w \<leftarrow> clear_loop w; Some (w\<lparr>current_length := 0, when := when w AND NOT OSMO_FD_WRITE\<rparr>) }"

partial_function (option) maxlen_loop :: "nat \<Rightarrow> osmo_wqueue \<Rightarrow> (osmo_wqueue \<times> nat) option" where
  "maxlen_loop dropped w =
     (if current_length w > max_length w
      then let (w, msg) = wqueue_dequeue w in maxlen_loop (dropped + 1) (free_msg msg w)
      else Some (w, dropped))"

definition osmo_wqueue_set_maxlen :: "nat \<Rightarrow> osmo_wqueue \<Rightarrow> (osmo_wqueue \<times> nat) option" where
  "osmo_wqueue_set_maxlen n w = maxlen_loop 0 (w\<lparr>max_length := n\<rparr>)"

text \<open>The write branch of the select callback.\<close>

definition bfd_write :: "(addr \<Rightarrow> osmo_wqueue \<Rightarrow> osmo_wqueue \<times> cb_rc) \<Rightarrow> osmo_wqueue \<Rightarrow> osmo_wqueue" where
  "bfd_write write_cb w =
     (let w = w\<lparr>when := when w AND NOT OSMO_FD_WRITE\<rparr>;
          (w, msg) = wqueue_dequeue w
      in case msg of None \<Rightarrow> w
         | Some m \<Rightarrow>
             (case write_cb m w of
                (w, Rc_EBADF) \<Rightarrow> free_msg (Some m) w
              | (w, Rc_EAGAIN) \<Rightarrow>
                  let w = w\<lparr>heap := llist_add m (msg_queue w) (heap w), current_length := wrap32 (current_length w + 1)\<rparr>
                  in if \<not> llist_empty (msg_queue w) (heap w) then w\<lparr>when := when w OR OSMO_FD_WRITE\<rparr> else w
              | (w, Rc_other) \<Rightarrow>
                  let w = free_msg (Some m) w
                  in if \<not> llist_empty (msg_queue w) (heap w) then w\<lparr>when := when w OR OSMO_FD_WRITE\<rparr> else w))"

definition osmo_wqueue_bfd_cb ::
  "(osmo_wqueue \<Rightarrow> osmo_wqueue \<times> cb_rc) \<Rightarrow> (osmo_wqueue \<Rightarrow> osmo_wqueue \<times> cb_rc) \<Rightarrow>
   (addr \<Rightarrow> osmo_wqueue \<Rightarrow> osmo_wqueue \<times> cb_rc) \<Rightarrow> u32 \<Rightarrow> osmo_wqueue \<Rightarrow> osmo_wqueue" where
  "osmo_wqueue_bfd_cb read_cb except_cb write_cb what w =
     (case (if what AND OSMO_FD_READ \<noteq> 0 then read_cb w else (w, Rc_other)) of
        (w, Rc_EBADF) \<Rightarrow> w
      | (w, _) \<Rightarrow>
          (case (if what AND OSMO_FD_EXCEPT \<noteq> 0 then except_cb w else (w, Rc_other)) of
             (w, Rc_EBADF) \<Rightarrow> w
           | (w, _) \<Rightarrow> if what AND OSMO_FD_WRITE \<noteq> 0 then bfd_write write_cb w else w))"

section \<open>Properties\<close>

text \<open>The queue \<open>w\<close> holds the messages \<open>xs\<close>, oldest first.\<close>

definition holds :: "osmo_wqueue \<Rightarrow> addr list \<Rightarrow> bool" where
  "holds w xs \<longleftrightarrow> ring (heap w) (msg_queue w) xs \<and> 0 \<notin> set xs \<and> current_length w = length xs \<and>
     length xs < UINT_MAX1 \<and> max_length w < UINT_MAX1"

definition write_wanted :: "osmo_wqueue \<Rightarrow> bool" where
  "write_wanted w \<longleftrightarrow> when w AND OSMO_FD_WRITE \<noteq> 0"

lemma fd_write_bit [simp]:
  "(w OR OSMO_FD_WRITE) AND OSMO_FD_WRITE \<noteq> 0" "(w AND - 3) AND OSMO_FD_WRITE = 0"
proof -
  have "(w OR OSMO_FD_WRITE) AND OSMO_FD_WRITE = OSMO_FD_WRITE" by (rule bit_word_eqI) (auto simp: bit_simps)
  then show "(w OR OSMO_FD_WRITE) AND OSMO_FD_WRITE \<noteq> 0" by simp
  have "(w AND NOT OSMO_FD_WRITE) AND OSMO_FD_WRITE = 0" by (rule bit_word_eqI) (auto simp: bit_simps)
  then show "(w AND - 3) AND OSMO_FD_WRITE = 0" by simp
qed

lemma dequeue_holds:
  assumes "holds w (x # xs)"
  shows "wqueue_dequeue w = (w\<lparr>heap := llist_del x (heap w), current_length := length xs\<rparr>, Some x)"
    "holds (w\<lparr>heap := llist_del x (heap w), current_length := length xs\<rparr>) xs"
  using assms ring_del [of "heap w" "msg_queue w" "[]" x xs]
  by (auto simp: holds_def wqueue_dequeue_def msgb_dequeue_count_def dequeue_ring sub32_ge)

lemma dequeue_empty: "holds w [] \<Longrightarrow> wqueue_dequeue w = (w, None)"
  by (auto simp: holds_def wqueue_dequeue_def msgb_dequeue_count_def dequeue_ring)

lemma holds_empty_iff: "holds w xs \<Longrightarrow> llist_empty (msg_queue w) (heap w) \<longleftrightarrow> xs = []"
  by (auto simp: holds_def ring_empty_iff)

lemma holds_cong:
  "holds w xs \<Longrightarrow> heap w' = heap w \<Longrightarrow> msg_queue w' = msg_queue w \<Longrightarrow> current_length w' = current_length w \<Longrightarrow>
   max_length w' = max_length w \<Longrightarrow> holds w' xs"
  by (simp add: holds_def)

lemma holds_when [simp]: "holds (w\<lparr>when := v\<rparr>) xs \<longleftrightarrow> holds w xs" "holds (w\<lparr>freed := fs\<rparr>) xs \<longleftrightarrow> holds w xs"
  by (auto simp: holds_def)

lemma enqueue_holds:
  assumes "holds w xs" and "length xs < max_length w" and "m \<notin> set (0 # msg_queue w # xs)"
  shows "\<exists>w'. osmo_wqueue_enqueue m w = (w', None) \<and> holds w' (xs @ [m]) \<and> write_wanted w' \<and>
    freed w' = freed w \<and> max_length w' = max_length w \<and> msg_queue w' = msg_queue w"
  using assms ring_add_tail [of "heap w" "msg_queue w" xs m]
  by (auto simp: holds_def osmo_wqueue_enqueue_def osmo_wqueue_enqueue_quiet_def msgb_enqueue_count_def
      msgb_enqueue_def write_wanted_def Let_def)

lemma requeue_holds:
  assumes "holds w xs" and "m \<notin> set (0 # msg_queue w # xs)" and "Suc (length xs) < UINT_MAX1"
  shows "holds (w\<lparr>heap := llist_add m (msg_queue w) (heap w), current_length := wrap32 (current_length w + 1)\<rparr>) (m # xs)"
  using assms ring_add [of "heap w" "msg_queue w" xs m] by (auto simp: holds_def)

lemma clear_holds:
  assumes "holds w xs"
  shows "\<exists>w'. clear_loop w = Some w' \<and> ring (heap w') (msg_queue w') [] \<and> freed w' = freed w @ xs \<and>
    when w' = when w \<and> max_length w' = max_length w \<and> msg_queue w' = msg_queue w"
proof -
  have "\<exists>w'. clear_loop w = Some w' \<and> ring (heap w') (msg_queue w') [] \<and> freed w' = freed w @ xs \<and>
    when w' = when w \<and> max_length w' = max_length w \<and> msg_queue w' = msg_queue w"
    if "ring (heap w) (msg_queue w) xs" "0 \<notin> set xs" for w
    using that
  proof (induction xs arbitrary: w)
    case Nil
    then show ?case by (subst clear_loop.simps) (auto simp: ring_empty_iff)
  next
    case (Cons x xs)
    let ?w = "w\<lparr>heap := llist_del x (heap w), freed := freed w @ [x]\<rparr>"
    have "ring (heap ?w) (msg_queue ?w) xs" using ring_del [of "heap w" "msg_queue w" "[]" x xs] Cons.prems by simp
    with Cons.IH [of ?w] Cons.prems show ?case
      by (subst clear_loop.simps) (auto simp: ring_empty_iff dequeue_ring free_msg_def)
  qed
  from this [of w] assms show ?thesis by (simp add: holds_def)
qed

lemma maxlen_holds:
  "holds w xs \<Longrightarrow> \<exists>w'. maxlen_loop d w = Some (w', d + (length xs - max_length w)) \<and>
     holds w' (drop (length xs - max_length w) xs) \<and> freed w' = freed w @ take (length xs - max_length w) xs \<and>
     max_length w' = max_length w"
proof (induction xs arbitrary: w d)
  case Nil
  then show ?case by (subst maxlen_loop.simps) (auto simp: holds_def)
next
  case (Cons x xs)
  let ?w = "w\<lparr>heap := llist_del x (heap w), current_length := length xs, freed := freed w @ [x]\<rparr>"
  have h: "holds ?w xs" using dequeue_holds(2) [OF Cons.prems] by simp
  show ?case
  proof (cases "length (x # xs) > max_length w")
    case True
    then have s: "length (x # xs) - max_length w = Suc (length xs - max_length w)" by simp
    from True Cons.prems have "maxlen_loop d w = maxlen_loop (d + 1) ?w"
      by (subst maxlen_loop.simps) (auto simp: dequeue_holds(1) free_msg_def holds_def)
    with Cons.IH [OF h, of "d + 1"] show ?thesis unfolding s by auto
  next
    case False
    with Cons.prems show ?thesis by (subst maxlen_loop.simps) (auto simp: holds_def)
  qed
qed

section \<open>Claims\<close>

text \<open>C22: Accepting, clearing and shrinking. A write queue that holds \<open>xs\<close> accepts a message behind them
  exactly when it is shorter than its limit and then asks for the write event, and otherwise answers
  ENOSPC and is unchanged. Clearing frees all messages and withdraws the write request; setting a
  limit ends, drops (and counts) the oldest messages beyond it, and keeps the newest ones in order.
  The length counter equals the number of held messages throughout.\<close>

theorem wqueue_operations:
  assumes "holds w xs" and "m \<notin> set (0 # msg_queue w # xs)" and "n < UINT_MAX1"
  shows "(length xs < max_length w \<longrightarrow>
            (\<exists>w'. osmo_wqueue_enqueue m w = (w', None) \<and> holds w' (xs @ [m]) \<and> write_wanted w' \<and> freed w' = freed w)) \<and>
         (max_length w \<le> length xs \<longrightarrow> osmo_wqueue_enqueue m w = (w, Some ENOSPC)) \<and>
         (\<exists>w'. osmo_wqueue_clear w = Some w' \<and> holds w' [] \<and> \<not> write_wanted w' \<and> freed w' = freed w @ xs) \<and>
         (\<exists>w'. osmo_wqueue_set_maxlen n w = Some (w', length xs - n) \<and> max_length w' = n \<and>
               holds w' (drop (length xs - n) xs) \<and> freed w' = freed w @ take (length xs - n) xs)"
proof (intro conjI impI)
  show "\<exists>w'. osmo_wqueue_enqueue m w = (w', None) \<and> holds w' (xs @ [m]) \<and> write_wanted w' \<and> freed w' = freed w"
    if "length xs < max_length w"
    using enqueue_holds [OF assms(1) that assms(2)] by blast
  show "osmo_wqueue_enqueue m w = (w, Some ENOSPC)" if "max_length w \<le> length xs"
    using that assms(1) by (simp add: osmo_wqueue_enqueue_def holds_def)
  show "\<exists>w'. osmo_wqueue_clear w = Some w' \<and> holds w' [] \<and> \<not> write_wanted w' \<and> freed w' = freed w @ xs"
    using clear_holds [OF assms(1)] assms(1) by (auto simp: osmo_wqueue_clear_def holds_def write_wanted_def)
  have "holds (w\<lparr>max_length := n\<rparr>) xs" using assms by (simp add: holds_def)
  from maxlen_holds [OF this, of 0]
  show "\<exists>w'. osmo_wqueue_set_maxlen n w = Some (w', length xs - n) \<and> max_length w' = n \<and>
      holds w' (drop (length xs - n) xs) \<and> freed w' = freed w @ take (length xs - n) xs"
    by (auto simp: osmo_wqueue_set_maxlen_def)
qed

definition demo_queue :: osmo_wqueue where
  "demo_queue = fst (osmo_wqueue_enqueue 6 (fst (osmo_wqueue_enqueue 5 (osmo_wqueue_init 2
     \<lparr>when = 0, max_length = 0, current_length = 0, msg_queue = 1, heap = \<lparr>nxt = \<lambda>_. 0, prv = \<lambda>_. 0\<rparr>, freed = []\<rparr>))))"

lemma demo_queue_holds: "holds demo_queue [5, 6]" "max_length demo_queue = 2" "freed demo_queue = []" "msg_queue demo_queue = 1"
proof -
  let ?w = "osmo_wqueue_init 2 \<lparr>when = 0, max_length = 0, current_length = 0, msg_queue = 1, heap = \<lparr>nxt = \<lambda>_. 0, prv = \<lambda>_. 0\<rparr>, freed = []\<rparr>"
  have w: "holds ?w []" "max_length ?w = 2" "msg_queue ?w = 1" "freed ?w = []"
    by (simp_all add: holds_def osmo_wqueue_init_def ring_init u32_of_def)
  then obtain w1 where w1: "osmo_wqueue_enqueue 5 ?w = (w1, None)" "holds w1 [5]" "freed w1 = []" "max_length w1 = 2" "msg_queue w1 = 1"
    using enqueue_holds [of ?w "[]" 5] by auto
  then obtain w2 where "osmo_wqueue_enqueue 6 w1 = (w2, None)" "holds w2 [5, 6]" "freed w2 = []" "max_length w2 = 2" "msg_queue w2 = 1"
    using enqueue_holds [of w1 "[5]" 6] by auto
  with w1(1) show "holds demo_queue [5, 6]" "max_length demo_queue = 2" "freed demo_queue = []" "msg_queue demo_queue = 1"
    by (simp_all add: demo_queue_def)
qed

theorem wqueue_operations_witness:
  "osmo_wqueue_enqueue 7 demo_queue = (demo_queue, Some ENOSPC) \<and>
   (\<exists>w'. osmo_wqueue_set_maxlen 1 demo_queue = Some (w', 1) \<and> holds w' [6] \<and> freed w' = [5])"
  using wqueue_operations [OF demo_queue_holds(1), of 7 1] by (auto simp: demo_queue_holds)

text \<open>The select callback. When a write event is handled, the oldest message \<open>x\<close> is given to the write
  callback, which may itself change the queue to hold \<open>ys\<close>. Afterwards \<open>x\<close> has been freed, or, when
  the callback answered -EAGAIN, is the oldest message again and not freed; unless the
  descriptor went away, the write event is requested exactly when messages are waiting.\<close>

theorem wqueue_write_event:
  assumes "holds w (x # xs)" and "write_cb x (w\<lparr>when := when w AND NOT OSMO_FD_WRITE, heap := llist_del x (heap w), current_length := length xs\<rparr>) = (w1, rc)"
    and "holds w1 ys" and "\<not> write_wanted w1 \<or> ys \<noteq> []" and "x \<notin> set (msg_queue w1 # ys)" and "Suc (length ys) < UINT_MAX1"
  shows "let w' = osmo_wqueue_bfd_cb read_cb except_cb write_cb OSMO_FD_WRITE w in
     (rc = Rc_EAGAIN \<longrightarrow> holds w' (x # ys) \<and> freed w' = freed w1 \<and> write_wanted w') \<and>
     (rc \<noteq> Rc_EAGAIN \<longrightarrow> holds w' ys \<and> freed w' = freed w1 @ [x]) \<and>
     (rc = Rc_other \<longrightarrow> (write_wanted w' \<longleftrightarrow> ys \<noteq> []))"
proof -
  let ?w0 = "w\<lparr>when := when w AND NOT OSMO_FD_WRITE\<rparr>"
  have h: "holds ?w0 (x # xs)" using assms(1) by simp
  have x: "x \<noteq> 0" using assms(1) by (auto simp: holds_def)
  have d: "wqueue_dequeue ?w0 = (w\<lparr>when := when w AND NOT OSMO_FD_WRITE, heap := llist_del x (heap w), current_length := length xs\<rparr>, Some x)"
    using dequeue_holds(1) [OF h] by simp
  have masks: "OSMO_FD_WRITE AND OSMO_FD_READ = 0" "OSMO_FD_WRITE AND OSMO_FD_EXCEPT = 0" by simp_all
  have run: "osmo_wqueue_bfd_cb read_cb except_cb write_cb OSMO_FD_WRITE w = bfd_write write_cb w"
    by (simp add: osmo_wqueue_bfd_cb_def masks)
  let ?wa = "w1\<lparr>heap := llist_add x (msg_queue w1) (heap w1), current_length := wrap32 (current_length w1 + 1)\<rparr>"
  have ha: "holds ?wa (x # ys)" using assms(3,5,6) x by (intro requeue_holds) auto
  show ?thesis
  proof (cases rc)
    case Rc_EBADF
    then show ?thesis unfolding run using d assms(2,3) by (simp add: bfd_write_def free_msg_def)
  next
    case Rc_EAGAIN
    then show ?thesis unfolding run
      using d assms(2) ha holds_empty_iff [OF ha] by (simp add: bfd_write_def Let_def write_wanted_def)
  next
    case Rc_other
    then show ?thesis unfolding run
      using d assms(2,3,4) holds_empty_iff [OF assms(3)] by (auto simp: bfd_write_def Let_def write_wanted_def free_msg_def)
  qed
qed

theorem wqueue_write_event_witness:
  "let w' = osmo_wqueue_bfd_cb (\<lambda>w. (w, Rc_other)) (\<lambda>w. (w, Rc_other)) (\<lambda>m w. (w, Rc_EAGAIN)) OSMO_FD_WRITE demo_queue
   in holds w' [5, 6] \<and> freed w' = [] \<and> write_wanted w'"
proof -
  let ?w1 = "demo_queue\<lparr>when := when demo_queue AND NOT OSMO_FD_WRITE, heap := llist_del 5 (heap demo_queue), current_length := length [6 :: addr]\<rparr>"
  have "holds ?w1 [6]" using dequeue_holds(2) [of "demo_queue\<lparr>when := when demo_queue AND NOT OSMO_FD_WRITE\<rparr>" 5 "[6]"] demo_queue_holds(1) by simp
  then show ?thesis
    using wqueue_write_event [OF demo_queue_holds(1), of "\<lambda>m w. (w, Rc_EAGAIN)" ?w1 Rc_EAGAIN "[6]" "\<lambda>w. (w, Rc_other)" "\<lambda>w. (w, Rc_other)"]
    by (simp add: demo_queue_holds Let_def)
qed

text \<open>C10: Draining. While writes succeed, one write event per waiting message empties the queue: the
  messages are written and freed in the order they were queued, and after the last one the write
  event is no longer requested.\<close>

theorem wqueue_drains_in_order:
  assumes "holds w xs" and "\<And>m w. write_cb m w = (w, Rc_other)"
  shows "let w' = (osmo_wqueue_bfd_cb read_cb except_cb write_cb OSMO_FD_WRITE ^^ length xs) w in
     holds w' [] \<and> freed w' = freed w @ xs \<and> (xs \<noteq> [] \<longrightarrow> \<not> write_wanted w')"
proof -
  let ?step = "osmo_wqueue_bfd_cb read_cb except_cb write_cb OSMO_FD_WRITE"
  have step: "holds (?step w) ys \<and> freed (?step w) = freed w @ [x] \<and> (write_wanted (?step w) \<longleftrightarrow> ys \<noteq> [])"
    if "holds w (x # ys)" for w x ys
  proof -
    have h: "holds (w\<lparr>when := when w AND NOT OSMO_FD_WRITE\<rparr>) (x # ys)" using that by simp
    have masks: "OSMO_FD_WRITE AND OSMO_FD_READ = 0" "OSMO_FD_WRITE AND OSMO_FD_EXCEPT = 0" by simp_all
    show ?thesis
      using dequeue_holds [OF h] dequeue_holds(2) [OF that] holds_empty_iff [OF dequeue_holds(2) [OF h]]
      by (auto simp: osmo_wqueue_bfd_cb_def bfd_write_def masks assms(2) free_msg_def Let_def write_wanted_def)
  qed
  have "holds ((?step ^^ length xs) w) [] \<and> freed ((?step ^^ length xs) w) = freed w @ xs \<and>
      (xs \<noteq> [] \<longrightarrow> \<not> write_wanted ((?step ^^ length xs) w))"
    using assms(1)
  proof (induction xs arbitrary: w)
    case (Cons x xs)
    have e: "(?step ^^ length (x # xs)) w = (?step ^^ length xs) (?step w)"
      by (simp add: funpow_swap1)
    from step [OF Cons.prems] Cons.IH [of "?step w"] show ?case unfolding e by (cases xs) auto
  qed simp
  then show ?thesis by (simp add: Let_def)
qed

theorem wqueue_drains_in_order_witness:
  "let w' = (osmo_wqueue_bfd_cb (\<lambda>w. (w, Rc_other)) (\<lambda>w. (w, Rc_other)) (\<lambda>m w. (w, Rc_other)) OSMO_FD_WRITE ^^ 2) demo_queue in
   holds w' [] \<and> freed w' = [5, 6] \<and> \<not> write_wanted w'"
  using wqueue_drains_in_order [OF demo_queue_holds(1), of "\<lambda>m w. (w, Rc_other)" "\<lambda>w. (w, Rc_other)" "\<lambda>w. (w, Rc_other)"]
  by (simp add: demo_queue_holds Let_def numeral_2_eq_2)

end
