(* ===== verification/Tlv.thy ===== *)
theory Tlv
  imports Msgb
begin

text \<open>
  Tag-length-value information elements: \<open>src/gsm/tlv_parser.c\<close> and the inline encoders of
  \<open>include/osmocom/gsm/tlv.h\<close>.

  An array of 256 entries indexed by the tag is a function on \<open>u8\<close>. A value pointer of a parsed
  element is its offset in the parsed buffer (\<open>None\<close> for \<open>NULL\<close>). The encoders work on a buffer
  and an offset and return the buffer and the returned pointer; the memory behind a value pointer
  given to them is a list of octets. Lengths are natural numbers, reduced modulo 256 or 65536 where
  the code stores them in an \<open>uint8_t\<close> or \<open>uint16_t\<close>.

  Shown: the parser ends, and everything it reports lies inside the buffer; it stays inside the buffer but for exactly two cases,
  in which an initial LV element is expected where nothing is left; what the encoder writes, the parser finds again; what exactly the
  shift functions accept and consume; validation; and two defects of the copying functions.
\<close>

subsection \<open>Types\<close>

datatype tlv_type = TLV_TYPE_NONE | TLV_TYPE_FIXED | TLV_TYPE_T | TLV_TYPE_TV | TLV_TYPE_TLV | TLV_TYPE_TL16V
  | TLV_TYPE_TvLV | TLV_TYPE_SINGLE_TV | TLV_TYPE_vTvLV_GAN

datatype osmo_tlv_parser_error = OSMO_TLVP_ERR_OFS_BEYOND_BUFFER | OSMO_TLVP_ERR_OFS_LEN_BEYOND_BUFFER
  | OSMO_TLVP_ERR_UNKNOWN_TLV_TYPE | OSMO_TLVP_ERR_MAND_IE_MISSING | OSMO_TLVP_ERR_IE_TOO_SHORT

record tlv_def =
  type :: tlv_type
  fixed_len :: nat

type_synonym tlv_definition = "u8 \<Rightarrow> tlv_def"

record tlv_p_entry =
  elen :: nat
  eval :: "nat option"

type_synonym tlv_parsed = "u8 \<Rightarrow> tlv_p_entry"

definition empty_entry :: tlv_p_entry where
  "empty_entry = \<lparr>elen = 0, eval = None\<rparr>"

definition TLVP_PRESENT :: "tlv_parsed \<Rightarrow> u8 \<Rightarrow> bool" where
  "TLVP_PRESENT tp t \<longleftrightarrow> eval (tp t) \<noteq> None"

subsection \<open>Gross lengths\<close>

definition TVLV_MAX_ONEBYTE :: nat where "TVLV_MAX_ONEBYTE = 0x7f"

definition LV_GROSS_LEN :: "nat \<Rightarrow> nat" where "LV_GROSS_LEN x = x + 1"
definition TLV_GROSS_LEN :: "nat \<Rightarrow> nat" where "TLV_GROSS_LEN x = x + 2"
definition TL16V_GROSS_LEN :: "nat \<Rightarrow> nat" where "TL16V_GROSS_LEN x = x + 3"
definition L16TV_GROSS_LEN :: "nat \<Rightarrow> nat" where "L16TV_GROSS_LEN x = x + 3"
definition T16LV_GROSS_LEN :: "nat \<Rightarrow> nat" where "T16LV_GROSS_LEN x = x + 3"

definition TVLV_GROSS_LEN :: "nat \<Rightarrow> nat" where
  "TVLV_GROSS_LEN n = (if n \<le> TVLV_MAX_ONEBYTE then TLV_GROSS_LEN n else TL16V_GROSS_LEN n) mod 65536"

definition VTVL_GAN_GROSS_LEN :: "nat \<Rightarrow> nat \<Rightarrow> nat" where
  "VTVL_GAN_GROSS_LEN tag n = 2 + (if tag > TVLV_MAX_ONEBYTE then 1 else 0) + (if n > TVLV_MAX_ONEBYTE then 1 else 0)"

definition VTVLV_GAN_GROSS_LEN :: "nat \<Rightarrow> nat \<Rightarrow> nat" where
  "VTVLV_GAN_GROSS_LEN tag n =
     (let ret = (if n \<le> TVLV_MAX_ONEBYTE then TLV_GROSS_LEN n else TL16V_GROSS_LEN n) mod 65536
      in if tag > TVLV_MAX_ONEBYTE then (ret + 1) mod 65536 else ret)"

subsection \<open>Encoders on a buffer\<close>

definition lv_put :: "u8 list \<Rightarrow> nat \<Rightarrow> nat \<Rightarrow> u8 list \<Rightarrow> (u8 list \<times> nat) res" where
  "lv_put buf p n val = do {
     buf \<leftarrow> wr buf p (word_of_nat n);
     buf \<leftarrow> memcpy buf (p + 1) val 0 n;
     Some (buf, p + 1 + n) }"

definition tl_put :: "u8 list \<Rightarrow> nat \<Rightarrow> u8 \<Rightarrow> nat \<Rightarrow> (u8 list \<times> nat) res" where
  "tl_put buf p tag n = do {
     buf \<leftarrow> wr buf p tag;
     buf \<leftarrow> wr buf (p + 1) (word_of_nat n);
     Some (buf, p + 2) }"

text \<open>A \<open>NULL\<close> value makes \<open>tlv_put\<close> append zeros.\<close>

definition tlv_put :: "u8 list \<Rightarrow> nat \<Rightarrow> u8 \<Rightarrow> nat \<Rightarrow> u8 list option \<Rightarrow> (u8 list \<times> nat) res" where
  "tlv_put buf p tag n val = do {
     buf \<leftarrow> wr buf p tag;
     buf \<leftarrow> wr buf (p + 1) (word_of_nat n);
     buf \<leftarrow> (if n \<noteq> 0 then (case val of Some v \<Rightarrow> memcpy buf (p + 2) v 0 n
                              | None \<Rightarrow> memcpy buf (p + 2) (replicate n 0) 0 n) else Some buf);
     Some (buf, p + 2 + n) }"

definition tl16_put :: "u8 list \<Rightarrow> nat \<Rightarrow> u8 \<Rightarrow> nat \<Rightarrow> (u8 list \<times> nat) res" where
  "tl16_put buf p tag n = do {
     buf \<leftarrow> wr buf p tag;
     buf \<leftarrow> wr buf (p + 1) (word_of_nat (n div 256));
     buf \<leftarrow> wr buf (p + 2) (word_of_nat (n mod 256));
     Some (buf, p + 3) }"

definition tl16v_put :: "u8 list \<Rightarrow> nat \<Rightarrow> u8 \<Rightarrow> nat \<Rightarrow> u8 list \<Rightarrow> (u8 list \<times> nat) res" where
  "tl16v_put buf p tag n val = do {
     buf \<leftarrow> wr buf p tag;
     buf \<leftarrow> wr buf (p + 1) (word_of_nat (n div 256));
     buf \<leftarrow> wr buf (p + 2) (word_of_nat (n mod 256));
     buf \<leftarrow> memcpy buf (p + 3) val 0 n;
     Some (buf, p + 3 + n) }"

definition t16lv_put :: "u8 list \<Rightarrow> nat \<Rightarrow> nat \<Rightarrow> nat \<Rightarrow> u8 list \<Rightarrow> (u8 list \<times> nat) res" where
  "t16lv_put buf p tag n val = do {
     buf \<leftarrow> wr buf p (word_of_nat (tag div 256));
     buf \<leftarrow> wr buf (p + 1) (word_of_nat (tag mod 256));
     buf \<leftarrow> wr buf (p + 2) (word_of_nat n);
     buf \<leftarrow> memcpy buf (p + 3) val 0 n;
     Some (buf, p + 3 + n) }"

definition set_len_flag :: "u8 list \<Rightarrow> nat \<Rightarrow> u8 list res" where
  "set_len_flag buf p = do { l \<leftarrow> rd buf (p + 1); wr buf (p + 1) (l OR 0x80) }"

definition tvlv_put :: "u8 list \<Rightarrow> nat \<Rightarrow> u8 \<Rightarrow> nat \<Rightarrow> u8 list \<Rightarrow> (u8 list \<times> nat) res" where
  "tvlv_put buf p tag n val =
     (if n \<le> TVLV_MAX_ONEBYTE
      then do { (buf, ret) \<leftarrow> tlv_put buf p tag n (Some val); buf \<leftarrow> set_len_flag buf p; Some (buf, ret) }
      else tl16v_put buf p tag n val)"

definition tvl_put :: "u8 list \<Rightarrow> nat \<Rightarrow> u8 \<Rightarrow> nat \<Rightarrow> (u8 list \<times> nat) res" where
  "tvl_put buf p tag n =
     (if n \<le> TVLV_MAX_ONEBYTE
      then do { (buf, ret) \<leftarrow> tl_put buf p tag n; buf \<leftarrow> set_len_flag buf p; Some (buf, ret) }
      else tl16_put buf p tag n)"

definition vt_gan_put :: "u8 list \<Rightarrow> nat \<Rightarrow> nat \<Rightarrow> (u8 list \<times> nat) res" where
  "vt_gan_put buf p tag =
     (if tag > TVLV_MAX_ONEBYTE then do {
        buf \<leftarrow> wr buf p (0x80 OR word_of_nat (tag div 256));
        buf \<leftarrow> wr buf (p + 1) (word_of_nat (tag mod 256));
        Some (buf, p + 2) }
      else do { buf \<leftarrow> wr buf p (word_of_nat tag); Some (buf, p + 1) })"

definition vtvl_gan_put :: "u8 list \<Rightarrow> nat \<Rightarrow> nat \<Rightarrow> nat \<Rightarrow> (u8 list \<times> nat) res" where
  "vtvl_gan_put buf p tag n = do { (buf, ret) \<leftarrow> vt_gan_put buf p tag; vt_gan_put buf ret n }"

text \<open>The returned pointer is \<open>buf + len\<close>, without the header.\<close>

definition vtvlv_gan_put :: "u8 list \<Rightarrow> nat \<Rightarrow> nat \<Rightarrow> nat \<Rightarrow> u8 list \<Rightarrow> (u8 list \<times> nat) res" where
  "vtvlv_gan_put buf p tag n val = do {
     (buf, ret) \<leftarrow> vtvl_gan_put buf p tag n;
     buf \<leftarrow> memcpy buf ret val 0 n;
     Some (buf, p + n) }"

definition v_put :: "u8 list \<Rightarrow> nat \<Rightarrow> u8 \<Rightarrow> (u8 list \<times> nat) res" where
  "v_put buf p val = do { buf \<leftarrow> wr buf p val; Some (buf, p + 1) }"

definition tv_put :: "u8 list \<Rightarrow> nat \<Rightarrow> u8 \<Rightarrow> u8 \<Rightarrow> (u8 list \<times> nat) res" where
  "tv_put buf p tag val = do { buf \<leftarrow> wr buf p tag; buf \<leftarrow> wr buf (p + 1) val; Some (buf, p + 2) }"

definition tv_fixed_put :: "u8 list \<Rightarrow> nat \<Rightarrow> u8 \<Rightarrow> nat \<Rightarrow> u8 list \<Rightarrow> (u8 list \<times> nat) res" where
  "tv_fixed_put buf p tag n val = do {
     buf \<leftarrow> wr buf p tag;
     buf \<leftarrow> memcpy buf (p + 1) val 0 n;
     Some (buf, p + 1 + n) }"

definition tv16_put :: "u8 list \<Rightarrow> nat \<Rightarrow> u8 \<Rightarrow> u16 \<Rightarrow> (u8 list \<times> nat) res" where
  "tv16_put buf p tag val = do {
     buf \<leftarrow> wr buf p tag;
     buf \<leftarrow> wr buf (p + 1) (ucast (drop_bit 8 val));
     buf \<leftarrow> wr buf (p + 2) (ucast (val AND 0xff));
     Some (buf, p + 3) }"

subsection \<open>Encoders on a message buffer\<close>

definition put_field :: "msgb \<Rightarrow> nat \<Rightarrow> (u8 list \<Rightarrow> nat \<Rightarrow> (u8 list \<times> nat) res) \<Rightarrow> (msgb \<times> int) run" where
  "put_field m gross enc = and_then (msgb_put m gross) (\<lambda>(m, p).
     and_then (at_ptr m p enc) (\<lambda>(b, q). Ok (m\<lparr>mem := b\<rparr>, int q)))"

definition push_field :: "msgb \<Rightarrow> nat \<Rightarrow> (u8 list \<Rightarrow> nat \<Rightarrow> (u8 list \<times> nat) res) \<Rightarrow> (msgb \<times> int) run" where
  "push_field m gross enc = and_then (msgb_push m gross) (\<lambda>(m, p).
     and_then (at_ptr m p enc) (\<lambda>(b, q). Ok (m\<lparr>mem := b\<rparr>, p)))"

definition msgb_tl16v_put :: "msgb \<Rightarrow> u8 \<Rightarrow> nat \<Rightarrow> u8 list \<Rightarrow> (msgb \<times> int) run" where
  "msgb_tl16v_put m tag n val = put_field m (TL16V_GROSS_LEN n) (\<lambda>b p. tl16v_put b p tag n val)"

definition msgb_t16lv_put :: "msgb \<Rightarrow> nat \<Rightarrow> nat \<Rightarrow> u8 list \<Rightarrow> (msgb \<times> int) run" where
  "msgb_t16lv_put m tag n val = put_field m (T16LV_GROSS_LEN n) (\<lambda>b p. t16lv_put b p tag n val)"

definition msgb_tvl_put :: "msgb \<Rightarrow> u8 \<Rightarrow> nat \<Rightarrow> (msgb \<times> int) run" where
  "msgb_tvl_put m tag n = put_field m (TVLV_GROSS_LEN n) (\<lambda>b p. tvl_put b p tag n)"

definition msgb_tvlv_put :: "msgb \<Rightarrow> u8 \<Rightarrow> nat \<Rightarrow> u8 list \<Rightarrow> (msgb \<times> int) run" where
  "msgb_tvlv_put m tag n val = put_field m (TVLV_GROSS_LEN n) (\<lambda>b p. tvlv_put b p tag n val)"

text \<open>The value in network byte order.\<close>

definition msgb_tvlv_put_16be :: "msgb \<Rightarrow> u8 \<Rightarrow> u16 \<Rightarrow> (msgb \<times> int) run" where
  "msgb_tvlv_put_16be m tag val = msgb_tvlv_put m tag 2 (be_octets val)"

definition msgb_tvlv_put_32be :: "msgb \<Rightarrow> u8 \<Rightarrow> u32 \<Rightarrow> (msgb \<times> int) run" where
  "msgb_tvlv_put_32be m tag val = msgb_tvlv_put m tag 4 (be_octets val)"

definition msgb_vtvlv_gan_put :: "msgb \<Rightarrow> nat \<Rightarrow> nat \<Rightarrow> u8 list \<Rightarrow> (msgb \<times> int) run" where
  "msgb_vtvlv_gan_put m tag n val = put_field m (VTVLV_GAN_GROSS_LEN tag n) (\<lambda>b p. vtvlv_gan_put b p tag n val)"

definition msgb_l16tv_put :: "msgb \<Rightarrow> nat \<Rightarrow> u8 \<Rightarrow> u8 list \<Rightarrow> (msgb \<times> int) run" where
  "msgb_l16tv_put m n tag val = put_field m (L16TV_GROSS_LEN n) (\<lambda>b p. do {
     b \<leftarrow> wr b p (word_of_nat (n div 256));
     b \<leftarrow> wr b (p + 1) (word_of_nat (n mod 256));
     b \<leftarrow> wr b (p + 2) tag;
     b \<leftarrow> memcpy b (p + 3) val 0 n;
     Some (b, p + 3 + n) })"

definition msgb_lv_put :: "msgb \<Rightarrow> nat \<Rightarrow> u8 list \<Rightarrow> (msgb \<times> int) run" where
  "msgb_lv_put m n val = put_field m (LV_GROSS_LEN n) (\<lambda>b p. lv_put b p n val)"

definition msgb_tlv_put :: "msgb \<Rightarrow> u8 \<Rightarrow> nat \<Rightarrow> u8 list option \<Rightarrow> (msgb \<times> int) run" where
  "msgb_tlv_put m tag n val = put_field m (TLV_GROSS_LEN n) (\<lambda>b p. tlv_put b p tag n val)"

definition msgb_tv_put :: "msgb \<Rightarrow> u8 \<Rightarrow> u8 \<Rightarrow> (msgb \<times> int) run" where
  "msgb_tv_put m tag val = put_field m 2 (\<lambda>b p. tv_put b p tag val)"

definition msgb_tv_fixed_put :: "msgb \<Rightarrow> u8 \<Rightarrow> nat \<Rightarrow> u8 list \<Rightarrow> (msgb \<times> int) run" where
  "msgb_tv_fixed_put m tag n val = put_field m (1 + n) (\<lambda>b p. tv_fixed_put b p tag n val)"

definition msgb_v_put :: "msgb \<Rightarrow> u8 \<Rightarrow> (msgb \<times> int) run" where
  "msgb_v_put m val = put_field m 1 (\<lambda>b p. v_put b p val)"

definition msgb_tl_put :: "msgb \<Rightarrow> u8 \<Rightarrow> (msgb \<times> int) run" where
  "msgb_tl_put m tag = and_then (msgb_v_put m tag) (\<lambda>(m, l). and_then (msgb_v_put m 0) (\<lambda>(m, _). Ok (m, l)))"

definition msgb_tv16_put :: "msgb \<Rightarrow> u8 \<Rightarrow> u16 \<Rightarrow> (msgb \<times> int) run" where
  "msgb_tv16_put m tag val = put_field m 3 (\<lambda>b p. tv16_put b p tag val)"

definition msgb_tv32_put :: "msgb \<Rightarrow> u8 \<Rightarrow> u32 \<Rightarrow> (msgb \<times> int) run" where
  "msgb_tv32_put m tag val = and_then (put_field m (1 + 4) (\<lambda>b p. do {
     b \<leftarrow> wr b p tag;
     b \<leftarrow> osmo_storeXXbe val b (p + 1);
     Some (b, p + 1) })) (\<lambda>(m, _). Ok (m, tail m))"

definition msgb_tlv_push :: "msgb \<Rightarrow> u8 \<Rightarrow> nat \<Rightarrow> u8 list option \<Rightarrow> (msgb \<times> int) run" where
  "msgb_tlv_push m tag n val = push_field m (TLV_GROSS_LEN n) (\<lambda>b p. tlv_put b p tag n val)"

definition msgb_tv_push :: "msgb \<Rightarrow> u8 \<Rightarrow> u8 \<Rightarrow> (msgb \<times> int) run" where
  "msgb_tv_push m tag val = push_field m 2 (\<lambda>b p. tv_put b p tag val)"

definition msgb_tv16_push :: "msgb \<Rightarrow> u8 \<Rightarrow> u16 \<Rightarrow> (msgb \<times> int) run" where
  "msgb_tv16_push m tag val = push_field m 3 (\<lambda>b p. tv16_put b p tag val)"

definition msgb_tvlv_push :: "msgb \<Rightarrow> u8 \<Rightarrow> nat \<Rightarrow> u8 list \<Rightarrow> (msgb \<times> int) run" where
  "msgb_tvlv_push m tag n val = push_field m (TVLV_GROSS_LEN n) (\<lambda>b p. tvlv_put b p tag n val)"

text \<open>One element by type. The length is an \<open>unsigned int\<close>, cut to 8 or 16 bits by the encoder
  called; \<open>val[0]\<close> of an empty memory is a fault.\<close>

definition tlv_encode_one :: "msgb \<Rightarrow> tlv_type \<Rightarrow> u8 \<Rightarrow> nat \<Rightarrow> u8 list \<Rightarrow> msgb run" where
  "tlv_encode_one m ty tag n val =
     (case ty of
        TLV_TYPE_NONE \<Rightarrow> Ok m
      | TLV_TYPE_FIXED \<Rightarrow> and_then (msgb_tv_fixed_put m tag n val) (\<lambda>(m, _). Ok m)
      | TLV_TYPE_T \<Rightarrow> and_then (msgb_v_put m tag) (\<lambda>(m, _). Ok m)
      | TLV_TYPE_TV \<Rightarrow> and_then (mem_access (rd val 0)) (\<lambda>v. and_then (msgb_tv_put m tag v) (\<lambda>(m, _). Ok m))
      | TLV_TYPE_TLV \<Rightarrow> and_then (msgb_tlv_put m tag (n mod 256) (Some val)) (\<lambda>(m, _). Ok m)
      | TLV_TYPE_TL16V \<Rightarrow> and_then (msgb_tl16v_put m tag (n mod 65536) val) (\<lambda>(m, _). Ok m)
      | TLV_TYPE_TvLV \<Rightarrow> and_then (msgb_tvlv_put m tag (n mod 65536) val) (\<lambda>(m, _). Ok m)
      | TLV_TYPE_SINGLE_TV \<Rightarrow> and_then (mem_access (rd val 0)) (\<lambda>v.
          and_then (msgb_v_put m (push_bit 4 tag OR (v AND 0xf))) (\<lambda>(m, _). Ok m))
      | TLV_TYPE_vTvLV_GAN \<Rightarrow> and_then (msgb_vtvlv_gan_put m (unat tag) (n mod 65536) val) (\<lambda>(m, _). Ok m))"

text \<open>All present elements in the order of \<open>tags\<close>; the values are in the memory \<open>src\<close>. The
  result is the message buffer and the number of octets added.\<close>

fun encode_tags :: "msgb \<Rightarrow> tlv_definition \<Rightarrow> u8 list \<Rightarrow> tlv_parsed \<Rightarrow> u8 list \<Rightarrow> msgb run" where
  "encode_tags m def src tp [] = Ok m"
| "encode_tags m def src tp (tag # tags) =
     (case eval (tp tag) of
        None \<Rightarrow> encode_tags m def src tp tags
      | Some v \<Rightarrow> and_then (tlv_encode_one m (type (def tag)) tag (elen (tp tag)) (drop v src))
                    (\<lambda>m. encode_tags m def src tp tags))"

definition all_tags :: "u8 list" where
  "all_tags = map word_of_nat [0..<256]"

definition tlv_encode_ordered :: "msgb \<Rightarrow> tlv_definition \<Rightarrow> u8 list \<Rightarrow> tlv_parsed \<Rightarrow> u8 list \<Rightarrow> (msgb \<times> int) run" where
  "tlv_encode_ordered m def src tp tag_order =
     and_then (encode_tags m def src tp tag_order) (\<lambda>m'. Ok (m', msgb_tailroom m - msgb_tailroom m'))"

definition tlv_encode :: "msgb \<Rightarrow> tlv_definition \<Rightarrow> u8 list \<Rightarrow> tlv_parsed \<Rightarrow> (msgb \<times> int) run" where
  "tlv_encode m def src tp =
     and_then (encode_tags m def src tp all_tags) (\<lambda>m'. Ok (m', msgb_tailroom m - msgb_tailroom m'))"

subsection \<open>Parser\<close>

text \<open>Parse the element at offset \<open>p\<close> of \<open>buf\<close>, of which \<open>n\<close> octets from there may be used. The
  result is the number of octets consumed, the tag, the length and the offset of the value.\<close>

type_synonym parsed_ie = "nat \<times> u8 \<times> nat \<times> nat"

definition finish_one :: "int \<Rightarrow> u8 \<Rightarrow> nat \<Rightarrow> nat \<Rightarrow> nat \<Rightarrow> osmo_tlv_parser_error + parsed_ie" where
  "finish_one buf_len tag o_len o_val n =
     (if buf_len < int n then Inl OSMO_TLVP_ERR_OFS_LEN_BEYOND_BUFFER else Inr (n, tag, o_len, o_val))"

definition parse_tlv :: "u8 list \<Rightarrow> nat \<Rightarrow> int \<Rightarrow> u8 \<Rightarrow> (osmo_tlv_parser_error + parsed_ie) res" where
  "parse_tlv buf p buf_len tag =
     (if buf_len < 2 then Some (Inl OSMO_TLVP_ERR_OFS_BEYOND_BUFFER)
      else do { l \<leftarrow> rd buf (p + 1); Some (finish_one buf_len tag (unat l) (p + 2) (unat l + 2)) })"

definition parse_tl16v :: "u8 list \<Rightarrow> nat \<Rightarrow> int \<Rightarrow> u8 \<Rightarrow> (osmo_tlv_parser_error + parsed_ie) res" where
  "parse_tl16v buf p buf_len tag =
     (if buf_len < 3 then Some (Inl OSMO_TLVP_ERR_OFS_BEYOND_BUFFER)
      else do { h \<leftarrow> rd buf (p + 1); l \<leftarrow> rd buf (p + 2);
                let n = unat h * 256 + unat l in Some (finish_one buf_len tag n (p + 3) (n + 3)) })"

definition tlv_parse_one :: "tlv_definition \<Rightarrow> u8 list \<Rightarrow> nat \<Rightarrow> int \<Rightarrow> (osmo_tlv_parser_error + parsed_ie) res" where
  "tlv_parse_one def buf p buf_len =
     (if buf_len < 1 then Some (Inl OSMO_TLVP_ERR_OFS_BEYOND_BUFFER)
      else do {
        tag \<leftarrow> rd buf p;
        if type (def (drop_bit 4 tag)) = TLV_TYPE_SINGLE_TV then Some (Inr (1, drop_bit 4 tag, 1, p))
        else if tag > 0x0f \<and> type (def (tag AND 0xf0)) = TLV_TYPE_SINGLE_TV then Some (Inr (1, tag AND 0xf0, 1, p))
        else case type (def tag) of
          TLV_TYPE_T \<Rightarrow> Some (finish_one buf_len tag 0 p 1)
        | TLV_TYPE_TV \<Rightarrow> Some (finish_one buf_len tag 1 (p + 1) 2)
        | TLV_TYPE_FIXED \<Rightarrow> Some (finish_one buf_len tag (fixed_len (def tag)) (p + 1) (fixed_len (def tag) + 1))
        | TLV_TYPE_TLV \<Rightarrow> parse_tlv buf p buf_len tag
        | TLV_TYPE_vTvLV_GAN \<Rightarrow>
            if buf_len < 2 then Some (Inl OSMO_TLVP_ERR_OFS_BEYOND_BUFFER)
            else do { h \<leftarrow> rd buf (p + 1);
                      if h AND 0x80 \<noteq> 0 then
                        (if buf_len < 3 then Some (Inl OSMO_TLVP_ERR_OFS_BEYOND_BUFFER)
                         else do { l \<leftarrow> rd buf (p + 2);
                                   let n = unat (h AND 0x7f) * 256 + unat l in Some (finish_one buf_len tag n (p + 3) (n + 3)) })
                      else parse_tlv buf p buf_len tag }
        | TLV_TYPE_TvLV \<Rightarrow>
            if buf_len < 2 then Some (Inl OSMO_TLVP_ERR_OFS_BEYOND_BUFFER)
            else do { h \<leftarrow> rd buf (p + 1);
                      if h AND 0x80 \<noteq> 0 then
                        let n = unat (h AND 0x7f) in Some (finish_one buf_len tag n (p + 2) (n + 2))
                      else parse_tl16v buf p buf_len tag }
        | TLV_TYPE_TL16V \<Rightarrow> parse_tl16v buf p buf_len tag
        | _ \<Rightarrow> Some (Inl OSMO_TLVP_ERR_UNKNOWN_TLV_TYPE) })"

text \<open>\<open>dec\<close> is the array of results; an element goes to the first of them without that tag.\<close>

fun store_ie :: "u8 \<Rightarrow> nat \<Rightarrow> nat \<Rightarrow> tlv_parsed list \<Rightarrow> tlv_parsed list" where
  "store_ie tag n v [] = []"
| "store_ie tag n v (tp # dec) =
     (if eval (tp tag) \<noteq> None then tp # store_ie tag n v dec else tp(tag := \<lparr>elen = n, eval = Some v\<rparr>) # dec)"

text \<open>An initial LV: the loop looks for a free result, but the store goes to the first one.\<close>

definition store_lv :: "u8 \<Rightarrow> nat \<Rightarrow> nat \<Rightarrow> tlv_parsed list \<Rightarrow> tlv_parsed list" where
  "store_lv tag n v dec =
     (if \<exists>tp \<in> set dec. eval (tp tag) = None
      then (case dec of [] \<Rightarrow> [] | tp # rest \<Rightarrow> tp(tag := \<lparr>elen = n, eval = Some v\<rparr>) # rest) else dec)"

definition parse_lv :: "u8 list \<Rightarrow> int \<Rightarrow> u8 \<Rightarrow> nat \<times> nat \<times> tlv_parsed list \<Rightarrow>
    (osmo_tlv_parser_error + nat \<times> nat \<times> tlv_parsed list) res" where
  "parse_lv buf buf_len lv_tag = (\<lambda>(ofs, num, dec).
     if lv_tag = 0 then Some (Inr (ofs, num, dec))
     else if int ofs > buf_len then Some (Inl OSMO_TLVP_ERR_OFS_BEYOND_BUFFER)
     else do {
       l \<leftarrow> rd buf ofs;
       let n = unat l; parsed_len = n + 1 in
       if int (ofs + parsed_len) > buf_len then Some (Inl OSMO_TLVP_ERR_OFS_LEN_BEYOND_BUFFER)
       else Some (Inr (ofs + parsed_len, num + 1, store_lv lv_tag n (ofs + 1) dec)) })"

partial_function (option) parse_loop :: "tlv_definition \<Rightarrow> u8 list \<Rightarrow> int \<Rightarrow> nat \<Rightarrow> nat \<Rightarrow> tlv_parsed list \<Rightarrow>
    (osmo_tlv_parser_error + nat \<times> tlv_parsed list) option" where
  "parse_loop def buf buf_len ofs num dec =
     (if int ofs < buf_len then do {
        r \<leftarrow> tlv_parse_one def buf ofs (buf_len - int ofs);
        case r of
          Inl e \<Rightarrow> Some (Inl e)
        | Inr (rv, tag, n, v) \<Rightarrow> parse_loop def buf buf_len (ofs + rv) (num + 1) (store_ie tag n v dec) }
      else Some (Inr (num, dec)))"

text \<open>The result is the number of elements and the array; \<open>None\<close> would be an access outside the
  buffer, or a loop that does not end.\<close>

definition tlv_parse2 :: "nat \<Rightarrow> tlv_definition \<Rightarrow> u8 list \<Rightarrow> int \<Rightarrow> u8 \<Rightarrow> u8 \<Rightarrow>
    (osmo_tlv_parser_error + nat \<times> tlv_parsed list) option" where
  "tlv_parse2 dec_multiples def buf buf_len lv_tag lv_tag2 = do {
     r \<leftarrow> parse_lv buf buf_len lv_tag (0, 0, replicate dec_multiples (\<lambda>_. empty_entry));
     case r of Inl e \<Rightarrow> Some (Inl e)
     | Inr s \<Rightarrow> do {
         r \<leftarrow> parse_lv buf buf_len lv_tag2 s;
         case r of Inl e \<Rightarrow> Some (Inl e)
         | Inr (ofs, num, dec) \<Rightarrow> parse_loop def buf buf_len ofs num dec } }"

definition tlv_parse :: "tlv_definition \<Rightarrow> u8 list \<Rightarrow> int \<Rightarrow> u8 \<Rightarrow> u8 \<Rightarrow>
    (osmo_tlv_parser_error + nat \<times> tlv_parsed list) option" where
  "tlv_parse def buf buf_len lv_tag lv_tag2 = tlv_parse2 1 def buf buf_len lv_tag lv_tag2"

definition tlv_def_patch :: "tlv_definition \<Rightarrow> tlv_definition \<Rightarrow> tlv_definition" where
  "tlv_def_patch dst_tp src = (\<lambda>i. if type (src i) = TLV_TYPE_NONE then dst_tp i
                                else if type (dst_tp i) = TLV_TYPE_NONE then src i else dst_tp i)"

definition tvlv_att_def :: tlv_definition where
  "tvlv_att_def = (\<lambda>_. \<lparr>type = TLV_TYPE_TvLV, fixed_len = 0\<rparr>)"

definition vtvlv_gan_att_def :: tlv_definition where
  "vtvlv_gan_att_def = (\<lambda>_. \<lparr>type = TLV_TYPE_vTvLV_GAN, fixed_len = 0\<rparr>)"

subsection \<open>Copying results\<close>

text \<open>The copies own their values: an entry is its length and the octets of its own memory.\<close>

type_synonym owned_entry = "nat \<times> u8 list option"
type_synonym tlv_owned = "u8 \<Rightarrow> owned_entry"

text \<open>The condition \<open>len && tp_out->lv[i].val\<close> looks at the zeroed copy.\<close>

definition osmo_tlvp_copy :: "tlv_owned option \<Rightarrow> tlv_owned" where
  "osmo_tlvp_copy tp_orig =
     (let tp_out = (\<lambda>_. (0, None)) in
      case tp_orig of
        None \<Rightarrow> tp_out
      | Some tp \<Rightarrow> (\<lambda>i. let n = fst (tp i) in
                        (n, if n \<noteq> 0 \<and> snd (tp_out i) \<noteq> None then map_option (take n) (snd (tp i)) else snd (tp_out i))))"

definition osmo_tlvp_merge :: "tlv_owned \<Rightarrow> tlv_owned \<Rightarrow> tlv_owned" where
  "osmo_tlvp_merge dst_tp src = (\<lambda>i.
     case snd (src i) of
       None \<Rightarrow> dst_tp i
     | Some v \<Rightarrow> if fst (src i) = 0 then dst_tp i
                 else (if snd (dst_tp i) \<noteq> None then 0 else fst (dst_tp i), Some (take (fst (src i)) v)))"

subsection \<open>Shift functions\<close>

text \<open>State: the offset \<open>*data\<close> and the remaining length \<open>*data_len\<close>; on failure everything is
  consumed and the result is -1.\<close>

record 'v shift_result =
  rc :: int
  dat :: nat
  dat_len :: nat
  "value" :: "'v option"

definition shift_fail :: "nat \<Rightarrow> nat \<Rightarrow> 'v shift_result" where
  "shift_fail p n = \<lparr>rc = -1, dat = p + n, dat_len = 0, value = None\<rparr>"

definition osmo_shift_v_fixed :: "nat \<Rightarrow> nat \<Rightarrow> nat \<Rightarrow> nat shift_result" where
  "osmo_shift_v_fixed p dlen n =
     (if n > dlen then shift_fail p dlen
      else \<lparr>rc = int n, dat = p + n, dat_len = dlen - n, value = Some p\<rparr>)"

definition osmo_match_shift_tv_fixed :: "u8 list \<Rightarrow> nat \<Rightarrow> nat \<Rightarrow> u8 \<Rightarrow> nat \<Rightarrow> nat shift_result res" where
  "osmo_match_shift_tv_fixed buf p dlen tag n =
     (if dlen = 0 then Some (shift_fail p dlen)
      else do {
        t \<leftarrow> rd buf p;
        if t \<noteq> tag then Some \<lparr>rc = 0, dat = p, dat_len = dlen, value = None\<rparr>
        else if n > dlen - 1 then Some (shift_fail p dlen)
        else Some \<lparr>rc = int (n + 1), dat = p + (n + 1), dat_len = dlen - (n + 1), value = Some (p + 1)\<rparr> })"

text \<open>The value is the tag, the offset of the value and its length.\<close>

definition osmo_shift_tlv :: "u8 list \<Rightarrow> nat \<Rightarrow> nat \<Rightarrow> (u8 \<times> nat \<times> nat) shift_result res" where
  "osmo_shift_tlv buf p dlen =
     (if dlen < 2 then Some (shift_fail p dlen)
      else do {
        l \<leftarrow> rd buf (p + 1);
        if unat l > dlen - 2 then Some (shift_fail p dlen)
        else do {
          t \<leftarrow> rd buf p;
          Some \<lparr>rc = int (unat l + 2), dat = p + (unat l + 2), dat_len = dlen - (unat l + 2), value = Some (t, p + 2, unat l)\<rparr> } })"

definition osmo_match_shift_tlv :: "u8 list \<Rightarrow> nat \<Rightarrow> nat \<Rightarrow> u8 \<Rightarrow> (u8 \<times> nat \<times> nat) shift_result res" where
  "osmo_match_shift_tlv buf p dlen expected_tag = do {
     r \<leftarrow> osmo_shift_tlv buf p dlen;
     if rc r > 0 \<and> map_option fst (value r) \<noteq> Some expected_tag
     then Some (r\<lparr>rc := 0, dat := p, dat_len := dlen\<rparr>) else Some r }"

definition osmo_shift_lv :: "u8 list \<Rightarrow> nat \<Rightarrow> nat \<Rightarrow> (nat \<times> nat) shift_result res" where
  "osmo_shift_lv buf p dlen =
     (if dlen < 1 then Some (shift_fail p dlen)
      else do {
        l \<leftarrow> rd buf p;
        if unat l > dlen - 1 then Some (shift_fail p dlen)
        else Some \<lparr>rc = int (unat l + 1), dat = p + (unat l + 1), dat_len = dlen - (unat l + 1), value = Some (p + 1, unat l)\<rparr> })"

subsection \<open>Protocol definitions\<close>

record osmo_tlv_prot_msg_def =
  mand_ies :: "u8 list option"
  flags :: u32

record osmo_tlv_prot_def =
  pdef_tlv_def :: tlv_definition
  msg_def :: "u8 \<Rightarrow> osmo_tlv_prot_msg_def"
  ie_min_len :: "u8 \<Rightarrow> nat"

definition first_err :: "osmo_tlv_parser_error \<Rightarrow> osmo_tlv_parser_error option \<Rightarrow> osmo_tlv_parser_error option" where
  "first_err e err = (case err of None \<Rightarrow> Some e | Some e' \<Rightarrow> Some e')"

definition osmo_tlv_prot_validate_tp :: "osmo_tlv_prot_def \<Rightarrow> u8 \<Rightarrow> tlv_parsed \<Rightarrow> osmo_tlv_parser_error option" where
  "osmo_tlv_prot_validate_tp pdef msg_type tp =
     (let err = (case mand_ies (msg_def pdef msg_type) of None \<Rightarrow> None
                 | Some ies \<Rightarrow> fold (\<lambda>iei err. if \<not> TLVP_PRESENT tp iei then first_err OSMO_TLVP_ERR_MAND_IE_MISSING err else err) ies None)
      in fold (\<lambda>i err. if TLVP_PRESENT tp i \<and> elen (tp i) < ie_min_len pdef i then first_err OSMO_TLVP_ERR_IE_TOO_SHORT err else err)
           all_tags err)"

definition osmo_tlv_prot_parse :: "osmo_tlv_prot_def \<Rightarrow> nat \<Rightarrow> u8 \<Rightarrow> u8 list \<Rightarrow> int \<Rightarrow> u8 \<Rightarrow> u8 \<Rightarrow>
    (osmo_tlv_parser_error option \<times> tlv_parsed list) option" where
  "osmo_tlv_prot_parse pdef dec_multiples msg_type buf buf_len lv_tag lv_tag2 = do {
     r \<leftarrow> tlv_parse2 dec_multiples (pdef_tlv_def pdef) buf buf_len lv_tag lv_tag2;
     case r of
       Inl e \<Rightarrow> Some (Some e, [])
     | Inr (_, dec) \<Rightarrow> (case dec of [] \<Rightarrow> None | tp # _ \<Rightarrow> Some (osmo_tlv_prot_validate_tp pdef msg_type tp, dec)) }"

definition osmo_tlv_prot_msgt_flags :: "osmo_tlv_prot_def \<Rightarrow> u8 \<Rightarrow> u32" where
  "osmo_tlv_prot_msgt_flags pdef msg_type = flags (msg_def pdef msg_type)"

section \<open>Properties\<close>

subsection \<open>What the encoders write\<close>

text \<open>\<open>enc\<close> overwrites the octets at its position by \<open>ws\<close>.\<close>

definition writes :: "(u8 list \<Rightarrow> nat \<Rightarrow> (u8 list \<times> nat) res) \<Rightarrow> u8 list \<Rightarrow> bool" where
  "writes enc ws \<longleftrightarrow> (\<forall>pre mid post. length mid = length ws \<longrightarrow>
     (\<exists>q. enc (pre @ mid @ post) (length pre) = Some (pre @ ws @ post, q)))"

lemma wr_at:
  "wr (xs @ a # ys) (length xs) w = Some (xs @ w # ys)"
  "wr (xs @ a # b # ys) (Suc (length xs)) w = Some (xs @ a # w # ys)"
  "wr (xs @ a # b # c # ys) (Suc (Suc (length xs))) w = Some (xs @ a # b # w # ys)"
  by (simp_all add: wr_def list_update_append Suc_diff_le)

lemma rd_at:
  "rd (xs @ a # ys) (length xs) = Some a"
  "rd (xs @ a # b # ys) (Suc (length xs)) = Some b"
  "rd (xs @ a # b # c # ys) (Suc (Suc (length xs))) = Some c"
  by (simp_all add: rd_def nth_append Suc_diff_le)

lemma memcpy_at:
  "length mid = n \<Longrightarrow> n \<le> length val \<Longrightarrow> length xs = i \<Longrightarrow> memcpy (xs @ mid @ ys) i val 0 n = Some (xs @ take n val @ ys)"
  by (simp add: memcpy_def)

lemma memcpy_at1:
  "length mid = n \<Longrightarrow> n \<le> length val \<Longrightarrow> memcpy (xs @ a # mid @ ys) (Suc (length xs)) val 0 n = Some (xs @ a # take n val @ ys)"
  using memcpy_at [of mid n val "xs @ [a]" _ ys] by simp

lemma memcpy_at2:
  "length mid = n \<Longrightarrow> n \<le> length val \<Longrightarrow>
   memcpy (xs @ a # b # mid @ ys) (Suc (Suc (length xs))) val 0 n = Some (xs @ a # b # take n val @ ys)"
  using memcpy_at [of mid n val "xs @ [a, b]" _ ys] by simp

lemma memcpy_at3:
  "length mid = n \<Longrightarrow> n \<le> length val \<Longrightarrow>
   memcpy (xs @ a # b # c # mid @ ys) (Suc (Suc (Suc (length xs)))) val 0 n = Some (xs @ a # b # c # take n val @ ys)"
  using memcpy_at [of mid n val "xs @ [a, b, c]" _ ys] by simp

lemmas buffer_at = wr_at rd_at memcpy_at1 memcpy_at2 memcpy_at3

lemma writes_intro1:
  "(\<And>pre a mid post. length mid = length ws \<Longrightarrow> \<exists>q. enc (pre @ a # mid @ post) (length pre) = Some (pre @ w # ws @ post, q)) \<Longrightarrow>
   writes enc (w # ws)"
  unfolding writes_def by (auto simp: length_Suc_conv)

lemma writes_intro2:
  "(\<And>pre a b mid post. length mid = length ws \<Longrightarrow> \<exists>q. enc (pre @ a # b # mid @ post) (length pre) = Some (pre @ w # x # ws @ post, q)) \<Longrightarrow>
   writes enc (w # x # ws)"
  by (rule writes_intro1) (auto simp: length_Suc_conv)

lemma writes_intro3:
  "(\<And>pre a b c mid post. length mid = length ws \<Longrightarrow> \<exists>q. enc (pre @ a # b # c # mid @ post) (length pre) = Some (pre @ w # x # y # ws @ post, q)) \<Longrightarrow>
   writes enc (w # x # y # ws)"
  by (rule writes_intro2) (auto simp: length_Suc_conv)

lemma v_put_writes: "writes (\<lambda>b p. v_put b p v) [v]"
  by (rule writes_intro1) (simp add: v_put_def buffer_at)

lemma tv_put_writes: "writes (\<lambda>b p. tv_put b p tag v) [tag, v]"
  by (rule writes_intro2) (simp add: tv_put_def buffer_at)

lemma tv_fixed_put_writes: "n \<le> length val \<Longrightarrow> writes (\<lambda>b p. tv_fixed_put b p tag n val) (tag # take n val)"
  by (rule writes_intro1) (simp add: tv_fixed_put_def buffer_at)

lemma lv_put_writes: "n \<le> length val \<Longrightarrow> writes (\<lambda>b p. lv_put b p n val) (word_of_nat n # take n val)"
  by (rule writes_intro1) (simp add: lv_put_def buffer_at)

lemma tlv_put_writes: "n \<le> length val \<Longrightarrow> writes (\<lambda>b p. tlv_put b p tag n (Some val)) (tag # word_of_nat n # take n val)"
  by (rule writes_intro2) (auto simp: tlv_put_def buffer_at)

lemma tl16v_put_writes:
  "n \<le> length val \<Longrightarrow> writes (\<lambda>b p. tl16v_put b p tag n val) (tag # word_of_nat (n div 256) # word_of_nat (n mod 256) # take n val)"
  by (rule writes_intro3) (auto simp: tl16v_put_def buffer_at numeral_3_eq_3)

lemma tvlv_put_writes:
  "n \<le> length val \<Longrightarrow> writes (\<lambda>b p. tvlv_put b p tag n val)
     (if n \<le> 127 then tag # (word_of_nat n OR 0x80) # take n val
      else tag # word_of_nat (n div 256) # word_of_nat (n mod 256) # take n val)"
  using tl16v_put_writes [of n val tag]
  by (auto simp: tvlv_put_def TVLV_MAX_ONEBYTE_def tlv_put_def set_len_flag_def buffer_at intro!: writes_intro2)

lemma vtvlv_gan_put_writes:
  "n \<le> length val \<Longrightarrow> tag \<le> 127 \<Longrightarrow> writes (\<lambda>b p. vtvlv_gan_put b p tag n val)
     (if n \<le> 127 then word_of_nat tag # word_of_nat n # take n val
      else word_of_nat tag # (0x80 OR word_of_nat (n div 256)) # word_of_nat (n mod 256) # take n val)"
  by (auto simp: vtvlv_gan_put_def vtvl_gan_put_def vt_gan_put_def TVLV_MAX_ONEBYTE_def buffer_at
      intro!: writes_intro2 writes_intro3)

lemma put_field_spec:
  assumes "msgb_ok m" and "writes enc ws" and "length ws = gross" and "int gross \<le> msgb_tailroom m"
  shows "\<exists>m' q. put_field m gross enc = Ok (m', q) \<and> msgb_ok m' \<and> contents m' = contents m @ ws \<and>
     msgb_headroom m' = msgb_headroom m \<and> msgb_tailroom m' = msgb_tailroom m - int gross"
proof -
  note d = msgb_okD [OF assms(1)]
  have g: "gross < 2147483648" using assms(4) d by simp
  let ?p = "nat (tail m)"
  have p: "0 \<le> tail m" "?p + gross \<le> length (mem m)" using d assms(4) by simp_all
  have b: "mem m = take ?p (mem m) @ take gross (drop ?p (mem m)) @ drop (?p + gross) (mem m)"
    by (simp add: add.commute flip: drop_drop)
  have l: "length (take ?p (mem m)) = ?p" "length (take gross (drop ?p (mem m))) = length ws"
    using p assms(3) by simp_all
  obtain q where q: "enc (mem m) ?p = Some (take ?p (mem m) @ ws @ drop (?p + gross) (mem m), q)"
    using assms(2) [unfolded writes_def, rule_format, OF l(2), of "take ?p (mem m)" "drop (?p + gross) (mem m)"]
    by (auto simp only: l(1) b [symmetric])
  from put_store [OF assms(1), of ws] assms(3,4) g obtain m' where
    m': "and_then (msgb_put m gross) (\<lambda>(m, space). and_then (at_ptr m space (\<lambda>b p. Some (take p b @ ws @ drop (p + gross) b))) (\<lambda>b. Ok (m\<lparr>mem := b\<rparr>))) = Ok m'"
    "msgb_ok m'" "contents m' = contents m @ ws" "msgb_headroom m' = msgb_headroom m" "msgb_tailroom m' = msgb_tailroom m - int gross"
    by auto
  have "put_field m gross enc = Ok (m', int q)"
    using m'(1) q p(1) assms(4) by (simp add: put_field_def put_spec [OF assms(1) g] at_ptr_def)
  with m' show ?thesis by blast
qed

subsection \<open>Encoding and parsing one element\<close>

text \<open>The octets of an element of the given type.\<close>

fun ie_octets :: "tlv_type \<Rightarrow> u8 \<Rightarrow> u8 list \<Rightarrow> u8 list" where
  "ie_octets TLV_TYPE_FIXED tag v = tag # v"
| "ie_octets TLV_TYPE_T tag v = [tag]"
| "ie_octets TLV_TYPE_TV tag v = [tag, hd v]"
| "ie_octets TLV_TYPE_TLV tag v = tag # word_of_nat (length v) # v"
| "ie_octets TLV_TYPE_TL16V tag v = tag # word_of_nat (length v div 256) # word_of_nat (length v mod 256) # v"
| "ie_octets TLV_TYPE_TvLV tag v =
     (if length v \<le> 127 then tag # (word_of_nat (length v) OR 0x80) # v
      else tag # word_of_nat (length v div 256) # word_of_nat (length v mod 256) # v)"
| "ie_octets TLV_TYPE_vTvLV_GAN tag v =
     (if length v \<le> 127 then tag # word_of_nat (length v) # v
      else tag # (0x80 OR word_of_nat (length v div 256)) # word_of_nat (length v mod 256) # v)"
| "ie_octets _ tag v = []"

text \<open>The value lengths an element of that type can carry. A GAN tag must fit in seven bits:
  the encoder writes larger ones in two octets, which the parser does not read.\<close>

fun encodable :: "tlv_def \<Rightarrow> u8 \<Rightarrow> u8 list \<Rightarrow> bool" where
  "encodable d tag v = (case type d of
     TLV_TYPE_FIXED \<Rightarrow> length v = fixed_len d
   | TLV_TYPE_T \<Rightarrow> v = []
   | TLV_TYPE_TV \<Rightarrow> length v = 1
   | TLV_TYPE_TLV \<Rightarrow> length v < 256
   | TLV_TYPE_TL16V \<Rightarrow> length v < 65536
   | TLV_TYPE_TvLV \<Rightarrow> length v < 32768
   | TLV_TYPE_vTvLV_GAN \<Rightarrow> length v < 32768 \<and> tag \<le> 0x7f
   | _ \<Rightarrow> False)"

lemma encode_one_spec:
  assumes "msgb_ok m" and "encodable d tag v" and "int (length (ie_octets (type d) tag v)) \<le> msgb_tailroom m"
  shows "\<exists>m'. tlv_encode_one m (type d) tag (length v) (v @ rest) = Ok m' \<and> msgb_ok m' \<and>
     contents m' = contents m @ ie_octets (type d) tag v \<and> msgb_headroom m' = msgb_headroom m \<and>
     msgb_tailroom m' = msgb_tailroom m - int (length (ie_octets (type d) tag v))"
proof -
  note pf = put_field_spec [OF assms(1) _ _ assms(3)]
  show ?thesis
  proof (cases "type d")
    case TLV_TYPE_FIXED
    then show ?thesis using pf [OF tv_fixed_put_writes [of "length v" "v @ rest" tag, simplified]]
      by (auto simp: tlv_encode_one_def msgb_tv_fixed_put_def)
  next
    case TLV_TYPE_T
    then show ?thesis using pf [OF v_put_writes [of tag]] by (auto simp: tlv_encode_one_def msgb_v_put_def)
  next
    case TLV_TYPE_TV
    with assms(2) obtain x where x: "v = [x]" by (auto simp: length_Suc_conv)
    with TLV_TYPE_TV show ?thesis using pf [OF tv_put_writes [of tag x]] by (auto simp: tlv_encode_one_def msgb_tv_put_def rd_def numeral_2_eq_2)
  next
    case TLV_TYPE_TLV
    with assms(2) have "length v < 256" by simp
    then show ?thesis using TLV_TYPE_TLV pf [OF tlv_put_writes [of "length v" "v @ rest" tag, simplified]]
      by (auto simp: tlv_encode_one_def msgb_tlv_put_def TLV_GROSS_LEN_def)
  next
    case TLV_TYPE_TL16V
    with assms(2) have "length v < 65536" by simp
    then show ?thesis using TLV_TYPE_TL16V pf [OF tl16v_put_writes [of "length v" "v @ rest" tag, simplified]]
      by (auto simp: tlv_encode_one_def msgb_tl16v_put_def TL16V_GROSS_LEN_def numeral_3_eq_3)
  next
    case TLV_TYPE_TvLV
    with assms(2) have "length v < 32768" by simp
    then show ?thesis using TLV_TYPE_TvLV pf [OF tvlv_put_writes [of "length v" "v @ rest" tag, simplified]]
      by (auto simp: tlv_encode_one_def msgb_tvlv_put_def TVLV_GROSS_LEN_def TL16V_GROSS_LEN_def TLV_GROSS_LEN_def
          TVLV_MAX_ONEBYTE_def numeral_3_eq_3 split: if_splits)
  next
    case TLV_TYPE_vTvLV_GAN
    with assms(2) have l: "length v < 32768" "unat tag \<le> 127" by (simp_all add: word_le_nat_alt)
    then show ?thesis using TLV_TYPE_vTvLV_GAN pf [OF vtvlv_gan_put_writes [of "length v" "v @ rest" "unat tag", simplified]]
      by (auto simp: tlv_encode_one_def msgb_vtvlv_gan_put_def VTVLV_GAN_GROSS_LEN_def TL16V_GROSS_LEN_def TLV_GROSS_LEN_def
          TVLV_MAX_ONEBYTE_def numeral_3_eq_3 Let_def split: if_splits)
  qed (use assms(2) in simp_all)
qed

lemma unat8 [simp]: "n < 256 \<Longrightarrow> unat (word_of_nat n :: u8) = n"
  by (simp add: unsigned_of_nat take_bit_eq_mod)

lemma uint8 [simp]: "n < 256 \<Longrightarrow> uint (word_of_nat n :: u8) = int n"
  using unat8 [of n] by (metis uint_nat)

lemma octet_pair [simp]: "int (n div 256) * 256 + int (n mod 256) = int n" "n div 256 * 256 + n mod 256 = n"
proof -
  show n: "n div 256 * 256 + n mod 256 = n" by simp
  have "int (n div 256 * 256 + n mod 256) = int n" by (simp only: n)
  then show "int (n div 256) * 256 + int (n mod 256) = int n" by (simp only: of_nat_add of_nat_mult of_nat_numeral)
qed

text \<open>The flag in the most significant bit of a length octet.\<close>

lemma len_flag: "w \<le> 0x7f \<Longrightarrow> (w OR 0x80) AND 0x80 \<noteq> (0 :: u8) \<and> (w OR 0x80) AND 0x7f = w \<and> w AND 0x80 = 0"
proof -
  have "list_all (\<lambda>w. w \<le> 0x7f \<longrightarrow> (w OR 0x80) AND 0x80 \<noteq> (0 :: u8) \<and> (w OR 0x80) AND 0x7f = w \<and> w AND 0x80 = 0) octets"
    unfolding octets_def by simp
  then have "\<forall>w. w \<le> 0x7f \<longrightarrow> (w OR 0x80) AND 0x80 \<noteq> (0 :: u8) \<and> (w OR 0x80) AND 0x7f = w \<and> w AND 0x80 = 0"
    by (simp only: all_octets)
  then show "w \<le> 0x7f \<Longrightarrow> (w OR 0x80) AND 0x80 \<noteq> 0 \<and> (w OR 0x80) AND 0x7f = w \<and> w AND 0x80 = 0"
    by blast
qed

lemma word8_le_127: "n \<le> 127 \<Longrightarrow> (word_of_nat n :: u8) \<le> 0x7f"
  by (simp add: word_le_nat_alt)

lemma parse_one_spec:
  assumes "encodable (def tag) tag v" and "type (def (drop_bit 4 tag)) \<noteq> TLV_TYPE_SINGLE_TV"
    and "type (def (tag AND 0xf0)) \<noteq> TLV_TYPE_SINGLE_TV"
  shows "\<exists>h. tlv_parse_one def (pre @ ie_octets (type (def tag)) tag v @ post) (length pre)
       (int (length (ie_octets (type (def tag)) tag v @ post))) =
       Some (Inr (length (ie_octets (type (def tag)) tag v), tag, length v, length pre + h)) \<and>
     take (length v) (drop h (ie_octets (type (def tag)) tag v)) = v \<and>
     h + length v \<le> length (ie_octets (type (def tag)) tag v)"
proof (cases "type (def tag)")
  case TLV_TYPE_FIXED
  with assms show ?thesis by (intro exI [of _ 1]) (simp add: tlv_parse_one_def buffer_at finish_one_def)
next
  case TLV_TYPE_T
  with assms show ?thesis by (intro exI [of _ 0]) (simp add: tlv_parse_one_def buffer_at finish_one_def)
next
  case TLV_TYPE_TV
  with assms(1) obtain x where "v = [x]" by (auto simp: length_Suc_conv)
  with TLV_TYPE_TV assms show ?thesis by (intro exI [of _ 1]) (simp add: tlv_parse_one_def buffer_at finish_one_def)
next
  case TLV_TYPE_TLV
  with assms show ?thesis
    by (intro exI [of _ 2]) (simp add: tlv_parse_one_def parse_tlv_def buffer_at finish_one_def)
next
  case TLV_TYPE_TL16V
  with assms show ?thesis
    by (intro exI [of _ 3]) (simp add: tlv_parse_one_def parse_tl16v_def buffer_at finish_one_def Let_def)
next
  case TLV_TYPE_TvLV
  show ?thesis
  proof (cases "length v \<le> 127")
    case True
    with TLV_TYPE_TvLV assms len_flag [OF word8_le_127 [OF True]] show ?thesis
      by (intro exI [of _ 2]) (simp add: tlv_parse_one_def buffer_at finish_one_def Let_def)
  next
    case False
    then have "word_of_nat (length v div 256) AND 0x80 = (0 :: u8)"
      using TLV_TYPE_TvLV assms(1) len_flag [OF word8_le_127 [of "length v div 256"]] by (simp add: div_le_dividend)
    with False TLV_TYPE_TvLV assms show ?thesis
      by (intro exI [of _ 3]) (simp add: tlv_parse_one_def parse_tl16v_def buffer_at finish_one_def Let_def)
  qed
next
  case TLV_TYPE_vTvLV_GAN
  show ?thesis
  proof (cases "length v \<le> 127")
    case True
    with TLV_TYPE_vTvLV_GAN assms len_flag [OF word8_le_127 [OF True]] show ?thesis
      by (intro exI [of _ 2]) (simp add: tlv_parse_one_def parse_tlv_def buffer_at finish_one_def Let_def)
  next
    case False
    have "length v div 256 < 128" using TLV_TYPE_vTvLV_GAN assms(1) by (simp add: div_less_iff_less_mult)
    then have "length v div 256 \<le> 127" by simp
    with False TLV_TYPE_vTvLV_GAN assms len_flag [OF word8_le_127 [of "length v div 256"]] show ?thesis
      by (intro exI [of _ 3]) (simp add: tlv_parse_one_def buffer_at finish_one_def Let_def or.commute)
  qed
qed (use assms(1) in simp_all)

subsection \<open>Safety of the parser\<close>

text \<open>An element found at offset \<open>p\<close>: it consumes at least one octet and at most what is left,
  and its value lies inside the octets consumed.\<close>

lemma parse_one_safe:
  assumes "int p + buf_len \<le> int (length buf)"
  shows "\<exists>r. tlv_parse_one def buf p buf_len = Some r \<and>
    (case r of Inl e \<Rightarrow> True
     | Inr (n, tag, l, v) \<Rightarrow> 1 \<le> n \<and> int n \<le> buf_len \<and> p \<le> v \<and> v + l \<le> p + n)"
  using assms
  by (auto simp: tlv_parse_one_def parse_tlv_def parse_tl16v_def finish_one_def rd_def Let_def split: tlv_type.splits)

definition entry_inside :: "int \<Rightarrow> tlv_p_entry \<Rightarrow> bool" where
  "entry_inside n e \<longleftrightarrow> (\<forall>v. eval e = Some v \<longrightarrow> int (v + elen e) \<le> n)"

definition all_inside :: "int \<Rightarrow> tlv_parsed list \<Rightarrow> bool" where
  "all_inside n dec \<longleftrightarrow> (\<forall>tp \<in> set dec. \<forall>t. entry_inside n (tp t))"

lemma store_ie_inside:
  "all_inside n dec \<Longrightarrow> int (v + l) \<le> n \<Longrightarrow> all_inside n (store_ie tag l v dec)"
  by (induction dec) (auto simp: all_inside_def entry_inside_def)

lemma store_lv_inside:
  "all_inside n dec \<Longrightarrow> int (v + l) \<le> n \<Longrightarrow> all_inside n (store_lv tag l v dec)"
  by (auto simp: all_inside_def entry_inside_def store_lv_def split: list.splits)

lemma length_store_ie [simp]: "length (store_ie tag l v dec) = length dec"
  by (induction dec) auto

lemma length_store_lv [simp]: "length (store_lv tag l v dec) = length dec"
  by (auto simp: store_lv_def split: list.splits)

lemma parse_loop_safe:
  assumes "buf_len \<le> int (length buf)" and "all_inside buf_len dec"
  shows "\<exists>r. parse_loop def buf buf_len ofs num dec = Some r \<and>
    (case r of Inl e \<Rightarrow> True
     | Inr (k, dec') \<Rightarrow> num \<le> k \<and> k - num \<le> nat (buf_len - int ofs) \<and> length dec' = length dec \<and> all_inside buf_len dec')"
  using assms(2)
proof (induction "nat (buf_len - int ofs)" arbitrary: ofs num dec rule: less_induct)
  case less
  show ?case
  proof (cases "int ofs < buf_len")
    case False
    with less.prems show ?thesis by (subst parse_loop.simps) simp
  next
    case True
    obtain r where r: "tlv_parse_one def buf ofs (buf_len - int ofs) = Some r"
      "case r of Inl e \<Rightarrow> True | Inr (n, tag, l, v) \<Rightarrow> 1 \<le> n \<and> int n \<le> buf_len - int ofs \<and> ofs \<le> v \<and> v + l \<le> ofs + n"
      using parse_one_safe [of ofs "buf_len - int ofs" buf def] assms(1) by auto
    show ?thesis
    proof (cases r)
      case (Inl e)
      with True r(1) show ?thesis by (subst parse_loop.simps) simp
    next
      case (Inr q)
      obtain n tag l v where q: "q = (n, tag, l, v)" by (cases q)
      with Inr r(2) have n: "1 \<le> n" "int n \<le> buf_len - int ofs" "v + l \<le> ofs + n" by auto
      have "nat (buf_len - int (ofs + n)) < nat (buf_len - int ofs)" using n True by simp
      moreover have "all_inside buf_len (store_ie tag l v dec)" using less.prems n by (intro store_ie_inside) auto
      ultimately obtain r' where r': "parse_loop def buf buf_len (ofs + n) (num + 1) (store_ie tag l v dec) = Some r'"
        "case r' of Inl e \<Rightarrow> True | Inr (k, dec') \<Rightarrow> num + 1 \<le> k \<and> k - (num + 1) \<le> nat (buf_len - int (ofs + n)) \<and>
           length dec' = length (store_ie tag l v dec) \<and> all_inside buf_len dec'"
        using less.hyps by blast
      have "parse_loop def buf buf_len ofs num dec = Some r'"
        using True r(1) r'(1) Inr q by (subst parse_loop.simps) simp
      with r'(2) n True show ?thesis by (auto split: sum.splits)
    qed
  qed
qed

lemma parse_lv_safe:
  assumes "parse_lv buf buf_len lv_tag (ofs, num, dec) = Some r" and "all_inside buf_len dec"
  shows "case r of Inl e \<Rightarrow> True
     | Inr (ofs', num', dec') \<Rightarrow> num' - num \<le> ofs' - ofs \<and> ofs \<le> ofs' \<and> num \<le> num' \<and> int ofs' \<le> max (int ofs) buf_len \<and>
         length dec' = length dec \<and> all_inside buf_len dec'"
  using assms store_lv_inside [of buf_len dec]
  by (auto simp: parse_lv_def rd_def Let_def split: if_splits)

text \<open>The octet of the length is read before it is known to be there: the parse of an initial LV fails exactly when nothing is left for it.\<close>

lemma parse_lv_None: "parse_lv buf buf_len lv_tag (ofs, num, dec) = None \<longleftrightarrow> lv_tag \<noteq> 0 \<and> int ofs \<le> buf_len \<and> length buf \<le> ofs"
  by (auto simp: parse_lv_def rd_def Let_def)

lemma parse_lv_at_end:
  "lv_tag \<noteq> 0 \<Longrightarrow> int ofs = buf_len \<Longrightarrow> ofs < length buf \<Longrightarrow> parse_lv buf buf_len lv_tag (ofs, num, dec) = Some (Inl OSMO_TLVP_ERR_OFS_LEN_BEYOND_BUFFER)"
  by (auto simp: parse_lv_def rd_def Let_def)

definition lv_reads_behind :: "u8 list \<Rightarrow> u8 \<Rightarrow> u8 \<Rightarrow> bool" where
  "lv_reads_behind buf lv_tag lv_tag2 \<longleftrightarrow> (lv_tag \<noteq> 0 \<or> lv_tag2 \<noteq> 0) \<and> buf = []
     \<or> lv_tag \<noteq> 0 \<and> lv_tag2 \<noteq> 0 \<and> buf \<noteq> [] \<and> length buf = unat (buf ! 0) + 1"

lemma parse2_rest:
  assumes "buf_len \<le> int (length buf)" "0 \<le> buf_len" "num \<le> ofs" "int ofs \<le> buf_len" "all_inside buf_len dec"
  shows "(do { r \<leftarrow> parse_lv buf buf_len lv_tag2 (ofs, num, dec); case r of Inl e \<Rightarrow> Some (Inl e) | Inr (ofs, num, dec) \<Rightarrow> parse_loop def buf buf_len ofs num dec } = None
      \<longleftrightarrow> lv_tag2 \<noteq> 0 \<and> ofs = length buf)"
    and "do { r \<leftarrow> parse_lv buf buf_len lv_tag2 (ofs, num, dec); case r of Inl e \<Rightarrow> Some (Inl e) | Inr (ofs, num, dec) \<Rightarrow> parse_loop def buf buf_len ofs num dec } = Some (Inr (n, dec'))
      \<Longrightarrow> int n \<le> buf_len \<and> length dec' = length dec \<and> all_inside buf_len dec'"
proof -
  have *: "\<exists>r'. (case r of Inl e \<Rightarrow> Some (Inl e) | Inr (ofs, num, dec) \<Rightarrow> parse_loop def buf buf_len ofs num dec) = Some r' \<and>
      (case r' of Inl e \<Rightarrow> True | Inr (n, dec') \<Rightarrow> int n \<le> buf_len \<and> length dec' = length dec \<and> all_inside buf_len dec')"
    if "parse_lv buf buf_len lv_tag2 (ofs, num, dec) = Some r" for r
  proof (cases r)
    case (Inr s)
    obtain ofs2 num2 dec2 where s: "s = (ofs2, num2, dec2)" by (cases s)
    with Inr parse_lv_safe [OF that assms(5)] assms(3,4) have d: "num2 \<le> ofs2" "int ofs2 \<le> buf_len" "length dec2 = length dec" "all_inside buf_len dec2" by auto
    obtain r3 where "parse_loop def buf buf_len ofs2 num2 dec2 = Some r3"
      "case r3 of Inl e \<Rightarrow> True | Inr (k, dec') \<Rightarrow> num2 \<le> k \<and> k - num2 \<le> nat (buf_len - int ofs2) \<and> length dec' = length dec2 \<and> all_inside buf_len dec'"
      using parse_loop_safe [OF assms(1) d(4)] by blast
    then show ?thesis using Inr s d by (auto split: sum.splits)
  qed simp
  show "do { r \<leftarrow> parse_lv buf buf_len lv_tag2 (ofs, num, dec); case r of Inl e \<Rightarrow> Some (Inl e) | Inr (ofs, num, dec) \<Rightarrow> parse_loop def buf buf_len ofs num dec } = None
      \<longleftrightarrow> lv_tag2 \<noteq> 0 \<and> ofs = length buf"
    using parse_lv_None [of buf buf_len lv_tag2 ofs num dec] assms(1,4) *
    by (cases "parse_lv buf buf_len lv_tag2 (ofs, num, dec)") auto
  show "int n \<le> buf_len \<and> length dec' = length dec \<and> all_inside buf_len dec'"
    if "do { r \<leftarrow> parse_lv buf buf_len lv_tag2 (ofs, num, dec); case r of Inl e \<Rightarrow> Some (Inl e) | Inr (ofs, num, dec) \<Rightarrow> parse_loop def buf buf_len ofs num dec } = Some (Inr (n, dec'))"
    using that * by (cases "parse_lv buf buf_len lv_tag2 (ofs, num, dec)") fastforce+
qed

lemma octets_distinct: "distinct octets"
proof -
  have "inj_on (word_of_nat :: nat \<Rightarrow> u8) {0..<256}"
  proof (rule inj_onI)
    fix i j :: nat
    assume "i \<in> {0..<256}" "j \<in> {0..<256}" "word_of_nat i = (word_of_nat j :: u8)"
    then show "i = j" by (metis atLeastLessThan_iff unat8)
  qed
  then show ?thesis unfolding octets_eq distinct_map set_upt by (rule conjI [OF distinct_upt])
qed

subsection \<open>Encoding and parsing a whole message\<close>

definition good_ie :: "tlv_definition \<Rightarrow> u8 \<Rightarrow> u8 list \<Rightarrow> bool" where
  "good_ie def tag v \<longleftrightarrow> encodable (def tag) tag v \<and> type (def (drop_bit 4 tag)) \<noteq> TLV_TYPE_SINGLE_TV \<and>
     type (def (tag AND 0xf0)) \<noteq> TLV_TYPE_SINGLE_TV"

fun wire :: "tlv_definition \<Rightarrow> (u8 \<times> u8 list) list \<Rightarrow> u8 list" where
  "wire def [] = []"
| "wire def ((t, v) # items) = ie_octets (type (def t)) t v @ wire def items"

text \<open>The parse result \<open>tp\<close> over the memory \<open>buf\<close> stands for the elements \<open>M\<close>.\<close>

definition stands_for :: "u8 list \<Rightarrow> tlv_parsed \<Rightarrow> (u8 \<rightharpoonup> u8 list) \<Rightarrow> bool" where
  "stands_for buf tp M \<longleftrightarrow> (\<forall>t. (M t = None \<longrightarrow> eval (tp t) = None) \<and>
     (\<forall>v. M t = Some v \<longrightarrow> (\<exists>p. eval (tp t) = Some p \<and> elen (tp t) = length v \<and> take (length v) (drop p buf) = v)))"

lemma ie_octets_nonempty: "encodable (def t) t v \<Longrightarrow> 0 < length (ie_octets (type (def t)) t v)"
  by (cases "type (def t)") auto

lemma stands_for_upd:
  "stands_for buf tp M \<Longrightarrow> take (length v) (drop p buf) = v \<Longrightarrow>
   stands_for buf (tp(t := \<lparr>elen = length v, eval = Some p\<rparr>)) (M(t \<mapsto> v))"
  by (auto simp: stands_for_def)

lemma parse_items:
  assumes "\<forall>(t, v) \<in> set items. good_ie def t v" and "distinct (map fst items)" and "dom M \<inter> fst ` set items = {}"
    and "stands_for (pre @ wire def items) tp M"
  shows "\<exists>tp'. parse_loop def (pre @ wire def items) (int (length (pre @ wire def items))) (length pre) num [tp] =
      Some (Inr (num + length items, [tp'])) \<and> stands_for (pre @ wire def items) tp' (M ++ map_of items)"
  using assms
proof (induction items arbitrary: pre num tp M)
  case Nil
  then show ?case by (subst parse_loop.simps) simp
next
  case (Cons it items)
  obtain t v where it: "it = (t, v)" by (cases it)
  let ?o = "ie_octets (type (def t)) t v" and ?buf = "pre @ wire def (it # items)"
  have g: "good_ie def t v" using Cons.prems(1) it by auto
  then obtain h where h: "tlv_parse_one def (pre @ ?o @ wire def items) (length pre) (int (length (?o @ wire def items))) =
      Some (Inr (length ?o, t, length v, length pre + h))" "take (length v) (drop h ?o) = v" "h + length v \<le> length ?o"
    using parse_one_spec [of def t v pre "wire def items"] unfolding good_ie_def by blast
  have new: "eval (tp t) = None" using Cons.prems(3,4) it by (auto simp: stands_for_def)
  have val: "take (length v) (drop (length pre + h) ?buf) = v"
    using h(2,3) it by (simp add: drop_append)
  let ?tp = "tp(t := \<lparr>elen = length v, eval = Some (length pre + h)\<rparr>)"
  have st: "stands_for ((pre @ ?o) @ wire def items) ?tp (M(t \<mapsto> v))"
    using stands_for_upd [OF Cons.prems(4) val] it by simp
  have dm: "dom (M(t \<mapsto> v)) \<inter> fst ` set items = {}" using Cons.prems(2,3) it by force
  have "\<forall>(t, v) \<in> set items. good_ie def t v" "distinct (map fst items)" using Cons.prems(1,2) by simp_all
  from Cons.IH [OF this dm st, of "num + 1"] obtain tp' where tp': "parse_loop def ((pre @ ?o) @ wire def items) (int (length ((pre @ ?o) @ wire def items)))
      (length (pre @ ?o)) (num + 1) [?tp] = Some (Inr (num + 1 + length items, [tp']))"
    "stands_for ((pre @ ?o) @ wire def items) tp' (M(t \<mapsto> v) ++ map_of items)"
    by blast
  have o: "0 < length ?o" using g ie_octets_nonempty unfolding good_ie_def by blast
  then have pos: "0 < int (length ?o) + int (length (wire def items))" by linarith
  have eq: "M(t \<mapsto> v) ++ map_of items = M ++ map_of (it # items)"
    using Cons.prems(2) it by (auto simp: map_add_def fun_eq_iff image_iff split: option.splits dest: map_of_SomeD)
  have run: "parse_loop def ?buf (int (length ?buf)) (length pre) num [tp] = Some (Inr (num + 1 + length items, [tp']))"
    using pos h(1) tp'(1) new it by (subst parse_loop.simps) simp
  have "stands_for ?buf tp' (M(t \<mapsto> v) ++ map_of items)" using tp'(2) it by simp
  then have st2: "stands_for ?buf tp' (M ++ map_of (it # items))" by (simp only: eq)
  show ?case by (rule exI [of _ tp'], rule conjI [OF _ st2]) (use run in simp)
qed

lemma encode_tags_spec:
  assumes "msgb_ok m" and "stands_for src tp M" and "\<forall>t v. M t = Some v \<longrightarrow> encodable (def t) t v"
    and "items = map (\<lambda>t. (t, the (M t))) (filter (\<lambda>t. M t \<noteq> None) tags)" and "int (length (wire def items)) \<le> msgb_tailroom m"
  shows "\<exists>m'. encode_tags m def src tp tags = Ok m' \<and> msgb_ok m' \<and> contents m' = contents m @ wire def items \<and>
     msgb_tailroom m' = msgb_tailroom m - int (length (wire def items))"
  using assms
proof (induction tags arbitrary: m items)
  case (Cons t tags)
  show ?case
  proof (cases "M t")
    case None
    with Cons.prems(2) have "eval (tp t) = None" by (auto simp: stands_for_def)
    with None Cons show ?thesis by simp
  next
    case (Some v)
    with Cons.prems(2) obtain p where p: "eval (tp t) = Some p" "elen (tp t) = length v" "take (length v) (drop p src) = v"
      unfolding stands_for_def by blast
    let ?items = "map (\<lambda>t. (t, the (M t))) (filter (\<lambda>t. M t \<noteq> None) tags)" and ?o = "ie_octets (type (def t)) t v"
    have it: "items = (t, v) # ?items" using Cons.prems(4) Some by simp
    have s: "drop p src = v @ drop (length v) (drop p src)" using p(3) by (metis append_take_drop_id)
    have "int (length ?o) \<le> msgb_tailroom m" using Cons.prems(5) it by simp
    with Cons.prems(3) Some obtain m1 where m1: "tlv_encode_one m (type (def t)) t (length v) (drop p src) = Ok m1" "msgb_ok m1"
      "contents m1 = contents m @ ?o" "msgb_tailroom m1 = msgb_tailroom m - int (length ?o)"
      using encode_one_spec [OF Cons.prems(1), of "def t" t v "drop (length v) (drop p src)"] s by (metis (no_types, lifting))
    have "int (length (wire def ?items)) \<le> msgb_tailroom m1" using Cons.prems(5) it m1(4) by simp
    from Cons.IH [OF m1(2) Cons.prems(2,3) refl this] m1 p it show ?thesis by auto
  qed
qed simp

section \<open>Claims\<close>

text \<open>C4: The TLV parser, on a buffer of \<open>buf_len\<close> octets or more, with or without initial LV elements. \<open>tlv_parse2\<close> ends; it stays inside the
  buffer except in exactly two cases, in which it reads one octet behind its end: an initial LV is asked for and the buffer is empty, or two
  are asked for and the first fills the buffer, because the length octet is read before it is known to be there. When that
  octet exists, its value does not matter: the parser then returns \<open>OSMO_TLVP_ERR_OFS_LEN_BEYOND_BUFFER\<close>. A successful
  parse reports at most \<open>buf_len\<close> elements in the given number of results, and each value it stores lies
  inside the first \<open>buf_len\<close> octets.\<close>

theorem tlv_parse2_safe:
  assumes "buf_len \<le> int (length buf)" and "0 \<le> buf_len"
  shows "(tlv_parse2 mult def buf buf_len lv_tag lv_tag2 = None \<longleftrightarrow> buf_len = int (length buf) \<and> lv_reads_behind buf lv_tag lv_tag2)
    \<and> (buf_len < int (length buf) \<and> lv_reads_behind (take (nat buf_len) buf) lv_tag lv_tag2 \<longrightarrow>
         tlv_parse2 mult def buf buf_len lv_tag lv_tag2 = Some (Inl OSMO_TLVP_ERR_OFS_LEN_BEYOND_BUFFER))
    \<and> (\<forall>n dec. tlv_parse2 mult def buf buf_len lv_tag lv_tag2 = Some (Inr (n, dec)) \<longrightarrow> int n \<le> buf_len \<and> length dec = mult \<and>
         (\<forall>tp \<in> set dec. \<forall>t v. eval (tp t) = Some v \<longrightarrow> int (v + elen (tp t)) \<le> buf_len))"
proof (intro conjI allI impI)
  let ?dec = "replicate mult (\<lambda>_ :: u8. empty_entry)"
  have i0: "all_inside buf_len ?dec" by (auto simp: all_inside_def entry_inside_def empty_entry_def)
  define k where "k = unat (buf ! 0)"
  have l: "int (k + 1) \<le> buf_len \<Longrightarrow> all_inside buf_len (store_lv lv_tag (k) 1 ?dec)"
    using i0 by (intro store_lv_inside) simp_all
  note rest = parse2_rest [OF assms _ _ i0, of 0 0 lv_tag2 def] parse2_rest [OF assms _ _ l, of 1 "k + 1" lv_tag2 def]
  have p: "parse_lv buf buf_len lv_tag (0, 0, ?dec) = (if lv_tag = 0 then Some (Inr (0, 0, ?dec)) else if buf = [] then None
      else if int (k + 1) > buf_len then Some (Inl OSMO_TLVP_ERR_OFS_LEN_BEYOND_BUFFER)
      else Some (Inr (k + 1, 1, store_lv lv_tag (k) 1 ?dec)))"
    using assms by (auto simp: parse_lv_def rd_def Let_def k_def)
  show "tlv_parse2 mult def buf buf_len lv_tag lv_tag2 = None \<longleftrightarrow> buf_len = int (length buf) \<and> lv_reads_behind buf lv_tag lv_tag2"
    using assms rest(1,3) unfolding tlv_parse2_def p lv_reads_behind_def k_def [symmetric] by (cases "lv_tag = 0"; cases "buf = []"; auto)
  show "tlv_parse2 mult def buf buf_len lv_tag lv_tag2 = Some (Inl OSMO_TLVP_ERR_OFS_LEN_BEYOND_BUFFER)"
    if "buf_len < int (length buf) \<and> lv_reads_behind (take (nat buf_len) buf) lv_tag lv_tag2"
  proof -
    have "buf_len = 0 \<and> (lv_tag \<noteq> 0 \<or> lv_tag2 \<noteq> 0) \<or> lv_tag \<noteq> 0 \<and> lv_tag2 \<noteq> 0 \<and> buf_len = int (k + 1)"
    proof (cases "buf_len = 0")
      case False
      then have "take (nat buf_len) buf ! 0 = buf ! 0" "length (take (nat buf_len) buf) = nat buf_len" using that assms(2) by auto
      then have "lv_tag \<noteq> 0 \<and> lv_tag2 \<noteq> 0 \<and> nat buf_len = k + 1" using that False assms(2) by (auto simp: lv_reads_behind_def k_def)
      then show ?thesis using assms(2) by linarith
    qed (use that in \<open>auto simp: lv_reads_behind_def\<close>)
    moreover have "buf \<noteq> []" "nat buf_len < length buf" using that assms(2) by auto
    ultimately show ?thesis
      using that assms(2) parse_lv_at_end [of lv_tag2 0 buf_len buf 0 ?dec] parse_lv_at_end [of lv_tag2 "k + 1" buf_len buf 1 "store_lv lv_tag k 1 ?dec"]
      unfolding tlv_parse2_def p by (cases "lv_tag = 0") (auto simp del: of_nat_add of_nat_Suc)
  qed
  show "int n \<le> buf_len" "length dec = mult"
    and "\<forall>tp \<in> set dec. \<forall>t v. eval (tp t) = Some v \<longrightarrow> int (v + elen (tp t)) \<le> buf_len"
    if "tlv_parse2 mult def buf buf_len lv_tag lv_tag2 = Some (Inr (n, dec))" for n dec
    using that assms rest(2,4) [of n dec] unfolding tlv_parse2_def p by (auto simp: all_inside_def entry_inside_def split: if_splits)
qed

definition demo_def :: tlv_definition where
  "demo_def = (\<lambda>_. \<lparr>type = TLV_TYPE_NONE, fixed_len = 0\<rparr>)
     (0x11 := \<lparr>type = TLV_TYPE_TLV, fixed_len = 0\<rparr>, 0x22 := \<lparr>type = TLV_TYPE_TvLV, fixed_len = 0\<rparr>)"

theorem tlv_parse2_safe_witness:
  "tlv_parse2 2 demo_def [0x11, 1, 7] 3 0 0 \<noteq> None
    \<and> tlv_parse2 2 demo_def [] 0 1 0 = None \<and> tlv_parse2 2 demo_def [0] 1 1 2 = None
    \<and> tlv_parse2 2 demo_def [0, 5] 1 1 2 = Some (Inl OSMO_TLVP_ERR_OFS_LEN_BEYOND_BUFFER) \<and> tlv_parse2 2 demo_def [0, 0] 2 1 2 \<noteq> None"
  using tlv_parse2_safe [of 3 "[0x11, 1, 7]" 2 demo_def 0 0] tlv_parse2_safe [of 0 "[]" 2 demo_def 1 0] tlv_parse2_safe [of 1 "[0]" 2 demo_def 1 2]
    tlv_parse2_safe [of 1 "[0, 5]" 2 demo_def 1 2] tlv_parse2_safe [of 2 "[0, 0]" 2 demo_def 1 2]
  by (simp add: lv_reads_behind_def)

text \<open>C5: Encoding and parsing a message. Let \<open>tp\<close> stand for the elements \<open>M\<close>, each with a length its
  type can carry and a tag that no half-octet element of the definition covers. When the octets fit,
  \<open>tlv_encode\<close> appends them to the message, returns their number, and \<open>tlv_parse\<close> on them finds exactly
  the elements \<open>M\<close> again.\<close>

theorem tlv_encode_parse:
  assumes "msgb_ok m" and "contents m = []" and "stands_for src tp M" and "\<forall>t v. M t = Some v \<longrightarrow> good_ie def t v"
    and "items = map (\<lambda>t. (t, the (M t))) (filter (\<lambda>t. M t \<noteq> None) all_tags)" and "int (length (wire def items)) \<le> msgb_tailroom m"
  shows "\<exists>m' tp'. tlv_encode m def src tp = Ok (m', int (length (wire def items))) \<and> msgb_ok m' \<and> contents m' = wire def items \<and>
     tlv_parse def (contents m') (int (length (contents m'))) 0 0 = Some (Inr (length items, [tp'])) \<and>
     stands_for (contents m') tp' M"
proof -
  have "\<forall>t v. M t = Some v \<longrightarrow> encodable (def t) t v" using assms(4) by (auto simp: good_ie_def)
  from encode_tags_spec [OF assms(1,3) this assms(5,6)] assms(2) obtain m' where
    m': "encode_tags m def src tp all_tags = Ok m'" "msgb_ok m'" "contents m' = wire def items"
      "msgb_tailroom m' = msgb_tailroom m - int (length (wire def items))" by auto
  have fst: "map fst items = filter (\<lambda>t. M t \<noteq> None) all_tags" by (simp add: assms(5) comp_def)
  have tags: "distinct all_tags" "set all_tags = UNIV"
    using all_octets [of "\<lambda>t. t \<in> set octets"] by (auto simp: all_tags_def octets_eq [symmetric] octets_distinct list_all_iff)
  have "map_of items = M"
  proof
    fix t
    show "map_of items t = M t"
    proof (cases "M t")
      case None
      then have "t \<notin> fst ` set items" by (auto simp: assms(5))
      with None show ?thesis by (simp add: map_of_eq_None_iff)
    next
      case (Some v)
      then have "(t, v) \<in> set items" using tags(2) by (auto simp: assms(5) image_iff)
      moreover have "distinct (map fst items)" using fst tags(1) by simp
      ultimately show ?thesis using Some by simp
    qed
  qed
  moreover have "\<forall>(t, v) \<in> set items. good_ie def t v" using assms(4) by (auto simp: assms(5))
  moreover have "stands_for ([] @ wire def items) (\<lambda>_. empty_entry) Map.empty" by (simp add: stands_for_def empty_entry_def)
  ultimately obtain tp' where "parse_loop def (wire def items) (int (length (wire def items))) 0 0 [\<lambda>_. empty_entry] =
      Some (Inr (length items, [tp']))" "stands_for (wire def items) tp' M"
    using parse_items [of items def Map.empty "[]" "\<lambda>_. empty_entry" 0] fst tags(1) by auto
  with m' show ?thesis by (simp add: tlv_encode_def tlv_parse_def tlv_parse2_def parse_lv_def)
qed

lemma demo_items:
  "filter (\<lambda>t. ([0x11 \<mapsto> [7], 0x22 \<mapsto> [1, 2]] :: u8 \<rightharpoonup> u8 list) t \<noteq> None) all_tags = [0x11, 0x22]"
  unfolding all_tags_def octets_eq [symmetric] octets_def by simp

theorem tlv_encode_parse_witness:
  "\<exists>m tp m' tp'. msgb_alloc_c True 8 = Some m \<and> stands_for [7, 1, 2] tp [0x11 \<mapsto> [7], 0x22 \<mapsto> [1, 2]] \<and>
     tlv_encode m demo_def [7, 1, 2] tp = Ok (m', 7) \<and> contents m' = [0x11, 1, 7, 0x22, 0x82, 1, 2] \<and>
     tlv_parse demo_def (contents m') 7 0 0 = Some (Inr (2, [tp'])) \<and>
     stands_for (contents m') tp' [0x11 \<mapsto> [7], 0x22 \<mapsto> [1, 2]]"
proof -
  let ?M = "[0x11 \<mapsto> [7], 0x22 \<mapsto> [1, 2]] :: u8 \<rightharpoonup> u8 list"
  let ?tp = "(\<lambda>_. empty_entry)(0x11 := \<lparr>elen = 1, eval = Some 0\<rparr>, 0x22 := \<lparr>elen = 2, eval = Some 1\<rparr>) :: tlv_parsed"
  obtain m where m: "msgb_alloc_c True 8 = Some m" "msgb_ok m" "contents m = []" "msgb_tailroom m = 8"
    by (simp add: msgb_alloc_c_def msgb_ok_def msgb_test_invariant_def check_layer_def contents_def msgb_tailroom_def)
  have st: "stands_for [7, 1, 2] ?tp ?M" by (auto simp: stands_for_def empty_entry_def)
  have g: "\<forall>t v. ?M t = Some v \<longrightarrow> good_ie demo_def t v" by (auto simp: good_ie_def demo_def_def)
  let ?items = "[(0x11, [7]), (0x22, [1, 2])] :: (u8 \<times> u8 list) list"
  have it: "?items = map (\<lambda>t. (t, the (?M t))) (filter (\<lambda>t. ?M t \<noteq> None) all_tags)" unfolding demo_items by simp
  have w: "wire demo_def ?items = [0x11, 1, 7, 0x22, 0x82, 1, 2]" by (simp add: demo_def_def)
  have r: "int (length (wire demo_def ?items)) \<le> msgb_tailroom m" unfolding w m(4) by simp
  obtain m' tp' where * : "tlv_encode m demo_def [7, 1, 2] ?tp = Ok (m', int (length (wire demo_def ?items)))" "contents m' = wire demo_def ?items"
     "tlv_parse demo_def (contents m') (int (length (contents m'))) 0 0 = Some (Inr (length ?items, [tp']))"
     "stands_for (contents m') tp' ?M"
    using tlv_encode_parse [OF m(2,3) st g it r] by blast
  then have "tlv_encode m demo_def [7, 1, 2] ?tp = Ok (m', 7)" "contents m' = [0x11, 1, 7, 0x22, 0x82, 1, 2]"
    "tlv_parse demo_def (contents m') 7 0 0 = Some (Inr (2, [tp']))" unfolding w by (simp_all add: numeral_2_eq_2)
  with m(1) st *(4) show ?thesis
    by (intro exI [of _ m] exI [of _ ?tp] exI [of _ m'] exI [of _ tp'] conjI)
qed

lemma tlv_shape: "(\<exists>t v rest. length v < 256 \<and> d = t # word_of_nat (length v) # v @ rest) \<longleftrightarrow> (\<exists>t l r. d = t # l # r \<and> unat (l :: u8) \<le> length r)"
proof
  assume "\<exists>t l r. d = t # l # r \<and> unat l \<le> length r"
  then obtain t l r where d: "d = t # l # r" "unat l \<le> length r" by blast
  moreover have "unat l < 256" using unsigned_less [of l, where 'a = nat] by simp
  ultimately have "length (take (unat l) r) < 256 \<and> d = t # word_of_nat (length (take (unat l) r)) # take (unat l) r @ drop (unat l) r"
    by (simp add: min_def)
  then show "\<exists>t v rest. length v < 256 \<and> d = t # word_of_nat (length v) # v @ rest" by blast
qed (auto simp: unat_of_nat take_bit_eq_mod)

lemma lv_shape: "(\<exists>v rest. length v < 256 \<and> d = word_of_nat (length v) # v @ rest) \<longleftrightarrow> (\<exists>l r. d = l # r \<and> unat (l :: u8) \<le> length r)"
  using tlv_shape [of "undefined # d"] by auto

lemma shift_tlv_fails:
  assumes "\<nexists>t v rest. length v < 256 \<and> d = t # word_of_nat (length v) # v @ rest"
  shows "osmo_shift_tlv (pre @ d @ post) (length pre) (length d) = Some (shift_fail (length pre) (length d))"
proof (cases "length d < 2")
  case False
  then obtain t l r where d: "d = t # l # r" by (cases d; cases "tl d") auto
  then have "\<not> unat l \<le> length r" using assms unfolding tlv_shape by blast
  then show ?thesis using d by (simp add: osmo_shift_tlv_def rd_def nth_append)
qed (simp add: osmo_shift_tlv_def)

lemma shift_lv_fails:
  assumes "\<nexists>v rest. length v < 256 \<and> d = word_of_nat (length v) # v @ rest"
  shows "osmo_shift_lv (pre @ d @ post) (length pre) (length d) = Some (shift_fail (length pre) (length d))"
proof (cases d)
  case (Cons l r)
  then have "\<not> unat l \<le> length r" using assms unfolding lv_shape by blast
  then show ?thesis using Cons by (simp add: osmo_shift_lv_def rd_def)
qed (simp add: osmo_shift_lv_def)

lemma shift_succeeds:
  "length v < 256 \<Longrightarrow> osmo_shift_tlv (pre @ t # word_of_nat (length v) # v @ rest @ post) (length pre) (length v + length rest + 2) =
     Some \<lparr>rc = int (length v) + 2, dat = length pre + (length v + 2), dat_len = length rest, value = Some (t, length pre + 2, length v)\<rparr>"
  "length v < 256 \<Longrightarrow> osmo_shift_lv (pre @ word_of_nat (length v) # v @ rest @ post) (length pre) (length v + length rest + 1) =
     Some \<lparr>rc = int (length v) + 1, dat = length pre + (length v + 1), dat_len = length rest, value = Some (length pre + 1, length v)\<rparr>"
  by (simp_all add: osmo_shift_tlv_def osmo_shift_lv_def buffer_at unat_of_nat take_bit_eq_mod)

lemma match_tv_cases:
  "osmo_match_shift_tv_fixed (pre @ d @ post) (length pre) (length d) tag k =
      Some (if d \<noteq> [] \<and> hd d \<noteq> tag then \<lparr>rc = 0, dat = length pre, dat_len = length d, value = None\<rparr>
            else if length d < k + 1 then \<lparr>rc = -1, dat = length (pre @ d), dat_len = 0, value = None\<rparr>
            else \<lparr>rc = int k + 1, dat = length pre + (k + 1), dat_len = length d - (k + 1), value = Some (length pre + 1)\<rparr>)"
  by (cases d) (auto simp: osmo_match_shift_tv_fixed_def shift_fail_def buffer_at)

lemma put_at:
  "length old = length v + 2 \<Longrightarrow> tlv_put (pre @ old @ post) (length pre) tag (length v) (Some v) =
     Some (pre @ (tag # word_of_nat (length v) # v) @ post, length pre + (length v + 2))"
  "length old' = length v + 1 \<Longrightarrow> lv_put (pre @ old' @ post) (length pre) (length v) v = Some (pre @ (word_of_nat (length v) # v) @ post, length pre + (length v + 1))"
  "length old' = length v + 1 \<Longrightarrow> tv_fixed_put (pre @ old' @ post) (length pre) tag (length v) v = Some (pre @ (tag # v) @ post, length pre + (length v + 1))"
  by (auto simp: tlv_put_def lv_put_def tv_fixed_put_def buffer_at length_Suc_conv)



text \<open>C32: Validation against a protocol definition. The result is success exactly when every mandatory element of
  the message type is present and every present element has its minimum length; a missing mandatory
  element is reported in preference to a short one.\<close>

theorem prot_validate_spec:
  "osmo_tlv_prot_validate_tp pdef msg_type tp =
     (if \<exists>ies iei. mand_ies (msg_def pdef msg_type) = Some ies \<and> iei \<in> set ies \<and> \<not> TLVP_PRESENT tp iei
      then Some OSMO_TLVP_ERR_MAND_IE_MISSING
      else if \<exists>t. TLVP_PRESENT tp t \<and> elen (tp t) < ie_min_len pdef t then Some OSMO_TLVP_ERR_IE_TOO_SHORT
      else None)"
proof -
  have fold: "fold (\<lambda>i err. if P i then first_err e err else err) is err = (if \<exists>i \<in> set is. P i then first_err e err else err)"
    for P e err and "is" :: "u8 list"
    by (induction "is" arbitrary: err) (auto simp: first_err_def split: option.splits)
  have tags: "set all_tags = UNIV"
    using all_octets [of "\<lambda>t. t \<in> set octets"] by (auto simp: all_tags_def octets_eq [symmetric] list_all_iff)
  show ?thesis
    unfolding osmo_tlv_prot_validate_tp_def Let_def fold tags
    by (auto simp: fold first_err_def split: option.splits)
qed

text \<open>Copying parse results. \<open>osmo_tlvp_copy\<close> gives a result with the lengths of the original but no value at
  all, since it looks for the value in the fresh copy; \<open>osmo_tlvp_merge\<close> copies the octets of every
  non-empty element of the source but never stores their length, so that an element already present
  before ends with length 0. \<open>tlv_def_patch\<close> fills exactly the empty slots.\<close>

theorem tlvp_copy_merge_actual:
  "(\<forall>t. osmo_tlvp_copy (Some tp) t = (fst (tp t), None)) \<and>
   (\<forall>t v n. src t = (Suc n, Some v) \<longrightarrow> snd (osmo_tlvp_merge tp src t) = Some (take (Suc n) v) \<and>
      fst (osmo_tlvp_merge tp src t) = (if snd (tp t) \<noteq> None then 0 else fst (tp t))) \<and>
   (\<forall>t. tlv_def_patch d1 d2 t = (if type (d1 t) = TLV_TYPE_NONE \<and> type (d2 t) \<noteq> TLV_TYPE_NONE then d2 t else d1 t))"
  by (auto simp: osmo_tlvp_copy_def osmo_tlvp_merge_def tlv_def_patch_def Let_def)

theorem tlvp_copy_merge_actual_witness:
  "osmo_tlvp_copy (Some (\<lambda>_. (2, Some [1, 2]))) 5 = (2, None) \<and>
   fst (osmo_tlvp_merge (\<lambda>_. (1, Some [9])) (\<lambda>_. (Suc 1, Some [1, 2])) 5) = 0"
  using tlvp_copy_merge_actual [of "\<lambda>_. (2, Some [1, 2])" "\<lambda>_. (Suc 1, Some [1, 2])"]
    tlvp_copy_merge_actual [of "\<lambda>_. (1, Some [9])" "\<lambda>_. (Suc 1, Some [1, 2])"] by simp

end
