(* ===== verification/Interleaving.thy ===== *)
theory Interleaving
  imports Prelude
begin

text \<open>
  Interleaving of the coding library: \<open>src/coding/gsm0503_interleaving.c\<close> with its two
  tables from \<open>gsm0503_tables.c\<close>.

  Bits are elements of an arbitrary type, since the same routines serve unpacked and soft bits. Every
  routine is a sequence of loops that copy element \<open>s k\<close> of one array to element \<open>d k\<close> of another
  (\<open>move_loop\<close>); output arrays are arguments, and an output pointer that may be \<open>NULL\<close> is an option.
  The uninitialised local arrays of the source start out as zeros here; all their elements
  are written before they are read.

  Shown, in the locale \<open>interleaver\<close> and its interpretations: the position formulas are injective and in
  bounds, so de-interleaving an interleaved block gives it back.
\<close>

subsection \<open>Copy loops\<close>

definition move_loop :: "nat \<Rightarrow> nat \<Rightarrow> (nat \<Rightarrow> nat) \<Rightarrow> (nat \<Rightarrow> nat) \<Rightarrow> 'a list \<Rightarrow> 'a list \<Rightarrow> 'a list res" where
  "move_loop lo hi s d src dst = for_loop lo hi (\<lambda>k dst. do { v \<leftarrow> rd src (s k); wr dst (d k) v }) dst"

abbreviation scatter :: "(nat \<Rightarrow> nat) \<Rightarrow> nat \<Rightarrow> 'a list \<Rightarrow> 'a list \<Rightarrow> 'a list res" where
  "scatter pos n \<equiv> move_loop 0 n (\<lambda>k. k) pos"

abbreviation gather :: "(nat \<Rightarrow> nat) \<Rightarrow> nat \<Rightarrow> 'a list \<Rightarrow> 'a list \<Rightarrow> 'a list res" where
  "gather pos n \<equiv> move_loop 0 n pos (\<lambda>k. k)"

text \<open>An output that may be \<open>NULL\<close>.\<close>

definition opt_out :: "('a list \<Rightarrow> 'a list res) \<Rightarrow> 'a list option \<Rightarrow> 'a list option res" where
  "opt_out f out = (case out of None \<Rightarrow> Some None | Some b \<Rightarrow> do { b \<leftarrow> f b; Some (Some b) })"

subsection \<open>Control channels\<close>

definition xcch_pos :: "nat \<Rightarrow> nat" where
  "xcch_pos k = (k mod 4) * 114 + (2 * ((49 * k) mod 57) + (k mod 8) div 4)"

definition gsm0503_xcch_deinterleave :: "'a list \<Rightarrow> 'a list \<Rightarrow> 'a list res" where
  "gsm0503_xcch_deinterleave cB iB = gather xcch_pos 456 iB cB"

definition gsm0503_xcch_interleave :: "'a list \<Rightarrow> 'a list \<Rightarrow> 'a list res" where
  "gsm0503_xcch_interleave cB iB = scatter xcch_pos 456 cB iB"

subsection \<open>MCS-1\<close>

text \<open>The five ranges around the stealing bits 25, 82, 139 and 424.\<close>

definition mcs1_drop :: "'a list \<Rightarrow> 'a list \<Rightarrow> 'a list res" where
  "mcs1_drop cp c = do {
     c \<leftarrow> move_loop 0 25 (\<lambda>k. k) (\<lambda>k. k) cp c;
     c \<leftarrow> move_loop 26 82 (\<lambda>k. k) (\<lambda>k. k - 1) cp c;
     c \<leftarrow> move_loop 83 139 (\<lambda>k. k) (\<lambda>k. k - 2) cp c;
     c \<leftarrow> move_loop 140 424 (\<lambda>k. k) (\<lambda>k. k - 3) cp c;
     move_loop 425 456 (\<lambda>k. k) (\<lambda>k. k - 4) cp c }"

definition mcs1_insert :: "'a::zero list \<Rightarrow> 'a list \<Rightarrow> 'a list res" where
  "mcs1_insert c cp = do {
     cp \<leftarrow> move_loop 0 25 (\<lambda>k. k) (\<lambda>k. k) c cp;
     cp \<leftarrow> move_loop 26 82 (\<lambda>k. k - 1) (\<lambda>k. k) c cp;
     cp \<leftarrow> move_loop 83 139 (\<lambda>k. k - 2) (\<lambda>k. k) c cp;
     cp \<leftarrow> move_loop 140 424 (\<lambda>k. k - 3) (\<lambda>k. k) c cp;
     cp \<leftarrow> move_loop 425 456 (\<lambda>k. k - 4) (\<lambda>k. k) c cp;
     cp \<leftarrow> wr cp 25 0;
     cp \<leftarrow> wr cp 82 0;
     cp \<leftarrow> wr cp 139 0;
     wr cp 424 0 }"

definition gsm0503_mcs1_dl_deinterleave ::
  "'a::zero list option \<Rightarrow> 'a list option \<Rightarrow> 'a list option \<Rightarrow> 'a list \<Rightarrow> ('a list option \<times> 'a list option \<times> 'a list option) res" where
  "gsm0503_mcs1_dl_deinterleave u hc dc iB = do {
     cp \<leftarrow> gsm0503_xcch_deinterleave (replicate 456 0) iB;
     c \<leftarrow> mcs1_drop cp (replicate 452 0);
     u \<leftarrow> opt_out (move_loop 0 12 (\<lambda>k. k) (\<lambda>k. k) c) u;
     hc \<leftarrow> opt_out (move_loop 12 80 (\<lambda>k. k) (\<lambda>k. k - 12) c) hc;
     dc \<leftarrow> opt_out (move_loop 80 452 (\<lambda>k. k) (\<lambda>k. k - 80) c) dc;
     Some (u, hc, dc) }"

definition gsm0503_mcs1_dl_interleave :: "'a::zero list \<Rightarrow> 'a list \<Rightarrow> 'a list \<Rightarrow> 'a list \<Rightarrow> 'a list res" where
  "gsm0503_mcs1_dl_interleave up hc dc iB = do {
     c \<leftarrow> move_loop 0 12 (\<lambda>k. k) (\<lambda>k. k) up (replicate 452 0);
     c \<leftarrow> move_loop 12 80 (\<lambda>k. k - 12) (\<lambda>k. k) hc c;
     c \<leftarrow> move_loop 80 452 (\<lambda>k. k - 80) (\<lambda>k. k) dc c;
     cp \<leftarrow> mcs1_insert c (replicate 456 0);
     gsm0503_xcch_interleave cp iB }"

definition gsm0503_mcs1_ul_deinterleave ::
  "'a::zero list option \<Rightarrow> 'a list option \<Rightarrow> 'a list \<Rightarrow> ('a list option \<times> 'a list option) res" where
  "gsm0503_mcs1_ul_deinterleave hc dc iB = do {
     cp \<leftarrow> gsm0503_xcch_deinterleave (replicate 456 0) iB;
     c \<leftarrow> mcs1_drop cp (replicate 452 0);
     hc \<leftarrow> opt_out (move_loop 0 80 (\<lambda>k. k) (\<lambda>k. k) c) hc;
     dc \<leftarrow> opt_out (move_loop 80 452 (\<lambda>k. k) (\<lambda>k. k - 80) c) dc;
     Some (hc, dc) }"

definition gsm0503_mcs1_ul_interleave :: "'a::zero list \<Rightarrow> 'a list \<Rightarrow> 'a list \<Rightarrow> 'a list res" where
  "gsm0503_mcs1_ul_interleave hc dc iB = do {
     c \<leftarrow> move_loop 0 80 (\<lambda>k. k) (\<lambda>k. k) hc (replicate 452 0);
     c \<leftarrow> move_loop 80 452 (\<lambda>k. k - 80) (\<lambda>k. k) dc c;
     cp \<leftarrow> mcs1_insert c (replicate 456 0);
     gsm0503_xcch_interleave cp iB }"

subsection \<open>MCS-5\<close>

text \<open>The table of 1248 positions, in rows of 104.\<close>

definition mcs5_row0 :: "nat list" where
  "mcs5_row0 = [0, 463, 890, 1038, 220, 371, 795, 946, 582, 733, 1160, 63, 490, 641, 277, 428, 852, 1003, 185, 333, 1223, 120, 547, 698, 1122, 28,
    915, 1066, 242, 390, 817, 968, 610, 761, 1185, 85, 512, 660, 305, 453, 880, 1031, 204, 355, 782, 1242, 148, 575, 723, 1150, 50, 474,
    625, 1088, 267, 418, 845, 993, 169, 320, 1207, 113, 537, 688, 1115, 12, 902, 1050, 232, 383, 807, 958, 594, 745, 1172, 75, 502, 653,
    289, 440, 864, 1015, 197, 345, 1235, 132, 559, 710, 1134, 40, 927, 1078, 254, 402, 829, 980, 159, 622, 773, 1197, 97, 524, 672, 1099]"

definition mcs5_row1 :: "nat list" where
  "mcs5_row1 = [5, 465, 892, 1043, 216, 367, 794, 942, 587, 735, 1162, 62, 486, 637, 279, 430, 857, 1005, 181, 332, 1219, 125, 549, 700, 1127, 24,
    914, 1062, 244, 395, 819, 970, 606, 757, 1184, 87, 514, 665, 301, 452, 876, 1027, 209, 357, 784, 1247, 144, 571, 722, 1146, 52, 479,
    627, 1090, 266, 414, 841, 992, 171, 322, 1209, 109, 536, 684, 1111, 17, 904, 1055, 228, 379, 806, 954, 599, 747, 1174, 74, 498, 649,
    291, 442, 869, 1017, 193, 344, 1231, 137, 561, 712, 1139, 36, 926, 1074, 256, 407, 831, 982, 158, 618, 769, 1196, 99, 526, 677, 1101]"

definition mcs5_row2 :: "nat list" where
  "mcs5_row2 = [7, 458, 894, 1033, 227, 363, 802, 941, 577, 740, 1152, 70, 485, 645, 284, 420, 859, 998, 189, 328, 1215, 127, 542, 702, 1117, 35,
    922, 1061, 246, 385, 824, 960, 605, 765, 1180, 92, 504, 667, 309, 448, 887, 1023, 211, 350, 786, 1237, 155, 567, 730, 1145, 54, 469,
    632, 1080, 274, 413, 849, 988, 176, 312, 1202, 117, 532, 695, 1107, 19, 906, 1045, 239, 375, 814, 953, 589, 752, 1164, 82, 497, 657,
    296, 432, 871, 1010, 201, 340, 1227, 139, 554, 714, 1129, 47, 934, 1073, 258, 397, 836, 972, 166, 617, 777, 1192, 104, 516, 679, 1094]"

definition mcs5_row3 :: "nat list" where
  "mcs5_row3 = [9, 460, 899, 1035, 223, 362, 798, 937, 579, 742, 1157, 66, 481, 644, 286, 425, 861, 1000, 188, 324, 1214, 129, 544, 707, 1119, 31,
    918, 1057, 251, 387, 826, 965, 601, 764, 1176, 94, 509, 669, 308, 444, 883, 1022, 213, 352, 791, 1239, 151, 566, 726, 1141, 59, 471,
    634, 1085, 270, 409, 848, 984, 178, 317, 1204, 116, 528, 691, 1106, 21, 911, 1047, 235, 374, 810, 949, 591, 754, 1169, 78, 493, 656,
    298, 437, 873, 1012, 200, 336, 1226, 141, 556, 719, 1131, 43, 930, 1069, 263, 399, 838, 977, 162, 613, 776, 1188, 106, 521, 681, 1096]"

definition mcs5_row4 :: "nat list" where
  "mcs5_row4 = [2, 462, 889, 1040, 219, 370, 797, 945, 584, 732, 1159, 65, 489, 640, 276, 427, 854, 1002, 184, 335, 1222, 122, 546, 697, 1124, 27,
    917, 1065, 241, 392, 816, 967, 609, 760, 1187, 84, 511, 662, 304, 455, 879, 1030, 206, 354, 781, 1244, 147, 574, 725, 1149, 49, 476,
    624, 1087, 269, 417, 844, 995, 168, 319, 1206, 112, 539, 687, 1114, 14, 901, 1052, 231, 382, 809, 957, 596, 744, 1171, 77, 501, 652,
    288, 439, 866, 1014, 196, 347, 1234, 134, 558, 709, 1136, 39, 929, 1077, 253, 404, 828, 979, 161, 621, 772, 1199, 96, 523, 674, 1098]"

definition mcs5_row5 :: "nat list" where
  "mcs5_row5 = [4, 467, 891, 1042, 218, 366, 793, 944, 586, 737, 1161, 61, 488, 636, 281, 429, 856, 1007, 180, 331, 1218, 124, 551, 699, 1126, 26,
    913, 1064, 243, 394, 821, 969, 608, 756, 1183, 89, 513, 664, 300, 451, 878, 1026, 208, 359, 783, 1246, 146, 570, 721, 1148, 51, 478,
    629, 1089, 265, 416, 840, 991, 173, 321, 1211, 108, 535, 686, 1110, 16, 903, 1054, 230, 378, 805, 956, 598, 749, 1173, 73, 500, 648,
    293, 441, 868, 1019, 192, 343, 1230, 136, 563, 711, 1138, 38, 925, 1076, 255, 406, 833, 981, 157, 620, 768, 1195, 101, 525, 676, 1103]"

definition mcs5_row6 :: "nat list" where
  "mcs5_row6 = [6, 457, 896, 1032, 226, 365, 801, 940, 576, 739, 1154, 69, 484, 647, 283, 422, 858, 997, 191, 327, 1217, 126, 541, 704, 1116, 34,
    921, 1060, 248, 384, 823, 962, 604, 767, 1179, 91, 506, 666, 311, 447, 886, 1025, 210, 349, 788, 1236, 154, 569, 729, 1144, 56, 468,
    631, 1082, 273, 412, 851, 987, 175, 314, 1201, 119, 531, 694, 1109, 18, 908, 1044, 238, 377, 813, 952, 588, 751, 1166, 81, 496, 659,
    295, 434, 870, 1009, 203, 339, 1229, 138, 553, 716, 1128, 46, 933, 1072, 260, 396, 835, 974, 165, 616, 779, 1191, 103, 518, 678, 1093]"

definition mcs5_row7 :: "nat list" where
  "mcs5_row7 = [11, 459, 898, 1037, 222, 361, 800, 936, 581, 741, 1156, 68, 480, 643, 285, 424, 863, 999, 187, 326, 1213, 131, 543, 706, 1121, 30,
    920, 1056, 250, 389, 825, 964, 600, 763, 1178, 93, 508, 671, 307, 446, 882, 1021, 215, 351, 790, 1241, 150, 565, 728, 1140, 58, 473,
    633, 1084, 272, 408, 847, 986, 177, 316, 1203, 115, 530, 690, 1105, 23, 910, 1049, 234, 373, 812, 948, 593, 753, 1168, 80, 492, 655,
    297, 436, 875, 1011, 199, 338, 1225, 143, 555, 718, 1133, 42, 932, 1068, 262, 401, 837, 976, 164, 612, 775, 1190, 105, 520, 683, 1095]"

definition mcs5_row8 :: "nat list" where
  "mcs5_row8 = [1, 464, 888, 1039, 221, 369, 796, 947, 583, 734, 1158, 64, 491, 639, 278, 426, 853, 1004, 183, 334, 1221, 121, 548, 696, 1123, 29,
    916, 1067, 240, 391, 818, 966, 611, 759, 1186, 86, 510, 661, 303, 454, 881, 1029, 205, 356, 780, 1243, 149, 573, 724, 1151, 48, 475,
    626, 1086, 268, 419, 843, 994, 170, 318, 1208, 111, 538, 689, 1113, 13, 900, 1051, 233, 381, 808, 959, 595, 746, 1170, 76, 503, 651,
    290, 438, 865, 1016, 195, 346, 1233, 133, 560, 708, 1135, 41, 928, 1079, 252, 403, 830, 978, 160, 623, 771, 1198, 98, 522, 673, 1100]"

definition mcs5_row9 :: "nat list" where
  "mcs5_row9 = [3, 466, 893, 1041, 217, 368, 792, 943, 585, 736, 1163, 60, 487, 638, 280, 431, 855, 1006, 182, 330, 1220, 123, 550, 701, 1125, 25,
    912, 1063, 245, 393, 820, 971, 607, 758, 1182, 88, 515, 663, 302, 450, 877, 1028, 207, 358, 785, 1245, 145, 572, 720, 1147, 53, 477,
    628, 1091, 264, 415, 842, 990, 172, 323, 1210, 110, 534, 685, 1112, 15, 905, 1053, 229, 380, 804, 955, 597, 748, 1175, 72, 499, 650,
    292, 443, 867, 1018, 194, 342, 1232, 135, 562, 713, 1137, 37, 924, 1075, 257, 405, 832, 983, 156, 619, 770, 1194, 100, 527, 675, 1102]"

definition mcs5_row10 :: "nat list" where
  "mcs5_row10 = [8, 456, 895, 1034, 225, 364, 803, 939, 578, 738, 1153, 71, 483, 646, 282, 421, 860, 996, 190, 329, 1216, 128, 540, 703, 1118, 33,
    923, 1059, 247, 386, 822, 961, 603, 766, 1181, 90, 505, 668, 310, 449, 885, 1024, 212, 348, 787, 1238, 153, 568, 731, 1143, 55, 470,
    630, 1081, 275, 411, 850, 989, 174, 313, 1200, 118, 533, 693, 1108, 20, 907, 1046, 237, 376, 815, 951, 590, 750, 1165, 83, 495, 658,
    294, 433, 872, 1008, 202, 341, 1228, 140, 552, 715, 1130, 45, 935, 1071, 259, 398, 834, 973, 167, 615, 778, 1193, 102, 517, 680, 1092]"

definition mcs5_row11 :: "nat list" where
  "mcs5_row11 = [10, 461, 897, 1036, 224, 360, 799, 938, 580, 743, 1155, 67, 482, 642, 287, 423, 862, 1001, 186, 325, 1212, 130, 545, 705, 1120, 32,
    919, 1058, 249, 388, 827, 963, 602, 762, 1177, 95, 507, 670, 306, 445, 884, 1020, 214, 353, 789, 1240, 152, 564, 727, 1142, 57, 472,
    635, 1083, 271, 410, 846, 985, 179, 315, 1205, 114, 529, 692, 1104, 22, 909, 1048, 236, 372, 811, 950, 592, 755, 1167, 79, 494, 654,
    299, 435, 874, 1013, 198, 337, 1224, 142, 557, 717, 1132, 44, 931, 1070, 261, 400, 839, 975, 163, 614, 774, 1189, 107, 519, 682, 1097]"

definition mcs5_rows :: "nat list list" where
  "mcs5_rows = [mcs5_row0, mcs5_row1, mcs5_row2, mcs5_row3, mcs5_row4, mcs5_row5, mcs5_row6, mcs5_row7,
                mcs5_row8, mcs5_row9, mcs5_row10, mcs5_row11]"

definition gsm0503_interleave_mcs5 :: "nat \<Rightarrow> nat" where
  "gsm0503_interleave_mcs5 k = mcs5_rows ! (k div 104) ! (k mod 104)"

definition mcs5_ul_hdr_pos :: "nat \<Rightarrow> nat" where
  "mcs5_ul_hdr_pos k = 34 * (k mod 4) + (2 * (11 * k mod 17) + k mod 8 div 4)"

definition mcs5_dl_hdr_pos :: "nat \<Rightarrow> nat" where
  "mcs5_dl_hdr_pos k = 25 * (k mod 4) + (17 * k) mod 25"

definition gsm0503_mcs5_ul_interleave :: "'a list \<Rightarrow> 'a list \<Rightarrow> 'a list \<Rightarrow> 'a list \<Rightarrow> ('a list \<times> 'a list) res" where
  "gsm0503_mcs5_ul_interleave hc dc hi di = do {
     hi \<leftarrow> scatter mcs5_ul_hdr_pos 136 hc hi;
     di \<leftarrow> scatter gsm0503_interleave_mcs5 1248 dc di;
     Some (hi, di) }"

definition gsm0503_mcs5_ul_deinterleave ::
  "'a list option \<Rightarrow> 'a list option \<Rightarrow> 'a list \<Rightarrow> 'a list \<Rightarrow> ('a list option \<times> 'a list option) res" where
  "gsm0503_mcs5_ul_deinterleave hc dc hi di = do {
     hc \<leftarrow> opt_out (gather mcs5_ul_hdr_pos 136 hi) hc;
     dc \<leftarrow> opt_out (gather gsm0503_interleave_mcs5 1248 di) dc;
     Some (hc, dc) }"

definition gsm0503_mcs5_dl_interleave :: "'a list \<Rightarrow> 'a list \<Rightarrow> 'a list \<Rightarrow> 'a list \<Rightarrow> ('a list \<times> 'a list) res" where
  "gsm0503_mcs5_dl_interleave hc dc hi di = do {
     hi \<leftarrow> scatter mcs5_dl_hdr_pos 100 hc hi;
     di \<leftarrow> scatter gsm0503_interleave_mcs5 1248 dc di;
     Some (hi, di) }"

definition gsm0503_mcs5_dl_deinterleave ::
  "'a list option \<Rightarrow> 'a list option \<Rightarrow> 'a list \<Rightarrow> 'a list \<Rightarrow> ('a list option \<times> 'a list option) res" where
  "gsm0503_mcs5_dl_deinterleave hc dc hi di = do {
     hc \<leftarrow> opt_out (gather mcs5_dl_hdr_pos 100 hi) hc;
     dc \<leftarrow> opt_out (gather gsm0503_interleave_mcs5 1248 di) dc;
     Some (hc, dc) }"

subsection \<open>MCS-7 and MCS-8\<close>

definition mcs7_dl_hdr_pos :: "nat \<Rightarrow> nat" where
  "mcs7_dl_hdr_pos k = 31 * (k mod 4) + (17 * k) mod 31"

definition mcs7_ul_hdr_pos :: "nat \<Rightarrow> nat" where
  "mcs7_ul_hdr_pos k = 40 * (k mod 4) + (2 * (13 * (k div 8) mod 20) + k mod 8 div 4)"

definition mcs7_pos :: "nat \<Rightarrow> nat" where
  "mcs7_pos k = 306 * (k mod 4) + (3 * (44 * k mod 102 + k div 4 mod 2) + (k + 2 - k div 408) mod 3)"

definition mcs8_pos :: "nat \<Rightarrow> nat" where
  "mcs8_pos k = 306 * (2 * (k div 612) + k mod 2) + (3 * (74 * k mod 102 + k div 2 mod 2) + (k + 2 - k div 204) mod 3)"

text \<open>Two data blocks of 612 bits each, interleaved together.\<close>

definition two_blocks_interleave :: "(nat \<Rightarrow> nat) \<Rightarrow> nat \<Rightarrow> (nat \<Rightarrow> nat) \<Rightarrow>
    'a::zero list \<Rightarrow> 'a list \<Rightarrow> 'a list \<Rightarrow> 'a list \<Rightarrow> 'a list \<Rightarrow> ('a list \<times> 'a list) res" where
  "two_blocks_interleave hdr_pos hdr_len pos hc c1 c2 hi di = do {
     hi \<leftarrow> scatter hdr_pos hdr_len hc hi;
     dc \<leftarrow> memcpy (replicate 1224 0) 0 c1 0 612;
     dc \<leftarrow> memcpy dc 612 c2 0 612;
     di \<leftarrow> scatter pos 1224 dc di;
     Some (hi, di) }"

definition two_blocks_deinterleave :: "(nat \<Rightarrow> nat) \<Rightarrow> nat \<Rightarrow> (nat \<Rightarrow> nat) \<Rightarrow>
    'a::zero list option \<Rightarrow> ('a list \<times> 'a list) option \<Rightarrow> 'a list \<Rightarrow> 'a list \<Rightarrow> ('a list option \<times> ('a list \<times> 'a list) option) res" where
  "two_blocks_deinterleave hdr_pos hdr_len pos hc c12 hi di = do {
     hc \<leftarrow> opt_out (gather hdr_pos hdr_len hi) hc;
     case c12 of
       None \<Rightarrow> Some (hc, None)
     | Some (c1, c2) \<Rightarrow> do {
         dc \<leftarrow> gather pos 1224 di (replicate 1224 0);
         c1 \<leftarrow> memcpy c1 0 dc 0 612;
         c2 \<leftarrow> memcpy c2 0 dc 612 612;
         Some (hc, Some (c1, c2)) } }"

definition gsm0503_mcs7_dl_interleave :: "'a::zero list \<Rightarrow> 'a list \<Rightarrow> 'a list \<Rightarrow> 'a list \<Rightarrow> 'a list \<Rightarrow> ('a list \<times> 'a list) res" where
  "gsm0503_mcs7_dl_interleave = two_blocks_interleave mcs7_dl_hdr_pos 124 mcs7_pos"

definition gsm0503_mcs7_dl_deinterleave :: "'a::zero list option \<Rightarrow> ('a list \<times> 'a list) option \<Rightarrow> 'a list \<Rightarrow> 'a list \<Rightarrow> ('a list option \<times> ('a list \<times> 'a list) option) res" where
  "gsm0503_mcs7_dl_deinterleave = two_blocks_deinterleave mcs7_dl_hdr_pos 124 mcs7_pos"

definition gsm0503_mcs7_ul_interleave :: "'a::zero list \<Rightarrow> 'a list \<Rightarrow> 'a list \<Rightarrow> 'a list \<Rightarrow> 'a list \<Rightarrow> ('a list \<times> 'a list) res" where
  "gsm0503_mcs7_ul_interleave = two_blocks_interleave mcs7_ul_hdr_pos 160 mcs7_pos"

definition gsm0503_mcs7_ul_deinterleave :: "'a::zero list option \<Rightarrow> ('a list \<times> 'a list) option \<Rightarrow> 'a list \<Rightarrow> 'a list \<Rightarrow> ('a list option \<times> ('a list \<times> 'a list) option) res" where
  "gsm0503_mcs7_ul_deinterleave = two_blocks_deinterleave mcs7_ul_hdr_pos 160 mcs7_pos"

definition gsm0503_mcs8_ul_interleave :: "'a::zero list \<Rightarrow> 'a list \<Rightarrow> 'a list \<Rightarrow> 'a list \<Rightarrow> 'a list \<Rightarrow> ('a list \<times> 'a list) res" where
  "gsm0503_mcs8_ul_interleave = two_blocks_interleave mcs7_ul_hdr_pos 160 mcs8_pos"

definition gsm0503_mcs8_ul_deinterleave :: "'a::zero list option \<Rightarrow> ('a list \<times> 'a list) option \<Rightarrow> 'a list \<Rightarrow> 'a list \<Rightarrow> ('a list option \<times> ('a list \<times> 'a list) option) res" where
  "gsm0503_mcs8_ul_deinterleave = two_blocks_deinterleave mcs7_ul_hdr_pos 160 mcs8_pos"

definition gsm0503_mcs8_dl_interleave :: "'a::zero list \<Rightarrow> 'a list \<Rightarrow> 'a list \<Rightarrow> 'a list \<Rightarrow> 'a list \<Rightarrow> ('a list \<times> 'a list) res" where
  "gsm0503_mcs8_dl_interleave = two_blocks_interleave mcs7_dl_hdr_pos 124 mcs8_pos"

definition gsm0503_mcs8_dl_deinterleave :: "'a::zero list option \<Rightarrow> ('a list \<times> 'a list) option \<Rightarrow> 'a list \<Rightarrow> 'a list \<Rightarrow> ('a list option \<times> ('a list \<times> 'a list) option) res" where
  "gsm0503_mcs8_dl_deinterleave = two_blocks_deinterleave mcs7_dl_hdr_pos 124 mcs8_pos"

subsection \<open>Traffic channels\<close>

definition tch_fr_pos :: "nat \<Rightarrow> nat" where
  "tch_fr_pos k = (k mod 8) * 114 + (2 * ((49 * k) mod 57) + (k mod 8) div 4)"

definition gsm0503_tch_fr_deinterleave :: "'a list \<Rightarrow> 'a list \<Rightarrow> 'a list res" where
  "gsm0503_tch_fr_deinterleave cB iB = gather tch_fr_pos 456 iB cB"

definition gsm0503_tch_fr_interleave :: "'a list \<Rightarrow> 'a list \<Rightarrow> 'a list res" where
  "gsm0503_tch_fr_interleave cB iB = scatter tch_fr_pos 456 cB iB"

text \<open>Pairs \<open>(j, B)\<close>.\<close>

definition gsm0503_tch_hr_interleaving :: "(nat \<times> nat) list" where
  "gsm0503_tch_hr_interleaving =
   [(0, 0), (1, 2), (78, 1), (79, 3), (48, 0), (49, 2), (54, 1), (55, 3), (24, 0), (25, 2), (30, 1), (31, 3),
    (72, 0), (73, 2), (6, 1), (7, 3), (96, 0), (97, 2), (12, 0), (13, 2), (102, 1), (103, 3), (60, 0), (61, 2),
    (66, 1), (67, 3), (90, 1), (91, 3), (36, 0), (37, 2), (42, 1), (43, 3), (18, 1), (19, 3), (84, 0), (85, 2),
    (108, 0), (109, 2), (2, 0), (3, 2), (80, 1), (81, 3), (50, 0), (51, 2), (56, 1), (57, 3), (26, 0), (27, 2),
    (32, 1), (33, 3), (74, 0), (75, 2), (8, 1), (9, 3), (98, 0), (99, 2), (14, 0), (15, 2), (104, 1), (105, 3),
    (62, 0), (63, 2), (68, 1), (69, 3), (92, 1), (93, 3), (38, 0), (39, 2), (44, 1), (45, 3), (20, 1), (21, 3),
    (86, 0), (87, 2), (110, 0), (111, 2), (4, 0), (5, 2), (82, 1), (83, 3), (52, 0), (53, 2), (58, 1), (59, 3),
    (28, 0), (29, 2), (34, 1), (35, 3), (76, 0), (77, 2), (10, 1), (11, 3), (100, 0), (101, 2), (16, 0), (17, 2),
    (106, 1), (107, 3), (64, 0), (65, 2), (70, 1), (71, 3), (94, 1), (95, 3), (40, 0), (41, 2), (46, 1), (47, 3),
    (22, 1), (23, 3), (88, 0), (89, 2), (112, 0), (113, 2), (6, 0), (7, 2), (84, 1), (85, 3), (54, 0), (55, 2),
    (60, 1), (61, 3), (30, 0), (31, 2), (36, 1), (37, 3), (78, 0), (79, 2), (12, 1), (13, 3), (102, 0), (103, 2),
    (18, 0), (19, 2), (108, 1), (109, 3), (66, 0), (67, 2), (72, 1), (73, 3), (96, 1), (97, 3), (42, 0), (43, 2),
    (48, 1), (49, 3), (24, 1), (25, 3), (90, 0), (91, 2), (0, 1), (1, 3), (8, 0), (9, 2), (86, 1), (87, 3),
    (56, 0), (57, 2), (62, 1), (63, 3), (32, 0), (33, 2), (38, 1), (39, 3), (80, 0), (81, 2), (14, 1), (15, 3),
    (104, 0), (105, 2), (20, 0), (21, 2), (110, 1), (111, 3), (68, 0), (69, 2), (74, 1), (75, 3), (98, 1), (99, 3),
    (44, 0), (45, 2), (50, 1), (51, 3), (26, 1), (27, 3), (92, 0), (93, 2), (2, 1), (3, 3), (10, 0), (11, 2),
    (88, 1), (89, 3), (58, 0), (59, 2), (64, 1), (65, 3), (34, 0), (35, 2), (40, 1), (41, 3), (82, 0), (83, 2),
    (16, 1), (17, 3), (106, 0), (107, 2), (22, 0), (23, 2), (112, 1), (113, 3), (70, 0), (71, 2), (76, 1), (77, 3),
    (100, 1), (101, 3), (46, 0), (47, 2), (52, 1), (53, 3), (28, 1), (29, 3), (94, 0), (95, 2), (4, 1), (5, 3)]"

definition tch_hr_pos :: "nat \<Rightarrow> nat" where
  "tch_hr_pos k = (case gsm0503_tch_hr_interleaving ! k of (j, B) \<Rightarrow> B * 114 + j)"

definition gsm0503_tch_hr_deinterleave :: "'a list \<Rightarrow> 'a list \<Rightarrow> 'a list res" where
  "gsm0503_tch_hr_deinterleave cB iB = gather tch_hr_pos 228 iB cB"

definition gsm0503_tch_hr_interleave :: "'a list \<Rightarrow> 'a list \<Rightarrow> 'a list res" where
  "gsm0503_tch_hr_interleave cB iB = scatter tch_hr_pos 228 cB iB"

definition tch_f96_pos :: "nat \<Rightarrow> nat" where
  "tch_f96_pos k = (k mod 19 + k div 114) * 114 + (k mod 19 + 19 * (k mod 6))"

definition gsm0503_tch_f96_interleave :: "'a list \<Rightarrow> 'a list \<Rightarrow> 'a list res" where
  "gsm0503_tch_f96_interleave cB iB = scatter tch_f96_pos 456 cB iB"

definition gsm0503_tch_f96_deinterleave :: "'a list \<Rightarrow> 'a list \<Rightarrow> 'a list res" where
  "gsm0503_tch_f96_deinterleave cB iB = gather tch_f96_pos 456 iB cB"

section \<open>Properties\<close>

lemma move_loop_spec:
  assumes "lo \<le> hi" and "\<And>k. lo \<le> k \<Longrightarrow> k < hi \<Longrightarrow> s k < length src \<and> d k < length dst" and "inj_on d {lo..<hi}"
  shows "\<exists>r. move_loop lo hi s d src dst = Some r \<and> length r = length dst \<and>
     (\<forall>k. lo \<le> k \<longrightarrow> k < hi \<longrightarrow> r ! d k = src ! s k) \<and>
     (\<forall>i. i < length dst \<longrightarrow> i \<notin> d ` {lo..<hi} \<longrightarrow> r ! i = dst ! i)"
proof -
  let ?P = "\<lambda>m r. length r = length dst \<and> (\<forall>k. lo \<le> k \<longrightarrow> k < m \<longrightarrow> r ! d k = src ! s k) \<and>
     (\<forall>i. i < length dst \<longrightarrow> i \<notin> d ` {lo..<m} \<longrightarrow> r ! i = dst ! i)"
  have "\<exists>r. for_loop lo hi (\<lambda>k dst. do { v \<leftarrow> rd src (s k); wr dst (d k) v }) dst = Some r \<and> ?P hi r"
  proof (rule for_loop_rule [where P = ?P])
    fix k t
    assume k: "lo \<le> k" "k < hi" and IH: "?P k t"
    let ?t = "t[d k := src ! s k]"
    have b: "s k < length src" "d k < length t" using assms(2) [OF k] IH by auto
    have ne: "d i \<noteq> d k" if "lo \<le> i" "i < k" for i
      using inj_onD [OF assms(3), of i k] that k by auto
    have "?P (Suc k) ?t"
    proof (intro conjI allI impI)
      show "length ?t = length dst" using IH by simp
      show "?t ! d i = src ! s i" if "lo \<le> i" "i < Suc k" for i
        using that IH b ne [of i] by (cases "i = k") auto
      show "?t ! i = dst ! i" if "i < length dst" "i \<notin> d ` {lo..<Suc k}" for i
      proof -
        have "i \<noteq> d k" "i \<notin> d ` {lo..<k}" using that(2) k(1) by auto
        with that(1) IH show ?thesis by simp
      qed
    qed
    with b show "\<exists>t'. do { v \<leftarrow> rd src (s k); wr t (d k) v } = Some t' \<and> ?P (Suc k) t'"
      by (auto simp: c_mem)
  qed (use assms(1) in auto)
  then show ?thesis by (simp add: move_loop_def)
qed

subsection \<open>Interleavers\<close>

locale interleaver =
  fixes pos :: "nat \<Rightarrow> nat" and n :: nat and N :: nat
  assumes pos_inj: "inj_on pos {..<n}" and pos_bound: "k < n \<Longrightarrow> pos k < N"
begin

lemma scatter_ok:
  assumes "length src = n" and "length dst = N"
  shows "\<exists>r. scatter pos n src dst = Some r \<and> length r = N \<and> (\<forall>k<n. r ! pos k = src ! k) \<and>
    (\<forall>i<N. i \<notin> pos ` {..<n} \<longrightarrow> r ! i = dst ! i)"
  using move_loop_spec [of 0 n "\<lambda>k. k" src pos dst] assms pos_inj pos_bound
  by (auto simp: atLeast0LessThan)

lemma gather_ok:
  assumes "length src = N" and "length dst = n"
  shows "gather pos n src dst = Some (map (\<lambda>k. src ! pos k) [0..<n])"
proof -
  obtain r where r: "gather pos n src dst = Some r" "length r = n" "\<forall>k<n. r ! k = src ! pos k"
    using move_loop_spec [of 0 n pos src "\<lambda>k. k" dst] assms pos_bound by auto
  then have "r = map (\<lambda>k. src ! pos k) [0..<n]" by (intro nth_equalityI) auto
  with r(1) show ?thesis by simp
qed

text \<open>De-interleaving undoes interleaving.\<close>

lemma roundtrip:
  assumes "length src = n" and "length dst = N" and "length out = n"
  shows "\<exists>r. scatter pos n src dst = Some r \<and> length r = N \<and> gather pos n r out = Some src \<and>
    (\<forall>i<N. i \<notin> pos ` {..<n} \<longrightarrow> r ! i = dst ! i)"
proof -
  obtain r where r: "scatter pos n src dst = Some r" "length r = N" "\<forall>k<n. r ! pos k = src ! k"
    "\<forall>i<N. i \<notin> pos ` {..<n} \<longrightarrow> r ! i = dst ! i" using scatter_ok [OF assms(1,2)] by blast
  have "map (\<lambda>k. r ! pos k) [0..<n] = src" using r(3) assms(1) by (intro nth_equalityI) auto
  with r gather_ok [OF r(2) assms(3)] show ?thesis by auto
qed

end

subsection \<open>The position formulas\<close>

text \<open>A number is determined by its digits, and below \<open>m * n\<close> by its residues.\<close>

lemma digits:
  fixes a b c d n :: nat
  assumes "n * a + b = n * c + d" and "b < n" and "d < n"
  shows "a = c \<and> b = d"
proof -
  have "(n * a + b) div n = a" "(n * c + d) div n = c" "(n * a + b) mod n = b" "(n * c + d) mod n = d" using assms(2,3) by auto
  with assms(1) show ?thesis by metis
qed

lemma digit_bound:
  fixes a b m n :: nat
  assumes "a < m" and "b < n"
  shows "n * a + b < n * m"
proof -
  have "n * a + n \<le> n * m" using assms(1) by (metis Suc_leI mult_le_mono2 mult_Suc_right add.commute)
  with assms(2) show ?thesis by linarith
qed

lemma mod_mult_cancel:
  fixes a b c n :: nat
  assumes "(c * a) mod n = (c * b) mod n" and "coprime c n"
  shows "a mod n = b mod n"
proof -
  have "int n dvd int c * (int a - int b)"
    using assms(1) by (metis (mono_tags) mod_eq_dvd_iff of_nat_mod of_nat_mult right_diff_distrib)
  moreover have "coprime (int n) (int c)" using assms(2) by (simp add: coprime_commute)
  ultimately have "int n dvd int a - int b" by (simp add: coprime_dvd_mult_right_iff)
  then have "int a mod int n = int b mod int n" by (simp add: mod_eq_dvd_iff)
  then show ?thesis by (metis of_nat_eq_iff of_nat_mod)
qed

lemma mod_add_cancel:
  fixes a b c n :: nat
  assumes "(c + a) mod n = (c + b) mod n"
  shows "a mod n = b mod n"
proof -
  have "int n dvd (int c + int a) - (int c + int b)"
    using assms by (metis (mono_tags) mod_eq_dvd_iff of_nat_mod of_nat_add)
  then have "int a mod int n = int b mod int n" by (simp add: mod_eq_dvd_iff)
  then show ?thesis by (metis of_nat_eq_iff of_nat_mod)
qed

lemma residues_unique:
  fixes a b m n :: nat
  assumes "a mod m = b mod m" and "a mod n = b mod n" and "coprime m n"
  shows "a mod (m * n) = b mod (m * n)"
proof -
  have "int m dvd int a - int b" "int n dvd int a - int b"
    using assms(1,2) by (metis mod_eq_dvd_iff of_nat_mod)+
  moreover have "coprime (int m) (int n)" using assms(3) by simp
  ultimately have "int m * int n dvd int a - int b" by (rule divides_mult)
  then have "int a mod int (m * n) = int b mod int (m * n)" by (simp add: mod_eq_dvd_iff)
  then show ?thesis by (metis of_nat_eq_iff of_nat_mod)
qed

lemma coprime_bezout: "a * x = Suc (b * y) \<Longrightarrow> coprime a (b :: nat)"
proof (rule coprimeI)
  fix c assume "a * x = Suc (b * y)" "c dvd a" "c dvd b"
  then have "c dvd Suc (b * y)" "c dvd b * y" by (metis dvd_mult2, simp)
  then show "is_unit c" by (metis dvd_add_right_iff plus_1_eq_Suc add.commute)
qed

lemma mod8_split: "k mod 8 = k mod 4 + 4 * (k mod 8 div (4 :: nat))"
proof -
  have "k mod 8 mod 4 = k mod 4" by (simp add: mod_mod_cancel)
  then show ?thesis using mult_div_mod_eq [of 4 "k mod 8"] by simp
qed

lemma residues_eq:
  fixes k l m n c :: nat
  assumes "k mod m = l mod m" and "(c * k) mod n = (c * l) mod n" and "c * x = Suc (n * y)" and "m * u = Suc (n * v)"
    and "k < m * n" and "l < m * n"
  shows "k = l"
proof -
  have "k mod n = l mod n" by (rule mod_mult_cancel [OF assms(2) coprime_bezout [OF assms(3)]])
  with assms(1) have "k mod (m * n) = l mod (m * n)" by (rule residues_unique [OF _ _ coprime_bezout [OF assms(4)]])
  with assms(5,6) show ?thesis by simp
qed

text \<open>Positions of the form \<open>A * (k mod 4) + 2 * x + (k mod 8) div 4\<close>.\<close>

lemma mod8_half: "k mod 8 div 4 \<le> (1 :: nat)"
proof -
  have "k mod 8 div 4 < 2" by (simp add: div_less_iff_less_mult)
  then show ?thesis by linarith
qed

lemma blocks_of_4:
  fixes k l x y A :: nat
  assumes "A * (k mod 4) + (2 * x + k mod 8 div 4) = A * (l mod 4) + (2 * y + l mod 8 div 4)" and "2 * x + 1 < A" and "2 * y + 1 < A"
  shows "k mod 8 = l mod 8" "x = y"
proof -
  have b: "2 * x + k mod 8 div 4 < A" "2 * y + l mod 8 div 4 < A" "k mod 8 div 4 < 2" "l mod 8 div 4 < 2"
    using assms(2,3) mod8_half [of k] mod8_half [of l] by linarith+
  note d = digits [OF assms(1) b(1,2)]
  note e = digits [OF conjunct2 [OF d] b(3,4)]
  show "x = y" using e by (rule conjunct1)
  show "k mod 8 = l mod 8"
    using conjunct1 [OF d] conjunct2 [OF e] mod8_split [of k] mod8_split [of l] by argo
qed

lemma double_mod_bound: "2 * (c * k mod n) + 1 < 2 * n" if "0 < n" for c k n :: nat
  using mod_less_divisor [OF that, of "c * k"] by linarith

interpretation xcch: interleaver xcch_pos 456 456
proof
  show "inj_on xcch_pos {..<456}"
  proof (rule inj_onI, unfold lessThan_iff)
    fix k l assume kl: "k < 456" "l < 456" "xcch_pos k = xcch_pos l"
    have e: "114 * (k mod 4) + (2 * (49 * k mod 57) + k mod 8 div 4) = 114 * (l mod 4) + (2 * (49 * l mod 57) + l mod 8 div 4)"
      using kl(3) unfolding xcch_pos_def by (simp only: mult.commute [of 114])
    have b: "2 * (49 * k mod 57) + 1 < 114" for k :: nat using double_mod_bound [of 57 49 k] by simp
    show "k = l"
      by (rule residues_eq [OF blocks_of_4 [OF e b b], where x = 7 and y = 6 and u = 50 and v = 7]) (simp_all add: kl(1,2))
  qed
  show "xcch_pos k < 456" for k
    using double_mod_bound [of 57 49 k] mod8_half [of k] mod_less_divisor [of 4 k] unfolding xcch_pos_def by linarith
qed

interpretation tch_fr: interleaver tch_fr_pos 456 912
proof
  show "inj_on tch_fr_pos {..<456}"
  proof (rule inj_onI, unfold lessThan_iff)
    fix k l assume kl: "k < 456" "l < 456" "tch_fr_pos k = tch_fr_pos l"
    have e: "114 * (k mod 8) + (2 * (49 * k mod 57) + k mod 8 div 4) = 114 * (l mod 8) + (2 * (49 * l mod 57) + l mod 8 div 4)"
      using kl(3) unfolding tch_fr_pos_def by (simp only: mult.commute [of 114])
    have b: "2 * (49 * k mod 57) + k mod 8 div 4 < 114" "k mod 8 div 4 < 2" for k :: nat
      using double_mod_bound [of 57 49 k] mod8_half [of k] by linarith+
    note d = digits [OF e b(1) b(1)]
    note f = digits [OF conjunct2 [OF d] b(2) b(2)]
    show "k = l"
      by (rule residues_eq [OF conjunct1 [OF d] conjunct1 [OF f], where x = 7 and y = 6 and u = 50 and v = 7]) (simp_all add: kl(1,2))
  qed
  show "tch_fr_pos k < 912" for k
    using double_mod_bound [of 57 49 k] mod8_half [of k] mod_less_divisor [of 8 k] unfolding tch_fr_pos_def by linarith
qed

interpretation mcs5_ul_hdr: interleaver mcs5_ul_hdr_pos 136 136
proof
  have b: "2 * (11 * k mod 17) + 1 < 34" for k :: nat using double_mod_bound [of 17 11 k] by simp
  show "inj_on mcs5_ul_hdr_pos {..<136}"
  proof (rule inj_onI, unfold lessThan_iff)
    fix k l assume kl: "k < 136" "l < 136" "mcs5_ul_hdr_pos k = mcs5_ul_hdr_pos l"
    show "k = l"
      by (rule residues_eq [OF blocks_of_4 [OF kl(3) [unfolded mcs5_ul_hdr_pos_def] b b], where x = 14 and y = 9 and u = 15 and v = 7])
        (simp_all add: kl(1,2))
  qed
  show "mcs5_ul_hdr_pos k < 136" for k
    using b [of k] mod8_half [of k] mod_less_divisor [of 4 k] unfolding mcs5_ul_hdr_pos_def by linarith
qed

interpretation mcs5_dl_hdr: interleaver mcs5_dl_hdr_pos 100 100
proof
  have b: "17 * k mod 25 < (25 :: nat)" for k by simp
  show "inj_on mcs5_dl_hdr_pos {..<100}"
  proof (rule inj_onI, unfold lessThan_iff)
    fix k l assume kl: "k < 100" "l < 100" "mcs5_dl_hdr_pos k = mcs5_dl_hdr_pos l"
    note d = digits [OF kl(3) [unfolded mcs5_dl_hdr_pos_def] b b]
    show "k = l"
      by (rule residues_eq [OF conjunct1 [OF d] conjunct2 [OF d], where x = 3 and y = 2 and u = 19 and v = 3]) (simp_all add: kl(1,2))
  qed
  show "mcs5_dl_hdr_pos k < 100" for k
    using b [of k] mod_less_divisor [of 4 k] unfolding mcs5_dl_hdr_pos_def by linarith
qed

interpretation mcs7_dl_hdr: interleaver mcs7_dl_hdr_pos 124 124
proof
  have b: "17 * k mod 31 < (31 :: nat)" for k by simp
  show "inj_on mcs7_dl_hdr_pos {..<124}"
  proof (rule inj_onI, unfold lessThan_iff)
    fix k l assume kl: "k < 124" "l < 124" "mcs7_dl_hdr_pos k = mcs7_dl_hdr_pos l"
    note d = digits [OF kl(3) [unfolded mcs7_dl_hdr_pos_def] b b]
    show "k = l"
      by (rule residues_eq [OF conjunct1 [OF d] conjunct2 [OF d], where x = 11 and y = 6 and u = 8 and v = 1]) (simp_all add: kl(1,2))
  qed
  show "mcs7_dl_hdr_pos k < 124" for k
    using b [of k] mod_less_divisor [of 4 k] unfolding mcs7_dl_hdr_pos_def by linarith
qed

interpretation mcs7_ul_hdr: interleaver mcs7_ul_hdr_pos 160 160
proof
  have b: "2 * (13 * (k div 8) mod 20) + 1 < 40" for k :: nat using double_mod_bound [of 20 13 "k div 8"] by simp
  show "inj_on mcs7_ul_hdr_pos {..<160}"
  proof (rule inj_onI, unfold lessThan_iff)
    fix k l assume kl: "k < 160" "l < 160" "mcs7_ul_hdr_pos k = mcs7_ul_hdr_pos l"
    note d = blocks_of_4 [OF kl(3) [unfolded mcs7_ul_hdr_pos_def] b b]
    have "k div 8 mod 20 = l div 8 mod 20"
      by (rule mod_mult_cancel [OF d(2) coprime_bezout [of _ 17 _ 11]]) simp
    moreover have "k div 8 < 20" "l div 8 < 20" using kl(1,2) by (simp_all add: div_less_iff_less_mult)
    ultimately have "k div 8 = l div 8" by simp
    with d(1) show "k = l" by (metis div_mult_mod_eq)
  qed
  show "mcs7_ul_hdr_pos k < 160" for k
    using b [of k] mod8_half [of k] mod_less_divisor [of 4 k] unfolding mcs7_ul_hdr_pos_def by linarith
qed

interpretation tch_f96: interleaver tch_f96_pos 456 2508
proof
  have b: "k mod 19 + 19 * (k mod 6) < (114 :: nat)" for k
    using mod_less_divisor [of 19 k] mod_less_divisor [of 6 k] by linarith
  show "inj_on tch_f96_pos {..<456}"
  proof (rule inj_onI, unfold lessThan_iff)
    fix k l assume kl: "k < 456" "l < 456" "tch_f96_pos k = tch_f96_pos l"
    have e: "114 * (k mod 19 + k div 114) + (k mod 19 + 19 * (k mod 6)) = 114 * (l mod 19 + l div 114) + (l mod 19 + 19 * (l mod 6))"
      using kl(3) unfolding tch_f96_pos_def by (simp only: mult.commute [of 114])
    note d = digits [OF e b b]
    have f: "19 * (k mod 6) + k mod 19 = 19 * (l mod 6) + l mod 19" using conjunct2 [OF d] by (simp only: add.commute)
    note g = digits [OF f mod_less_divisor [of 19] mod_less_divisor [of 19]]
    have r: "k mod 6 = l mod 6" "k mod 19 = l mod 19" using g by simp_all
    have "k mod 114 = l mod 114"
      using residues_unique [OF r coprime_bezout [of _ 16 _ 5]] by simp
    moreover have "k div 114 = l div 114" using conjunct1 [OF d] r(2) by linarith
    ultimately show "k = l" using div_mult_mod_eq [of k 114] div_mult_mod_eq [of l 114] by linarith
  qed
  show "tch_f96_pos k < 2508" if "k < 456" for k
  proof -
    have "k mod 19 < 19" "k div 114 < 4" using that by (simp_all add: div_less_iff_less_mult)
    then have "k mod 19 + k div 114 \<le> 21" by linarith
    then show ?thesis using digit_bound [OF _ b [of k], of "k mod 19 + k div 114" 22] unfolding tch_f96_pos_def by (simp add: mult.commute)
  qed
qed

text \<open>The data positions of MCS-7 and MCS-8: the last digit tells the thirds of the block apart.\<close>

lemma third_digit:
  assumes "q < 3" and "q' < 3" and "(3 * m * q + p + 2 - q) mod 3 = (3 * m * q' + p + 2 - q') mod (3 :: nat)"
  shows "q = q'"
proof -
  have s: "(3 * m * q + p + 2 - q) mod 3 = (p + 2 + 2 * q) mod 3" if "q < 3" for q
  proof -
    have "3 * m * q + p + 2 - q + 3 * q = p + 2 + 2 * q + 3 * (m * q)" using that by simp
    then show ?thesis by (metis mod_mult_self2)
  qed
  have "(p + 2 + 2 * q) mod 3 = (p + 2 + 2 * q') mod 3" using assms(3) s [OF assms(1)] s [OF assms(2)] by simp
  then have "2 * q mod 3 = 2 * q' mod 3" by (rule mod_add_cancel)
  then have "q mod 3 = q' mod 3" by (rule mod_mult_cancel [OF _ coprime_bezout [of _ 2 _ 1]]) simp
  with assms(1,2) show ?thesis by simp
qed

lemma third_digit_high: "(204 * (3 * h + t) + p + 2 - (3 * h + t)) mod 3 = (3 * 68 * t + p + 2 - t) mod (3 :: nat)"
proof -
  have "204 * (3 * h + t) + p + 2 - (3 * h + t) = (3 * 68 * t + p + 2 - t) + 3 * (203 * h)" by simp
  then show ?thesis by (metis mod_mult_self2)
qed

lemma even_mod_102: "2 * c * k mod 102 = 2 * (c * k mod (51 :: nat))"
  using mod_mult_mult1 [of 2 "c * k" 51] by (simp add: mult.assoc)

lemma bit2_of: "k div 4 mod 2 = k mod 8 div (4 :: nat)" "k div 2 mod 2 = k mod 4 div (2 :: nat)"
proof -
  have s: "k mod (n * 2) div n = k div n mod 2" if "0 < n" for n :: nat
    unfolding mod_mult2_eq using that by simp
  show "k div 4 mod 2 = k mod 8 div 4" "k div 2 mod 2 = k mod 4 div 2" using s [of 4] s [of 2] by simp_all
qed

interpretation mcs7: interleaver mcs7_pos 1224 1224
proof
  have pos: "mcs7_pos k = 306 * (k mod 4) + (3 * (2 * (22 * k mod 51) + k mod 8 div 4) + (k + 2 - k div 408) mod 3)" for k
    using even_mod_102 [of 22 k] unfolding mcs7_pos_def bit2_of(1) by simp
  have b: "3 * (2 * (22 * k mod 51) + k mod 8 div 4) + (k + 2 - k div 408) mod 3 < 306" "(k + 2 - k div 408) mod 3 < 3" "k mod 8 div 4 < 2" for k :: nat
  proof -
    show r: "(k + 2 - k div 408) mod 3 < 3" by simp
    show h: "k mod 8 div 4 < 2" using mod8_half [of k] by linarith
    have "3 * (2 * (22 * k mod 51) + k mod 8 div 4) + (k + 2 - k div 408) mod 3 < 3 * (2 * 51)"
      by (rule digit_bound [OF digit_bound [OF _ h] r]) simp
    then show "3 * (2 * (22 * k mod 51) + k mod 8 div 4) + (k + 2 - k div 408) mod 3 < 306" by simp
  qed
  show "inj_on mcs7_pos {..<1224}"
  proof (rule inj_onI, unfold lessThan_iff)
    fix k l assume kl: "k < 1224" "l < 1224" "mcs7_pos k = mcs7_pos l"
    note d = digits [OF kl(3) [unfolded pos] b(1) b(1)]
    note e = digits [OF conjunct2 [OF d] b(2) b(2)]
    note f = digits [OF conjunct1 [OF e] b(3) b(3)]
    have k8: "k mod 8 = l mod 8"
      using conjunct1 [OF d] conjunct2 [OF f] mod8_split [of k] mod8_split [of l] by argo
    have k51: "k mod 51 = l mod 51"
      by (rule mod_mult_cancel [OF conjunct1 [OF f] coprime_bezout [of _ 7 _ 3]]) simp
    have m: "k mod 408 = l mod 408"
      using residues_unique [OF k8 k51 coprime_bezout [of _ 32 _ 5]] by simp
    have q: "k div 408 < 3" "l div 408 < 3" using kl(1,2) by (simp_all add: div_less_iff_less_mult)
    have "408 * (k div 408) + k mod 408 = k" "408 * (l div 408) + l mod 408 = l" by (rule mult_div_mod_eq)+
    then have "(3 * 136 * (k div 408) + k mod 408 + 2 - k div 408) mod 3 = (3 * 136 * (l div 408) + k mod 408 + 2 - l div 408) mod 3"
      using conjunct2 [OF e] unfolding m by simp
    from third_digit [OF q this] m show "k = l"
      using mult_div_mod_eq [of 408 k] mult_div_mod_eq [of 408 l] by linarith
  qed
  show "mcs7_pos k < 1224" for k
    using b(1) [of k] mod_less_divisor [of 4 k] unfolding pos by linarith
qed

interpretation mcs8: interleaver mcs8_pos 1224 1224
proof
  have pos: "mcs8_pos k = 306 * (2 * (k div 612) + k mod 2) + (3 * (2 * (37 * k mod 51) + k mod 4 div 2) + (k + 2 - k div 204) mod 3)" for k
    using even_mod_102 [of 37 k] unfolding mcs8_pos_def bit2_of(2) by simp
  have b: "3 * (2 * (37 * k mod 51) + k mod 4 div 2) + (k + 2 - k div 204) mod 3 < 306" "(k + 2 - k div 204) mod 3 < 3"
    "k mod 4 div 2 < 2" "k mod 2 < 2" for k :: nat
  proof -
    show r: "(k + 2 - k div 204) mod 3 < 3" "k mod 2 < 2" by simp_all
    show h: "k mod 4 div 2 < 2" by (simp add: div_less_iff_less_mult)
    have "3 * (2 * (37 * k mod 51) + k mod 4 div 2) + (k + 2 - k div 204) mod 3 < 3 * (2 * 51)"
      by (rule digit_bound [OF digit_bound [OF _ h] r(1)]) simp
    then show "3 * (2 * (37 * k mod 51) + k mod 4 div 2) + (k + 2 - k div 204) mod 3 < 306" by simp
  qed
  show "inj_on mcs8_pos {..<1224}"
  proof (rule inj_onI, unfold lessThan_iff)
    fix k l assume kl: "k < 1224" "l < 1224" "mcs8_pos k = mcs8_pos l"
    note d = digits [OF kl(3) [unfolded pos] b(1) b(1)]
    note H = digits [OF conjunct1 [OF d] b(4) b(4)]
    note e = digits [OF conjunct2 [OF d] b(2) b(2)]
    note f = digits [OF conjunct1 [OF e] b(3) b(3)]
    have s: "k mod 4 = 2 * (k mod 4 div 2) + k mod 2" for k :: nat
      using mod_mult2_eq [of k 2 2] bit2_of(2) [of k] by simp
    have k4: "k mod 4 = l mod 4" using conjunct2 [OF H] conjunct2 [OF f] s [of k] s [of l] by argo
    have k51: "k mod 51 = l mod 51"
      by (rule mod_mult_cancel [OF conjunct1 [OF f] coprime_bezout [of _ 40 _ 29]]) simp
    have m: "k mod 204 = l mod 204"
      using residues_unique [OF k4 k51 coprime_bezout [of _ 13 _ 1]] by simp
    have q: "k div 204 mod 3 < 3" "l div 204 mod 3 < 3" by simp_all
    have r: "(k + 2 - k div 204) mod 3 = (3 * 68 * (k div 204 mod 3) + k mod 204 + 2 - k div 204 mod 3) mod 3" for k :: nat
      using third_digit_high [of "k div 204 div 3" "k div 204 mod 3" "k mod 204"] by simp
    have "k div 204 mod 3 = l div 204 mod 3"
      by (rule third_digit [OF q, where m = 68 and p = "k mod 204"]) (use conjunct2 [OF e] r [of k] r [of l] m in argo)
    moreover have "k div 204 div 3 = l div 204 div 3" using conjunct1 [OF H] by (simp add: div_mult2_eq [symmetric])
    ultimately have "k div 204 = l div 204" by (metis div_mult_mod_eq)
    with m show "k = l" by (metis div_mult_mod_eq)
  qed
  show "mcs8_pos k < 1224" if "k < 1224" for k
  proof -
    have "k div 612 < 2" using that by (simp add: div_less_iff_less_mult)
    then have "306 * (2 * (k div 612) + k mod 2) + (3 * (2 * (37 * k mod 51) + k mod 4 div 2) + (k + 2 - k div 204) mod 3) < 306 * (2 * 2)"
      by (intro digit_bound b)
    then show ?thesis unfolding pos by simp
  qed
qed

text \<open>The half-rate table.\<close>

lemma tch_hr_table:
  "length gsm0503_tch_hr_interleaving = 228"
  "distinct (map (\<lambda>(j, B). B * 114 + j) gsm0503_tch_hr_interleaving)"
  "list_all (\<lambda>(j, B). B * 114 + j < 456) gsm0503_tch_hr_interleaving"
  unfolding gsm0503_tch_hr_interleaving_def by simp_all

lemma tch_hr_pos_nth: "k < 228 \<Longrightarrow> tch_hr_pos k = map (\<lambda>(j, B). B * 114 + j) gsm0503_tch_hr_interleaving ! k"
  by (simp add: tch_hr_pos_def tch_hr_table(1))

interpretation tch_hr: interleaver tch_hr_pos 228 456
proof
  show "inj_on tch_hr_pos {..<228}"
  proof (rule inj_onI, unfold lessThan_iff)
    fix k l assume kl: "k < 228" "l < 228" "tch_hr_pos k = tch_hr_pos l"
    then show "k = l"
      using nth_eq_iff_index_eq [OF tch_hr_table(2), of k l] by (simp add: tch_hr_pos_nth tch_hr_table(1))
  qed
  show "tch_hr_pos k < 456" if "k < 228" for k
    using that list_all_length [THEN iffD1, OF tch_hr_table(3)] by (auto simp: tch_hr_pos_def tch_hr_table(1) split: prod.split)
qed

text \<open>
  The MCS-5 table: the twelve entries of a column fall into the same group of twelve positions, the groups of
  two columns differ, and no two rows agree in a column.
\<close>

lemmas mcs5_row_defs = mcs5_row0_def mcs5_row1_def mcs5_row2_def mcs5_row3_def mcs5_row4_def mcs5_row5_def
  mcs5_row6_def mcs5_row7_def mcs5_row8_def mcs5_row9_def mcs5_row10_def mcs5_row11_def

lemma mcs5_columns: "distinct (map (\<lambda>x. x div 12) mcs5_row0)"
  unfolding mcs5_row0_def by simp

lemma mcs5_groups: "list_all (\<lambda>r. map (\<lambda>x. x div 12) r = map (\<lambda>x. x div 12) mcs5_row0) mcs5_rows"
  unfolding mcs5_rows_def mcs5_row_defs by simp

lemma mcs5_rows_bound: "list_all (\<lambda>r. length r = 104 \<and> list_all (\<lambda>x. x < 1248) r) mcs5_rows" "length mcs5_rows = 12"
  unfolding mcs5_rows_def mcs5_row_defs by simp_all

lemma mcs5_rows_differ: "sorted_wrt (list_all2 (\<noteq>)) mcs5_rows"
  unfolding mcs5_rows_def mcs5_row_defs by simp

lemma mcs5_row_facts:
  assumes "i < 12"
  shows "length (mcs5_rows ! i) = 104" "y < 104 \<Longrightarrow> mcs5_rows ! i ! y < 1248"
    "y < 104 \<Longrightarrow> mcs5_rows ! i ! y div 12 = mcs5_row0 ! y div 12"
proof -
  have r: "mcs5_rows ! i \<in> set mcs5_rows" using assms mcs5_rows_bound(2) by simp
  show l: "length (mcs5_rows ! i) = 104" using r mcs5_rows_bound(1) by (auto simp: list_all_iff)
  have l0: "length mcs5_row0 = 104" unfolding mcs5_row0_def by simp
  show "mcs5_rows ! i ! y < 1248" if "y < 104"
    using r mcs5_rows_bound(1) l that by (auto simp: list_all_iff)
  have "map (\<lambda>x. x div 12) (mcs5_rows ! i) = map (\<lambda>x. x div 12) mcs5_row0"
    using r mcs5_groups unfolding list_all_iff by blast
  then have "map (\<lambda>x. x div 12) (mcs5_rows ! i) ! y = map (\<lambda>x. x div 12) mcs5_row0 ! y" by (rule arg_cong)
  then show "mcs5_rows ! i ! y div 12 = mcs5_row0 ! y div 12" if "y < 104"
    using that by (simp only: nth_map l l0)
qed

lemma mcs5_rows_neq: "mcs5_rows ! i ! y \<noteq> mcs5_rows ! j ! y" if "i < j" "j < 12" "y < 104"
  using list_all2_nthD [OF sorted_wrt_nth_less [OF mcs5_rows_differ that(1)], of y] that mcs5_row_facts(1) [of i] mcs5_rows_bound(2)
  by simp

interpretation mcs5: interleaver gsm0503_interleave_mcs5 1248 1248
proof
  have b: "k div 104 < 12" "k mod 104 < 104" if "k < 1248" for k :: nat using that by (simp_all add: div_less_iff_less_mult)
  show "inj_on gsm0503_interleave_mcs5 {..<1248}"
  proof (rule inj_onI, unfold lessThan_iff)
    fix k l assume kl: "k < 1248" "l < 1248" and e: "gsm0503_interleave_mcs5 k = gsm0503_interleave_mcs5 l"
    note K = b [OF kl(1)] and L = b [OF kl(2)]
    have "mcs5_row0 ! (k mod 104) div 12 = mcs5_row0 ! (l mod 104) div 12"
      using e mcs5_row_facts(3) [OF K] mcs5_row_facts(3) [OF L] by (simp only: gsm0503_interleave_mcs5_def)
    moreover have "length mcs5_row0 = 104" unfolding mcs5_row0_def by simp
    ultimately have m: "k mod 104 = l mod 104"
      using nth_eq_iff_index_eq [OF mcs5_columns, of "k mod 104" "l mod 104"] K(2) L(2) by simp
    have "\<not> k div 104 < l div 104" "\<not> l div 104 < k div 104"
      using e mcs5_rows_neq [OF _ L(1) K(2)] mcs5_rows_neq [OF _ K(1) L(2)] unfolding gsm0503_interleave_mcs5_def m by metis+
    then have "k div 104 = l div 104" by linarith
    with m show "k = l" by (metis div_mult_mod_eq)
  qed
  show "gsm0503_interleave_mcs5 k < 1248" if "k < 1248" for k
    using mcs5_row_facts(2) [OF b [OF that]] by (simp only: gsm0503_interleave_mcs5_def)
qed

text \<open>Loops that copy a contiguous range.\<close>

lemma move_loop_range:
  assumes "lo \<le> hi" and "\<And>k. lo \<le> k \<Longrightarrow> k < hi \<Longrightarrow> s k = s lo + (k - lo)" and "\<And>k. lo \<le> k \<Longrightarrow> k < hi \<Longrightarrow> d k = d lo + (k - lo)"
    and "s lo + (hi - lo) \<le> length src" and "d lo + (hi - lo) \<le> N"
  shows "move_loop lo hi s d src (map g [0..<N]) =
    Some (map (\<lambda>i. if d lo \<le> i \<and> i < d lo + (hi - lo) then src ! (s lo + (i - d lo)) else g i) [0..<N])"
proof -
  have "\<exists>r. move_loop lo hi s d src (map g [0..<N]) = Some r \<and> length r = length (map g [0..<N]) \<and>
     (\<forall>k. lo \<le> k \<longrightarrow> k < hi \<longrightarrow> r ! d k = src ! s k) \<and>
     (\<forall>i. i < length (map g [0..<N]) \<longrightarrow> i \<notin> d ` {lo..<hi} \<longrightarrow> r ! i = map g [0..<N] ! i)"
  proof (rule move_loop_spec [OF assms(1)])
    show "s k < length src \<and> d k < length (map g [0..<N])" if "lo \<le> k" "k < hi" for k
      using assms(2,3) [OF that] assms(4,5) that by auto
    show "inj_on d {lo..<hi}"
    proof (rule inj_onI)
      fix x y assume "x \<in> {lo..<hi}" "y \<in> {lo..<hi}" "d x = d y"
      then show "x = y" using assms(3) [of x] assms(3) [of y] by auto
    qed
  qed
  then obtain r where r: "move_loop lo hi s d src (map g [0..<N]) = Some r" "length r = N"
    "\<And>k. lo \<le> k \<Longrightarrow> k < hi \<Longrightarrow> r ! d k = src ! s k"
    "\<And>i. i < N \<Longrightarrow> i \<notin> d ` {lo..<hi} \<Longrightarrow> r ! i = g i"
    by auto
  have "r ! i = (if d lo \<le> i \<and> i < d lo + (hi - lo) then src ! (s lo + (i - d lo)) else g i)" if "i < N" for i
  proof (cases "d lo \<le> i \<and> i < d lo + (hi - lo)")
    case True
    define k where "k = lo + (i - d lo)"
    have k: "lo \<le> k" "k < hi" "i - d lo = k - lo" using True assms(1) by (auto simp: k_def)
    have i: "i = d k" using assms(3) [OF k(1,2)] True k(3) by linarith
    have sk: "s lo + (i - d lo) = s k" using assms(2) [OF k(1,2)] k(3) by simp
    show ?thesis using r(3) [OF k(1,2)] True unfolding sk by (simp add: i)
  next
    case False
    have "i \<notin> d ` {lo..<hi}"
    proof
      assume "i \<in> d ` {lo..<hi}"
      then obtain k where "lo \<le> k" "k < hi" "i = d k" by auto
      with assms(3) [of k] False show False by linarith
    qed
    with r(4) [OF that] show ?thesis unfolding if_not_P [OF False] by simp
  qed
  then have "r = map (\<lambda>i. if d lo \<le> i \<and> i < d lo + (hi - lo) then src ! (s lo + (i - d lo)) else g i) [0..<N]"
    using r(2) by (intro nth_equalityI) auto
  with r(1) show ?thesis by (simp only:)
qed

lemma wr_map: "k < N \<Longrightarrow> wr (map g [0..<N]) k v = Some (map (\<lambda>i. if i = k then v else g i) [0..<N])"
  by (auto simp: c_mem intro!: nth_equalityI)

lemma replicate_map: "replicate N x = map (\<lambda>i. x) [0..<N]"
  by (simp add: map_replicate_const)

lemma list_as_map: "length xs = N \<Longrightarrow> xs = map (\<lambda>i. xs ! i) [0..<N]"
  using map_nth [of xs] by simp

text \<open>Dropping the stealing bits of MCS-1 undoes their insertion.\<close>

lemma mcs1_drop_insert:
  assumes "length c = 452"
  shows "\<exists>cp. mcs1_insert c (replicate 456 0) = Some cp \<and> length cp = 456 \<and> mcs1_drop cp (replicate 452 0) = Some c \<and>
    cp ! 25 = 0 \<and> cp ! 82 = 0 \<and> cp ! 139 = 0 \<and> cp ! 424 = 0"
proof -
  let ?cp = "map (\<lambda>i. if i = 25 \<or> i = 82 \<or> i = 139 \<or> i = 424 then 0 else
    c ! (if i < 25 then i else if i < 82 then i - 1 else if i < 139 then i - 2 else if i < 424 then i - 3 else i - 4)) [0..<456]"
  have "mcs1_insert c (replicate 456 0) = Some ?cp"
    unfolding mcs1_insert_def replicate_map
    by (simp add: move_loop_range wr_map assms)
  moreover have "mcs1_drop ?cp (replicate 452 0) = Some (map (\<lambda>i. c ! i) [0..<452])"
    unfolding mcs1_drop_def replicate_map
    by (simp add: move_loop_range assms)
  ultimately show ?thesis using list_as_map [OF assms] by (intro exI [of _ ?cp]) simp
qed

lemma opt_out_Some [simp]: "opt_out f (Some b) = do { b \<leftarrow> f b; Some (Some b) }" and opt_out_None [simp]: "opt_out f None = Some None"
  by (simp_all add: opt_out_def)

text \<open>Both blocks of MCS-7 and MCS-8.\<close>

lemma two_blocks_roundtrip:
  assumes "interleaver hdr_pos n n" and "interleaver pos 1224 1224"
    and "length hc = n" and "length c1 = 612" and "length c2 = 612" and "length hi = n" and "length di = 1224"
    and "length hc' = n" and "length c1' = 612" and "length c2' = 612"
  shows "\<exists>hi' di'. two_blocks_interleave hdr_pos n pos hc c1 c2 hi di = Some (hi', di') \<and>
    two_blocks_deinterleave hdr_pos n pos (Some hc') (Some (c1', c2')) hi' di' = Some (Some hc, Some (c1, c2))"
proof -
  obtain hi' where h: "scatter hdr_pos n hc hi = Some hi'" "gather hdr_pos n hi' hc' = Some hc"
    using interleaver.roundtrip [OF assms(1,3,6,8)] by blast
  have l: "length (c1 @ c2) = 1224" "length (replicate 1224 (0 :: 'a)) = 1224" using assms by simp_all
  obtain di' where d: "scatter pos 1224 (c1 @ c2) di = Some di'" "gather pos 1224 di' (replicate 1224 0) = Some (c1 @ c2)"
    using interleaver.roundtrip [OF assms(2) l(1) assms(7) l(2)] by blast
  from h d show ?thesis
    by (simp add: two_blocks_interleave_def two_blocks_deinterleave_def memcpy_def assms)
qed

section \<open>Properties of the coding library's interleavers\<close>

text \<open>C11: De-interleaving gives back the block that was interleaved, and both routines stay inside their
  arrays, for the control channels, TCH/FS, TCH/HS and the 22-burst data interleaver, where positions not
  assigned to the block keep their contents (so that blocks can be interleaved diagonally into one buffer).\<close>

theorem speech_interleave_roundtrip:
  assumes "length c = 456" and "length c' = 456" and "length h = 228" and "length h' = 228"
    and "length i4 = 456" and "length i8 = 912" and "length i22 = 2508"
  shows "(\<exists>r. gsm0503_xcch_interleave c i4 = Some r \<and> gsm0503_xcch_deinterleave c' r = Some c)
    \<and> (\<exists>r. gsm0503_tch_fr_interleave c i8 = Some r \<and> gsm0503_tch_fr_deinterleave c' r = Some c
         \<and> (\<forall>i<912. i \<notin> tch_fr_pos ` {..<456} \<longrightarrow> r ! i = i8 ! i))
    \<and> (\<exists>r. gsm0503_tch_hr_interleave h i4 = Some r \<and> gsm0503_tch_hr_deinterleave h' r = Some h
         \<and> (\<forall>i<456. i \<notin> tch_hr_pos ` {..<228} \<longrightarrow> r ! i = i4 ! i))
    \<and> (\<exists>r. gsm0503_tch_f96_interleave c i22 = Some r \<and> gsm0503_tch_f96_deinterleave c' r = Some c
         \<and> (\<forall>i<2508. i \<notin> tch_f96_pos ` {..<456} \<longrightarrow> r ! i = i22 ! i))"
proof (intro conjI)
  show "\<exists>r. gsm0503_xcch_interleave c i4 = Some r \<and> gsm0503_xcch_deinterleave c' r = Some c"
    using xcch.roundtrip [OF assms(1,5,2)] by (auto simp: gsm0503_xcch_interleave_def gsm0503_xcch_deinterleave_def)
  show "\<exists>r. gsm0503_tch_fr_interleave c i8 = Some r \<and> gsm0503_tch_fr_deinterleave c' r = Some c \<and>
      (\<forall>i<912. i \<notin> tch_fr_pos ` {..<456} \<longrightarrow> r ! i = i8 ! i)"
    using tch_fr.roundtrip [OF assms(1,6,2)] by (auto simp: gsm0503_tch_fr_interleave_def gsm0503_tch_fr_deinterleave_def)
  show "\<exists>r. gsm0503_tch_hr_interleave h i4 = Some r \<and> gsm0503_tch_hr_deinterleave h' r = Some h \<and>
      (\<forall>i<456. i \<notin> tch_hr_pos ` {..<228} \<longrightarrow> r ! i = i4 ! i)"
    using tch_hr.roundtrip [OF assms(3,5,4)] by (auto simp: gsm0503_tch_hr_interleave_def gsm0503_tch_hr_deinterleave_def)
  show "\<exists>r. gsm0503_tch_f96_interleave c i22 = Some r \<and> gsm0503_tch_f96_deinterleave c' r = Some c \<and>
      (\<forall>i<2508. i \<notin> tch_f96_pos ` {..<456} \<longrightarrow> r ! i = i22 ! i)"
    using tch_f96.roundtrip [OF assms(1,7,2)] by (auto simp: gsm0503_tch_f96_interleave_def gsm0503_tch_f96_deinterleave_def)
qed

theorem speech_interleave_roundtrip_witness:
  "\<exists>r. gsm0503_tch_fr_interleave (replicate 456 (1 :: nat)) (replicate 912 0) = Some r \<and>
       gsm0503_tch_fr_deinterleave (replicate 456 7) r = Some (replicate 456 1)"
  using speech_interleave_roundtrip [of "replicate 456 1" "replicate 456 (7 :: nat)" "replicate 228 1" "replicate 228 0"
      "replicate 456 0" "replicate 912 0" "replicate 2508 0"]
  by (simp only: length_replicate) blast

text \<open>C28: The EDGE interleavers. De-interleaving gives back header and data of a block interleaved for
  MCS-5 (up and down), and header and both data blocks of MCS-7 and MCS-8.\<close>

theorem edge_interleave_roundtrip:
  fixes h100 :: "'a::zero list"
  assumes "length h100 = 100" "length h124 = 124" "length h136 = 136" "length h160 = 160"
    and "length d = 1248" "length c1 = 612" "length c2 = 612"
  shows "(\<exists>hi di. gsm0503_mcs5_dl_interleave h100 d (replicate 100 0) (replicate 1248 0) = Some (hi, di) \<and>
        gsm0503_mcs5_dl_deinterleave (Some (replicate 100 0)) (Some (replicate 1248 0)) hi di = Some (Some h100, Some d))
    \<and> (\<exists>hi di. gsm0503_mcs5_ul_interleave h136 d (replicate 136 0) (replicate 1248 0) = Some (hi, di) \<and>
        gsm0503_mcs5_ul_deinterleave (Some (replicate 136 0)) (Some (replicate 1248 0)) hi di = Some (Some h136, Some d))
    \<and> (\<exists>hi di. gsm0503_mcs7_dl_interleave h124 c1 c2 (replicate 124 0) (replicate 1224 0) = Some (hi, di) \<and>
        gsm0503_mcs7_dl_deinterleave (Some (replicate 124 0)) (Some (replicate 612 0, replicate 612 0)) hi di = Some (Some h124, Some (c1, c2)))
    \<and> (\<exists>hi di. gsm0503_mcs7_ul_interleave h160 c1 c2 (replicate 160 0) (replicate 1224 0) = Some (hi, di) \<and>
        gsm0503_mcs7_ul_deinterleave (Some (replicate 160 0)) (Some (replicate 612 0, replicate 612 0)) hi di = Some (Some h160, Some (c1, c2)))
    \<and> (\<exists>hi di. gsm0503_mcs8_dl_interleave h124 c1 c2 (replicate 124 0) (replicate 1224 0) = Some (hi, di) \<and>
        gsm0503_mcs8_dl_deinterleave (Some (replicate 124 0)) (Some (replicate 612 0, replicate 612 0)) hi di = Some (Some h124, Some (c1, c2)))
    \<and> (\<exists>hi di. gsm0503_mcs8_ul_interleave h160 c1 c2 (replicate 160 0) (replicate 1224 0) = Some (hi, di) \<and>
        gsm0503_mcs8_ul_deinterleave (Some (replicate 160 0)) (Some (replicate 612 0, replicate 612 0)) hi di = Some (Some h160, Some (c1, c2)))"
proof (intro conjI)
  have r: "length (replicate n (0 :: 'a)) = n" for n by simp
  obtain di where d: "scatter gsm0503_interleave_mcs5 1248 d (replicate 1248 0) = Some di" "gather gsm0503_interleave_mcs5 1248 di (replicate 1248 0) = Some d"
    using mcs5.roundtrip [OF assms(5) r r] by blast
  show "\<exists>hi di. gsm0503_mcs5_dl_interleave h100 d (replicate 100 0) (replicate 1248 0) = Some (hi, di) \<and>
        gsm0503_mcs5_dl_deinterleave (Some (replicate 100 0)) (Some (replicate 1248 0)) hi di = Some (Some h100, Some d)"
    using mcs5_dl_hdr.roundtrip [OF assms(1) r r] d unfolding gsm0503_mcs5_dl_interleave_def gsm0503_mcs5_dl_deinterleave_def by auto
  show "\<exists>hi di. gsm0503_mcs5_ul_interleave h136 d (replicate 136 0) (replicate 1248 0) = Some (hi, di) \<and>
        gsm0503_mcs5_ul_deinterleave (Some (replicate 136 0)) (Some (replicate 1248 0)) hi di = Some (Some h136, Some d)"
    using mcs5_ul_hdr.roundtrip [OF assms(3) r r] d unfolding gsm0503_mcs5_ul_interleave_def gsm0503_mcs5_ul_deinterleave_def by auto
qed (unfold gsm0503_mcs7_dl_interleave_def gsm0503_mcs7_dl_deinterleave_def gsm0503_mcs7_ul_interleave_def gsm0503_mcs7_ul_deinterleave_def
    gsm0503_mcs8_dl_interleave_def gsm0503_mcs8_dl_deinterleave_def gsm0503_mcs8_ul_interleave_def gsm0503_mcs8_ul_deinterleave_def,
  (rule two_blocks_roundtrip; (rule mcs7_dl_hdr.interleaver_axioms mcs7_ul_hdr.interleaver_axioms mcs7.interleaver_axioms mcs8.interleaver_axioms
     assms length_replicate))+)

theorem edge_interleave_roundtrip_witness:
  "\<exists>hi di. gsm0503_mcs8_ul_interleave (replicate 160 (1 :: nat)) (replicate 612 1) (replicate 612 2) (replicate 160 0) (replicate 1224 0) = Some (hi, di) \<and>
        gsm0503_mcs8_ul_deinterleave (Some (replicate 160 0)) (Some (replicate 612 0, replicate 612 0)) hi di =
          Some (Some (replicate 160 1), Some (replicate 612 1, replicate 612 2))"
  using edge_interleave_roundtrip [of "replicate 100 (0 :: nat)" "replicate 124 0" "replicate 136 0" "replicate 160 1" "replicate 1248 0" "replicate 612 1" "replicate 612 2"]
  by (simp only: length_replicate) blast

text \<open>MCS-1 to MCS-4 on the control channel interleaver, with the four extra stealing bits inserted as
  zeros: de-interleaving gives back the stealing flags, header and data of the downlink, and header and data
  of the uplink.\<close>

theorem mcs1_interleave_roundtrip:
  fixes up :: "'a::zero list"
  assumes "length up = 12" "length hl = 68" "length hu = 80" "length dc = 372" "length iB = 456"
  shows "(\<exists>r. gsm0503_mcs1_dl_interleave up hl dc iB = Some r \<and>
        gsm0503_mcs1_dl_deinterleave (Some (replicate 12 0)) (Some (replicate 68 0)) (Some (replicate 372 0)) r = Some (Some up, Some hl, Some dc))
    \<and> (\<exists>r. gsm0503_mcs1_ul_interleave hu dc iB = Some r \<and>
        gsm0503_mcs1_ul_deinterleave (Some (replicate 80 0)) (Some (replicate 372 0)) r = Some (Some hu, Some dc))"
proof -
  have r: "length (replicate 456 (0 :: 'a)) = 456" by simp
  have x: "\<exists>cp r. mcs1_insert c (replicate 456 0) = Some cp \<and> gsm0503_xcch_interleave cp iB = Some r \<and>
    gsm0503_xcch_deinterleave (replicate 456 0) r = Some cp \<and> mcs1_drop cp (replicate 452 0) = Some c" if lc: "length c = 452" for c :: "'a list"
  proof -
    obtain cp where cp: "mcs1_insert c (replicate 456 0) = Some cp" "length cp = 456" "mcs1_drop cp (replicate 452 0) = Some c"
      using mcs1_drop_insert [OF lc] by blast
    then show ?thesis using xcch.roundtrip [OF cp(2) assms(5) r] by (auto simp: gsm0503_xcch_interleave_def gsm0503_xcch_deinterleave_def)
  qed
  let ?cd = "map (\<lambda>i. if 80 \<le> i then dc ! (i - 80) else if 12 \<le> i then hl ! (i - 12) else up ! i) [0..<452]"
  let ?cu = "map (\<lambda>i. if 80 \<le> i then dc ! (i - 80) else hu ! i) [0..<452]"
  have s: "up = map (\<lambda>i. up ! i) [0..<12]" "hl = map (\<lambda>i. hl ! i) [0..<68]" "hu = map (\<lambda>i. hu ! i) [0..<80]" "dc = map (\<lambda>i. dc ! i) [0..<372]"
    using assms list_as_map by blast+
  show ?thesis
  proof
    obtain cp r where c: "mcs1_insert ?cd (replicate 456 0) = Some cp" "gsm0503_xcch_interleave cp iB = Some r"
      "gsm0503_xcch_deinterleave (replicate 456 0) r = Some cp" "mcs1_drop cp (replicate 452 0) = Some ?cd"
      using x [of ?cd] by auto
    have m: "do { c \<leftarrow> move_loop 0 12 (\<lambda>k. k) (\<lambda>k. k) up (replicate 452 0); c \<leftarrow> move_loop 12 80 (\<lambda>k. k - 12) (\<lambda>k. k) hl c;
        move_loop 80 452 (\<lambda>k. k - 80) (\<lambda>k. k) dc c } = Some ?cd"
      unfolding replicate_map by (simp add: move_loop_range assms)
    have u: "move_loop 0 12 (\<lambda>k. k) (\<lambda>k. k) ?cd (replicate 12 0) = Some up" "move_loop 12 80 (\<lambda>k. k) (\<lambda>k. k - 12) ?cd (replicate 68 0) = Some hl"
      "move_loop 80 452 (\<lambda>k. k) (\<lambda>k. k - 80) ?cd (replicate 372 0) = Some dc"
      unfolding replicate_map by (subst s, simp add: move_loop_range assms)+
    show "\<exists>r. gsm0503_mcs1_dl_interleave up hl dc iB = Some r \<and>
        gsm0503_mcs1_dl_deinterleave (Some (replicate 12 0)) (Some (replicate 68 0)) (Some (replicate 372 0)) r = Some (Some up, Some hl, Some dc)"
      using c m u unfolding gsm0503_mcs1_dl_interleave_def gsm0503_mcs1_dl_deinterleave_def
      by (intro exI [of _ r]) (auto simp: bind_eq_Some_conv)
  next
    obtain cp r where c: "mcs1_insert ?cu (replicate 456 0) = Some cp" "gsm0503_xcch_interleave cp iB = Some r"
      "gsm0503_xcch_deinterleave (replicate 456 0) r = Some cp" "mcs1_drop cp (replicate 452 0) = Some ?cu"
      using x [of ?cu] by auto
    have m: "do { c \<leftarrow> move_loop 0 80 (\<lambda>k. k) (\<lambda>k. k) hu (replicate 452 0); move_loop 80 452 (\<lambda>k. k - 80) (\<lambda>k. k) dc c } = Some ?cu"
      unfolding replicate_map by (simp add: move_loop_range assms)
    have u: "move_loop 0 80 (\<lambda>k. k) (\<lambda>k. k) ?cu (replicate 80 0) = Some hu" "move_loop 80 452 (\<lambda>k. k) (\<lambda>k. k - 80) ?cu (replicate 372 0) = Some dc"
      unfolding replicate_map by (subst s, simp add: move_loop_range assms)+
    show "\<exists>r. gsm0503_mcs1_ul_interleave hu dc iB = Some r \<and>
        gsm0503_mcs1_ul_deinterleave (Some (replicate 80 0)) (Some (replicate 372 0)) r = Some (Some hu, Some dc)"
      using c m u unfolding gsm0503_mcs1_ul_interleave_def gsm0503_mcs1_ul_deinterleave_def
      by (intro exI [of _ r]) (auto simp: bind_eq_Some_conv)
  qed
qed

theorem mcs1_interleave_roundtrip_witness:
  "\<exists>r. gsm0503_mcs1_ul_interleave (replicate 80 (1 :: nat)) (replicate 372 2) (replicate 456 0) = Some r \<and>
        gsm0503_mcs1_ul_deinterleave (Some (replicate 80 0)) (Some (replicate 372 0)) r = Some (Some (replicate 80 1), Some (replicate 372 2))"
  using mcs1_interleave_roundtrip [of "replicate 12 (0 :: nat)" "replicate 68 0" "replicate 80 1" "replicate 372 2" "replicate 456 0"]
  by (simp only: length_replicate simp_thms)

end
