(* ===== verification/Burst_Mapping.thy ===== *)
theory Burst_Mapping
  imports Interleaving
begin

text \<open>
  Burst mapping of the coding library, \<open>src/coding/gsm0503_mapping.c\<close>: the 114 coded bits of a normal burst
  with its two stealing flags (116 bits), and the 348 bits of an 8-PSK burst, which carry data, header, stealing
  flags and two fixed bits. \<open>const\<close> pointers that may be \<open>NULL\<close> and outputs that may be \<open>NULL\<close> are options.

  Shown: unmapping gives back what was mapped, for every burst of a block; two half-bursts of different
  blocks share one burst without disturbing each other; the 8-PSK bit swapping exchanges fourteen pairs
  and undoes itself.
\<close>

subsection \<open>Normal bursts\<close>

definition gsm0503_xcch_burst_unmap :: "'a list \<Rightarrow> 'a list \<Rightarrow> 'a option \<Rightarrow> 'a option \<Rightarrow> ('a list \<times> 'a option \<times> 'a option) res" where
  "gsm0503_xcch_burst_unmap iB eB hl hn = do {
     iB \<leftarrow> memcpy iB 0 eB 0 57;
     iB \<leftarrow> memcpy iB 57 eB 59 57;
     hl \<leftarrow> (case hl of None \<Rightarrow> Some None | Some _ \<Rightarrow> do { v \<leftarrow> rd eB 57; Some (Some v) });
     hn \<leftarrow> (case hn of None \<Rightarrow> Some None | Some _ \<Rightarrow> do { v \<leftarrow> rd eB 58; Some (Some v) });
     Some (iB, hl, hn) }"

definition gsm0503_xcch_burst_map :: "'a list \<Rightarrow> 'a list \<Rightarrow> 'a option \<Rightarrow> 'a option \<Rightarrow> 'a list res" where
  "gsm0503_xcch_burst_map iB eB hl hn = do {
     eB \<leftarrow> memcpy eB 0 iB 0 57;
     eB \<leftarrow> memcpy eB 59 iB 57 57;
     eB \<leftarrow> (case hl of None \<Rightarrow> Some eB | Some v \<Rightarrow> wr eB 57 v);
     (case hn of None \<Rightarrow> Some eB | Some v \<Rightarrow> wr eB 58 v) }"

text \<open>\<open>for (i = lo; i < hi; i += 2) dst[d i] = src[s i]\<close>\<close>

function move_loop2 :: "nat \<Rightarrow> nat \<Rightarrow> (nat \<Rightarrow> nat) \<Rightarrow> (nat \<Rightarrow> nat) \<Rightarrow> 'a list \<Rightarrow> 'a list \<Rightarrow> 'a list res" where
  "move_loop2 i hi s d src dst =
     (if i < hi then do { v \<leftarrow> rd src (s i); dst \<leftarrow> wr dst (d i) v; move_loop2 (i + 2) hi s d src dst }
      else Some dst)"
  by pat_completeness auto
termination
  by (relation "measure (\<lambda>(i, hi, s, d, src, dst). hi - i)") auto
declare move_loop2.simps [simp del]

text \<open>The parity argument is 0 or 1 in every caller.\<close>

definition gsm0503_tch_burst_unmap :: "'a list option \<Rightarrow> 'a list \<Rightarrow> 'a option \<Rightarrow> nat \<Rightarrow> ('a list option \<times> 'a option) res" where
  "gsm0503_tch_burst_unmap iB eB h od = do {
     iB \<leftarrow> (case iB of None \<Rightarrow> Some None | Some iB \<Rightarrow> do {
              iB \<leftarrow> move_loop2 od 57 (\<lambda>i. i) (\<lambda>i. i) eB iB;
              iB \<leftarrow> move_loop2 (58 - od) 114 (\<lambda>i. i + 2) (\<lambda>i. i) eB iB;
              Some (Some iB) });
     h \<leftarrow> (case h of None \<Rightarrow> Some None | Some _ \<Rightarrow> do { v \<leftarrow> rd eB (if od = 0 then 58 else 57); Some (Some v) });
     Some (iB, h) }"

definition gsm0503_tch_burst_map :: "'a list \<Rightarrow> 'a list option \<Rightarrow> 'a option \<Rightarrow> nat \<Rightarrow> 'a list option res" where
  "gsm0503_tch_burst_map iB eB h od = (case eB of None \<Rightarrow> Some None | Some eB \<Rightarrow> do {
     eB \<leftarrow> move_loop2 od 57 (\<lambda>i. i) (\<lambda>i. i) iB eB;
     eB \<leftarrow> move_loop2 (58 - od) 114 (\<lambda>i. i) (\<lambda>i. i + 2) iB eB;
     eB \<leftarrow> (case h of None \<Rightarrow> Some eB | Some v \<Rightarrow> wr eB (if od \<noteq> 0 then 57 else 58) v);
     Some (Some eB) })"

subsection \<open>8-PSK bursts\<close>

definition gsm0503_mcs5_dl_burst_map :: "'a::zero list \<Rightarrow> 'a list \<Rightarrow> 'a list \<Rightarrow> 'a list \<Rightarrow> nat \<Rightarrow> 'a list res" where
  "gsm0503_mcs5_dl_burst_map di eB hi up B = do {
     let q = [0, 0, 0, 0, 0, 0, 0, 0];
     eB \<leftarrow> move_loop 0 156 (\<lambda>j. 312 * B + j) (\<lambda>j. j) di eB;
     eB \<leftarrow> move_loop 156 168 (\<lambda>j. 25 * B + j - 156) (\<lambda>j. j) hi eB;
     eB \<leftarrow> move_loop 168 174 (\<lambda>j. 9 * B + j - 168) (\<lambda>j. j) up eB;
     eB \<leftarrow> move_loop 174 176 (\<lambda>j. 2 * B + j - 174) (\<lambda>j. j) q eB;
     eB \<leftarrow> move_loop 176 179 (\<lambda>j. 9 * B + j - 170) (\<lambda>j. j) up eB;
     eB \<leftarrow> move_loop 179 192 (\<lambda>j. 25 * B + j - 167) (\<lambda>j. j) hi eB;
     move_loop 192 348 (\<lambda>j. 312 * B + j - 36) (\<lambda>j. j) di eB }"

definition gsm0503_mcs5_dl_burst_unmap :: "'a list \<Rightarrow> 'a list \<Rightarrow> 'a list \<Rightarrow> 'a list \<Rightarrow> nat \<Rightarrow> ('a list \<times> 'a list \<times> 'a list) res" where
  "gsm0503_mcs5_dl_burst_unmap di eB hi up B = do {
     di \<leftarrow> move_loop 0 156 (\<lambda>j. j) (\<lambda>j. 312 * B + j) eB di;
     hi \<leftarrow> move_loop 156 168 (\<lambda>j. j) (\<lambda>j. 25 * B + j - 156) eB hi;
     up \<leftarrow> move_loop 168 174 (\<lambda>j. j) (\<lambda>j. 9 * B + j - 168) eB up;
     up \<leftarrow> move_loop 176 179 (\<lambda>j. j) (\<lambda>j. 9 * B + j - 170) eB up;
     hi \<leftarrow> move_loop 179 192 (\<lambda>j. j) (\<lambda>j. 25 * B + j - 167) eB hi;
     di \<leftarrow> move_loop 192 348 (\<lambda>j. j) (\<lambda>j. 312 * B + j - 36) eB di;
     Some (di, hi, up) }"

definition gsm0503_mcs5_ul_burst_map :: "'a::zero list \<Rightarrow> 'a list \<Rightarrow> 'a list \<Rightarrow> nat \<Rightarrow> 'a list res" where
  "gsm0503_mcs5_ul_burst_map di eB hi B = do {
     eB \<leftarrow> move_loop 0 156 (\<lambda>j. 312 * B + j) (\<lambda>j. j) di eB;
     eB \<leftarrow> move_loop 156 174 (\<lambda>j. 34 * B + j - 156) (\<lambda>j. j) hi eB;
     eB \<leftarrow> for_loop 174 176 (\<lambda>j eB. wr eB j 0) eB;
     eB \<leftarrow> move_loop 176 192 (\<lambda>j. 34 * B + j - 158) (\<lambda>j. j) hi eB;
     move_loop 192 348 (\<lambda>j. 312 * B + j - 36) (\<lambda>j. j) di eB }"

definition gsm0503_mcs5_ul_burst_unmap :: "'a list \<Rightarrow> 'a list \<Rightarrow> 'a list \<Rightarrow> nat \<Rightarrow> ('a list \<times> 'a list) res" where
  "gsm0503_mcs5_ul_burst_unmap di eB hi B = do {
     di \<leftarrow> move_loop 0 156 (\<lambda>j. j) (\<lambda>j. 312 * B + j) eB di;
     hi \<leftarrow> move_loop 156 174 (\<lambda>j. j) (\<lambda>j. 34 * B + j - 156) eB hi;
     hi \<leftarrow> move_loop 176 192 (\<lambda>j. j) (\<lambda>j. 34 * B + j - 158) eB hi;
     di \<leftarrow> move_loop 192 348 (\<lambda>j. j) (\<lambda>j. 312 * B + j - 36) eB di;
     Some (di, hi) }"

definition gsm0503_mcs7_dl_burst_map :: "'a::{zero,one} list \<Rightarrow> 'a list \<Rightarrow> 'a list \<Rightarrow> 'a list \<Rightarrow> nat \<Rightarrow> 'a list res" where
  "gsm0503_mcs7_dl_burst_map di eB hi up B = do {
     let q = [1, 1, 1, 0, 0, 1, 1, 1];
     eB \<leftarrow> move_loop 0 153 (\<lambda>j. 306 * B + j) (\<lambda>j. j) di eB;
     eB \<leftarrow> move_loop 153 168 (\<lambda>j. 31 * B + j - 153) (\<lambda>j. j) hi eB;
     eB \<leftarrow> move_loop 168 174 (\<lambda>j. 9 * B + j - 168) (\<lambda>j. j) up eB;
     eB \<leftarrow> move_loop 174 176 (\<lambda>j. 2 * B + j - 174) (\<lambda>j. j) q eB;
     eB \<leftarrow> move_loop 176 179 (\<lambda>j. 9 * B + j - 170) (\<lambda>j. j) up eB;
     eB \<leftarrow> move_loop 179 195 (\<lambda>j. 31 * B + j - 164) (\<lambda>j. j) hi eB;
     move_loop 195 348 (\<lambda>j. 306 * B + j - 42) (\<lambda>j. j) di eB }"

definition gsm0503_mcs7_dl_burst_unmap :: "'a list \<Rightarrow> 'a list \<Rightarrow> 'a list \<Rightarrow> 'a list \<Rightarrow> nat \<Rightarrow> ('a list \<times> 'a list \<times> 'a list) res" where
  "gsm0503_mcs7_dl_burst_unmap di eB hi up B = do {
     di \<leftarrow> move_loop 0 153 (\<lambda>j. j) (\<lambda>j. 306 * B + j) eB di;
     hi \<leftarrow> move_loop 153 168 (\<lambda>j. j) (\<lambda>j. 31 * B + j - 153) eB hi;
     up \<leftarrow> move_loop 168 174 (\<lambda>j. j) (\<lambda>j. 9 * B + j - 168) eB up;
     up \<leftarrow> move_loop 176 179 (\<lambda>j. j) (\<lambda>j. 9 * B + j - 170) eB up;
     hi \<leftarrow> move_loop 179 195 (\<lambda>j. j) (\<lambda>j. 31 * B + j - 164) eB hi;
     di \<leftarrow> move_loop 195 348 (\<lambda>j. j) (\<lambda>j. 306 * B + j - 42) eB di;
     Some (di, hi, up) }"

definition gsm0503_mcs7_ul_burst_map :: "'a::{zero,one} list \<Rightarrow> 'a list \<Rightarrow> 'a list \<Rightarrow> nat \<Rightarrow> 'a list res" where
  "gsm0503_mcs7_ul_burst_map di eB hi B = do {
     let q = [1, 1, 1, 0, 0, 1, 1, 1];
     eB \<leftarrow> move_loop 0 153 (\<lambda>j. 306 * B + j) (\<lambda>j. j) di eB;
     eB \<leftarrow> move_loop 153 174 (\<lambda>j. 40 * B + j - 153) (\<lambda>j. j) hi eB;
     eB \<leftarrow> move_loop 174 176 (\<lambda>j. 2 * B + j - 174) (\<lambda>j. j) q eB;
     eB \<leftarrow> move_loop 176 195 (\<lambda>j. 40 * B + j - 155) (\<lambda>j. j) hi eB;
     move_loop 195 348 (\<lambda>j. 306 * B + j - 42) (\<lambda>j. j) di eB }"

definition gsm0503_mcs7_ul_burst_unmap :: "'a list \<Rightarrow> 'a list \<Rightarrow> 'a list \<Rightarrow> nat \<Rightarrow> ('a list \<times> 'a list) res" where
  "gsm0503_mcs7_ul_burst_unmap di eB hi B = do {
     di \<leftarrow> move_loop 0 153 (\<lambda>j. j) (\<lambda>j. 306 * B + j) eB di;
     hi \<leftarrow> move_loop 153 174 (\<lambda>j. j) (\<lambda>j. 40 * B + j - 153) eB hi;
     hi \<leftarrow> move_loop 176 195 (\<lambda>j. j) (\<lambda>j. 40 * B + j - 155) eB hi;
     di \<leftarrow> move_loop 195 348 (\<lambda>j. j) (\<lambda>j. 306 * B + j - 42) eB di;
     Some (di, hi) }"

text \<open>The fourteen exchanged pairs: \<open>t[n] = eB[a]\<close> for all, then \<open>eB[a] = eB[b]\<close> for all, then \<open>eB[b] = t[n]\<close> for all.\<close>

definition swap_pairs :: "(nat \<times> nat) list" where
  "swap_pairs = [(155, 142), (158, 144), (161, 145), (164, 147), (167, 148), (170, 150), (173, 151),
                 (195, 176), (196, 179), (198, 182), (199, 185), (201, 188), (202, 191), (204, 194)]"

fun read_all :: "'a list \<Rightarrow> (nat \<times> nat) list \<Rightarrow> 'a list res" where
  "read_all eB [] = Some []"
| "read_all eB ((a, b) # ps) = do { v \<leftarrow> rd eB a; t \<leftarrow> read_all eB ps; Some (v # t) }"

fun copy_all :: "(nat \<times> nat) list \<Rightarrow> 'a list \<Rightarrow> 'a list res" where
  "copy_all [] eB = Some eB"
| "copy_all ((a, b) # ps) eB = do { v \<leftarrow> rd eB b; eB \<leftarrow> wr eB a v; copy_all ps eB }"

fun write_all :: "(nat \<times> nat) list \<Rightarrow> 'a list \<Rightarrow> 'a list \<Rightarrow> 'a list res" where
  "write_all ((a, b) # ps) (v # t) eB = do { eB \<leftarrow> wr eB b v; write_all ps t eB }"
| "write_all _ _ eB = Some eB"

definition gsm0503_mcs5_burst_swap :: "'a list \<Rightarrow> 'a list res" where
  "gsm0503_mcs5_burst_swap eB = do {
     t \<leftarrow> read_all eB swap_pairs;
     eB \<leftarrow> copy_all swap_pairs eB;
     write_all swap_pairs t eB }"

section \<open>Properties\<close>

lemma move_loop2_range:
  assumes "hi + a \<le> length src" and "hi + b \<le> N"
  shows "move_loop2 i hi (\<lambda>k. k + a) (\<lambda>k. k + b) src (map g [0..<N]) =
    Some (map (\<lambda>j. if i + b \<le> j \<and> j < hi + b \<and> even (i + b + j) then src ! (j - b + a) else g j) [0..<N])"
proof (induction "hi - i" arbitrary: i g rule: less_induct)
  case less
  show ?case
  proof (cases "i < hi")
    case True
    let ?g = "\<lambda>j. if j = i + b then src ! (i + a) else g j"
    have b: "i + a < length src" "i + b < N" using assms True by linarith+
    have "move_loop2 i hi (\<lambda>k. k + a) (\<lambda>k. k + b) src (map g [0..<N]) = move_loop2 (i + 2) hi (\<lambda>k. k + a) (\<lambda>k. k + b) src (map ?g [0..<N])"
      by (subst move_loop2.simps) (simp only: True if_True rd_Some [OF b(1)] wr_map [OF b(2)] bind.simps)
    also have "\<dots> = Some (map (\<lambda>j. if i + 2 + b \<le> j \<and> j < hi + b \<and> even (i + 2 + b + j) then src ! (j - b + a) else ?g j) [0..<N])"
      by (rule less) (use True in linarith)
    also have "\<dots> = Some (map (\<lambda>j. if i + b \<le> j \<and> j < hi + b \<and> even (i + b + j) then src ! (j - b + a) else g j) [0..<N])"
    proof (rule arg_cong [of _ _ Some], rule map_cong [OF refl])
      fix j
      consider "j = i + b" | "j = Suc (i + b)" | "j < i + b" | "i + 2 + b \<le> j" by linarith
      then show "(if i + 2 + b \<le> j \<and> j < hi + b \<and> even (i + 2 + b + j) then src ! (j - b + a) else ?g j) =
        (if i + b \<le> j \<and> j < hi + b \<and> even (i + b + j) then src ! (j - b + a) else g j)"
        using True by cases simp_all
    qed
    finally show ?thesis .
  next
    case False
    then show ?thesis by (subst move_loop2.simps) (auto intro!: map_cong)
  qed
qed

lemmas move_loop2_simps = move_loop2_range [where a = 0 and b = 0, simplified] move_loop2_range [where a = 2 and b = 0, simplified]
  move_loop2_range [where a = 0 and b = 2, simplified]

lemma parity_gaps: "even x \<Longrightarrow> 59 \<le> x \<Longrightarrow> 60 \<le> x" "even x \<Longrightarrow> \<not> x < 57 \<Longrightarrow> 58 \<le> x" "odd x \<Longrightarrow> Suc 0 \<le> x"
  for x :: nat
  by presburger+

text \<open>Two half-bursts in one burst: the even bits of one block and the odd bits of another.\<close>

lemma tch_burst_map_form:
  assumes "length iB = 114" and "od = 0 \<or> od = 1"
  shows "gsm0503_tch_burst_map iB (Some (map g [0..<116])) (Some h) od =
    Some (Some (map (\<lambda>j. if j = 58 - od then h else if j < 57 \<and> even (j + od) then iB ! j
      else if 59 \<le> j \<and> even (j + od) then iB ! (j - 2) else g j) [0..<116]))"
  using assms(2)
  by (elim disjE; simp add: gsm0503_tch_burst_map_def move_loop2_simps wr_map assms(1)) (use parity_gaps in blast)+

lemma tch_burst_unmap_form:
  assumes "length eB = 116" and "od = 0 \<or> od = 1"
  shows "gsm0503_tch_burst_unmap (Some (map g [0..<114])) eB (Some h) od =
    Some (Some (map (\<lambda>j. if even (j + od) then eB ! (if j < 57 then j else j + 2) else g j) [0..<114]), Some (eB ! (58 - od)))"
  using assms(2)
  by (elim disjE; simp add: gsm0503_tch_burst_unmap_def move_loop2_simps c_mem assms(1)) (use parity_gaps in blast)+

lemma tch_burst_share:
  assumes "length a = 114" and "length b = 114" and "length eB = 116" and "length i0 = 114" and "length i1 = 114"
  shows "\<exists>e1 e2. gsm0503_tch_burst_map a (Some eB) (Some h0) 0 = Some (Some e1) \<and> gsm0503_tch_burst_map b (Some e1) (Some h1) 1 = Some (Some e2) \<and>
     gsm0503_tch_burst_unmap (Some i0) e2 (Some x) 0 = Some (Some (map (\<lambda>j. if even j then a ! j else i0 ! j) [0..<114]), Some h0) \<and>
     gsm0503_tch_burst_unmap (Some i1) e2 (Some y) 1 = Some (Some (map (\<lambda>j. if odd j then b ! j else i1 ! j) [0..<114]), Some h1)"
proof -
  let ?e1 = "map (\<lambda>j. if j = 58 then h0 else if j < 57 \<and> even j then a ! j else if 59 \<le> j \<and> even j then a ! (j - 2) else eB ! j) [0..<116]"
  let ?e2 = "map (\<lambda>j. if j = 57 then h1 else if j < 57 \<and> odd j then b ! j else if 59 \<le> j \<and> odd j then b ! (j - 2) else
     if j = 58 then h0 else if j < 57 \<and> even j then a ! j else if 59 \<le> j \<and> even j then a ! (j - 2) else eB ! j) [0..<116]"
  have m: "gsm0503_tch_burst_map a (Some eB) (Some h0) 0 = Some (Some ?e1)" "gsm0503_tch_burst_map b (Some ?e1) (Some h1) 1 = Some (Some ?e2)"
    using tch_burst_map_form [OF assms(1), of 0 "nth eB" h0] tch_burst_map_form [OF assms(2), of 1] list_as_map [OF assms(3)] by simp_all
  have u0: "gsm0503_tch_burst_unmap (Some i0) ?e2 (Some x) 0 = Some (Some (map (\<lambda>j. if even j then a ! j else i0 ! j) [0..<114]), Some h0)"
    using tch_burst_unmap_form [of ?e2 0 "nth i0" x] list_as_map [OF assms(4)] by simp
  have u1: "gsm0503_tch_burst_unmap (Some i1) ?e2 (Some y) 1 = Some (Some (map (\<lambda>j. if odd j then b ! j else i1 ! j) [0..<114]), Some h1)"
    using tch_burst_unmap_form [of ?e2 1 "nth i1" y] list_as_map [OF assms(5)] by simp
  from m u0 u1 show ?thesis by blast
qed

text \<open>Section \<open>B\<close> of \<open>n\<close> elements taken from \<open>src\<close>, the rest from \<open>dst\<close>.\<close>

definition section_of :: "nat \<Rightarrow> nat \<Rightarrow> 'a list \<Rightarrow> 'a list \<Rightarrow> 'a list" where
  "section_of B n src dst = map (\<lambda>i. if n * B \<le> i \<and> i < n * B + n then src ! i else dst ! i) [0..<length dst]"

text \<open>The four sections together are the whole array.\<close>

lemma sections_complete:
  assumes "length src = 4 * n" and "length dst = 4 * n"
  shows "section_of 3 n src (section_of 2 n src (section_of 1 n src (section_of 0 n src dst))) = src"
  by (rule nth_equalityI) (auto simp: section_of_def assms)

lemma write_zeros: "for_loop 174 176 (\<lambda>j eB. wr eB j 0) (map g [0..<348]) = Some (map (\<lambda>i. if i = 175 then 0 else if i = 174 then 0 else g i) [0..<348])"
  by (simp add: for_loop_step for_loop_done wr_map)

lemma mcs5_dl_burst_roundtrip:
  fixes di :: "'a::{zero,one} list"
  assumes "B < 4" "length di = 1248" "length hi = 100" "length di' = 1248" "length hi' = 100" "length eB = 348" "length up = 36" "length up' = 36"
  shows "\<exists>e. gsm0503_mcs5_dl_burst_map di eB hi up B = Some e \<and> length e = 348 \<and> e ! 174 = [0, 0, 0, 0, 0, 0, 0, 0 :: 'a] ! (2 * B) \<and> e ! 175 = [0, 0, 0, 0, 0, 0, 0, 0 :: 'a] ! (2 * B + 1) \<and>
    gsm0503_mcs5_dl_burst_unmap di' e hi' up' B = Some (section_of B 312 di di', section_of B 25 hi hi', section_of B 9 up up')"
proof -
  let ?e = "map (\<lambda>j. if j < 156 then di ! (312 * B + j) else if j < 168 then hi ! (25 * B + j - 156) else if j < 174 then up ! (9 * B + j - 168) else if j < 176 then [0, 0, 0, 0, 0, 0, 0, 0 :: 'a] ! (2 * B + j - 174) else if j < 179 then up ! (9 * B + j - 170) else if j < 192 then hi ! (25 * B + j - 167) else di ! (312 * B + j - 36)) [0..<348]"
  have B: "B = 0 \<or> B = 1 \<or> B = 2 \<or> B = 3" using assms(1) by auto
  have m: "gsm0503_mcs5_dl_burst_map di (map (nth eB) [0..<348]) hi up B = Some ?e"
    using B by (elim disjE) (simp_all add: gsm0503_mcs5_dl_burst_map_def move_loop_range write_zeros nth_Cons' assms)
  define e where "e = ?e"
  have le: "length e = 348" and e: "\<And>j. j < 348 \<Longrightarrow> e ! j = (if j < 156 then di ! (312 * B + j) else if j < 168 then hi ! (25 * B + j - 156) else if j < 174 then up ! (9 * B + j - 168) else if j < 176 then [0, 0, 0, 0, 0, 0, 0, 0 :: 'a] ! (2 * B + j - 174) else if j < 179 then up ! (9 * B + j - 170) else if j < 192 then hi ! (25 * B + j - 167) else di ! (312 * B + j - 36))" unfolding e_def by simp_all
  have u: "gsm0503_mcs5_dl_burst_unmap (map (nth di') [0..<1248]) e (map (nth hi') [0..<100]) (map (nth up') [0..<36]) B =
     Some (section_of B 312 di di', section_of B 25 hi hi', section_of B 9 up up')"
    using B by (elim disjE; simp add: gsm0503_mcs5_dl_burst_unmap_def section_of_def move_loop_range le assms) (auto simp: e)
  have q: "e ! 174 = [0, 0, 0, 0, 0, 0, 0, 0 :: 'a] ! (2 * B) \<and> e ! 175 = [0, 0, 0, 0, 0, 0, 0, 0 :: 'a] ! (2 * B + 1)" using B by (elim disjE) (simp_all add: e)
  show ?thesis
    using m [folded e_def] u q le unfolding list_as_map [OF assms(4), symmetric] list_as_map [OF assms(5), symmetric] list_as_map [OF assms(6), symmetric] list_as_map [OF assms(8), symmetric] 
    by (intro exI [of _ e] conjI) simp_all
qed

lemma mcs5_ul_burst_roundtrip:
  fixes di :: "'a::{zero,one} list"
  assumes "B < 4" "length di = 1248" "length hi = 136" "length di' = 1248" "length hi' = 136" "length eB = 348"
  shows "\<exists>e. gsm0503_mcs5_ul_burst_map di eB hi B = Some e \<and> length e = 348 \<and> e ! 174 = [0, 0, 0, 0, 0, 0, 0, 0 :: 'a] ! (2 * B) \<and> e ! 175 = [0, 0, 0, 0, 0, 0, 0, 0 :: 'a] ! (2 * B + 1) \<and>
    gsm0503_mcs5_ul_burst_unmap di' e hi' B = Some (section_of B 312 di di', section_of B 34 hi hi')"
proof -
  let ?e = "map (\<lambda>j. if j < 156 then di ! (312 * B + j) else if j < 174 then hi ! (34 * B + j - 156) else if j < 176 then 0 else if j < 192 then hi ! (34 * B + j - 158) else di ! (312 * B + j - 36)) [0..<348]"
  have B: "B = 0 \<or> B = 1 \<or> B = 2 \<or> B = 3" using assms(1) by auto
  have m: "gsm0503_mcs5_ul_burst_map di (map (nth eB) [0..<348]) hi B = Some ?e"
    using B by (elim disjE) (simp_all add: gsm0503_mcs5_ul_burst_map_def move_loop_range write_zeros nth_Cons' assms)
  define e where "e = ?e"
  have le: "length e = 348" and e: "\<And>j. j < 348 \<Longrightarrow> e ! j = (if j < 156 then di ! (312 * B + j) else if j < 174 then hi ! (34 * B + j - 156) else if j < 176 then 0 else if j < 192 then hi ! (34 * B + j - 158) else di ! (312 * B + j - 36))" unfolding e_def by simp_all
  have u: "gsm0503_mcs5_ul_burst_unmap (map (nth di') [0..<1248]) e (map (nth hi') [0..<136]) B =
     Some (section_of B 312 di di', section_of B 34 hi hi')"
    using B by (elim disjE; simp add: gsm0503_mcs5_ul_burst_unmap_def section_of_def move_loop_range le assms) (auto simp: e)
  have q: "e ! 174 = [0, 0, 0, 0, 0, 0, 0, 0 :: 'a] ! (2 * B) \<and> e ! 175 = [0, 0, 0, 0, 0, 0, 0, 0 :: 'a] ! (2 * B + 1)" using B by (elim disjE) (simp_all add: e)
  show ?thesis
    using m [folded e_def] u q le unfolding list_as_map [OF assms(4), symmetric] list_as_map [OF assms(5), symmetric] list_as_map [OF assms(6), symmetric] 
    by (intro exI [of _ e] conjI) simp_all
qed

lemma mcs7_dl_burst_roundtrip:
  fixes di :: "'a::{zero,one} list"
  assumes "B < 4" "length di = 1224" "length hi = 124" "length di' = 1224" "length hi' = 124" "length eB = 348" "length up = 36" "length up' = 36"
  shows "\<exists>e. gsm0503_mcs7_dl_burst_map di eB hi up B = Some e \<and> length e = 348 \<and> e ! 174 = [1, 1, 1, 0, 0, 1, 1, 1 :: 'a] ! (2 * B) \<and> e ! 175 = [1, 1, 1, 0, 0, 1, 1, 1 :: 'a] ! (2 * B + 1) \<and>
    gsm0503_mcs7_dl_burst_unmap di' e hi' up' B = Some (section_of B 306 di di', section_of B 31 hi hi', section_of B 9 up up')"
proof -
  let ?e = "map (\<lambda>j. if j < 153 then di ! (306 * B + j) else if j < 168 then hi ! (31 * B + j - 153) else if j < 174 then up ! (9 * B + j - 168) else if j < 176 then [1, 1, 1, 0, 0, 1, 1, 1 :: 'a] ! (2 * B + j - 174) else if j < 179 then up ! (9 * B + j - 170) else if j < 195 then hi ! (31 * B + j - 164) else di ! (306 * B + j - 42)) [0..<348]"
  have B: "B = 0 \<or> B = 1 \<or> B = 2 \<or> B = 3" using assms(1) by auto
  have m: "gsm0503_mcs7_dl_burst_map di (map (nth eB) [0..<348]) hi up B = Some ?e"
    using B by (elim disjE) (simp_all add: gsm0503_mcs7_dl_burst_map_def move_loop_range write_zeros nth_Cons' assms)
  define e where "e = ?e"
  have le: "length e = 348" and e: "\<And>j. j < 348 \<Longrightarrow> e ! j = (if j < 153 then di ! (306 * B + j) else if j < 168 then hi ! (31 * B + j - 153) else if j < 174 then up ! (9 * B + j - 168) else if j < 176 then [1, 1, 1, 0, 0, 1, 1, 1 :: 'a] ! (2 * B + j - 174) else if j < 179 then up ! (9 * B + j - 170) else if j < 195 then hi ! (31 * B + j - 164) else di ! (306 * B + j - 42))" unfolding e_def by simp_all
  have u: "gsm0503_mcs7_dl_burst_unmap (map (nth di') [0..<1224]) e (map (nth hi') [0..<124]) (map (nth up') [0..<36]) B =
     Some (section_of B 306 di di', section_of B 31 hi hi', section_of B 9 up up')"
    using B by (elim disjE; simp add: gsm0503_mcs7_dl_burst_unmap_def section_of_def move_loop_range le assms) (auto simp: e)
  have q: "e ! 174 = [1, 1, 1, 0, 0, 1, 1, 1 :: 'a] ! (2 * B) \<and> e ! 175 = [1, 1, 1, 0, 0, 1, 1, 1 :: 'a] ! (2 * B + 1)" using B by (elim disjE) (simp_all add: e)
  show ?thesis
    using m [folded e_def] u q le unfolding list_as_map [OF assms(4), symmetric] list_as_map [OF assms(5), symmetric] list_as_map [OF assms(6), symmetric] list_as_map [OF assms(8), symmetric] 
    by (intro exI [of _ e] conjI) simp_all
qed

lemma mcs7_ul_burst_roundtrip:
  fixes di :: "'a::{zero,one} list"
  assumes "B < 4" "length di = 1224" "length hi = 160" "length di' = 1224" "length hi' = 160" "length eB = 348"
  shows "\<exists>e. gsm0503_mcs7_ul_burst_map di eB hi B = Some e \<and> length e = 348 \<and> e ! 174 = [1, 1, 1, 0, 0, 1, 1, 1 :: 'a] ! (2 * B) \<and> e ! 175 = [1, 1, 1, 0, 0, 1, 1, 1 :: 'a] ! (2 * B + 1) \<and>
    gsm0503_mcs7_ul_burst_unmap di' e hi' B = Some (section_of B 306 di di', section_of B 40 hi hi')"
proof -
  let ?e = "map (\<lambda>j. if j < 153 then di ! (306 * B + j) else if j < 174 then hi ! (40 * B + j - 153) else if j < 176 then [1, 1, 1, 0, 0, 1, 1, 1 :: 'a] ! (2 * B + j - 174) else if j < 195 then hi ! (40 * B + j - 155) else di ! (306 * B + j - 42)) [0..<348]"
  have B: "B = 0 \<or> B = 1 \<or> B = 2 \<or> B = 3" using assms(1) by auto
  have m: "gsm0503_mcs7_ul_burst_map di (map (nth eB) [0..<348]) hi B = Some ?e"
    using B by (elim disjE) (simp_all add: gsm0503_mcs7_ul_burst_map_def move_loop_range write_zeros nth_Cons' assms)
  define e where "e = ?e"
  have le: "length e = 348" and e: "\<And>j. j < 348 \<Longrightarrow> e ! j = (if j < 153 then di ! (306 * B + j) else if j < 174 then hi ! (40 * B + j - 153) else if j < 176 then [1, 1, 1, 0, 0, 1, 1, 1 :: 'a] ! (2 * B + j - 174) else if j < 195 then hi ! (40 * B + j - 155) else di ! (306 * B + j - 42))" unfolding e_def by simp_all
  have u: "gsm0503_mcs7_ul_burst_unmap (map (nth di') [0..<1224]) e (map (nth hi') [0..<160]) B =
     Some (section_of B 306 di di', section_of B 40 hi hi')"
    using B by (elim disjE; simp add: gsm0503_mcs7_ul_burst_unmap_def section_of_def move_loop_range le assms) (auto simp: e)
  have q: "e ! 174 = [1, 1, 1, 0, 0, 1, 1, 1 :: 'a] ! (2 * B) \<and> e ! 175 = [1, 1, 1, 0, 0, 1, 1, 1 :: 'a] ! (2 * B + 1)" using B by (elim disjE) (simp_all add: e)
  show ?thesis
    using m [folded e_def] u q le unfolding list_as_map [OF assms(4), symmetric] list_as_map [OF assms(5), symmetric] list_as_map [OF assms(6), symmetric] 
    by (intro exI [of _ e] conjI) simp_all
qed

lemma burst_swap_exchange:
  assumes "length eB = 348"
  shows "\<exists>r. gsm0503_mcs5_burst_swap eB = Some r \<and> length r = 348 \<and>
    (\<forall>(a, b) \<in> set swap_pairs. r ! a = eB ! b \<and> r ! b = eB ! a) \<and>
    (\<forall>i < 348. i \<notin> fst ` set swap_pairs \<union> snd ` set swap_pairs \<longrightarrow> r ! i = eB ! i)"
proof -
  obtain r where r: "gsm0503_mcs5_burst_swap eB = Some r" using assms by (simp add: gsm0503_mcs5_burst_swap_def swap_pairs_def c_mem)
  have "length r = 348 \<and> (\<forall>(a, b) \<in> set swap_pairs. r ! a = eB ! b \<and> r ! b = eB ! a) \<and>
     (\<forall>i < 348. i \<notin> fst ` set swap_pairs \<union> snd ` set swap_pairs \<longrightarrow> r ! i = eB ! i)"
    using r assms by (auto simp: gsm0503_mcs5_burst_swap_def swap_pairs_def c_mem)
  with r show ?thesis by blast
qed

lemma burst_swap_involution:
  assumes "length eB = 348"
  shows "\<exists>r. gsm0503_mcs5_burst_swap eB = Some r \<and> gsm0503_mcs5_burst_swap r = Some eB \<and> (\<forall>(a, b) \<in> set swap_pairs. r ! a = eB ! b \<and> r ! b = eB ! a)"
proof -
  obtain r where r: "gsm0503_mcs5_burst_swap eB = Some r" "length r = 348" "\<forall>(a, b) \<in> set swap_pairs. r ! a = eB ! b \<and> r ! b = eB ! a"
    "\<forall>i < 348. i \<notin> fst ` set swap_pairs \<union> snd ` set swap_pairs \<longrightarrow> r ! i = eB ! i" using burst_swap_exchange [OF assms] by blast
  obtain t where t: "gsm0503_mcs5_burst_swap r = Some t" "length t = 348" "\<forall>(a, b) \<in> set swap_pairs. t ! a = r ! b \<and> t ! b = r ! a"
    "\<forall>i < 348. i \<notin> fst ` set swap_pairs \<union> snd ` set swap_pairs \<longrightarrow> t ! i = r ! i" using burst_swap_exchange [OF r(2)] by blast
  have "t = eB"
  proof (rule nth_equalityI)
    show "length t = length eB" using t(2) assms by simp
    fix i assume "i < length t"
    then show "t ! i = eB ! i" using r(3,4) t(2,3,4)
      by (cases "i \<in> fst ` set swap_pairs \<union> snd ` set swap_pairs") (fastforce, simp)
  qed
  with r(1,3) t(1) show ?thesis by blast
qed

section \<open>Properties of the burst mapping\<close>

text \<open>C29: A normal burst. For the control channels unmapping gives back the 114 bits and both stealing
  flags. For the traffic channels, the even bits of one block and the odd bits of another block, each with its
  stealing flag, share one burst: unmapping either parity gives back that block's bits and flag and leaves the
  bits of the other parity of the output alone.\<close>

theorem normal_burst_roundtrip:
  assumes "length a = 114" and "length b = 114" and "length eB = 116" and "length i0 = 114" and "length i1 = 114"
  shows "(\<exists>e. gsm0503_xcch_burst_map a eB (Some h0) (Some h1) = Some e \<and>
        gsm0503_xcch_burst_unmap i0 e (Some x) (Some y) = Some (a, Some h0, Some h1))
    \<and> (\<exists>e1 e2. gsm0503_tch_burst_map a (Some eB) (Some h0) 0 = Some (Some e1) \<and> gsm0503_tch_burst_map b (Some e1) (Some h1) 1 = Some (Some e2) \<and>
        gsm0503_tch_burst_unmap (Some i0) e2 (Some x) 0 = Some (Some (map (\<lambda>j. if even j then a ! j else i0 ! j) [0..<114]), Some h0) \<and>
        gsm0503_tch_burst_unmap (Some i1) e2 (Some y) 1 = Some (Some (map (\<lambda>j. if odd j then b ! j else i1 ! j) [0..<114]), Some h1))"
proof
  have "take 57 a @ take 57 (drop 57 a) = a" using assms(1) by (metis append_take_drop_id length_drop take_all_iff diff_add_inverse numeral_Bit0 order_refl add_diff_cancel_left')
  then show "\<exists>e. gsm0503_xcch_burst_map a eB (Some h0) (Some h1) = Some e \<and> gsm0503_xcch_burst_unmap i0 e (Some x) (Some y) = Some (a, Some h0, Some h1)"
    using assms by (simp add: gsm0503_xcch_burst_map_def gsm0503_xcch_burst_unmap_def c_mem drop_update_cancel drop_update_swap take_update_cancel nth_append)
qed (rule tch_burst_share [OF assms])

theorem normal_burst_roundtrip_witness:
  "\<exists>e. gsm0503_xcch_burst_map (replicate 114 (1 :: nat)) (replicate 116 0) (Some 2) (Some 3) = Some e \<and>
       gsm0503_xcch_burst_unmap (replicate 114 0) e (Some 0) (Some 0) = Some (replicate 114 1, Some 2, Some 3)"
  using normal_burst_roundtrip [of "replicate 114 (1 :: nat)" "replicate 114 2" "replicate 116 0" "replicate 114 0" "replicate 114 0" 2 3 0 0]
  by (simp only: length_replicate simp_thms)

text \<open>The 8-PSK bursts. For each of the four bursts of a block, unmapping a mapped burst puts exactly that
  burst's section of data, header and stealing flags into the outputs; the two fixed bits are those of the coding
  scheme. The bit swapping exchanges its fourteen pairs and undoes itself.\<close>

theorem edge_burst_roundtrip:
  fixes d5 :: "'a::{zero,one} list"
  assumes "B < 4" "length eB = 348" "length up = 36" "length up' = 36" "length d5 = 1248" "length d5' = 1248" "length d7 = 1224" "length d7' = 1224"
    and "length hd5 = 100" "length hd5' = 100" "length hu5 = 136" "length hu5' = 136" "length hd7 = 124" "length hd7' = 124" "length hu7 = 160" "length hu7' = 160"
  shows "(\<exists>e. gsm0503_mcs5_dl_burst_map d5 eB hd5 up B = Some e \<and> e ! 174 = 0 \<and> e ! 175 = 0 \<and>
        gsm0503_mcs5_dl_burst_unmap d5' e hd5' up' B = Some (section_of B 312 d5 d5', section_of B 25 hd5 hd5', section_of B 9 up up'))
    \<and> (\<exists>e. gsm0503_mcs5_ul_burst_map d5 eB hu5 B = Some e \<and> e ! 174 = 0 \<and> e ! 175 = 0 \<and>
        gsm0503_mcs5_ul_burst_unmap d5' e hu5' B = Some (section_of B 312 d5 d5', section_of B 34 hu5 hu5'))
    \<and> (\<exists>e. gsm0503_mcs7_dl_burst_map d7 eB hd7 up B = Some e \<and> [e ! 174, e ! 175] = [[1, 1], [1, 0], [0, 1], [1, 1]] ! B \<and>
        gsm0503_mcs7_dl_burst_unmap d7' e hd7' up' B = Some (section_of B 306 d7 d7', section_of B 31 hd7 hd7', section_of B 9 up up'))
    \<and> (\<exists>e. gsm0503_mcs7_ul_burst_map d7 eB hu7 B = Some e \<and> [e ! 174, e ! 175] = [[1, 1], [1, 0], [0, 1], [1, 1]] ! B \<and>
        gsm0503_mcs7_ul_burst_unmap d7' e hu7' B = Some (section_of B 306 d7 d7', section_of B 40 hu7 hu7'))
    \<and> (\<exists>r. gsm0503_mcs5_burst_swap eB = Some r \<and> gsm0503_mcs5_burst_swap r = Some eB \<and> (\<forall>(a, b) \<in> set swap_pairs. r ! a = eB ! b \<and> r ! b = eB ! a))"
proof -
  have B: "B = 0 \<or> B = 1 \<or> B = 2 \<or> B = 3" using assms(1) by auto
  have z: "[0, 0, 0, 0, 0, 0, 0, 0 :: 'a] ! (2 * B) = 0" "[0, 0, 0, 0, 0, 0, 0, 0 :: 'a] ! (2 * B + 1) = 0" using B by auto
  have q: "[[1, 1, 1, 0, 0, 1, 1, 1 :: 'a] ! (2 * B), [1, 1, 1, 0, 0, 1, 1, 1] ! (2 * B + 1)] = [[1, 1], [1, 0], [0, 1], [1, 1]] ! B" using B by auto
  show ?thesis
    using mcs5_dl_burst_roundtrip [OF assms(1,5,9,6,10,2,3,4)] mcs5_ul_burst_roundtrip [OF assms(1,5,11,6,12,2)]
      mcs7_dl_burst_roundtrip [OF assms(1,7,13,8,14,2,3,4)] mcs7_ul_burst_roundtrip [OF assms(1,7,15,8,16,2)] burst_swap_involution [OF assms(2)]
    unfolding z q [symmetric] list.inject simp_thms by (intro conjI) (elim exE conjE, intro exI conjI, assumption+)+
qed

theorem edge_burst_roundtrip_witness:
  "\<exists>e. gsm0503_mcs7_ul_burst_map (replicate 1224 (1 :: nat)) (replicate 348 0) (replicate 160 1) 1 = Some e \<and> [e ! 174, e ! 175] = [[1, 1], [1, 0], [0, 1], [1, 1]] ! 1 \<and>
        gsm0503_mcs7_ul_burst_unmap (replicate 1224 0) e (replicate 160 0) 1 =
          Some (section_of 1 306 (replicate 1224 1) (replicate 1224 0), section_of 1 40 (replicate 160 1) (replicate 160 0))"
  using edge_burst_roundtrip [of 1 "replicate 348 (0 :: nat)" "replicate 36 0" "replicate 36 0" "replicate 1248 0" "replicate 1248 0" "replicate 1224 1" "replicate 1224 0"
      "replicate 100 0" "replicate 100 0" "replicate 136 0" "replicate 136 0" "replicate 124 0" "replicate 124 0" "replicate 160 1" "replicate 160 0"]
  by (simp only: length_replicate simp_thms one_less_numeral_iff semiring_norm)

end
