(* ===== verification/Machine.thy ===== *)
theory Machine
  imports Prelude
begin

text \<open>
  Event-driven components. A component reacts to events one at a time: \<open>step e s\<close> is the state after handling
  event \<open>e\<close>, or \<^const>\<open>None\<close> when the handler aborts or accesses memory it must not. \<open>run\<close> handles a
  sequence of events, \<open>reach\<close> is the set of states some sequence of permitted events leads to.

  The locale \<open>machine\<close> is the contract of such a component: its initial state satisfies the invariant and
  handling a permitted event in a state that satisfies it returns and keeps it. Every run is then defined and every
  reachable state satisfies the invariant. \<open>partial_machine\<close> is the weaker contract of a component with defects: it fails exactly on
  the events \<open>bad\<close> in a state. The protocol layers interpret them on their handlers.
\<close>

primrec run :: "('e \<Rightarrow> 's \<Rightarrow> 's res) \<Rightarrow> 'e list \<Rightarrow> 's \<Rightarrow> 's res" where
  "run step [] s = Some s"
| "run step (e # es) s = do { s \<leftarrow> step e s; run step es s }"

inductive reach :: "('e \<Rightarrow> 's \<Rightarrow> 's res) \<Rightarrow> ('e \<Rightarrow> bool) \<Rightarrow> 's \<Rightarrow> 's \<Rightarrow> bool"
  for step :: "'e \<Rightarrow> 's \<Rightarrow> 's res" and ok :: "'e \<Rightarrow> bool" and init :: 's where
  reach_init: "reach step ok init init"
| reach_step: "reach step ok init s \<Longrightarrow> ok e \<Longrightarrow> step e s = Some s' \<Longrightarrow> reach step ok init s'"

lemma run_append: "run step (es @ fs) s = do { s \<leftarrow> run step es s; run step fs s }"
  by (induction es arbitrary: s) (auto split: Option.bind_split)

lemma reach_run:
  "reach step ok init s \<Longrightarrow> list_all ok es \<Longrightarrow> run step es s = Some s' \<Longrightarrow> reach step ok init s'"
proof (induction es arbitrary: s)
  case (Cons e es)
  then obtain t where "step e s = Some t" "run step es t = Some s'" by (auto simp: bind_eq_Some_conv)
  with Cons show ?case by (auto intro: reach_step)
qed auto

lemma reach_iff_run: "reach step ok init s \<longleftrightarrow> (\<exists>es. list_all ok es \<and> run step es init = Some s)"
proof
  assume "reach step ok init s"
  then show "\<exists>es. list_all ok es \<and> run step es init = Some s"
  proof (induction rule: reach.induct)
    case reach_init
    show ?case by (rule exI [of _ "[]"]) simp
  next
    case (reach_step s e s')
    then obtain es where "list_all ok es" "run step es init = Some s" by blast
    with reach_step(2,3) show ?case by (intro exI [of _ "es @ [e]"]) (simp add: run_append)
  qed
qed (auto intro: reach_run reach.intros)

text \<open>Dispatch through a table: the first entry that matches.\<close>

lemma find_case_Cons:
  "(case find P (x # xs) of None \<Rightarrow> a | Some y \<Rightarrow> f y) = (if P x then f x else (case find P xs of None \<Rightarrow> a | Some y \<Rightarrow> f y))"
  "(case find P [] of None \<Rightarrow> a | Some y \<Rightarrow> f y) = a"
  by simp_all

locale partial_machine =
  fixes step :: "'e \<Rightarrow> 's \<Rightarrow> 's res" and ok :: "'e \<Rightarrow> bool" and init :: 's and inv :: "'s \<Rightarrow> bool" and bad :: "'e \<Rightarrow> 's \<Rightarrow> bool"
  assumes init_inv: "inv init"
    and step_inv: "inv s \<Longrightarrow> ok e \<Longrightarrow> if bad e s then step e s = None else \<exists>s'. step e s = Some s' \<and> inv s'"
begin

lemma reach_inv: "reach step ok init s \<Longrightarrow> inv s"
proof (induction rule: reach.induct)
  case (reach_step s e s')
  then show ?case using step_inv [of s e] by (auto split: if_splits)
qed (rule init_inv)

text \<open>In a reachable state a permitted event is handled unless it is a bad one.\<close>

lemma reach_progress:
  assumes "reach step ok init s" "ok e"
  shows "if bad e s then step e s = None else \<exists>s'. step e s = Some s' \<and> reach step ok init s'"
  using step_inv [OF reach_inv [OF assms(1)] assms(2)] reach_step [OF assms] by (auto split: if_splits)

end

locale machine =
  fixes step :: "'e \<Rightarrow> 's \<Rightarrow> 's res" and ok :: "'e \<Rightarrow> bool" and init :: 's and inv :: "'s \<Rightarrow> bool"
  assumes init_inv: "inv init"
    and step_inv: "inv s \<Longrightarrow> ok e \<Longrightarrow> \<exists>s'. step e s = Some s' \<and> inv s'"
begin

lemma run_inv: "inv s \<Longrightarrow> list_all ok es \<Longrightarrow> \<exists>s'. run step es s = Some s' \<and> inv s'"
proof (induction es arbitrary: s)
  case (Cons e es)
  then obtain t where "step e s = Some t" "inv t" using step_inv [of s e] by auto
  with Cons show ?case by auto
qed auto

lemma reach_inv: "reach step ok init s \<Longrightarrow> inv s"
proof (induction rule: reach.induct)
  case (reach_step s e s')
  then show ?case using step_inv [of s e] by auto
qed (rule init_inv)

text \<open>No permitted event is refused in a reachable state.\<close>

lemma reach_progress: "reach step ok init s \<Longrightarrow> ok e \<Longrightarrow> \<exists>s'. step e s = Some s' \<and> reach step ok init s'"
proof -
  assume s: "reach step ok init s" and e: "ok e"
  obtain s' where "step e s = Some s'" using step_inv [OF reach_inv [OF s] e] by blast
  with reach_step [OF s e] show ?thesis by blast
qed

end

end
