(* ===== verification/Sms_Cp.thy ===== *)
theory Sms_Cp
  imports Machine
begin

text \<open>
  The connection sublayer (CM-sublayer, "SMC") of the point-to-point short message service,
  \<open>src/gsm/gsm0411_smc.c\<close> with \<open>include/osmocom/gsm/gsm0411_smc.h\<close>.

  An instance is a record; its two callbacks \<open>mn_recv\<close> (to the relay layer) and \<open>mm_send\<close> (to the mobility
  management) are arguments. Callbacks get the instance too, as in the source, and may change it:
  the relay layer calls back into \<open>gsm411_smc_send\<close> while it handles an indication. \<open>'w\<close> is the rest of
  the world. A message is the list of its octets (from \<open>l3h\<close> for received messages); the timer is the number
  of seconds it was started with while it is running. Logging is left out. \<^const>\<open>None\<close> is an abort of the program
  (\<open>msgb_put\<close> without room, \<open>NULL\<close> dereferenced).

  Shown: an invariant of the instance, kept by every handler; the contract on releases that the source states at
  its top; that the timer supervision ends with an error indication and a release after a
  bounded number of retransmissions; and where a timer outlives its transaction.
\<close>

subsection \<open>Message types and states\<close>

abbreviation GSM411_MMSMS_EST_REQ :: int where "GSM411_MMSMS_EST_REQ \<equiv> 0x310"
abbreviation GSM411_MMSMS_EST_CNF :: int where "GSM411_MMSMS_EST_CNF \<equiv> 0x311"
abbreviation GSM411_MMSMS_EST_IND :: int where "GSM411_MMSMS_EST_IND \<equiv> 0x312"
abbreviation GSM411_MMSMS_REL_REQ :: int where "GSM411_MMSMS_REL_REQ \<equiv> 0x320"
abbreviation GSM411_MMSMS_REL_IND :: int where "GSM411_MMSMS_REL_IND \<equiv> 0x322"
abbreviation GSM411_MMSMS_DATA_REQ :: int where "GSM411_MMSMS_DATA_REQ \<equiv> 0x330"
abbreviation GSM411_MMSMS_DATA_IND :: int where "GSM411_MMSMS_DATA_IND \<equiv> 0x332"
abbreviation GSM411_MNSMS_ABORT_REQ :: int where "GSM411_MNSMS_ABORT_REQ \<equiv> 0x101"
abbreviation GSM411_MNSMS_DATA_REQ :: int where "GSM411_MNSMS_DATA_REQ \<equiv> 0x102"
abbreviation GSM411_MNSMS_DATA_IND :: int where "GSM411_MNSMS_DATA_IND \<equiv> 0x103"
abbreviation GSM411_MNSMS_EST_REQ :: int where "GSM411_MNSMS_EST_REQ \<equiv> 0x104"
abbreviation GSM411_MNSMS_EST_IND :: int where "GSM411_MNSMS_EST_IND \<equiv> 0x105"
abbreviation GSM411_MNSMS_ERROR_IND :: int where "GSM411_MNSMS_ERROR_IND \<equiv> 0x106"
abbreviation GSM411_MNSMS_REL_REQ :: int where "GSM411_MNSMS_REL_REQ \<equiv> 0x107"
abbreviation GSM411_MT_CP_DATA :: int where "GSM411_MT_CP_DATA \<equiv> 0x01"
abbreviation GSM411_MT_CP_ACK :: int where "GSM411_MT_CP_ACK \<equiv> 0x04"
abbreviation GSM411_MT_CP_ERROR :: int where "GSM411_MT_CP_ERROR \<equiv> 0x10"
abbreviation GSM411_CP_CAUSE_MSGTYPE_NOTEXIST :: u8 where "GSM411_CP_CAUSE_MSGTYPE_NOTEXIST \<equiv> 97"
abbreviation GSM411_TMR_TC1A_SEC :: int where "GSM411_TMR_TC1A_SEC \<equiv> 30"
abbreviation MAX_SMS_RETRY :: int where "MAX_SMS_RETRY \<equiv> 2"
abbreviation minus_EINVAL :: int where "minus_EINVAL \<equiv> - 22"

datatype gsm411_cp_state = GSM411_CPS_IDLE | GSM411_CPS_MM_CONN_PENDING | GSM411_CPS_WAIT_CP_ACK | GSM411_CPS_MM_ESTABLISHED

primrec cp_state_num :: "gsm411_cp_state \<Rightarrow> nat" where
  "cp_state_num GSM411_CPS_IDLE = 0"
| "cp_state_num GSM411_CPS_MM_CONN_PENDING = 1"
| "cp_state_num GSM411_CPS_WAIT_CP_ACK = 2"
| "cp_state_num GSM411_CPS_MM_ESTABLISHED = 3"

definition SBIT :: "nat \<Rightarrow> u32" where
  "SBIT a = push_bit a 1"

definition ALL_STATES :: u32 where
  "ALL_STATES = 0xffffffff"

type_synonym msg = "u8 list"

record gsm411_smc_inst =
  network :: int
  cp_state :: gsm411_cp_state
  cp_timer :: "int option"
  cp_msg :: "msg option"
  cp_rel :: int
  cp_retx :: int
  cp_max_retr :: int
  cp_tc1 :: int

text \<open>The callbacks, and the routines of the layer.\<close>

type_synonym 'w mn_recv_cb = "int \<Rightarrow> msg \<Rightarrow> gsm411_smc_inst \<Rightarrow> 'w \<Rightarrow> (int \<times> gsm411_smc_inst \<times> 'w) res"
type_synonym 'w mm_send_cb = "int \<Rightarrow> msg \<Rightarrow> int \<Rightarrow> gsm411_smc_inst \<Rightarrow> 'w \<Rightarrow> (int \<times> gsm411_smc_inst \<times> 'w) res"
type_synonym 'w smc_rout = "msg \<Rightarrow> gsm411_smc_inst \<Rightarrow> 'w \<Rightarrow> (int \<times> gsm411_smc_inst \<times> 'w) res"

subsection \<open>Handlers\<close>

definition gsm411_smc_init :: "int \<Rightarrow> gsm411_smc_inst" where
  "gsm411_smc_init nw = \<lparr> network = nw, cp_state = GSM411_CPS_IDLE, cp_timer = None, cp_msg = None, cp_rel = 0, cp_retx = 0,
     cp_max_retr = MAX_SMS_RETRY, cp_tc1 = GSM411_TMR_TC1A_SEC div (MAX_SMS_RETRY + 1) \<rparr>"

definition gsm411_smc_clear :: "gsm411_smc_inst \<Rightarrow> gsm411_smc_inst" where
  "gsm411_smc_clear inst = inst\<lparr>cp_timer := None, cp_msg := None\<rparr>"

definition new_cp_state :: "gsm411_smc_inst \<Rightarrow> gsm411_cp_state \<Rightarrow> gsm411_smc_inst" where
  "new_cp_state inst state = inst\<lparr>cp_state := state\<rparr>"

text \<open>\<open>gsm411_msgb_alloc\<close> gives an empty message with room for 1024 - 128 octets, so appending more aborts.\<close>

definition gsm411_msgb_alloc :: msg where
  "gsm411_msgb_alloc = []"

definition gsm411_msgb_put :: "msg \<Rightarrow> msg \<Rightarrow> msg res" where
  "gsm411_msgb_put nmsg d = (if length nmsg + length d \<le> 1024 - 128 then Some (nmsg @ d) else None)"

definition gsm411_tx_cp_error :: "'w mm_send_cb \<Rightarrow> u8 \<Rightarrow> gsm411_smc_inst \<Rightarrow> 'w \<Rightarrow> (int \<times> gsm411_smc_inst \<times> 'w) res" where
  "gsm411_tx_cp_error mm_send cause inst w = do {
     nmsg \<leftarrow> gsm411_msgb_put gsm411_msgb_alloc [cause];
     mm_send GSM411_MMSMS_DATA_REQ nmsg GSM411_MT_CP_ERROR inst w }"

definition gsm411_mnsms_est_req :: "'w mm_send_cb \<Rightarrow> 'w smc_rout" where
  "gsm411_mnsms_est_req mm_send msg inst w = (
     let inst = inst\<lparr>cp_msg := Some msg\<rparr>;
         inst = new_cp_state inst GSM411_CPS_MM_CONN_PENDING;
         inst = inst\<lparr>cp_rel := 0\<rparr>
     in mm_send GSM411_MMSMS_EST_REQ gsm411_msgb_alloc 0 inst w)"

definition gsm411_mmsms_send_msg :: "'w mm_send_cb \<Rightarrow> gsm411_smc_inst \<Rightarrow> 'w \<Rightarrow> (int \<times> gsm411_smc_inst \<times> 'w) res" where
  "gsm411_mmsms_send_msg mm_send inst w = (
     let inst = (if cp_state inst \<noteq> GSM411_CPS_WAIT_CP_ACK then inst\<lparr>cp_retx := 0\<rparr> else inst);
         inst = new_cp_state inst GSM411_CPS_WAIT_CP_ACK;
         inst = inst\<lparr>cp_timer := Some (cp_tc1 inst)\<rparr>
     in do {
       m \<leftarrow> cp_msg inst;
       nmsg \<leftarrow> gsm411_msgb_put gsm411_msgb_alloc m;
       mm_send GSM411_MMSMS_DATA_REQ nmsg GSM411_MT_CP_DATA inst w })"

definition gsm411_mmsms_est_cnf :: "'w mm_send_cb \<Rightarrow> gsm411_smc_inst \<Rightarrow> 'w \<Rightarrow> (int \<times> gsm411_smc_inst \<times> 'w) res" where
  "gsm411_mmsms_est_cnf mm_send inst w =
     (if cp_msg inst = None then Some (minus_EINVAL, inst, w) else gsm411_mmsms_send_msg mm_send inst w)"

text \<open>The timer is no longer running when its callback is called.\<close>

definition cp_timer_expired :: "'w mn_recv_cb \<Rightarrow> 'w mm_send_cb \<Rightarrow> gsm411_smc_inst \<Rightarrow> 'w \<Rightarrow> (gsm411_smc_inst \<times> 'w) res" where
  "cp_timer_expired mn_recv mm_send inst w = (
     let inst = inst\<lparr>cp_timer := None\<rparr> in
     if cp_retx inst = cp_max_retr inst then do {
       let inst = new_cp_state inst GSM411_CPS_IDLE;
       (_, inst, w) \<leftarrow> mn_recv GSM411_MNSMS_ERROR_IND gsm411_msgb_alloc inst w;
       let inst = inst\<lparr>cp_msg := None\<rparr>;
       (_, inst, w) \<leftarrow> mm_send GSM411_MMSMS_REL_REQ gsm411_msgb_alloc 0 inst w;
       Some (inst, w) }
     else do {
       let inst = inst\<lparr>cp_retx := cp_retx inst + 1\<rparr>;
       (_, inst, w) \<leftarrow> gsm411_mmsms_est_cnf mm_send inst w;
       Some (inst, w) })"

definition gsm411_mmsms_cp_ack :: "'w mm_send_cb \<Rightarrow> 'w smc_rout" where
  "gsm411_mmsms_cp_ack mm_send msg inst w = (
     let inst = inst\<lparr>cp_msg := None\<rparr>;
         inst = new_cp_state inst GSM411_CPS_MM_ESTABLISHED;
         inst = inst\<lparr>cp_timer := None\<rparr>
     in if cp_rel inst \<noteq> 0
        then mm_send GSM411_MMSMS_REL_REQ gsm411_msgb_alloc 0 (new_cp_state inst GSM411_CPS_IDLE) w
        else Some (0, inst, w))"

definition gsm411_mmsms_cp_data :: "'w mn_recv_cb \<Rightarrow> 'w mm_send_cb \<Rightarrow> 'w smc_rout" where
  "gsm411_mmsms_cp_data mn_recv mm_send msg inst w = do {
     let (inst, mt) = (if cp_state inst = GSM411_CPS_IDLE
        then ((new_cp_state inst GSM411_CPS_MM_ESTABLISHED)\<lparr>cp_rel := 0\<rparr>, GSM411_MNSMS_EST_IND) else (inst, GSM411_MNSMS_DATA_IND));
     (_, inst, w) \<leftarrow> mm_send GSM411_MMSMS_DATA_REQ gsm411_msgb_alloc GSM411_MT_CP_ACK inst w;
     (_, inst, w) \<leftarrow> mn_recv mt msg inst w;
     Some (0, inst, w) }"

definition gsm411_mnsms_data_req :: "'w mm_send_cb \<Rightarrow> 'w smc_rout" where
  "gsm411_mnsms_data_req mm_send msg inst w = gsm411_mmsms_send_msg mm_send (inst\<lparr>cp_msg := Some msg\<rparr>) w"

definition gsm411_mnsms_rel_req :: "'w mm_send_cb \<Rightarrow> 'w smc_rout" where
  "gsm411_mnsms_rel_req mm_send msg inst w =
     (if cp_state inst = GSM411_CPS_IDLE then Some (0, inst, w)
      else if cp_state inst \<noteq> GSM411_CPS_MM_ESTABLISHED then Some (0, inst\<lparr>cp_rel := 1\<rparr>, w)
      else let inst = inst\<lparr>cp_msg := None\<rparr>; inst = new_cp_state inst GSM411_CPS_IDLE
           in mm_send GSM411_MMSMS_REL_REQ gsm411_msgb_alloc 0 inst w)"

definition gsm411_mmsms_cp_error :: "'w mn_recv_cb \<Rightarrow> 'w mm_send_cb \<Rightarrow> 'w smc_rout" where
  "gsm411_mmsms_cp_error mn_recv mm_send msg inst w = do {
     let inst = inst\<lparr>cp_msg := None\<rparr>;
     let inst = new_cp_state inst GSM411_CPS_IDLE;
     (_, inst, w) \<leftarrow> mn_recv GSM411_MNSMS_ERROR_IND msg inst w;
     mm_send GSM411_MMSMS_REL_REQ gsm411_msgb_alloc 0 inst w }"

definition gsm411_mmsms_rel_ind :: "'w mn_recv_cb \<Rightarrow> 'w smc_rout" where
  "gsm411_mmsms_rel_ind mn_recv msg inst w = do {
     let inst = inst\<lparr>cp_msg := None\<rparr>;
     let inst = new_cp_state inst GSM411_CPS_IDLE;
     (_, inst, w) \<leftarrow> mn_recv GSM411_MNSMS_ERROR_IND gsm411_msgb_alloc inst w;
     Some (0, inst, w) }"

definition gsm411_mnsms_abort_req :: "'w mm_send_cb \<Rightarrow> 'w smc_rout" where
  "gsm411_mnsms_abort_req mm_send msg inst w = do {
     let inst = inst\<lparr>cp_msg := None\<rparr>;
     let inst = new_cp_state inst GSM411_CPS_IDLE;
     (_, inst, w) \<leftarrow> mm_send GSM411_MMSMS_DATA_REQ msg GSM411_MT_CP_ERROR inst w;
     mm_send GSM411_MMSMS_REL_REQ gsm411_msgb_alloc 0 inst w }"

subsection \<open>Dispatch\<close>

text \<open>An entry of the tables: state mask, message type, CP message type (0 in the downward table) and routine.\<close>

type_synonym 'r dispatch = "(u32 \<times> int \<times> int \<times> 'r) list"

definition smcdownstatelist :: "'w mm_send_cb \<Rightarrow> 'w smc_rout dispatch" where
  "smcdownstatelist mm_send =
    [(SBIT (cp_state_num GSM411_CPS_IDLE), GSM411_MNSMS_EST_REQ, 0, gsm411_mnsms_est_req mm_send),
     (ALL_STATES, GSM411_MNSMS_REL_REQ, 0, gsm411_mnsms_rel_req mm_send),
     (SBIT (cp_state_num GSM411_CPS_MM_ESTABLISHED), GSM411_MNSMS_DATA_REQ, 0, gsm411_mnsms_data_req mm_send),
     (ALL_STATES - SBIT (cp_state_num GSM411_CPS_IDLE), GSM411_MNSMS_ABORT_REQ, 0, gsm411_mnsms_abort_req mm_send)]"

definition gsm411_smc_send :: "'w mm_send_cb \<Rightarrow> int \<Rightarrow> 'w smc_rout" where
  "gsm411_smc_send mm_send msg_type msg inst w =
     (case find (\<lambda>(states, type, _, _). msg_type = type \<and> SBIT (cp_state_num (cp_state inst)) AND states \<noteq> 0) (smcdownstatelist mm_send) of
        None \<Rightarrow> Some (0, inst, w)
      | Some (_, _, _, rout) \<Rightarrow> rout msg inst w)"

definition smcdatastatelist :: "'w mn_recv_cb \<Rightarrow> 'w mm_send_cb \<Rightarrow> 'w smc_rout dispatch" where
  "smcdatastatelist mn_recv mm_send =
    [(SBIT (cp_state_num GSM411_CPS_MM_CONN_PENDING), GSM411_MMSMS_EST_CNF, 0, \<lambda>_. gsm411_mmsms_est_cnf mm_send),
     (SBIT (cp_state_num GSM411_CPS_IDLE), GSM411_MMSMS_EST_IND, GSM411_MT_CP_DATA, gsm411_mmsms_cp_data mn_recv mm_send),
     (SBIT (cp_state_num GSM411_CPS_MM_ESTABLISHED), GSM411_MMSMS_DATA_IND, GSM411_MT_CP_DATA, gsm411_mmsms_cp_data mn_recv mm_send),
     (SBIT (cp_state_num GSM411_CPS_WAIT_CP_ACK), GSM411_MMSMS_DATA_IND, GSM411_MT_CP_ACK, gsm411_mmsms_cp_ack mm_send),
     (ALL_STATES, GSM411_MMSMS_DATA_IND, GSM411_MT_CP_ERROR, gsm411_mmsms_cp_error mn_recv mm_send),
     (ALL_STATES - SBIT (cp_state_num GSM411_CPS_IDLE), GSM411_MMSMS_REL_IND, 0, gsm411_mmsms_rel_ind mn_recv)]"

definition gsm411_smc_recv :: "'w mn_recv_cb \<Rightarrow> 'w mm_send_cb \<Rightarrow> int \<Rightarrow> int \<Rightarrow> 'w smc_rout" where
  "gsm411_smc_recv mn_recv mm_send msg_type cp_msg_type msg inst w =
     (case find (\<lambda>(states, type, cp_type, _). msg_type = type \<and> SBIT (cp_state_num (cp_state inst)) AND states \<noteq> 0 \<and>
          (msg_type \<noteq> GSM411_MMSMS_DATA_IND \<or> cp_msg_type = cp_type)) (smcdatastatelist mn_recv mm_send) of
        None \<Rightarrow>
          if msg_type = GSM411_MMSMS_EST_IND \<or> msg_type = GSM411_MMSMS_DATA_IND then do {
            let inst = new_cp_state inst GSM411_CPS_IDLE;
            (_, inst, w) \<leftarrow> gsm411_tx_cp_error mm_send GSM411_CP_CAUSE_MSGTYPE_NOTEXIST inst w;
            (_, inst, w) \<leftarrow> mn_recv GSM411_MNSMS_ERROR_IND gsm411_msgb_alloc inst w;
            mm_send GSM411_MMSMS_REL_REQ gsm411_msgb_alloc 0 inst w }
          else Some (0, inst, w)
      | Some (_, _, _, rout) \<Rightarrow> rout msg inst w)"

subsection \<open>The layer with recording callbacks\<close>

text \<open>What the layer sends to its neighbours, and callbacks that record it and do nothing else.\<close>

datatype smc_out = MmSend int msg int | MnRecv int msg

definition rec_mm_send :: "smc_out list mm_send_cb" where
  "rec_mm_send t m c inst w = Some (0, inst, w @ [MmSend t m c])"

definition rec_mn_recv :: "smc_out list mn_recv_cb" where
  "rec_mn_recv t m inst w = Some (0, inst, w @ [MnRecv t m])"

datatype smc_event = SmcSend int msg | SmcRecv int int msg | CpTimer

type_synonym smc_state = "gsm411_smc_inst \<times> smc_out list"

fun smc_step :: "smc_event \<Rightarrow> smc_state \<Rightarrow> smc_state res" where
  "smc_step (SmcSend t m) (inst, w) = do { (_, inst, w) \<leftarrow> gsm411_smc_send rec_mm_send t m inst w; Some (inst, w) }"
| "smc_step (SmcRecv t c m) (inst, w) = do { (_, inst, w) \<leftarrow> gsm411_smc_recv rec_mn_recv rec_mm_send t c m inst w; Some (inst, w) }"
| "smc_step CpTimer (inst, w) = (if cp_timer inst = None then Some (inst, w) else cp_timer_expired rec_mn_recv rec_mm_send inst w)"

section \<open>Properties\<close>

subsection \<open>Dispatch\<close>

named_theorems smc_defs \<open>the handlers of the connection sublayer\<close>

lemmas smc_handler_defs [smc_defs] = gsm411_mnsms_est_req_def gsm411_mmsms_send_msg_def gsm411_mmsms_est_cnf_def cp_timer_expired_def
  gsm411_mmsms_cp_ack_def gsm411_mmsms_cp_data_def gsm411_mnsms_data_req_def gsm411_mnsms_rel_req_def gsm411_mmsms_cp_error_def
  gsm411_mmsms_rel_ind_def gsm411_mnsms_abort_req_def gsm411_tx_cp_error_def new_cp_state_def gsm411_msgb_alloc_def gsm411_msgb_put_def Let_def

lemmas rec_defs = rec_mm_send_def rec_mn_recv_def

lemma state_masks:
  "SBIT (cp_state_num s) AND ALL_STATES \<noteq> 0"
  "SBIT (cp_state_num s) AND SBIT (cp_state_num s') \<noteq> 0 \<longleftrightarrow> s = s'"
  "SBIT (cp_state_num s) AND (ALL_STATES - SBIT (cp_state_num s')) \<noteq> 0 \<longleftrightarrow> s \<noteq> s'"
  by (cases s; cases s'; simp add: SBIT_def ALL_STATES_def)+

lemma smc_send_dispatch:
  "gsm411_smc_send mm_send t m inst w =
    (if t = GSM411_MNSMS_EST_REQ \<and> cp_state inst = GSM411_CPS_IDLE then gsm411_mnsms_est_req mm_send m inst w
     else if t = GSM411_MNSMS_REL_REQ then gsm411_mnsms_rel_req mm_send m inst w
     else if t = GSM411_MNSMS_DATA_REQ \<and> cp_state inst = GSM411_CPS_MM_ESTABLISHED then gsm411_mnsms_data_req mm_send m inst w
     else if t = GSM411_MNSMS_ABORT_REQ \<and> cp_state inst \<noteq> GSM411_CPS_IDLE then gsm411_mnsms_abort_req mm_send m inst w
     else Some (0, inst, w))"
  unfolding gsm411_smc_send_def smcdownstatelist_def
  by (simp only: find_case_Cons prod.case state_masks) (simp only: simp_thms)

lemma smc_recv_dispatch:
  "gsm411_smc_recv mn_recv mm_send t c m inst w =
    (if t = GSM411_MMSMS_EST_CNF \<and> cp_state inst = GSM411_CPS_MM_CONN_PENDING then gsm411_mmsms_est_cnf mm_send inst w
     else if t = GSM411_MMSMS_EST_IND \<and> cp_state inst = GSM411_CPS_IDLE then gsm411_mmsms_cp_data mn_recv mm_send m inst w
     else if t = GSM411_MMSMS_DATA_IND \<and> c = GSM411_MT_CP_DATA \<and> cp_state inst = GSM411_CPS_MM_ESTABLISHED then gsm411_mmsms_cp_data mn_recv mm_send m inst w
     else if t = GSM411_MMSMS_DATA_IND \<and> c = GSM411_MT_CP_ACK \<and> cp_state inst = GSM411_CPS_WAIT_CP_ACK then gsm411_mmsms_cp_ack mm_send m inst w
     else if t = GSM411_MMSMS_DATA_IND \<and> c = GSM411_MT_CP_ERROR then gsm411_mmsms_cp_error mn_recv mm_send m inst w
     else if t = GSM411_MMSMS_REL_IND \<and> cp_state inst \<noteq> GSM411_CPS_IDLE then gsm411_mmsms_rel_ind mn_recv m inst w
     else if t = GSM411_MMSMS_EST_IND \<or> t = GSM411_MMSMS_DATA_IND then do {
            let inst = new_cp_state inst GSM411_CPS_IDLE;
            (_, inst, w) \<leftarrow> gsm411_tx_cp_error mm_send GSM411_CP_CAUSE_MSGTYPE_NOTEXIST inst w;
            (_, inst, w) \<leftarrow> mn_recv GSM411_MNSMS_ERROR_IND gsm411_msgb_alloc inst w;
            mm_send GSM411_MMSMS_REL_REQ gsm411_msgb_alloc 0 inst w }
     else Some (0, inst, w))"
  unfolding gsm411_smc_recv_def smcdatastatelist_def find_case_Cons prod.case state_masks
  by (intro if_cong refl) (auto simp: state_masks)

subsection \<open>The invariant of an instance\<close>

text \<open>Stored messages fit into a message buffer; a message is stored while the connection is being established and
  while the acknowledgement is awaited; the timer runs while the acknowledgement is awaited; the retry counter stays in
  its range.\<close>

definition msg_fits :: "msg \<Rightarrow> bool" where
  "msg_fits m \<longleftrightarrow> length m \<le> 896"

definition smc_inv :: "gsm411_smc_inst \<Rightarrow> bool" where
  "smc_inv inst \<longleftrightarrow> 0 \<le> cp_retx inst \<and> cp_retx inst \<le> cp_max_retr inst \<and>
     (\<forall>m. cp_msg inst = Some m \<longrightarrow> msg_fits m) \<and>
     (cp_state inst = GSM411_CPS_MM_CONN_PENDING \<longrightarrow> cp_msg inst \<noteq> None) \<and>
     (cp_state inst = GSM411_CPS_WAIT_CP_ACK \<longrightarrow> cp_msg inst \<noteq> None \<and> cp_timer inst \<noteq> None)"

fun smc_event_ok :: "smc_event \<Rightarrow> bool" where
  "smc_event_ok (SmcSend t m) = msg_fits m"
| "smc_event_ok _ = True"

lemma smc_inv_init: "smc_inv (gsm411_smc_init nw)"
  by (simp add: smc_inv_def gsm411_smc_init_def)

lemma smc_step_inv:
  assumes "smc_inv inst" and "smc_event_ok e"
  shows "\<exists>inst' out. smc_step e (inst, w) = Some (inst', w @ out) \<and> smc_inv inst'"
proof (cases e)
  case (SmcSend t m)
  with assms show ?thesis
    by (auto simp: smc_send_dispatch smc_defs rec_defs smc_inv_def msg_fits_def split: if_splits)
next
  case (SmcRecv t c m)
  with assms show ?thesis
    by (auto simp: smc_recv_dispatch smc_defs rec_defs smc_inv_def msg_fits_def split: if_splits)
next
  case CpTimer
  with assms show ?thesis
    by (auto simp: smc_defs rec_defs smc_inv_def msg_fits_def split: if_splits)
qed

interpretation smc: machine smc_step smc_event_ok "(gsm411_smc_init nw, [])" "\<lambda>s. smc_inv (fst s)" for nw
proof
  fix s :: smc_state and e
  assume "smc_inv (fst s)" "smc_event_ok e"
  then show "\<exists>s'. smc_step e s = Some s' \<and> smc_inv (fst s')"
    using smc_step_inv [of "fst s" e "snd s"] by auto
qed (simp add: smc_inv_init)

text \<open>C21: In every state that requests from the relay layer (with messages that fit a buffer), messages from the
  mobility management and timer expiries can lead to, the stored message fits, it is there while the connection
  is pending or the acknowledgement is awaited, the timer runs while the acknowledgement is awaited and the
  retry counter does not exceed its maximum; and no such event makes the layer abort.\<close>

theorem smc_reachable:
  assumes "reach smc_step smc_event_ok (gsm411_smc_init nw, []) (inst, log)" and "smc_event_ok e"
  shows "smc_inv inst \<and> (\<exists>s'. smc_step e (inst, log) = Some s' \<and> smc_inv (fst s'))"
  using smc.reach_inv [OF assms(1)] smc.step_inv [OF smc.reach_inv [OF assms(1)] assms(2)] by simp

theorem smc_reachable_witness:
  "smc_inv (gsm411_smc_init 0) \<and> (\<exists>s'. smc_step (SmcSend GSM411_MNSMS_EST_REQ [1, 2, 3]) (gsm411_smc_init 0, []) = Some s' \<and> smc_inv (fst s'))"
  by (rule smc_reachable [OF reach_init]) (simp add: msg_fits_def)

subsection \<open>Releases\<close>

text \<open>C9: The contract on releases. When the layer leaves a transaction and becomes idle, the last thing it does is to
  ask the mobility management to release the connection, once; except when it was the mobility management that
  released it, then it sends nothing there.\<close>

theorem smc_release_contract:
  assumes "smc_step e (inst, w) = Some (inst', w')"
    and "cp_state inst \<noteq> GSM411_CPS_IDLE" and "cp_state inst' = GSM411_CPS_IDLE"
  shows "\<exists>out. w' = w @ out \<and>
    (if \<exists>c m. e = SmcRecv GSM411_MMSMS_REL_IND c m then \<forall>t m c. MmSend t m c \<notin> set out
     else \<exists>o'. out = o' @ [MmSend GSM411_MMSMS_REL_REQ [] 0] \<and> (\<forall>m c. MmSend GSM411_MMSMS_REL_REQ m c \<notin> set o'))"
proof (cases e)
  case (SmcSend t m)
  with assms show ?thesis by (auto simp: smc_send_dispatch smc_defs rec_defs split: if_splits option.splits)
next
  case (SmcRecv t c m)
  with assms show ?thesis by (auto simp: smc_recv_dispatch smc_defs rec_defs split: if_splits option.splits)
next
  case CpTimer
  with assms show ?thesis by (auto simp: smc_defs rec_defs split: if_splits option.splits)
qed

theorem smc_release_contract_witness:
  "\<exists>out. [MmSend GSM411_MMSMS_DATA_REQ [9] GSM411_MT_CP_ERROR, MmSend GSM411_MMSMS_REL_REQ [] 0] = [] @ out \<and>
    (if \<exists>c m. SmcSend GSM411_MNSMS_ABORT_REQ [9] = SmcRecv GSM411_MMSMS_REL_IND c m then \<forall>t m c. MmSend t m c \<notin> set out
     else \<exists>o'. out = o' @ [MmSend GSM411_MMSMS_REL_REQ [] 0] \<and> (\<forall>m c. MmSend GSM411_MMSMS_REL_REQ m c \<notin> set o'))"
  by (rule smc_release_contract [where inst = "(gsm411_smc_init 0)\<lparr>cp_state := GSM411_CPS_MM_ESTABLISHED\<rparr>" and inst' = "gsm411_smc_init 0"])
    (simp_all add: smc_send_dispatch smc_defs rec_defs gsm411_smc_init_def)

subsection \<open>Timer supervision\<close>

lemma smc_retry_step:
  assumes "cp_state inst = GSM411_CPS_WAIT_CP_ACK" "cp_msg inst = Some m" "msg_fits m" "cp_timer inst \<noteq> None" "cp_retx inst \<noteq> cp_max_retr inst"
  shows "smc_step CpTimer (inst, w) = Some (inst\<lparr>cp_retx := cp_retx inst + 1, cp_timer := Some (cp_tc1 inst)\<rparr>,
    w @ [MmSend GSM411_MMSMS_DATA_REQ m GSM411_MT_CP_DATA])"
  using assms by (simp add: smc_defs rec_defs msg_fits_def)

lemma smc_retries:
  assumes "cp_state inst = GSM411_CPS_WAIT_CP_ACK" "cp_msg inst = Some m" "msg_fits m" "cp_timer inst = Some (cp_tc1 inst)"
    and "cp_retx inst + int n = cp_max_retr inst"
  shows "run smc_step (replicate n CpTimer) (inst, w) =
    Some (inst\<lparr>cp_retx := cp_max_retr inst\<rparr>, w @ replicate n (MmSend GSM411_MMSMS_DATA_REQ m GSM411_MT_CP_DATA))"
  using assms
proof (induction n arbitrary: inst w)
  case (Suc n)
  let ?i = "inst\<lparr>cp_retx := cp_retx inst + 1, cp_timer := Some (cp_tc1 inst)\<rparr>"
  have "smc_step CpTimer (inst, w) = Some (?i, w @ [MmSend GSM411_MMSMS_DATA_REQ m GSM411_MT_CP_DATA])"
    using Suc.prems by (intro smc_retry_step) auto
  moreover have "?i\<lparr>cp_retx := cp_max_retr inst\<rparr> = inst\<lparr>cp_retx := cp_max_retr inst\<rparr>" using Suc.prems(4) by simp
  ultimately show ?case using Suc.IH [of ?i] Suc.prems by simp
qed (cases inst, simp)

text \<open>C20: Timer supervision ends. When no acknowledgement arrives, each expiry of the timer sends the stored message again
  and restarts the timer, as often as retries are left; the next expiry indicates an error to the relay layer,
  releases the connection, drops the message and leaves the layer idle with the timer stopped. With the
  values an instance is created with, a message is sent three times, and the supervision takes the 30 seconds of TC1A.\<close>

theorem smc_supervision_ends:
  assumes "cp_state inst = GSM411_CPS_WAIT_CP_ACK" "cp_msg inst = Some m" "msg_fits m" "cp_timer inst = Some (cp_tc1 inst)"
    and "cp_retx inst + int n = cp_max_retr inst"
  shows "run smc_step (replicate n CpTimer @ [CpTimer]) (inst, w) =
      Some (inst\<lparr>cp_retx := cp_max_retr inst, cp_state := GSM411_CPS_IDLE, cp_msg := None, cp_timer := None\<rparr>,
        w @ replicate n (MmSend GSM411_MMSMS_DATA_REQ m GSM411_MT_CP_DATA) @ [MnRecv GSM411_MNSMS_ERROR_IND [], MmSend GSM411_MMSMS_REL_REQ [] 0])
    \<and> (1 + cp_max_retr (gsm411_smc_init nw)) * cp_tc1 (gsm411_smc_init nw) = GSM411_TMR_TC1A_SEC"
  using smc_retries [OF assms, of w] assms(4)
  by (simp add: run_append smc_defs rec_defs gsm411_smc_init_def)

theorem smc_supervision_ends_witness:
  "run smc_step (replicate 2 CpTimer @ [CpTimer]) ((gsm411_smc_init 1)\<lparr>cp_state := GSM411_CPS_WAIT_CP_ACK, cp_msg := Some [7], cp_timer := Some 10\<rparr>, []) =
    Some ((gsm411_smc_init 1)\<lparr>cp_retx := 2\<rparr>, [MmSend GSM411_MMSMS_DATA_REQ [7] GSM411_MT_CP_DATA, MmSend GSM411_MMSMS_DATA_REQ [7] GSM411_MT_CP_DATA,
      MnRecv GSM411_MNSMS_ERROR_IND [], MmSend GSM411_MMSMS_REL_REQ [] 0])"
  using smc_supervision_ends [of "(gsm411_smc_init 1)\<lparr>cp_state := GSM411_CPS_WAIT_CP_ACK, cp_msg := Some [7], cp_timer := Some 10\<rparr>" "[7]" 2 "[]" 1]
  by (simp add: gsm411_smc_init_def msg_fits_def numeral_2_eq_2)

text \<open>A timer that outlives its transaction. An abort (like a release or error from the mobility management)
  leaves the timer running. If the next transaction is requested before it expires, the expiry sends that
  transaction's message as CP-DATA although its connection has not been confirmed. A CP-DATA that
  arrives while the acknowledgement is awaited makes the layer idle with the old message still stored.\<close>

theorem smc_stale_timer:
  assumes "msg_fits m1" and "msg_fits m2"
  shows "run smc_step [SmcSend GSM411_MNSMS_EST_REQ m1, SmcRecv GSM411_MMSMS_EST_CNF 0 [], SmcSend GSM411_MNSMS_ABORT_REQ [1, 111]] (gsm411_smc_init nw, []) =
      Some ((gsm411_smc_init nw)\<lparr>cp_timer := Some 10\<rparr>, [MmSend GSM411_MMSMS_EST_REQ [] 0, MmSend GSM411_MMSMS_DATA_REQ m1 GSM411_MT_CP_DATA,
        MmSend GSM411_MMSMS_DATA_REQ [1, 111] GSM411_MT_CP_ERROR, MmSend GSM411_MMSMS_REL_REQ [] 0])
    \<and> run smc_step [SmcSend GSM411_MNSMS_EST_REQ m2, CpTimer] ((gsm411_smc_init nw)\<lparr>cp_timer := Some 10\<rparr>, []) =
      Some ((gsm411_smc_init nw)\<lparr>cp_state := GSM411_CPS_WAIT_CP_ACK, cp_msg := Some m2, cp_timer := Some 10\<rparr>,
        [MmSend GSM411_MMSMS_EST_REQ [] 0, MmSend GSM411_MMSMS_DATA_REQ m2 GSM411_MT_CP_DATA])
    \<and> run smc_step [SmcSend GSM411_MNSMS_EST_REQ m1, SmcRecv GSM411_MMSMS_EST_CNF 0 [], SmcRecv GSM411_MMSMS_DATA_IND GSM411_MT_CP_DATA []] (gsm411_smc_init nw, []) =
      Some ((gsm411_smc_init nw)\<lparr>cp_msg := Some m1, cp_timer := Some 10\<rparr>, [MmSend GSM411_MMSMS_EST_REQ [] 0, MmSend GSM411_MMSMS_DATA_REQ m1 GSM411_MT_CP_DATA,
        MmSend GSM411_MMSMS_DATA_REQ [GSM411_CP_CAUSE_MSGTYPE_NOTEXIST] GSM411_MT_CP_ERROR, MnRecv GSM411_MNSMS_ERROR_IND [], MmSend GSM411_MMSMS_REL_REQ [] 0])"
  using assms by (simp add: smc_send_dispatch smc_recv_dispatch smc_defs rec_defs gsm411_smc_init_def msg_fits_def)

theorem smc_stale_timer_witness:
  "run smc_step [SmcSend GSM411_MNSMS_EST_REQ [5], CpTimer] ((gsm411_smc_init 0)\<lparr>cp_timer := Some 10\<rparr>, []) =
      Some ((gsm411_smc_init 0)\<lparr>cp_state := GSM411_CPS_WAIT_CP_ACK, cp_msg := Some [5], cp_timer := Some 10\<rparr>,
        [MmSend GSM411_MMSMS_EST_REQ [] 0, MmSend GSM411_MMSMS_DATA_REQ [5] GSM411_MT_CP_DATA])"
  using smc_stale_timer [of "[4]" "[5]" 0] by (simp add: msg_fits_def)

end
