(* ===== verification/Sms_Rp.thy ===== *)
theory Sms_Rp
  imports Sms_Cp
begin

text \<open>
  The relay layer ("SMR") of the short message service, \<open>src/gsm/gsm0411_smr.c\<close>, in the same style as
  \<open>Sms_Cp\<close>: the instance is a record, the callbacks \<open>rl_recv\<close> (to the application) and \<open>mn_send\<close> (to the
  connection sublayer) are arguments. A received message is the list of its octets from \<open>l3h\<close>: two octets
  of header, then the RP header with length, message type and reference.
\<close>

abbreviation GSM411_SM_RL_DATA_REQ :: int where "GSM411_SM_RL_DATA_REQ \<equiv> 0x401"
abbreviation GSM411_SM_RL_DATA_IND :: int where "GSM411_SM_RL_DATA_IND \<equiv> 0x402"
abbreviation GSM411_SM_RL_REPORT_REQ :: int where "GSM411_SM_RL_REPORT_REQ \<equiv> 0x405"
abbreviation GSM411_SM_RL_REPORT_IND :: int where "GSM411_SM_RL_REPORT_IND \<equiv> 0x406"
abbreviation GSM411_MT_RP_DATA_MO :: u8 where "GSM411_MT_RP_DATA_MO \<equiv> 0x00"
abbreviation GSM411_MT_RP_DATA_MT :: u8 where "GSM411_MT_RP_DATA_MT \<equiv> 0x01"
abbreviation GSM411_MT_RP_ACK_MO :: u8 where "GSM411_MT_RP_ACK_MO \<equiv> 0x02"
abbreviation GSM411_MT_RP_ACK_MT :: u8 where "GSM411_MT_RP_ACK_MT \<equiv> 0x03"
abbreviation GSM411_MT_RP_ERROR_MO :: u8 where "GSM411_MT_RP_ERROR_MO \<equiv> 0x04"
abbreviation GSM411_MT_RP_ERROR_MT :: u8 where "GSM411_MT_RP_ERROR_MT \<equiv> 0x05"
abbreviation GSM411_MT_RP_SMMA_MO :: u8 where "GSM411_MT_RP_SMMA_MO \<equiv> 0x06"
abbreviation GSM411_RP_CAUSE_MSGTYPE_NOTEXIST :: u8 where "GSM411_RP_CAUSE_MSGTYPE_NOTEXIST \<equiv> 97"
abbreviation GSM411_RP_CAUSE_MSG_INCOMP_STATE :: u8 where "GSM411_RP_CAUSE_MSG_INCOMP_STATE \<equiv> 98"
abbreviation GSM411_TMR_TR1M :: int where "GSM411_TMR_TR1M \<equiv> 40"
abbreviation GSM411_TMR_TR2M :: int where "GSM411_TMR_TR2M \<equiv> 15"

datatype gsm411_rp_state = GSM411_RPS_IDLE | GSM411_RPS_WAIT_FOR_RP_ACK | GSM411_RPS_WAIT_TO_TX_RP_ACK | GSM411_RPS_WAIT_FOR_RETRANS_T

primrec rp_state_num :: "gsm411_rp_state \<Rightarrow> nat" where
  "rp_state_num GSM411_RPS_IDLE = 0"
| "rp_state_num GSM411_RPS_WAIT_FOR_RP_ACK = 1"
| "rp_state_num GSM411_RPS_WAIT_TO_TX_RP_ACK = 3"
| "rp_state_num GSM411_RPS_WAIT_FOR_RETRANS_T = 4"

record gsm411_smr_inst =
  rp_network :: int
  rp_state :: gsm411_rp_state
  rp_timer :: "int option"

type_synonym 'w smr_rout = "msg \<Rightarrow> gsm411_smr_inst \<Rightarrow> 'w \<Rightarrow> (int \<times> gsm411_smr_inst \<times> 'w) res"
type_synonym 'w smr_cb = "int \<Rightarrow> 'w smr_rout"

definition gsm411_smr_init :: "int \<Rightarrow> gsm411_smr_inst" where
  "gsm411_smr_init nw = \<lparr> rp_network = nw, rp_state = GSM411_RPS_IDLE, rp_timer = None \<rparr>"

definition gsm411_smr_clear :: "gsm411_smr_inst \<Rightarrow> gsm411_smr_inst" where
  "gsm411_smr_clear inst = inst\<lparr>rp_timer := None\<rparr>"

definition new_rp_state :: "gsm411_smr_inst \<Rightarrow> gsm411_rp_state \<Rightarrow> gsm411_smr_inst" where
  "new_rp_state inst state = (
     let inst = inst\<lparr>rp_state := state\<rparr>
     in if state = GSM411_RPS_IDLE then inst\<lparr>rp_timer := None\<rparr> else inst)"

text \<open>The length octet of the RP header is the message length plus 2, modulo 256; the header has three octets
  and the message a headroom of 128.\<close>

definition gsm411_rp_sendmsg :: "'w smr_cb \<Rightarrow> u8 \<Rightarrow> u8 \<Rightarrow> int \<Rightarrow> 'w smr_rout" where
  "gsm411_rp_sendmsg mn_send rp_msg_type rp_msg_ref mnsms_msg_type msg inst w = (
     let len = word_of_nat (length msg) :: u8
     in mn_send mnsms_msg_type ([len + 2, rp_msg_type, rp_msg_ref] @ msg) inst w)"

definition gsm411_send_rp_error :: "'w smr_cb \<Rightarrow> u8 \<Rightarrow> u8 \<Rightarrow> gsm411_smr_inst \<Rightarrow> 'w \<Rightarrow> (int \<times> gsm411_smr_inst \<times> 'w) res" where
  "gsm411_send_rp_error mn_send msg_ref cause inst w = do {
     msg \<leftarrow> gsm411_msgb_put gsm411_msgb_alloc [1, cause];
     gsm411_rp_sendmsg mn_send (if rp_network inst \<noteq> 0 then GSM411_MT_RP_ERROR_MT else GSM411_MT_RP_ERROR_MO)
       msg_ref GSM411_MNSMS_DATA_REQ msg inst w }"

definition gsm411_send_release :: "'w smr_cb \<Rightarrow> gsm411_smr_inst \<Rightarrow> 'w \<Rightarrow> (int \<times> gsm411_smr_inst \<times> 'w) res" where
  "gsm411_send_release mn_send inst w = mn_send GSM411_MNSMS_REL_REQ gsm411_msgb_alloc inst w"

definition gsm411_send_abort :: "'w smr_cb \<Rightarrow> gsm411_smr_inst \<Rightarrow> 'w \<Rightarrow> (int \<times> gsm411_smr_inst \<times> 'w) res" where
  "gsm411_send_abort mn_send inst w = do {
     msg \<leftarrow> gsm411_msgb_put gsm411_msgb_alloc [1, 111];
     mn_send GSM411_MNSMS_ABORT_REQ msg inst w }"

definition gsm411_send_report :: "'w smr_cb \<Rightarrow> gsm411_smr_inst \<Rightarrow> 'w \<Rightarrow> (int \<times> gsm411_smr_inst \<times> 'w) res" where
  "gsm411_send_report rl_recv inst w = rl_recv GSM411_SM_RL_REPORT_IND gsm411_msgb_alloc inst w"

definition gsm411_rl_data_req :: "'w smr_cb \<Rightarrow> 'w smr_rout" where
  "gsm411_rl_data_req mn_send msg inst w = (
     let inst = inst\<lparr>rp_timer := Some GSM411_TMR_TR1M\<rparr>;
         inst = new_rp_state inst GSM411_RPS_WAIT_FOR_RP_ACK
     in mn_send GSM411_MNSMS_EST_REQ msg inst w)"

definition gsm411_rl_report_req :: "'w smr_cb \<Rightarrow> 'w smr_rout" where
  "gsm411_rl_report_req mn_send msg inst w = do {
     let inst = new_rp_state inst GSM411_RPS_IDLE;
     (_, inst, w) \<leftarrow> mn_send GSM411_MNSMS_DATA_REQ msg inst w;
     (_, inst, w) \<leftarrow> gsm411_send_release mn_send inst w;
     Some (0, inst, w) }"

text \<open>Reading \<open>rp_data->msg_type\<close> and \<open>rp_data->msg_ref\<close>.\<close>

definition rp_msg_type :: "msg \<Rightarrow> u8 res" where
  "rp_msg_type msg = do { t \<leftarrow> rd msg 3; Some (t AND 0x07) }"

definition rp_msg_ref :: "msg \<Rightarrow> u8 res" where
  "rp_msg_ref msg = rd msg 4"

definition gsm411_mnsms_est_ind :: "'w smr_cb \<Rightarrow> 'w smr_cb \<Rightarrow> 'w smr_rout" where
  "gsm411_mnsms_est_ind rl_recv mn_send msg inst w = do {
     msg_type \<leftarrow> rp_msg_type msg;
     if rp_network inst = uint (msg_type AND 1) then do {
       ref \<leftarrow> rp_msg_ref msg;
       (_, inst, w) \<leftarrow> gsm411_send_rp_error mn_send ref GSM411_RP_CAUSE_MSG_INCOMP_STATE inst w;
       let inst = new_rp_state inst GSM411_RPS_IDLE;
       (_, inst, w) \<leftarrow> gsm411_send_release mn_send inst w;
       Some (minus_EINVAL, inst, w) }
     else if msg_type = GSM411_MT_RP_DATA_MT \<or> msg_type = GSM411_MT_RP_DATA_MO \<or> msg_type = GSM411_MT_RP_SMMA_MO then do {
       let inst = inst\<lparr>rp_timer := Some GSM411_TMR_TR2M\<rparr>;
       let inst = new_rp_state inst GSM411_RPS_WAIT_TO_TX_RP_ACK;
       rl_recv GSM411_SM_RL_DATA_IND msg inst w }
     else do {
       ref \<leftarrow> rp_msg_ref msg;
       (_, inst, w) \<leftarrow> gsm411_send_rp_error mn_send ref GSM411_RP_CAUSE_MSGTYPE_NOTEXIST inst w;
       let inst = new_rp_state inst GSM411_RPS_IDLE;
       Some (minus_EINVAL, inst, w) } }"

definition gsm411_mnsms_data_ind_tx :: "'w smr_cb \<Rightarrow> 'w smr_cb \<Rightarrow> 'w smr_rout" where
  "gsm411_mnsms_data_ind_tx rl_recv mn_send msg inst w = do {
     msg_type \<leftarrow> rp_msg_type msg;
     if rp_network inst = uint (msg_type AND 1) then do {
       ref \<leftarrow> rp_msg_ref msg;
       (_, inst, w) \<leftarrow> gsm411_send_rp_error mn_send ref GSM411_RP_CAUSE_MSG_INCOMP_STATE inst w;
       let inst = new_rp_state inst GSM411_RPS_IDLE;
       (_, inst, w) \<leftarrow> gsm411_send_release mn_send inst w;
       Some (minus_EINVAL, inst, w) }
     else if msg_type = GSM411_MT_RP_ACK_MO \<or> msg_type = GSM411_MT_RP_ACK_MT \<or> msg_type = GSM411_MT_RP_ERROR_MO \<or> msg_type = GSM411_MT_RP_ERROR_MT then do {
       let inst = new_rp_state inst GSM411_RPS_IDLE;
       (_, inst, w) \<leftarrow> rl_recv GSM411_SM_RL_REPORT_IND msg inst w;
       (_, inst, w) \<leftarrow> gsm411_send_release mn_send inst w;
       Some (0, inst, w) }
     else do {
       ref \<leftarrow> rp_msg_ref msg;
       (_, inst, w) \<leftarrow> gsm411_send_rp_error mn_send ref GSM411_RP_CAUSE_MSGTYPE_NOTEXIST inst w;
       let inst = new_rp_state inst GSM411_RPS_IDLE;
       (_, inst, w) \<leftarrow> gsm411_send_release mn_send inst w;
       Some (minus_EINVAL, inst, w) } }"

definition gsm411_mnsms_error_ind_tx :: "'w smr_cb \<Rightarrow> 'w smr_cb \<Rightarrow> 'w smr_rout" where
  "gsm411_mnsms_error_ind_tx rl_recv mn_send msg inst w = do {
     let inst = new_rp_state inst GSM411_RPS_IDLE;
     (_, inst, w) \<leftarrow> rl_recv GSM411_SM_RL_REPORT_IND msg inst w;
     (_, inst, w) \<leftarrow> gsm411_send_release mn_send inst w;
     Some (0, inst, w) }"

definition gsm411_mnsms_error_ind_rx :: "'w smr_cb \<Rightarrow> 'w smr_rout" where
  "gsm411_mnsms_error_ind_rx rl_recv msg inst w = (
     let inst = new_rp_state inst GSM411_RPS_IDLE
     in rl_recv GSM411_SM_RL_REPORT_IND msg inst w)"

definition rp_timer_expired :: "'w smr_cb \<Rightarrow> 'w smr_cb \<Rightarrow> gsm411_smr_inst \<Rightarrow> 'w \<Rightarrow> (gsm411_smr_inst \<times> 'w) res" where
  "rp_timer_expired rl_recv mn_send inst w = do {
     let inst = inst\<lparr>rp_timer := None\<rparr>;
     (_, inst, w) \<leftarrow> gsm411_send_report rl_recv inst w;
     (_, inst, w) \<leftarrow> gsm411_send_abort mn_send inst w;
     Some (inst, w) }"

definition smrdownstatelist :: "'w smr_cb \<Rightarrow> 'w smr_rout dispatch" where
  "smrdownstatelist mn_send =
    [(SBIT (rp_state_num GSM411_RPS_IDLE), GSM411_SM_RL_DATA_REQ, 0, gsm411_rl_data_req mn_send),
     (SBIT (rp_state_num GSM411_RPS_WAIT_TO_TX_RP_ACK), GSM411_SM_RL_REPORT_REQ, 0, gsm411_rl_report_req mn_send)]"

definition smrdatastatelist :: "'w smr_cb \<Rightarrow> 'w smr_cb \<Rightarrow> 'w smr_rout dispatch" where
  "smrdatastatelist rl_recv mn_send =
    [(SBIT (rp_state_num GSM411_RPS_IDLE), GSM411_MNSMS_EST_IND, 0, gsm411_mnsms_est_ind rl_recv mn_send),
     (SBIT (rp_state_num GSM411_RPS_WAIT_FOR_RP_ACK), GSM411_MNSMS_DATA_IND, 0, gsm411_mnsms_data_ind_tx rl_recv mn_send),
     (SBIT (rp_state_num GSM411_RPS_WAIT_FOR_RP_ACK), GSM411_MNSMS_ERROR_IND, 0, gsm411_mnsms_error_ind_tx rl_recv mn_send),
     (SBIT (rp_state_num GSM411_RPS_WAIT_TO_TX_RP_ACK), GSM411_MNSMS_ERROR_IND, 0, gsm411_mnsms_error_ind_rx rl_recv)]"

text \<open>The look-up that both entry points share.\<close>

definition smr_find :: "'w smr_rout dispatch \<Rightarrow> int \<Rightarrow> gsm411_smr_inst \<Rightarrow> (u32 \<times> int \<times> int \<times> 'w smr_rout) option" where
  "smr_find tab msg_type inst = find (\<lambda>(states, type, _, _). msg_type = type \<and> SBIT (rp_state_num (rp_state inst)) AND states \<noteq> 0) tab"

definition gsm411_smr_send :: "'w smr_cb \<Rightarrow> int \<Rightarrow> 'w smr_rout" where
  "gsm411_smr_send mn_send msg_type msg inst w =
     (case smr_find (smrdownstatelist mn_send) msg_type inst of
        None \<Rightarrow> Some (0, inst, w)
      | Some (_, _, _, rout) \<Rightarrow> rout msg inst w)"

definition gsm411_smr_recv :: "'w smr_cb \<Rightarrow> 'w smr_cb \<Rightarrow> int \<Rightarrow> 'w smr_rout" where
  "gsm411_smr_recv rl_recv mn_send msg_type msg inst w =
     (case smr_find (smrdatastatelist rl_recv mn_send) msg_type inst of
        None \<Rightarrow> Some (0, inst, w)
      | Some (_, _, _, rout) \<Rightarrow> rout msg inst w)"

section \<open>Properties\<close>

named_theorems smr_defs \<open>the handlers of the relay layer\<close>

lemmas smr_handler_defs [smr_defs] = new_rp_state_def gsm411_rp_sendmsg_def gsm411_send_rp_error_def gsm411_send_release_def gsm411_send_abort_def
  gsm411_send_report_def gsm411_rl_data_req_def gsm411_rl_report_req_def rp_msg_type_def rp_msg_ref_def gsm411_mnsms_est_ind_def
  gsm411_mnsms_data_ind_tx_def gsm411_mnsms_error_ind_tx_def gsm411_mnsms_error_ind_rx_def rp_timer_expired_def gsm411_msgb_alloc_def gsm411_msgb_put_def Let_def

lemma rp_state_masks:
  "SBIT (rp_state_num s) AND SBIT (rp_state_num s') \<noteq> 0 \<longleftrightarrow> s = s'"
  by (cases s; cases s'; simp add: SBIT_def)

lemma smr_send_dispatch:
  "gsm411_smr_send mn_send t m inst w =
    (if t = GSM411_SM_RL_DATA_REQ \<and> rp_state inst = GSM411_RPS_IDLE then gsm411_rl_data_req mn_send m inst w
     else if t = GSM411_SM_RL_REPORT_REQ \<and> rp_state inst = GSM411_RPS_WAIT_TO_TX_RP_ACK then gsm411_rl_report_req mn_send m inst w
     else Some (0, inst, w))"
  unfolding gsm411_smr_send_def smr_find_def smrdownstatelist_def
  by (simp only: find_case_Cons prod.case rp_state_masks)

lemma smr_recv_dispatch:
  "gsm411_smr_recv rl_recv mn_send t m inst w =
    (if t = GSM411_MNSMS_EST_IND \<and> rp_state inst = GSM411_RPS_IDLE then gsm411_mnsms_est_ind rl_recv mn_send m inst w
     else if t = GSM411_MNSMS_DATA_IND \<and> rp_state inst = GSM411_RPS_WAIT_FOR_RP_ACK then gsm411_mnsms_data_ind_tx rl_recv mn_send m inst w
     else if t = GSM411_MNSMS_ERROR_IND \<and> rp_state inst = GSM411_RPS_WAIT_FOR_RP_ACK then gsm411_mnsms_error_ind_tx rl_recv mn_send m inst w
     else if t = GSM411_MNSMS_ERROR_IND \<and> rp_state inst = GSM411_RPS_WAIT_TO_TX_RP_ACK then gsm411_mnsms_error_ind_rx rl_recv m inst w
     else Some (0, inst, w))"
  unfolding gsm411_smr_recv_def smr_find_def smrdatastatelist_def
  by (simp only: find_case_Cons prod.case rp_state_masks)

text \<open>The invariant: the timer is stopped while the layer is idle, and the unused state is not entered.\<close>

definition smr_inv :: "gsm411_smr_inst \<Rightarrow> bool" where
  "smr_inv inst \<longleftrightarrow> rp_state inst \<noteq> GSM411_RPS_WAIT_FOR_RETRANS_T \<and> (rp_state inst = GSM411_RPS_IDLE \<longrightarrow> rp_timer inst = None)"

lemma smr_inv_simps [simp]:
  "smr_inv (new_rp_state inst GSM411_RPS_IDLE)"
  "s \<noteq> GSM411_RPS_IDLE \<Longrightarrow> s \<noteq> GSM411_RPS_WAIT_FOR_RETRANS_T \<Longrightarrow> smr_inv (new_rp_state inst s)"
  "smr_inv (gsm411_smr_init nw)"
  by (simp_all add: smr_inv_def new_rp_state_def gsm411_smr_init_def Let_def)

lemma smr_inv_timer: "smr_inv inst \<Longrightarrow> smr_inv (inst\<lparr>rp_timer := None\<rparr>)"
  by (simp add: smr_inv_def)

text \<open>When the relay layer reads behind a received message: the octet of the message type must be there, and that of the reference where an
  RP-ERROR is sent, on a message of the wrong direction or of none of the \<open>types\<close> expected.\<close>

definition rp_header_short :: "u8 set \<Rightarrow> msg \<Rightarrow> gsm411_smr_inst \<Rightarrow> bool" where
  "rp_header_short types m inst \<longleftrightarrow> length m \<le> 3 \<or> length m = 4 \<and> (rp_network inst = uint ((m ! 3 AND 7) AND 1) \<or> m ! 3 AND 7 \<notin> types)"

definition rp_reads_behind :: "int \<Rightarrow> msg \<Rightarrow> gsm411_smr_inst \<Rightarrow> bool" where
  "rp_reads_behind t m inst \<longleftrightarrow>
     t = GSM411_MNSMS_EST_IND \<and> rp_state inst = GSM411_RPS_IDLE \<and> rp_header_short {GSM411_MT_RP_DATA_MT, GSM411_MT_RP_DATA_MO, GSM411_MT_RP_SMMA_MO} m inst
   \<or> t = GSM411_MNSMS_DATA_IND \<and> rp_state inst = GSM411_RPS_WAIT_FOR_RP_ACK
     \<and> rp_header_short {GSM411_MT_RP_ACK_MO, GSM411_MT_RP_ACK_MT, GSM411_MT_RP_ERROR_MO, GSM411_MT_RP_ERROR_MT} m inst"

lemma rp_header_reads:
  "\<not> rp_header_short types m inst \<Longrightarrow> rp_msg_type m = Some (m ! 3 AND 7)"
  "\<not> rp_header_short types m inst \<Longrightarrow> rp_network inst = uint ((m ! 3 AND 7) AND 1) \<or> m ! 3 AND 7 \<notin> types \<Longrightarrow> rp_msg_ref m = Some (m ! 4)"
  "rp_header_short types m inst \<Longrightarrow> rp_msg_type m = None \<or> rp_msg_type m = Some (m ! 3 AND 7) \<and> rp_msg_ref m = None
     \<and> (rp_network inst = uint ((m ! 3 AND 7) AND 1) \<or> m ! 3 AND 7 \<notin> types)"
  by (auto simp: rp_header_short_def rp_msg_type_def rp_msg_ref_def rd_def)

lemma short_header_none:
  "rp_header_short {GSM411_MT_RP_DATA_MT, GSM411_MT_RP_DATA_MO, GSM411_MT_RP_SMMA_MO} m inst \<Longrightarrow> gsm411_mnsms_est_ind rl_recv mn_send m inst w = None"
  "rp_header_short {GSM411_MT_RP_ACK_MO, GSM411_MT_RP_ACK_MT, GSM411_MT_RP_ERROR_MO, GSM411_MT_RP_ERROR_MT} m inst \<Longrightarrow>
     gsm411_mnsms_data_ind_tx rl_recv mn_send m inst w = None"
  by (drule rp_header_reads(3), auto simp: gsm411_mnsms_est_ind_def gsm411_mnsms_data_ind_tx_def)+

lemma recv_reads_behind:
  assumes "rp_reads_behind t m inst"
  shows "gsm411_smr_recv rl_recv mn_send t m inst w = None"
  using assms by (auto simp: rp_reads_behind_def smr_recv_dispatch short_header_none)

text \<open>
  What the relay layer needs from its neighbours: an application callback that returns and keeps the rest of the
  world \<open>P\<close>, and a lower layer that does so for the message types \<open>tok\<close> and messages that fit, releases among them.
\<close>

locale sms_lower =
  fixes rl_recv mn_send :: "'w smr_cb" and P :: "'w \<Rightarrow> bool" and tok :: "int \<Rightarrow> bool"
  assumes app: "P w \<Longrightarrow> \<exists>rc w'. rl_recv t m inst w = Some (rc, inst, w') \<and> P w'"
    and lower: "tok t \<Longrightarrow> P w \<Longrightarrow> msg_fits m \<Longrightarrow> \<exists>rc w'. mn_send t m inst w = Some (rc, inst, w') \<and> P w'"
    and rel: "tok GSM411_MNSMS_REL_REQ"
begin

lemma release_ok: "P w \<Longrightarrow> \<exists>rc w'. gsm411_send_release mn_send inst w = Some (rc, inst, w') \<and> P w'"
  unfolding gsm411_send_release_def by (rule lower [OF rel]) (simp_all add: gsm411_msgb_alloc_def msg_fits_def)

lemma rp_error_ok:
  assumes "tok GSM411_MNSMS_DATA_REQ" and "P w"
  shows "\<exists>rc w'. gsm411_send_rp_error mn_send ref cause inst w = Some (rc, inst, w') \<and> P w'"
  using lower [OF assms] by (simp add: gsm411_send_rp_error_def gsm411_rp_sendmsg_def gsm411_msgb_put_def gsm411_msgb_alloc_def msg_fits_def)

lemma error_ind_ok:
  assumes "P w" and "smr_inv inst"
  shows "\<exists>rc inst' w'. gsm411_smr_recv rl_recv mn_send GSM411_MNSMS_ERROR_IND m inst w = Some (rc, inst', w') \<and> P w' \<and> smr_inv inst'"
proof -
  let ?i = "new_rp_state inst GSM411_RPS_IDLE"
  obtain rc1 w1 where a: "rl_recv GSM411_SM_RL_REPORT_IND m ?i w = Some (rc1, ?i, w1)" "P w1" using app [OF assms(1)] by blast
  obtain rc2 w2 where b: "gsm411_send_release mn_send ?i w1 = Some (rc2, ?i, w2)" "P w2" using release_ok [OF a(2)] by blast
  show ?thesis using a b assms
    by (simp add: smr_recv_dispatch gsm411_mnsms_error_ind_tx_def gsm411_mnsms_error_ind_rx_def)
qed

lemma recv_ok:
  assumes "P w" and "smr_inv inst" and "tok GSM411_MNSMS_DATA_REQ" and "\<not> rp_reads_behind t m inst"
  shows "\<exists>rc inst' w'. gsm411_smr_recv rl_recv mn_send t m inst w = Some (rc, inst', w') \<and> P w' \<and> smr_inv inst'"
proof (cases "t = GSM411_MNSMS_ERROR_IND")
  case True
  with error_ind_ok [OF assms(1,2)] show ?thesis by blast
next
  case False
  let ?i = "new_rp_state inst GSM411_RPS_IDLE"
  obtain x where x: "x = m ! 3 AND 7" by blast
  have err: "\<exists>rc w1 rc' w2. gsm411_send_rp_error mn_send ref cause inst w = Some (rc, inst, w1) \<and> P w1 \<and>
      gsm411_send_release mn_send ?i w1 = Some (rc', ?i, w2) \<and> P w2" for ref cause
    using rp_error_ok [OF assms(3,1), of ref cause inst] release_ok [of _ ?i] by blast
  have rep: "\<exists>rc w1 rc' w2. rl_recv GSM411_SM_RL_REPORT_IND m ?i w = Some (rc, ?i, w1) \<and> P w1 \<and>
      gsm411_send_release mn_send ?i w1 = Some (rc', ?i, w2) \<and> P w2"
    using app [OF assms(1), of GSM411_SM_RL_REPORT_IND m ?i] release_ok [of _ ?i] by blast
  let ?j = "new_rp_state (inst\<lparr>rp_timer := Some GSM411_TMR_TR2M\<rparr>) GSM411_RPS_WAIT_TO_TX_RP_ACK"
  have dat: "\<exists>rc w1. rl_recv GSM411_SM_RL_DATA_IND m ?j w = Some (rc, ?j, w1) \<and> P w1" using app [OF assms(1)] by blast
  have est: "\<exists>rc inst' w'. gsm411_mnsms_est_ind rl_recv mn_send m inst w = Some (rc, inst', w') \<and> P w' \<and> smr_inv inst'"
    if "\<not> rp_header_short {GSM411_MT_RP_DATA_MT, GSM411_MT_RP_DATA_MO, GSM411_MT_RP_SMMA_MO} m inst"
    using err [of "m ! 4" GSM411_RP_CAUSE_MSG_INCOMP_STATE] err [of "m ! 4" GSM411_RP_CAUSE_MSGTYPE_NOTEXIST] dat rp_header_reads(2) [OF that, folded x]
    unfolding gsm411_mnsms_est_ind_def rp_header_reads(1) [OF that] x [symmetric] by (auto simp: Let_def split: if_split)
  have "\<exists>rc inst' w'. gsm411_mnsms_data_ind_tx rl_recv mn_send m inst w = Some (rc, inst', w') \<and> P w' \<and> smr_inv inst'"
    if "\<not> rp_header_short {GSM411_MT_RP_ACK_MO, GSM411_MT_RP_ACK_MT, GSM411_MT_RP_ERROR_MO, GSM411_MT_RP_ERROR_MT} m inst"
    using err [of "m ! 4" GSM411_RP_CAUSE_MSG_INCOMP_STATE] err [of "m ! 4" GSM411_RP_CAUSE_MSGTYPE_NOTEXIST] rep rp_header_reads(2) [OF that, folded x]
    unfolding gsm411_mnsms_data_ind_tx_def rp_header_reads(1) [OF that] x [symmetric] by (auto simp: Let_def split: if_split)
  with est False assms(1,2,4) show ?thesis by (simp add: smr_recv_dispatch rp_reads_behind_def split: if_split)
qed

lemma send_ok:
  assumes "P w" and "smr_inv inst" and "tok GSM411_MNSMS_DATA_REQ" and "tok GSM411_MNSMS_EST_REQ" and "msg_fits m"
  shows "\<exists>rc inst' w'. gsm411_smr_send mn_send t m inst w = Some (rc, inst', w') \<and> P w' \<and> smr_inv inst'"
proof -
  let ?i = "new_rp_state inst GSM411_RPS_IDLE" and ?j = "new_rp_state (inst\<lparr>rp_timer := Some GSM411_TMR_TR1M\<rparr>) GSM411_RPS_WAIT_FOR_RP_ACK"
  have rep: "\<exists>rc w1 rc' w2. mn_send GSM411_MNSMS_DATA_REQ m ?i w = Some (rc, ?i, w1) \<and> P w1 \<and>
      gsm411_send_release mn_send ?i w1 = Some (rc', ?i, w2) \<and> P w2"
    using lower [OF assms(3,1,5), of ?i] release_ok [of _ ?i] by blast
  have dat: "\<exists>rc w1. mn_send GSM411_MNSMS_EST_REQ m ?j w = Some (rc, ?j, w1) \<and> P w1" using lower [OF assms(4,1,5)] by blast
  show ?thesis using rep dat assms(1,2)
    by (auto simp: smr_send_dispatch gsm411_rl_data_req_def gsm411_rl_report_req_def Let_def)
qed

lemma timer_ok:
  assumes "P w" and "smr_inv inst" and "tok GSM411_MNSMS_ABORT_REQ"
  shows "\<exists>inst' w'. rp_timer_expired rl_recv mn_send inst w = Some (inst', w') \<and> P w' \<and> smr_inv inst'"
proof -
  let ?i = "inst\<lparr>rp_timer := None\<rparr>"
  obtain rc w1 where a: "gsm411_send_report rl_recv ?i w = Some (rc, ?i, w1)" "P w1"
    unfolding gsm411_send_report_def using app [OF assms(1)] by blast
  obtain rc' w2 where b: "gsm411_send_abort mn_send ?i w1 = Some (rc', ?i, w2)" "P w2"
    using lower [OF assms(3) a(2), of "[1, 111]" ?i] by (auto simp: gsm411_send_abort_def gsm411_msgb_put_def gsm411_msgb_alloc_def msg_fits_def)
  show ?thesis using a b smr_inv_timer [OF assms(2)] by (simp add: rp_timer_expired_def Let_def)
qed

end

end
