(* ===== verification/Sms_Stack.thy ===== *)
theory Sms_Stack
  imports Sms_Rp
begin

text \<open>
  The two layers of the short message service connected to each other, as their users
  do (the MSC and the mobile station): the relay layer's \<open>mn_send\<close> is \<open>gsm411_smc_send\<close>, the connection
  sublayer's \<open>mn_recv\<close> is \<open>gsm411_smr_recv\<close>. An indication from below therefore runs through the relay layer and may
  come back as a request while the connection sublayer is still in its handler. What leaves the stack, to the
  mobility management and to the application, is recorded.
\<close>

datatype stack_out = ToMm int msg int | ToApp int msg

type_synonym stack = "gsm411_smc_inst \<times> gsm411_smr_inst \<times> stack_out list"

definition stk_mm_send :: "(gsm411_smr_inst \<times> stack_out list) mm_send_cb" where
  "stk_mm_send t m c smc w = (case w of (smr, out) \<Rightarrow> Some (0, smc, smr, out @ [ToMm t m c]))"

definition stk_rl_recv :: "(gsm411_smc_inst \<times> stack_out list) smr_cb" where
  "stk_rl_recv t m smr w = (case w of (smc, out) \<Rightarrow> Some (0, smr, smc, out @ [ToApp t m]))"

definition stk_mn_send :: "(gsm411_smc_inst \<times> stack_out list) smr_cb" where
  "stk_mn_send t m smr w = (case w of (smc, out) \<Rightarrow> do {
     (rc, smc, smr, out) \<leftarrow> gsm411_smc_send stk_mm_send t m smc (smr, out);
     Some (rc, smr, smc, out) })"

definition stk_mn_recv :: "(gsm411_smr_inst \<times> stack_out list) mn_recv_cb" where
  "stk_mn_recv t m smc w = (case w of (smr, out) \<Rightarrow> do {
     (rc, smr, smc, out) \<leftarrow> gsm411_smr_recv stk_rl_recv stk_mn_send t m smr (smc, out);
     Some (rc, smc, smr, out) })"

datatype stack_event = AppSend int msg | MmRecv int int msg | CpExpired | RpExpired

fun stack_step :: "stack_event \<Rightarrow> stack \<Rightarrow> stack res" where
  "stack_step (AppSend t m) (smc, smr, out) = do {
     (_, smr, smc, out) \<leftarrow> gsm411_smr_send stk_mn_send t m smr (smc, out);
     Some (smc, smr, out) }"
| "stack_step (MmRecv t c m) (smc, smr, out) = do {
     (_, smc, smr, out) \<leftarrow> gsm411_smc_recv stk_mn_recv stk_mm_send t c m smc (smr, out);
     Some (smc, smr, out) }"
| "stack_step CpExpired (smc, smr, out) =
     (if cp_timer smc = None then Some (smc, smr, out) else cp_timer_expired stk_mn_recv stk_mm_send smc (smr, out))"
| "stack_step RpExpired (smc, smr, out) =
     (if rp_timer smr = None then Some (smc, smr, out) else do {
        (smr, smc, out) \<leftarrow> rp_timer_expired stk_rl_recv stk_mn_send smr (smc, out);
        Some (smc, smr, out) })"

definition stack_init :: "int \<Rightarrow> stack" where
  "stack_init nw = (gsm411_smc_init nw, gsm411_smr_init nw, [])"

text \<open>Messages from the application fit a buffer; anything may be received.\<close>

fun stack_event_ok :: "stack_event \<Rightarrow> bool" where
  "stack_event_ok (AppSend t m) = msg_fits m"
| "stack_event_ok _ = True"

text \<open>The events that make the relay layer read behind the message: a CP-DATA that the sublayer passes on, while the relay layer takes it, and that is
  too short for the part of the RP header that is read.\<close>

fun stack_reads_behind :: "stack_event \<Rightarrow> gsm411_smc_inst \<Rightarrow> gsm411_smr_inst \<Rightarrow> bool" where
  "stack_reads_behind (MmRecv t c m) smc smr \<longleftrightarrow>
     t = GSM411_MMSMS_EST_IND \<and> cp_state smc = GSM411_CPS_IDLE \<and> rp_reads_behind GSM411_MNSMS_EST_IND m smr
   \<or> t = GSM411_MMSMS_DATA_IND \<and> c = GSM411_MT_CP_DATA \<and> cp_state smc = GSM411_CPS_MM_ESTABLISHED \<and> rp_reads_behind GSM411_MNSMS_DATA_IND m smr"
| "stack_reads_behind _ smc smr \<longleftrightarrow> False"

section \<open>Properties\<close>

lemmas stk_defs = stk_mm_send_def stk_rl_recv_def stk_mn_send_def stk_mn_recv_def

lemma smc_send_ok:
  assumes "smc_inv smc" and "msg_fits m"
  shows "\<exists>rc smc' out'. gsm411_smc_send stk_mm_send t m smc (smr, out) = Some (rc, smc', smr, out') \<and> smc_inv smc' \<and>
    (cp_state smc = GSM411_CPS_IDLE \<longrightarrow> t \<noteq> GSM411_MNSMS_EST_REQ \<longrightarrow> smc' = smc)"
  using assms by (auto simp: smc_send_dispatch smc_defs stk_mm_send_def smc_inv_def msg_fits_def split: if_splits)

interpretation stk: sms_lower stk_rl_recv stk_mn_send "\<lambda>(smc, out). smc_inv smc" "\<lambda>t. True"
proof
  fix t m inst and w :: "gsm411_smc_inst \<times> stack_out list"
  assume w: "case w of (smc, out) \<Rightarrow> smc_inv smc"
  show "\<exists>rc w'. stk_rl_recv t m inst w = Some (rc, inst, w') \<and> (case w' of (smc, out) \<Rightarrow> smc_inv smc)"
    using w by (cases w) (simp add: stk_rl_recv_def)
  assume "msg_fits m"
  then show "\<exists>rc w'. stk_mn_send t m inst w = Some (rc, inst, w') \<and> (case w' of (smc, out) \<Rightarrow> smc_inv smc)"
    using w smc_send_ok [of "fst w" m t inst "snd w"] by (auto simp: stk_mn_send_def)
qed simp

text \<open>While the sublayer is idle, everything but a new request leaves it idle.\<close>

interpretation stk_idle: sms_lower stk_rl_recv stk_mn_send "\<lambda>(smc, out). smc_inv smc \<and> cp_state smc = GSM411_CPS_IDLE" "\<lambda>t. t \<noteq> GSM411_MNSMS_EST_REQ"
proof
  fix t m inst and w :: "gsm411_smc_inst \<times> stack_out list"
  assume w: "case w of (smc, out) \<Rightarrow> smc_inv smc \<and> cp_state smc = GSM411_CPS_IDLE"
  show "\<exists>rc w'. stk_rl_recv t m inst w = Some (rc, inst, w') \<and> (case w' of (smc, out) \<Rightarrow> smc_inv smc \<and> cp_state smc = GSM411_CPS_IDLE)"
    using w by (cases w) (simp add: stk_rl_recv_def)
  assume "t \<noteq> GSM411_MNSMS_EST_REQ" "msg_fits m"
  then show "\<exists>rc w'. stk_mn_send t m inst w = Some (rc, inst, w') \<and> (case w' of (smc, out) \<Rightarrow> smc_inv smc \<and> cp_state smc = GSM411_CPS_IDLE)"
    using w smc_send_ok [of "fst w" m t inst "snd w"] by (auto simp: stk_mn_send_def)
qed simp

lemma mn_recv_ok:
  assumes "smc_inv smc" and "smr_inv smr" and "\<not> rp_reads_behind t m smr"
  shows "\<exists>rc smc' smr' out'. stk_mn_recv t m smc (smr, out) = Some (rc, smc', smr', out') \<and> smc_inv smc' \<and> smr_inv smr'"
  using stk.recv_ok [of "(smc, out)" smr t m] assms by (auto simp: stk_mn_recv_def)

lemma mn_recv_error_ok:
  assumes "smc_inv smc" and "smr_inv smr" and "cp_state smc = GSM411_CPS_IDLE"
  shows "\<exists>rc smc' smr' out'. stk_mn_recv GSM411_MNSMS_ERROR_IND m smc (smr, out) = Some (rc, smc', smr', out') \<and> smc_inv smc' \<and> smr_inv smr' \<and>
    cp_state smc' = GSM411_CPS_IDLE"
  using stk_idle.error_ind_ok [of "(smc, out)" smr m] assms by (auto simp: stk_mn_recv_def)

definition stack_inv :: "stack \<Rightarrow> bool" where
  "stack_inv s \<longleftrightarrow> (case s of (smc, smr, out) \<Rightarrow> smc_inv smc \<and> smr_inv smr)"

lemma smc_recv_ok:
  assumes "smc_inv smc" and "smr_inv smr" and "\<not> stack_reads_behind (MmRecv t c m) smc smr"
  shows "\<exists>rc smc' smr' out'. gsm411_smc_recv stk_mn_recv stk_mm_send t c m smc (smr, out) = Some (rc, smc', smr', out') \<and> smc_inv smc' \<and> smr_inv smr'"
proof -
  have idle: "smc_inv (smc\<lparr>cp_msg := None, cp_state := GSM411_CPS_IDLE\<rparr>)" "smc_inv (smc\<lparr>cp_state := GSM411_CPS_IDLE\<rparr>)"
    using assms(1) by (simp_all add: smc_inv_def)
  note err = mn_recv_error_ok [OF idle(1) assms(2)] mn_recv_error_ok [OF idle(2) assms(2)]
  have est: "smc_inv (smc\<lparr>cp_state := GSM411_CPS_MM_ESTABLISHED, cp_rel := 0\<rparr>)" using assms(1) by (simp add: smc_inv_def)
  let ?dat = "\<exists>rc smc' smr' out'. gsm411_mmsms_cp_data stk_mn_recv stk_mm_send m smc (smr, out) = Some (rc, smc', smr', out') \<and> smc_inv smc' \<and> smr_inv smr'"
  have dat: ?dat if "\<not> rp_reads_behind (if cp_state smc = GSM411_CPS_IDLE then GSM411_MNSMS_EST_IND else GSM411_MNSMS_DATA_IND) m smr"
    using mn_recv_ok [OF est assms(2), of GSM411_MNSMS_EST_IND m "out @ [ToMm GSM411_MMSMS_DATA_REQ [] GSM411_MT_CP_ACK]"]
      mn_recv_ok [OF assms(1,2), of GSM411_MNSMS_DATA_IND m "out @ [ToMm GSM411_MMSMS_DATA_REQ [] GSM411_MT_CP_ACK]"] that
    by (auto simp: gsm411_mmsms_cp_data_def new_cp_state_def gsm411_msgb_alloc_def stk_mm_send_def)
  have dat1: ?dat if "t = GSM411_MMSMS_EST_IND" "cp_state smc = GSM411_CPS_IDLE" by (rule dat) (use assms(3) that in auto)
  have dat2: ?dat if "t = GSM411_MMSMS_DATA_IND" "c = GSM411_MT_CP_DATA" "cp_state smc = GSM411_CPS_MM_ESTABLISHED"
    by (rule dat) (use assms(3) that in auto)
  have cnf: "\<exists>rc smc' smr' out'. gsm411_mmsms_est_cnf stk_mm_send smc (smr, out) = Some (rc, smc', smr', out') \<and> smc_inv smc' \<and> smr_inv smr'"
    using assms(1,2) by (auto simp: smc_defs stk_mm_send_def smc_inv_def msg_fits_def split: if_splits)
  have ack: "\<exists>rc smc' smr' out'. gsm411_mmsms_cp_ack stk_mm_send m smc (smr, out) = Some (rc, smc', smr', out') \<and> smc_inv smc' \<and> smr_inv smr'"
    using assms(1,2) by (auto simp: smc_defs stk_mm_send_def smc_inv_def msg_fits_def split: if_splits)
  have cpe: "\<exists>rc smc' smr' out'. gsm411_mmsms_cp_error stk_mn_recv stk_mm_send m smc (smr, out) = Some (rc, smc', smr', out') \<and> smc_inv smc' \<and> smr_inv smr'"
    using err(1) [of m out] by (auto simp: gsm411_mmsms_cp_error_def new_cp_state_def gsm411_msgb_alloc_def stk_mm_send_def)
  have rel: "\<exists>rc smc' smr' out'. gsm411_mmsms_rel_ind stk_mn_recv m smc (smr, out) = Some (rc, smc', smr', out') \<and> smc_inv smc' \<and> smr_inv smr'"
    using err(1) [of "[]" out] by (auto simp: gsm411_mmsms_rel_ind_def new_cp_state_def gsm411_msgb_alloc_def)
  have unh: "\<exists>rc smc' smr' out'. do {
            let inst = new_cp_state smc GSM411_CPS_IDLE;
            (_, inst, w) \<leftarrow> gsm411_tx_cp_error stk_mm_send GSM411_CP_CAUSE_MSGTYPE_NOTEXIST inst (smr, out);
            (_, inst, w) \<leftarrow> stk_mn_recv GSM411_MNSMS_ERROR_IND gsm411_msgb_alloc inst w;
            stk_mm_send GSM411_MMSMS_REL_REQ gsm411_msgb_alloc 0 inst w } = Some (rc, smc', smr', out') \<and> smc_inv smc' \<and> smr_inv smr'"
    using err(2) [of "[]" "out @ [ToMm GSM411_MMSMS_DATA_REQ [GSM411_CP_CAUSE_MSGTYPE_NOTEXIST] GSM411_MT_CP_ERROR]"]
    by (auto simp: gsm411_tx_cp_error_def new_cp_state_def gsm411_msgb_alloc_def gsm411_msgb_put_def stk_mm_send_def)
  show ?thesis
    unfolding smc_recv_dispatch using cnf ack cpe rel unh dat1 dat2 assms(1,2) by (simp only: split: if_split) simp
qed

lemma smc_recv_reads_behind:
  assumes "stack_reads_behind (MmRecv t c m) smc smr"
  shows "gsm411_smc_recv stk_mn_recv stk_mm_send t c m smc (smr, out) = None"
  using assms
  by (auto simp: smc_recv_dispatch gsm411_mmsms_cp_data_def new_cp_state_def gsm411_msgb_alloc_def stk_mm_send_def stk_mn_recv_def recv_reads_behind)

lemma cp_expired_ok:
  assumes "smc_inv smc" and "smr_inv smr"
  shows "\<exists>smc' smr' out'. cp_timer_expired stk_mn_recv stk_mm_send smc (smr, out) = Some (smc', smr', out') \<and> smc_inv smc' \<and> smr_inv smr'"
proof (cases "cp_retx smc = cp_max_retr smc")
  case True
  have "smc_inv (smc\<lparr>cp_timer := None, cp_state := GSM411_CPS_IDLE\<rparr>)" using assms(1) by (simp add: smc_inv_def)
  then obtain rc smc' smr' out' where r: "stk_mn_recv GSM411_MNSMS_ERROR_IND [] (smc\<lparr>cp_timer := None, cp_state := GSM411_CPS_IDLE\<rparr>) (smr, out) = Some (rc, smc', smr', out')"
    "smc_inv smc'" "smr_inv smr'" "cp_state smc' = GSM411_CPS_IDLE"
    using mn_recv_error_ok [OF _ assms(2), of "smc\<lparr>cp_timer := None, cp_state := GSM411_CPS_IDLE\<rparr>" "[]" out] by auto
  have "smc_inv (smc'\<lparr>cp_msg := None\<rparr>)" using r(2,4) by (simp add: smc_inv_def)
  with r True show ?thesis by (simp add: cp_timer_expired_def new_cp_state_def gsm411_msgb_alloc_def stk_mm_send_def Let_def)
next
  case False
  with assms show ?thesis
    by (auto simp: smc_defs stk_mm_send_def smc_inv_def msg_fits_def split: if_splits)
qed

lemma stack_step_ok:
  assumes i: "smc_inv smc" "smr_inv smr" and e: "stack_event_ok e" "\<not> stack_reads_behind e smc smr"
  shows "\<exists>s'. stack_step e (smc, smr, out) = Some s' \<and> stack_inv s'"
proof (cases e)
  case (AppSend t m)
  then show ?thesis using stk.send_ok [of "(smc, out)" smr m t] i e by (auto simp: stack_inv_def)
next
  case (MmRecv t c m)
  then show ?thesis using smc_recv_ok [OF i, of t c m out] e by (auto simp: stack_inv_def)
next
  case CpExpired
  then show ?thesis using cp_expired_ok [OF i, of out] i by (auto simp: stack_inv_def)
next
  case RpExpired
  then show ?thesis using stk.timer_ok [of "(smc, out)" smr] i by (auto simp: stack_inv_def)
qed

lemma stack_step_behind: "stack_reads_behind e smc smr \<Longrightarrow> stack_step e (smc, smr, out) = None"
  by (cases e) (simp_all add: smc_recv_reads_behind)

interpretation stack: partial_machine stack_step stack_event_ok "stack_init nw" stack_inv "\<lambda>e (smc, smr, out). stack_reads_behind e smc smr" for nw
proof
  show "stack_inv (stack_init nw)" by (simp add: stack_inv_def stack_init_def smc_inv_init)
next
  fix s e
  assume "stack_inv s" "stack_event_ok e"
  then show "if (\<lambda>(smc, smr, out). stack_reads_behind e smc smr) s then stack_step e s = None else \<exists>s'. stack_step e s = Some s' \<and> stack_inv s'"
    using stack_step_ok [of "fst s" "fst (snd s)" e "snd (snd s)"] by (auto simp: stack_inv_def stack_step_behind split: prod.splits)
qed

text \<open>C3: The connected layers. In every state that the application, the mobility management and the two timers can
  bring about, in any order and with any received messages, the invariants of both layers hold: in particular the relay timer is stopped while the
  relay layer is idle, a message is stored and the retransmission timer runs while an acknowledgement is
  awaited. An event is handled without an abort and without a read outside a message, although a handler of the lower
  layer can be entered again from within the upper layer, except for exactly one kind: a CP-DATA that opens a connection while the relay
  layer is idle, or arrives on an established one while it waits for the RP-ACK, with three octets or less, or with four
  when the RP message is of the wrong direction or an unexpected type. The relay layer does not check the length and reads behind it.
  Messages from the application are assumed to fit a buffer.\<close>

theorem stack_reachable:
  assumes "reach stack_step stack_event_ok (stack_init nw) (smc, smr, out)" and "stack_event_ok e"
  shows "smc_inv smc \<and> smr_inv smr \<and>
    (if stack_reads_behind e smc smr then stack_step e (smc, smr, out) = None
     else \<exists>s'. stack_step e (smc, smr, out) = Some s' \<and> reach stack_step stack_event_ok (stack_init nw) s')"
  using stack.reach_inv [OF assms(1)] stack.reach_progress [OF assms] by (simp add: stack_inv_def)

theorem stack_reachable_witness:
  "smc_inv (gsm411_smc_init 0) \<and> smr_inv (gsm411_smr_init 0) \<and>
   (\<exists>s'. stack_step (MmRecv GSM411_MMSMS_EST_IND GSM411_MT_CP_DATA [9, 1, 5, 1, 7]) (gsm411_smc_init 0, gsm411_smr_init 0, []) = Some s' \<and>
      reach stack_step stack_event_ok (stack_init 0) s') \<and>
   stack_step (MmRecv GSM411_MMSMS_EST_IND GSM411_MT_CP_DATA [9, 1, 0]) (gsm411_smc_init 0, gsm411_smr_init 0, []) = None \<and>
   stack_step (MmRecv GSM411_MMSMS_EST_IND GSM411_MT_CP_DATA [9, 1, 5, 0]) (gsm411_smc_init 0, gsm411_smr_init 0, []) = None"
proof -
  have r: "reach stack_step stack_event_ok (stack_init 0) (gsm411_smc_init 0, gsm411_smr_init 0, [])"
    using reach_init [of stack_step stack_event_ok "stack_init 0"] by (simp add: stack_init_def)
  have b: "\<not> stack_reads_behind (MmRecv GSM411_MMSMS_EST_IND GSM411_MT_CP_DATA [9, 1, 5, 1, 7]) (gsm411_smc_init 0) (gsm411_smr_init 0)"
    "stack_reads_behind (MmRecv GSM411_MMSMS_EST_IND GSM411_MT_CP_DATA [9, 1, 0]) (gsm411_smc_init 0) (gsm411_smr_init 0)"
    "stack_reads_behind (MmRecv GSM411_MMSMS_EST_IND GSM411_MT_CP_DATA [9, 1, 5, 0]) (gsm411_smc_init 0) (gsm411_smr_init 0)"
    by (simp_all add: rp_reads_behind_def rp_header_short_def gsm411_smc_init_def gsm411_smr_init_def)
  show ?thesis
    using stack_reachable [OF r, of "MmRecv GSM411_MMSMS_EST_IND GSM411_MT_CP_DATA [9, 1, 5, 1, 7]"]
      stack_reachable [OF r, of "MmRecv GSM411_MMSMS_EST_IND GSM411_MT_CP_DATA [9, 1, 0]"]
      stack_reachable [OF r, of "MmRecv GSM411_MMSMS_EST_IND GSM411_MT_CP_DATA [9, 1, 5, 0]"] b by simp
qed

lemmas stack_eval = smr_send_dispatch smr_recv_dispatch smc_send_dispatch smc_recv_dispatch smc_defs smr_defs stk_defs
  stack_init_def gsm411_smc_init_def gsm411_smr_init_def msg_fits_def c_mem

text \<open>C19: Complete transfers. Sending: a data request establishes a connection, sends the message as CP-DATA once it is
  confirmed, and when the peer's RP-ACK (or RP-ERROR) arrives, acknowledges it with CP-ACK, reports it to the
  application and releases the connection. Receiving: an RP-DATA is acknowledged with CP-ACK and handed to the
  application; the application's report is sent as CP-DATA and the connection released after its CP-ACK. An RP
  message of the wrong direction is answered with an RP-ERROR and the connection is released. Afterwards
  both layers are idle with their timers stopped and nothing stored.\<close>

theorem sms_transfers:
  assumes "msg_fits m" and "4 < length r" and "r ! 3 AND 7 \<in> {GSM411_MT_RP_ACK_MT, GSM411_MT_RP_ERROR_MT}"
    and "4 < length d" and "d ! 3 AND 7 = GSM411_MT_RP_DATA_MT" and "4 < length x" and "x ! 3 AND 7 = GSM411_MT_RP_DATA_MO"
  shows "run stack_step [AppSend GSM411_SM_RL_DATA_REQ m, MmRecv GSM411_MMSMS_EST_CNF 0 [], MmRecv GSM411_MMSMS_DATA_IND GSM411_MT_CP_ACK [],
      MmRecv GSM411_MMSMS_DATA_IND GSM411_MT_CP_DATA r] (stack_init 0) =
    Some (gsm411_smc_init 0, gsm411_smr_init 0, [ToMm GSM411_MMSMS_EST_REQ [] 0, ToMm GSM411_MMSMS_DATA_REQ m GSM411_MT_CP_DATA,
      ToMm GSM411_MMSMS_DATA_REQ [] GSM411_MT_CP_ACK, ToApp GSM411_SM_RL_REPORT_IND r, ToMm GSM411_MMSMS_REL_REQ [] 0])
    \<and> run stack_step [MmRecv GSM411_MMSMS_EST_IND GSM411_MT_CP_DATA d, AppSend GSM411_SM_RL_REPORT_REQ m, MmRecv GSM411_MMSMS_DATA_IND GSM411_MT_CP_ACK []] (stack_init 0) =
    Some ((gsm411_smc_init 0)\<lparr>cp_rel := 1\<rparr>, gsm411_smr_init 0, [ToMm GSM411_MMSMS_DATA_REQ [] GSM411_MT_CP_ACK, ToApp GSM411_SM_RL_DATA_IND d,
      ToMm GSM411_MMSMS_DATA_REQ m GSM411_MT_CP_DATA, ToMm GSM411_MMSMS_REL_REQ [] 0])
    \<and> run stack_step [MmRecv GSM411_MMSMS_EST_IND GSM411_MT_CP_DATA x, MmRecv GSM411_MMSMS_DATA_IND GSM411_MT_CP_ACK []] (stack_init 0) =
    Some ((gsm411_smc_init 0)\<lparr>cp_rel := 1\<rparr>, gsm411_smr_init 0, [ToMm GSM411_MMSMS_DATA_REQ [] GSM411_MT_CP_ACK,
      ToMm GSM411_MMSMS_DATA_REQ [4, GSM411_MT_RP_ERROR_MO, x ! 4, 1, GSM411_RP_CAUSE_MSG_INCOMP_STATE] GSM411_MT_CP_DATA, ToMm GSM411_MMSMS_REL_REQ [] 0])"
proof (intro conjI)
qed (use assms in \<open>auto simp: stack_eval\<close>)

theorem sms_transfers_witness:
  "run stack_step [MmRecv GSM411_MMSMS_EST_IND GSM411_MT_CP_DATA [9, 1, 3, 0, 66], MmRecv GSM411_MMSMS_DATA_IND GSM411_MT_CP_ACK []] (stack_init 0) =
    Some ((gsm411_smc_init 0)\<lparr>cp_rel := 1\<rparr>, gsm411_smr_init 0, [ToMm GSM411_MMSMS_DATA_REQ [] GSM411_MT_CP_ACK,
      ToMm GSM411_MMSMS_DATA_REQ [4, GSM411_MT_RP_ERROR_MO, 66, 1, GSM411_RP_CAUSE_MSG_INCOMP_STATE] GSM411_MT_CP_DATA, ToMm GSM411_MMSMS_REL_REQ [] 0])"
  using sms_transfers [of "[1]" "[9, 1, 3, 3, 66]" "[9, 1, 3, 1, 66]" "[9, 1, 3, 0, 66]"] by (simp add: msg_fits_def)

text \<open>C34: Two ways to be left hanging. When the relay timer expires, the application gets a report and the connection is
  aborted, but the relay layer stays in its waiting state, with no timer running: further data requests are dropped
  without a report. When a connection is opened with an RP message of an unknown type, the RP-ERROR is sent but no release
  is requested: after its CP-ACK the connection stays established with both layers waiting for nothing.\<close>

theorem sms_left_hanging:
  assumes "msg_fits m" and "4 < length x" and "x ! 3 AND 7 = 7"
  shows "(\<exists>smc out. run stack_step [AppSend GSM411_SM_RL_DATA_REQ m, MmRecv GSM411_MMSMS_EST_CNF 0 [], MmRecv GSM411_MMSMS_DATA_IND GSM411_MT_CP_ACK [], RpExpired] (stack_init 0) =
        Some (smc, \<lparr>rp_network = 0, rp_state = GSM411_RPS_WAIT_FOR_RP_ACK, rp_timer = None\<rparr>, out) \<and> cp_timer smc = None \<and> cp_state smc = GSM411_CPS_IDLE \<and>
        (\<forall>m'. stack_step (AppSend GSM411_SM_RL_DATA_REQ m') (smc, \<lparr>rp_network = 0, rp_state = GSM411_RPS_WAIT_FOR_RP_ACK, rp_timer = None\<rparr>, out) =
           Some (smc, \<lparr>rp_network = 0, rp_state = GSM411_RPS_WAIT_FOR_RP_ACK, rp_timer = None\<rparr>, out)))
    \<and> run stack_step [MmRecv GSM411_MMSMS_EST_IND GSM411_MT_CP_DATA x, MmRecv GSM411_MMSMS_DATA_IND GSM411_MT_CP_ACK []] (stack_init 0) =
        Some ((gsm411_smc_init 0)\<lparr>cp_state := GSM411_CPS_MM_ESTABLISHED\<rparr>, gsm411_smr_init 0, [ToMm GSM411_MMSMS_DATA_REQ [] GSM411_MT_CP_ACK,
          ToMm GSM411_MMSMS_DATA_REQ [4, GSM411_MT_RP_ERROR_MO, x ! 4, 1, GSM411_RP_CAUSE_MSGTYPE_NOTEXIST] GSM411_MT_CP_DATA])"
proof (intro conjI)
qed (use assms in \<open>auto simp: stack_eval\<close>)

theorem sms_left_hanging_witness:
  "run stack_step [MmRecv GSM411_MMSMS_EST_IND GSM411_MT_CP_DATA [9, 1, 2, 7, 66], MmRecv GSM411_MMSMS_DATA_IND GSM411_MT_CP_ACK []] (stack_init 0) =
        Some ((gsm411_smc_init 0)\<lparr>cp_state := GSM411_CPS_MM_ESTABLISHED\<rparr>, gsm411_smr_init 0, [ToMm GSM411_MMSMS_DATA_REQ [] GSM411_MT_CP_ACK,
          ToMm GSM411_MMSMS_DATA_REQ [4, GSM411_MT_RP_ERROR_MO, 66, 1, GSM411_RP_CAUSE_MSGTYPE_NOTEXIST] GSM411_MT_CP_DATA])"
  using sms_left_hanging [of "[1]" "[9, 1, 2, 7, 66]"] by (simp add: msg_fits_def)

end
