(* ===== verification/Sercomm.thy ===== *)
theory Sercomm
  imports Machine
begin

text \<open>
  The serial multiplex, \<open>src/core/sercomm.c\<close>: messages on numbered connections (DLCIs) are queued, framed with flag and
  escape octets and handed to a driver octet by octet; received octets are assembled into messages and
  dispatched to the handler of their DLCI.

  A message is the list of its octets with its headroom; the per-DLCI queues are lists, which is what the linked message
  queues refine (\<open>Msgb\<close>). A handler is either the echo service, which sends the message back, or a user
  callback, a parameter that may use the instance and changes the rest \<open>'w\<close> of the world. Locking is left out:
  an operation is atomic. \<open>osmo_sercomm_change_speed\<close>, which waits for other contexts to empty the queues, is
  not modelled.

  Shown: every octet handed to the driver, for any number of queued messages; that the receiver gets the messages back in
  order; and where the address octet breaks the framing.
\<close>

subsection \<open>State\<close>

abbreviation HDLC_FLAG :: u8 where "HDLC_FLAG \<equiv> 0x7E"
abbreviation HDLC_ESCAPE :: u8 where "HDLC_ESCAPE \<equiv> 0x7D"
abbreviation HDLC_C_UI :: u8 where "HDLC_C_UI \<equiv> 0x03"
abbreviation DEFAULT_RX_MSG_SIZE :: nat where "DEFAULT_RX_MSG_SIZE \<equiv> 2048"
abbreviation SC_DLCI_ECHO :: u8 where "SC_DLCI_ECHO \<equiv> 128"
abbreviation SC_DLCI_MAX :: nat where "SC_DLCI_MAX \<equiv> 129"

datatype rx_state = RX_ST_WAIT_START | RX_ST_ADDR | RX_ST_CTRL | RX_ST_DATA | RX_ST_ESCAPE

record sc_msg =
  headroom :: nat
  sc_data :: "u8 list"

datatype dlci_cb = Echo | User nat

record osmo_sercomm_inst =
  initialized :: int
  dlci_queues :: "sc_msg list list"
  tx_msg :: "sc_msg option"
  tx_state :: rx_state
  next_char :: "nat option"
  dlci_handler :: "dlci_cb option list"
  rx_msg_size :: nat
  rx_msg :: "sc_msg option"
  rx_st :: rx_state
  rx_dlci :: u8
  rx_ctrl :: u8

type_synonym 'w user_cb = "nat \<Rightarrow> u8 \<Rightarrow> sc_msg \<Rightarrow> osmo_sercomm_inst \<Rightarrow> 'w \<Rightarrow> (osmo_sercomm_inst \<times> 'w) res"

subsection \<open>Operations\<close>

definition osmo_sercomm_register_rx_cb :: "osmo_sercomm_inst \<Rightarrow> u8 \<Rightarrow> dlci_cb \<Rightarrow> int \<times> osmo_sercomm_inst" where
  "osmo_sercomm_register_rx_cb sercomm dlci cb =
     (if SC_DLCI_MAX \<le> unat dlci then (- 22, sercomm)
      else if dlci_handler sercomm ! unat dlci \<noteq> None then (- 16, sercomm)
      else (0, sercomm\<lparr>dlci_handler := (dlci_handler sercomm)[unat dlci := Some cb]\<rparr>))"

definition osmo_sercomm_init :: "osmo_sercomm_inst \<Rightarrow> osmo_sercomm_inst" where
  "osmo_sercomm_init sercomm = (
     let sercomm = sercomm\<lparr>dlci_queues := replicate SC_DLCI_MAX [], rx_msg := None\<rparr>;
         sercomm = (if rx_msg_size sercomm = 0 then sercomm\<lparr>rx_msg_size := DEFAULT_RX_MSG_SIZE\<rparr> else sercomm);
         sercomm = sercomm\<lparr>initialized := 1\<rparr>
     in snd (osmo_sercomm_register_rx_cb sercomm SC_DLCI_ECHO Echo))"

definition osmo_sercomm_initialized :: "osmo_sercomm_inst \<Rightarrow> int" where
  "osmo_sercomm_initialized sercomm = initialized sercomm"

text \<open>There is no check of the DLCI: the queue array is indexed with it.\<close>

definition osmo_sercomm_sendmsg :: "osmo_sercomm_inst \<Rightarrow> u8 \<Rightarrow> sc_msg \<Rightarrow> osmo_sercomm_inst res" where
  "osmo_sercomm_sendmsg sercomm dlci msg = (
     if headroom msg < 2 then None
     else let msg = msg\<lparr>headroom := headroom msg - 2, sc_data := [dlci, HDLC_C_UI] @ sc_data msg\<rparr>
     in do {
       q \<leftarrow> rd (dlci_queues sercomm) (unat dlci);
       qs \<leftarrow> wr (dlci_queues sercomm) (unat dlci) (q @ [msg]);
       Some (sercomm\<lparr>dlci_queues := qs\<rparr>) })"

definition osmo_sercomm_tx_queue_depth :: "osmo_sercomm_inst \<Rightarrow> u8 \<Rightarrow> nat res" where
  "osmo_sercomm_tx_queue_depth sercomm dlci = do { q \<leftarrow> rd (dlci_queues sercomm) (unat dlci); Some (length q) }"

text \<open>The first message of the first queue that has one.\<close>

fun dequeue_first :: "sc_msg list list \<Rightarrow> (sc_msg \<times> sc_msg list list) option" where
  "dequeue_first [] = None"
| "dequeue_first ([] # qs) = (case dequeue_first qs of None \<Rightarrow> None | Some (m, qs') \<Rightarrow> Some (m, [] # qs'))"
| "dequeue_first ((m # q) # qs) = Some (m, q # qs)"

definition osmo_sercomm_drv_pull :: "osmo_sercomm_inst \<Rightarrow> (u8 option \<times> osmo_sercomm_inst) res" where
  "osmo_sercomm_drv_pull sercomm =
     (case tx_msg sercomm of
        None \<Rightarrow>
          (case dequeue_first (dlci_queues sercomm) of
             Some (m, qs) \<Rightarrow> Some (Some HDLC_FLAG, sercomm\<lparr>tx_msg := Some m, dlci_queues := qs, next_char := Some 0\<rparr>)
           | None \<Rightarrow> Some (None, sercomm))
      | Some m \<Rightarrow> do {
          i \<leftarrow> next_char sercomm;
          if tx_state sercomm = RX_ST_ESCAPE then do {
            c \<leftarrow> rd (sc_data m) i;
            Some (Some c, sercomm\<lparr>next_char := Some (i + 1), tx_state := RX_ST_DATA\<rparr>) }
          else if length (sc_data m) \<le> i then
            Some (Some HDLC_FLAG, sercomm\<lparr>tx_msg := None, next_char := None\<rparr>)
          else do {
            c \<leftarrow> rd (sc_data m) i;
            if c = HDLC_FLAG \<or> c = HDLC_ESCAPE \<or> c = 0x00 then
              Some (Some HDLC_ESCAPE, sercomm\<lparr>tx_msg := Some (m\<lparr>sc_data := (sc_data m)[i := c XOR 0x20]\<rparr>), tx_state := RX_ST_ESCAPE\<rparr>)
            else Some (Some c, sercomm\<lparr>next_char := Some (i + 1)\<rparr>) } })"

definition dispatch_rx_msg :: "'w user_cb \<Rightarrow> osmo_sercomm_inst \<Rightarrow> u8 \<Rightarrow> sc_msg \<Rightarrow> 'w \<Rightarrow> (osmo_sercomm_inst \<times> 'w) res" where
  "dispatch_rx_msg cb sercomm dlci msg w =
     (if SC_DLCI_MAX \<le> unat dlci then Some (sercomm, w)
      else do {
        h \<leftarrow> rd (dlci_handler sercomm) (unat dlci);
        case h of
          None \<Rightarrow> Some (sercomm, w)
        | Some Echo \<Rightarrow> do { s \<leftarrow> osmo_sercomm_sendmsg sercomm dlci msg; Some (s, w) }
        | Some (User n) \<Rightarrow> cb n dlci msg sercomm w })"

definition osmo_sercomm_alloc_msgb :: "nat \<Rightarrow> sc_msg" where
  "osmo_sercomm_alloc_msgb len = \<lparr>headroom = 4, sc_data = []\<rparr>"

text \<open>The buffer has \<open>rx_msg_size + 4\<close> octets, 4 of them headroom.\<close>

definition sc_tailroom :: "osmo_sercomm_inst \<Rightarrow> sc_msg \<Rightarrow> nat" where
  "sc_tailroom sercomm msg = rx_msg_size sercomm + 4 - headroom msg - length (sc_data msg)"

definition sc_put :: "osmo_sercomm_inst \<Rightarrow> sc_msg \<Rightarrow> u8 \<Rightarrow> osmo_sercomm_inst res" where
  "sc_put sercomm msg ch = (if sc_tailroom sercomm msg = 0 then None
     else Some (sercomm\<lparr>rx_msg := Some (msg\<lparr>sc_data := sc_data msg @ [ch]\<rparr>)\<rparr>))"

definition osmo_sercomm_drv_rx_char :: "'w user_cb \<Rightarrow> osmo_sercomm_inst \<Rightarrow> u8 \<Rightarrow> 'w \<Rightarrow> (int \<times> osmo_sercomm_inst \<times> 'w) res" where
  "osmo_sercomm_drv_rx_char cb sercomm ch w = (
     let sercomm = (if rx_msg sercomm = None then sercomm\<lparr>rx_msg := Some (osmo_sercomm_alloc_msgb (rx_msg_size sercomm))\<rparr> else sercomm)
     in do {
       msg \<leftarrow> rx_msg sercomm;
       if sc_tailroom sercomm msg = 0 then
         Some (0, sercomm\<lparr>rx_msg := Some (osmo_sercomm_alloc_msgb (rx_msg_size sercomm)), rx_st := RX_ST_WAIT_START\<rparr>, w)
       else case rx_st sercomm of
         RX_ST_WAIT_START \<Rightarrow> Some (1, if ch \<noteq> HDLC_FLAG then sercomm else sercomm\<lparr>rx_st := RX_ST_ADDR\<rparr>, w)
       | RX_ST_ADDR \<Rightarrow> Some (1, sercomm\<lparr>rx_dlci := ch, rx_st := RX_ST_CTRL\<rparr>, w)
       | RX_ST_CTRL \<Rightarrow> Some (1, sercomm\<lparr>rx_ctrl := ch, rx_st := RX_ST_DATA\<rparr>, w)
       | RX_ST_DATA \<Rightarrow>
           if ch = HDLC_ESCAPE then Some (1, sercomm\<lparr>rx_st := RX_ST_ESCAPE\<rparr>, w)
           else if ch = HDLC_FLAG then do {
             (sercomm, w) \<leftarrow> dispatch_rx_msg cb sercomm (rx_dlci sercomm) msg w;
             Some (1, sercomm\<lparr>rx_msg := None, rx_st := RX_ST_WAIT_START\<rparr>, w) }
           else do { sercomm \<leftarrow> sc_put sercomm msg ch; Some (1, sercomm, w) }
       | RX_ST_ESCAPE \<Rightarrow> do {
           let ch = ch XOR 0x20;
           sercomm \<leftarrow> sc_put sercomm msg ch;
           Some (1, sercomm\<lparr>rx_st := RX_ST_DATA\<rparr>, w) } })"

subsection \<open>The line\<close>

text \<open>Pulling octets until none is available, at most \<open>n\<close>; and receiving a sequence of octets.\<close>

primrec pulls :: "nat \<Rightarrow> osmo_sercomm_inst \<Rightarrow> (u8 list \<times> osmo_sercomm_inst) res" where
  "pulls 0 s = Some ([], s)"
| "pulls (Suc n) s = do {
     (c, s) \<leftarrow> osmo_sercomm_drv_pull s;
     case c of None \<Rightarrow> Some ([], s) | Some c \<Rightarrow> do { (cs, s) \<leftarrow> pulls n s; Some (c # cs, s) } }"

primrec rx_chars :: "'w user_cb \<Rightarrow> u8 list \<Rightarrow> osmo_sercomm_inst \<Rightarrow> 'w \<Rightarrow> (osmo_sercomm_inst \<times> 'w) res" where
  "rx_chars cb [] s w = Some (s, w)"
| "rx_chars cb (c # cs) s w = do { (_, s, w) \<leftarrow> osmo_sercomm_drv_rx_char cb s c w; rx_chars cb cs s w }"

section \<open>Properties\<close>

subsection \<open>Frames\<close>

definition escape :: "u8 \<Rightarrow> u8 list" where
  "escape c = (if c = HDLC_FLAG \<or> c = HDLC_ESCAPE \<or> c = 0 then [HDLC_ESCAPE, c XOR 0x20] else [c])"

definition frame :: "u8 list \<Rightarrow> u8 list" where
  "frame m = [HDLC_FLAG] @ concat (map escape m) @ [HDLC_FLAG]"

lemma pulls_append:
  assumes "pulls k s = Some (cs, s')" and "length cs = k"
  shows "pulls (k + n) s = do { (ds, s') \<leftarrow> pulls n s'; Some (cs @ ds, s') }"
  using assms
proof (induction k arbitrary: s cs)
  case (Suc k)
  then obtain c s1 ds where c: "osmo_sercomm_drv_pull s = Some (Some c, s1)" "pulls k s1 = Some (ds, s')" "cs = c # ds"
    by (auto simp: bind_eq_Some_conv split: option.splits)
  with Suc.prems have "length ds = k" by simp
  note IH = Suc.IH [OF c(2) this]
  show ?case using c IH by (cases "pulls n s'") auto
qed (auto split: Option.bind_split)

lemma pulls_SucI: "osmo_sercomm_drv_pull s = Some (Some c, s1) \<Longrightarrow> pulls n s1 = Some (cs, s') \<Longrightarrow> pulls (Suc n) s = Some (c # cs, s')"
  by simp

lemma pulls_body:
  assumes "tx_msg s = Some m" and "next_char s = Some i" and "tx_state s \<noteq> RX_ST_ESCAPE" and "i \<le> length (sc_data m)"
  shows "\<exists>s'. pulls (length (concat (map escape (drop i (sc_data m)))) + 1) s = Some (concat (map escape (drop i (sc_data m))) @ [HDLC_FLAG], s') \<and>
    tx_msg s' = None \<and> tx_state s' \<noteq> RX_ST_ESCAPE \<and> dlci_queues s' = dlci_queues s"
  using assms
proof (induction "length (sc_data m) - i" arbitrary: s m i)
  case 0
  then show ?case by (simp add: osmo_sercomm_drv_pull_def)
next
  case (Suc n)
  then have i: "i < length (sc_data m)" and n: "n = length (sc_data m) - Suc i" by simp_all
  let ?c = "sc_data m ! i"
  have d: "drop i (sc_data m) = ?c # drop (Suc i) (sc_data m)" using i by (simp add: Cons_nth_drop_Suc)
  show ?case
  proof (cases "?c = HDLC_FLAG \<or> ?c = HDLC_ESCAPE \<or> ?c = 0")
    case True
    let ?m = "m\<lparr>sc_data := (sc_data m)[i := ?c XOR 0x20]\<rparr>"
    let ?s = "s\<lparr>tx_msg := Some ?m, tx_state := RX_ST_DATA, next_char := Some (Suc i)\<rparr>"
    obtain s' where r: "pulls (length (concat (map escape (drop (Suc i) (sc_data ?m)))) + 1) ?s = Some (concat (map escape (drop (Suc i) (sc_data ?m))) @ [HDLC_FLAG], s')"
      "tx_msg s' = None" "tx_state s' \<noteq> RX_ST_ESCAPE" "dlci_queues s' = dlci_queues ?s"
      using Suc.hyps(1) [of ?m "Suc i" ?s] n i by auto
    have p1: "osmo_sercomm_drv_pull s = Some (Some HDLC_ESCAPE, s\<lparr>tx_msg := Some ?m, tx_state := RX_ST_ESCAPE\<rparr>)"
      using Suc.prems i True by (auto simp: osmo_sercomm_drv_pull_def c_mem)
    have p2: "osmo_sercomm_drv_pull (s\<lparr>tx_msg := Some ?m, tx_state := RX_ST_ESCAPE\<rparr>) = Some (Some (?c XOR 0x20), ?s)"
      using Suc.prems i by (simp add: osmo_sercomm_drv_pull_def c_mem)
    have e: "concat (map escape (drop i (sc_data m))) = HDLC_ESCAPE # (?c XOR 0x20) # concat (map escape (drop (Suc i) (sc_data ?m)))"
      using True unfolding d by (auto simp: escape_def)
    show ?thesis using pulls_SucI [OF p1 pulls_SucI [OF p2 r(1)]] r(2-4) unfolding e by (intro exI [of _ s']) simp
  next
    case False
    let ?s = "s\<lparr>next_char := Some (Suc i)\<rparr>"
    obtain s' where r: "pulls (length (concat (map escape (drop (Suc i) (sc_data m)))) + 1) ?s = Some (concat (map escape (drop (Suc i) (sc_data m))) @ [HDLC_FLAG], s')"
      "tx_msg s' = None" "tx_state s' \<noteq> RX_ST_ESCAPE" "dlci_queues s' = dlci_queues ?s"
      using Suc.hyps(1) [of m "Suc i" ?s] n Suc.prems i by auto
    have p: "osmo_sercomm_drv_pull s = Some (Some ?c, ?s)"
      using Suc.prems i False by (auto simp: osmo_sercomm_drv_pull_def c_mem)
    have e: "concat (map escape (drop i (sc_data m))) = ?c # concat (map escape (drop (Suc i) (sc_data m)))"
      using False unfolding d by (auto simp: escape_def)
    show ?thesis using pulls_SucI [OF p r(1)] r(2-4) unfolding e by (intro exI [of _ s']) simp
  qed
qed

lemma dequeue_first_concat:
  "dequeue_first qs = None \<longleftrightarrow> concat qs = []"
  "dequeue_first qs = Some (m, qs') \<Longrightarrow> concat qs = m # concat qs'"
  by (induction qs arbitrary: qs' rule: dequeue_first.induct) (auto split: option.splits prod.splits)

text \<open>The driver gets the frames of all queued messages, lowest DLCI first, and then nothing.\<close>

lemma pulls_message:
  assumes "tx_msg s = None" and "tx_state s \<noteq> RX_ST_ESCAPE" and "concat (dlci_queues s) = m # ms"
  shows "\<exists>s'. pulls (length (frame (sc_data m))) s = Some (frame (sc_data m), s') \<and>
    tx_msg s' = None \<and> tx_state s' \<noteq> RX_ST_ESCAPE \<and> concat (dlci_queues s') = ms"
proof -
  obtain x qs where q: "dequeue_first (dlci_queues s) = Some (x, qs)"
    using assms(3) dequeue_first_concat(1) [of "dlci_queues s"] by fastforce
  with dequeue_first_concat(2) [OF q] assms(3) have x: "x = m" "concat qs = ms" by simp_all
  let ?s = "s\<lparr>tx_msg := Some m, dlci_queues := qs, next_char := Some 0\<rparr>"
  have p: "osmo_sercomm_drv_pull s = Some (Some HDLC_FLAG, ?s)"
    using assms(1) q x by (simp add: osmo_sercomm_drv_pull_def)
  obtain s' where r: "pulls (length (concat (map escape (drop 0 (sc_data m)))) + 1) ?s = Some (concat (map escape (drop 0 (sc_data m))) @ [HDLC_FLAG], s')"
    "tx_msg s' = None" "tx_state s' \<noteq> RX_ST_ESCAPE" "dlci_queues s' = qs"
    using pulls_body [of ?s m 0] assms(2) by auto
  show ?thesis using pulls_SucI [OF p r(1)] r(2-4) x(2) by (intro exI [of _ s']) (simp add: frame_def)
qed

lemma pulls_all:
  assumes "tx_msg s = None" and "tx_state s \<noteq> RX_ST_ESCAPE"
  shows "\<exists>s'. pulls (length (concat (map (\<lambda>m. frame (sc_data m)) (concat (dlci_queues s)))) + n) s = Some (concat (map (\<lambda>m. frame (sc_data m)) (concat (dlci_queues s))), s') \<and>
    tx_msg s' = None \<and> concat (dlci_queues s') = []"
  using assms
proof (induction "concat (dlci_queues s)" arbitrary: s)
  case Nil
  then have "dequeue_first (dlci_queues s) = None" by (simp only: dequeue_first_concat(1))
  then have "osmo_sercomm_drv_pull s = Some (None, s)" using Nil(2) by (simp add: osmo_sercomm_drv_pull_def)
  then have "pulls n s = Some ([], s)" by (cases n) simp_all
  then show ?case by (intro exI [of _ s]) (simp only: Nil(1) [symmetric] Nil(2) list.map concat.simps list.size add_0 simp_thms)
next
  case (Cons m ms)
  obtain s1 where s1: "pulls (length (frame (sc_data m))) s = Some (frame (sc_data m), s1)" "tx_msg s1 = None" "tx_state s1 \<noteq> RX_ST_ESCAPE" "ms = concat (dlci_queues s1)"
    using pulls_message [OF Cons.prems Cons(2) [symmetric]] by blast
  note IH = Cons.hyps(1) [OF s1(4,2,3)]
  show ?case unfolding Cons(2) [symmetric] using IH pulls_append [OF s1(1) refl] s1(4) by (auto simp: add.assoc)
qed

subsection \<open>Receiving\<close>

lemma rx_chars_append: "rx_chars cb (xs @ ys) s w = do { (s, w) \<leftarrow> rx_chars cb xs s w; rx_chars cb ys s w }"
proof (induction xs arbitrary: s w)
  case (Cons x xs)
  then show ?case by (cases "osmo_sercomm_drv_rx_char cb s x w") (auto split: prod.splits)
qed simp

text \<open>The receiver inside a message, with \<open>d\<close> received so far.\<close>

definition receiving :: "osmo_sercomm_inst \<Rightarrow> u8 list \<Rightarrow> osmo_sercomm_inst" where
  "receiving s d = s\<lparr>rx_st := RX_ST_DATA, rx_msg := Some \<lparr>headroom = 4, sc_data = d\<rparr>\<rparr>"

lemma rx_body:
  assumes "length d + length m < rx_msg_size s"
  shows "rx_chars cb (concat (map escape m)) (receiving s d) w = Some (receiving s (d @ m), w)"
  using assms
proof (induction m arbitrary: d)
  case (Cons c m)
  have "rx_chars cb (escape c) (receiving s d) w = Some (receiving s (d @ [c]), w)"
    using Cons.prems by (auto simp: escape_def receiving_def osmo_sercomm_drv_rx_char_def sc_put_def sc_tailroom_def xor.assoc)
  with Cons show ?case by (simp add: rx_chars_append)
qed simp

text \<open>A receiver between two messages, and user callbacks that record what they get.\<close>

definition rx_ready :: "osmo_sercomm_inst \<Rightarrow> bool" where
  "rx_ready s \<longleftrightarrow> rx_st s = RX_ST_WAIT_START \<and> rx_msg s = None \<and> length (dlci_handler s) = SC_DLCI_MAX"

definition rec_cb :: "(nat \<times> u8 \<times> u8 list) list user_cb" where
  "rec_cb n dlci msg s w = Some (s, w @ [(n, dlci, sc_data msg)])"

lemma rx_frame:
  assumes "rx_ready s" and "length d < rx_msg_size s" and "escape a = [a]" and "unat a < SC_DLCI_MAX" and "dlci_handler s ! unat a = Some (User n)"
  shows "rx_chars rec_cb (frame ([a, HDLC_C_UI] @ d)) s w = Some (s\<lparr>rx_dlci := a, rx_ctrl := HDLC_C_UI\<rparr>, w @ [(n, a, d)])"
proof -
  let ?s = "s\<lparr>rx_dlci := a, rx_ctrl := HDLC_C_UI\<rparr>"
  have f: "frame ([a, HDLC_C_UI] @ d) = [HDLC_FLAG, a, HDLC_C_UI] @ concat (map escape d) @ [HDLC_FLAG]"
    using assms(3) by (simp add: frame_def) (simp add: escape_def)
  have h: "rx_chars rec_cb [HDLC_FLAG, a, HDLC_C_UI] s w = Some (receiving ?s [], w)"
    using assms(1,2) by (simp add: rx_ready_def osmo_sercomm_drv_rx_char_def osmo_sercomm_alloc_msgb_def sc_tailroom_def receiving_def)
  have b: "rx_chars rec_cb (concat (map escape d)) (receiving ?s []) w = Some (receiving ?s d, w)"
    using rx_body [of "[]" d ?s rec_cb w] assms(2) by simp
  have e: "osmo_sercomm_drv_rx_char rec_cb (receiving ?s d) HDLC_FLAG w = Some (1, ?s, w @ [(n, a, d)])"
    using assms by (simp add: receiving_def osmo_sercomm_drv_rx_char_def sc_tailroom_def dispatch_rx_msg_def rec_cb_def c_mem rx_ready_def)
  show ?thesis unfolding f rx_chars_append h by (simp add: b e)
qed

text \<open>The transmit queues hold messages with their address and control octets.\<close>

definition tx_ready :: "osmo_sercomm_inst \<Rightarrow> bool" where
  "tx_ready s \<longleftrightarrow> tx_msg s = None \<and> tx_state s \<noteq> RX_ST_ESCAPE \<and> length (dlci_queues s) = SC_DLCI_MAX \<and>
     (\<forall>k < SC_DLCI_MAX. \<forall>m \<in> set (dlci_queues s ! k). \<exists>d. sc_data m = [word_of_nat k, HDLC_C_UI] @ d)"

lemma sendmsg_ready:
  assumes "tx_ready s" and "unat dlci < SC_DLCI_MAX" and "2 \<le> headroom msg"
  shows "\<exists>s'. osmo_sercomm_sendmsg s dlci msg = Some s' \<and> tx_ready s' \<and>
    dlci_queues s' = (dlci_queues s)[unat dlci := dlci_queues s ! unat dlci @ [\<lparr>headroom = headroom msg - 2, sc_data = [dlci, HDLC_C_UI] @ sc_data msg\<rparr>]]"
proof -
  let ?m = "\<lparr>headroom = headroom msg - 2, sc_data = [dlci, HDLC_C_UI] @ sc_data msg\<rparr>"
  let ?s = "s\<lparr>dlci_queues := (dlci_queues s)[unat dlci := dlci_queues s ! unat dlci @ [?m]]\<rparr>"
  have "osmo_sercomm_sendmsg s dlci msg = Some ?s"
    using assms by (cases msg) (simp add: osmo_sercomm_sendmsg_def tx_ready_def c_mem)
  moreover have "tx_ready ?s" using assms(1,2) by (auto simp: tx_ready_def nth_list_update)
  ultimately show ?thesis by simp
qed

definition dlci_of :: "sc_msg \<Rightarrow> u8" where
  "dlci_of m = hd (sc_data m)"

definition payload :: "sc_msg \<Rightarrow> u8 list" where
  "payload m = drop 2 (sc_data m)"

lemma rx_frames:
  assumes "rx_ready s"
    and "\<And>m. m \<in> set ms \<Longrightarrow> sc_data m = [dlci_of m, HDLC_C_UI] @ payload m \<and> length (payload m) < rx_msg_size s \<and> escape (dlci_of m) = [dlci_of m] \<and>
      unat (dlci_of m) < SC_DLCI_MAX \<and> dlci_handler s ! unat (dlci_of m) = Some (User (num (dlci_of m)))"
  shows "\<exists>s'. rx_chars rec_cb (concat (map (\<lambda>m. frame (sc_data m)) ms)) s w = Some (s', w @ map (\<lambda>m. (num (dlci_of m), dlci_of m, payload m)) ms) \<and> rx_ready s'"
  using assms
proof (induction ms arbitrary: s w)
  case (Cons m ms)
  let ?s = "s\<lparr>rx_dlci := dlci_of m, rx_ctrl := HDLC_C_UI\<rparr>"
  have m: "sc_data m = [dlci_of m, HDLC_C_UI] @ payload m" "length (payload m) < rx_msg_size s" "escape (dlci_of m) = [dlci_of m]"
    "unat (dlci_of m) < SC_DLCI_MAX" "dlci_handler s ! unat (dlci_of m) = Some (User (num (dlci_of m)))"
    using Cons.prems(2) [of m] by auto
  have "rx_chars rec_cb (frame (sc_data m)) s w = Some (?s, w @ [(num (dlci_of m), dlci_of m, payload m)])"
    using rx_frame [OF Cons.prems(1) m(2-5)] m(1) by simp
  moreover have "\<exists>s'. rx_chars rec_cb (concat (map (\<lambda>m. frame (sc_data m)) ms)) ?s (w @ [(num (dlci_of m), dlci_of m, payload m)]) =
      Some (s', (w @ [(num (dlci_of m), dlci_of m, payload m)]) @ map (\<lambda>m. (num (dlci_of m), dlci_of m, payload m)) ms) \<and> rx_ready s'"
    using Cons.prems by (intro Cons.IH) (auto simp: rx_ready_def)
  ultimately show ?case by (auto simp: rx_chars_append)
qed simp

lemma tx_ready_messages:
  assumes "tx_ready s" and "m \<in> set (concat (dlci_queues s))"
  shows "sc_data m = [dlci_of m, HDLC_C_UI] @ payload m" "unat (dlci_of m) < SC_DLCI_MAX"
proof -
  obtain k where k: "k < SC_DLCI_MAX" "m \<in> set (dlci_queues s ! k)"
    using assms by (auto simp: in_set_conv_nth [of _ "dlci_queues s"] tx_ready_def)
  then obtain d where "sc_data m = [word_of_nat k, HDLC_C_UI] @ d" using assms(1) by (auto simp: tx_ready_def)
  then show "sc_data m = [dlci_of m, HDLC_C_UI] @ payload m" "unat (dlci_of m) < SC_DLCI_MAX"
    using k(1) by (simp_all add: dlci_of_def payload_def unat_of_nat)
qed

text \<open>C8: The line. Whatever messages wait in the queues of an idle transmitter, the driver can pull octets until none is
  left, and a receiver that is fed with these octets delivers every message once, unchanged, to the handler of its DLCI: lower
  DLCIs first, and in the order they were queued within one DLCI. This is for messages shorter than the receive buffer
  and for DLCIs other than 0, 0x7d and 0x7e.\<close>

theorem sercomm_link:
  assumes "tx_ready tx" and "rx_ready rx"
    and "\<forall>m \<in> set (concat (dlci_queues tx)). length (payload m) < rx_msg_size rx \<and> dlci_of m \<notin> {0, HDLC_FLAG, HDLC_ESCAPE} \<and>
      dlci_handler rx ! unat (dlci_of m) = Some (User (num (dlci_of m)))"
  shows "\<exists>n line tx' rx'. pulls n tx = Some (line, tx') \<and> osmo_sercomm_drv_pull tx' = Some (None, tx') \<and>
    rx_chars rec_cb line rx [] = Some (rx', map (\<lambda>m. (num (dlci_of m), dlci_of m, payload m)) (concat (dlci_queues tx))) \<and> rx_ready rx'"
proof -
  let ?line = "concat (map (\<lambda>m. frame (sc_data m)) (concat (dlci_queues tx)))"
  have i: "tx_msg tx = None" "tx_state tx \<noteq> RX_ST_ESCAPE" using assms(1) by (simp_all add: tx_ready_def)
  obtain tx' where t: "pulls (length ?line + 0) tx = Some (?line, tx')" "tx_msg tx' = None" "concat (dlci_queues tx') = []"
    using pulls_all [OF i, of 0] by blast
  have "dequeue_first (dlci_queues tx') = None" using t(3) by (simp only: dequeue_first_concat(1))
  with t(2) have e: "osmo_sercomm_drv_pull tx' = Some (None, tx')" by (simp add: osmo_sercomm_drv_pull_def)
  have m: "sc_data m = [dlci_of m, HDLC_C_UI] @ payload m \<and> length (payload m) < rx_msg_size rx \<and> escape (dlci_of m) = [dlci_of m] \<and>
      unat (dlci_of m) < SC_DLCI_MAX \<and> dlci_handler rx ! unat (dlci_of m) = Some (User (num (dlci_of m)))" if "m \<in> set (concat (dlci_queues tx))" for m
    using bspec [OF assms(3) that] tx_ready_messages [OF assms(1) that] by (simp add: escape_def)
  have "\<exists>rx'. rx_chars rec_cb ?line rx [] = Some (rx', [] @ map (\<lambda>m. (num (dlci_of m), dlci_of m, payload m)) (concat (dlci_queues tx))) \<and> rx_ready rx'"
    by (rule rx_frames [OF assms(2)], rule m)
  then obtain rx' where r: "rx_chars rec_cb ?line rx [] = Some (rx', map (\<lambda>m. (num (dlci_of m), dlci_of m, payload m)) (concat (dlci_queues tx)))" "rx_ready rx'"
    unfolding append_Nil by blast
  show ?thesis by (intro exI conjI) (rule t(1), rule e, rule r(1), rule r(2))
qed

definition sercomm_zero :: osmo_sercomm_inst where
  "sercomm_zero = \<lparr>initialized = 0, dlci_queues = [], tx_msg = None, tx_state = RX_ST_WAIT_START, next_char = None,
     dlci_handler = replicate SC_DLCI_MAX None, rx_msg_size = 0, rx_msg = None, rx_st = RX_ST_WAIT_START, rx_dlci = 0, rx_ctrl = 0\<rparr>"

text \<open>Initialising a zeroed instance makes both directions ready, with the default receive size and the echo service.\<close>

lemma osmo_sercomm_init_ready:
  "tx_ready (osmo_sercomm_init sercomm_zero) \<and> rx_ready (osmo_sercomm_init sercomm_zero) \<and> osmo_sercomm_initialized (osmo_sercomm_init sercomm_zero) = 1 \<and>
   rx_msg_size (osmo_sercomm_init sercomm_zero) = DEFAULT_RX_MSG_SIZE \<and> dlci_handler (osmo_sercomm_init sercomm_zero) ! 128 = Some Echo"
  by (simp add: osmo_sercomm_init_def osmo_sercomm_register_rx_cb_def osmo_sercomm_initialized_def sercomm_zero_def tx_ready_def rx_ready_def Let_def)

text \<open>An instance whose users listen on every DLCI.\<close>

definition sercomm_all :: "nat \<Rightarrow> osmo_sercomm_inst" where
  "sercomm_all n = sercomm_zero\<lparr>dlci_queues := replicate SC_DLCI_MAX [], dlci_handler := map (\<lambda>k. Some (User k)) [0..<SC_DLCI_MAX], rx_msg_size := n\<rparr>"

lemma sercomm_all_ready: "rx_ready (sercomm_all n)" "tx_ready (sercomm_all n)"
  by (simp_all add: sercomm_all_def sercomm_zero_def rx_ready_def tx_ready_def)

theorem sercomm_link_witness:
  "\<exists>n line tx' rx'. pulls n ((sercomm_all 8)\<lparr>dlci_queues := (replicate SC_DLCI_MAX [])[5 := [\<lparr>headroom = 2, sc_data = [5, 3, 0x7e, 0]\<rparr>]]\<rparr>) = Some (line, tx') \<and>
    osmo_sercomm_drv_pull tx' = Some (None, tx') \<and> rx_chars rec_cb line (sercomm_all 8) [] = Some (rx', [(5, 5, [0x7e, 0])]) \<and> rx_ready rx'"
proof -
  let ?q = "(replicate SC_DLCI_MAX [])[5 := [\<lparr>headroom = 2, sc_data = [5, 3, 0x7e, 0]\<rparr>]]"
  have q: "concat ?q = [\<lparr>headroom = 2, sc_data = [5, 3, 0x7e, 0]\<rparr>]"
    by (simp add: eval_nat_numeral)
  have dq: "dlci_queues ((sercomm_all 8)\<lparr>dlci_queues := ?q\<rparr>) = ?q" by simp
  have "tx_ready ((sercomm_all 8)\<lparr>dlci_queues := ?q\<rparr>)"
    by (auto simp: sercomm_all_def sercomm_zero_def tx_ready_def nth_list_update)
  moreover have "\<forall>m \<in> set (concat (dlci_queues ((sercomm_all 8)\<lparr>dlci_queues := ?q\<rparr>))). length (payload m) < rx_msg_size (sercomm_all 8) \<and>
      dlci_of m \<notin> {0, HDLC_FLAG, HDLC_ESCAPE} \<and> dlci_handler (sercomm_all 8) ! unat (dlci_of m) = Some (User (unat (dlci_of m)))"
    unfolding dq q by (simp add: sercomm_all_def sercomm_zero_def dlci_of_def payload_def)
  ultimately show ?thesis
    using sercomm_link [OF _ sercomm_all_ready(1), of "(sercomm_all 8)\<lparr>dlci_queues := ?q\<rparr>" 8 unat]
    unfolding dq q by (simp add: dlci_of_def payload_def)
qed

text \<open>C35: The limits of the line. The address octet is escaped like data, but the receiver takes the two octets after the flag as
  address and control: a message on DLCI 0 (the highest priority) is delivered on DLCI 0x7d with its control octet in
  front of it. A message that fills the receive buffer exactly is dropped when its closing flag arrives. Sending on a DLCI
  above 128 indexes the queues out of bounds.\<close>

theorem sercomm_limits:
  assumes "rx_ready rx" and "length d + 1 < rx_msg_size rx" and "dlci_handler rx ! 125 = Some (User n)"
    and "length x = rx_msg_size rx" and "x \<noteq> []" and "length (dlci_queues tx) = SC_DLCI_MAX" and "SC_DLCI_MAX \<le> unat a"
  shows "rx_chars rec_cb (frame ([0, HDLC_C_UI] @ d)) rx w = Some (rx\<lparr>rx_dlci := HDLC_ESCAPE, rx_ctrl := 0x20\<rparr>, w @ [(n, HDLC_ESCAPE, HDLC_C_UI # d)])
    \<and> (\<exists>rx'. rx_chars rec_cb (frame ([1, HDLC_C_UI] @ x)) rx w = Some (rx', w))
    \<and> osmo_sercomm_sendmsg tx a \<lparr>headroom = 4, sc_data = d\<rparr> = None"
proof (intro conjI)
  let ?s = "rx\<lparr>rx_dlci := HDLC_ESCAPE, rx_ctrl := 0x20\<rparr>"
  have f: "frame ([0, HDLC_C_UI] @ d) = [HDLC_FLAG, HDLC_ESCAPE, 0x20] @ concat (map escape (HDLC_C_UI # d)) @ [HDLC_FLAG]"
    by (simp add: frame_def) (simp add: escape_def)
  have h: "rx_chars rec_cb [HDLC_FLAG, HDLC_ESCAPE, 0x20] rx w = Some (receiving ?s [], w)"
    using assms(1,2) by (simp add: rx_ready_def osmo_sercomm_drv_rx_char_def osmo_sercomm_alloc_msgb_def sc_tailroom_def receiving_def)
  have b: "rx_chars rec_cb (concat (map escape (HDLC_C_UI # d))) (receiving ?s []) w = Some (receiving ?s (HDLC_C_UI # d), w)"
    using rx_body [of "[]" "HDLC_C_UI # d" ?s rec_cb w] assms(2) by simp
  have e: "osmo_sercomm_drv_rx_char rec_cb (receiving ?s (HDLC_C_UI # d)) HDLC_FLAG w = Some (1, ?s, w @ [(n, HDLC_ESCAPE, HDLC_C_UI # d)])"
    using assms(1,2,3) by (simp add: receiving_def osmo_sercomm_drv_rx_char_def sc_tailroom_def dispatch_rx_msg_def rec_cb_def c_mem rx_ready_def)
  show "rx_chars rec_cb (frame ([0, HDLC_C_UI] @ d)) rx w = Some (?s, w @ [(n, HDLC_ESCAPE, HDLC_C_UI # d)])"
    unfolding f rx_chars_append h by (simp only: b e bind.simps prod.case rx_chars.simps)
next
  let ?s = "rx\<lparr>rx_dlci := 1, rx_ctrl := HDLC_C_UI\<rparr>"
  obtain y c where x: "x = y @ [c]" using assms(5) by (metis rev_exhaust)
  have f: "frame ([1, HDLC_C_UI] @ x) = [HDLC_FLAG, 1, HDLC_C_UI] @ concat (map escape y) @ escape c @ [HDLC_FLAG]"
    by (simp add: frame_def x) (simp add: escape_def)
  have h: "rx_chars rec_cb [HDLC_FLAG, 1, HDLC_C_UI] rx w = Some (receiving ?s [], w)"
    using assms(1,4) x by (simp add: rx_ready_def osmo_sercomm_drv_rx_char_def osmo_sercomm_alloc_msgb_def sc_tailroom_def receiving_def)
  have b: "rx_chars rec_cb (concat (map escape y)) (receiving ?s []) w = Some (receiving ?s y, w)"
    using rx_body [of "[]" y ?s rec_cb w] assms(4) x by simp
  have c: "rx_chars rec_cb (escape c) (receiving ?s y) w = Some (receiving ?s (y @ [c]), w)"
    using assms(4) x by (auto simp: escape_def receiving_def osmo_sercomm_drv_rx_char_def sc_put_def sc_tailroom_def xor.assoc)
  have "\<exists>rx'. osmo_sercomm_drv_rx_char rec_cb (receiving ?s (y @ [c])) HDLC_FLAG w = Some (0, rx', w)"
    using assms(4) x by (simp add: receiving_def osmo_sercomm_drv_rx_char_def sc_tailroom_def)
  then show "\<exists>rx'. rx_chars rec_cb (frame ([1, HDLC_C_UI] @ x)) rx w = Some (rx', w)"
    unfolding f rx_chars_append h by (auto simp only: b c bind.simps prod.case rx_chars.simps)
next
  show "osmo_sercomm_sendmsg tx a \<lparr>headroom = 4, sc_data = d\<rparr> = None"
    using assms(6,7) by (simp add: osmo_sercomm_sendmsg_def rd_def)
qed

theorem sercomm_limits_witness:
  "rx_chars rec_cb (frame [0, HDLC_C_UI, 9]) (sercomm_all 3) [] = Some ((sercomm_all 3)\<lparr>rx_dlci := HDLC_ESCAPE, rx_ctrl := 0x20\<rparr>, [(125, HDLC_ESCAPE, [HDLC_C_UI, 9])])
    \<and> (\<exists>rx'. rx_chars rec_cb (frame [1, HDLC_C_UI, 7, 8, 9]) (sercomm_all 3) [] = Some (rx', []))"
  using sercomm_limits [OF sercomm_all_ready(1), of "[9]" 3 125 "[7, 8, 9]" "sercomm_all 3" 200 "[]"]
  by (simp add: sercomm_all_def sercomm_zero_def)

end
