(* ===== verification/Lapd.thy ===== *)
theory Lapd
  imports Machine
begin

text \<open>
  The LAPD data-link layer, \<open>src/isdn/lapd_core.c\<close> with \<open>include/osmocom/isdn/lapd_core.h\<close>: establishment and
  release, acknowledged transfer with sequence numbers, window, history and retransmission, segmentation and
  reassembly, supervision by the timers T200 and T203.

  The datalink is a record with the fields of the source. Its callbacks (to layer 3, to layer 1 and the
  optional update of pending frames) are an argument; they get the datalink, may change it, and
  change the rest \<open>'w\<close> of the world. Octets and sequence numbers are 8-bit words. A message is the list of
  its octets: \<open>l3h\<close> and \<open>data\<close> are the same place and \<open>msg->len\<close> and \<open>msgb_l3len\<close> the same number,
  as in all callers. A running timer is a flag. The history array is a list, empty after \<open>lapd_dl_exit\<close>.
  Names and logging are left out. \<^const>\<open>None\<close> is a \<open>NULL\<close> dereference, an access outside an array, or a
  loop that does not end.
\<close>

subsection \<open>Constants and state\<close>

abbreviation LAPD_U_SABM :: u8 where "LAPD_U_SABM \<equiv> 0x7"
abbreviation LAPD_U_SABME :: u8 where "LAPD_U_SABME \<equiv> 0xf"
abbreviation LAPD_U_DM :: u8 where "LAPD_U_DM \<equiv> 0x3"
abbreviation LAPD_U_UI :: u8 where "LAPD_U_UI \<equiv> 0x0"
abbreviation LAPD_U_DISC :: u8 where "LAPD_U_DISC \<equiv> 0x8"
abbreviation LAPD_U_UA :: u8 where "LAPD_U_UA \<equiv> 0xC"
abbreviation LAPD_U_FRMR :: u8 where "LAPD_U_FRMR \<equiv> 0x11"
abbreviation LAPD_S_RR :: u8 where "LAPD_S_RR \<equiv> 0x0"
abbreviation LAPD_S_RNR :: u8 where "LAPD_S_RNR \<equiv> 0x1"
abbreviation LAPD_S_REJ :: u8 where "LAPD_S_REJ \<equiv> 0x2"
abbreviation LAPD_F_RTS :: u32 where "LAPD_F_RTS \<equiv> 0x0001"
abbreviation LAPD_F_DROP_2ND_REJ :: u32 where "LAPD_F_DROP_2ND_REJ \<equiv> 0x0002"
abbreviation MDL_CAUSE_T200_EXPIRED :: int where "MDL_CAUSE_T200_EXPIRED \<equiv> 0x01"
abbreviation MDL_CAUSE_UNSOL_UA_RESP :: int where "MDL_CAUSE_UNSOL_UA_RESP \<equiv> 0x03"
abbreviation MDL_CAUSE_UNSOL_DM_RESP :: int where "MDL_CAUSE_UNSOL_DM_RESP \<equiv> 0x04"
abbreviation MDL_CAUSE_UNSOL_DM_RESP_MF :: int where "MDL_CAUSE_UNSOL_DM_RESP_MF \<equiv> 0x05"
abbreviation MDL_CAUSE_UNSOL_SPRV_RESP :: int where "MDL_CAUSE_UNSOL_SPRV_RESP \<equiv> 0x06"
abbreviation MDL_CAUSE_SEQ_ERR :: int where "MDL_CAUSE_SEQ_ERR \<equiv> 0x07"
abbreviation MDL_CAUSE_UFRM_INC_PARAM :: int where "MDL_CAUSE_UFRM_INC_PARAM \<equiv> 0x08"
abbreviation MDL_CAUSE_SFRM_INC_PARAM :: int where "MDL_CAUSE_SFRM_INC_PARAM \<equiv> 0x09"
abbreviation MDL_CAUSE_IFRM_INC_MBITS :: int where "MDL_CAUSE_IFRM_INC_MBITS \<equiv> 0x0a"
abbreviation MDL_CAUSE_IFRM_INC_LEN :: int where "MDL_CAUSE_IFRM_INC_LEN \<equiv> 0x0b"
abbreviation MDL_CAUSE_FRM_UNIMPL :: int where "MDL_CAUSE_FRM_UNIMPL \<equiv> 0x0c"
abbreviation MDL_CAUSE_SABM_MF :: int where "MDL_CAUSE_SABM_MF \<equiv> 0x0d"
abbreviation MDL_CAUSE_SABM_INFO_NOTALL :: int where "MDL_CAUSE_SABM_INFO_NOTALL \<equiv> 0x0e"
abbreviation MDL_CAUSE_FRMR :: int where "MDL_CAUSE_FRMR \<equiv> 0x0f"
abbreviation rc_EINVAL :: int where "rc_EINVAL \<equiv> - 22"
abbreviation rc_EIO :: int where "rc_EIO \<equiv> - 5"
abbreviation rc_EBUSY :: int where "rc_EBUSY \<equiv> - 16"

datatype osmo_dl_prim = PRIM_DL_UNIT_DATA | PRIM_DL_DATA | PRIM_DL_EST | PRIM_DL_REL | PRIM_DL_SUSP | PRIM_DL_RES | PRIM_DL_RECON | PRIM_MDL_ERROR

datatype osmo_prim_operation = PRIM_OP_REQUEST | PRIM_OP_RESPONSE | PRIM_OP_INDICATION | PRIM_OP_CONFIRM

datatype lapd_mode = LAPD_MODE_USER | LAPD_MODE_NETWORK

datatype lapd_state = LAPD_STATE_NULL | LAPD_STATE_TEI_UNASS | LAPD_STATE_ASS_TEI_WAIT | LAPD_STATE_EST_TEI_WAIT | LAPD_STATE_IDLE
  | LAPD_STATE_SABM_SENT | LAPD_STATE_DISC_SENT | LAPD_STATE_MF_EST | LAPD_STATE_TIMER_RECOV

datatype lapd_t200_rts = LAPD_T200_RTS_OFF | LAPD_T200_RTS_PENDING | LAPD_T200_RTS_RUNNING

datatype lapd_format = LAPD_FORM_UKN | LAPD_FORM_I | LAPD_FORM_S | LAPD_FORM_U

type_synonym msg = "u8 list"

record lapd_msg_ctx =
  n201 :: int
  c_r :: u8
  sapi :: u8
  tei :: u8
  lpd :: u8
  format :: lapd_format
  p_f :: u8
  n_send :: u8
  n_recv :: u8
  s_u :: u8
  length_ind :: int
  m_bit :: u8

record lapd_cr_ent =
  cmd :: u8
  resp :: u8

record lapd_history =
  hmsg :: "msg option"
  hmore :: u8

record lapd_datalink =
  loc2rem :: lapd_cr_ent
  rem2loc :: lapd_cr_ent
  dl_mode :: lapd_mode
  lapd_flags :: u32
  use_sabme :: int
  reestablish :: int
  n200 :: int
  n200_est_rel :: int
  lctx :: lapd_msg_ctx
  maxf :: int
  win_k :: u8
  v_range :: u8
  v_send :: u8
  v_ack :: u8
  v_recv :: u8
  dl_state :: lapd_state
  seq_err_cond :: int
  own_busy :: u8
  peer_busy :: u8
  t203_sec :: int
  t203_usec :: int
  t200_rts :: lapd_t200_rts
  t200 :: bool
  t203 :: bool
  retrans_ctr :: u8
  tx_queue :: "msg list"
  send_queue :: "msg list"
  send_buffer :: "msg option"
  send_out :: nat
  tx_hist :: "lapd_history list"
  range_hist :: u8
  rcv_buffer :: "msg option"
  cont_res :: "msg option"

text \<open>A primitive at the service access point: primitive, operation, parameter (error cause or release mode) and message.\<close>

record osmo_dlsap_prim =
  primitive :: osmo_dl_prim
  operation :: osmo_prim_operation
  param :: int
  pmsg :: "msg option"

type_synonym 'w lapd_act = "lapd_datalink \<Rightarrow> 'w \<Rightarrow> (int \<times> lapd_datalink \<times> 'w) res"

record 'w lapd_cb =
  send_dlsap :: "osmo_dlsap_prim \<Rightarrow> lapd_msg_ctx \<Rightarrow> 'w lapd_act"
  send_ph_data_req :: "lapd_msg_ctx \<Rightarrow> msg \<Rightarrow> 'w lapd_act"
  update_pending_frames :: "(lapd_msg_ctx \<Rightarrow> 'w lapd_act) option"

subsection \<open>Utility functions\<close>

definition do_mod :: "u8 \<Rightarrow> u8 \<Rightarrow> u8" where
  "do_mod x m = x AND (m - 1)"

definition inc_mod :: "u8 \<Rightarrow> u8 \<Rightarrow> u8" where
  "inc_mod x m = (x + 1) AND (m - 1)"

definition add_mod :: "u8 \<Rightarrow> u8 \<Rightarrow> u8 \<Rightarrow> u8" where
  "add_mod x y m = (x + y) AND (m - 1)"

definition sub_mod :: "u8 \<Rightarrow> u8 \<Rightarrow> u8 \<Rightarrow> u8" where
  "sub_mod x y m = (x - y) AND (m - 1)"

definition lapd_dl_flush_send :: "lapd_datalink \<Rightarrow> lapd_datalink" where
  "lapd_dl_flush_send dl = dl\<lparr>send_queue := [], send_buffer := None\<rparr>"

definition lapd_dl_flush_hist :: "lapd_datalink \<Rightarrow> lapd_datalink" where
  "lapd_dl_flush_hist dl = (if range_hist dl = 0 \<or> tx_hist dl = [] then dl
     else dl\<lparr>tx_hist := map (\<lambda>h. h\<lparr>hmsg := None\<rparr>) (take (unat (range_hist dl)) (tx_hist dl)) @ drop (unat (range_hist dl)) (tx_hist dl)\<rparr>)"

definition lapd_dl_flush_tx_queue :: "lapd_datalink \<Rightarrow> lapd_datalink" where
  "lapd_dl_flush_tx_queue dl = dl\<lparr>tx_queue := []\<rparr>"

definition lapd_dl_flush_tx :: "lapd_datalink \<Rightarrow> lapd_datalink" where
  "lapd_dl_flush_tx dl = lapd_dl_flush_hist (lapd_dl_flush_tx_queue dl)"

definition rts_flag :: "lapd_datalink \<Rightarrow> bool" where
  "rts_flag dl \<longleftrightarrow> lapd_flags dl AND LAPD_F_RTS \<noteq> 0"

definition lapd_start_t200 :: "lapd_datalink \<Rightarrow> lapd_datalink" where
  "lapd_start_t200 dl =
     (if rts_flag dl then (if t200_rts dl \<noteq> LAPD_T200_RTS_OFF then dl else dl\<lparr>t200_rts := LAPD_T200_RTS_PENDING\<rparr>)
      else dl\<lparr>t200 := True\<rparr>)"

definition lapd_start_t203 :: "lapd_datalink \<Rightarrow> lapd_datalink" where
  "lapd_start_t203 dl = dl\<lparr>t203 := True\<rparr>"

definition lapd_stop_t200 :: "lapd_datalink \<Rightarrow> lapd_datalink" where
  "lapd_stop_t200 dl = (if rts_flag dl then dl\<lparr>t200_rts := LAPD_T200_RTS_OFF\<rparr> else dl\<lparr>t200 := False\<rparr>)"

definition lapd_is_t200_started :: "lapd_datalink \<Rightarrow> bool" where
  "lapd_is_t200_started dl \<longleftrightarrow> (if rts_flag dl then t200_rts dl \<noteq> LAPD_T200_RTS_OFF else t200 dl)"

definition lapd_stop_t203 :: "lapd_datalink \<Rightarrow> lapd_datalink" where
  "lapd_stop_t203 dl = dl\<lparr>t203 := False\<rparr>"

definition lapd_dl_newstate :: "lapd_datalink \<Rightarrow> lapd_state \<Rightarrow> lapd_datalink" where
  "lapd_dl_newstate dl state = (
     let dl = (if state \<noteq> LAPD_STATE_MF_EST \<and> dl_state dl = LAPD_STATE_MF_EST then (lapd_stop_t203 dl)\<lparr>cont_res := None\<rparr> else dl);
         dl = (if (t203_sec dl \<noteq> 0 \<or> t203_usec dl \<noteq> 0) \<and> state = LAPD_STATE_MF_EST \<and> dl_state dl \<noteq> LAPD_STATE_MF_EST then lapd_start_t203 dl else dl)
     in dl\<lparr>dl_state := state\<rparr>)"

text \<open>The history range: the smallest power of two that is at least \<open>k + 1\<close>.\<close>

fun hist_range :: "nat \<Rightarrow> nat \<Rightarrow> u8 \<Rightarrow> u8" where
  "hist_range 0 m k = 0"
| "hist_range (Suc n) m k =
     (if m = 0 then 0
      else if (of_nat m :: u8) AND k \<noteq> 0 then of_nat (if m < unat k then 2 * m else m)
      else hist_range n (m div 2) k)"

definition zero_ctx :: lapd_msg_ctx where
  "zero_ctx = \<lparr>n201 = 0, c_r = 0, sapi = 0, tei = 0, lpd = 0, format = LAPD_FORM_UKN, p_f = 0, n_send = 0, n_recv = 0, s_u = 0, length_ind = 0, m_bit = 0\<rparr>"

definition lapd_dl_init :: "u8 \<Rightarrow> u8 \<Rightarrow> int \<Rightarrow> lapd_datalink" where
  "lapd_dl_init k vr mf = (
     let k = (if uint k > uint vr - 1 then vr - 1 else k);
         dl = \<lparr>loc2rem = \<lparr>cmd = 0, resp = 0\<rparr>, rem2loc = \<lparr>cmd = 0, resp = 0\<rparr>, dl_mode = LAPD_MODE_USER, lapd_flags = 0, use_sabme = 0,
           reestablish = 1, n200 = 3, n200_est_rel = 3, lctx = zero_ctx, maxf = mf, win_k = k, v_range = vr, v_send = 0, v_ack = 0, v_recv = 0,
           dl_state = LAPD_STATE_NULL, seq_err_cond = 0, own_busy = 0, peer_busy = 0, t203_sec = 10, t203_usec = 0, t200_rts = LAPD_T200_RTS_OFF,
           t200 = False, t203 = False, retrans_ctr = 0, tx_queue = [], send_queue = [], send_buffer = None, send_out = 0, tx_hist = [],
           range_hist = hist_range 8 128 (k + 1), rcv_buffer = None, cont_res = None\<rparr>;
         dl = lapd_dl_newstate dl LAPD_STATE_IDLE
     in dl\<lparr>tx_hist := replicate (unat (range_hist dl)) \<lparr>hmsg = None, hmore = 0\<rparr>\<rparr>)"

definition lapd_dl_reset :: "lapd_datalink \<Rightarrow> lapd_datalink" where
  "lapd_dl_reset dl = (
     let dl = lapd_dl_newstate dl LAPD_STATE_IDLE;
         dl = lapd_dl_flush_tx dl;
         dl = lapd_dl_flush_send dl;
         dl = dl\<lparr>rcv_buffer := None\<rparr>;
         dl = lapd_stop_t200 dl;
         dl = lapd_stop_t203 dl
     in if dl_state dl = LAPD_STATE_IDLE then dl else lapd_dl_newstate dl LAPD_STATE_IDLE)"

definition lapd_dl_set_flags :: "u32 \<Rightarrow> lapd_datalink \<Rightarrow> int \<times> lapd_datalink" where
  "lapd_dl_set_flags flags dl =
     (if lapd_is_t200_started dl \<and> flags AND LAPD_F_RTS \<noteq> lapd_flags dl AND LAPD_F_RTS then (rc_EINVAL, dl)
      else (0, dl\<lparr>lapd_flags := flags\<rparr>))"

definition lapd_dl_exit :: "lapd_datalink \<Rightarrow> lapd_datalink" where
  "lapd_dl_exit dl = (lapd_dl_newstate (lapd_dl_reset dl) LAPD_STATE_NULL)\<lparr>tx_hist := []\<rparr>"

definition lapd_set_mode :: "lapd_datalink \<Rightarrow> lapd_mode \<Rightarrow> lapd_datalink" where
  "lapd_set_mode dl mode =
     (case mode of
        LAPD_MODE_USER \<Rightarrow> dl\<lparr>loc2rem := \<lparr>cmd = 0, resp = 1\<rparr>, rem2loc := \<lparr>cmd = 1, resp = 0\<rparr>, dl_mode := mode\<rparr>
      | LAPD_MODE_NETWORK \<Rightarrow> dl\<lparr>loc2rem := \<lparr>cmd = 1, resp = 0\<rparr>, rem2loc := \<lparr>cmd = 0, resp = 1\<rparr>, dl_mode := mode\<rparr>)"

subsection \<open>Sending\<close>

definition send_dl_l3 :: "'w lapd_cb \<Rightarrow> osmo_dl_prim \<Rightarrow> osmo_prim_operation \<Rightarrow> lapd_msg_ctx \<Rightarrow> msg option \<Rightarrow> 'w lapd_act" where
  "send_dl_l3 cb prim oper ctx m dl w = send_dlsap cb \<lparr>primitive = prim, operation = oper, param = 0, pmsg = m\<rparr> ctx dl w"

definition send_dl_simple :: "'w lapd_cb \<Rightarrow> osmo_dl_prim \<Rightarrow> osmo_prim_operation \<Rightarrow> lapd_msg_ctx \<Rightarrow> 'w lapd_act" where
  "send_dl_simple cb prim oper ctx dl w = send_dl_l3 cb prim oper ctx None dl w"

definition mdl_error :: "'w lapd_cb \<Rightarrow> int \<Rightarrow> lapd_msg_ctx \<Rightarrow> 'w lapd_act" where
  "mdl_error cb cause ctx dl w = send_dlsap cb \<lparr>primitive = PRIM_MDL_ERROR, operation = PRIM_OP_INDICATION, param = cause, pmsg = None\<rparr> ctx dl w"

text \<open>The first \<open>n\<close> octets of a message; the source reads them from the buffer.\<close>

definition octets_of :: "msg \<Rightarrow> int \<Rightarrow> msg res" where
  "octets_of m n = (if 0 \<le> n \<and> n \<le> int (length m) then Some (take (nat n) m) else None)"

definition lapd_send_ua :: "'w lapd_cb \<Rightarrow> lapd_msg_ctx \<Rightarrow> int \<Rightarrow> msg \<Rightarrow> 'w lapd_act" where
  "lapd_send_ua cb ctx n m dl w = do {
     let n = n mod 256;
     d \<leftarrow> octets_of m n;
     send_ph_data_req cb (ctx\<lparr>c_r := resp (loc2rem dl), format := LAPD_FORM_U, s_u := LAPD_U_UA, length_ind := n, m_bit := 0\<rparr>) d dl w }"

definition lapd_send_dm :: "'w lapd_cb \<Rightarrow> lapd_msg_ctx \<Rightarrow> 'w lapd_act" where
  "lapd_send_dm cb ctx dl w =
     send_ph_data_req cb (ctx\<lparr>c_r := resp (loc2rem dl), format := LAPD_FORM_U, s_u := LAPD_U_DM, length_ind := 0, m_bit := 0\<rparr>) [] dl w"

definition lapd_send_rr :: "'w lapd_cb \<Rightarrow> lapd_msg_ctx \<Rightarrow> u8 \<Rightarrow> u8 \<Rightarrow> 'w lapd_act" where
  "lapd_send_rr cb ctx f_bit cm dl w =
     send_ph_data_req cb (ctx\<lparr>c_r := (if cm \<noteq> 0 then cmd (loc2rem dl) else resp (loc2rem dl)), format := LAPD_FORM_S, s_u := LAPD_S_RR,
       p_f := f_bit, n_recv := v_recv dl, length_ind := 0, m_bit := 0\<rparr>) [] dl w"

definition lapd_send_rnr :: "'w lapd_cb \<Rightarrow> lapd_msg_ctx \<Rightarrow> u8 \<Rightarrow> u8 \<Rightarrow> 'w lapd_act" where
  "lapd_send_rnr cb ctx f_bit cm dl w =
     send_ph_data_req cb (ctx\<lparr>c_r := (if cm \<noteq> 0 then cmd (loc2rem dl) else resp (loc2rem dl)), format := LAPD_FORM_S, s_u := LAPD_S_RNR,
       p_f := f_bit, n_recv := v_recv dl, length_ind := 0, m_bit := 0\<rparr>) [] dl w"

definition lapd_send_rej :: "'w lapd_cb \<Rightarrow> lapd_msg_ctx \<Rightarrow> u8 \<Rightarrow> 'w lapd_act" where
  "lapd_send_rej cb ctx f_bit dl w =
     send_ph_data_req cb (ctx\<lparr>c_r := resp (loc2rem dl), format := LAPD_FORM_S, s_u := LAPD_S_REJ,
       p_f := f_bit, n_recv := v_recv dl, length_ind := 0, m_bit := 0\<rparr>) [] dl w"

definition lapd_send_resend :: "'w lapd_cb \<Rightarrow> 'w lapd_act" where
  "lapd_send_resend cb dl w = do {
     h \<leftarrow> rd (tx_hist dl) (unat (do_mod (v_send dl) (range_hist dl)));
     m \<leftarrow> hmsg h;
     send_ph_data_req cb ((lctx dl)\<lparr>c_r := cmd (loc2rem dl), format := LAPD_FORM_U,
       s_u := (if dl_state dl = LAPD_STATE_SABM_SENT then (if use_sabme dl \<noteq> 0 then LAPD_U_SABME else LAPD_U_SABM) else LAPD_U_DISC),
       p_f := 1, length_ind := int (length m), m_bit := 0\<rparr>) m dl w }"

definition msg_to_tx_hist :: "nat \<Rightarrow> msg \<Rightarrow> u8 \<Rightarrow> lapd_datalink \<Rightarrow> lapd_datalink res" where
  "msg_to_tx_hist h m mo dl = do {
     hs \<leftarrow> wr (tx_hist dl) h \<lparr>hmsg = Some m, hmore = mo\<rparr>;
     Some (dl\<lparr>tx_hist := hs\<rparr>) }"

definition msg_to_tx_hist0 :: "msg \<Rightarrow> lapd_datalink \<Rightarrow> lapd_datalink res" where
  "msg_to_tx_hist0 m dl = msg_to_tx_hist 0 m 0 dl"

definition lapd_est_req :: "'w lapd_cb \<Rightarrow> osmo_dlsap_prim \<Rightarrow> lapd_msg_ctx \<Rightarrow> 'w lapd_act" where
  "lapd_est_req cb dp ctx dl w = do {
     m \<leftarrow> pmsg dp;
     let dl = lapd_dl_flush_send dl;
     let dl = lapd_dl_flush_hist dl;
     let dl = dl\<lparr>lctx := ctx\<rparr>;
     let dl = dl\<lparr>rcv_buffer := None\<rparr>;
     let nctx = (lctx dl)\<lparr>c_r := cmd (loc2rem dl), format := LAPD_FORM_U, s_u := (if use_sabme dl \<noteq> 0 then LAPD_U_SABME else LAPD_U_SABM),
       p_f := 1, length_ind := int (length m), m_bit := 0\<rparr>;
     dl \<leftarrow> msg_to_tx_hist0 m dl;
     let dl = dl\<lparr>v_send := 0\<rparr>;
     let dl = dl\<lparr>own_busy := 0, peer_busy := 0, retrans_ctr := 0\<rparr>;
     let dl = lapd_dl_newstate dl LAPD_STATE_SABM_SENT;
     (_, dl, w) \<leftarrow> send_ph_data_req cb nctx m dl w;
     Some (0, lapd_start_t200 dl, w) }"

definition lapd_reestablish :: "'w lapd_cb \<Rightarrow> 'w lapd_act" where
  "lapd_reestablish cb dl w = lapd_est_req cb \<lparr>primitive = PRIM_DL_EST, operation = PRIM_OP_REQUEST, param = 0, pmsg = Some []\<rparr> (lctx dl) dl w"

subsection \<open>Sending I frames\<close>

text \<open>\<open>next_message\<close>: the next message of the queue that is not empty becomes the send buffer.\<close>

fun next_message :: "msg list \<Rightarrow> msg option \<times> msg list" where
  "next_message [] = (None, [])"
| "next_message (m # q) = (if m = [] then next_message q else (Some m, q))"

definition fill_send_buffer :: "lapd_datalink \<Rightarrow> lapd_datalink" where
  "fill_send_buffer dl = (
     let fetch = (case next_message (send_queue dl) of (b, q) \<Rightarrow> dl\<lparr>send_out := 0, send_buffer := b, send_queue := q\<rparr>)
     in case send_buffer dl of
          None \<Rightarrow> fetch
        | Some m \<Rightarrow> if int (length m) - int (send_out dl) = 0 then fetch else dl)"

text \<open>The next I frame: a new segment, which goes into the history, or the one of the history. \<open>None\<close> in the
  result is the return for lack of data.\<close>

definition next_i_frame :: "lapd_datalink \<Rightarrow> ((lapd_msg_ctx \<times> msg) option \<times> lapd_datalink) res" where
  "next_i_frame dl = do {
     let h = unat (do_mod (v_send dl) (range_hist dl));
     e \<leftarrow> rd (tx_hist dl) h;
     let nctx = (lctx dl)\<lparr>c_r := cmd (loc2rem dl), format := LAPD_FORM_I, p_f := 0, n_send := v_send dl, n_recv := v_recv dl\<rparr>;
     case hmsg e of
       None \<Rightarrow> do {
         let dl = fill_send_buffer dl;
         case send_buffer dl of
           None \<Rightarrow> Some (None, dl)
         | Some b \<Rightarrow> do {
             let left = int (length b) - int (send_out dl);
             let n = (if n201 (lctx dl) < left then n201 (lctx dl) else left);
             d \<leftarrow> octets_of (drop (send_out dl) b) n;
             let nctx = nctx\<lparr>length_ind := n, m_bit := (if n < left then 1 else 0)\<rparr>;
             dl \<leftarrow> msg_to_tx_hist h d (m_bit nctx) dl;
             Some (Some (nctx, d), dl\<lparr>send_out := send_out dl + nat n\<rparr>) } }
     | Some m \<Rightarrow> Some (Some (nctx\<lparr>length_ind := int (length m), m_bit := hmore e\<rparr>, m), dl) }"

partial_function (option) send_i_loop :: "'w lapd_cb \<Rightarrow> int \<Rightarrow> lapd_datalink \<Rightarrow> 'w \<Rightarrow> (int \<times> lapd_datalink \<times> 'w) option" where
  "send_i_loop cb rc dl w =
     (if peer_busy dl \<noteq> 0 then Some (rc, dl, w)
      else if dl_state dl = LAPD_STATE_TIMER_RECOV then Some (rc, dl, w)
      else if v_send dl = add_mod (v_ack dl) (win_k dl) (v_range dl) then Some (rc, dl, w)
      else Option.bind (next_i_frame dl) (\<lambda>(f, dl).
        case f of
          None \<Rightarrow> Some (rc, dl, w)
        | Some (nctx, m) \<Rightarrow>
            (let dl = dl\<lparr>v_send := inc_mod (v_send dl) (v_range dl)\<rparr>;
                 dl = (if \<not> lapd_is_t200_started dl then lapd_start_t200 (lapd_stop_t203 dl) else dl)
             in Option.bind (send_ph_data_req cb nctx m dl w) (\<lambda>(_, dl, w).
                  if rts_flag dl then Some (0, dl, w) else send_i_loop cb 0 dl w))))"

declare send_i_loop.simps [code]

definition lapd_send_i :: "'w lapd_cb \<Rightarrow> 'w lapd_act" where
  "lapd_send_i cb dl w =
     (if rts_flag dl \<and> tx_queue dl \<noteq> [] then Some (- 1, dl, w) else send_i_loop cb (- 1) dl w)"

subsection \<open>Timers\<close>

definition lapd_t200_cb :: "'w lapd_cb \<Rightarrow> lapd_datalink \<Rightarrow> 'w \<Rightarrow> (lapd_datalink \<times> 'w) res" where
  "lapd_t200_cb cb dl w =
     (if dl_state dl = LAPD_STATE_SABM_SENT then do {
        let dl = dl\<lparr>retrans_ctr := retrans_ctr dl + 1\<rparr>;
        if uint (retrans_ctr dl) \<ge> n200_est_rel dl + 1 then do {
          let dl = lapd_dl_flush_tx dl;
          let dl = lapd_dl_flush_send dl;
          let dl = lapd_dl_newstate dl LAPD_STATE_IDLE;
          (_, dl, w) \<leftarrow> mdl_error cb MDL_CAUSE_T200_EXPIRED (lctx dl) dl w;
          (_, dl, w) \<leftarrow> send_dl_simple cb PRIM_DL_REL PRIM_OP_INDICATION (lctx dl) dl w;
          Some (dl, w) }
        else do {
          (_, dl, w) \<leftarrow> lapd_send_resend cb dl w;
          Some (lapd_start_t200 dl, w) } }
      else if dl_state dl = LAPD_STATE_DISC_SENT then do {
        let dl = dl\<lparr>retrans_ctr := retrans_ctr dl + 1\<rparr>;
        if uint (retrans_ctr dl) \<ge> n200_est_rel dl + 1 then do {
          (_, dl, w) \<leftarrow> mdl_error cb MDL_CAUSE_T200_EXPIRED (lctx dl) dl w;
          let dl = lapd_dl_flush_tx dl;
          let dl = lapd_dl_flush_send dl;
          let dl = lapd_dl_newstate dl LAPD_STATE_IDLE;
          (_, dl, w) \<leftarrow> send_dl_simple cb PRIM_DL_REL PRIM_OP_CONFIRM (lctx dl) dl w;
          Some (dl, w) }
        else do {
          (_, dl, w) \<leftarrow> lapd_send_resend cb dl w;
          Some (lapd_start_t200 dl, w) } }
      else if dl_state dl = LAPD_STATE_MF_EST \<or> dl_state dl = LAPD_STATE_TIMER_RECOV then do {
        let dl = (if dl_state dl = LAPD_STATE_MF_EST then lapd_dl_newstate (dl\<lparr>retrans_ctr := 0\<rparr>) LAPD_STATE_TIMER_RECOV else dl);
        let dl = dl\<lparr>retrans_ctr := retrans_ctr dl + 1\<rparr>;
        if uint (retrans_ctr dl) \<le> n200 dl then do {
          let vs = sub_mod (v_send dl) 1 (v_range dl);
          e \<leftarrow> rd (tx_hist dl) (unat (do_mod vs (range_hist dl)));
          (_, dl, w) \<leftarrow> (case hmsg e of
            Some m \<Rightarrow> send_ph_data_req cb ((lctx dl)\<lparr>c_r := cmd (loc2rem dl), format := LAPD_FORM_I, p_f := 1, n_send := vs,
                n_recv := v_recv dl, length_ind := int (length m), m_bit := hmore e\<rparr>) m dl w
          | None \<Rightarrow>
              if own_busy dl = 0 \<and> seq_err_cond dl = 0 then lapd_send_rr cb (lctx dl) 1 1 dl w
              else if own_busy dl \<noteq> 0 then lapd_send_rnr cb (lctx dl) 1 1 dl w
              else Some (0, dl, w));
          Some (lapd_start_t200 dl, w) }
        else do {
          (_, dl, w) \<leftarrow> mdl_error cb MDL_CAUSE_T200_EXPIRED (lctx dl) dl w;
          if reestablish dl = 0 then Some (dl, w)
          else do { (_, dl, w) \<leftarrow> lapd_reestablish cb dl w; Some (dl, w) } } }
      else Some (dl, w))"

definition lapd_t200_timeout :: "'w lapd_cb \<Rightarrow> 'w lapd_act" where
  "lapd_t200_timeout cb dl w =
     (if \<not> rts_flag dl then None
      else if t200_rts dl \<noteq> LAPD_T200_RTS_RUNNING then Some (rc_EINVAL, dl, w)
      else do { (dl, w) \<leftarrow> lapd_t200_cb cb (dl\<lparr>t200_rts := LAPD_T200_RTS_OFF\<rparr>) w; Some (0, dl, w) })"

definition lapd_t203_cb :: "'w lapd_cb \<Rightarrow> lapd_datalink \<Rightarrow> 'w \<Rightarrow> (lapd_datalink \<times> 'w) res" where
  "lapd_t203_cb cb dl w =
     (if dl_state dl \<noteq> LAPD_STATE_MF_EST then Some (dl, w)
      else do {
        let dl = dl\<lparr>retrans_ctr := 0\<rparr>;
        let dl = lapd_dl_newstate dl LAPD_STATE_TIMER_RECOV;
        (_, dl, w) \<leftarrow> (if own_busy dl = 0 then lapd_send_rr cb (lctx dl) 1 1 dl w else lapd_send_rnr cb (lctx dl) 1 1 dl w);
        Some (lapd_start_t200 dl, w) })"

subsection \<open>Acknowledgement\<close>

text \<open>\<open>for (i = V(A); i != N(R); i = inc_mod(i, v_range))\<close>\<close>

partial_function (option) flush_acked :: "u8 \<Rightarrow> u8 \<Rightarrow> lapd_datalink \<Rightarrow> lapd_datalink option" where
  "flush_acked i nr dl =
     (if i = nr then Some dl
      else Option.bind (rd (tx_hist dl) (unat (do_mod i (range_hist dl)))) (\<lambda>e.
        flush_acked (inc_mod i (v_range dl)) nr (dl\<lparr>tx_hist := (tx_hist dl)[unat (do_mod i (range_hist dl)) := e\<lparr>hmsg := None\<rparr>]\<rparr>)))"

declare flush_acked.simps [code]

text \<open>The end of \<open>lapd_acknowledge\<close>: T200 is restarted while a frame is outstanding, T203 when T200 is not running.\<close>

definition ack_timers :: "bool \<Rightarrow> lapd_datalink \<Rightarrow> (int \<times> lapd_datalink) res" where
  "ack_timers restart dl = do {
     dl \<leftarrow> (if restart then do {
              e \<leftarrow> rd (tx_hist dl) (unat (sub_mod (v_send dl) 1 (range_hist dl)));
              Some (if hmsg e \<noteq> None then lapd_start_t200 dl else dl) }
            else Some dl);
     let dl = lapd_stop_t203 dl;
     let dl = (if \<not> lapd_is_t200_started dl \<and> (t203_sec dl \<noteq> 0 \<or> t203_usec dl \<noteq> 0) \<and> dl_state dl = LAPD_STATE_MF_EST
               then lapd_start_t203 dl else dl);
     Some (0, dl) }"

definition lapd_acknowledge :: "lapd_msg_ctx \<Rightarrow> lapd_datalink \<Rightarrow> (int \<times> lapd_datalink) res" where
  "lapd_acknowledge ctx dl = do {
     let nr = n_recv ctx;
     let rej = (format ctx = LAPD_FORM_S \<and> s_u ctx = LAPD_S_REJ);
     dl \<leftarrow> flush_acked (v_ack dl) nr dl;
     let t200_reset = (dl_state dl \<noteq> LAPD_STATE_TIMER_RECOV \<and> (\<not> rej \<and> nr \<noteq> v_ack dl \<or> rej \<and> nr = v_ack dl));
     let dl = (if t200_reset then lapd_stop_t200 dl else dl);
     if dl_state dl \<noteq> LAPD_STATE_TIMER_RECOV \<and> sub_mod (v_send dl) (v_ack dl) (v_range dl) < sub_mod nr (v_ack dl) (v_range dl)
     then Some (- MDL_CAUSE_SEQ_ERR, dl)
     else ack_timers (t200_reset \<and> \<not> rej) (dl\<lparr>v_ack := nr\<rparr>) }"

subsection \<open>Frames from layer 1\<close>

text \<open>The common part of the branches that accept the SABM.\<close>

definition sabm_accept :: "'w lapd_cb \<Rightarrow> msg \<Rightarrow> lapd_msg_ctx \<Rightarrow> 'w lapd_act" where
  "sabm_accept cb m ctx dl w = do {
     let n = length_ind ctx;
     let dl = dl\<lparr>lctx := ctx\<rparr>;
     (_, dl, w) \<leftarrow> lapd_send_ua cb ctx n m dl w;
     let dl = dl\<lparr>v_ack := 0, v_recv := 0, v_send := 0\<rparr>;
     let dl = lapd_dl_flush_hist dl;
     let dl = lapd_dl_newstate dl LAPD_STATE_MF_EST;
     d \<leftarrow> octets_of m n;
     let dl = (if dl_mode dl = LAPD_MODE_NETWORK \<and> n \<noteq> 0 then dl\<lparr>cont_res := Some d\<rparr> else dl);
     if n = 0 then send_dl_simple cb PRIM_DL_EST PRIM_OP_INDICATION ctx dl w
     else send_dl_l3 cb PRIM_DL_EST PRIM_OP_INDICATION ctx (Some d) dl w }"

definition lapd_rx_u_sabm :: "'w lapd_cb \<Rightarrow> msg \<Rightarrow> lapd_msg_ctx \<Rightarrow> 'w lapd_act" where
  "lapd_rx_u_sabm cb m ctx dl w = (
     let n = length_ind ctx;
         dl = dl\<lparr>seq_err_cond := 0\<rparr>
     in if c_r ctx = resp (rem2loc dl) then do {
          (_, dl, w) \<leftarrow> mdl_error cb MDL_CAUSE_FRM_UNIMPL ctx dl w; Some (rc_EINVAL, dl, w) }
        else if m_bit ctx \<noteq> 0 \<or> n > n201 ctx then do {
          (_, dl, w) \<leftarrow> mdl_error cb MDL_CAUSE_UFRM_INC_PARAM ctx dl w; Some (rc_EIO, dl, w) }
        else case dl_state dl of
          LAPD_STATE_IDLE \<Rightarrow> sabm_accept cb m ctx dl w
        | LAPD_STATE_TIMER_RECOV \<Rightarrow>
            if n \<noteq> 0 then do {
              (_, dl, w) \<leftarrow> mdl_error cb MDL_CAUSE_SABM_INFO_NOTALL ctx dl w;
              (_, dl, w) \<leftarrow> lapd_send_dm cb ctx dl w;
              Some (0, dl, w) }
            else sabm_accept cb m ctx (lapd_stop_t200 dl) w
        | LAPD_STATE_MF_EST \<Rightarrow>
            if n = 0 then sabm_accept cb m ctx dl w
            else (case cont_res dl of
              None \<Rightarrow> do { (_, dl, w) \<leftarrow> mdl_error cb MDL_CAUSE_SABM_MF ctx dl w; Some (0, dl, w) }
            | Some c \<Rightarrow> do {
                differs \<leftarrow> (if dl_mode dl = LAPD_MODE_NETWORK then do {
                    c \<leftarrow> octets_of c n; d \<leftarrow> octets_of m n; Some (c \<noteq> d) } else Some False);
                if differs then Some (0, dl, w)
                else do { (_, dl, w) \<leftarrow> lapd_send_ua cb ctx n m dl w; Some (0, dl, w) } })
        | LAPD_STATE_DISC_SENT \<Rightarrow> do {
            (_, dl, w) \<leftarrow> lapd_send_dm cb ctx dl w;
            send_dl_simple cb PRIM_DL_EST PRIM_OP_INDICATION ctx (lapd_stop_t200 dl) w }
        | _ \<Rightarrow> do {
            e \<leftarrow> rd (tx_hist dl) 0;
            (_, dl, w) \<leftarrow> (case hmsg e of
               Some x \<Rightarrow> if x \<noteq> [] then mdl_error cb MDL_CAUSE_SABM_INFO_NOTALL ctx dl w else Some (0, dl, w)
             | None \<Rightarrow> Some (0, dl, w));
            (_, dl, w) \<leftarrow> lapd_send_ua cb ctx n m dl w;
            Some (0, dl, w) })"

definition lapd_rx_u_dm :: "'w lapd_cb \<Rightarrow> msg \<Rightarrow> lapd_msg_ctx \<Rightarrow> 'w lapd_act" where
  "lapd_rx_u_dm cb m ctx dl w = (
     let to_idle = do {
       let dl = lapd_stop_t200 dl;
       let dl = lapd_dl_newstate dl LAPD_STATE_IDLE;
       send_dl_simple cb PRIM_DL_REL PRIM_OP_INDICATION ctx dl w }
     in if c_r ctx = cmd (rem2loc dl) then do {
          (_, dl, w) \<leftarrow> mdl_error cb MDL_CAUSE_FRM_UNIMPL ctx dl w; Some (rc_EINVAL, dl, w) }
        else if p_f ctx = 0 then Some (0, dl, w)
        else case dl_state dl of
          LAPD_STATE_SABM_SENT \<Rightarrow> to_idle
        | LAPD_STATE_MF_EST \<Rightarrow>
            if p_f ctx \<noteq> 0 then do { (_, dl, w) \<leftarrow> mdl_error cb MDL_CAUSE_UNSOL_DM_RESP ctx dl w; Some (0, dl, w) }
            else do {
              (_, dl, w) \<leftarrow> mdl_error cb MDL_CAUSE_UNSOL_DM_RESP_MF ctx dl w;
              if reestablish dl = 0 then Some (0, dl, w)
              else do { (_, dl, w) \<leftarrow> lapd_reestablish cb dl w; Some (0, dl, w) } }
        | LAPD_STATE_TIMER_RECOV \<Rightarrow>
            if p_f ctx = 0 then do {
              (_, dl, w) \<leftarrow> mdl_error cb MDL_CAUSE_UNSOL_DM_RESP_MF ctx dl w;
              if reestablish dl = 0 then Some (0, dl, w) else lapd_reestablish cb dl w }
            else to_idle
        | LAPD_STATE_DISC_SENT \<Rightarrow> do {
            let dl = lapd_stop_t200 dl;
            let dl = lapd_dl_flush_tx dl;
            let dl = lapd_dl_flush_send dl;
            let dl = lapd_dl_newstate dl LAPD_STATE_IDLE;
            (_, dl, w) \<leftarrow> send_dl_simple cb PRIM_DL_REL PRIM_OP_CONFIRM ctx dl w;
            Some (0, dl, w) }
        | _ \<Rightarrow> Some (0, dl, w))"

definition lapd_rx_u_ui :: "'w lapd_cb \<Rightarrow> msg \<Rightarrow> lapd_msg_ctx \<Rightarrow> 'w lapd_act" where
  "lapd_rx_u_ui cb m ctx dl w = (
     let n = length_ind ctx
     in if c_r ctx = resp (rem2loc dl) then do {
          (_, dl, w) \<leftarrow> mdl_error cb MDL_CAUSE_FRM_UNIMPL ctx dl w; Some (rc_EINVAL, dl, w) }
        else if n > n201 ctx \<or> m_bit ctx \<noteq> 0 then do {
          (_, dl, w) \<leftarrow> mdl_error cb MDL_CAUSE_UFRM_INC_PARAM ctx dl w; Some (rc_EIO, dl, w) }
        else if n = 0 then Some (0, dl, w)
        else do { d \<leftarrow> octets_of m n; send_dl_l3 cb PRIM_DL_UNIT_DATA PRIM_OP_INDICATION ctx (Some d) dl w })"

definition lapd_rx_u_disc :: "'w lapd_cb \<Rightarrow> msg \<Rightarrow> lapd_msg_ctx \<Rightarrow> 'w lapd_act" where
  "lapd_rx_u_disc cb m ctx dl w = (
     let n = length_ind ctx;
         dl = lapd_dl_flush_tx dl;
         dl = lapd_dl_flush_send dl;
         dl = dl\<lparr>seq_err_cond := 0\<rparr>;
         release = (\<lambda>oper. do {
           (_, dl, w) \<leftarrow> lapd_send_ua cb ctx n m dl w;
           let dl = lapd_stop_t200 dl;
           let dl = lapd_dl_newstate dl LAPD_STATE_IDLE;
           send_dl_simple cb PRIM_DL_REL oper ctx dl w })
     in if c_r ctx = resp (rem2loc dl) then do {
          (_, dl, w) \<leftarrow> mdl_error cb MDL_CAUSE_FRM_UNIMPL ctx dl w; Some (rc_EINVAL, dl, w) }
        else if n > 0 \<or> m_bit ctx \<noteq> 0 then do {
          (_, dl, w) \<leftarrow> mdl_error cb MDL_CAUSE_UFRM_INC_PARAM ctx dl w; Some (rc_EIO, dl, w) }
        else case dl_state dl of
          LAPD_STATE_IDLE \<Rightarrow> lapd_send_dm cb ctx dl w
        | LAPD_STATE_SABM_SENT \<Rightarrow> do {
            (_, dl, w) \<leftarrow> lapd_send_dm cb ctx dl w;
            let dl = lapd_stop_t200 dl;
            let dl = lapd_dl_newstate dl LAPD_STATE_IDLE;
            send_dl_simple cb PRIM_DL_REL PRIM_OP_INDICATION ctx dl w }
        | LAPD_STATE_MF_EST \<Rightarrow> release PRIM_OP_INDICATION
        | LAPD_STATE_TIMER_RECOV \<Rightarrow> release PRIM_OP_INDICATION
        | LAPD_STATE_DISC_SENT \<Rightarrow> release PRIM_OP_CONFIRM
        | _ \<Rightarrow> do { (_, dl, w) \<leftarrow> lapd_send_ua cb ctx n m dl w; Some (0, dl, w) })"

definition lapd_rx_u_ua :: "'w lapd_cb \<Rightarrow> msg \<Rightarrow> lapd_msg_ctx \<Rightarrow> 'w lapd_act" where
  "lapd_rx_u_ua cb m ctx dl w = (
     let n = length_ind ctx
     in if c_r ctx = cmd (rem2loc dl) then do {
          (_, dl, w) \<leftarrow> mdl_error cb MDL_CAUSE_FRM_UNIMPL ctx dl w; Some (rc_EINVAL, dl, w) }
        else if m_bit ctx \<noteq> 0 \<or> n > n201 ctx then do {
          (_, dl, w) \<leftarrow> mdl_error cb MDL_CAUSE_UFRM_INC_PARAM ctx dl w; Some (rc_EIO, dl, w) }
        else if p_f ctx = 0 then Some (0, dl, w)
        else case dl_state dl of
          LAPD_STATE_SABM_SENT \<Rightarrow> do {
            let dl = lapd_stop_t200 dl;
            e \<leftarrow> rd (tx_hist dl) 0;
            x \<leftarrow> hmsg e;
            mismatch \<leftarrow> (if x \<noteq> [] then (if n \<noteq> int (length x) then Some True else do { d \<leftarrow> octets_of m n; Some (x \<noteq> d) }) else Some False);
            if mismatch then do {
              let dl = lapd_dl_flush_tx dl;
              let dl = lapd_dl_flush_send dl;
              let dl = lapd_dl_newstate dl LAPD_STATE_IDLE;
              (_, dl, w) \<leftarrow> send_dl_simple cb PRIM_DL_REL PRIM_OP_INDICATION ctx dl w;
              Some (0, dl, w) }
            else do {
              let dl = dl\<lparr>v_ack := 0, v_recv := 0, v_send := 0\<rparr>;
              let dl = lapd_dl_flush_hist dl;
              let dl = lapd_dl_newstate dl LAPD_STATE_MF_EST;
              (_, dl, w) \<leftarrow> lapd_send_i cb dl w;
              send_dl_simple cb PRIM_DL_EST PRIM_OP_CONFIRM ctx dl w } }
        | LAPD_STATE_MF_EST \<Rightarrow> do { (_, dl, w) \<leftarrow> mdl_error cb MDL_CAUSE_UNSOL_UA_RESP ctx dl w; Some (0, dl, w) }
        | LAPD_STATE_TIMER_RECOV \<Rightarrow> do { (_, dl, w) \<leftarrow> mdl_error cb MDL_CAUSE_UNSOL_UA_RESP ctx dl w; Some (0, dl, w) }
        | LAPD_STATE_DISC_SENT \<Rightarrow> do {
            let dl = lapd_stop_t200 dl;
            let dl = lapd_dl_flush_tx dl;
            let dl = lapd_dl_flush_send dl;
            let dl = lapd_dl_newstate dl LAPD_STATE_IDLE;
            (_, dl, w) \<leftarrow> send_dl_simple cb PRIM_DL_REL PRIM_OP_CONFIRM ctx dl w;
            Some (0, dl, w) }
        | _ \<Rightarrow> Some (0, dl, w))"

definition lapd_rx_u_frmr :: "'w lapd_cb \<Rightarrow> lapd_msg_ctx \<Rightarrow> 'w lapd_act" where
  "lapd_rx_u_frmr cb ctx dl w = do {
     (_, dl, w) \<leftarrow> mdl_error cb MDL_CAUSE_FRMR ctx dl w;
     if reestablish dl = 0 then Some (0, dl, w) else lapd_reestablish cb dl w }"

definition lapd_rx_u :: "'w lapd_cb \<Rightarrow> msg \<Rightarrow> lapd_msg_ctx \<Rightarrow> 'w lapd_act" where
  "lapd_rx_u cb m ctx dl w =
     (if s_u ctx = LAPD_U_SABM \<or> s_u ctx = LAPD_U_SABME then lapd_rx_u_sabm cb m ctx dl w
      else if s_u ctx = LAPD_U_DM then lapd_rx_u_dm cb m ctx dl w
      else if s_u ctx = LAPD_U_UI then lapd_rx_u_ui cb m ctx dl w
      else if s_u ctx = LAPD_U_DISC then lapd_rx_u_disc cb m ctx dl w
      else if s_u ctx = LAPD_U_UA then lapd_rx_u_ua cb m ctx dl w
      else if s_u ctx = LAPD_U_FRMR then lapd_rx_u_frmr cb ctx dl w
      else do { (_, dl, w) \<leftarrow> mdl_error cb MDL_CAUSE_FRM_UNIMPL ctx dl w; Some (rc_EINVAL, dl, w) })"

text \<open>The answer to a poll: RR or RNR with the final bit; with \<open>check\<close>, nothing in a sequence error condition.\<close>

definition answer_poll :: "'w lapd_cb \<Rightarrow> bool \<Rightarrow> lapd_msg_ctx \<Rightarrow> 'w lapd_act" where
  "answer_poll cb check ctx dl w =
     (if own_busy dl = 0 \<and> (check \<longrightarrow> seq_err_cond dl = 0) then lapd_send_rr cb ctx 1 0 dl w
      else if own_busy dl \<noteq> 0 then lapd_send_rnr cb ctx 1 0 dl w
      else Some (0, dl, w))"

definition lapd_rx_s_rr :: "'w lapd_cb \<Rightarrow> lapd_msg_ctx \<Rightarrow> 'w lapd_act" where
  "lapd_rx_s_rr cb ctx dl w = do {
     (_, dl) \<leftarrow> lapd_acknowledge ctx dl;
     (_, dl, w) \<leftarrow> (if c_r ctx = cmd (rem2loc dl) \<and> p_f ctx \<noteq> 0 then answer_poll cb True ctx dl w
        else if c_r ctx = resp (rem2loc dl) \<and> p_f ctx \<noteq> 0 \<and> dl_state dl = LAPD_STATE_TIMER_RECOV then
          Some (0, lapd_dl_newstate (lapd_stop_t200 (dl\<lparr>v_send := n_recv ctx\<rparr>)) LAPD_STATE_MF_EST, w)
        else Some (0, dl, w));
     lapd_send_i cb dl w }"

definition lapd_rx_s_rnr :: "'w lapd_cb \<Rightarrow> lapd_msg_ctx \<Rightarrow> 'w lapd_act" where
  "lapd_rx_s_rnr cb ctx dl w = do {
     (_, dl) \<leftarrow> lapd_acknowledge ctx dl;
     let dl = dl\<lparr>peer_busy := 1\<rparr>;
     let dl = lapd_dl_flush_tx_queue dl;
     let dl = lapd_stop_t200 dl;
     (_, dl, w) \<leftarrow> (if p_f ctx \<noteq> 0 then
          (if c_r ctx = cmd (rem2loc dl) then answer_poll cb False ctx dl w
           else if dl_state dl = LAPD_STATE_TIMER_RECOV then Some (0, (lapd_dl_newstate dl LAPD_STATE_MF_EST)\<lparr>v_send := n_recv ctx\<rparr>, w)
           else Some (0, dl, w))
        else Some (0, dl, w));
     lapd_send_i cb dl w }"

definition lapd_rx_s_rej :: "'w lapd_cb \<Rightarrow> lapd_msg_ctx \<Rightarrow> 'w lapd_act" where
  "lapd_rx_s_rej cb ctx dl w = do {
     (_, dl) \<leftarrow> lapd_acknowledge ctx dl;
     let restart = lapd_dl_flush_tx_queue (dl\<lparr>peer_busy := 0, v_ack := n_recv ctx, v_send := n_recv ctx\<rparr>);
     (_, dl, w) \<leftarrow> (if dl_state dl \<noteq> LAPD_STATE_TIMER_RECOV then do {
          let dl = lapd_stop_t200 restart;
          (_, dl, w) \<leftarrow> (if c_r ctx = cmd (rem2loc dl) \<and> p_f ctx \<noteq> 0 then answer_poll cb True ctx dl w else Some (0, dl, w));
          if c_r ctx = resp (rem2loc dl) \<and> p_f ctx \<noteq> 0 then mdl_error cb MDL_CAUSE_UNSOL_SPRV_RESP ctx dl w else Some (0, dl, w) }
        else if c_r ctx = resp (rem2loc dl) \<and> p_f ctx \<noteq> 0 then
          Some (0, lapd_dl_newstate (lapd_stop_t200 restart) LAPD_STATE_MF_EST, w)
        else (if c_r ctx = cmd (rem2loc dl) \<and> p_f ctx \<noteq> 0 then answer_poll cb True ctx restart w else Some (0, restart, w)));
     lapd_send_i cb dl w }"

definition lapd_rx_s :: "'w lapd_cb \<Rightarrow> lapd_msg_ctx \<Rightarrow> 'w lapd_act" where
  "lapd_rx_s cb ctx dl w =
     (if length_ind ctx > 0 \<or> m_bit ctx \<noteq> 0 then do {
        (_, dl, w) \<leftarrow> mdl_error cb MDL_CAUSE_SFRM_INC_PARAM ctx dl w; Some (rc_EIO, dl, w) }
      else do {
        (_, dl, w) \<leftarrow> (if c_r ctx = resp (rem2loc dl) \<and> p_f ctx \<noteq> 0 \<and> dl_state dl \<noteq> LAPD_STATE_TIMER_RECOV
           then mdl_error cb MDL_CAUSE_UNSOL_SPRV_RESP ctx dl w else Some (0, dl, w));
        if dl_state dl = LAPD_STATE_IDLE then do {
          (_, dl, w) \<leftarrow> (if p_f ctx \<noteq> 0 then lapd_send_dm cb ctx dl w else Some (0, dl, w));
          Some (0, dl, w) }
        else if dl_state dl = LAPD_STATE_SABM_SENT \<or> dl_state dl = LAPD_STATE_DISC_SENT then Some (0, dl, w)
        else if s_u ctx = LAPD_S_RR then do { (_, dl, w) \<leftarrow> lapd_rx_s_rr cb ctx dl w; Some (0, dl, w) }
        else if s_u ctx = LAPD_S_RNR then do { (_, dl, w) \<leftarrow> lapd_rx_s_rnr cb ctx dl w; Some (0, dl, w) }
        else if s_u ctx = LAPD_S_REJ then do { (_, dl, w) \<leftarrow> lapd_rx_s_rej cb ctx dl w; Some (0, dl, w) }
        else do { (_, dl, w) \<leftarrow> mdl_error cb MDL_CAUSE_FRM_UNIMPL ctx dl w; Some (rc_EINVAL, dl, w) } })"

text \<open>Delivery of the content of an I frame in sequence: directly, or by way of the receive buffer when it is segmented.\<close>

definition deliver_i :: "'w lapd_cb \<Rightarrow> msg \<Rightarrow> lapd_msg_ctx \<Rightarrow> 'w lapd_act" where
  "deliver_i cb m ctx dl w = do {
     d \<leftarrow> octets_of m (length_ind ctx);
     if m_bit ctx = 0 \<and> rcv_buffer dl = None then send_dl_l3 cb PRIM_DL_DATA PRIM_OP_INDICATION ctx (Some d) dl w
     else do {
       let buf = (case rcv_buffer dl of None \<Rightarrow> [] | Some b \<Rightarrow> b);
       let buf = (if int (length buf) + length_ind ctx > maxf dl then buf else buf @ d);
       if m_bit ctx = 0 then do {
         (rc, dl, w) \<leftarrow> send_dl_l3 cb PRIM_DL_DATA PRIM_OP_INDICATION ctx (Some buf) (dl\<lparr>rcv_buffer := Some buf\<rparr>) w;
         Some (rc, dl\<lparr>rcv_buffer := None\<rparr>, w) }
       else Some (0, dl\<lparr>rcv_buffer := Some buf\<rparr>, w) } }"

text \<open>The branch for a frame out of sequence.\<close>

definition rx_i_seq_err :: "'w lapd_cb \<Rightarrow> lapd_msg_ctx \<Rightarrow> 'w lapd_act" where
  "rx_i_seq_err cb ctx dl w = do {
     (_, dl, w) \<leftarrow> (if seq_err_cond dl \<noteq> 1 \<or> lapd_flags dl AND LAPD_F_DROP_2ND_REJ = 0
        then lapd_send_rej cb ctx (p_f ctx) (dl\<lparr>seq_err_cond := 1\<rparr>) w
        else Some (0, dl\<lparr>seq_err_cond := 2\<rparr>, w));
     (mdl_cause, dl) \<leftarrow> lapd_acknowledge ctx dl;
     (_, dl, w) \<leftarrow> (if mdl_cause < 0 then mdl_error cb (- mdl_cause) ctx dl w else Some (0, dl, w));
     (_, dl, w) \<leftarrow> lapd_send_i cb dl w;
     Some (0, dl, w) }"

text \<open>The answer to an I frame: RR or RNR when polled, otherwise an I frame, or RR when there is none to send.\<close>

definition rx_i_reply :: "'w lapd_cb \<Rightarrow> bool \<Rightarrow> lapd_msg_ctx \<Rightarrow> 'w lapd_act" where
  "rx_i_reply cb in_queue ctx dl w =
     (if p_f ctx \<noteq> 0 then do {
       (rc, dl, w) \<leftarrow> (if own_busy dl = 0 then lapd_send_rr cb ctx 1 0 dl w else lapd_send_rnr cb ctx 1 0 dl w);
       (_, dl, w) \<leftarrow> lapd_send_i cb dl w;
       Some (rc, dl, w) }
     else if own_busy dl = 0 then do {
       (rc, dl, w) \<leftarrow> lapd_send_i cb dl w;
       if rc \<noteq> 0 \<and> \<not> in_queue then lapd_send_rr cb ctx 0 0 dl w else Some (0, dl, w) }
     else do {
       (rc, dl, w) \<leftarrow> lapd_send_rnr cb ctx 0 0 dl w;
       (_, dl, w) \<leftarrow> lapd_send_i cb dl w;
       Some (rc, dl, w) })"

text \<open>The branch for a frame in sequence.\<close>

definition rx_i_in_seq :: "'w lapd_cb \<Rightarrow> msg \<Rightarrow> lapd_msg_ctx \<Rightarrow> 'w lapd_act" where
  "rx_i_in_seq cb m ctx dl w = do {
     let dl = dl\<lparr>seq_err_cond := 0\<rparr>;
     let dl = dl\<lparr>v_recv := inc_mod (v_recv dl) (v_range dl)\<rparr>;
     (i_frame_in_queue, dl, w) \<leftarrow> (case update_pending_frames cb of
        None \<Rightarrow> Some (False, dl, w)
      | Some upd \<Rightarrow> do { (rc, dl, w) \<leftarrow> upd ctx dl w; Some (rc = 0, dl, w) });
     (mdl_cause, dl) \<leftarrow> lapd_acknowledge ctx dl;
     let busy = (own_busy dl \<noteq> 0);
     (_, dl, w) \<leftarrow> (if \<not> busy then deliver_i cb m ctx dl w else Some (0, dl, w));
     if \<not> busy \<and> dl_state dl = LAPD_STATE_NULL then Some (0, dl, w)
     else do {
       (_, dl, w) \<leftarrow> (if mdl_cause < 0 then mdl_error cb (- mdl_cause) ctx dl w else Some (0, dl, w));
       rx_i_reply cb i_frame_in_queue ctx dl w } }"

definition lapd_rx_i :: "'w lapd_cb \<Rightarrow> msg \<Rightarrow> lapd_msg_ctx \<Rightarrow> 'w lapd_act" where
  "lapd_rx_i cb m ctx dl w = (
     let n = length_ind ctx
     in if c_r ctx = resp (rem2loc dl) then do {
          (_, dl, w) \<leftarrow> mdl_error cb MDL_CAUSE_FRM_UNIMPL ctx dl w; Some (rc_EINVAL, dl, w) }
        else if n = 0 \<or> n > n201 ctx then do {
          (_, dl, w) \<leftarrow> mdl_error cb MDL_CAUSE_IFRM_INC_LEN ctx dl w; Some (rc_EIO, dl, w) }
        else if m_bit ctx \<noteq> 0 \<and> n < n201 ctx then do {
          (_, dl, w) \<leftarrow> mdl_error cb MDL_CAUSE_IFRM_INC_MBITS ctx dl w; Some (rc_EIO, dl, w) }
        else if dl_state dl = LAPD_STATE_IDLE then do {
          (_, dl, w) \<leftarrow> (if p_f ctx \<noteq> 0 then lapd_send_dm cb ctx dl w else Some (0, dl, w));
          Some (0, dl, w) }
        else if dl_state dl = LAPD_STATE_SABM_SENT \<or> dl_state dl = LAPD_STATE_DISC_SENT then Some (0, dl, w)
        else if n_send ctx \<noteq> v_recv dl then rx_i_seq_err cb ctx dl w
        else rx_i_in_seq cb m ctx dl w)"

definition lapd_ph_data_ind :: "'w lapd_cb \<Rightarrow> msg \<Rightarrow> lapd_msg_ctx \<Rightarrow> 'w lapd_act" where
  "lapd_ph_data_ind cb m ctx dl w =
     (case format ctx of
        LAPD_FORM_U \<Rightarrow> lapd_rx_u cb m ctx dl w
      | LAPD_FORM_S \<Rightarrow> lapd_rx_s cb ctx dl w
      | LAPD_FORM_I \<Rightarrow> lapd_rx_i cb m ctx dl w
      | LAPD_FORM_UKN \<Rightarrow> Some (rc_EINVAL, dl, w))"

definition lapd_ph_rts_ind :: "'w lapd_cb \<Rightarrow> 'w lapd_act" where
  "lapd_ph_rts_ind cb dl w = do {
     (_, dl, w) \<leftarrow> (if tx_queue dl = [] \<and> (dl_state dl = LAPD_STATE_MF_EST \<or> dl_state dl = LAPD_STATE_TIMER_RECOV)
        then lapd_send_i cb dl w else Some (0, dl, w));
     Some (if t200_rts dl = LAPD_T200_RTS_PENDING then (1, dl\<lparr>t200_rts := LAPD_T200_RTS_RUNNING\<rparr>, w) else (0, dl, w)) }"

subsection \<open>Requests from layer 3\<close>

definition lapd_udata_req :: "'w lapd_cb \<Rightarrow> osmo_dlsap_prim \<Rightarrow> lapd_msg_ctx \<Rightarrow> 'w lapd_act" where
  "lapd_udata_req cb dp ctx dl w = do {
     m \<leftarrow> pmsg dp;
     send_ph_data_req cb (ctx\<lparr>c_r := cmd (loc2rem dl), format := LAPD_FORM_U, s_u := LAPD_U_UI, length_ind := int (length m), m_bit := 0\<rparr>) m dl w }"

definition lapd_data_req :: "'w lapd_cb \<Rightarrow> osmo_dlsap_prim \<Rightarrow> lapd_msg_ctx \<Rightarrow> 'w lapd_act" where
  "lapd_data_req cb dp ctx dl w = do {
     m \<leftarrow> pmsg dp;
     if m = [] then Some (- 1, dl, w)
     else do {
       let dl = dl\<lparr>send_queue := send_queue dl @ [m]\<rparr>;
       (_, dl, w) \<leftarrow> lapd_send_i cb dl w;
       Some (0, dl, w) } }"

definition lapd_susp_req :: "'w lapd_cb \<Rightarrow> osmo_dlsap_prim \<Rightarrow> lapd_msg_ctx \<Rightarrow> 'w lapd_act" where
  "lapd_susp_req cb dp ctx dl w = do {
     let dl = (case send_buffer dl of Some b \<Rightarrow> dl\<lparr>send_queue := b # send_queue dl, send_buffer := None\<rparr> | None \<Rightarrow> dl);
     let dl = lapd_dl_flush_tx dl;
     let dl = lapd_stop_t200 dl;
     let dl = lapd_stop_t203 dl;
     send_dl_simple cb PRIM_DL_SUSP PRIM_OP_CONFIRM (lctx dl) dl w }"

definition lapd_res_req :: "'w lapd_cb \<Rightarrow> osmo_dlsap_prim \<Rightarrow> lapd_msg_ctx \<Rightarrow> 'w lapd_act" where
  "lapd_res_req cb dp ctx dl w = do {
     m \<leftarrow> pmsg dp;
     let dl = lapd_dl_flush_hist dl;
     let dl = dl\<lparr>lctx := ctx\<rparr>;
     let dl = dl\<lparr>send_out := 0, send_buffer := (if m \<noteq> [] then Some m else None)\<rparr>;
     let dl = dl\<lparr>rcv_buffer := None\<rparr>;
     let nctx = (lctx dl)\<lparr>c_r := cmd (loc2rem dl), format := LAPD_FORM_U, s_u := (if use_sabme dl \<noteq> 0 then LAPD_U_SABME else LAPD_U_SABM),
       p_f := 1, length_ind := 0, m_bit := 0\<rparr>;
     dl \<leftarrow> msg_to_tx_hist0 [] dl;
     let dl = dl\<lparr>v_send := 0\<rparr>;
     let dl = dl\<lparr>own_busy := 0, peer_busy := 0, retrans_ctr := 0\<rparr>;
     let dl = lapd_dl_newstate dl LAPD_STATE_SABM_SENT;
     (_, dl, w) \<leftarrow> send_ph_data_req cb nctx [] dl w;
     Some (0, lapd_start_t200 dl, w) }"

definition lapd_rel_req :: "'w lapd_cb \<Rightarrow> osmo_dlsap_prim \<Rightarrow> lapd_msg_ctx \<Rightarrow> 'w lapd_act" where
  "lapd_rel_req cb dp ctx dl w =
     (if param dp \<noteq> 0 then do {
        let dl = lapd_stop_t200 dl;
        let dl = lapd_dl_newstate dl LAPD_STATE_IDLE;
        let dl = lapd_dl_flush_tx dl;
        let dl = lapd_dl_flush_send dl;
        send_dl_simple cb PRIM_DL_REL PRIM_OP_CONFIRM (lctx dl) dl w }
      else if dl_state dl = LAPD_STATE_DISC_SENT then Some (rc_EBUSY, dl, w)
      else do {
        m \<leftarrow> pmsg dp;
        let dl = lapd_dl_flush_hist dl;
        let nctx = (lctx dl)\<lparr>c_r := cmd (loc2rem dl), format := LAPD_FORM_U, s_u := LAPD_U_DISC, p_f := 1, length_ind := 0, m_bit := 0\<rparr>;
        dl \<leftarrow> msg_to_tx_hist0 m dl;
        let dl = dl\<lparr>v_send := 0\<rparr>;
        let dl = dl\<lparr>own_busy := 0, peer_busy := 0, retrans_ctr := 0\<rparr>;
        let dl = lapd_dl_newstate dl LAPD_STATE_DISC_SENT;
        (_, dl, w) \<leftarrow> send_ph_data_req cb nctx m dl w;
        Some (0, lapd_start_t200 dl, w) })"

definition lapd_rel_req_idle :: "'w lapd_cb \<Rightarrow> osmo_dlsap_prim \<Rightarrow> lapd_msg_ctx \<Rightarrow> 'w lapd_act" where
  "lapd_rel_req_idle cb dp ctx dl w = send_dl_simple cb PRIM_DL_REL PRIM_OP_CONFIRM (lctx dl) dl w"

primrec lapd_state_num :: "lapd_state \<Rightarrow> nat" where
  "lapd_state_num LAPD_STATE_NULL = 0"
| "lapd_state_num LAPD_STATE_TEI_UNASS = 1"
| "lapd_state_num LAPD_STATE_ASS_TEI_WAIT = 2"
| "lapd_state_num LAPD_STATE_EST_TEI_WAIT = 3"
| "lapd_state_num LAPD_STATE_IDLE = 4"
| "lapd_state_num LAPD_STATE_SABM_SENT = 5"
| "lapd_state_num LAPD_STATE_DISC_SENT = 6"
| "lapd_state_num LAPD_STATE_MF_EST = 7"
| "lapd_state_num LAPD_STATE_TIMER_RECOV = 8"

definition state_bit :: "lapd_state \<Rightarrow> u32" where
  "state_bit s = push_bit (lapd_state_num s) 1"

type_synonym 'w l2_rout = "osmo_dlsap_prim \<Rightarrow> lapd_msg_ctx \<Rightarrow> 'w lapd_act"

definition l2downstatelist :: "'w lapd_cb \<Rightarrow> (u32 \<times> osmo_dl_prim \<times> osmo_prim_operation \<times> 'w l2_rout) list" where
  "l2downstatelist cb =
    [(0xffffffff, PRIM_DL_UNIT_DATA, PRIM_OP_REQUEST, lapd_udata_req cb),
     (state_bit LAPD_STATE_IDLE, PRIM_DL_EST, PRIM_OP_REQUEST, lapd_est_req cb),
     (state_bit LAPD_STATE_MF_EST OR state_bit LAPD_STATE_TIMER_RECOV, PRIM_DL_DATA, PRIM_OP_REQUEST, lapd_data_req cb),
     (state_bit LAPD_STATE_MF_EST OR state_bit LAPD_STATE_TIMER_RECOV, PRIM_DL_SUSP, PRIM_OP_REQUEST, lapd_susp_req cb),
     (state_bit LAPD_STATE_MF_EST OR state_bit LAPD_STATE_TIMER_RECOV, PRIM_DL_RES, PRIM_OP_REQUEST, lapd_res_req cb),
     (state_bit LAPD_STATE_IDLE OR state_bit LAPD_STATE_MF_EST OR state_bit LAPD_STATE_TIMER_RECOV, PRIM_DL_RECON, PRIM_OP_REQUEST, lapd_res_req cb),
     (state_bit LAPD_STATE_SABM_SENT OR state_bit LAPD_STATE_MF_EST OR state_bit LAPD_STATE_TIMER_RECOV OR state_bit LAPD_STATE_DISC_SENT,
        PRIM_DL_REL, PRIM_OP_REQUEST, lapd_rel_req cb),
     (state_bit LAPD_STATE_IDLE, PRIM_DL_REL, PRIM_OP_REQUEST, lapd_rel_req_idle cb)]"

text \<open>An unsupported primitive and one that is not handled in the state are both dropped with 0.\<close>

definition lapd_recv_dlsap :: "'w lapd_cb \<Rightarrow> 'w l2_rout" where
  "lapd_recv_dlsap cb dp ctx dl w =
     (case find (\<lambda>(states, prim, oper, _). primitive dp = prim \<and> operation dp = oper \<and> state_bit (dl_state dl) AND states \<noteq> 0) (l2downstatelist cb) of
        None \<Rightarrow> Some (0, dl, w)
      | Some (_, _, _, rout) \<Rightarrow> rout dp ctx dl w)"

end
