(* ===== verification/Lapd_Run.thy ===== *)
theory Lapd_Run
  imports Lapd
begin

text \<open>
  Runs of the LAPD data link of \<open>Lapd\<close>. The sequence number arithmetic of the source on powers of two; the invariant of a
  data link (sequence numbers in range, window kept, history large enough, the frame of a pending request stored); that every
  handler returns and keeps it, in particular that the loop that sends I frames and the loop that releases acknowledged frames
  end; and the machine of \<open>Machine\<close> with all events, interpreted for the ranges 128 (LAPD) and 8 (LAPDm).
\<close>

subsection \<open>Sequence numbers\<close>

text \<open>A range is a power of two below 256. On numbers below the range the modulo functions are, read as natural
  numbers, the successor, sum and difference with at most one correction by the range.\<close>

definition seq_range :: "u8 \<Rightarrow> bool" where
  "seq_range m \<longleftrightarrow> (\<exists>n<8. m = 2 ^ n)"

lemma unat_seq_range: "n < 8 \<Longrightarrow> unat (2 ^ n :: u8) = 2 ^ n"
proof -
  assume "n < 8"
  then have "(2::nat) ^ n < 2 ^ 8" by (intro power_strict_increasing) simp_all
  moreover have "unat (2 ^ n :: u8) = unat (of_nat (2 ^ n) :: u8)" by simp
  ultimately show ?thesis by (simp only: unsigned_of_nat take_bit_eq_mod) simp
qed

lemma mod_fns_nat:
  fixes m :: u8
  assumes "m = 2 ^ n" and "n < 8"
  shows "unat (do_mod x m) = unat x mod 2 ^ n" "unat (inc_mod x m) = (unat x + 1) mod 2 ^ n"
    "unat (add_mod x y m) = (unat x + unat y) mod 2 ^ n" "unat (sub_mod x y m) = (unat x + (256 - unat y)) mod 2 ^ n"
proof -
  have e: "z AND (m - 1) = take_bit n z" for z
    unfolding assms take_bit_eq_mask mask_eq_exp_minus_1 by simp
  have t: "unat (take_bit n z) = unat z mod 2 ^ n" for z :: u8
    by (simp only: unsigned_take_bit_eq) (simp only: take_bit_eq_mod)
  have d: "(2::nat) ^ n dvd 256" using assms(2) le_imp_power_dvd [of n 8 "2::nat"] by simp
  show "unat (do_mod x m) = unat x mod 2 ^ n" unfolding do_mod_def e t ..
  show "unat (inc_mod x m) = (unat x + 1) mod 2 ^ n" unfolding inc_mod_def e t
    by (simp add: unat_word_ariths mod_mod_cancel [OF d])
  show "unat (add_mod x y m) = (unat x + unat y) mod 2 ^ n" unfolding add_mod_def e t
    by (simp add: unat_word_ariths mod_mod_cancel [OF d])
  have "unat (x - y) = (unat x + (256 - unat y)) mod 256"
    using unsigned_less [of x, where 'a = nat] unsigned_less [of y, where 'a = nat]
    by (simp add: unat_sub_if' word_le_nat_alt mod_if)
  then show "unat (sub_mod x y m) = (unat x + (256 - unat y)) mod 2 ^ n" unfolding sub_mod_def e t
    by (simp only: mod_mod_cancel [OF d])
qed

lemma seq_range_fns:
  assumes "seq_range m"
  shows "unat (do_mod x m) < unat m"
    "x < m \<Longrightarrow> unat (inc_mod x m) = (if unat x + 1 = unat m then 0 else unat x + 1)"
    "x < m \<Longrightarrow> y < m \<Longrightarrow> unat (add_mod x y m) = (if unat x + unat y < unat m then unat x + unat y else unat x + unat y - unat m)"
    "x < m \<Longrightarrow> y < m \<Longrightarrow> unat (sub_mod x y m) = (if y \<le> x then unat x - unat y else unat x + unat m - unat y)"
proof -
  obtain n where n: "n < 8" "m = 2 ^ n" using assms by (auto simp: seq_range_def)
  define M :: nat where "M = 2 ^ n"
  have M: "unat m = M" "0 < M" using n by (simp_all add: M_def unat_seq_range)
  have d: "M dvd 256" using n(1) le_imp_power_dvd [of n 8 "2::nat"] by (simp add: M_def)
  note f = mod_fns_nat [OF n(2,1), folded M_def]
  show "unat (do_mod x m) < unat m" using M by (simp add: f)
  show "x < m \<Longrightarrow> unat (inc_mod x m) = (if unat x + 1 = unat m then 0 else unat x + 1)"
    using M by (auto simp: f word_less_nat_alt mod_Suc)
  show "x < m \<Longrightarrow> y < m \<Longrightarrow> unat (add_mod x y m) = (if unat x + unat y < unat m then unat x + unat y else unat x + unat y - unat m)"
    using M by (simp add: f word_less_nat_alt mod_if)
  show "unat (sub_mod x y m) = (if y \<le> x then unat x - unat y else unat x + unat m - unat y)" if xy: "x < m" "y < m"
  proof -
    obtain q where q: "256 = M * q" using d by (rule dvdE)
    have "0 < q" using q by (cases q) auto
    then obtain p where p: "q = Suc p" by (cases q) auto
    have 256: "256 = M * p + M" using q p by simp
    have y: "unat y < M" and x: "unat x < M" using xy M by (simp_all add: word_less_nat_alt)
    show ?thesis
    proof (cases "y \<le> x")
      case True
      then have "unat x + (256 - unat y) = (unat x - unat y) + M * q" using y 256 q by (simp add: word_le_nat_alt)
      then show ?thesis using True x by (simp add: f M)
    next
      case False
      then have "unat x + (256 - unat y) = (unat x + M - unat y) + M * p" using y 256 by (simp add: word_le_nat_alt)
      then have "unat (sub_mod x y m) = (unat x + M - unat y) mod M" by (simp only: f mod_mult_self2)
      then show ?thesis using False x y by (simp add: M word_le_nat_alt)
    qed
  qed
qed


lemma seq_range_less [simp]:
  assumes "seq_range m"
  shows "do_mod x m < m" "inc_mod x m < m" "add_mod x y m < m" "sub_mod x y m < m" "0 < m"
proof -
  obtain n where n: "n < 8" "m = 2 ^ n" using assms by (auto simp: seq_range_def)
  show "do_mod x m < m" "inc_mod x m < m" "add_mod x y m < m" "sub_mod x y m < m" "0 < m"
    unfolding word_less_nat_alt mod_fns_nat [OF n(2,1)] unfolding n(2) unat_seq_range [OF n(1)] by simp_all
qed

text \<open>The window: the distance of V(S) from V(A) grows by one with each frame sent below the limit, and does not grow
  when a valid N(R) is acknowledged.\<close>

lemma window_step:
  assumes "seq_range m" "s < m" "a < m" "k < m" "sub_mod s a m \<le> k" "s \<noteq> add_mod a k m"
  shows "unat (sub_mod (inc_mod s m) a m) = unat (sub_mod s a m) + 1 \<and> sub_mod (inc_mod s m) a m \<le> k"
proof -
  note r = seq_range_fns [OF assms(1)]
  have "unat s \<noteq> unat (add_mod a k m)" using assms(6) by (simp add: word_unat_eq_iff)
  then show ?thesis using assms(2-5)
    unfolding word_le_nat_alt r(3) [OF assms(3,4)] r(4) [OF assms(2,3)] r(4) [OF seq_range_less(2) [OF assms(1)] assms(3)] r(2) [OF assms(2)] word_less_nat_alt
    by (auto split: if_splits)
qed

lemma window_ack:
  assumes "seq_range m" "s < m" "a < m" "r < m" "sub_mod r a m \<le> sub_mod s a m"
  shows "sub_mod s r m \<le> sub_mod s a m"
  using assms(2-5)
  unfolding word_le_nat_alt seq_range_fns(4) [OF assms(1,4,3)] seq_range_fns(4) [OF assms(1,2,3)] seq_range_fns(4) [OF assms(1,2,4)] word_less_nat_alt
  by (auto split: if_splits)

lemma window_self: "seq_range m \<Longrightarrow> a < m \<Longrightarrow> sub_mod a a m = 0"
  by (simp add: word_unat_eq_iff seq_range_fns(4))

text \<open>Walking from \<open>i\<close> to \<open>r\<close> by \<open>inc_mod\<close> comes one closer with each step.\<close>

lemma distance_step:
  assumes "seq_range m" "i < m" "r < m" "i \<noteq> r"
  shows "unat (sub_mod r i m) = Suc (unat (sub_mod r (inc_mod i m) m))"
  using assms(2-4)
  unfolding seq_range_fns(4) [OF assms(1,3,2)] seq_range_fns(4) [OF assms(1,3) seq_range_less(2) [OF assms(1)]] word_less_nat_alt word_le_nat_alt seq_range_fns(2) [OF assms(1,2)] word_unat_eq_iff
  by (auto split: if_splits)

subsection \<open>Events and invariant\<close>

text \<open>The environment records what the data link hands to layer 3 and to layer 1, and does not call back into it.\<close>

datatype lapd_out = To_L3 osmo_dlsap_prim | To_L1 lapd_msg_ctx msg

definition rec_cb :: "lapd_out list lapd_cb" where
  "rec_cb = \<lparr>send_dlsap = (\<lambda>dp ctx dl w. Some (0, dl, w @ [To_L3 dp])), send_ph_data_req = (\<lambda>ctx m dl w. Some (0, dl, w @ [To_L1 ctx m])),
     update_pending_frames = None\<rparr>"

text \<open>What stays the same during a run: the range of sequence numbers, the C/R bit of responses of the peer, and the length of the
  information in SABM frames.\<close>

record lapd_cfg =
  cfg_range :: u8
  cfg_resp :: u8
  cfg_len :: int

definition lapd_base :: "lapd_cfg \<Rightarrow> lapd_datalink \<Rightarrow> bool" where
  "lapd_base c dl \<longleftrightarrow> v_range dl = cfg_range c \<and> seq_range (cfg_range c) \<and> seq_range (range_hist dl) \<and> resp (rem2loc dl) = cfg_resp c
     \<and> win_k dl < cfg_range c \<and> win_k dl < range_hist dl \<and> length (tx_hist dl) = unat (range_hist dl)
     \<and> v_send dl < cfg_range c \<and> v_ack dl < cfg_range c \<and> v_recv dl < cfg_range c \<and> 0 \<le> n201 (lctx dl)
     \<and> (\<forall>b. send_buffer dl = Some b \<longrightarrow> send_out dl \<le> length b) \<and> (\<forall>x. cont_res dl = Some x \<longrightarrow> int (length x) = cfg_len c)"

definition lapd_inv :: "lapd_cfg \<Rightarrow> lapd_datalink \<Rightarrow> bool" where
  "lapd_inv c dl \<longleftrightarrow> lapd_base c dl
     \<and> dl_state dl \<in> {LAPD_STATE_IDLE, LAPD_STATE_SABM_SENT, LAPD_STATE_DISC_SENT, LAPD_STATE_MF_EST, LAPD_STATE_TIMER_RECOV}
     \<and> (dl_state dl = LAPD_STATE_MF_EST \<longrightarrow> sub_mod (v_send dl) (v_ack dl) (cfg_range c) \<le> win_k dl)
     \<and> (dl_state dl = LAPD_STATE_SABM_SENT \<or> dl_state dl = LAPD_STATE_DISC_SENT \<longrightarrow> v_send dl = 0 \<and> hmsg (tx_hist dl ! 0) \<noteq> None)"

abbreviation transfer_state :: "lapd_datalink \<Rightarrow> bool" where
  "transfer_state dl \<equiv> dl_state dl = LAPD_STATE_MF_EST \<or> dl_state dl = LAPD_STATE_TIMER_RECOV"

lemma lapd_base_hist: "lapd_base c dl \<Longrightarrow> unat (do_mod i (range_hist dl)) < length (tx_hist dl)"
  by (simp add: lapd_base_def seq_range_fns)

lemma lapd_base_tx_hist: "lapd_base c dl \<Longrightarrow> length hs = length (tx_hist dl) \<Longrightarrow> lapd_base c (dl\<lparr>tx_hist := hs\<rparr>)"
  by (simp add: lapd_base_def)

text \<open>The loop over the acknowledged frames ends and only releases messages of the history.\<close>

lemma flush_acked_returns:
  assumes "lapd_base c dl" and "i < v_range dl" and "nr < v_range dl"
  shows "\<exists>hs. length hs = length (tx_hist dl) \<and> flush_acked i nr dl = Some (dl\<lparr>tx_hist := hs\<rparr>)"
  using assms
proof (induction "unat (sub_mod nr i (v_range dl))" arbitrary: i dl rule: less_induct)
  case less
  show ?case
  proof (cases "i = nr")
    case True
    then show ?thesis by (intro exI [of _ "tx_hist dl"]) (simp add: flush_acked.simps)
  next
    case False
    let ?h = "unat (do_mod i (range_hist dl))"
    let ?hs = "(tx_hist dl)[?h := (tx_hist dl ! ?h)\<lparr>hmsg := None\<rparr>]"
    let ?dl = "dl\<lparr>tx_hist := ?hs\<rparr>"
    have s: "seq_range (v_range dl)" using less(2) by (simp add: lapd_base_def)
    have "lapd_base c ?dl" using less(2) by (rule lapd_base_tx_hist) simp
    moreover have "unat (sub_mod nr (inc_mod i (v_range dl)) (v_range ?dl)) < unat (sub_mod nr i (v_range dl))"
      using distance_step [OF s less(3,4) False] by simp
    moreover have "inc_mod i (v_range dl) < v_range ?dl" "nr < v_range ?dl" using s less(4) by simp_all
    ultimately obtain hs where "length hs = length ?hs" "flush_acked (inc_mod i (v_range dl)) nr ?dl = Some (?dl\<lparr>tx_hist := hs\<rparr>)"
      using less(1) [of "inc_mod i (v_range dl)" ?dl] by auto
    moreover have "flush_acked i nr dl = flush_acked (inc_mod i (v_range dl)) nr ?dl"
      using False lapd_base_hist [OF less(2)] by (subst flush_acked.simps) (simp add: rd_def)
    ultimately show ?thesis by (intro exI [of _ hs]) simp
  qed
qed

text \<open>The operations on timers and states as updates of single fields.\<close>

lemma lapd_updates:
  "lapd_start_t200 dl = dl\<lparr>t200_rts := (if rts_flag dl \<and> t200_rts dl = LAPD_T200_RTS_OFF then LAPD_T200_RTS_PENDING else t200_rts dl), t200 := (t200 dl \<or> \<not> rts_flag dl)\<rparr>"
  "lapd_stop_t200 dl = dl\<lparr>t200_rts := (if rts_flag dl then LAPD_T200_RTS_OFF else t200_rts dl), t200 := (t200 dl \<and> rts_flag dl)\<rparr>"
  "lapd_start_t203 dl = dl\<lparr>t203 := True\<rparr>" "lapd_stop_t203 dl = dl\<lparr>t203 := False\<rparr>"
  "lapd_dl_newstate dl st = dl\<lparr>
     t203 := (if (t203_sec dl \<noteq> 0 \<or> t203_usec dl \<noteq> 0) \<and> st = LAPD_STATE_MF_EST \<and> dl_state dl \<noteq> LAPD_STATE_MF_EST then True
       else if st \<noteq> LAPD_STATE_MF_EST \<and> dl_state dl = LAPD_STATE_MF_EST then False else t203 dl),
     cont_res := (if st \<noteq> LAPD_STATE_MF_EST \<and> dl_state dl = LAPD_STATE_MF_EST then None else cont_res dl), dl_state := st\<rparr>"
  by (auto simp: lapd_start_t200_def lapd_stop_t200_def lapd_start_t203_def lapd_stop_t203_def lapd_dl_newstate_def Let_def)

lemma lapd_inv_irrelevant [simp]:
  "lapd_inv c (dl\<lparr>t200 := a\<rparr>) = lapd_inv c dl" "lapd_inv c (dl\<lparr>t200_rts := b\<rparr>) = lapd_inv c dl" "lapd_inv c (dl\<lparr>t203 := a\<rparr>) = lapd_inv c dl"
  "lapd_inv c (dl\<lparr>seq_err_cond := i\<rparr>) = lapd_inv c dl" "lapd_inv c (dl\<lparr>own_busy := u\<rparr>) = lapd_inv c dl" "lapd_inv c (dl\<lparr>peer_busy := u\<rparr>) = lapd_inv c dl"
  "lapd_inv c (dl\<lparr>retrans_ctr := u\<rparr>) = lapd_inv c dl" "lapd_inv c (dl\<lparr>tx_queue := q\<rparr>) = lapd_inv c dl" "lapd_inv c (dl\<lparr>send_queue := q\<rparr>) = lapd_inv c dl"
  "lapd_inv c (dl\<lparr>rcv_buffer := m\<rparr>) = lapd_inv c dl" "lapd_inv c (dl\<lparr>lapd_flags := f\<rparr>) = lapd_inv c dl"
  by (simp_all add: lapd_inv_def lapd_base_def)

lemma timer_fields [simp]:
  "dl_state (lapd_start_t200 dl) = dl_state dl" "v_send (lapd_start_t200 dl) = v_send dl" "v_ack (lapd_start_t200 dl) = v_ack dl" "v_recv (lapd_start_t200 dl) = v_recv dl" "v_range (lapd_start_t200 dl) = v_range dl" "win_k (lapd_start_t200 dl) = win_k dl" "range_hist (lapd_start_t200 dl) = range_hist dl" "tx_hist (lapd_start_t200 dl) = tx_hist dl" "rem2loc (lapd_start_t200 dl) = rem2loc dl" "loc2rem (lapd_start_t200 dl) = loc2rem dl" "cont_res (lapd_start_t200 dl) = cont_res dl" "lctx (lapd_start_t200 dl) = lctx dl" "send_buffer (lapd_start_t200 dl) = send_buffer dl" "send_out (lapd_start_t200 dl) = send_out dl" "reestablish (lapd_start_t200 dl) = reestablish dl" "own_busy (lapd_start_t200 dl) = own_busy dl" "peer_busy (lapd_start_t200 dl) = peer_busy dl" "seq_err_cond (lapd_start_t200 dl) = seq_err_cond dl" "lapd_inv c (lapd_start_t200 dl) = lapd_inv c dl"
  "dl_state (lapd_stop_t200 dl) = dl_state dl" "v_send (lapd_stop_t200 dl) = v_send dl" "v_ack (lapd_stop_t200 dl) = v_ack dl" "v_recv (lapd_stop_t200 dl) = v_recv dl" "v_range (lapd_stop_t200 dl) = v_range dl" "win_k (lapd_stop_t200 dl) = win_k dl" "range_hist (lapd_stop_t200 dl) = range_hist dl" "tx_hist (lapd_stop_t200 dl) = tx_hist dl" "rem2loc (lapd_stop_t200 dl) = rem2loc dl" "loc2rem (lapd_stop_t200 dl) = loc2rem dl" "cont_res (lapd_stop_t200 dl) = cont_res dl" "lctx (lapd_stop_t200 dl) = lctx dl" "send_buffer (lapd_stop_t200 dl) = send_buffer dl" "send_out (lapd_stop_t200 dl) = send_out dl" "reestablish (lapd_stop_t200 dl) = reestablish dl" "own_busy (lapd_stop_t200 dl) = own_busy dl" "peer_busy (lapd_stop_t200 dl) = peer_busy dl" "seq_err_cond (lapd_stop_t200 dl) = seq_err_cond dl" "lapd_inv c (lapd_stop_t200 dl) = lapd_inv c dl"
  "dl_state (lapd_start_t203 dl) = dl_state dl" "v_send (lapd_start_t203 dl) = v_send dl" "v_ack (lapd_start_t203 dl) = v_ack dl" "v_recv (lapd_start_t203 dl) = v_recv dl" "v_range (lapd_start_t203 dl) = v_range dl" "win_k (lapd_start_t203 dl) = win_k dl" "range_hist (lapd_start_t203 dl) = range_hist dl" "tx_hist (lapd_start_t203 dl) = tx_hist dl" "rem2loc (lapd_start_t203 dl) = rem2loc dl" "loc2rem (lapd_start_t203 dl) = loc2rem dl" "cont_res (lapd_start_t203 dl) = cont_res dl" "lctx (lapd_start_t203 dl) = lctx dl" "send_buffer (lapd_start_t203 dl) = send_buffer dl" "send_out (lapd_start_t203 dl) = send_out dl" "reestablish (lapd_start_t203 dl) = reestablish dl" "own_busy (lapd_start_t203 dl) = own_busy dl" "peer_busy (lapd_start_t203 dl) = peer_busy dl" "seq_err_cond (lapd_start_t203 dl) = seq_err_cond dl" "lapd_inv c (lapd_start_t203 dl) = lapd_inv c dl"
  "dl_state (lapd_stop_t203 dl) = dl_state dl" "v_send (lapd_stop_t203 dl) = v_send dl" "v_ack (lapd_stop_t203 dl) = v_ack dl" "v_recv (lapd_stop_t203 dl) = v_recv dl" "v_range (lapd_stop_t203 dl) = v_range dl" "win_k (lapd_stop_t203 dl) = win_k dl" "range_hist (lapd_stop_t203 dl) = range_hist dl" "tx_hist (lapd_stop_t203 dl) = tx_hist dl" "rem2loc (lapd_stop_t203 dl) = rem2loc dl" "loc2rem (lapd_stop_t203 dl) = loc2rem dl" "cont_res (lapd_stop_t203 dl) = cont_res dl" "lctx (lapd_stop_t203 dl) = lctx dl" "send_buffer (lapd_stop_t203 dl) = send_buffer dl" "send_out (lapd_stop_t203 dl) = send_out dl" "reestablish (lapd_stop_t203 dl) = reestablish dl" "own_busy (lapd_stop_t203 dl) = own_busy dl" "peer_busy (lapd_stop_t203 dl) = peer_busy dl" "seq_err_cond (lapd_stop_t203 dl) = seq_err_cond dl" "lapd_inv c (lapd_stop_t203 dl) = lapd_inv c dl"
  by (simp_all add: lapd_updates)

lemma lapd_inv_ack:
  assumes "lapd_inv c dl" "transfer_state dl" "length hs = length (tx_hist dl)" "a < cfg_range c"
    and "dl_state dl = LAPD_STATE_MF_EST \<Longrightarrow> sub_mod (v_send dl) a (cfg_range c) \<le> win_k dl"
  shows "lapd_inv c (dl\<lparr>tx_hist := hs, v_ack := a\<rparr>)"
  using assms by (auto simp: lapd_inv_def lapd_base_def)

lemma ack_timers_returns:
  assumes "lapd_inv c dl"
  shows "\<exists>dl'. ack_timers restart dl = Some (0, dl') \<and> lapd_inv c dl' \<and> dl_state dl' = dl_state dl \<and> rem2loc dl' = rem2loc dl \<and> v_ack dl' = v_ack dl"
proof -
  have "unat (sub_mod (v_send dl) 1 (range_hist dl)) < length (tx_hist dl)"
    using assms seq_range_less(4) [of "range_hist dl"] by (simp add: lapd_inv_def lapd_base_def word_less_nat_alt)
  with assms show ?thesis by (simp add: ack_timers_def rd_Some Let_def)
qed

lemma lapd_acknowledge_returns:
  assumes "lapd_inv c dl" and "transfer_state dl" and "n_recv ctx < cfg_range c"
  shows "\<exists>rc dl'. lapd_acknowledge ctx dl = Some (rc, dl') \<and> lapd_inv c dl' \<and> dl_state dl' = dl_state dl \<and> rem2loc dl' = rem2loc dl
    \<and> (dl_state dl = LAPD_STATE_TIMER_RECOV \<longrightarrow> v_ack dl' = n_recv ctx)"
proof -
  have b: "lapd_base c dl" using assms(1) by (simp add: lapd_inv_def)
  then have sr: "seq_range (cfg_range c)" and vr: "v_range dl = cfg_range c" and v: "v_send dl < cfg_range c" "v_ack dl < cfg_range c"
    by (simp_all add: lapd_base_def)
  obtain hs where hs: "length hs = length (tx_hist dl)" "flush_acked (v_ack dl) (n_recv ctx) dl = Some (dl\<lparr>tx_hist := hs\<rparr>)"
    using flush_acked_returns [OF b, of "v_ack dl" "n_recv ctx"] assms(3) v vr by auto
  have w: "sub_mod (v_send dl) (n_recv ctx) (cfg_range c) \<le> win_k dl"
    if "dl_state dl = LAPD_STATE_MF_EST" "\<not> sub_mod (v_send dl) (v_ack dl) (cfg_range c) < sub_mod (n_recv ctx) (v_ack dl) (cfg_range c)"
    using that window_ack [OF sr v assms(3)] assms(1) vr by (auto simp: lapd_inv_def not_less)
  have i: "lapd_inv c (dl\<lparr>tx_hist := hs\<rparr>)"
    using lapd_inv_ack [OF assms(1,2) hs(1) v(2)] assms(1) vr by (simp add: lapd_inv_def)
  note ia = lapd_inv_ack [OF assms(1,2) hs(1) assms(3)]
  show ?thesis
  proof (cases "dl_state dl \<noteq> LAPD_STATE_TIMER_RECOV \<and> sub_mod (v_send dl) (v_ack dl) (cfg_range c) < sub_mod (n_recv ctx) (v_ack dl) (cfg_range c)")
    case True
    then show ?thesis using i by (simp add: lapd_acknowledge_def Let_def hs vr)
  next
    case False
    then have d: "lapd_inv c (dl\<lparr>tx_hist := hs, v_ack := n_recv ctx\<rparr>)" using w by (intro ia) simp
    then have s: "lapd_inv c ((lapd_stop_t200 (dl\<lparr>tx_hist := hs\<rparr>))\<lparr>v_ack := n_recv ctx\<rparr>)" by (simp add: lapd_inv_def lapd_base_def)
    define rej where "rej \<longleftrightarrow> format ctx = LAPD_FORM_S \<and> s_u ctx = LAPD_S_REJ"
    define reset where "reset \<longleftrightarrow> dl_state dl \<noteq> LAPD_STATE_TIMER_RECOV \<and> (\<not> rej \<and> n_recv ctx \<noteq> v_ack dl \<or> rej \<and> n_recv ctx = v_ack dl)"
    define x where "x = (if reset then lapd_stop_t200 (dl\<lparr>tx_hist := hs\<rparr>) else dl\<lparr>tx_hist := hs\<rparr>)"
    have e: "lapd_acknowledge ctx dl = ack_timers (reset \<and> \<not> rej) (x\<lparr>v_ack := n_recv ctx\<rparr>)"
      using False unfolding lapd_acknowledge_def Let_def hs(2) bind.bind_lunit rej_def [symmetric]
      by (simp add: reset_def [symmetric] x_def [symmetric]) (auto simp: x_def vr)
    have "lapd_inv c (x\<lparr>v_ack := n_recv ctx\<rparr>)" "dl_state x = dl_state dl" "rem2loc x = rem2loc dl" using s d by (simp_all add: x_def)
    with ack_timers_returns [of c "x\<lparr>v_ack := n_recv ctx\<rparr>" "reset \<and> \<not> rej"] show ?thesis unfolding e by auto
  qed
qed

subsection \<open>Sending\<close>

text \<open>The next frame is found without error; the state and the sequence numbers do not change.\<close>

definition lapd_core :: "lapd_datalink \<Rightarrow> lapd_state \<times> u8 \<times> u8 \<times> u8 \<times> lapd_cr_ent" where
  "lapd_core dl = (dl_state dl, v_send dl, v_ack dl, win_k dl, rem2loc dl)"

lemma fill_send_buffer_base:
  assumes "lapd_base c dl"
  shows "lapd_base c (fill_send_buffer dl) \<and> lapd_core (fill_send_buffer dl) = lapd_core dl \<and> tx_hist (fill_send_buffer dl) = tx_hist dl"
  using assms unfolding fill_send_buffer_def Let_def
  by (auto simp: lapd_base_def lapd_core_def split: option.splits prod.splits)

lemma next_i_frame_returns:
  assumes "lapd_base c dl"
  shows "\<exists>f dl'. next_i_frame dl = Some (f, dl') \<and> lapd_base c dl' \<and> lapd_core dl' = lapd_core dl"
proof -
  let ?h = "unat (do_mod (v_send dl) (range_hist dl))"
  have h: "?h < length (tx_hist dl)" using assms by (rule lapd_base_hist)
  obtain d where d: "fill_send_buffer dl = d" "lapd_base c d" "lapd_core d = lapd_core dl" "tx_hist d = tx_hist dl"
    using fill_send_buffer_base [OF assms] by blast
  show ?thesis
  proof (cases "hmsg (tx_hist dl ! ?h)")
    case None
    show ?thesis
    proof (cases "send_buffer d")
      case None
      with \<open>hmsg _ = None\<close> show ?thesis using h d by (simp add: next_i_frame_def rd_Some Let_def)
    next
      case (Some b)
      have sb: "send_out d \<le> length b" and n: "0 \<le> n201 (lctx d)" using d Some by (simp_all add: lapd_base_def)
      have l: "send_out d + nat (n201 (lctx d)) \<le> length b" if "n201 (lctx d) < int (length b) - int (send_out d)" using that n by linarith
      have l': "send_out d + nat (int (length b) - int (send_out d)) \<le> length b" using sb by linarith
      show ?thesis using None Some h d sb n l l'
        by (simp add: next_i_frame_def rd_Some Let_def octets_of_def msg_to_tx_hist_def wr_def lapd_base_def lapd_core_def)
    qed
  next
    case (Some m)
    then show ?thesis using h assms by (simp add: next_i_frame_def rd_Some Let_def)
  qed
qed

text \<open>The loop ends: each round opens the distance of V(S) from V(A) by one, up to the window.\<close>

lemma rec_cb_calls [simp]:
  "send_dlsap rec_cb dp ctx dl w = Some (0, dl, w @ [To_L3 dp])" "send_ph_data_req rec_cb ctx m dl w = Some (0, dl, w @ [To_L1 ctx m])"
  "update_pending_frames rec_cb = None"
  by (simp_all add: rec_cb_def)

lemma send_i_loop_returns:
  assumes "lapd_inv c dl" "transfer_state dl"
  shows "\<exists>rc' dl' w'. send_i_loop rec_cb rc dl w = Some (rc', dl', w') \<and> lapd_inv c dl' \<and> dl_state dl' = dl_state dl"
  using assms
proof (induction "unat (win_k dl) - unat (sub_mod (v_send dl) (v_ack dl) (cfg_range c))" arbitrary: rc dl w rule: less_induct)
  case less
  have b: "lapd_base c dl" using less(2) by (simp add: lapd_inv_def)
  then have sr: "seq_range (cfg_range c)" and v: "v_send dl < cfg_range c" "v_ack dl < cfg_range c" "win_k dl < cfg_range c" and vr: "v_range dl = cfg_range c"
    by (simp_all add: lapd_base_def)
  obtain f d where d: "next_i_frame dl = Some (f, d)" "lapd_base c d" "lapd_core d = lapd_core dl" using next_i_frame_returns [OF b] by blast
  have vd: "v_range d = cfg_range c" using d(2) by (simp add: lapd_base_def)
  have core: "dl_state d = dl_state dl" "v_send d = v_send dl" "v_ack d = v_ack dl" "win_k d = win_k dl" using d(3) by (simp_all add: lapd_core_def)
  show ?case
  proof (cases "peer_busy dl \<noteq> 0 \<or> dl_state dl = LAPD_STATE_TIMER_RECOV \<or> v_send dl = add_mod (v_ack dl) (win_k dl) (cfg_range c)")
    case True
    then show ?thesis using less(2) vr by (subst send_i_loop.simps) auto
  next
    case False
    then have st: "dl_state dl = LAPD_STATE_MF_EST" using less(3) by simp
    then have w: "sub_mod (v_send dl) (v_ack dl) (cfg_range c) \<le> win_k dl" using less(2) by (simp add: lapd_inv_def)
    note ws = window_step [OF sr v w]
    show ?thesis
    proof (cases f)
      case None
      have "lapd_inv c d" using d(2) core st w by (simp add: lapd_inv_def)
      with None False vr d(1) core show ?thesis by (subst send_i_loop.simps) simp
    next
      case (Some nm)
      define d1 where "d1 = d\<lparr>v_send := inc_mod (v_send d) (v_range d)\<rparr>"
      define d2 where "d2 = (if \<not> lapd_is_t200_started d1 then lapd_start_t200 (lapd_stop_t203 d1) else d1)"
      have "lapd_inv c d1" using d(2) core st ws False sr by (simp add: d1_def lapd_inv_def lapd_base_def)
      then have i2: "lapd_inv c d2" by (simp add: d2_def)
      have c2: "dl_state d2 = LAPD_STATE_MF_EST" "win_k d2 = win_k dl" "v_ack d2 = v_ack dl" "v_send d2 = inc_mod (v_send dl) (cfg_range c)"
        using core st by (simp_all add: d2_def d1_def vd)
      have "unat (win_k d2) - unat (sub_mod (v_send d2) (v_ack d2) (cfg_range c)) < unat (win_k dl) - unat (sub_mod (v_send dl) (v_ack dl) (cfg_range c))"
        using ws False by (auto simp: c2 word_le_nat_alt)
      note ih = less(1) [OF this i2 disjI1 [OF c2(1)]]
      have e: "send_i_loop rec_cb rc dl w = (if rts_flag d2 then Some (0, d2, w @ [To_L1 (fst nm) (snd nm)]) else send_i_loop rec_cb 0 d2 (w @ [To_L1 (fst nm) (snd nm)]))"
        using False vr d(1) Some by (subst send_i_loop.simps) (simp add: Let_def case_prod_beta d1_def [symmetric] d2_def)
      show ?thesis unfolding e using ih [of 0 "w @ [To_L1 (fst nm) (snd nm)]"] i2 c2(1) st by simp
    qed
  qed
qed

lemma lapd_send_i_returns:
  assumes "lapd_inv c dl" "transfer_state dl"
  shows "\<exists>rc dl' w'. lapd_send_i rec_cb dl w = Some (rc, dl', w') \<and> lapd_inv c dl' \<and> dl_state dl' = dl_state dl"
  using send_i_loop_returns [OF assms] assms by (auto simp: lapd_send_i_def)

subsection \<open>Handlers\<close>

definition returns :: "(lapd_datalink \<Rightarrow> bool) \<Rightarrow> (int \<times> lapd_datalink \<times> 'w) res \<Rightarrow> bool" where
  "returns P x \<longleftrightarrow> (\<exists>rc dl w. x = Some (rc, dl, w) \<and> P dl)"

lemma returns_Some [simp]: "returns P (Some (rc, dl, w)) \<longleftrightarrow> P dl"
  by (simp add: returns_def)

lemma returns_bind: "returns Q x \<Longrightarrow> (\<And>rc dl w. Q dl \<Longrightarrow> returns P (f (rc, dl, w))) \<Longrightarrow> returns P (Option.bind x f)"
  by (auto simp: returns_def)

lemma returns_ignore: "returns P x \<Longrightarrow> returns P (do { (rc, dl, w) \<leftarrow> x; Some (g rc, dl, w) })"
  by (auto simp: returns_def)

lemma lapd_base_irrelevant [simp]:
  "lapd_base c (dl\<lparr>t200 := a\<rparr>) = lapd_base c dl" "lapd_base c (dl\<lparr>t200_rts := b\<rparr>) = lapd_base c dl" "lapd_base c (dl\<lparr>t203 := a\<rparr>) = lapd_base c dl"
  "lapd_base c (dl\<lparr>seq_err_cond := i\<rparr>) = lapd_base c dl" "lapd_base c (dl\<lparr>own_busy := u\<rparr>) = lapd_base c dl" "lapd_base c (dl\<lparr>peer_busy := u\<rparr>) = lapd_base c dl"
  "lapd_base c (dl\<lparr>retrans_ctr := u\<rparr>) = lapd_base c dl" "lapd_base c (dl\<lparr>tx_queue := q\<rparr>) = lapd_base c dl" "lapd_base c (dl\<lparr>send_queue := q\<rparr>) = lapd_base c dl"
  "lapd_base c (dl\<lparr>rcv_buffer := m\<rparr>) = lapd_base c dl" "lapd_base c (dl\<lparr>dl_state := st\<rparr>) = lapd_base c dl"
  by (simp_all add: lapd_base_def)

lemma flush_hist_fields [simp]:
  "dl_state (lapd_dl_flush_hist dl) = dl_state dl" "rem2loc (lapd_dl_flush_hist dl) = rem2loc dl" "loc2rem (lapd_dl_flush_hist dl) = loc2rem dl"
  "lctx (lapd_dl_flush_hist dl) = lctx dl" "v_send (lapd_dl_flush_hist dl) = v_send dl" "v_ack (lapd_dl_flush_hist dl) = v_ack dl"
  "v_range (lapd_dl_flush_hist dl) = v_range dl" "win_k (lapd_dl_flush_hist dl) = win_k dl" "length (tx_hist (lapd_dl_flush_hist dl)) = length (tx_hist dl)"
  "dl_mode (lapd_dl_flush_hist dl) = dl_mode dl" "lapd_base c (lapd_dl_flush_hist dl) = lapd_base c dl"
  by (auto simp: lapd_dl_flush_hist_def lapd_base_def)

lemma flush_fields [simp]:
  "lapd_base c (lapd_dl_flush_send dl) = lapd_base c (dl\<lparr>send_buffer := None\<rparr>)" "lapd_base c (lapd_dl_flush_tx_queue dl) = lapd_base c dl"
  "lapd_base c (lapd_dl_flush_tx dl) = lapd_base c dl" "dl_state (lapd_dl_flush_send dl) = dl_state dl" "dl_state (lapd_dl_flush_tx_queue dl) = dl_state dl"
  "dl_state (lapd_dl_flush_tx dl) = dl_state dl" "rem2loc (lapd_dl_flush_send dl) = rem2loc dl" "rem2loc (lapd_dl_flush_tx dl) = rem2loc dl"
  by (simp add: lapd_dl_flush_send_def lapd_base_def) (simp_all add: lapd_dl_flush_send_def lapd_dl_flush_tx_queue_def lapd_dl_flush_tx_def)

lemma lapd_base_send_buffer: "lapd_base c dl \<Longrightarrow> lapd_base c (dl\<lparr>send_buffer := None\<rparr>)"
  by (simp add: lapd_base_def)

lemma timer_base [simp]:
  "lapd_base c (lapd_start_t200 dl) = lapd_base c dl" "lapd_base c (lapd_stop_t200 dl) = lapd_base c dl"
  "lapd_base c (lapd_start_t203 dl) = lapd_base c dl" "lapd_base c (lapd_stop_t203 dl) = lapd_base c dl"
  by (simp_all add: lapd_updates)

lemma lapd_base_newstate [simp]: "lapd_base c dl \<Longrightarrow> lapd_base c (lapd_dl_newstate dl st)"
  by (auto simp: lapd_updates lapd_base_def)

lemma lapd_inv_base: "lapd_inv c dl \<Longrightarrow> lapd_base c dl"
  by (simp add: lapd_inv_def)

lemma dl_state_newstate [simp]: "dl_state (lapd_dl_newstate dl st) = st"
  by (simp add: lapd_updates)

lemma lapd_inv_idle: "lapd_base c dl \<Longrightarrow> lapd_inv c (lapd_dl_newstate dl LAPD_STATE_IDLE)"
  by (simp add: lapd_inv_def)

lemma lapd_inv_recov: "lapd_base c dl \<Longrightarrow> lapd_inv c (lapd_dl_newstate dl LAPD_STATE_TIMER_RECOV)"
  by (simp add: lapd_inv_def)

lemma lapd_calls [simp]:
  "mdl_error rec_cb cause ctx = (\<lambda>dl w. Some (0, dl, w @ [To_L3 \<lparr>primitive = PRIM_MDL_ERROR, operation = PRIM_OP_INDICATION, param = cause, pmsg = None\<rparr>]))"
  "send_dl_simple rec_cb prim oper ctx = (\<lambda>dl w. Some (0, dl, w @ [To_L3 \<lparr>primitive = prim, operation = oper, param = 0, pmsg = None\<rparr>]))"
  "send_dl_l3 rec_cb prim oper ctx mo = (\<lambda>dl w. Some (0, dl, w @ [To_L3 \<lparr>primitive = prim, operation = oper, param = 0, pmsg = mo\<rparr>]))"
  "lapd_send_dm rec_cb ctx = (\<lambda>dl w. Some (0, dl, w @ [To_L1 (ctx\<lparr>c_r := resp (loc2rem dl), format := LAPD_FORM_U, s_u := LAPD_U_DM, length_ind := 0, m_bit := 0\<rparr>) []]))"
  "lapd_send_rr rec_cb ctx f cm = (\<lambda>dl w. Some (0, dl, w @ [To_L1 (ctx\<lparr>c_r := (if cm \<noteq> 0 then cmd (loc2rem dl) else resp (loc2rem dl)), format := LAPD_FORM_S, s_u := LAPD_S_RR,
     p_f := f, n_recv := v_recv dl, length_ind := 0, m_bit := 0\<rparr>) []]))"
  "lapd_send_rnr rec_cb ctx f cm = (\<lambda>dl w. Some (0, dl, w @ [To_L1 (ctx\<lparr>c_r := (if cm \<noteq> 0 then cmd (loc2rem dl) else resp (loc2rem dl)), format := LAPD_FORM_S, s_u := LAPD_S_RNR,
     p_f := f, n_recv := v_recv dl, length_ind := 0, m_bit := 0\<rparr>) []]))"
  "lapd_send_rej rec_cb ctx f = (\<lambda>dl w. Some (0, dl, w @ [To_L1 (ctx\<lparr>c_r := resp (loc2rem dl), format := LAPD_FORM_S, s_u := LAPD_S_REJ,
     p_f := f, n_recv := v_recv dl, length_ind := 0, m_bit := 0\<rparr>) []]))"
  by (simp_all add: fun_eq_iff mdl_error_def send_dl_simple_def send_dl_l3_def lapd_send_dm_def lapd_send_rr_def lapd_send_rnr_def lapd_send_rej_def)

lemma msg_to_tx_hist0_returns:
  assumes "lapd_base c dl"
  shows "msg_to_tx_hist0 m dl = Some (dl\<lparr>tx_hist := (tx_hist dl)[0 := \<lparr>hmsg = Some m, hmore = 0\<rparr>]\<rparr>)"
proof -
  have "0 < length (tx_hist dl)" using assms seq_range_less(5) [of "range_hist dl"] by (simp add: lapd_base_def word_less_nat_alt)
  then show ?thesis by (simp add: msg_to_tx_hist0_def msg_to_tx_hist_def wr_def)
qed

lemma lapd_inv_request:
  assumes "lapd_base c dl" "st = LAPD_STATE_SABM_SENT \<or> st = LAPD_STATE_DISC_SENT"
  shows "lapd_inv c (lapd_dl_newstate (dl\<lparr>tx_hist := (tx_hist dl)[0 := \<lparr>hmsg = Some m, hmore = 0\<rparr>], v_send := 0, own_busy := 0, peer_busy := 0, retrans_ctr := 0\<rparr>) st)"
proof -
  have "tx_hist dl \<noteq> []" "0 < cfg_range c" using assms(1) seq_range_less(5) [of "range_hist dl"] by (auto simp: lapd_base_def word_less_nat_alt)
  moreover then obtain h hs where "tx_hist dl = h # hs" by (cases "tx_hist dl") auto
  ultimately show ?thesis using assms by (auto simp: lapd_inv_def lapd_base_def lapd_updates)
qed

lemma lapd_est_req_returns:
  assumes "lapd_base c dl" "pmsg dp \<noteq> None" "0 \<le> n201 ctx"
  shows "returns (lapd_inv c) (lapd_est_req rec_cb dp ctx dl w)"
proof -
  obtain m where m: "pmsg dp = Some m" using assms(2) by auto
  let ?d = "(lapd_dl_flush_hist (lapd_dl_flush_send dl))\<lparr>lctx := ctx, rcv_buffer := None\<rparr>"
  have "lapd_base c (lapd_dl_flush_hist (lapd_dl_flush_send dl))" using lapd_base_send_buffer [OF assms(1)] by simp
  then have "lapd_base c ?d" using assms(3) by (simp add: lapd_base_def)
  then show ?thesis unfolding lapd_est_req_def using m lapd_inv_request [of c ?d LAPD_STATE_SABM_SENT m] by (simp add: Let_def msg_to_tx_hist0_returns)
qed

lemma lapd_reestablish_returns: "lapd_base c dl \<Longrightarrow> returns (lapd_inv c) (lapd_reestablish rec_cb dl w)"
  unfolding lapd_reestablish_def by (rule lapd_est_req_returns) (simp_all add: lapd_base_def)


text \<open>A frame the run admits: \<open>N(R)\<close> in range, the length indicator within the message, DISC frames that are commands without
  information, SABM frames without information or with information of the agreed length.\<close>

definition frame_ok :: "lapd_cfg \<Rightarrow> msg \<Rightarrow> lapd_msg_ctx \<Rightarrow> bool" where
  "frame_ok c m ctx \<longleftrightarrow> n_recv ctx < cfg_range c \<and> 0 \<le> length_ind ctx \<and> length_ind ctx \<le> int (length m) \<and> 0 \<le> n201 ctx
     \<and> (format ctx = LAPD_FORM_U \<and> s_u ctx = LAPD_U_DISC \<longrightarrow> c_r ctx \<noteq> cfg_resp c \<and> length_ind ctx = 0 \<and> m_bit ctx = 0)
     \<and> (format ctx = LAPD_FORM_U \<and> (s_u ctx = LAPD_U_SABM \<or> s_u ctx = LAPD_U_SABME) \<longrightarrow> length_ind ctx = 0 \<or> length_ind ctx = cfg_len c)"

lemma lapd_send_ua_rec:
  assumes "0 \<le> length_ind ctx" "length_ind ctx \<le> int (length m)"
  shows "lapd_send_ua rec_cb ctx (length_ind ctx) m dl w = Some (0, dl, w @ [To_L1 (ctx\<lparr>c_r := resp (loc2rem dl), format := LAPD_FORM_U, s_u := LAPD_U_UA,
    length_ind := length_ind ctx mod 256, m_bit := 0\<rparr>) (take (nat (length_ind ctx mod 256)) m)])"
proof -
  have "length_ind ctx mod 256 \<le> length_ind ctx" using assms(1) by (simp add: zmod_le_nonneg_dividend)
  then show ?thesis using assms by (simp add: lapd_send_ua_def octets_of_def Let_def)
qed

lemma lapd_rx_u_dm_returns: "lapd_inv c dl \<Longrightarrow> returns (lapd_inv c) (lapd_rx_u_dm rec_cb m ctx dl w)"
  unfolding lapd_rx_u_dm_def
  by (auto simp: Let_def lapd_inv_base lapd_inv_idle lapd_base_send_buffer split: lapd_state.split)

lemma lapd_rx_u_ui_returns: "lapd_inv c dl \<Longrightarrow> frame_ok c m ctx \<Longrightarrow> returns (lapd_inv c) (lapd_rx_u_ui rec_cb m ctx dl w)"
  unfolding lapd_rx_u_ui_def by (simp add: Let_def octets_of_def frame_ok_def)

lemma lapd_rx_u_disc_returns:
  assumes "lapd_inv c dl" "frame_ok c m ctx" "format ctx = LAPD_FORM_U" "s_u ctx = LAPD_U_DISC"
  shows "returns (lapd_inv c) (lapd_rx_u_disc rec_cb m ctx dl w)"
proof -
  let ?d = "(lapd_dl_flush_send (lapd_dl_flush_tx dl))\<lparr>seq_err_cond := 0\<rparr>"
  have b: "lapd_base c ?d" using lapd_base_send_buffer [of c "lapd_dl_flush_tx dl"] assms(1) by (simp add: lapd_inv_base)
  have f: "c_r ctx \<noteq> resp (rem2loc dl)" "length_ind ctx = 0" "m_bit ctx = 0" using assms by (auto simp: frame_ok_def lapd_inv_def lapd_base_def)
  have ua: "lapd_send_ua rec_cb ctx 0 m d w = Some (0, d, w @ [To_L1 (ctx\<lparr>c_r := resp (loc2rem d), format := LAPD_FORM_U, s_u := LAPD_U_UA, length_ind := 0, m_bit := 0\<rparr>) []])" for d
    by (simp add: lapd_send_ua_def octets_of_def)
  have st: "dl_state dl \<in> {LAPD_STATE_IDLE, LAPD_STATE_SABM_SENT, LAPD_STATE_DISC_SENT, LAPD_STATE_MF_EST, LAPD_STATE_TIMER_RECOV}" using assms(1) by (simp add: lapd_inv_def)
  have i: "lapd_inv c ?d" if "dl_state dl = LAPD_STATE_IDLE" using b that by (simp add: lapd_inv_def)
  show ?thesis unfolding lapd_rx_u_disc_def Let_def using st f b i by (auto simp: ua lapd_inv_idle split: lapd_state.split)
qed

lemma lapd_inv_established:
  assumes "lapd_base c dl"
  shows "lapd_inv c (lapd_dl_newstate (lapd_dl_flush_hist (dl\<lparr>v_ack := 0, v_recv := 0, v_send := 0\<rparr>)) LAPD_STATE_MF_EST)"
proof -
  have z: "0 < cfg_range c" "seq_range (cfg_range c)" using assms by (simp_all add: lapd_base_def)
  let ?d = "lapd_dl_flush_hist (dl\<lparr>v_ack := 0, v_recv := 0, v_send := 0\<rparr>)"
  have "lapd_base c (dl\<lparr>v_ack := 0, v_recv := 0, v_send := 0\<rparr>)" using assms z by (simp add: lapd_base_def)
  then have "lapd_base c ?d" by simp
  then have "lapd_base c (lapd_dl_newstate ?d LAPD_STATE_MF_EST)" by simp
  then show ?thesis using window_self [OF z(2,1)] by (simp add: lapd_inv_def) (simp add: lapd_updates)
qed

lemma lapd_inv_cont_res: "lapd_inv c dl \<Longrightarrow> int (length d) = cfg_len c \<Longrightarrow> lapd_inv c (dl\<lparr>cont_res := Some d\<rparr>)"
  by (simp add: lapd_inv_def lapd_base_def)

lemma sabm_accept_returns:
  assumes "lapd_base c dl" "0 \<le> length_ind ctx" "length_ind ctx \<le> int (length m)" "length_ind ctx = 0 \<or> length_ind ctx = cfg_len c" "0 \<le> n201 ctx"
  shows "returns (lapd_inv c) (sabm_accept rec_cb m ctx dl w)"
proof -
  have "lapd_base c (dl\<lparr>lctx := ctx\<rparr>)" using assms by (simp add: lapd_base_def)
  note e = lapd_inv_established [OF this]
  show ?thesis unfolding sabm_accept_def Let_def
    using assms(2-4) e lapd_inv_cont_res [OF e, of "take (nat (length_ind ctx)) m"] by (auto simp: lapd_send_ua_rec octets_of_def)
qed

lemma lapd_rx_u_sabm_returns:
  assumes i: "lapd_inv c dl" and f: "frame_ok c m ctx" and u: "format ctx = LAPD_FORM_U" "s_u ctx = LAPD_U_SABM \<or> s_u ctx = LAPD_U_SABME"
  shows "returns (lapd_inv c) (lapd_rx_u_sabm rec_cb m ctx dl w)"
proof -
  have l: "0 \<le> length_ind ctx" "length_ind ctx \<le> int (length m)" "length_ind ctx = 0 \<or> length_ind ctx = cfg_len c" "0 \<le> n201 ctx"
    using f u by (auto simp: frame_ok_def)
  have a: "returns (lapd_inv c) (sabm_accept rec_cb m ctx (dl\<lparr>seq_err_cond := 0\<rparr>) w)"
    "returns (lapd_inv c) (sabm_accept rec_cb m ctx (lapd_stop_t200 (dl\<lparr>seq_err_cond := 0\<rparr>)) w)"
    by (rule sabm_accept_returns; (rule l | simp add: i lapd_inv_base))+
  have h: "\<exists>e. rd (tx_hist dl) 0 = Some e" using lapd_base_hist [OF lapd_inv_base [OF i], of 0] by (auto simp: rd_def)
  have c: "\<exists>x. octets_of y (length_ind ctx) = Some x" if "cont_res dl = Some y" for y
    using i l that by (auto simp: lapd_inv_def lapd_base_def octets_of_def)
  have m: "octets_of m (length_ind ctx) = Some (take (nat (length_ind ctx)) m)" using l by (simp add: octets_of_def)
  show ?thesis
  proof (cases "dl_state dl")
    case LAPD_STATE_MF_EST
    show ?thesis
    proof (cases "cont_res dl")
      case None
      then show ?thesis unfolding lapd_rx_u_sabm_def Let_def using LAPD_STATE_MF_EST a i by simp
    next
      case (Some y)
      then obtain x where "octets_of y (length_ind ctx) = Some x" using c by blast
      then show ?thesis unfolding lapd_rx_u_sabm_def Let_def using LAPD_STATE_MF_EST a i l Some m by (simp add: lapd_send_ua_rec)
    qed
  qed (use h a i l in \<open>auto simp: lapd_rx_u_sabm_def Let_def lapd_send_ua_rec lapd_inv_def split: option.split\<close>)
qed

lemma lapd_rx_u_ua_returns:
  assumes i: "lapd_inv c dl" and f: "frame_ok c m ctx"
  shows "returns (lapd_inv c) (lapd_rx_u_ua rec_cb m ctx dl w)"
proof -
  have l: "0 \<le> length_ind ctx" "length_ind ctx \<le> int (length m)" using f by (auto simp: frame_ok_def)
  note b = lapd_inv_base [OF i]
  have idle: "lapd_inv c (lapd_dl_newstate (lapd_dl_flush_send (lapd_dl_flush_tx (lapd_stop_t200 dl))) LAPD_STATE_IDLE)"
    using lapd_base_send_buffer [of c "lapd_dl_flush_tx (lapd_stop_t200 dl)"] b by (intro lapd_inv_idle) simp
  have est: "returns (lapd_inv c) (do { (_, dl, w) \<leftarrow> lapd_send_i rec_cb d w; send_dl_simple rec_cb PRIM_DL_EST PRIM_OP_CONFIRM ctx dl w })"
    if "d = lapd_dl_newstate (lapd_dl_flush_hist ((lapd_stop_t200 dl)\<lparr>v_ack := 0, v_recv := 0, v_send := 0\<rparr>)) LAPD_STATE_MF_EST" for d
    using lapd_send_i_returns [of c d w] lapd_inv_established [of c "lapd_stop_t200 dl"] b by (auto simp: that returns_def)
  have sabm: "\<exists>e x. rd (tx_hist dl) 0 = Some e \<and> hmsg e = Some x" if "dl_state dl = LAPD_STATE_SABM_SENT"
    using i that lapd_base_hist [OF b, of 0] by (auto simp: lapd_inv_def rd_def)
  show ?thesis
  proof (cases "dl_state dl = LAPD_STATE_SABM_SENT")
    case True
    with sabm obtain e x where "rd (tx_hist dl) 0 = Some e" "hmsg e = Some x" by blast
    with True i idle est [OF refl] l show ?thesis unfolding lapd_rx_u_ua_def by (auto simp: Let_def octets_of_def)
  next
    case False
    with i idle show ?thesis unfolding lapd_rx_u_ua_def Let_def by (auto split: lapd_state.split)
  qed
qed

lemma lapd_rx_u_frmr_returns: "lapd_inv c dl \<Longrightarrow> returns (lapd_inv c) (lapd_rx_u_frmr rec_cb ctx dl w)"
  unfolding lapd_rx_u_frmr_def by (simp add: lapd_reestablish_returns lapd_inv_base)

abbreviation transfer_inv :: "lapd_cfg \<Rightarrow> lapd_datalink \<Rightarrow> bool" where
  "transfer_inv c dl \<equiv> lapd_inv c dl \<and> transfer_state dl"

lemma send_i_returns: "transfer_inv c dl \<Longrightarrow> returns (lapd_inv c) (lapd_send_i rec_cb dl w)"
  using lapd_send_i_returns [of c dl w] by (auto simp: returns_def)

lemma then_send_i: "returns (transfer_inv c) x \<Longrightarrow> returns (lapd_inv c) (do { (_, dl, w) \<leftarrow> x; lapd_send_i rec_cb dl w })"
  by (erule returns_bind) (simp add: send_i_returns)

lemma answer_poll_returns: "P dl \<Longrightarrow> returns P (answer_poll rec_cb check ctx dl w)"
  by (simp add: answer_poll_def)

lemma lapd_inv_resume:
  assumes "lapd_base c dl" "n < cfg_range c"
  shows "lapd_inv c (lapd_dl_newstate (dl\<lparr>v_ack := n, v_send := n\<rparr>) LAPD_STATE_MF_EST)"
    "v_ack dl = n \<Longrightarrow> lapd_inv c (lapd_dl_newstate (dl\<lparr>v_send := n\<rparr>) LAPD_STATE_MF_EST)"
    "v_ack dl = n \<Longrightarrow> lapd_inv c ((lapd_dl_newstate dl LAPD_STATE_MF_EST)\<lparr>v_send := n\<rparr>)"
proof -
  have s: "seq_range (cfg_range c)" using assms(1) by (simp add: lapd_base_def)
  show "lapd_inv c (lapd_dl_newstate (dl\<lparr>v_ack := n, v_send := n\<rparr>) LAPD_STATE_MF_EST)"
    "v_ack dl = n \<Longrightarrow> lapd_inv c (lapd_dl_newstate (dl\<lparr>v_send := n\<rparr>) LAPD_STATE_MF_EST)"
    "v_ack dl = n \<Longrightarrow> lapd_inv c ((lapd_dl_newstate dl LAPD_STATE_MF_EST)\<lparr>v_send := n\<rparr>)"
    using assms window_self [OF s assms(2)] by (auto simp: lapd_inv_def lapd_base_def lapd_updates)
qed

lemma lapd_rx_s_rr_returns:
  assumes "transfer_inv c dl" "n_recv ctx < cfg_range c"
  shows "returns (lapd_inv c) (lapd_rx_s_rr rec_cb ctx dl w)"
proof -
  obtain rc d where d: "lapd_acknowledge ctx dl = Some (rc, d)" "lapd_inv c d" "dl_state d = dl_state dl"
    "dl_state dl = LAPD_STATE_TIMER_RECOV \<longrightarrow> v_ack d = n_recv ctx"
    using lapd_acknowledge_returns assms by blast
  have "lapd_inv c (lapd_dl_newstate (lapd_stop_t200 (d\<lparr>v_send := n_recv ctx\<rparr>)) LAPD_STATE_MF_EST)" if "dl_state dl = LAPD_STATE_TIMER_RECOV"
    using lapd_inv_resume(2) [OF lapd_inv_base [OF d(2)] assms(2)] d(4) that by (simp add: lapd_updates lapd_inv_def lapd_base_def)
  then show ?thesis unfolding lapd_rx_s_rr_def d(1) using d(2,3) assms(1)
    by (auto simp del: lapd_calls intro!: then_send_i send_i_returns answer_poll_returns)
qed

lemma lapd_rx_s_rnr_returns:
  assumes "transfer_inv c dl" "n_recv ctx < cfg_range c"
  shows "returns (lapd_inv c) (lapd_rx_s_rnr rec_cb ctx dl w)"
proof -
  obtain rc d where d: "lapd_acknowledge ctx dl = Some (rc, d)" "lapd_inv c d" "dl_state d = dl_state dl"
    "dl_state dl = LAPD_STATE_TIMER_RECOV \<longrightarrow> v_ack d = n_recv ctx"
    using lapd_acknowledge_returns assms by blast
  define e where "e = lapd_stop_t200 (lapd_dl_flush_tx_queue (d\<lparr>peer_busy := 1\<rparr>))"
  have e: "lapd_inv c e" "dl_state e = dl_state dl" "v_ack e = v_ack d" using d by (simp_all add: e_def lapd_dl_flush_tx_queue_def)
  have "lapd_inv c ((lapd_dl_newstate e LAPD_STATE_MF_EST)\<lparr>v_send := n_recv ctx\<rparr>)" if "dl_state dl = LAPD_STATE_TIMER_RECOV"
    using lapd_inv_resume(3) [OF lapd_inv_base [OF e(1)] assms(2)] d(4) e(3) that by simp
  then show ?thesis unfolding lapd_rx_s_rnr_def d(1) using e assms(1)
    by (auto simp: Let_def e_def [symmetric] simp del: lapd_calls intro!: then_send_i send_i_returns answer_poll_returns)
qed

lemma lapd_rx_s_rej_returns:
  assumes "transfer_inv c dl" "n_recv ctx < cfg_range c"
  shows "returns (lapd_inv c) (lapd_rx_s_rej rec_cb ctx dl w)"
proof -
  obtain rc d where d: "lapd_acknowledge ctx dl = Some (rc, d)" "lapd_inv c d" "dl_state d = dl_state dl"
    using lapd_acknowledge_returns assms by blast
  have s: "seq_range (cfg_range c)" using d(2) by (simp add: lapd_inv_def lapd_base_def)
  define e where "e = lapd_dl_flush_tx_queue (d\<lparr>peer_busy := 0, v_ack := n_recv ctx, v_send := n_recv ctx\<rparr>)"
  have t: "transfer_state d" using assms(1) d(3) by simp
  have e: "lapd_inv c e" "dl_state e = dl_state dl"
    using d(2,3) t assms(2) window_self [OF s assms(2)] by (auto simp: e_def lapd_dl_flush_tx_queue_def lapd_inv_def lapd_base_def)
  have e': "lapd_inv c (lapd_dl_newstate (lapd_stop_t200 e) LAPD_STATE_MF_EST)"
    using e(1) assms(2) window_self [OF s assms(2)] by (auto simp: e_def lapd_dl_flush_tx_queue_def lapd_inv_def lapd_base_def lapd_updates)
  have p: "returns (transfer_inv c) (if P then answer_poll rec_cb True ctx x w else Some (0, x, w))" if "x = e \<or> x = lapd_stop_t200 e" for P x
    using that e assms by (auto intro: answer_poll_returns)
  have a: "returns (transfer_inv c) (do { (_, dl, w) \<leftarrow> (if P then answer_poll rec_cb True ctx (lapd_stop_t200 e) w else Some (0, lapd_stop_t200 e, w));
      if Q dl then mdl_error rec_cb MDL_CAUSE_UNSOL_SPRV_RESP ctx dl w else Some (0, dl, w) })" for P Q
    by (rule returns_bind [OF p]) simp_all
  show ?thesis unfolding lapd_rx_s_rej_def d(1) bind.bind_lunit prod.case Let_def e_def [symmetric]
  proof (rule then_send_i, split if_split, intro conjI impI)
    show "returns (transfer_inv c)
        (do { (_, dl, w) \<leftarrow> (if c_r ctx = cmd (rem2loc (lapd_stop_t200 e)) \<and> p_f ctx \<noteq> 0 then answer_poll rec_cb True ctx (lapd_stop_t200 e) w else Some (0, lapd_stop_t200 e, w));
          if c_r ctx = resp (rem2loc dl) \<and> p_f ctx \<noteq> 0 then mdl_error rec_cb MDL_CAUSE_UNSOL_SPRV_RESP ctx dl w else Some (0, dl, w) })"
      by (rule a)
  next
    show "returns (transfer_inv c) (if c_r ctx = resp (rem2loc d) \<and> p_f ctx \<noteq> 0 then Some (0, lapd_dl_newstate (lapd_stop_t200 e) LAPD_STATE_MF_EST, w)
        else if c_r ctx = cmd (rem2loc d) \<and> p_f ctx \<noteq> 0 then answer_poll rec_cb True ctx e w else Some (0, e, w))"
      using p [of e "c_r ctx = cmd (rem2loc d) \<and> p_f ctx \<noteq> 0"] e' by simp
  qed
qed

lemma lapd_rx_s_returns:
  assumes "lapd_inv c dl" "frame_ok c m ctx"
  shows "returns (lapd_inv c) (lapd_rx_s rec_cb ctx dl w)"
proof -
  have n: "n_recv ctx < cfg_range c" using assms(2) by (simp add: frame_ok_def)
  have st: "dl_state dl \<in> {LAPD_STATE_IDLE, LAPD_STATE_SABM_SENT, LAPD_STATE_DISC_SENT, LAPD_STATE_MF_EST, LAPD_STATE_TIMER_RECOV}" using assms(1) by (simp add: lapd_inv_def)
  have t: "transfer_inv c dl" if "dl_state dl \<noteq> LAPD_STATE_IDLE" "dl_state dl \<noteq> LAPD_STATE_SABM_SENT" "dl_state dl \<noteq> LAPD_STATE_DISC_SENT"
    using assms(1) st that by auto
  show ?thesis unfolding lapd_rx_s_def
    using assms(1) t by (auto intro!: returns_ignore lapd_rx_s_rr_returns lapd_rx_s_rnr_returns lapd_rx_s_rej_returns simp: n)
qed

lemma rx_i_seq_err_returns:
  assumes "transfer_inv c dl" "n_recv ctx < cfg_range c"
  shows "returns (lapd_inv c) (rx_i_seq_err rec_cb ctx dl w)"
proof -
  have a: "returns (lapd_inv c) (do {
     (mdl_cause, dl) \<leftarrow> lapd_acknowledge ctx d;
     (_, dl, w) \<leftarrow> (if mdl_cause < 0 then mdl_error rec_cb (- mdl_cause) ctx dl w else Some (0, dl, w));
     (_, dl, w) \<leftarrow> lapd_send_i rec_cb dl w;
     Some (0, dl, w) })" if d0: "transfer_inv c d" for d w
  proof -
    obtain rc d' where d: "lapd_acknowledge ctx d = Some (rc, d')" "lapd_inv c d'" "dl_state d' = dl_state d"
      using lapd_acknowledge_returns assms(2) d0 by blast
    with d0 show ?thesis by (auto intro!: returns_ignore send_i_returns)
  qed
  show ?thesis unfolding rx_i_seq_err_def
    by (rule returns_bind [of "transfer_inv c"]) (use assms a in auto)
qed

lemma deliver_i_returns:
  assumes "transfer_inv c dl" "frame_ok c m ctx"
  shows "returns (transfer_inv c) (deliver_i rec_cb m ctx dl w)"
  using assms by (auto simp: deliver_i_def octets_of_def frame_ok_def Let_def)

lemma lapd_inv_v_recv: "lapd_inv c dl \<Longrightarrow> lapd_inv c (dl\<lparr>v_recv := inc_mod v (v_range dl)\<rparr>)"
  by (auto simp: lapd_inv_def lapd_base_def)

lemma rx_i_reply_returns: "transfer_inv c dl \<Longrightarrow> returns (lapd_inv c) (rx_i_reply rec_cb q ctx dl w)"
  unfolding rx_i_reply_def by (auto intro!: returns_ignore send_i_returns returns_bind [OF send_i_returns])

lemma rx_i_in_seq_returns:
  assumes "transfer_inv c dl" "frame_ok c m ctx"
  shows "returns (lapd_inv c) (rx_i_in_seq rec_cb m ctx dl w)"
proof -
  define d0 where "d0 = dl\<lparr>seq_err_cond := 0, v_recv := inc_mod (v_recv dl) (v_range dl)\<rparr>"
  have d0: "lapd_inv c d0" "transfer_state d0" using lapd_inv_v_recv [of c "dl\<lparr>seq_err_cond := 0\<rparr>" "v_recv dl"] assms(1) by (auto simp: d0_def)
  have "n_recv ctx < cfg_range c" using assms(2) by (simp add: frame_ok_def)
  then obtain rc d1 where d1: "lapd_acknowledge ctx d0 = Some (rc, d1)" "lapd_inv c d1" "dl_state d1 = dl_state d0"
    using lapd_acknowledge_returns [OF d0] by blast
  have t: "transfer_inv c d1" using d0 d1 by simp
  have v: "returns (transfer_inv c) (deliver_i rec_cb m ctx d1 w)" using t assms(2) by (rule deliver_i_returns)
  show ?thesis unfolding rx_i_in_seq_def using d1(1) t
    by (auto simp: Let_def d0_def [symmetric] rx_i_reply_returns intro!: returns_bind [OF v])
qed

lemma lapd_rx_i_returns:
  assumes "lapd_inv c dl" "frame_ok c m ctx"
  shows "returns (lapd_inv c) (lapd_rx_i rec_cb m ctx dl w)"
proof -
  have n: "n_recv ctx < cfg_range c" using assms(2) by (simp add: frame_ok_def)
  have st: "dl_state dl \<in> {LAPD_STATE_IDLE, LAPD_STATE_SABM_SENT, LAPD_STATE_DISC_SENT, LAPD_STATE_MF_EST, LAPD_STATE_TIMER_RECOV}" using assms(1) by (simp add: lapd_inv_def)
  have t: "transfer_inv c dl" if "dl_state dl \<noteq> LAPD_STATE_IDLE" "dl_state dl \<noteq> LAPD_STATE_SABM_SENT" "dl_state dl \<noteq> LAPD_STATE_DISC_SENT"
    using assms(1) st that by auto
  show ?thesis unfolding lapd_rx_i_def Let_def
    using assms(1) rx_i_seq_err_returns [OF t n] rx_i_in_seq_returns [OF t assms(2)] by auto
qed

lemma lapd_rx_u_returns:
  assumes "lapd_inv c dl" "frame_ok c m ctx" "format ctx = LAPD_FORM_U"
  shows "returns (lapd_inv c) (lapd_rx_u rec_cb m ctx dl w)"
  unfolding lapd_rx_u_def using assms
  by (simp add: lapd_rx_u_sabm_returns lapd_rx_u_dm_returns lapd_rx_u_ui_returns lapd_rx_u_disc_returns lapd_rx_u_ua_returns lapd_rx_u_frmr_returns)

lemma lapd_ph_data_ind_returns:
  assumes "lapd_inv c dl" "frame_ok c m ctx"
  shows "returns (lapd_inv c) (lapd_ph_data_ind rec_cb m ctx dl w)"
  unfolding lapd_ph_data_ind_def using assms
  by (cases "format ctx") (simp_all add: lapd_rx_u_returns lapd_rx_s_returns lapd_rx_i_returns)

lemma lapd_ph_rts_ind_returns:
  assumes "lapd_inv c dl"
  shows "returns (lapd_inv c) (lapd_ph_rts_ind rec_cb dl w)"
  unfolding lapd_ph_rts_ind_def
  by (rule returns_bind [of "lapd_inv c"]) (use assms send_i_returns in auto)

subsection \<open>Timers\<close>

lemma lapd_send_resend_rec:
  assumes "lapd_inv c dl" "dl_state dl = LAPD_STATE_SABM_SENT \<or> dl_state dl = LAPD_STATE_DISC_SENT"
  shows "\<exists>x. lapd_send_resend rec_cb dl w = Some (0, dl, w @ [x])"
proof -
  have b: "lapd_base c dl" using assms(1) by (rule lapd_inv_base)
  have "seq_range (range_hist dl)" using b by (simp add: lapd_base_def)
  then have z: "do_mod 0 (range_hist dl) = 0" by (simp add: do_mod_def)
  from assms obtain x where "v_send dl = 0" "hmsg (tx_hist dl ! 0) = Some x" by (auto simp: lapd_inv_def)
  then show ?thesis using lapd_base_hist [OF b, of 0] z by (simp add: lapd_send_resend_def rd_Some)
qed

definition returns2 :: "(lapd_datalink \<Rightarrow> bool) \<Rightarrow> (lapd_datalink \<times> 'w) res \<Rightarrow> bool" where
  "returns2 P x \<longleftrightarrow> (\<exists>dl w. x = Some (dl, w) \<and> P dl)"

lemma returns2_Some [simp]: "returns2 P (Some (dl, w)) \<longleftrightarrow> P dl"
  by (simp add: returns2_def)

lemma returns2_bind: "returns P x \<Longrightarrow> returns2 P (do { (_, y) \<leftarrow> x; Some y })"
  by (auto simp: returns_def)

lemma lapd_t200_request:
  assumes "lapd_inv c dl" "dl_state dl = LAPD_STATE_SABM_SENT \<or> dl_state dl = LAPD_STATE_DISC_SENT"
  shows "returns2 (lapd_inv c) (lapd_t200_cb rec_cb dl w)"
proof -
  let ?d = "dl\<lparr>retrans_ctr := retrans_ctr dl + 1\<rparr>"
  have "lapd_inv c ?d" using assms(1) by simp
  moreover have "lapd_inv c (lapd_dl_newstate (lapd_dl_flush_send (lapd_dl_flush_tx ?d)) LAPD_STATE_IDLE)"
    using lapd_base_send_buffer [of c "lapd_dl_flush_tx ?d"] lapd_inv_base [OF calculation] by (intro lapd_inv_idle) simp
  moreover obtain x where "lapd_send_resend rec_cb ?d w = Some (0, ?d, w @ [x])"
    using lapd_send_resend_rec [OF calculation(1), of w] assms(2) by auto
  ultimately show ?thesis using assms(2) by (auto simp: lapd_t200_cb_def Let_def)
qed

lemma lapd_t200_transfer:
  assumes "transfer_inv c dl"
  shows "returns2 (lapd_inv c) (lapd_t200_cb rec_cb dl w)"
proof -
  define d0 where "d0 = (if dl_state dl = LAPD_STATE_MF_EST then lapd_dl_newstate (dl\<lparr>retrans_ctr := 0\<rparr>) LAPD_STATE_TIMER_RECOV else dl)"
  define d where "d = d0\<lparr>retrans_ctr := retrans_ctr d0 + 1\<rparr>"
  have d: "lapd_inv c d" using assms by (auto simp: d_def d0_def lapd_inv_recov lapd_inv_base)
  obtain e where "rd (tx_hist d) (unat (do_mod (sub_mod (v_send d) 1 (v_range d)) (range_hist d))) = Some e"
    using lapd_base_hist [OF lapd_inv_base [OF d]] by (auto simp: rd_Some)
  then show ?thesis unfolding lapd_t200_cb_def d0_def [symmetric] d_def [symmetric]
    using d assms lapd_reestablish_returns [OF lapd_inv_base [OF d]]
    by (auto simp: Let_def d0_def [symmetric] d_def [symmetric] split: option.split intro!: returns2_bind)
qed

lemma lapd_t200_cb_returns:
  assumes "lapd_inv c dl"
  shows "returns2 (lapd_inv c) (lapd_t200_cb rec_cb dl w)"
proof (cases "dl_state dl = LAPD_STATE_IDLE")
  case True
  then show ?thesis using assms by (simp add: lapd_t200_cb_def)
next
  case False
  with assms lapd_t200_request [OF assms] lapd_t200_transfer [of c dl w] show ?thesis by (auto simp: lapd_inv_def)
qed

lemma lapd_t203_cb_returns:
  assumes "lapd_inv c dl"
  shows "returns2 (lapd_inv c) (lapd_t203_cb rec_cb dl w)"
  using assms lapd_inv_recov [of c "dl\<lparr>retrans_ctr := 0\<rparr>"] by (simp add: lapd_t203_cb_def Let_def lapd_inv_base)

subsection \<open>Requests\<close>

lemma lapd_inv_flush_tx: "transfer_inv c dl \<Longrightarrow> lapd_inv c (lapd_dl_flush_tx dl)"
  using flush_hist_fields(11) [of c "dl\<lparr>tx_queue := []\<rparr>"] by (auto simp: lapd_inv_def lapd_dl_flush_tx_def lapd_dl_flush_tx_queue_def)

lemma lapd_data_req_returns:
  assumes "transfer_inv c dl" "pmsg dp \<noteq> None"
  shows "returns (lapd_inv c) (lapd_data_req rec_cb dp ctx dl w)"
  using assms by (auto simp: lapd_data_req_def Let_def intro!: returns_ignore send_i_returns)

lemma lapd_susp_req_returns:
  assumes "transfer_inv c dl"
  shows "returns (lapd_inv c) (lapd_susp_req rec_cb dp ctx dl w)"
proof -
  have "transfer_inv c (case send_buffer dl of Some b \<Rightarrow> dl\<lparr>send_queue := b # send_queue dl, send_buffer := None\<rparr> | None \<Rightarrow> dl)"
    using assms by (auto simp: lapd_inv_def lapd_base_def split: option.split)
  from lapd_inv_flush_tx [OF this] show ?thesis by (simp add: lapd_susp_req_def Let_def)
qed

lemma lapd_res_req_returns:
  assumes "lapd_inv c dl" "pmsg dp \<noteq> None" "0 \<le> n201 ctx"
  shows "returns (lapd_inv c) (lapd_res_req rec_cb dp ctx dl w)"
proof -
  obtain m where m: "pmsg dp = Some m" using assms(2) by auto
  let ?d = "(lapd_dl_flush_hist dl)\<lparr>lctx := ctx, send_out := 0, send_buffer := (if m \<noteq> [] then Some m else None), rcv_buffer := None\<rparr>"
  have "lapd_base c (lapd_dl_flush_hist dl)" using assms(1) by (simp add: lapd_inv_base)
  then have "lapd_base c ?d" using assms(3) by (simp add: lapd_base_def)
  then show ?thesis unfolding lapd_res_req_def using m lapd_inv_request [of c ?d LAPD_STATE_SABM_SENT "[]"] by (simp add: Let_def msg_to_tx_hist0_returns)
qed

lemma lapd_rel_req_returns:
  assumes "lapd_inv c dl" "pmsg dp \<noteq> None"
  shows "returns (lapd_inv c) (lapd_rel_req rec_cb dp ctx dl w)"
proof -
  obtain m where m: "pmsg dp = Some m" using assms(2) by auto
  have b: "lapd_base c dl" using assms(1) by (rule lapd_inv_base)
  have h: "lapd_base c (lapd_dl_flush_hist dl)" using b by simp
  let ?d = "lapd_dl_newstate (lapd_stop_t200 dl) LAPD_STATE_IDLE"
  have "lapd_inv c (lapd_dl_flush_send (lapd_dl_flush_tx ?d))"
    using lapd_base_send_buffer [of c "lapd_dl_flush_tx ?d"] b by (simp add: lapd_inv_def)
  then show ?thesis using assms m h lapd_inv_request [OF h, of LAPD_STATE_DISC_SENT m]
    by (simp add: lapd_rel_req_def Let_def msg_to_tx_hist0_returns)
qed

text \<open>The table of requests as conditions on the state.\<close>

lemma lapd_state_masks:
  "state_bit s AND 0xffffffff \<noteq> 0" "state_bit s AND state_bit t \<noteq> 0 \<longleftrightarrow> s = t"
  "state_bit s AND (a OR b) \<noteq> 0 \<longleftrightarrow> state_bit s AND a \<noteq> 0 \<or> state_bit s AND b \<noteq> 0"
proof -
  show "state_bit s AND 0xffffffff \<noteq> 0" by (cases s) (simp_all add: state_bit_def)
  show "state_bit s AND state_bit t \<noteq> 0 \<longleftrightarrow> s = t" by (cases s; cases t) (simp_all add: state_bit_def)
  show "state_bit s AND (a OR b) \<noteq> 0 \<longleftrightarrow> state_bit s AND a \<noteq> 0 \<or> state_bit s AND b \<noteq> 0"
    by (simp add: bit.conj_disj_distrib or_eq_0_iff)
qed

lemma lapd_recv_dlsap_returns:
  assumes "lapd_inv c dl" "pmsg dp \<noteq> None" "0 \<le> n201 ctx"
  shows "returns (lapd_inv c) (lapd_recv_dlsap rec_cb dp ctx dl w)"
  unfolding lapd_recv_dlsap_def l2downstatelist_def find_case_Cons prod.case lapd_state_masks
  using assms
  by (auto intro!: lapd_est_req_returns lapd_inv_base lapd_data_req_returns lapd_susp_req_returns lapd_res_req_returns lapd_rel_req_returns
    simp: lapd_udata_req_def lapd_rel_req_idle_def)

subsection \<open>Runs\<close>

lemma top_bit_test:
  fixes k :: u8
  assumes "i < 8" "unat k < 2 * 2 ^ i"
  shows "(of_nat (2 ^ i) :: u8) AND k \<noteq> 0 \<longleftrightarrow> 2 ^ i \<le> unat k"
proof -
  have "(of_nat (2 ^ i) :: u8) AND k \<noteq> 0 \<longleftrightarrow> bit k i"
    using and_exp_eq_0_iff_not_bit [of k i] by (simp add: and.commute)
  also have "\<dots> \<longleftrightarrow> bit (unat k) i" using assms(1) by (simp add: bit_unsigned_iff)
  also have "\<dots> \<longleftrightarrow> odd (unat k div 2 ^ i)" by (rule bit_iff_odd)
  also have "\<dots> \<longleftrightarrow> 2 ^ i \<le> unat k"
  proof (cases "2 ^ i \<le> unat k")
    case True
    then have "unat k div 2 ^ i = 1" using assms(2) by (intro div_nat_eqI) simp_all
    with True show ?thesis by simp
  next
    case False
    then show ?thesis by simp
  qed
  finally show ?thesis .
qed

lemma hist_range_spec:
  assumes "i < 8" "0 < unat k" "unat k < 2 * 2 ^ i" "unat k \<le> 128"
  shows "\<exists>j<8. hist_range (Suc i) (2 ^ i) k = 2 ^ j \<and> unat k \<le> 2 ^ j \<and> 2 ^ j < 2 * unat k"
  using assms
proof (induction i)
  case 0
  then have "unat k = 1" by simp
  with 0 top_bit_test [of 0 k] show ?case by (intro exI [of _ 0]) simp
next
  case (Suc i)
  note t = top_bit_test [OF Suc(2,4)]
  show ?case
  proof (cases "2 ^ Suc i \<le> unat k")
    case True
    show ?thesis
    proof (cases "2 ^ Suc i < unat k")
      case True
      have "Suc i < 7" 
      proof (rule ccontr)
        assume "\<not> Suc i < 7"
        then have "(2::nat) ^ 7 \<le> 2 ^ Suc i" by (intro power_increasing) simp_all
        with True Suc(5) show False by simp
      qed
      then show ?thesis using t True Suc(4) by (intro exI [of _ "Suc (Suc i)"]) simp
    next
      case False
      then have "hist_range (Suc (Suc i)) (2 ^ Suc i) k = of_nat (2 ^ Suc i)" using t True Suc(3) by (simp del: power_Suc)
      moreover have "unat k = 2 ^ Suc i" using False True by simp
      ultimately show ?thesis using Suc(2,3) by (intro exI [of _ "Suc i"]) simp
    qed
  next
    case False
    then have "hist_range (Suc (Suc i)) (2 ^ Suc i) k = hist_range (Suc i) (2 ^ i) k" using t by simp
    then show ?thesis using Suc(1) Suc(2-5) False by simp
  qed
qed


datatype lapd_event = Ph_data msg lapd_msg_ctx | Dlsap osmo_dlsap_prim lapd_msg_ctx | Ph_rts | T200_expires | T203_expires | Set_flags u32 | Reset

text \<open>A timer event with the timer not running is no event; with the flag RTS the user of the data link reports the expiry of
  T200.\<close>

fun lapd_step :: "lapd_event \<Rightarrow> lapd_datalink \<times> lapd_out list \<Rightarrow> (lapd_datalink \<times> lapd_out list) res" where
  "lapd_step (Ph_data m ctx) (dl, w) = do { (_, dl, w) \<leftarrow> lapd_ph_data_ind rec_cb m ctx dl w; Some (dl, w) }"
| "lapd_step (Dlsap dp ctx) (dl, w) = do { (_, dl, w) \<leftarrow> lapd_recv_dlsap rec_cb dp ctx dl w; Some (dl, w) }"
| "lapd_step Ph_rts (dl, w) = do { (_, dl, w) \<leftarrow> lapd_ph_rts_ind rec_cb dl w; Some (dl, w) }"
| "lapd_step T200_expires (dl, w) =
     (if rts_flag dl then do { (_, dl, w) \<leftarrow> lapd_t200_timeout rec_cb dl w; Some (dl, w) }
      else if t200 dl then lapd_t200_cb rec_cb (dl\<lparr>t200 := False\<rparr>) w else Some (dl, w))"
| "lapd_step T203_expires (dl, w) = (if t203 dl then lapd_t203_cb rec_cb (dl\<lparr>t203 := False\<rparr>) w else Some (dl, w))"
| "lapd_step (Set_flags f) (dl, w) = Some (snd (lapd_dl_set_flags f dl), w)"
| "lapd_step Reset (dl, w) = Some (lapd_dl_reset dl, w)"

fun lapd_event_ok :: "lapd_cfg \<Rightarrow> lapd_event \<Rightarrow> bool" where
  "lapd_event_ok c (Ph_data m ctx) \<longleftrightarrow> frame_ok c m ctx"
| "lapd_event_ok c (Dlsap dp ctx) \<longleftrightarrow> pmsg dp \<noteq> None \<and> 0 \<le> n201 ctx"
| "lapd_event_ok c _ \<longleftrightarrow> True"

lemma lapd_dl_reset_inv: "lapd_inv c dl \<Longrightarrow> lapd_inv c (lapd_dl_reset dl)"
  using lapd_base_send_buffer [of c "lapd_dl_flush_tx (lapd_dl_newstate dl LAPD_STATE_IDLE)"]
  by (simp add: lapd_dl_reset_def Let_def lapd_inv_def)

lemma lapd_step_returns:
  assumes "lapd_inv c dl" "lapd_event_ok c e"
  shows "returns2 (lapd_inv c) (lapd_step e (dl, w))"
proof -
  have to: "returns (lapd_inv c) (lapd_t200_timeout rec_cb dl w)" if "rts_flag dl"
    using that assms(1) lapd_t200_cb_returns [of c "dl\<lparr>t200_rts := LAPD_T200_RTS_OFF\<rparr>" w] by (auto simp: lapd_t200_timeout_def returns2_def)
  show ?thesis
    using assms by (cases e) (auto intro!: returns2_bind to lapd_ph_data_ind_returns lapd_recv_dlsap_returns lapd_ph_rts_ind_returns lapd_t200_cb_returns lapd_t203_cb_returns
      simp: lapd_dl_set_flags_def lapd_dl_reset_inv)
qed

definition lapd_start :: "u8 \<Rightarrow> u8 \<Rightarrow> int \<Rightarrow> lapd_mode \<Rightarrow> lapd_datalink" where
  "lapd_start k vr mf mode = lapd_set_mode (lapd_dl_init k vr mf) mode"

definition lapd_cfg_of :: "u8 \<Rightarrow> lapd_mode \<Rightarrow> int \<Rightarrow> lapd_cfg" where
  "lapd_cfg_of vr mode len = \<lparr>cfg_range = vr, cfg_resp = (if mode = LAPD_MODE_USER then 0 else 1), cfg_len = len\<rparr>"

lemma lapd_start_hist:
  assumes "seq_range vr"
  shows "seq_range (range_hist (lapd_start k vr mf mode)) \<and> win_k (lapd_start k vr mf mode) < range_hist (lapd_start k vr mf mode)
    \<and> range_hist (lapd_start k vr mf mode) \<le> vr \<and> win_k (lapd_start k vr mf mode) < vr"
proof -
  obtain n where n: "n < 8" "vr = 2 ^ n" using assms by (auto simp: seq_range_def)
  have vn: "unat vr = 2 ^ n" using n unat_seq_range [OF n(1)] by simp
  have v: "0 < unat vr" "unat vr \<le> 128" using vn n power_increasing [of n 7 "2::nat"] by simp_all
  define k' where "k' = (if uint k > uint vr - 1 then vr - 1 else k)"
  have "unat (vr - 1) = unat vr - 1" using v by (simp add: unat_sub_if_size)
  moreover have "unat k < unat vr" if "\<not> uint k > uint vr - 1"
    using that by (simp add: word_less_nat_alt [symmetric] word_less_def)
  ultimately have k: "unat k' < unat vr" using v by (auto simp: k'_def)
  have k1: "unat (k' + 1) = unat k' + 1" using k v by (simp add: unat_word_ariths)
  obtain j where j: "j < 8" "hist_range 8 128 (k' + 1) = 2 ^ j" "unat (k' + 1) \<le> 2 ^ j" "2 ^ j < 2 * unat (k' + 1)"
    using hist_range_spec [of 7 "k' + 1"] k1 k v by auto
  have "(2::nat) ^ j < 2 ^ Suc n" using j(4) k1 k vn by simp
  then have "j \<le> n" by (simp add: power_strict_increasing_iff del: power_Suc)
  then have "unat (2 ^ j :: u8) \<le> unat vr" using vn unat_seq_range [OF j(1)] by simp
  then have h: "seq_range (hist_range 8 128 (k' + 1))" "k' < hist_range 8 128 (k' + 1)" "hist_range 8 128 (k' + 1) \<le> vr" "k' < vr"
    using j k k1 unat_seq_range [OF j(1)] by (auto simp: seq_range_def word_less_nat_alt word_le_nat_alt)
  then show ?thesis
    by (cases mode) (simp_all add: lapd_start_def lapd_dl_init_def k'_def [symmetric] lapd_set_mode_def lapd_updates)
qed

lemma lapd_start_fields:
  "v_range (lapd_start k vr mf mode) = vr" "tx_hist (lapd_start k vr mf mode) = replicate (unat (range_hist (lapd_start k vr mf mode))) \<lparr>hmsg = None, hmore = 0\<rparr>"
  "dl_state (lapd_start k vr mf mode) = LAPD_STATE_IDLE" "v_send (lapd_start k vr mf mode) = 0" "v_ack (lapd_start k vr mf mode) = 0" "v_recv (lapd_start k vr mf mode) = 0"
  "send_buffer (lapd_start k vr mf mode) = None" "send_queue (lapd_start k vr mf mode) = []" "cont_res (lapd_start k vr mf mode) = None" "lctx (lapd_start k vr mf mode) = zero_ctx"
  "rcv_buffer (lapd_start k vr mf mode) = None" "maxf (lapd_start k vr mf mode) = mf" "own_busy (lapd_start k vr mf mode) = 0" "peer_busy (lapd_start k vr mf mode) = 0"
  "lapd_flags (lapd_start k vr mf mode) = 0" "use_sabme (lapd_start k vr mf mode) = 0" "dl_mode (lapd_start k vr mf mode) = mode" "tx_queue (lapd_start k vr mf mode) = []"
  "rem2loc (lapd_start k vr mf mode) = (if mode = LAPD_MODE_USER then \<lparr>cmd = 1, resp = 0\<rparr> else \<lparr>cmd = 0, resp = 1\<rparr>)"
  "loc2rem (lapd_start k vr mf mode) = (if mode = LAPD_MODE_USER then \<lparr>cmd = 0, resp = 1\<rparr> else \<lparr>cmd = 1, resp = 0\<rparr>)"
  by (cases mode; simp add: lapd_start_def lapd_dl_init_def lapd_set_mode_def lapd_updates Let_def)+

lemma lapd_start_inv:
  assumes "seq_range vr"
  shows "lapd_inv (lapd_cfg_of vr mode len) (lapd_start k vr mf mode)"
  using assms lapd_start_hist [OF assms, of k mf mode] by (simp add: lapd_inv_def lapd_base_def lapd_start_fields lapd_cfg_of_def zero_ctx_def)

lemma lapd_machine:
  assumes "seq_range vr"
  shows "machine lapd_step (lapd_event_ok (lapd_cfg_of vr mode len)) (lapd_start k vr mf mode, []) (\<lambda>s. lapd_inv (lapd_cfg_of vr mode len) (fst s))"
proof
  show "lapd_inv (lapd_cfg_of vr mode len) (fst (lapd_start k vr mf mode, []))"
    using lapd_start_inv [OF assms] by simp
next
  fix s :: "lapd_datalink \<times> lapd_out list" and e
  assume "lapd_inv (lapd_cfg_of vr mode len) (fst s)" "lapd_event_ok (lapd_cfg_of vr mode len) e"
  then show "\<exists>s'. lapd_step e s = Some s' \<and> lapd_inv (lapd_cfg_of vr mode len) (fst s')"
    using lapd_step_returns [of "lapd_cfg_of vr mode len" "fst s" e "snd s"] by (auto simp: returns2_def)
qed


text \<open>The two ranges in use: 128 in LAPD, 8 in LAPDm.\<close>

interpretation lapd: machine lapd_step "lapd_event_ok (lapd_cfg_of 128 mode len)" "(lapd_start k 128 mf mode, [])" "\<lambda>s. lapd_inv (lapd_cfg_of 128 mode len) (fst s)"
  for mode len k mf
  by (rule lapd_machine) (auto simp: seq_range_def intro!: exI [of _ 7])

interpretation lapdm: machine lapd_step "lapd_event_ok (lapd_cfg_of 8 mode len)" "(lapd_start k 8 mf mode, [])" "\<lambda>s. lapd_inv (lapd_cfg_of 8 mode len) (fst s)"
  for mode len k mf
  by (rule lapd_machine) (auto simp: seq_range_def intro!: exI [of _ 3])

text \<open>C2: every sequence of admitted events (frames from the peer, requests, timers, RTS) is handled to the end: no loop runs forever, no
  message of the history is missing where it is needed, no array is accessed outside its bounds. At any time the sequence numbers are in
  range, at most k frames are outstanding, and the frame of a pending request is stored for retransmission.\<close>

theorem lapd_reachable:
  assumes "n < 8" and "list_all (lapd_event_ok (lapd_cfg_of (2 ^ n) mode len)) es"
  shows "\<exists>dl w. run lapd_step es (lapd_start k (2 ^ n) mf mode, []) = Some (dl, w)
    \<and> dl_state dl \<in> {LAPD_STATE_IDLE, LAPD_STATE_SABM_SENT, LAPD_STATE_DISC_SENT, LAPD_STATE_MF_EST, LAPD_STATE_TIMER_RECOV}
    \<and> v_send dl < 2 ^ n \<and> v_ack dl < 2 ^ n \<and> v_recv dl < 2 ^ n \<and> length (tx_hist dl) = unat (range_hist dl) \<and> win_k dl < range_hist dl
    \<and> (dl_state dl = LAPD_STATE_MF_EST \<longrightarrow> sub_mod (v_send dl) (v_ack dl) (2 ^ n) \<le> win_k dl)
    \<and> (dl_state dl = LAPD_STATE_SABM_SENT \<or> dl_state dl = LAPD_STATE_DISC_SENT \<longrightarrow> v_send dl = 0 \<and> hmsg (tx_hist dl ! 0) \<noteq> None)"
proof -
  have v: "seq_range (2 ^ n)" using assms(1) by (auto simp: seq_range_def)
  have "\<exists>s'. run lapd_step es (lapd_start k (2 ^ n) mf mode, []) = Some s' \<and> lapd_inv (lapd_cfg_of (2 ^ n) mode len) (fst s')"
    by (rule machine.run_inv [OF lapd_machine [OF v]]) (use assms(2) lapd_start_inv [OF v] in simp_all)
  then show ?thesis by (auto simp: lapd_inv_def lapd_base_def lapd_cfg_of_def)
qed


definition ctx0 :: lapd_msg_ctx where
  "ctx0 = zero_ctx\<lparr>n201 := 2\<rparr>"

theorem lapd_reachable_witness:
  "\<exists>dl w. run lapd_step
      [Dlsap \<lparr>primitive = PRIM_DL_EST, operation = PRIM_OP_REQUEST, param = 0, pmsg = Some []\<rparr> ctx0, T200_expires,
       Ph_data [] (ctx0\<lparr>format := LAPD_FORM_U, s_u := LAPD_U_UA, p_f := 1\<rparr>),
       Dlsap \<lparr>primitive = PRIM_DL_DATA, operation = PRIM_OP_REQUEST, param = 0, pmsg = Some [1, 2, 3]\<rparr> ctx0, T200_expires, Ph_rts]
      (lapd_start 2 (2 ^ 3) 251 LAPD_MODE_USER, []) = Some (dl, w) \<and> v_send dl < 2 ^ 3 \<and> win_k dl < range_hist dl"
  (is "\<exists>dl w. run lapd_step ?es _ = _ \<and> _ \<and> _")
proof -
  have ok: "list_all (lapd_event_ok (lapd_cfg_of (2 ^ 3) LAPD_MODE_USER 0)) ?es"
    by (simp add: frame_ok_def lapd_cfg_of_def ctx0_def zero_ctx_def)
  have "(3::nat) < 8" by simp
  from lapd_reachable [OF this ok, of 2 251] show ?thesis by blast
qed

end
