(* ===== verification/Lapd_Link.thy ===== *)
theory Lapd_Link
  imports Lapd_Run
begin

text \<open>
  Two LAPD data links back to back: a user and a network side establish the link and exchange messages in both directions; the
  frames of one are the events of the other. Shown is that bursts of messages, longer than the window and from either side in turn, arrive
  complete, in order and once over a channel that loses nothing. The last section
  holds sequences of events the handlers do not stand.
\<close>

subsection \<open>A side of an established link\<close>

text \<open>\<open>waiting c d\<close>: the link is up in both directions and \<open>d\<close> frames are outstanding; only their places in the history are
  occupied. \<open>drained\<close>: nothing is left to send.\<close>

definition link_up :: "lapd_cfg \<Rightarrow> lapd_datalink \<Rightarrow> bool" where
  "link_up c dl \<longleftrightarrow> lapd_base c dl \<and> range_hist dl \<le> cfg_range c \<and> dl_state dl = LAPD_STATE_MF_EST \<and> own_busy dl = 0 \<and> peer_busy dl = 0 \<and> \<not> rts_flag dl"

definition waiting :: "lapd_cfg \<Rightarrow> nat \<Rightarrow> lapd_datalink \<Rightarrow> bool" where
  "waiting c d dl \<longleftrightarrow> link_up c dl \<and> unat (sub_mod (v_send dl) (v_ack dl) (cfg_range c)) = d \<and> d \<le> unat (win_k dl)
     \<and> (\<forall>i<length (tx_hist dl). hmsg (tx_hist dl ! i) \<noteq> None \<longrightarrow> (\<exists>j<d. i = (unat (v_ack dl) + j) mod unat (range_hist dl)))"

definition drained :: "lapd_datalink \<Rightarrow> bool" where
  "drained dl \<longleftrightarrow> send_queue dl = [] \<and> (send_buffer dl = None \<or> map_option length (send_buffer dl) = Some (send_out dl))"

definition link_params :: "lapd_datalink \<Rightarrow> lapd_cr_ent \<times> lapd_cr_ent \<times> lapd_msg_ctx \<times> u8 \<times> int \<times> u8 \<times> u8 \<times> msg option" where
  "link_params dl = (loc2rem dl, rem2loc dl, lctx dl, win_k dl, maxf dl, v_recv dl, v_ack dl, rcv_buffer dl)"

lemma waiting_hist_dvd:
  assumes "waiting c d dl"
  shows "unat (range_hist dl) dvd unat (cfg_range c)"
proof -
  from assms have "seq_range (range_hist dl)" "seq_range (cfg_range c)" "range_hist dl \<le> cfg_range c" by (auto simp: waiting_def link_up_def lapd_base_def)
  then obtain h n where h: "h < 8" "range_hist dl = 2 ^ h" "n < 8" "cfg_range c = 2 ^ n" "unat (range_hist dl) \<le> unat (cfg_range c)"
    by (auto simp: seq_range_def word_le_nat_alt)
  then have "h \<le> n" using unat_seq_range [of h] unat_seq_range [of n] by simp
  then show ?thesis using h unat_seq_range [of h] unat_seq_range [of n] by (simp add: le_imp_power_dvd)
qed

lemma seq_slot: "seq_range m \<Longrightarrow> unat (do_mod x m) = unat x mod unat m"
  using mod_fns_nat(1) unat_seq_range by (auto simp: seq_range_def)

lemma inc_mod_mod:
  assumes "seq_range m" "x < m" "h dvd unat m"
  shows "unat (inc_mod x m) mod h = (unat x + 1) mod h"
proof (cases "unat x + 1 = unat m")
  case True
  then show ?thesis using assms seq_range_fns(2) [OF assms(1,2)] by (simp add: dvd_eq_mod_eq_0)
next
  case False
  then show ?thesis using seq_range_fns(2) [OF assms(1,2)] by simp
qed

lemma sub_mod_mod:
  assumes "seq_range m" "x < m" "y < m" "h dvd unat m"
  shows "(unat y + unat (sub_mod x y m)) mod h = unat x mod h"
proof (cases "y \<le> x")
  case True
  then show ?thesis using seq_range_fns(4) [OF assms(1-3)] by (simp add: word_le_nat_alt)
next
  case False
  then have "unat y + unat (sub_mod x y m) = unat x + unat m"
    using seq_range_fns(4) [OF assms(1-3)] assms(2,3) by (simp add: word_le_nat_alt word_less_nat_alt)
  then show ?thesis using assms(4) by (auto elim!: dvdE)
qed

lemma waiting_v_send_slot:
  assumes "waiting c d dl"
  shows "unat (do_mod (v_send dl) (range_hist dl)) = (unat (v_ack dl) + d) mod unat (range_hist dl)" (is "?s = _")
    and "hmsg (tx_hist dl ! unat (do_mod (v_send dl) (range_hist dl))) = None"
proof -
  let ?h = "unat (range_hist dl)"
  from assms have r: "seq_range (range_hist dl)" "seq_range (cfg_range c)" "v_send dl < cfg_range c" "v_ack dl < cfg_range c"
    and l: "length (tx_hist dl) = ?h" and d: "d = unat (sub_mod (v_send dl) (v_ack dl) (cfg_range c))" "d \<le> unat (win_k dl)" "unat (win_k dl) < ?h"
    by (auto simp: waiting_def link_up_def lapd_base_def word_less_nat_alt)
  show s: "?s = (unat (v_ack dl) + d) mod ?h"
    unfolding seq_slot [OF r(1)] d(1) using sub_mod_mod [OF r(2,3,4) waiting_hist_dvd [OF assms]] by simp
  show "hmsg (tx_hist dl ! ?s) = None"
  proof (rule ccontr)
    assume "hmsg (tx_hist dl ! ?s) \<noteq> None"
    moreover have "?s < length (tx_hist dl)" using r(1) l by (simp add: seq_range_fns)
    ultimately obtain j where j: "j < d" "?s = (unat (v_ack dl) + j) mod ?h" using assms by (auto simp: waiting_def)
    then have "(unat (v_ack dl) + d) mod ?h = (unat (v_ack dl) + j) mod ?h" using s by simp
    then have "?h dvd (unat (v_ack dl) + d) - (unat (v_ack dl) + j)" using j(1) by (simp add: mod_eq_dvd_iff_nat)
    then have "?h dvd d - j" by simp
    with j(1) d(2,3) show False by (auto dest: dvd_imp_le)
  qed
qed

subsection \<open>Segmentation\<close>

fun chunks :: "nat \<Rightarrow> 'a list \<Rightarrow> 'a list list" where
  "chunks n [] = []"
| "chunks n (x # xs) = (x # take n xs) # chunks n (drop n xs)"

lemma chunks_step: "xs \<noteq> [] \<Longrightarrow> chunks n xs = take (Suc n) xs # chunks n (drop (Suc n) xs)"
  by (cases xs) auto

lemma chunks_empty [simp]: "chunks n xs = [] \<longleftrightarrow> xs = []"
  by (cases xs) auto

lemma concat_chunks [simp]: "concat (chunks n xs) = xs"
  by (induction n xs rule: chunks.induct) auto

text \<open>The segments of a message, each with the sign whether more of the message follows; the frames of segments numbered from \<open>s\<close>.\<close>

primrec marked :: "'a list \<Rightarrow> ('a \<times> bool) list" where
  "marked [] = []"
| "marked (x # xs) = (x, xs \<noteq> []) # marked xs"

definition segments :: "nat \<Rightarrow> msg \<Rightarrow> (msg \<times> bool) list" where
  "segments n m = marked (chunks n m)"

lemma segments_Nil [simp]: "segments n [] = []"
  by (simp add: segments_def)

lemma segments_step: "xs \<noteq> [] \<Longrightarrow> segments n xs = (take (Suc n) xs, drop (Suc n) xs \<noteq> []) # segments n (drop (Suc n) xs)"
  by (simp add: segments_def chunks_step)

lemma segments_empty [simp]: "segments n xs = [] \<longleftrightarrow> xs = []"
  by (cases "xs = []") (simp_all add: segments_step)

lemma length_segments: "length (segments n xs) \<le> length xs"
proof -
  have "length (marked ys) = length ys" for ys :: "msg list" by (induction ys) simp_all
  moreover have "length (chunks n xs) \<le> length xs" by (induction n xs rule: chunks.induct) simp_all
  ultimately show ?thesis by (simp add: segments_def)
qed

primrec i_frames :: "u8 \<Rightarrow> lapd_msg_ctx \<Rightarrow> u8 \<Rightarrow> (msg \<times> bool) list \<Rightarrow> lapd_out list" where
  "i_frames vr ctx s [] = []"
| "i_frames vr ctx s (x # xs) =
     To_L1 (ctx\<lparr>n_send := s, length_ind := int (length (fst x)), m_bit := (if snd x then 1 else 0)\<rparr>) (fst x) # i_frames vr ctx (inc_mod s vr) xs"

primrec steps :: "u8 \<Rightarrow> nat \<Rightarrow> u8 \<Rightarrow> u8" where
  "steps vr 0 v = v"
| "steps vr (Suc n) v = steps vr n (inc_mod v vr)"

lemma i_frames_append: "i_frames vr ctx s (xs @ ys) = i_frames vr ctx s xs @ i_frames vr ctx (steps vr (length xs) s) ys"
  by (induction xs arbitrary: s) simp_all

lemma steps_add: "steps vr (a + b) v = steps vr b (steps vr a v)"
  by (induction a arbitrary: v) simp_all

text \<open>What a side still has to send: the rest of the message in the send buffer and the messages of the queue. \<open>outgoing c d n ts\<close>:
  \<open>d\<close> frames of up to \<open>n + 1\<close> octets are outstanding, \<open>ts\<close> is left.\<close>

definition todo :: "nat \<Rightarrow> lapd_datalink \<Rightarrow> (msg \<times> bool) list" where
  "todo n dl = (case send_buffer dl of None \<Rightarrow> [] | Some b \<Rightarrow> segments n (drop (send_out dl) b)) @ concat (map (segments n) (send_queue dl))"

definition outgoing :: "lapd_cfg \<Rightarrow> nat \<Rightarrow> nat \<Rightarrow> (msg \<times> bool) list \<Rightarrow> lapd_datalink \<Rightarrow> bool" where
  "outgoing c d n ts dl \<longleftrightarrow> waiting c d dl \<and> n201 (lctx dl) = int (Suc n) \<and> [] \<notin> set (send_queue dl) \<and> todo n dl = ts"

definition i_ctx :: "lapd_datalink \<Rightarrow> lapd_msg_ctx" where
  "i_ctx dl = (lctx dl)\<lparr>c_r := cmd (loc2rem dl), format := LAPD_FORM_I, p_f := 0, n_recv := v_recv dl\<rparr>"

lemma waiting_window: "waiting c d dl \<Longrightarrow> v_send dl = add_mod (v_ack dl) (win_k dl) (cfg_range c) \<longleftrightarrow> d = unat (win_k dl)"
proof -
  assume w: "waiting c d dl"
  then have r: "seq_range (cfg_range c)" "v_send dl < cfg_range c" "v_ack dl < cfg_range c" "win_k dl < cfg_range c"
    and d: "d = unat (sub_mod (v_send dl) (v_ack dl) (cfg_range c))"
    by (auto simp: waiting_def link_up_def lapd_base_def)
  show ?thesis using r(2-4)
    unfolding word_unat_eq_iff d seq_range_fns(3) [OF r(1,3,4)] seq_range_fns(4) [OF r(1,2,3)] word_less_nat_alt word_le_nat_alt
    by (auto split: if_splits)
qed

text \<open>One frame more: its place in the history is taken, \<open>V(S)\<close> moves on.\<close>

lemma waiting_send:
  assumes w: "waiting c d dl" and k: "d < unat (win_k dl)"
    and hs: "hs = (tx_hist dl)[unat (do_mod (v_send dl) (range_hist dl)) := e]"
    and b: "\<And>b. y = Some b \<Longrightarrow> x \<le> length b"
  shows "waiting c (Suc d) (dl\<lparr>tx_hist := hs, send_out := x, send_buffer := y, send_queue := z, v_send := inc_mod (v_send dl) (cfg_range c)\<rparr>)"
proof -
  from w have r: "seq_range (cfg_range c)" "v_send dl < cfg_range c" "v_ack dl < cfg_range c" "win_k dl < cfg_range c"
    and d: "d = unat (sub_mod (v_send dl) (v_ack dl) (cfg_range c))" "sub_mod (v_send dl) (v_ack dl) (cfg_range c) \<le> win_k dl"
    and used: "\<forall>i<length (tx_hist dl). hmsg (tx_hist dl ! i) \<noteq> None \<longrightarrow> (\<exists>j<d. i = (unat (v_ack dl) + j) mod unat (range_hist dl))"
    by (auto simp: waiting_def link_up_def lapd_base_def word_le_nat_alt)
  have "v_send dl \<noteq> add_mod (v_ack dl) (win_k dl) (cfg_range c)" using waiting_window [OF w] k by simp
  from window_step [OF r d(2) this] have dist: "unat (sub_mod (inc_mod (v_send dl) (cfg_range c)) (v_ack dl) (cfg_range c)) = Suc d" using d(1) by simp
  have "\<exists>j<Suc d. i = (unat (v_ack dl) + j) mod unat (range_hist dl)" if i: "i < length (tx_hist dl)" "hmsg (hs ! i) \<noteq> None" for i
  proof (cases "i = unat (do_mod (v_send dl) (range_hist dl))")
    case True
    then show ?thesis using waiting_v_send_slot(1) [OF w] by auto
  next
    case False
    then have "hmsg (tx_hist dl ! i) \<noteq> None" using i hs by simp
    with used i(1) show ?thesis using less_SucI by blast
  qed
  then show ?thesis using w b k dist hs r(1) by (auto simp: waiting_def link_up_def lapd_base_def rts_flag_def)
qed

lemma waiting_timers [simp]:
  "waiting c d (lapd_start_t200 dl) = waiting c d dl" "waiting c d (lapd_stop_t200 dl) = waiting c d dl"
  "waiting c d (lapd_start_t203 dl) = waiting c d dl" "waiting c d (lapd_stop_t203 dl) = waiting c d dl"
  "waiting c d (dl\<lparr>seq_err_cond := i\<rparr>) = waiting c d dl"
  by (simp_all add: waiting_def link_up_def lapd_updates rts_flag_def)

lemma link_params_timers [simp]:
  "link_params (lapd_start_t200 dl) = link_params dl" "link_params (lapd_stop_t200 dl) = link_params dl"
  "link_params (lapd_start_t203 dl) = link_params dl" "link_params (lapd_stop_t203 dl) = link_params dl"
  "link_params (dl\<lparr>seq_err_cond := i\<rparr>) = link_params dl"
  by (simp_all add: link_params_def lapd_updates)

lemma drained_timers [simp]:
  "drained (lapd_start_t200 dl) = drained dl" "drained (lapd_stop_t200 dl) = drained dl"
  "drained (lapd_start_t203 dl) = drained dl" "drained (lapd_stop_t203 dl) = drained dl" "drained (dl\<lparr>seq_err_cond := i\<rparr>) = drained dl"
  by (simp_all add: drained_def lapd_updates)

lemma waiting_fields:
  assumes "waiting c d dl"
  shows "peer_busy dl = 0" "own_busy dl = 0" "dl_state dl = LAPD_STATE_MF_EST" "v_range dl = cfg_range c" "\<not> rts_flag dl" "lapd_base c dl"
    "seq_range (cfg_range c)" "v_send dl < cfg_range c" "v_ack dl < cfg_range c" "v_recv dl < cfg_range c" "length (tx_hist dl) = unat (range_hist dl)"
    "unat (sub_mod (v_send dl) (v_ack dl) (cfg_range c)) = d" "d \<le> unat (win_k dl)"
  using assms by (simp_all add: waiting_def link_up_def lapd_base_def)

lemma send_loop_drained:
  assumes "waiting c d dl" "drained dl"
  shows "\<exists>dl'. send_i_loop rec_cb rc dl w = Some (rc, dl', w) \<and> waiting c d dl' \<and> drained dl' \<and> link_params dl' = link_params dl \<and> v_send dl' = v_send dl"
proof (cases "v_send dl = add_mod (v_ack dl) (win_k dl) (cfg_range c)")
  case True
  then show ?thesis using assms by (subst send_i_loop.simps) (auto simp: waiting_def link_up_def lapd_base_def)
next
  case False
  let ?d = "fill_send_buffer dl"
  have b: "lapd_base c dl" using assms by (simp add: waiting_def link_up_def)
  have f: "?d = dl\<lparr>send_out := 0, send_buffer := None, send_queue := []\<rparr>"
    using assms(2) by (auto simp: fill_send_buffer_def drained_def Let_def split: option.split)
  have "next_i_frame dl = Some (None, ?d)"
    using waiting_v_send_slot(2) [OF assms(1)] lapd_base_hist [OF b] by (simp add: next_i_frame_def rd_Some Let_def f)
  moreover have "waiting c d ?d \<and> drained ?d \<and> link_params ?d = link_params dl \<and> v_send ?d = v_send dl"
    using assms by (simp add: f waiting_def link_up_def lapd_base_def drained_def link_params_def rts_flag_def)
  ultimately show ?thesis using False waiting_fields [OF assms(1)] by (subst send_i_loop.simps) simp
qed


lemma outgoing_drained:
  assumes "waiting c d dl" "n201 (lctx dl) = int (Suc n)" "[] \<notin> set (send_queue dl)"
  shows "outgoing c d n [] dl \<longleftrightarrow> drained dl"
proof -
  have b: "send_out dl \<le> length b" if "send_buffer dl = Some b" for b using that waiting_fields(6) [OF assms(1)] by (simp add: lapd_base_def)
  have "concat (map (segments n) q) = [] \<longleftrightarrow> q = []" if "[] \<notin> set q" for q using that by (cases q) auto
  then show ?thesis using assms b by (auto simp: outgoing_def todo_def drained_def split: option.splits)
qed

lemma drained_outgoing: "waiting c d dl \<Longrightarrow> drained dl \<Longrightarrow> n201 (lctx dl) = int (Suc n) \<Longrightarrow> outgoing c d n [] dl"
  by (subst outgoing_drained) (auto simp: drained_def)

lemma todo_timers:
  "\<forall>e \<in> {lapd_start_t200 dl, lapd_stop_t200 dl, lapd_start_t203 dl, lapd_stop_t203 dl}. todo n e = todo n dl \<and> lctx e = lctx dl \<and> send_queue e = send_queue dl"
  by (simp add: todo_def lapd_updates cong: option.case_cong)

lemma outgoing_timers [simp]:
  "outgoing c d n ts (lapd_start_t200 dl) = outgoing c d n ts dl" "outgoing c d n ts (lapd_stop_t200 dl) = outgoing c d n ts dl"
  "outgoing c d n ts (lapd_start_t203 dl) = outgoing c d n ts dl" "outgoing c d n ts (lapd_stop_t203 dl) = outgoing c d n ts dl"
  using todo_timers [of dl n] by (simp_all add: outgoing_def)

lemma outgoing_done: "outgoing c d n [] dl \<Longrightarrow> drained dl"
  using outgoing_drained [of c d dl n] by (auto simp: outgoing_def)

lemma fill_todo:
  assumes "outgoing c d n ts dl" "ts \<noteq> []"
  obtains k b q where "fill_send_buffer dl = dl\<lparr>send_out := k, send_buffer := Some b, send_queue := q\<rparr>" "k < length b"
    "ts = segments n (drop k b) @ concat (map (segments n) q)" "[] \<notin> set q"
proof (cases "\<exists>b. send_buffer dl = Some b \<and> send_out dl < length b")
  case True
  then obtain b where b: "send_buffer dl = Some b" "send_out dl < length b" by blast
  then have "dl = dl\<lparr>send_out := send_out dl, send_buffer := Some b, send_queue := send_queue dl\<rparr>" by simp
  with b have "fill_send_buffer dl = dl\<lparr>send_out := send_out dl, send_buffer := Some b, send_queue := send_queue dl\<rparr>"
    by (simp add: fill_send_buffer_def)
  then show ?thesis by (rule that) (use b assms in \<open>simp_all add: outgoing_def todo_def\<close>)
next
  case False
  have le: "send_out dl \<le> length b" if "send_buffer dl = Some b" for b
    using that assms(1) waiting_fields(6) [of c d dl] by (simp add: outgoing_def lapd_base_def)
  with False have e: "send_out dl = length b" if "send_buffer dl = Some b" for b using that by (meson le_neq_implies_less)
  then have ts: "ts = concat (map (segments n) (send_queue dl))" using assms(1) by (auto simp: outgoing_def todo_def split: option.splits)
  with assms obtain m q where q: "send_queue dl = m # q" "m \<noteq> []" "[] \<notin> set q" by (cases "send_queue dl") (auto simp: outgoing_def)
  have "fill_send_buffer dl = dl\<lparr>send_out := 0, send_buffer := Some m, send_queue := q\<rparr>"
    using e q by (auto simp: fill_send_buffer_def Let_def split: option.splits)
  then show ?thesis by (rule that) (use q ts in simp_all)
qed

text \<open>The loop sends until the window is full or nothing is left. First one frame, then the loop by induction over what is left.\<close>

lemma next_frame_sent:
  assumes "outgoing c d n (t # ts) dl" "d < unat (win_k dl)"
  shows "\<exists>dl'. send_i_loop rec_cb rc dl w =
      send_i_loop rec_cb 0 dl' (w @ [To_L1 ((i_ctx dl)\<lparr>n_send := v_send dl, length_ind := int (length (fst t)), m_bit := (if snd t then 1 else 0)\<rparr>) (fst t)])
    \<and> outgoing c (Suc d) n ts dl' \<and> link_params dl' = link_params dl \<and> v_send dl' = inc_mod (v_send dl) (cfg_range c)"
proof -
  have w: "waiting c d dl" and n: "n201 (lctx dl) = int (Suc n)" using assms(1) by (simp_all add: outgoing_def)
  note f = waiting_fields [OF w]
  obtain k b q where fill: "fill_send_buffer dl = dl\<lparr>send_out := k, send_buffer := Some b, send_queue := q\<rparr>" and kb: "k < length b"
    and ts: "t # ts = segments n (drop k b) @ concat (map (segments n) q)" and q: "[] \<notin> set q"
    using fill_todo [OF assms(1)] by (metis list.distinct(1))
  define rest where "rest = drop k b"
  have rest: "rest \<noteq> []" "length rest = length b - k" using kb by (simp_all add: rest_def)
  have t: "t = (take (Suc n) rest, drop (Suc n) rest \<noteq> [])" "ts = segments n (drop (Suc n) rest) @ concat (map (segments n) q)"
    using ts segments_step [OF rest(1)] by (simp_all add: rest_def [symmetric])
  have nw: "v_send dl \<noteq> add_mod (v_ack dl) (win_k dl) (cfg_range c)" using waiting_window [OF w] assms(2) by simp
  define x where "x = take (Suc n) rest"
  define o' where "o' = k + length x"
  define h where "h = unat (do_mod (v_send dl) (range_hist dl))"
  define mb :: u8 where "mb = (if snd t then 1 else 0)"
  define hs where "hs = (tx_hist dl)[h := \<lparr>hmsg = Some x, hmore = mb\<rparr>]"
  define fr where "fr = (i_ctx dl)\<lparr>n_send := v_send dl, length_ind := int (length x), m_bit := mb\<rparr>"
  define d1 where "d1 = dl\<lparr>tx_hist := hs, send_out := o', send_buffer := Some b, send_queue := q, v_send := inc_mod (v_send dl) (cfg_range c)\<rparr>"
  define d2 where "d2 = (if \<not> lapd_is_t200_started d1 then lapd_start_t200 (lapd_stop_t203 d1) else d1)"
  have lx: "length x = min (Suc n) (length rest)" by (simp add: x_def)
  have o': "o' \<le> length b" using lx rest kb by (simp add: o'_def)
  have hh: "h < length (tx_hist dl)" unfolding h_def using f(6) by (rule lapd_base_hist)
  have left: "int (length b) - int k = int (length rest)" using rest kb by simp
  have nn: "(if n201 (lctx dl) < int (length rest) then n201 (lctx dl) else int (length rest)) = int (length x)" using n lx by auto
  have m: "int (length x) < int (length rest) \<longleftrightarrow> snd t" using lx by (auto simp: t(1))
  have x: "octets_of (drop k b) (int (length x)) = Some x" using lx by (auto simp: octets_of_def rest_def [symmetric] x_def min_def)
  have fr: "(lctx dl)\<lparr>c_r := cmd (loc2rem dl), format := LAPD_FORM_I, p_f := 0, n_send := v_send dl, n_recv := v_recv dl, length_ind := int (length x), m_bit := mb\<rparr> = fr"
    by (rule lapd_msg_ctx.equality) (simp_all add: fr_def i_ctx_def)
  have mb: "(if int (length x) < int (length rest) then 1 else 0) = mb" unfolding m mb_def by simp
  have rd: "rd (tx_hist dl) h = Some (tx_hist dl ! h)" "hmsg (tx_hist dl ! h) = None"
    using hh waiting_v_send_slot(2) [OF w] by (simp_all add: rd_Some h_def)
  define g where "g = dl\<lparr>send_out := k, send_buffer := Some b, send_queue := q\<rparr>"
  have g: "send_buffer g = Some b" "send_out g = k" "lctx g = lctx dl" "tx_hist g = tx_hist dl" by (simp_all add: g_def)
  have "next_i_frame dl = Some (Some (fr, x), g\<lparr>tx_hist := hs, send_out := o'\<rparr>)"
    unfolding next_i_frame_def h_def [symmetric] Let_def fill g_def [symmetric] rd option.case bind.bind_lunit g left nn x mb
    using hh fr by (simp add: msg_to_tx_hist_def wr_def hs_def o'_def g) (simp add: fr_def)
  then have nf: "next_i_frame dl = Some (Some (fr, x), dl\<lparr>send_out := o', send_buffer := Some b, send_queue := q, tx_hist := hs\<rparr>)"
    by (simp add: g_def)
  have w2: "waiting c (Suc d) d2" unfolding d2_def d1_def using o' waiting_send [OF w assms(2) hs_def [unfolded h_def], of "Some b" o' q] by simp
  have d1: "dl\<lparr>send_out := o', send_buffer := Some b, send_queue := q, tx_hist := hs, v_send := inc_mod (v_send dl) (cfg_range c)\<rparr> = d1" by (simp add: d1_def)
  have e: "send_i_loop rec_cb rc dl w = send_i_loop rec_cb 0 d2 (w @ [To_L1 fr x])"
    using f nw nf waiting_fields(5) [OF w2] d1 by (subst send_i_loop.simps) (auto simp: Let_def d2_def)
  have p2: "link_params d2 = link_params dl" "send_buffer d2 = Some b" "send_out d2 = o'" "send_queue d2 = q" "v_send d2 = inc_mod (v_send dl) (cfg_range c)"
    by (simp_all add: d2_def d1_def link_params_def lapd_updates)
  have "drop o' b = drop (Suc n) rest" using lx by (auto simp: o'_def rest_def min_def add.commute)
  then have "outgoing c (Suc d) n ts d2" using w2 p2 n q t(2) by (simp add: outgoing_def todo_def link_params_def)
  then show ?thesis using e p2(1,5) by (intro exI [of _ d2]) (simp add: fr_def x_def mb_def t(1))
qed

lemma send_loop_fills:
  assumes "outgoing c d n ts dl"
  shows "\<exists>rc' dl'. send_i_loop rec_cb rc dl w = Some (rc', dl', w @ i_frames (cfg_range c) (i_ctx dl) (v_send dl) (take (unat (win_k dl) - d) ts))
    \<and> outgoing c (d + length (take (unat (win_k dl) - d) ts)) n (drop (unat (win_k dl) - d) ts) dl' \<and> link_params dl' = link_params dl
    \<and> v_send dl' = steps (cfg_range c) (length (take (unat (win_k dl) - d) ts)) (v_send dl)"
  using assms
proof (induction ts arbitrary: rc d dl w)
  case Nil
  have w: "waiting c d dl" "n201 (lctx dl) = int (Suc n)" using Nil by (simp_all add: outgoing_def)
  from send_loop_drained [OF w(1) outgoing_done [OF Nil], of rc w] obtain dl' where
    dl': "send_i_loop rec_cb rc dl w = Some (rc, dl', w)" "waiting c d dl'" "drained dl'" "link_params dl' = link_params dl" "v_send dl' = v_send dl" by blast
  then show ?case using drained_outgoing [OF dl'(2,3)] w(2) by (simp add: link_params_def)
next
  case (Cons t ts)
  note f = waiting_fields [of c d dl]
  have w: "waiting c d dl" using Cons(2) by (simp add: outgoing_def)
  show ?case
  proof (cases "d = unat (win_k dl)")
    case True
    then have "v_send dl = add_mod (v_ack dl) (win_k dl) (v_range dl)" using waiting_window [OF w] f(4) [OF w] by simp
    then show ?thesis using True f(1,3) [OF w] Cons(2) by (subst send_i_loop.simps) auto
  next
    case False
    then have k: "d < unat (win_k dl)" using f(13) [OF w] by simp
    from next_frame_sent [OF Cons(2) k, of rc w] obtain d2 where d2: "send_i_loop rec_cb rc dl w =
        send_i_loop rec_cb 0 d2 (w @ [To_L1 ((i_ctx dl)\<lparr>n_send := v_send dl, length_ind := int (length (fst t)), m_bit := (if snd t then 1 else 0)\<rparr>) (fst t)])"
      "outgoing c (Suc d) n ts d2" "link_params d2 = link_params dl" "v_send d2 = inc_mod (v_send dl) (cfg_range c)" by blast
    have p: "win_k d2 = win_k dl" "i_ctx d2 = i_ctx dl" using d2(3) by (simp_all add: link_params_def i_ctx_def)
    obtain j where j: "unat (win_k dl) - d = Suc j" "unat (win_k d2) - Suc d = j" using k p by (cases "unat (win_k dl) - d") auto
    let ?w = "w @ [To_L1 ((i_ctx dl)\<lparr>n_send := v_send dl, length_ind := int (length (fst t)), m_bit := (if snd t then 1 else 0)\<rparr>) (fst t)]"
    show ?thesis using Cons(1) [OF d2(2), of 0 ?w] unfolding j d2(1) p(2) d2(3,4) by simp
  qed
qed

abbreviation data_request :: "msg \<Rightarrow> lapd_event" where
  "data_request m \<equiv> Dlsap \<lparr>primitive = PRIM_DL_DATA, operation = PRIM_OP_REQUEST, param = 0, pmsg = Some m\<rparr> zero_ctx"

text \<open>A request queues its message; as much of it is sent as the window admits.\<close>

lemma data_request_sends:
  assumes "outgoing c d n ts dl" and m: "m \<noteq> []"
  shows "\<exists>dl'. lapd_step (data_request m) (dl, out) =
      Some (dl', out @ i_frames (cfg_range c) (i_ctx dl) (v_send dl) (take (unat (win_k dl) - d) (ts @ segments n m)))
    \<and> outgoing c (d + length (take (unat (win_k dl) - d) (ts @ segments n m))) n (drop (unat (win_k dl) - d) (ts @ segments n m)) dl' \<and> link_params dl' = link_params dl
    \<and> v_send dl' = steps (cfg_range c) (length (take (unat (win_k dl) - d) (ts @ segments n m))) (v_send dl)"
proof -
  let ?q = "dl\<lparr>send_queue := send_queue dl @ [m]\<rparr>"
  have w: "waiting c d dl" using assms(1) by (simp add: outgoing_def)
  note f = waiting_fields [OF w]
  have wq: "waiting c d ?q" using w by (simp add: waiting_def link_up_def lapd_base_def rts_flag_def)
  have "todo n ?q = todo n dl @ segments n m" by (simp add: todo_def cong: option.case_cong)
  then have o: "outgoing c d n (ts @ segments n m) ?q" using assms wq by (auto simp: outgoing_def)
  have q: "win_k ?q = win_k dl" "i_ctx ?q = i_ctx dl" "v_send ?q = v_send dl" "link_params ?q = link_params dl" by (simp_all add: i_ctx_def link_params_def)
  have "lapd_recv_dlsap rec_cb \<lparr>primitive = PRIM_DL_DATA, operation = PRIM_OP_REQUEST, param = 0, pmsg = Some m\<rparr> zero_ctx dl out =
      lapd_data_req rec_cb \<lparr>primitive = PRIM_DL_DATA, operation = PRIM_OP_REQUEST, param = 0, pmsg = Some m\<rparr> zero_ctx dl out"
    unfolding lapd_recv_dlsap_def l2downstatelist_def find_case_Cons prod.case lapd_state_masks using f(3) by simp
  then have "lapd_step (data_request m) (dl, out) = do { (_, dl', w') \<leftarrow> send_i_loop rec_cb (- 1) ?q out; Some (dl', w') }"
    using f m by (simp add: lapd_data_req_def lapd_send_i_def rts_flag_def split: Option.bind_split)
  then show ?thesis using send_loop_fills [OF o, of "- 1" out] unfolding q by auto
qed

lemma take_drop_rest:
  "take k (xs @ ys) = take k xs @ take (k - length xs) (drop k xs @ ys)" "drop k (xs @ ys) = drop (k - length xs) (drop k xs @ ys)"
  by (cases "k \<le> length xs"; simp)+

lemma data_requests_send:
  assumes "outgoing c d n ts dl" "ts = [] \<or> d = unat (win_k dl)" "[] \<notin> set ms" and "xs = ts @ concat (map (segments n) ms)"
  shows "\<exists>dl'. run lapd_step (map data_request ms) (dl, out) =
      Some (dl', out @ i_frames (cfg_range c) (i_ctx dl) (v_send dl) (take (unat (win_k dl) - d) xs))
    \<and> outgoing c (d + length (take (unat (win_k dl) - d) xs)) n (drop (unat (win_k dl) - d) xs) dl' \<and> link_params dl' = link_params dl
    \<and> v_send dl' = steps (cfg_range c) (length (take (unat (win_k dl) - d) xs)) (v_send dl)"
  using assms
proof (induction ms arbitrary: d ts dl xs out)
  case Nil
  then show ?case by auto
next
  case (Cons m ms)
  let ?k = "unat (win_k dl) - d" and ?s = "ts @ segments n m"
  have "m \<noteq> []" using Cons(4) by auto
  from data_request_sends [OF Cons(2) this, of out] obtain d1 where
    d1: "lapd_step (data_request m) (dl, out) = Some (d1, out @ i_frames (cfg_range c) (i_ctx dl) (v_send dl) (take ?k ?s))"
      "outgoing c (d + length (take ?k ?s)) n (drop ?k ?s) d1" "link_params d1 = link_params dl" "v_send d1 = steps (cfg_range c) (length (take ?k ?s)) (v_send dl)" by blast
  have p: "win_k d1 = win_k dl" "i_ctx d1 = i_ctx dl" using d1(3) by (simp_all add: link_params_def i_ctx_def)
  have d: "d \<le> unat (win_k dl)" using Cons(2) by (simp add: outgoing_def waiting_def)
  have full: "drop ?k ?s = [] \<or> d + length (take ?k ?s) = unat (win_k d1)" using d p by auto
  have xs: "xs = ?s @ concat (map (segments n) ms)" using Cons(5) by simp
  have j: "unat (win_k dl) - (d + length (take ?k ?s)) = ?k - length ?s" by simp
  have t: "take ?k xs = take ?k ?s @ take (?k - length ?s) (drop ?k ?s @ concat (map (segments n) ms))"
    "drop ?k xs = drop (?k - length ?s) (drop ?k ?s @ concat (map (segments n) ms))"
    unfolding xs by (rule take_drop_rest)+
  note ih = Cons(1) [OF d1(2) full, of _ "out @ i_frames (cfg_range c) (i_ctx dl) (v_send dl) (take ?k ?s)", unfolded j p d1(3,4)]
  have "[] \<notin> set ms" using Cons(4) by auto
  from ih [OF this refl] d1(1) show ?case
    unfolding t by (simp only: list.map run.simps bind.bind_lunit i_frames_append steps_add length_append append_assoc add.assoc)
qed

text \<open>The peer acknowledges one more frame.\<close>

lemma waiting_ack:
  assumes w: "waiting c (Suc d) dl" and hs: "hs = (tx_hist dl)[unat (do_mod (v_ack dl) (range_hist dl)) := e\<lparr>hmsg := None\<rparr>]"
  shows "waiting c d (dl\<lparr>tx_hist := hs, v_ack := inc_mod (v_ack dl) (cfg_range c)\<rparr>)"
proof -
  note f = waiting_fields [OF w]
  let ?h = "unat (range_hist dl)"
  have rh: "seq_range (range_hist dl)" using f(6) by (simp add: lapd_base_def)
  have "v_ack dl \<noteq> v_send dl" using f(12) window_self [OF f(7,9)] by auto
  then have dist: "unat (sub_mod (v_send dl) (inc_mod (v_ack dl) (cfg_range c)) (cfg_range c)) = d"
    using distance_step [OF f(7,9,8)] f(12) by simp
  have "\<exists>j<d. i = (unat (inc_mod (v_ack dl) (cfg_range c)) + j) mod ?h" if i: "i < length (tx_hist dl)" "hmsg (hs ! i) \<noteq> None" for i
  proof -
    have ni: "i \<noteq> unat (do_mod (v_ack dl) (range_hist dl))" using i hs by auto
    then have "hmsg (tx_hist dl ! i) \<noteq> None" using i hs by simp
    with w i(1) obtain j where j: "j < Suc d" "i = (unat (v_ack dl) + j) mod ?h" by (auto simp: waiting_def)
    have "j \<noteq> 0" using j ni seq_slot [OF rh, of "v_ack dl"] by (cases j) auto
    then obtain j' where j': "j = Suc j'" by (cases j) auto
    have "i = (unat (v_ack dl) + 1 + j') mod ?h" using j j' by simp
    also have "\<dots> = ((unat (v_ack dl) + 1) mod ?h + j') mod ?h" by (simp only: mod_add_left_eq)
    also have "\<dots> = (unat (inc_mod (v_ack dl) (cfg_range c)) mod ?h + j') mod ?h"
      by (simp only: inc_mod_mod [OF f(7,9) waiting_hist_dvd [OF w]])
    also have "\<dots> = (unat (inc_mod (v_ack dl) (cfg_range c)) + j') mod ?h" by (simp only: mod_add_left_eq)
    finally show ?thesis using j j' by blast
  qed
  then show ?thesis using w dist hs f(7) by (auto simp: waiting_def link_up_def lapd_base_def rts_flag_def)
qed


lemma ack_counted:
  assumes o: "outgoing c (Suc d) n ts dl"
    and fr: "format ctx = LAPD_FORM_S" "s_u ctx = LAPD_S_RR" "p_f ctx = 0" "length_ind ctx = 0" "m_bit ctx = 0" "n_recv ctx = inc_mod (v_ack dl) (cfg_range c)"
  shows "\<exists>dl'. lapd_acknowledge ctx dl = Some (0, dl') \<and> outgoing c d n ts dl' \<and> v_send dl' = v_send dl
    \<and> link_params dl' = link_params (dl\<lparr>v_ack := inc_mod (v_ack dl) (cfg_range c)\<rparr>)"
proof -
  have w: "waiting c (Suc d) dl" using o by (simp add: outgoing_def)
  note f = waiting_fields [OF w]
  let ?i = "unat (do_mod (v_ack dl) (range_hist dl))"
  define e where "e = tx_hist dl ! ?i"
  define d1 where "d1 = dl\<lparr>tx_hist := (tx_hist dl)[?i := e\<lparr>hmsg := None\<rparr>]\<rparr>"
  have "0 < unat (win_k dl)" "unat (win_k dl) < unat (cfg_range c)" using f(6,13) by (simp_all add: lapd_base_def word_less_nat_alt)
  then have ne: "v_ack dl \<noteq> inc_mod (v_ack dl) (cfg_range c)"
    unfolding word_unat_eq_iff seq_range_fns(2) [OF f(7,9)] by auto
  have fa: "flush_acked (v_ack dl) (n_recv ctx) dl = Some d1"
    using ne lapd_base_hist [OF f(6)] f(4) fr(6)
    by (subst flush_acked.simps) (simp add: rd_Some flush_acked.simps [of i i for i] d1_def e_def)
  define d2 where "d2 = (lapd_stop_t200 d1)\<lparr>v_ack := n_recv ctx\<rparr>"
  have d2: "d2 = lapd_stop_t200 (dl\<lparr>tx_hist := (tx_hist dl)[?i := e\<lparr>hmsg := None\<rparr>], v_ack := inc_mod (v_ack dl) (cfg_range c)\<rparr>)"
    by (rule lapd_datalink.equality) (simp_all add: d2_def d1_def fr lapd_updates rts_flag_def)
  have w2: "waiting c d d2" "v_send d2 = v_send dl" "link_params d2 = link_params (dl\<lparr>v_ack := inc_mod (v_ack dl) (cfg_range c)\<rparr>)"
    unfolding d2 using waiting_ack [OF w refl, of e] by simp_all (simp add: link_params_def)
  have "todo n d2 = todo n dl" "send_queue d2 = send_queue dl" "lctx d2 = lctx dl" unfolding d2 by (simp_all add: todo_def lapd_updates cong: option.case_cong)
  then have o2: "outgoing c d n ts d2" using o w2(1) by (simp add: outgoing_def)
  have s1: "unat (sub_mod (n_recv ctx) (v_ack dl) (cfg_range c)) = 1"
    using distance_step [OF f(7,9) _ ne] window_self [OF f(7)] f(7) fr(6) by simp
  have "lapd_acknowledge ctx dl = ack_timers True d2"
    unfolding lapd_acknowledge_def Let_def fa bind.bind_lunit using f ne fr s1
    by (simp add: d1_def [symmetric] d2_def word_less_nat_alt) (simp add: d1_def)
  moreover have "unat (sub_mod (v_send d2) 1 (range_hist d2)) < length (tx_hist d2)"
    using waiting_fields(6) [OF w2(1)] seq_range_less(4) [of "range_hist d2"] by (simp add: lapd_base_def word_less_nat_alt)
  ultimately show ?thesis using w2(2,3) o2 by (simp add: ack_timers_def rd_Some Let_def)
qed

text \<open>The freed place in the window is used at once: transmission goes on with what is left.\<close>

lemma ack_received:
  assumes o: "outgoing c (Suc d) n ts dl"
    and fr: "format ctx = LAPD_FORM_S" "s_u ctx = LAPD_S_RR" "p_f ctx = 0" "length_ind ctx = 0" "m_bit ctx = 0" "n_recv ctx = inc_mod (v_ack dl) (cfg_range c)"
  shows "\<exists>dl'. lapd_step (Ph_data x ctx) (dl, out) = Some (dl', out @ i_frames (cfg_range c) (i_ctx dl) (v_send dl) (take (unat (win_k dl) - d) ts))
    \<and> outgoing c (d + length (take (unat (win_k dl) - d) ts)) n (drop (unat (win_k dl) - d) ts) dl'
    \<and> link_params dl' = link_params (dl\<lparr>v_ack := inc_mod (v_ack dl) (cfg_range c)\<rparr>)
    \<and> v_send dl' = steps (cfg_range c) (length (take (unat (win_k dl) - d) ts)) (v_send dl)"
proof -
  have f: "dl_state dl = LAPD_STATE_MF_EST" using o waiting_fields(3) by (auto simp: outgoing_def)
  obtain d3 where d3: "lapd_acknowledge ctx dl = Some (0, d3)" "outgoing c d n ts d3" "v_send d3 = v_send dl"
    "link_params d3 = link_params (dl\<lparr>v_ack := inc_mod (v_ack dl) (cfg_range c)\<rparr>)" using ack_counted [OF assms] by blast
  have p: "win_k d3 = win_k dl" "i_ctx d3 = i_ctx dl" using d3(4) by (simp_all add: link_params_def i_ctx_def)
  have "\<not> rts_flag d3" using d3(2) waiting_fields(5) by (auto simp: outgoing_def)
  then have "lapd_step (Ph_data x ctx) (dl, out) = do { (_, dl', w') \<leftarrow> send_i_loop rec_cb (- 1) d3 out; Some (dl', w') }"
    using f fr d3(1) by (simp add: lapd_ph_data_ind_def lapd_rx_s_def lapd_rx_s_rr_def lapd_send_i_def split: Option.bind_split)
  then show ?thesis using send_loop_fills [OF d3(2), of "- 1" out] unfolding p d3(3,4) by auto
qed

text \<open>The receiver takes the next frame, delivers the message with the last segment, and acknowledges.\<close>

definition rr_ctx :: "lapd_datalink \<Rightarrow> lapd_msg_ctx \<Rightarrow> lapd_msg_ctx" where
  "rr_ctx dl ctx = ctx\<lparr>c_r := resp (loc2rem dl), format := LAPD_FORM_S, s_u := LAPD_S_RR, p_f := 0, n_recv := inc_mod (v_recv dl) (v_range dl), length_ind := 0, m_bit := 0\<rparr>"

abbreviation data_ind :: "msg \<Rightarrow> osmo_dlsap_prim" where
  "data_ind m \<equiv> \<lparr>primitive = PRIM_DL_DATA, operation = PRIM_OP_INDICATION, param = 0, pmsg = Some m\<rparr>"

definition rcv_octets :: "lapd_datalink \<Rightarrow> msg" where
  "rcv_octets dl = (case rcv_buffer dl of None \<Rightarrow> [] | Some b \<Rightarrow> b)"

lemma acknowledge_none:
  assumes w: "waiting c 0 dl" "drained dl" and n: "n_recv ctx = v_ack dl" "format ctx \<noteq> LAPD_FORM_S"
  shows "\<exists>dl'. lapd_acknowledge ctx dl = Some (0, dl') \<and> waiting c 0 dl' \<and> drained dl' \<and> link_params dl' = link_params dl"
proof -
  note f = waiting_fields [OF w(1)]
  have "dl\<lparr>v_ack := v_ack dl\<rparr> = dl" by simp
  then have "lapd_acknowledge ctx dl = ack_timers False dl"
    using n f by (simp add: lapd_acknowledge_def Let_def flush_acked.simps [of i i for i] window_self)
  then show ?thesis using w by (simp add: ack_timers_def Let_def)
qed

lemma waiting_receive:
  "waiting c d dl \<Longrightarrow> waiting c d (dl\<lparr>v_recv := inc_mod v (cfg_range c)\<rparr>)" "waiting c d (dl\<lparr>rcv_buffer := b\<rparr>) = waiting c d dl"
  "drained (dl\<lparr>v_recv := u\<rparr>) = drained dl" "drained (dl\<lparr>rcv_buffer := b\<rparr>) = drained dl"
  by (auto simp: waiting_def link_up_def lapd_base_def rts_flag_def drained_def)

lemma frame_received:
  assumes w: "waiting c 0 dl" "drained dl"
    and fr: "format ctx = LAPD_FORM_I" "c_r ctx \<noteq> cfg_resp c" "p_f ctx = 0" "n_send ctx = v_recv dl" "n_recv ctx = v_ack dl"
    and x: "x \<noteq> []" "length_ind ctx = int (length x)" "length_ind ctx \<le> n201 ctx" "m_bit ctx \<noteq> 0 \<Longrightarrow> length_ind ctx = n201 ctx"
    and l: "int (length (rcv_octets dl)) + length_ind ctx \<le> maxf dl"
  shows "\<exists>dl'. lapd_step (Ph_data x ctx) (dl, out) = Some (dl', out @ (if m_bit ctx = 0 then [To_L3 (data_ind (rcv_octets dl @ x))] else []) @ [To_L1 (rr_ctx dl ctx) []])
    \<and> waiting c 0 dl' \<and> drained dl'
    \<and> link_params dl' = link_params (dl\<lparr>v_recv := inc_mod (v_recv dl) (cfg_range c), rcv_buffer := (if m_bit ctx = 0 then None else Some (rcv_octets dl @ x))\<rparr>)"
proof -
  note f = waiting_fields [OF w(1)]
  define d0 where "d0 = dl\<lparr>seq_err_cond := 0, v_recv := inc_mod (v_recv dl) (v_range dl)\<rparr>"
  have d0: "waiting c 0 d0" "drained d0" "v_ack d0 = v_ack dl"
    using w waiting_receive(1) [of c 0 "dl\<lparr>seq_err_cond := 0\<rparr>"] f(4) by (simp_all add: d0_def waiting_receive)
  have p0: "link_params d0 = link_params (dl\<lparr>v_recv := inc_mod (v_recv dl) (cfg_range c)\<rparr>)" using f(4) by (simp add: d0_def link_params_def)
  obtain d1 where d1: "lapd_acknowledge ctx d0 = Some (0, d1)" "waiting c 0 d1" "drained d1" "link_params d1 = link_params d0"
    using acknowledge_none [OF d0(1,2), of ctx] fr d0(3) by auto
  note f1 = waiting_fields [OF d1(2)]
  have p1: "maxf d1 = maxf dl" "rcv_buffer d1 = rcv_buffer dl" using d1(4) p0 by (simp_all add: link_params_def)
  define d2 where "d2 = d1\<lparr>rcv_buffer := (if m_bit ctx = 0 then None else Some (rcv_octets dl @ x))\<rparr>"
  define ind where "ind = (if m_bit ctx = 0 then [To_L3 (data_ind (rcv_octets dl @ x))] else [])"
  have oc: "octets_of x (length_ind ctx) = Some x" using x(2) by (simp add: octets_of_def)
  have dv: "\<exists>rc. deliver_i rec_cb x ctx d1 out = Some (rc, d2, out @ ind)"
  proof (cases "m_bit ctx = 0 \<and> rcv_buffer d1 = None")
    case True
    then have "d2 = d1" unfolding d2_def by (intro lapd_datalink.equality) simp_all
    with True show ?thesis using oc p1(2) by (simp add: deliver_i_def ind_def rcv_octets_def)
  next
    case False
    then show ?thesis using oc l p1 by (auto simp: deliver_i_def Let_def d2_def ind_def rcv_octets_def)
  qed
  have w2: "waiting c 0 d2" "drained d2" using d1 by (simp_all add: d2_def waiting_receive)
  obtain d3 where d3: "send_i_loop rec_cb (- 1) d2 (out @ ind) = Some (- 1, d3, out @ ind)" "waiting c 0 d3" "drained d3" "link_params d3 = link_params d2"
    using send_loop_drained [OF w2] by blast
  have si: "lapd_send_i rec_cb d2 (out @ ind) = Some (- 1, d3, out @ ind)" using d3(1) waiting_fields(5) [OF w2(1)] by (simp add: lapd_send_i_def)
  have p3: "link_params d3 = link_params (dl\<lparr>v_recv := inc_mod (v_recv dl) (cfg_range c), rcv_buffer := (if m_bit ctx = 0 then None else Some (rcv_octets dl @ x))\<rparr>)"
    using d3(4) d1(4) p0 by (simp add: d2_def link_params_def)
  then have rr: "ctx\<lparr>c_r := resp (loc2rem d3), format := LAPD_FORM_S, s_u := LAPD_S_RR, p_f := 0, n_recv := v_recv d3, length_ind := 0, m_bit := 0\<rparr> = rr_ctx dl ctx"
    using f(4) by (simp add: rr_ctx_def link_params_def)
  have "rx_i_reply rec_cb False ctx d2 (out @ ind) = Some (0, d3, out @ ind @ [To_L1 (rr_ctx dl ctx) []])"
    using fr(3) waiting_fields(2) [OF w2(1)] si rr by (simp add: rx_i_reply_def)
  then have "rx_i_in_seq rec_cb x ctx dl out = Some (0, d3, out @ ind @ [To_L1 (rr_ctx dl ctx) []])"
    using dv d1(1) f1(2) waiting_fields(3) [OF w2(1)] by (auto simp: rx_i_in_seq_def Let_def d0_def [symmetric])
  moreover have "resp (rem2loc dl) = cfg_resp c" using f(6) by (simp add: lapd_base_def)
  ultimately show ?thesis using f(3) fr x d3(2,3) p3
    by (auto simp: lapd_ph_data_ind_def lapd_rx_i_def ind_def)
qed

subsection \<open>Transfer of a message\<close>

fun frames_of :: "lapd_out list \<Rightarrow> lapd_event list" where
  "frames_of [] = []"
| "frames_of (To_L1 ctx m # w) = Ph_data m ctx # frames_of w"
| "frames_of (To_L3 dp # w) = frames_of w"

fun prims_of :: "lapd_out list \<Rightarrow> osmo_dlsap_prim list" where
  "prims_of [] = []"
| "prims_of (To_L1 ctx m # w) = prims_of w"
| "prims_of (To_L3 dp # w) = dp # prims_of w"

lemma frames_of_append [simp]: "frames_of (v @ w) = frames_of v @ frames_of w"
  by (induction v rule: frames_of.induct) simp_all

lemma prims_of_append [simp]: "prims_of (v @ w) = prims_of v @ prims_of w"
  by (induction v rule: prims_of.induct) simp_all

text \<open>What a receiver with the buffer \<open>b\<close> makes of segments: the completed messages and what is left in the buffer; and when it takes them.\<close>

definition join :: "msg option \<Rightarrow> msg \<Rightarrow> msg" where
  "join b x = (case b of None \<Rightarrow> x | Some y \<Rightarrow> y @ x)"

primrec assemble :: "msg option \<Rightarrow> (msg \<times> bool) list \<Rightarrow> msg list \<times> msg option" where
  "assemble b [] = ([], b)"
| "assemble b (x # xs) = (if snd x then assemble (Some (join b (fst x))) xs
     else (join b (fst x) # fst (assemble None xs), snd (assemble None xs)))"

primrec seg_ok :: "nat \<Rightarrow> int \<Rightarrow> msg option \<Rightarrow> (msg \<times> bool) list \<Rightarrow> bool" where
  "seg_ok n mf b [] \<longleftrightarrow> True"
| "seg_ok n mf b (x # xs) \<longleftrightarrow> fst x \<noteq> [] \<and> length (fst x) \<le> n \<and> (snd x \<longrightarrow> length (fst x) = n) \<and> int (length (join b (fst x))) \<le> mf
     \<and> seg_ok n mf (if snd x then Some (join b (fst x)) else None) xs"

lemma assemble_append: "assemble b (xs @ ys) = (fst (assemble b xs) @ fst (assemble (snd (assemble b xs)) ys), snd (assemble (snd (assemble b xs)) ys))"
  by (induction xs arbitrary: b) simp_all

lemma seg_ok_append: "seg_ok n mf b (xs @ ys) \<longleftrightarrow> seg_ok n mf b xs \<and> seg_ok n mf (snd (assemble b xs)) ys"
  by (induction xs arbitrary: b) simp_all

lemma join_take_drop: "join (Some (join b (take k m))) (drop k m) = join b m"
  by (simp add: join_def split: option.split)

lemma assemble_segments: "m \<noteq> [] \<Longrightarrow> assemble b (segments n m) = ([join b m], None)"
proof (induction m arbitrary: b rule: length_induct)
  case (1 m)
  show ?case
  proof (cases "drop (Suc n) m = []")
    case True
    then show ?thesis using 1(2) by (simp add: segments_step)
  next
    case False
    then have "length (drop (Suc n) m) < length m" by auto
    with 1(1) False have "assemble (Some (join b (take (Suc n) m))) (segments n (drop (Suc n) m)) = ([join (Some (join b (take (Suc n) m))) (drop (Suc n) m)], None)" by blast
    then show ?thesis using 1(2) False by (simp add: segments_step join_take_drop)
  qed
qed

lemma seg_ok_segments: "int (length (join b m)) \<le> mf \<Longrightarrow> seg_ok (Suc n) mf b (segments n m)"
proof (induction m arbitrary: b rule: length_induct)
  case (1 m)
  show ?case
  proof (cases "m = []")
    case False
    have l: "length (join b (take (Suc n) m)) \<le> length (join b m)" by (simp add: join_def split: option.split)
    show ?thesis
    proof (cases "drop (Suc n) m = []")
      case True
      then show ?thesis using 1(2) False by (auto simp: segments_step)
    next
      case d: False
      then have "length (drop (Suc n) m) < length m" by auto
      then have "seg_ok (Suc n) mf (Some (join b (take (Suc n) m))) (segments n (drop (Suc n) m))"
        using 1 join_take_drop by metis
      then show ?thesis using 1(2) l d False by (simp add: segments_step)
    qed
  qed simp
qed

lemma assemble_messages: "[] \<notin> set ms \<Longrightarrow> assemble None (concat (map (segments n) ms)) = (ms, None)"
  by (induction ms) (auto simp: assemble_append assemble_segments join_def)

lemma seg_ok_messages: "[] \<notin> set ms \<Longrightarrow> list_all (\<lambda>m. int (length m) \<le> mf) ms \<Longrightarrow> seg_ok (Suc n) mf None (concat (map (segments n) ms))"
  by (induction ms) (auto simp: seg_ok_append seg_ok_segments assemble_segments join_def)

text \<open>Acknowledgements of one frame after the other.\<close>

primrec rr_seq :: "u8 \<Rightarrow> u8 \<Rightarrow> lapd_event list \<Rightarrow> bool" where
  "rr_seq vr v [] \<longleftrightarrow> True"
| "rr_seq vr v (e # es) \<longleftrightarrow> (\<exists>x ctx. e = Ph_data x ctx \<and> format ctx = LAPD_FORM_S \<and> s_u ctx = LAPD_S_RR \<and> p_f ctx = 0 \<and> length_ind ctx = 0 \<and> m_bit ctx = 0
     \<and> n_recv ctx = inc_mod v vr) \<and> rr_seq vr (inc_mod v vr) es"

lemma acks_received:
  assumes "outgoing c (d + length es) n ts dl" "ts = [] \<or> d + length es = unat (win_k dl)" "rr_seq (cfg_range c) (v_ack dl) es"
  shows "\<exists>dl'. run lapd_step es (dl, out) = Some (dl', out @ i_frames (cfg_range c) (i_ctx dl) (v_send dl) (take (length es) ts))
    \<and> outgoing c (d + length (take (length es) ts)) n (drop (length es) ts) dl'
    \<and> link_params dl' = link_params (dl\<lparr>v_ack := steps (cfg_range c) (length es) (v_ack dl)\<rparr>)
    \<and> v_send dl' = steps (cfg_range c) (length (take (length es) ts)) (v_send dl)"
  using assms
proof (induction es arbitrary: d ts dl out)
  case Nil
  then show ?case by (simp add: link_params_def)
next
  case (Cons e es)
  then obtain x ctx where e: "e = Ph_data x ctx" and fr: "format ctx = LAPD_FORM_S" "s_u ctx = LAPD_S_RR" "p_f ctx = 0" "length_ind ctx = 0" "m_bit ctx = 0"
    "n_recv ctx = inc_mod (v_ack dl) (cfg_range c)" and es: "rr_seq (cfg_range c) (inc_mod (v_ack dl) (cfg_range c)) es" by auto
  have o: "outgoing c (Suc (d + length es)) n ts dl" using Cons(2) by simp
  have t: "take (unat (win_k dl) - (d + length es)) ts = take 1 ts" "drop (unat (win_k dl) - (d + length es)) ts = drop 1 ts"
  proof -
    have "unat (win_k dl) - (d + length es) = 1" if "ts \<noteq> []" using that Cons(3) by simp
    then show "take (unat (win_k dl) - (d + length es)) ts = take 1 ts" "drop (unat (win_k dl) - (d + length es)) ts = drop 1 ts" by force+
  qed
  from ack_received [OF o fr, of x out] obtain d1 where
    d1: "lapd_step e (dl, out) = Some (d1, out @ i_frames (cfg_range c) (i_ctx dl) (v_send dl) (take 1 ts))"
      "outgoing c (d + length es + length (take 1 ts)) n (drop 1 ts) d1"
      "link_params d1 = link_params (dl\<lparr>v_ack := inc_mod (v_ack dl) (cfg_range c)\<rparr>)" "v_send d1 = steps (cfg_range c) (length (take 1 ts)) (v_send dl)"
    unfolding e t by blast
  have p: "win_k d1 = win_k dl" "i_ctx d1 = i_ctx dl" "v_ack d1 = inc_mod (v_ack dl) (cfg_range c)" using d1(3) by (simp_all add: link_params_def i_ctx_def)
  let ?d = "d + length (take 1 ts)"
  have "outgoing c (?d + length es) n (drop 1 ts) d1" "drop 1 ts = [] \<or> ?d + length es = unat (win_k d1)"
    using d1(2) Cons(3) p(1) by (cases ts; simp)+
  from Cons(1) [OF this, of "out @ i_frames (cfg_range c) (i_ctx dl) (v_send dl) (take 1 ts)"] es obtain dl' where
    dl': "run lapd_step es (d1, out @ i_frames (cfg_range c) (i_ctx dl) (v_send dl) (take 1 ts)) =
        Some (dl', (out @ i_frames (cfg_range c) (i_ctx dl) (v_send dl) (take 1 ts)) @ i_frames (cfg_range c) (i_ctx dl) (v_send d1) (take (length es) (drop 1 ts)))"
      "outgoing c (?d + length (take (length es) (drop 1 ts))) n (drop (length es) (drop 1 ts)) dl'"
      "link_params dl' = link_params (d1\<lparr>v_ack := steps (cfg_range c) (length es) (v_ack d1)\<rparr>)"
      "v_send dl' = steps (cfg_range c) (length (take (length es) (drop 1 ts))) (v_send d1)"
    unfolding p by blast
  have a: "link_params dl' = link_params (dl\<lparr>v_ack := steps (cfg_range c) (length (e # es)) (v_ack dl)\<rparr>)"
    using dl'(3) d1(3) p(3) by (simp add: link_params_def)
  show ?case using d1(1) dl' a by (cases ts) (simp_all add: d1(4))
qed

lemma frames_received:
  assumes "waiting c 0 dl" "drained dl" "seg_ok (Suc n) (maxf dl) (rcv_buffer dl) segs"
    and "format ctx = LAPD_FORM_I" "c_r ctx \<noteq> cfg_resp c" "p_f ctx = 0" "n_recv ctx = v_ack dl" "n201 ctx = int (Suc n)"
  shows "\<exists>dl' outs. run lapd_step (frames_of (i_frames (cfg_range c) ctx (v_recv dl) segs)) (dl, out) = Some (dl', out @ outs) \<and> waiting c 0 dl' \<and> drained dl'
    \<and> prims_of outs = map data_ind (fst (assemble (rcv_buffer dl) segs))
    \<and> rr_seq (cfg_range c) (v_recv dl) (frames_of outs) \<and> length (frames_of outs) = length segs
    \<and> link_params dl' = link_params (dl\<lparr>v_recv := steps (cfg_range c) (length segs) (v_recv dl), rcv_buffer := snd (assemble (rcv_buffer dl) segs)\<rparr>)"
  using assms
proof (induction segs arbitrary: dl out)
  case Nil
  then show ?case by (intro exI [of _ dl] exI [of _ "[]"]) (simp add: link_params_def)
next
  case (Cons t segs)
  let ?x = "fst t" and ?y = "rcv_octets dl @ fst t"
  let ?ctx = "ctx\<lparr>n_send := v_recv dl, length_ind := int (length ?x), m_bit := (if snd t then 1 else 0)\<rparr>"
  have y: "join (rcv_buffer dl) ?x = ?y" by (simp add: join_def rcv_octets_def split: option.split)
  have vr: "v_range dl = cfg_range c" using waiting_fields(4) [OF Cons(2)] .
  have "\<exists>dl'. lapd_step (Ph_data ?x ?ctx) (dl, out) = Some (dl', out @ (if m_bit ?ctx = 0 then [To_L3 (data_ind ?y)] else []) @ [To_L1 (rr_ctx dl ?ctx) []])
    \<and> waiting c 0 dl' \<and> drained dl'
    \<and> link_params dl' = link_params (dl\<lparr>v_recv := inc_mod (v_recv dl) (cfg_range c), rcv_buffer := (if m_bit ?ctx = 0 then None else Some ?y)\<rparr>)"
    by (rule frame_received [OF Cons(2,3)]) (use Cons(4-) y in \<open>auto split: if_splits\<close>)
  then obtain d where d: "lapd_step (Ph_data ?x ?ctx) (dl, out) = Some (d, out @ (if snd t then [] else [To_L3 (data_ind ?y)]) @ [To_L1 (rr_ctx dl ?ctx) []])"
    "waiting c 0 d" "drained d"
    "link_params d = link_params (dl\<lparr>v_recv := inc_mod (v_recv dl) (cfg_range c), rcv_buffer := (if snd t then Some ?y else None)\<rparr>)"
    by auto
  define o1 where "o1 = (if snd t then [] else [To_L3 (data_ind ?y)]) @ [To_L1 (rr_ctx dl ?ctx) []]"
  have p: "v_recv d = inc_mod (v_recv dl) (cfg_range c)" "v_ack d = v_ack dl" "maxf d = maxf dl" "rcv_buffer d = (if snd t then Some ?y else None)"
    using d(4) by (auto simp: link_params_def)
  have "\<exists>dl' outs. run lapd_step (frames_of (i_frames (cfg_range c) ctx (v_recv d) segs)) (d, out @ o1) = Some (dl', (out @ o1) @ outs) \<and> waiting c 0 dl' \<and> drained dl'
    \<and> prims_of outs = map data_ind (fst (assemble (rcv_buffer d) segs))
    \<and> rr_seq (cfg_range c) (v_recv d) (frames_of outs) \<and> length (frames_of outs) = length segs
    \<and> link_params dl' = link_params (d\<lparr>v_recv := steps (cfg_range c) (length segs) (v_recv d), rcv_buffer := snd (assemble (rcv_buffer d) segs)\<rparr>)"
    by (rule Cons(1) [OF d(2,3)]) (use Cons(4-) p y in \<open>auto split: if_splits\<close>)
  then obtain dl' outs where ih: "run lapd_step (frames_of (i_frames (cfg_range c) ctx (v_recv d) segs)) (d, out @ o1) = Some (dl', (out @ o1) @ outs)"
    "waiting c 0 dl'" "drained dl'" "prims_of outs = map data_ind (fst (assemble (rcv_buffer d) segs))"
    "rr_seq (cfg_range c) (v_recv d) (frames_of outs)" "length (frames_of outs) = length segs"
    "link_params dl' = link_params (d\<lparr>v_recv := steps (cfg_range c) (length segs) (v_recv d), rcv_buffer := snd (assemble (rcv_buffer d) segs)\<rparr>)"
    by blast
  show ?case
  proof (intro exI [of _ dl'] exI [of _ "o1 @ outs"] conjI)
    show "run lapd_step (frames_of (i_frames (cfg_range c) ctx (v_recv dl) (t # segs))) (dl, out) = Some (dl', out @ o1 @ outs)"
      using d(1) ih(1) p by (simp add: o1_def)
    show "prims_of (o1 @ outs) = map data_ind (fst (assemble (rcv_buffer dl) (t # segs)))"
      using ih(4) p y by (simp add: o1_def)
    show "rr_seq (cfg_range c) (v_recv dl) (frames_of (o1 @ outs))"
      using ih(5) p vr by (simp add: o1_def rr_ctx_def)
    show "link_params dl' = link_params (dl\<lparr>v_recv := steps (cfg_range c) (length (t # segs)) (v_recv dl), rcv_buffer := snd (assemble (rcv_buffer dl) (t # segs))\<rparr>)"
      using ih(7) d(4) p y by (simp add: link_params_def)
  qed (use ih in \<open>simp_all add: o1_def\<close>)
qed


text \<open>Two sides of a link at rest: established, nothing outstanding, nothing left to send, the sequence numbers agree.\<close>

definition link_side :: "lapd_datalink \<Rightarrow> bool" where
  "link_side dl \<longleftrightarrow> dl_state dl = LAPD_STATE_MF_EST \<and> own_busy dl = 0 \<and> peer_busy dl = 0 \<and> \<not> rts_flag dl \<and> drained dl
     \<and> seq_range (v_range dl) \<and> seq_range (range_hist dl) \<and> range_hist dl \<le> v_range dl \<and> win_k dl < range_hist dl
     \<and> length (tx_hist dl) = unat (range_hist dl) \<and> list_all (\<lambda>h. hmsg h = None) (tx_hist dl)
     \<and> v_send dl < v_range dl \<and> v_recv dl < v_range dl \<and> v_ack dl = v_send dl \<and> 0 \<le> n201 (lctx dl)"

definition lapd_linked :: "lapd_datalink \<Rightarrow> lapd_datalink \<Rightarrow> bool" where
  "lapd_linked s r \<longleftrightarrow> link_side s \<and> link_side r \<and> v_range s = v_range r \<and> v_send s = v_recv r \<and> v_recv s = v_send r \<and> rcv_buffer s = None \<and> rcv_buffer r = None
     \<and> cmd (loc2rem s) \<noteq> resp (rem2loc r) \<and> cmd (loc2rem r) \<noteq> resp (rem2loc s) \<and> 0 < n201 (lctx s) \<and> 0 < n201 (lctx r)"

text \<open>The frames in flight are handled by the receiver \<open>r\<close>, its answers by the sender \<open>s\<close>, whose answers are in flight next, until
  neither has anything more to send; \<open>k\<close> bounds the rounds, \<open>None\<close> means that frames were left. The results are the primitives to the user of either side.\<close>

primrec lapd_pump :: "nat \<Rightarrow> lapd_event list \<Rightarrow> lapd_datalink \<Rightarrow> lapd_datalink \<Rightarrow> (osmo_dlsap_prim list \<times> osmo_dlsap_prim list \<times> lapd_datalink \<times> lapd_datalink) res" where
  "lapd_pump 0 fs s r = (if fs = [] then Some ([], [], s, r) else None)"
| "lapd_pump (Suc k) fs s r = (if fs = [] then Some ([], [], s, r) else do {
     (r, o2) \<leftarrow> run lapd_step fs (r, []);
     (s, o3) \<leftarrow> run lapd_step (frames_of o2) (s, []);
     (ps, pr, s, r) \<leftarrow> lapd_pump k (frames_of o3) s r;
     Some (prims_of o3 @ ps, prims_of o2 @ pr, s, r) })"

text \<open>A burst: the user of \<open>s\<close> requests all the messages before any answer arrives, then the frames are exchanged.\<close>

definition lapd_transfer :: "msg list \<Rightarrow> lapd_datalink \<Rightarrow> lapd_datalink \<Rightarrow> (osmo_dlsap_prim list \<times> osmo_dlsap_prim list \<times> lapd_datalink \<times> lapd_datalink) res" where
  "lapd_transfer ms s r = do {
     (s, o1) \<leftarrow> run lapd_step (map data_request ms) (s, []);
     (ps, pr, s, r) \<leftarrow> lapd_pump (length (concat ms)) (frames_of o1) s r;
     Some (prims_of o1 @ ps, pr, s, r) }"

text \<open>Bursts in either direction, \<open>True\<close> from the first side to the second; the result lists for each what either user got.\<close>

fun lapd_exchange :: "(bool \<times> msg list) list \<Rightarrow> lapd_datalink \<Rightarrow> lapd_datalink \<Rightarrow> ((osmo_dlsap_prim list \<times> osmo_dlsap_prim list) list \<times> lapd_datalink \<times> lapd_datalink) res" where
  "lapd_exchange [] s r = Some ([], s, r)"
| "lapd_exchange ((d, ms) # bs) s r = do {
     (ps, pr, s, r) \<leftarrow> (if d then lapd_transfer ms s r else do { (pr, ps, r, s) \<leftarrow> lapd_transfer ms r s; Some (ps, pr, s, r) });
     (out, s, r) \<leftarrow> lapd_exchange bs s r;
     Some ((ps, pr) # out, s, r) }"

definition cfg_side :: "lapd_datalink \<Rightarrow> lapd_cfg" where
  "cfg_side dl = \<lparr>cfg_range = v_range dl, cfg_resp = resp (rem2loc dl), cfg_len = (case cont_res dl of None \<Rightarrow> 0 | Some x \<Rightarrow> int (length x))\<rparr>"

lemma link_side_waiting: "link_side dl \<Longrightarrow> waiting (cfg_side dl) 0 dl \<and> drained dl"
  by (auto simp: link_side_def waiting_def link_up_def lapd_base_def cfg_side_def window_self drained_def list_all_length)

lemma waiting_link_side:
  assumes "waiting c 0 dl" "drained dl"
  shows "link_side dl" "v_send dl = v_ack dl"
proof -
  note f = waiting_fields [OF assms(1)]
  show e: "v_send dl = v_ack dl"
    using f(12) seq_range_fns(4) [OF f(7,8,9)] f(8,9) by (auto simp: word_unat_eq_iff word_le_nat_alt word_less_nat_alt split: if_splits)
  show "link_side dl" using assms e by (auto simp: link_side_def waiting_def link_up_def lapd_base_def list_all_length)
qed

lemma frames_of_i_frames_length [simp]: "length (frames_of (i_frames vr ctx s segs)) = length segs"
  by (induction segs arbitrary: s) simp_all

definition lapd_limits :: "lapd_datalink \<Rightarrow> u8 \<times> lapd_msg_ctx \<times> int" where
  "lapd_limits dl = (win_k dl, lctx dl, maxf dl)"

lemma prims_of_i_frames [simp]: "prims_of (i_frames vr ctx v segs) = []"
  by (induction segs arbitrary: v) simp_all

text \<open>\<open>flight c cr n xs ts s r\<close>: the segments \<open>xs\<close> are on their way from \<open>s\<close> to \<open>r\<close>, \<open>ts\<close> are left, and only when the window is full.\<close>

definition flight :: "lapd_cfg \<Rightarrow> lapd_cfg \<Rightarrow> nat \<Rightarrow> (msg \<times> bool) list \<Rightarrow> (msg \<times> bool) list \<Rightarrow> lapd_datalink \<Rightarrow> lapd_datalink \<Rightarrow> bool" where
  "flight c cr n xs ts s r \<longleftrightarrow> outgoing c (length xs) n ts s \<and> (ts = [] \<or> length xs = unat (win_k s)) \<and> 0 < unat (win_k s) \<and> waiting cr 0 r \<and> drained r
     \<and> cfg_range cr = cfg_range c \<and> v_recv r = v_ack s \<and> v_send s = steps (cfg_range c) (length xs) (v_ack s) \<and> v_recv s = v_ack r
     \<and> cmd (loc2rem s) \<noteq> cfg_resp cr \<and> seg_ok (Suc n) (maxf r) (rcv_buffer r) (xs @ ts)"

lemma flight_round:
  assumes "flight c cr n xs ts s r"
  shows "\<exists>r' o2 s'. run lapd_step (frames_of (i_frames (cfg_range c) (i_ctx s) (v_ack s) xs)) (r, []) = Some (r', o2)
    \<and> run lapd_step (frames_of o2) (s, []) = Some (s', i_frames (cfg_range c) (i_ctx s') (v_ack s') (take (length xs) ts))
    \<and> prims_of o2 = map data_ind (fst (assemble (rcv_buffer r) xs)) \<and> flight c cr n (take (length xs) ts) (drop (length xs) ts) s' r'
    \<and> link_params s' = link_params (s\<lparr>v_ack := v_ack s'\<rparr>)
    \<and> link_params r' = link_params (r\<lparr>v_recv := v_recv r', rcv_buffer := snd (assemble (rcv_buffer r) xs)\<rparr>)"
proof -
  note a = assms [unfolded flight_def]
  have o: "outgoing c (0 + length xs) n ts s" using a by simp
  have rr: "waiting cr 0 r" "drained r" "seg_ok (Suc n) (maxf r) (rcv_buffer r) xs" using a by (simp_all add: seg_ok_append)
  have ns: "n201 (lctx s) = int (Suc n)" using a by (simp add: outgoing_def)
  have "\<exists>r' o2. run lapd_step (frames_of (i_frames (cfg_range cr) (i_ctx s) (v_recv r) xs)) (r, []) = Some (r', [] @ o2) \<and> waiting cr 0 r' \<and> drained r'
    \<and> prims_of o2 = map data_ind (fst (assemble (rcv_buffer r) xs))
    \<and> rr_seq (cfg_range cr) (v_recv r) (frames_of o2) \<and> length (frames_of o2) = length xs
    \<and> link_params r' = link_params (r\<lparr>v_recv := steps (cfg_range cr) (length xs) (v_recv r), rcv_buffer := snd (assemble (rcv_buffer r) xs)\<rparr>)"
    by (rule frames_received [OF rr]) (use a ns in \<open>simp_all add: i_ctx_def\<close>)
  then obtain r' o2 where r': "run lapd_step (frames_of (i_frames (cfg_range c) (i_ctx s) (v_ack s) xs)) (r, []) = Some (r', o2)" "waiting cr 0 r'" "drained r'"
    "prims_of o2 = map data_ind (fst (assemble (rcv_buffer r) xs))" "rr_seq (cfg_range c) (v_ack s) (frames_of o2)" "length (frames_of o2) = length xs"
    "link_params r' = link_params (r\<lparr>v_recv := steps (cfg_range c) (length xs) (v_ack s), rcv_buffer := snd (assemble (rcv_buffer r) xs)\<rparr>)"
    using a by auto
  have "ts = [] \<or> 0 + length (frames_of o2) = unat (win_k s)" using a r'(6) by simp
  from acks_received [OF _ this r'(5), of n "[]"] o r'(6) obtain s' where
    s': "run lapd_step (frames_of o2) (s, []) = Some (s', i_frames (cfg_range c) (i_ctx s) (v_send s) (take (length xs) ts))"
      "outgoing c (length (take (length xs) ts)) n (drop (length xs) ts) s'"
      "link_params s' = link_params (s\<lparr>v_ack := steps (cfg_range c) (length xs) (v_ack s)\<rparr>)"
      "v_send s' = steps (cfg_range c) (length (take (length xs) ts)) (v_send s)" by auto
  have p: "v_ack s' = v_send s" "i_ctx s' = i_ctx s" "v_recv r' = v_send s" using s'(3) r'(7) a by (simp_all add: link_params_def i_ctx_def)
  have "flight c cr n (take (length xs) ts) (drop (length xs) ts) s' r'"
    using s' r'(2,3,7) a p by (auto simp: flight_def link_params_def seg_ok_append assemble_append append_take_drop_id)
  then show ?thesis using r' s' p a by (intro exI [of _ r'] exI [of _ o2] exI [of _ s']) simp
qed

lemma pump_delivers:
  assumes "flight c cr n xs ts s r" "length (xs @ ts) \<le> k"
  shows "\<exists>s' r'. lapd_pump k (frames_of (i_frames (cfg_range c) (i_ctx s) (v_ack s) xs)) s r = Some ([], map data_ind (fst (assemble (rcv_buffer r) (xs @ ts))), s', r')
    \<and> flight c cr n [] [] s' r' \<and> link_params s' = link_params (s\<lparr>v_ack := v_ack s'\<rparr>)
    \<and> link_params r' = link_params (r\<lparr>v_recv := v_recv r', rcv_buffer := snd (assemble (rcv_buffer r) (xs @ ts))\<rparr>)"
  using assms
proof (induction k arbitrary: xs ts s r)
  case 0
  then show ?case by (auto simp: link_params_def)
next
  case (Suc k)
  show ?case
  proof (cases xs)
    case Nil
    then have "ts = []" using Suc(2) by (auto simp: flight_def)
    then show ?thesis using Nil Suc(2) by (auto simp: link_params_def)
  next
    case (Cons x xs')
    from flight_round [OF Suc(2)] obtain r1 o2 s1 where
      q: "run lapd_step (frames_of (i_frames (cfg_range c) (i_ctx s) (v_ack s) xs)) (r, []) = Some (r1, o2)"
        "run lapd_step (frames_of o2) (s, []) = Some (s1, i_frames (cfg_range c) (i_ctx s1) (v_ack s1) (take (length xs) ts))"
        "prims_of o2 = map data_ind (fst (assemble (rcv_buffer r) xs))" "flight c cr n (take (length xs) ts) (drop (length xs) ts) s1 r1"
        "link_params s1 = link_params (s\<lparr>v_ack := v_ack s1\<rparr>)"
        "link_params r1 = link_params (r\<lparr>v_recv := v_recv r1, rcv_buffer := snd (assemble (rcv_buffer r) xs)\<rparr>)" by blast
    have b: "rcv_buffer r1 = snd (assemble (rcv_buffer r) xs)" using q(6) by (simp add: link_params_def)
    have "length (take (length xs) ts @ drop (length xs) ts) \<le> k" using Suc(3) Cons by simp
    from Suc(1) [OF q(4) this] obtain s' r' where
      ih: "lapd_pump k (frames_of (i_frames (cfg_range c) (i_ctx s1) (v_ack s1) (take (length xs) ts))) s1 r1 = Some ([], map data_ind (fst (assemble (rcv_buffer r1) ts)), s', r')"
        "flight c cr n [] [] s' r'" "link_params s' = link_params (s1\<lparr>v_ack := v_ack s'\<rparr>)"
        "link_params r' = link_params (r1\<lparr>v_recv := v_recv r', rcv_buffer := snd (assemble (rcv_buffer r1) ts)\<rparr>)" by auto
    have ne: "frames_of (i_frames (cfg_range c) (i_ctx s) (v_ack s) xs) \<noteq> []" using Cons by simp
    have "lapd_pump (Suc k) (frames_of (i_frames (cfg_range c) (i_ctx s) (v_ack s) xs)) s r = Some ([], map data_ind (fst (assemble (rcv_buffer r) (xs @ ts))), s', r')"
      using ne q(1,2,3) ih(1) b by (simp add: assemble_append)
    moreover have "link_params s' = link_params (s\<lparr>v_ack := v_ack s'\<rparr>)"
      "link_params r' = link_params (r\<lparr>v_recv := v_recv r', rcv_buffer := snd (assemble (rcv_buffer r) (xs @ ts))\<rparr>)"
      using ih(3,4) q(5,6) b by (simp_all add: link_params_def assemble_append)
    ultimately show ?thesis using ih(2) by blast
  qed
qed

lemma transfer_burst:
  assumes l: "lapd_linked s r" "0 < unat (win_k s)" and m: "[] \<notin> set ms" "list_all (\<lambda>m. int (length m) \<le> maxf r) ms"
  shows "\<exists>s' r'. lapd_transfer ms s r = Some ([], map data_ind ms, s', r') \<and> lapd_linked s' r' \<and> lapd_limits s' = lapd_limits s \<and> lapd_limits r' = lapd_limits r"
proof -
  let ?c = "cfg_side s" and ?cr = "cfg_side r"
  have ws: "waiting ?c 0 s" "drained s" and wr: "waiting ?cr 0 r" "drained r" using l(1) link_side_waiting by (auto simp: lapd_linked_def)
  have vr: "cfg_range ?c = v_range s" "cfg_range ?cr = v_range s" using l(1) by (simp_all add: cfg_side_def lapd_linked_def)
  have "0 < n201 (lctx s)" using l(1) by (simp add: lapd_linked_def)
  then have "n201 (lctx s) = int (Suc (nat (n201 (lctx s)) - 1))" by simp
  then obtain n where n: "n201 (lctx s) = int (Suc n)" by blast
  define all where "all = concat (map (segments n) ms)"
  define xs where "xs = take (unat (win_k s)) all"
  define ts where "ts = drop (unat (win_k s)) all"
  have ok: "seg_ok (Suc n) (maxf r) None (xs @ ts)" "assemble None (xs @ ts) = (ms, None)"
    using seg_ok_messages [OF m, of n] assemble_messages [OF m(1), of n] by (simp_all add: xs_def ts_def all_def)
  have len: "length (xs @ ts) \<le> length (concat ms)"
    unfolding xs_def ts_def append_take_drop_id all_def by (induction ms) (simp_all add: add_mono length_segments)
  obtain s1 where s1: "run lapd_step (map data_request ms) (s, []) = Some (s1, i_frames (v_range s) (i_ctx s) (v_send s) xs)"
    "outgoing ?c (length xs) n ts s1" "link_params s1 = link_params s" "v_send s1 = steps (v_range s) (length xs) (v_send s)"
    using data_requests_send [OF drained_outgoing [OF ws n] _ m(1) refl, of "[]"] by (auto simp: vr xs_def ts_def all_def)
  have p1: "i_ctx s1 = i_ctx s" "v_ack s1 = v_send s" "win_k s1 = win_k s" using s1(3) l(1) by (simp_all add: link_params_def i_ctx_def lapd_linked_def link_side_def)
  have fl: "flight ?c ?cr n xs ts s1 r"
    using s1 l wr ok(1) vr p1 by (auto simp: flight_def link_params_def lapd_linked_def link_side_def cfg_side_def xs_def ts_def)
  have rn: "rcv_buffer r = None" using l(1) by (simp add: lapd_linked_def)
  from pump_delivers [OF fl len] obtain s2 r2 where
    t: "lapd_pump (length (concat ms)) (frames_of (i_frames (v_range s) (i_ctx s) (v_send s) xs)) s1 r = Some ([], map data_ind ms, s2, r2)"
      "flight ?c ?cr n [] [] s2 r2" "link_params s2 = link_params (s1\<lparr>v_ack := v_ack s2\<rparr>)"
      "link_params r2 = link_params (r\<lparr>v_recv := v_recv r2, rcv_buffer := None\<rparr>)"
    unfolding p1 vr rn ok(2) by auto
  have tr: "lapd_transfer ms s r = Some ([], map data_ind ms, s2, r2)" using s1(1) t(1) by (simp add: lapd_transfer_def)
  have w2: "waiting ?c 0 s2" "drained s2" "waiting ?cr 0 r2" "drained r2" using t(2) outgoing_done by (auto simp: flight_def outgoing_def)
  have "lapd_linked s2 r2"
    using waiting_link_side [OF w2(1,2)] waiting_link_side [OF w2(3,4)] waiting_fields(4) [OF w2(1)] waiting_fields(4) [OF w2(3)] t(2-4) s1(3) l(1) vr
    by (auto simp: lapd_linked_def link_side_def flight_def link_params_def)
  moreover have "lapd_limits s2 = lapd_limits s" "lapd_limits r2 = lapd_limits r" using t(3,4) s1(3) by (simp_all add: link_params_def lapd_limits_def)
  ultimately show ?thesis using tr by blast
qed

subsection \<open>Establishment\<close>

definition lapd_connect :: "lapd_msg_ctx \<Rightarrow> lapd_datalink \<Rightarrow> lapd_datalink \<Rightarrow> (osmo_dlsap_prim list \<times> osmo_dlsap_prim list \<times> lapd_datalink \<times> lapd_datalink) res" where
  "lapd_connect ctx s r = do {
     (s, o1) \<leftarrow> lapd_step (Dlsap \<lparr>primitive = PRIM_DL_EST, operation = PRIM_OP_REQUEST, param = 0, pmsg = Some []\<rparr> ctx) (s, []);
     (r, o2) \<leftarrow> run lapd_step (frames_of o1) (r, []);
     (s, o3) \<leftarrow> run lapd_step (frames_of o2) (s, []);
     Some (prims_of o3, prims_of o2, s, r) }"

lemma flush_hist_maxf [simp]: "maxf (lapd_dl_flush_hist dl) = maxf dl"
  by (simp add: lapd_dl_flush_hist_def)

lemma flush_hist_map:
  assumes "length (tx_hist dl) = unat (range_hist dl)"
  shows "lapd_dl_flush_hist dl = dl\<lparr>tx_hist := map (\<lambda>h. h\<lparr>hmsg := None\<rparr>) (tx_hist dl)\<rparr>"
proof (cases "range_hist dl = 0 \<or> tx_hist dl = []")
  case True
  then have "tx_hist dl = []" using assms by auto
  then show ?thesis by (intro lapd_datalink.equality) (simp_all add: lapd_dl_flush_hist_def)
next
  case False
  then show ?thesis using assms by (simp add: lapd_dl_flush_hist_def)
qed

definition fresh_side :: "u8 \<Rightarrow> lapd_datalink \<Rightarrow> bool" where
  "fresh_side vr dl \<longleftrightarrow> v_range dl = vr \<and> seq_range vr \<and> seq_range (range_hist dl) \<and> range_hist dl \<le> vr \<and> win_k dl < range_hist dl
     \<and> length (tx_hist dl) = unat (range_hist dl) \<and> own_busy dl = 0 \<and> peer_busy dl = 0 \<and> \<not> rts_flag dl
     \<and> send_queue dl = [] \<and> send_buffer dl = None \<and> rcv_buffer dl = None"

lemma fresh_side_start: "seq_range vr \<Longrightarrow> fresh_side vr (lapd_start k vr mf mode)"
  using lapd_start_hist [of vr k mf mode] by (simp add: fresh_side_def lapd_start_fields rts_flag_def)

lemma fresh_side_established:
  assumes "fresh_side vr dl" "0 \<le> n201 (lctx dl)"
  shows "link_side (lapd_dl_newstate (lapd_dl_flush_hist (dl\<lparr>v_ack := 0, v_recv := 0, v_send := 0\<rparr>)) LAPD_STATE_MF_EST)"
proof -
  have "0 < vr" using assms(1) by (simp add: fresh_side_def)
  then show ?thesis using assms by (auto simp: fresh_side_def link_side_def flush_hist_map lapd_updates rts_flag_def drained_def list_all_iff)
qed

lemma fresh_side_request:
  assumes "fresh_side vr dl" "st = LAPD_STATE_SABM_SENT"
  shows "fresh_side vr (lapd_start_t200 (lapd_dl_newstate ((lapd_dl_flush_hist (lapd_dl_flush_send dl))\<lparr>lctx := ctx, rcv_buffer := None, tx_hist := (tx_hist (lapd_dl_flush_hist (lapd_dl_flush_send dl)))[0 := h],
    v_send := 0, own_busy := 0, peer_busy := 0, retrans_ctr := 0\<rparr>) st))"
  using assms by (auto simp: fresh_side_def flush_hist_map lapd_dl_flush_send_def lapd_updates rts_flag_def)


text \<open>SABM from an idle side, UA from the other, confirmation.\<close>

lemma est_request_step:
  assumes f: "fresh_side vr dl" and st: "dl_state dl = LAPD_STATE_IDLE" and u: "use_sabme dl = 0"
  shows "\<exists>dl'. lapd_step (Dlsap \<lparr>primitive = PRIM_DL_EST, operation = PRIM_OP_REQUEST, param = 0, pmsg = Some []\<rparr> ctx) (dl, []) =
      Some (dl', [To_L1 (ctx\<lparr>c_r := cmd (loc2rem dl), format := LAPD_FORM_U, s_u := LAPD_U_SABM, p_f := 1, length_ind := 0, m_bit := 0\<rparr>) []])
    \<and> fresh_side vr dl' \<and> dl_state dl' = LAPD_STATE_SABM_SENT \<and> lctx dl' = ctx \<and> win_k dl' = win_k dl \<and> rem2loc dl' = rem2loc dl \<and> loc2rem dl' = loc2rem dl \<and> maxf dl' = maxf dl
    \<and> rd (tx_hist dl') 0 = Some \<lparr>hmsg = Some [], hmore = 0\<rparr>"
proof -
  let ?d = "(lapd_dl_flush_hist (lapd_dl_flush_send dl))\<lparr>lctx := ctx, rcv_buffer := None\<rparr>"
  define d1 where "d1 = lapd_start_t200 (lapd_dl_newstate (?d\<lparr>tx_hist := (tx_hist ?d)[0 := \<lparr>hmsg = Some [], hmore = 0\<rparr>], v_send := 0, own_busy := 0, peer_busy := 0, retrans_ctr := 0\<rparr>) LAPD_STATE_SABM_SENT)"
  have "0 < unat (range_hist dl)" using f seq_range_less(5) [of "range_hist dl"] by (simp add: fresh_side_def word_less_nat_alt)
  then have l: "0 < length (tx_hist ?d)" using f by (simp add: fresh_side_def lapd_dl_flush_send_def)
  have x: "fresh_side vr d1" using fresh_side_request [OF f refl] by (simp add: d1_def)
  have y: "lctx d1 = ctx" "win_k d1 = win_k dl" "rem2loc d1 = rem2loc dl" "loc2rem d1 = loc2rem dl" "maxf d1 = maxf dl" "dl_state d1 = LAPD_STATE_SABM_SENT"
    by (simp_all add: d1_def lapd_updates lapd_dl_flush_send_def)
  have z: "rd (tx_hist d1) 0 = Some \<lparr>hmsg = Some [], hmore = 0\<rparr>" using l by (simp add: d1_def lapd_updates rd_def)
  have "lapd_recv_dlsap rec_cb \<lparr>primitive = PRIM_DL_EST, operation = PRIM_OP_REQUEST, param = 0, pmsg = Some []\<rparr> ctx dl [] =
      lapd_est_req rec_cb \<lparr>primitive = PRIM_DL_EST, operation = PRIM_OP_REQUEST, param = 0, pmsg = Some []\<rparr> ctx dl []"
    unfolding lapd_recv_dlsap_def l2downstatelist_def find_case_Cons prod.case lapd_state_masks using st by simp
  also have "\<dots> = Some (0, d1, [To_L1 (ctx\<lparr>c_r := cmd (loc2rem dl), format := LAPD_FORM_U, s_u := LAPD_U_SABM, p_f := 1, length_ind := 0, m_bit := 0\<rparr>) []])"
    using l u by (simp add: lapd_est_req_def Let_def msg_to_tx_hist0_def msg_to_tx_hist_def wr_def d1_def lapd_updates lapd_dl_flush_send_def lapd_dl_flush_hist_def)
  finally show ?thesis using x y z by simp
qed

lemma sabm_step:
  assumes f: "fresh_side vr dl" and st: "dl_state dl = LAPD_STATE_IDLE"
    and c: "format ctx = LAPD_FORM_U" "s_u ctx = LAPD_U_SABM" "length_ind ctx = 0" "m_bit ctx = 0" "0 < n201 ctx" "c_r ctx \<noteq> resp (rem2loc dl)"
  shows "\<exists>dl'. lapd_step (Ph_data [] ctx) (dl, []) = Some (dl', [To_L1 (ctx\<lparr>c_r := resp (loc2rem dl), s_u := LAPD_U_UA\<rparr>) [],
      To_L3 \<lparr>primitive = PRIM_DL_EST, operation = PRIM_OP_INDICATION, param = 0, pmsg = None\<rparr>])
    \<and> link_side dl' \<and> v_send dl' = 0 \<and> v_recv dl' = 0 \<and> v_range dl' = vr \<and> rem2loc dl' = rem2loc dl \<and> maxf dl' = maxf dl \<and> rcv_buffer dl' = None
    \<and> loc2rem dl' = loc2rem dl \<and> win_k dl' = win_k dl \<and> lctx dl' = ctx"
proof -
  define d where "d = dl\<lparr>seq_err_cond := 0, lctx := ctx\<rparr>"
  define d1 where "d1 = lapd_dl_newstate (lapd_dl_flush_hist (d\<lparr>v_ack := 0, v_recv := 0, v_send := 0\<rparr>)) LAPD_STATE_MF_EST"
  have fd: "fresh_side vr d" "0 \<le> n201 (lctx d)" using f c by (simp_all add: d_def fresh_side_def rts_flag_def)
  have l: "length (tx_hist d) = unat (range_hist d)" using fd by (simp add: fresh_side_def)
  have x: "link_side d1" unfolding d1_def using fd by (rule fresh_side_established)
  have y: "v_send d1 = 0" "v_recv d1 = 0" "v_range d1 = vr" "rem2loc d1 = rem2loc dl" "maxf d1 = maxf dl" "rcv_buffer d1 = None" "loc2rem d1 = loc2rem dl" "win_k d1 = win_k dl" "lctx d1 = ctx"
    using f l by (simp_all add: d1_def lapd_updates flush_hist_map d_def fresh_side_def)
  have ua: "ctx\<lparr>c_r := resp (loc2rem dl), format := LAPD_FORM_U, s_u := LAPD_U_UA, length_ind := 0, m_bit := 0\<rparr> = ctx\<lparr>c_r := resp (loc2rem dl), s_u := LAPD_U_UA\<rparr>"
    using c by (intro lapd_msg_ctx.equality) simp_all
  have "sabm_accept rec_cb [] ctx (dl\<lparr>seq_err_cond := 0\<rparr>) [] = Some (0, d1, [To_L1 (ctx\<lparr>c_r := resp (loc2rem dl), s_u := LAPD_U_UA\<rparr>) [],
      To_L3 \<lparr>primitive = PRIM_DL_EST, operation = PRIM_OP_INDICATION, param = 0, pmsg = None\<rparr>])"
    using c ua by (simp add: sabm_accept_def lapd_send_ua_def octets_of_def Let_def d1_def d_def)
  then show ?thesis using c st x y by (simp add: lapd_ph_data_ind_def lapd_rx_u_def lapd_rx_u_sabm_def Let_def)
qed

lemma ua_step:
  assumes f: "fresh_side vr dl" "rd (tx_hist dl) 0 = Some \<lparr>hmsg = Some [], hmore = 0\<rparr>" and st: "dl_state dl = LAPD_STATE_SABM_SENT" and n: "0 < n201 (lctx dl)"
    and c: "format ctx = LAPD_FORM_U" "s_u ctx = LAPD_U_UA" "length_ind ctx = 0" "m_bit ctx = 0" "p_f ctx \<noteq> 0" "0 < n201 ctx" "c_r ctx \<noteq> cmd (rem2loc dl)"
  shows "\<exists>dl'. lapd_step (Ph_data [] ctx) (dl, []) = Some (dl', [To_L3 \<lparr>primitive = PRIM_DL_EST, operation = PRIM_OP_CONFIRM, param = 0, pmsg = None\<rparr>])
    \<and> link_side dl' \<and> v_send dl' = 0 \<and> v_recv dl' = 0 \<and> v_range dl' = vr \<and> loc2rem dl' = loc2rem dl \<and> win_k dl' = win_k dl \<and> lctx dl' = lctx dl
    \<and> rcv_buffer dl' = None \<and> rem2loc dl' = rem2loc dl \<and> maxf dl' = maxf dl"
proof -
  define d where "d = lapd_stop_t200 dl"
  define d1 where "d1 = lapd_dl_newstate (lapd_dl_flush_hist (d\<lparr>v_ack := 0, v_recv := 0, v_send := 0\<rparr>)) LAPD_STATE_MF_EST"
  have fd: "fresh_side vr d" "0 \<le> n201 (lctx d)" using f(1) n by (simp_all add: d_def fresh_side_def rts_flag_def lapd_updates)
  have l: "length (tx_hist d) = unat (range_hist d)" using fd by (simp add: fresh_side_def)
  have x: "link_side d1" unfolding d1_def using fd by (rule fresh_side_established)
  have y: "v_send d1 = 0" "v_recv d1 = 0" "v_ack d1 = 0" "v_range d1 = vr" "loc2rem d1 = loc2rem dl" "win_k d1 = win_k dl" "lctx d1 = lctx dl" "rcv_buffer d1 = None" "rem2loc d1 = rem2loc dl" "maxf d1 = maxf dl"
    using fd l by (simp_all add: d1_def lapd_updates flush_hist_map d_def fresh_side_def)
  obtain c0 where w: "waiting c0 0 d1" "drained d1" using link_side_waiting [OF x] by blast
  obtain d2 where d2: "send_i_loop rec_cb (- 1) d1 [] = Some (- 1, d2, [])" "waiting c0 0 d2" "drained d2" "link_params d2 = link_params d1" "v_send d2 = v_send d1"
    using send_loop_drained [OF w, of "- 1" "[]"] by blast
  have "v_range d2 = v_range d1" using waiting_fields(4) [OF d2(2)] waiting_fields(4) [OF w(1)] by simp
  moreover have "lapd_send_i rec_cb d1 [] = Some (- 1, d2, [])" using d2(1) waiting_fields(5) [OF w(1)] by (simp add: lapd_send_i_def)
  moreover have "lapd_step (Ph_data [] ctx) (dl, []) = do { (_, dl, w) \<leftarrow> lapd_send_i rec_cb d1 []; Some (dl, w @ [To_L3 \<lparr>primitive = PRIM_DL_EST, operation = PRIM_OP_CONFIRM, param = 0, pmsg = None\<rparr>]) }"
    using c st f(2) by (simp add: lapd_ph_data_ind_def lapd_rx_u_def lapd_rx_u_ua_def Let_def d_def [symmetric] d1_def [symmetric]) (simp add: d1_def d_def split: Option.bind_split)
  ultimately show ?thesis using waiting_link_side [OF d2(2,3)] d2(4,5) y by (simp add: link_params_def)
qed


lemma connect_links:
  assumes v: "seq_range vr" and n: "0 < n201 ctx"
  shows "\<exists>s r. lapd_connect ctx (lapd_start k vr mf LAPD_MODE_USER) (lapd_start k' vr mf' LAPD_MODE_NETWORK) =
      Some ([\<lparr>primitive = PRIM_DL_EST, operation = PRIM_OP_CONFIRM, param = 0, pmsg = None\<rparr>], [\<lparr>primitive = PRIM_DL_EST, operation = PRIM_OP_INDICATION, param = 0, pmsg = None\<rparr>], s, r)
    \<and> lapd_linked s r \<and> win_k s = win_k (lapd_start k vr mf LAPD_MODE_USER) \<and> win_k r = win_k (lapd_start k' vr mf' LAPD_MODE_NETWORK)
    \<and> n201 (lctx s) = n201 ctx \<and> n201 (lctx r) = n201 ctx \<and> maxf s = mf \<and> maxf r = mf'"
proof -
  let ?s = "lapd_start k vr mf LAPD_MODE_USER" and ?r = "lapd_start k' vr mf' LAPD_MODE_NETWORK"
  let ?sabm = "ctx\<lparr>c_r := cmd (loc2rem ?s), format := LAPD_FORM_U, s_u := LAPD_U_SABM, p_f := 1, length_ind := 0, m_bit := 0\<rparr>"
  let ?ua = "?sabm\<lparr>c_r := resp (loc2rem ?r), s_u := LAPD_U_UA\<rparr>"
  obtain s1 where s1: "lapd_step (Dlsap \<lparr>primitive = PRIM_DL_EST, operation = PRIM_OP_REQUEST, param = 0, pmsg = Some []\<rparr> ctx) (?s, []) = Some (s1, [To_L1 ?sabm []])"
    "fresh_side vr s1" "dl_state s1 = LAPD_STATE_SABM_SENT" "lctx s1 = ctx" "win_k s1 = win_k ?s" "rem2loc s1 = rem2loc ?s" "loc2rem s1 = loc2rem ?s" "maxf s1 = maxf ?s"
    "rd (tx_hist s1) 0 = Some \<lparr>hmsg = Some [], hmore = 0\<rparr>"
    using est_request_step [OF fresh_side_start [OF v, of k mf LAPD_MODE_USER], of ctx] by (auto simp: lapd_start_fields)
  have "\<exists>r1. lapd_step (Ph_data [] ?sabm) (?r, []) = Some (r1, [To_L1 ?ua [], To_L3 \<lparr>primitive = PRIM_DL_EST, operation = PRIM_OP_INDICATION, param = 0, pmsg = None\<rparr>])
    \<and> link_side r1 \<and> v_send r1 = 0 \<and> v_recv r1 = 0 \<and> v_range r1 = vr \<and> rem2loc r1 = rem2loc ?r \<and> maxf r1 = maxf ?r \<and> rcv_buffer r1 = None
    \<and> loc2rem r1 = loc2rem ?r \<and> win_k r1 = win_k ?r \<and> lctx r1 = ?sabm"
    by (rule sabm_step [OF fresh_side_start [OF v]]) (use n in \<open>simp_all add: lapd_start_fields\<close>)
  then obtain r1 where r1: "lapd_step (Ph_data [] ?sabm) (?r, []) = Some (r1, [To_L1 ?ua [], To_L3 \<lparr>primitive = PRIM_DL_EST, operation = PRIM_OP_INDICATION, param = 0, pmsg = None\<rparr>])"
    "link_side r1" "v_send r1 = 0" "v_recv r1 = 0" "v_range r1 = vr" "rem2loc r1 = rem2loc ?r" "maxf r1 = maxf ?r" "rcv_buffer r1 = None"
    "loc2rem r1 = loc2rem ?r" "win_k r1 = win_k ?r" "lctx r1 = ?sabm" by blast
  have "\<exists>s2. lapd_step (Ph_data [] ?ua) (s1, []) = Some (s2, [To_L3 \<lparr>primitive = PRIM_DL_EST, operation = PRIM_OP_CONFIRM, param = 0, pmsg = None\<rparr>])
    \<and> link_side s2 \<and> v_send s2 = 0 \<and> v_recv s2 = 0 \<and> v_range s2 = vr \<and> loc2rem s2 = loc2rem s1 \<and> win_k s2 = win_k s1 \<and> lctx s2 = lctx s1
    \<and> rcv_buffer s2 = None \<and> rem2loc s2 = rem2loc s1 \<and> maxf s2 = maxf s1"
    by (rule ua_step [OF s1(2,9,3)]) (use n s1(4,6) in \<open>simp_all add: lapd_start_fields\<close>)
  then obtain s2 where s2: "lapd_step (Ph_data [] ?ua) (s1, []) = Some (s2, [To_L3 \<lparr>primitive = PRIM_DL_EST, operation = PRIM_OP_CONFIRM, param = 0, pmsg = None\<rparr>])"
    "link_side s2" "v_send s2 = 0" "v_recv s2 = 0" "v_range s2 = vr" "loc2rem s2 = loc2rem s1" "win_k s2 = win_k s1" "lctx s2 = lctx s1"
    "rcv_buffer s2 = None" "rem2loc s2 = rem2loc s1" "maxf s2 = maxf s1" by blast
  have "lapd_connect ctx ?s ?r = Some ([\<lparr>primitive = PRIM_DL_EST, operation = PRIM_OP_CONFIRM, param = 0, pmsg = None\<rparr>],
      [\<lparr>primitive = PRIM_DL_EST, operation = PRIM_OP_INDICATION, param = 0, pmsg = None\<rparr>], s2, r1)"
    unfolding lapd_connect_def s1(1) using r1(1) s2(1) by simp
  moreover have "lapd_linked s2 r1"
    using s1 r1 s2 n by (simp add: lapd_linked_def lapd_start_fields)
  ultimately show ?thesis using s1 s2 r1 by (simp add: lapd_start_fields)
qed

lemma lapd_linked_sym: "lapd_linked s r \<Longrightarrow> lapd_linked r s"
  by (auto simp: lapd_linked_def)

lemma exchange_linked:
  assumes "lapd_linked s r" "0 < unat (win_k s)" "0 < unat (win_k r)"
    and "list_all (\<lambda>(d, ms). [] \<notin> set ms \<and> list_all (\<lambda>m. int (length m) \<le> (if d then maxf r else maxf s)) ms) bs"
  shows "\<exists>s' r'. lapd_exchange bs s r = Some (map (\<lambda>(d, ms). if d then ([], map data_ind ms) else (map data_ind ms, [])) bs, s', r') \<and> lapd_linked s' r'"
  using assms
proof (induction bs arbitrary: s r)
  case (Cons b bs)
  obtain d ms where b: "b = (d, ms)" by (cases b)
  have "\<exists>s1 r1. (if d then lapd_transfer ms s r else do { (pr, ps, r, s) \<leftarrow> lapd_transfer ms r s; Some (ps, pr, s, r) }) =
      Some (if d then ([], map data_ind ms, s1, r1) else (map data_ind ms, [], s1, r1)) \<and> lapd_linked s1 r1 \<and> lapd_limits s1 = lapd_limits s \<and> lapd_limits r1 = lapd_limits r"
  proof (cases d)
    case True
    then show ?thesis using transfer_burst [OF Cons(2,3), of ms] Cons(5) b by auto
  next
    case False
    then show ?thesis using transfer_burst [OF lapd_linked_sym [OF Cons(2)] Cons(4), of ms] Cons(5) b lapd_linked_sym by fastforce
  qed
  then obtain s1 r1 where t: "(if d then lapd_transfer ms s r else do { (pr, ps, r, s) \<leftarrow> lapd_transfer ms r s; Some (ps, pr, s, r) }) =
      Some (if d then ([], map data_ind ms, s1, r1) else (map data_ind ms, [], s1, r1))" "lapd_linked s1 r1" "lapd_limits s1 = lapd_limits s" "lapd_limits r1 = lapd_limits r" by blast
  have lim: "win_k s1 = win_k s" "maxf s1 = maxf s" "win_k r1 = win_k r" "maxf r1 = maxf r"
    using t(3,4) by (simp_all add: lapd_limits_def)
  have "\<exists>s' r'. lapd_exchange bs s1 r1 = Some (map (\<lambda>(d, ms). if d then ([], map data_ind ms) else (map data_ind ms, [])) bs, s', r') \<and> lapd_linked s' r'"
    by (rule Cons(1) [OF t(2)], unfold lim) (use Cons(3-) in simp_all)
  with t(1) b show ?case by (auto split: if_splits)
qed simp

lemma lapd_start_window:
  assumes "0 < n" "n < 8" "0 < k"
  shows "0 < unat (win_k (lapd_start k (2 ^ n) mf mode))"
proof -
  have "unat (2 ^ n :: u8) = 2 ^ n" using unat_seq_range [OF assms(2)] .
  moreover have "(2::nat) ^ 1 \<le> 2 ^ n" using assms(1) by (intro power_increasing) simp_all
  ultimately have "0 < unat (2 ^ n - 1 :: u8)" by (simp add: unat_sub_if_size)
  moreover have "0 < unat k" using assms(3) by (simp add: word_less_nat_alt)
  ultimately show ?thesis
    by (cases mode) (simp_all add: lapd_start_def lapd_dl_init_def lapd_set_mode_def lapd_updates Let_def)
qed


text \<open>C1: a user and a network side, fresh from initialisation with windows of at least one frame, establish the link by SABM and UA; then bursts
  of messages in either direction, in any order, arrive. In a burst the user of one side requests any number of messages of any length that the
  receiver's buffer holds, before any answer: the messages are cut into frames of at most \<open>N201\<close> octets, the frames go out until the window is
  full, the rest waits in the send buffer and the queue, and every acknowledgement lets the next frame follow, in as many rounds as it takes;
  the receiver takes the frames in sequence, reassembles each message and delivers it in one indication with exactly the
  octets sent, in the order of the requests. At the end all frames are acknowledged and the link is at rest, so the sequence numbers may
  go round any number of times. Frames are neither lost nor reordered here, and within a burst only one side has messages to send.\<close>

theorem lapd_link_transfers:
  assumes "0 < n" and "n < 8" and "0 < k" and "0 < k'" and "0 < n201 ctx"
    and "list_all (\<lambda>(d, ms). [] \<notin> set ms \<and> list_all (\<lambda>m. int (length m) \<le> (if d then mf' else mf)) ms) bs"
  shows "\<exists>s r s' r'. lapd_connect ctx (lapd_start k (2 ^ n) mf LAPD_MODE_USER) (lapd_start k' (2 ^ n) mf' LAPD_MODE_NETWORK) =
      Some ([\<lparr>primitive = PRIM_DL_EST, operation = PRIM_OP_CONFIRM, param = 0, pmsg = None\<rparr>], [\<lparr>primitive = PRIM_DL_EST, operation = PRIM_OP_INDICATION, param = 0, pmsg = None\<rparr>], s, r)
    \<and> lapd_exchange bs s r = Some (map (\<lambda>(d, ms).
        let inds = map (\<lambda>m. \<lparr>primitive = PRIM_DL_DATA, operation = PRIM_OP_INDICATION, param = 0, pmsg = Some m\<rparr>) ms in if d then ([], inds) else (inds, [])) bs, s', r')
    \<and> lapd_linked s' r'"
proof -
  have v: "seq_range (2 ^ n)" using assms(2) by (auto simp: seq_range_def)
  from connect_links [OF v assms(5), of k mf k' mf'] obtain s r where c: "lapd_connect ctx (lapd_start k (2 ^ n) mf LAPD_MODE_USER) (lapd_start k' (2 ^ n) mf' LAPD_MODE_NETWORK) =
      Some ([\<lparr>primitive = PRIM_DL_EST, operation = PRIM_OP_CONFIRM, param = 0, pmsg = None\<rparr>], [\<lparr>primitive = PRIM_DL_EST, operation = PRIM_OP_INDICATION, param = 0, pmsg = None\<rparr>], s, r)"
    "lapd_linked s r" "win_k s = win_k (lapd_start k (2 ^ n) mf LAPD_MODE_USER)" "win_k r = win_k (lapd_start k' (2 ^ n) mf' LAPD_MODE_NETWORK)"
    "maxf s = mf" "maxf r = mf'" by blast
  have "\<exists>s' r'. lapd_exchange bs s r = Some (map (\<lambda>(d, ms). if d then ([], map data_ind ms) else (map data_ind ms, [])) bs, s', r') \<and> lapd_linked s' r'"
    by (rule exchange_linked [OF c(2)], unfold c(3-6)) (use assms lapd_start_window in auto)
  with c(1) show ?thesis by (simp add: Let_def)
qed

text \<open>Windows of 3 and 1 frames, \<open>N201\<close> of 2 octets: the first burst needs seven frames, the second three.\<close>

theorem lapd_link_transfers_witness:
  "\<exists>s r s' r'. lapd_connect (zero_ctx\<lparr>n201 := 2\<rparr>) (lapd_start 3 (2 ^ 2) 251 LAPD_MODE_USER) (lapd_start 1 (2 ^ 2) 251 LAPD_MODE_NETWORK) =
      Some ([\<lparr>primitive = PRIM_DL_EST, operation = PRIM_OP_CONFIRM, param = 0, pmsg = None\<rparr>], [\<lparr>primitive = PRIM_DL_EST, operation = PRIM_OP_INDICATION, param = 0, pmsg = None\<rparr>], s, r)
    \<and> lapd_exchange [(True, [[1, 2, 3, 4, 5, 6, 7, 8, 9], [10, 11, 12]]), (False, [[6, 7], [8, 9, 10]])] s r =
        Some ([([], [\<lparr>primitive = PRIM_DL_DATA, operation = PRIM_OP_INDICATION, param = 0, pmsg = Some [1, 2, 3, 4, 5, 6, 7, 8, 9]\<rparr>,
                     \<lparr>primitive = PRIM_DL_DATA, operation = PRIM_OP_INDICATION, param = 0, pmsg = Some [10, 11, 12]\<rparr>]),
               ([\<lparr>primitive = PRIM_DL_DATA, operation = PRIM_OP_INDICATION, param = 0, pmsg = Some [6, 7]\<rparr>,
                 \<lparr>primitive = PRIM_DL_DATA, operation = PRIM_OP_INDICATION, param = 0, pmsg = Some [8, 9, 10]\<rparr>], [])], s', r')"
proof -
  have a: "(0::nat) < 2" "(2::nat) < 8" "(0::u8) < 3" "(0::u8) < 1" "0 < n201 (zero_ctx\<lparr>n201 := 2\<rparr>)" by simp_all
  show ?thesis
    using lapd_link_transfers [OF a, where mf = 251 and mf' = 251 and bs = "[(True, [[1, 2, 3, 4, 5, 6, 7, 8, 9], [10, 11, 12]]), (False, [[6, 7], [8, 9, 10]])]"]
    by (simp add: Let_def) blast
qed

subsection \<open>Hazards\<close>

fun i_sent :: "lapd_out list \<Rightarrow> (u8 \<times> msg) list" where
  "i_sent [] = []"
| "i_sent (To_L1 ctx m # w) = (if format ctx = LAPD_FORM_I then [(n_send ctx, m)] else []) @ i_sent w"
| "i_sent (To_L3 dp # w) = i_sent w"

definition hctx :: lapd_msg_ctx where
  "hctx = zero_ctx\<lparr>n201 := 2, format := LAPD_FORM_U\<rparr>"

definition hreq :: "osmo_dl_prim \<Rightarrow> msg \<Rightarrow> lapd_event" where
  "hreq p m = Dlsap \<lparr>primitive = p, operation = PRIM_OP_REQUEST, param = 0, pmsg = Some m\<rparr> (zero_ctx\<lparr>n201 := 2\<rparr>)"

lemma malformed_disc_keeps_waiting:
  assumes st: "dl_state dl = LAPD_STATE_SABM_SENT" and h: "length (tx_hist dl) = unat (range_hist dl)" "tx_hist dl \<noteq> []"
    and d: "format disc = LAPD_FORM_U" "s_u disc = LAPD_U_DISC" "c_r disc = resp (rem2loc dl)"
  shows "\<exists>dl' w'. lapd_step (Ph_data m disc) (dl, w) = Some (dl', w') \<and> dl_state dl' = LAPD_STATE_SABM_SENT \<and> rem2loc dl' = rem2loc dl
    \<and> rd (tx_hist dl') 0 = Some ((tx_hist dl ! 0)\<lparr>hmsg := None\<rparr>) \<and> t200 dl' = t200 dl \<and> rts_flag dl' = rts_flag dl"
  using st h d
  by (cases "tx_hist dl"; simp add: lapd_ph_data_ind_def lapd_rx_u_def lapd_rx_u_disc_def Let_def flush_hist_map lapd_dl_flush_tx_def lapd_dl_flush_tx_queue_def lapd_dl_flush_send_def rd_def rts_flag_def)

text \<open>C39: what the handlers do not stand. A DISC with the wrong C/R bit received while a SABM is pending is rejected only after the stored SABM was
  released; the UA then reads it through a null pointer. An RR with an N(R) outside the window is found invalid only after it released the
  outstanding frames: the next message goes out with the sequence number of the lost one. A re-establishment by the peer keeps the
  half received message and puts it in front of the next one. A FRMR makes an idle side establish the link. A SABM while DISC is pending stops T200,
  no timer is left. A second SABM with longer content is compared beyond the stored one. After an RNR no
  RR lets the side send again.\<close>

theorem lapd_hazards:
  assumes "dl_state dl = LAPD_STATE_SABM_SENT" and "length (tx_hist dl) = unat (range_hist dl)" and "tx_hist dl \<noteq> []"
    and "format disc = LAPD_FORM_U" and "s_u disc = LAPD_U_DISC" and "c_r disc = resp (rem2loc dl)"
    and "format ua = LAPD_FORM_U" and "s_u ua = LAPD_U_UA" and "c_r ua \<noteq> cmd (rem2loc dl)" and "p_f ua \<noteq> 0" and "m_bit ua = 0" and "length_ind ua \<le> n201 ua"
  shows "run lapd_step [Ph_data m disc, Ph_data m' ua] (dl, w) = None
    \<and> map_option (i_sent \<circ> snd) (run lapd_step [hreq PRIM_DL_EST [], Ph_data [] (hctx\<lparr>s_u := LAPD_U_UA, p_f := 1\<rparr>), hreq PRIM_DL_DATA [1, 2],
        Ph_data [] (hctx\<lparr>format := LAPD_FORM_S, s_u := LAPD_S_RR, n_recv := 3\<rparr>), Ph_data [] (hctx\<lparr>format := LAPD_FORM_S, s_u := LAPD_S_REJ\<rparr>), hreq PRIM_DL_DATA [3, 4]]
        (lapd_start 2 8 251 LAPD_MODE_USER, [])) = Some [(0, [1, 2]), (0, [3, 4])]
    \<and> map_option (map pmsg \<circ> prims_of \<circ> snd) (run lapd_step [Ph_data [] (hctx\<lparr>s_u := LAPD_U_SABM\<rparr>), Ph_data [1, 2] (hctx\<lparr>format := LAPD_FORM_I, length_ind := 2, m_bit := 1\<rparr>),
        Ph_data [] (hctx\<lparr>s_u := LAPD_U_SABM\<rparr>), Ph_data [3] (hctx\<lparr>format := LAPD_FORM_I, length_ind := 1\<rparr>)]
        (lapd_start 2 8 251 LAPD_MODE_NETWORK, [])) = Some [None, None, Some [1, 2, 3]]
    \<and> map_option (dl_state \<circ> fst) (run lapd_step [Ph_data [] (hctx\<lparr>s_u := LAPD_U_FRMR\<rparr>)] (lapd_start 2 8 251 LAPD_MODE_USER, [])) = Some LAPD_STATE_SABM_SENT
    \<and> map_option (\<lambda>(dl, _). (dl_state dl, lapd_is_t200_started dl, t203 dl)) (run lapd_step [hreq PRIM_DL_EST [], Ph_data [] (hctx\<lparr>s_u := LAPD_U_UA, p_f := 1\<rparr>), hreq PRIM_DL_REL [],
        Ph_data [] (hctx\<lparr>c_r := 1, s_u := LAPD_U_SABM\<rparr>)] (lapd_start 2 8 251 LAPD_MODE_USER, [])) = Some (LAPD_STATE_DISC_SENT, False, False)
    \<and> run lapd_step [Ph_data [1] (hctx\<lparr>s_u := LAPD_U_SABM, length_ind := 1\<rparr>), Ph_data [1, 2] (hctx\<lparr>s_u := LAPD_U_SABM, length_ind := 2\<rparr>)]
        (lapd_start 2 8 251 LAPD_MODE_NETWORK, []) = None
    \<and> map_option (i_sent \<circ> snd) (run lapd_step [hreq PRIM_DL_EST [], Ph_data [] (hctx\<lparr>s_u := LAPD_U_UA, p_f := 1\<rparr>), Ph_data [] (hctx\<lparr>format := LAPD_FORM_S, s_u := LAPD_S_RNR\<rparr>),
        Ph_data [] (hctx\<lparr>format := LAPD_FORM_S, s_u := LAPD_S_RR\<rparr>), hreq PRIM_DL_DATA [1, 2], T203_expires, Ph_data [] (hctx\<lparr>format := LAPD_FORM_S, s_u := LAPD_S_RR, p_f := 1\<rparr>)]
        (lapd_start 2 8 251 LAPD_MODE_USER, [])) = Some []"
proof (intro conjI)
  obtain dl' w' where d: "lapd_step (Ph_data m disc) (dl, w) = Some (dl', w')" "dl_state dl' = LAPD_STATE_SABM_SENT" "rem2loc dl' = rem2loc dl"
    "rd (tx_hist dl') 0 = Some ((tx_hist dl ! 0)\<lparr>hmsg := None\<rparr>)"
    using malformed_disc_keeps_waiting [OF assms(1-6), of m w] by blast
  show "run lapd_step [Ph_data m disc, Ph_data m' ua] (dl, w) = None"
    using d assms(7-12) by (simp add: lapd_ph_data_ind_def lapd_rx_u_def lapd_rx_u_ua_def Let_def)
qed code_simp+


theorem lapd_hazards_witness:
  "run lapd_step [Ph_data [] (hctx\<lparr>s_u := LAPD_U_DISC\<rparr>), Ph_data [] (hctx\<lparr>s_u := LAPD_U_UA, p_f := 1\<rparr>)]
     ((lapd_start 1 8 251 LAPD_MODE_USER)\<lparr>dl_state := LAPD_STATE_SABM_SENT\<rparr>, []) = None"
proof -
  let ?dl = "(lapd_start 1 8 251 LAPD_MODE_USER)\<lparr>dl_state := LAPD_STATE_SABM_SENT\<rparr>"
  have h: "length (tx_hist ?dl) = unat (range_hist ?dl)" "tx_hist ?dl \<noteq> []" "resp (rem2loc ?dl) = 0" "cmd (rem2loc ?dl) = 1" by code_simp+
  have "run lapd_step [Ph_data [] (hctx\<lparr>s_u := LAPD_U_DISC\<rparr>), Ph_data [] (hctx\<lparr>s_u := LAPD_U_UA, p_f := 1\<rparr>)] (?dl, []) = None"
    by (rule lapd_hazards [THEN conjunct1]) (simp_all only: h, simp_all add: hctx_def zero_ctx_def)
  then show ?thesis .
qed

end
