(* ===== verification/V110.thy ===== *)
theory V110
  imports Prelude
begin

text \<open>
  V.110 frames and synchronous rate adaptation, \<open>src/isdn/v110.c\<close>: a frame as its D, E, S and X bits, its 80-bit form on
  the line, and the RA1 functions that spread user bits of each rate over the D bits of a frame and collect them again.

  The tables \<open>v110_x_bits\<close> to \<open>v110_d_out\<close> are the assignments and \<open>memcpy\<close> calls of the two frame functions in their
  order, run by \<open>places\<close>; the rate adaptations with fill bits are scripts run with the running index \<open>d_idx\<close>. An output
  buffer is an argument, with the length the caller states.

  Shown: one lemma, \<open>places_placed\<close>, gives the result of any such table bit by bit; decoding inverts encoding; and,
  through the contract \<open>ra1_rate\<close> that every pair of adaptation functions satisfies, user bits of every rate pass
  through the frame on the line unchanged.
\<close>


subsection \<open>Placing bits\<close>

definition memset :: "'a list \<Rightarrow> nat \<Rightarrow> 'a \<Rightarrow> nat \<Rightarrow> 'a list res" where
  "memset dst d v n = memcpy dst d (replicate n v) 0 n"

text \<open>A sequence of \<open>memcpy (dst + d, src + s, n)\<close>, \<open>dst[d] = src[s]\<close> (a copy of one) and \<open>memset (dst + d, v, n)\<close>.\<close>

datatype 'a placing = Copy nat nat nat | Fill nat 'a nat

primrec place :: "'a placing \<Rightarrow> 'a list \<Rightarrow> 'a list \<Rightarrow> 'a list res" where
  "place (Copy d s n) src dst = memcpy dst d src s n"
| "place (Fill d v n) src dst = memset dst d v n"

primrec places :: "'a placing list \<Rightarrow> 'a list \<Rightarrow> 'a list \<Rightarrow> 'a list res" where
  "places [] src dst = Some dst"
| "places (p # ps) src dst = do { dst \<leftarrow> place p src dst; places ps src dst }"

subsection \<open>Frames\<close>

type_synonym ubit = u8

record v110_frame =
  d_bits :: "ubit list"
  e_bits :: "ubit list"
  s_bits :: "ubit list"
  x_bits :: "ubit list"

definition v110_x_bits :: "ubit placing list" where
  "v110_x_bits = [Copy 0 (2 * 8 + 7) 1, Copy 1 (7 * 8 + 7) 1]"

definition v110_s_bits :: "ubit placing list" where
  "v110_s_bits = [Copy 0 (1 * 8 + 7) 1, Copy 2 (3 * 8 + 7) 1, Copy 3 (4 * 8 + 7) 1,
                  Copy 5 (6 * 8 + 7) 1, Copy 7 (8 * 8 + 7) 1, Copy 8 (9 * 8 + 7) 1]"

definition v110_e_bits :: "ubit placing list" where
  "v110_e_bits = [Copy 0 (5 * 8 + 1) 7]"

definition v110_d_bits :: "ubit placing list" where
  "v110_d_bits = [Copy (0 * 6) (1 * 8 + 1) 6, Copy (1 * 6) (2 * 8 + 1) 6, Copy (2 * 6) (3 * 8 + 1) 6,
                  Copy (3 * 6) (4 * 8 + 1) 6, Copy (4 * 6) (6 * 8 + 1) 6, Copy (5 * 6) (7 * 8 + 1) 6,
                  Copy (6 * 6) (8 * 8 + 1) 6, Copy (7 * 6) (9 * 8 + 1) 6]"

definition osmo_v110_decode_frame :: "v110_frame \<Rightarrow> ubit list \<Rightarrow> nat \<Rightarrow> (errno + v110_frame) res" where
  "osmo_v110_decode_frame fr ra_bits n_bits =
     (if n_bits < 80 then Some (Inl EINVAL)
      else do {
        x \<leftarrow> places v110_x_bits ra_bits (x_bits fr);
        s \<leftarrow> places v110_s_bits ra_bits (s_bits fr);
        e \<leftarrow> places v110_e_bits ra_bits (e_bits fr);
        d \<leftarrow> places v110_d_bits ra_bits (d_bits fr);
        Some (Inr \<lparr>d_bits = d, e_bits = e, s_bits = s, x_bits = x\<rparr>) })"

definition v110_align :: "ubit placing list" where
  "v110_align = Fill 0 0 8 # map (\<lambda>i. Fill (i * 8) 1 1) [1..<10]"

definition v110_x_out :: "ubit placing list" where
  "v110_x_out = [Copy (2 * 8 + 7) 0 1, Copy (7 * 8 + 7) 1 1]"

definition v110_s_out :: "ubit placing list" where
  "v110_s_out = [Copy (1 * 8 + 7) 0 1, Copy (3 * 8 + 7) 2 1, Copy (4 * 8 + 7) 3 1,
                 Copy (6 * 8 + 7) 5 1, Copy (8 * 8 + 7) 7 1, Copy (9 * 8 + 7) 8 1]"

definition v110_e_out :: "ubit placing list" where
  "v110_e_out = [Copy (5 * 8 + 1) 0 7]"

definition v110_d_out :: "ubit placing list" where
  "v110_d_out = [Copy (1 * 8 + 1) (0 * 6) 6, Copy (2 * 8 + 1) (1 * 6) 6, Copy (3 * 8 + 1) (2 * 6) 6,
                 Copy (4 * 8 + 1) (3 * 6) 6, Copy (6 * 8 + 1) (4 * 6) 6, Copy (7 * 8 + 1) (5 * 6) 6,
                 Copy (8 * 8 + 1) (6 * 6) 6, Copy (9 * 8 + 1) (7 * 6) 6]"

text \<open>The result is the buffer and the number of bits.\<close>

definition osmo_v110_encode_frame :: "ubit list \<Rightarrow> nat \<Rightarrow> v110_frame \<Rightarrow> (errno + ubit list \<times> nat) res" where
  "osmo_v110_encode_frame ra_bits n_bits fr =
     (if n_bits < 80 then Some (Inl ENOSPC)
      else do {
        ra \<leftarrow> places v110_align [] ra_bits;
        ra \<leftarrow> places v110_x_out (x_bits fr) ra;
        ra \<leftarrow> places v110_s_out (s_bits fr) ra;
        ra \<leftarrow> places v110_e_out (e_bits fr) ra;
        ra \<leftarrow> places v110_d_out (d_bits fr) ra;
        Some (Inr (ra, 10 * 8)) })"

subsection \<open>RA1 rate adaptation\<close>

abbreviation (input) OSMO_V110_SYNC_RA1_600 :: nat where "OSMO_V110_SYNC_RA1_600 \<equiv> 0"
abbreviation (input) OSMO_V110_SYNC_RA1_1200 :: nat where "OSMO_V110_SYNC_RA1_1200 \<equiv> 1"
abbreviation (input) OSMO_V110_SYNC_RA1_2400 :: nat where "OSMO_V110_SYNC_RA1_2400 \<equiv> 2"
abbreviation (input) OSMO_V110_SYNC_RA1_4800 :: nat where "OSMO_V110_SYNC_RA1_4800 \<equiv> 3"
abbreviation (input) OSMO_V110_SYNC_RA1_7200 :: nat where "OSMO_V110_SYNC_RA1_7200 \<equiv> 4"
abbreviation (input) OSMO_V110_SYNC_RA1_12000 :: nat where "OSMO_V110_SYNC_RA1_12000 \<equiv> 6"
abbreviation (input) NUM_OSMO_V110_SYNC_RA1 :: nat where "NUM_OSMO_V110_SYNC_RA1 \<equiv> 12"

definition osmo_v110_e1e2e3 :: "ubit list list" where
  "osmo_v110_e1e2e3 =
     [[1, 0, 0], [0, 1, 0], [1, 1, 0], [0, 1, 1], [1, 0, 1], [0, 1, 1],
      [0, 0, 1], [1, 0, 1], [0, 1, 1], [0, 0, 1], [1, 0, 1], [0, 1, 1]]"

definition osmo_v110_e1e2e3_set :: "ubit list \<Rightarrow> nat \<Rightarrow> ubit list res" where
  "osmo_v110_e1e2e3_set e rate = do { t \<leftarrow> rd osmo_v110_e1e2e3 rate; memcpy e 0 t 0 3 }"

text \<open>True when they differ, like the value of \<open>memcmp\<close>.\<close>

definition osmo_v110_e1e2e3_cmp :: "ubit list \<Rightarrow> nat \<Rightarrow> bool res" where
  "osmo_v110_e1e2e3_cmp e rate = do {
     t \<leftarrow> rd osmo_v110_e1e2e3 rate;
     if 3 \<le> length e then Some (take 3 e \<noteq> t) else None }"

definition v110_adapt_600_to_IR8000 :: "v110_frame \<Rightarrow> ubit list \<Rightarrow> nat \<Rightarrow> (errno + v110_frame) res" where
  "v110_adapt_600_to_IR8000 fr d_in in_len =
     (if in_len \<noteq> 6 then Some (Inl EINVAL)
      else do {
        e \<leftarrow> osmo_v110_e1e2e3_set (e_bits fr) OSMO_V110_SYNC_RA1_600;
        d \<leftarrow> for_loop 0 6 (\<lambda>i d. do { v \<leftarrow> rd d_in i; memset d (i * 8) v 8 }) (d_bits fr);
        Some (Inr (fr\<lparr>e_bits := e, d_bits := d\<rparr>)) })"

definition v110_adapt_IR8000_to_600 :: "ubit list \<Rightarrow> nat \<Rightarrow> v110_frame \<Rightarrow> (errno + ubit list \<times> nat) res" where
  "v110_adapt_IR8000_to_600 d_out out_len fr =
     (if out_len < 6 then Some (Inl ENOSPC)
      else do {
        differ \<leftarrow> osmo_v110_e1e2e3_cmp (e_bits fr) OSMO_V110_SYNC_RA1_600;
        if differ then Some (Inl EINVAL)
        else do {
          out \<leftarrow> for_loop 0 6 (\<lambda>i out. do { v \<leftarrow> rd (d_bits fr) (i * 8); wr out i v }) d_out;
          Some (Inr (out, 6)) } })"

definition v110_adapt_1200_to_IR8000 :: "v110_frame \<Rightarrow> ubit list \<Rightarrow> nat \<Rightarrow> (errno + v110_frame) res" where
  "v110_adapt_1200_to_IR8000 fr d_in in_len =
     (if in_len \<noteq> 12 then Some (Inl EINVAL)
      else do {
        e \<leftarrow> osmo_v110_e1e2e3_set (e_bits fr) OSMO_V110_SYNC_RA1_1200;
        d \<leftarrow> for_loop 0 12 (\<lambda>i d. do { v \<leftarrow> rd d_in i; memset d (i * 4) v 4 }) (d_bits fr);
        Some (Inr (fr\<lparr>e_bits := e, d_bits := d\<rparr>)) })"

definition v110_adapt_IR8000_to_1200 :: "ubit list \<Rightarrow> nat \<Rightarrow> v110_frame \<Rightarrow> (errno + ubit list \<times> nat) res" where
  "v110_adapt_IR8000_to_1200 d_out out_len fr =
     (if out_len < 12 then Some (Inl ENOSPC)
      else do {
        differ \<leftarrow> osmo_v110_e1e2e3_cmp (e_bits fr) OSMO_V110_SYNC_RA1_1200;
        if differ then Some (Inl EINVAL)
        else do {
          out \<leftarrow> for_loop 0 12 (\<lambda>i out. do { v \<leftarrow> rd (d_bits fr) (i * 4); wr out i v }) d_out;
          Some (Inr (out, 12)) } })"

definition v110_adapt_2400_to_IR8000 :: "v110_frame \<Rightarrow> ubit list \<Rightarrow> nat \<Rightarrow> (errno + v110_frame) res" where
  "v110_adapt_2400_to_IR8000 fr d_in in_len =
     (if in_len \<noteq> 24 then Some (Inl EINVAL)
      else do {
        e \<leftarrow> osmo_v110_e1e2e3_set (e_bits fr) OSMO_V110_SYNC_RA1_2400;
        d \<leftarrow> for_loop 0 24 (\<lambda>i d. do { v \<leftarrow> rd d_in i; d \<leftarrow> wr d (i * 2 + 0) v; wr d (i * 2 + 1) v }) (d_bits fr);
        Some (Inr (fr\<lparr>e_bits := e, d_bits := d\<rparr>)) })"

definition v110_adapt_IR8000_to_2400 :: "ubit list \<Rightarrow> nat \<Rightarrow> v110_frame \<Rightarrow> (errno + ubit list \<times> nat) res" where
  "v110_adapt_IR8000_to_2400 d_out out_len fr =
     (if out_len < 24 then Some (Inl ENOSPC)
      else do {
        differ \<leftarrow> osmo_v110_e1e2e3_cmp (e_bits fr) OSMO_V110_SYNC_RA1_2400;
        if differ then Some (Inl EINVAL)
        else do {
          out \<leftarrow> for_loop 0 24 (\<lambda>i out. do { v \<leftarrow> rd (d_bits fr) (i * 2); wr out i v }) d_out;
          Some (Inr (out, 24)) } })"

text \<open>
  The adaptations with fill bits copy runs of bits; \<open>d_idx\<close> is the running index in the frame. \<open>Inl s\<close> stands for
  user bits from \<open>s\<close> on, \<open>Inr F\<close> for fill bits, with their number. In the other direction the fill bits are skipped.
\<close>

type_synonym ra1_script = "((nat + ubit) \<times> nat) list"

abbreviation (input) FILL :: ubit where "FILL \<equiv> 1"

fun script_in :: "nat \<Rightarrow> ra1_script \<Rightarrow> ubit placing list \<times> nat" where
  "script_in d_idx [] = ([], d_idx)"
| "script_in d_idx ((Inl s, n) # r) = (let (ps, d) = script_in (d_idx + n) r in (Copy d_idx s n # ps, d))"
| "script_in d_idx ((Inr v, n) # r) = (let (ps, d) = script_in (d_idx + n) r in (Fill d_idx v n # ps, d))"

fun script_out :: "nat \<Rightarrow> ra1_script \<Rightarrow> ubit placing list \<times> nat" where
  "script_out d_idx [] = ([], d_idx)"
| "script_out d_idx ((Inl s, n) # r) = (let (ps, d) = script_out (d_idx + n) r in (Copy s d_idx n # ps, d))"
| "script_out d_idx ((Inr v, n) # r) = script_out (d_idx + n) r"

text \<open>\<open>OSMO_ASSERT(d_idx == 48)\<close> ends the program when it fails.\<close>

definition run_script :: "ubit placing list \<times> nat \<Rightarrow> ubit list \<Rightarrow> ubit list \<Rightarrow> ubit list res" where
  "run_script = (\<lambda>(ps, d_idx) src dst. do { dst \<leftarrow> places ps src dst; if d_idx = 48 then Some dst else None })"

definition script_Nx3600 :: ra1_script where
  "script_Nx3600 = [(Inl 0, 10), (Inr FILL, 2), (Inl 10, 2), (Inr FILL, 2), (Inl 12, 2), (Inr FILL, 2), (Inl 14, 14),
                    (Inr FILL, 2), (Inl 28, 2), (Inr FILL, 2), (Inl 30, 2), (Inr FILL, 2), (Inl 32, 4)]"

definition v110_adapt_Nx3600_to_IR :: "v110_frame \<Rightarrow> ubit list \<Rightarrow> nat \<Rightarrow> (errno + v110_frame) res" where
  "v110_adapt_Nx3600_to_IR fr d_in in_len =
     (if in_len \<noteq> 36 then Some (Inl EINVAL)
      else do {
        e \<leftarrow> osmo_v110_e1e2e3_set (e_bits fr) OSMO_V110_SYNC_RA1_7200;
        d \<leftarrow> run_script (script_in 0 script_Nx3600) d_in (d_bits fr);
        Some (Inr (fr\<lparr>e_bits := e, d_bits := d\<rparr>)) })"

definition v110_adapt_IR_to_Nx3600 :: "ubit list \<Rightarrow> nat \<Rightarrow> v110_frame \<Rightarrow> (errno + ubit list \<times> nat) res" where
  "v110_adapt_IR_to_Nx3600 d_out out_len fr =
     (if out_len < 36 then Some (Inl ENOSPC)
      else do {
        differ \<leftarrow> osmo_v110_e1e2e3_cmp (e_bits fr) OSMO_V110_SYNC_RA1_7200;
        if differ then Some (Inl EINVAL)
        else do {
          out \<leftarrow> run_script (script_out 0 script_Nx3600) (d_bits fr) d_out;
          Some (Inr (out, 36)) } })"

definition v110_adapt_Nx4800_to_IR :: "v110_frame \<Rightarrow> ubit list \<Rightarrow> nat \<Rightarrow> (errno + v110_frame) res" where
  "v110_adapt_Nx4800_to_IR fr d_in in_len =
     (if in_len \<noteq> 48 then Some (Inl EINVAL)
      else do {
        e \<leftarrow> osmo_v110_e1e2e3_set (e_bits fr) OSMO_V110_SYNC_RA1_4800;
        d \<leftarrow> memcpy (d_bits fr) 0 d_in 0 48;
        Some (Inr (fr\<lparr>e_bits := e, d_bits := d\<rparr>)) })"

definition v110_adapt_IR_to_Nx4800 :: "ubit list \<Rightarrow> nat \<Rightarrow> v110_frame \<Rightarrow> (errno + ubit list \<times> nat) res" where
  "v110_adapt_IR_to_Nx4800 d_out out_len fr =
     (if out_len < 48 then Some (Inl ENOSPC)
      else do {
        differ \<leftarrow> osmo_v110_e1e2e3_cmp (e_bits fr) OSMO_V110_SYNC_RA1_4800;
        if differ then Some (Inl EINVAL)
        else do {
          out \<leftarrow> memcpy d_out 0 (d_bits fr) 0 48;
          Some (Inr (out, 48)) } })"

definition script_Nx12000 :: ra1_script where
  "script_Nx12000 = [(Inl 0, 10), (Inr FILL, 2), (Inl 10, 2), (Inr FILL, 2), (Inl 12, 2), (Inr FILL, 2), (Inl 14, 1),
                     (Inr FILL, 3), (Inl 15, 10), (Inr FILL, 2), (Inl 25, 2), (Inr FILL, 2), (Inl 27, 2), (Inr FILL, 2),
                     (Inl 29, 1), (Inr FILL, 3)]"

definition v110_adapt_Nx12000_to_IR :: "v110_frame \<Rightarrow> ubit list \<Rightarrow> nat \<Rightarrow> (errno + v110_frame) res" where
  "v110_adapt_Nx12000_to_IR fr d_in in_len =
     (if in_len \<noteq> 30 then Some (Inl EINVAL)
      else do {
        e \<leftarrow> osmo_v110_e1e2e3_set (e_bits fr) OSMO_V110_SYNC_RA1_12000;
        d \<leftarrow> run_script (script_in 0 script_Nx12000) d_in (d_bits fr);
        Some (Inr (fr\<lparr>e_bits := e, d_bits := d\<rparr>)) })"

definition v110_adapt_IR_to_Nx12000 :: "ubit list \<Rightarrow> nat \<Rightarrow> v110_frame \<Rightarrow> (errno + ubit list \<times> nat) res" where
  "v110_adapt_IR_to_Nx12000 d_out out_len fr =
     (if out_len < 30 then Some (Inl ENOSPC)
      else do {
        differ \<leftarrow> osmo_v110_e1e2e3_cmp (e_bits fr) OSMO_V110_SYNC_RA1_12000;
        if differ then Some (Inl EINVAL)
        else do {
          out \<leftarrow> run_script (script_out 0 script_Nx12000) (d_bits fr) d_out;
          Some (Inr (out, 30)) } })"

record osmo_v110_sync_ra1 =
  data_rate :: nat
  intermediate_rate :: nat
  user_data_chunk_bits :: nat
  adapt_user_to_ir :: "v110_frame \<Rightarrow> ubit list \<Rightarrow> nat \<Rightarrow> (errno + v110_frame) res"
  adapt_ir_to_user :: "ubit list \<Rightarrow> nat \<Rightarrow> v110_frame \<Rightarrow> (errno + ubit list \<times> nat) res"

definition osmo_v110_sync_ra1_def :: "osmo_v110_sync_ra1 list" where
  "osmo_v110_sync_ra1_def =
    [\<lparr>data_rate = 600, intermediate_rate = 8000, user_data_chunk_bits = 6,
      adapt_user_to_ir = v110_adapt_600_to_IR8000, adapt_ir_to_user = v110_adapt_IR8000_to_600\<rparr>,
     \<lparr>data_rate = 1200, intermediate_rate = 8000, user_data_chunk_bits = 12,
      adapt_user_to_ir = v110_adapt_1200_to_IR8000, adapt_ir_to_user = v110_adapt_IR8000_to_1200\<rparr>,
     \<lparr>data_rate = 2400, intermediate_rate = 8000, user_data_chunk_bits = 24,
      adapt_user_to_ir = v110_adapt_2400_to_IR8000, adapt_ir_to_user = v110_adapt_IR8000_to_2400\<rparr>,
     \<lparr>data_rate = 4800, intermediate_rate = 8000, user_data_chunk_bits = 48,
      adapt_user_to_ir = v110_adapt_Nx4800_to_IR, adapt_ir_to_user = v110_adapt_IR_to_Nx4800\<rparr>,
     \<lparr>data_rate = 7200, intermediate_rate = 16000, user_data_chunk_bits = 36,
      adapt_user_to_ir = v110_adapt_Nx3600_to_IR, adapt_ir_to_user = v110_adapt_IR_to_Nx3600\<rparr>,
     \<lparr>data_rate = 9600, intermediate_rate = 16000, user_data_chunk_bits = 48,
      adapt_user_to_ir = v110_adapt_Nx4800_to_IR, adapt_ir_to_user = v110_adapt_IR_to_Nx4800\<rparr>,
     \<lparr>data_rate = 12000, intermediate_rate = 32000, user_data_chunk_bits = 30,
      adapt_user_to_ir = v110_adapt_Nx12000_to_IR, adapt_ir_to_user = v110_adapt_IR_to_Nx12000\<rparr>,
     \<lparr>data_rate = 14400, intermediate_rate = 32000, user_data_chunk_bits = 36,
      adapt_user_to_ir = v110_adapt_Nx3600_to_IR, adapt_ir_to_user = v110_adapt_IR_to_Nx3600\<rparr>,
     \<lparr>data_rate = 19200, intermediate_rate = 32000, user_data_chunk_bits = 48,
      adapt_user_to_ir = v110_adapt_Nx4800_to_IR, adapt_ir_to_user = v110_adapt_IR_to_Nx4800\<rparr>,
     \<lparr>data_rate = 24000, intermediate_rate = 64000, user_data_chunk_bits = 30,
      adapt_user_to_ir = v110_adapt_Nx12000_to_IR, adapt_ir_to_user = v110_adapt_IR_to_Nx12000\<rparr>,
     \<lparr>data_rate = 28800, intermediate_rate = 64000, user_data_chunk_bits = 36,
      adapt_user_to_ir = v110_adapt_Nx3600_to_IR, adapt_ir_to_user = v110_adapt_IR_to_Nx3600\<rparr>,
     \<lparr>data_rate = 38400, intermediate_rate = 64000, user_data_chunk_bits = 48,
      adapt_user_to_ir = v110_adapt_Nx4800_to_IR, adapt_ir_to_user = v110_adapt_IR_to_Nx4800\<rparr>]"

text \<open>The rate is an enumeration, which the caller may set to any number.\<close>

definition sync_ra1 :: "int \<Rightarrow> osmo_v110_sync_ra1 option" where
  "sync_ra1 rate = (if rate < 0 \<or> int NUM_OSMO_V110_SYNC_RA1 \<le> rate then None else Some (osmo_v110_sync_ra1_def ! nat rate))"

definition osmo_v110_sync_ra1_get_user_data_chunk_bitlen :: "int \<Rightarrow> errno + nat" where
  "osmo_v110_sync_ra1_get_user_data_chunk_bitlen rate =
     (case sync_ra1 rate of None \<Rightarrow> Inl EINVAL | Some ra \<Rightarrow> Inr (user_data_chunk_bits ra))"

definition osmo_v110_sync_ra1_get_user_data_rate :: "int \<Rightarrow> errno + nat" where
  "osmo_v110_sync_ra1_get_user_data_rate rate =
     (case sync_ra1 rate of None \<Rightarrow> Inl EINVAL | Some ra \<Rightarrow> Inr (data_rate ra))"

definition osmo_v110_sync_ra1_get_intermediate_rate :: "int \<Rightarrow> errno + nat" where
  "osmo_v110_sync_ra1_get_intermediate_rate rate =
     (case sync_ra1 rate of None \<Rightarrow> Inl EINVAL | Some ra \<Rightarrow> Inr (intermediate_rate ra))"

definition osmo_v110_sync_ra1_user_to_ir :: "int \<Rightarrow> v110_frame \<Rightarrow> ubit list \<Rightarrow> nat \<Rightarrow> (errno + v110_frame) res" where
  "osmo_v110_sync_ra1_user_to_ir rate fr d_in in_len =
     (case sync_ra1 rate of None \<Rightarrow> Some (Inl EINVAL) | Some ra \<Rightarrow> adapt_user_to_ir ra fr d_in in_len)"

definition osmo_v110_sync_ra1_ir_to_user :: "int \<Rightarrow> ubit list \<Rightarrow> nat \<Rightarrow> v110_frame \<Rightarrow> (errno + ubit list \<times> nat) res" where
  "osmo_v110_sync_ra1_ir_to_user rate d_out out_len fr =
     (case sync_ra1 rate of None \<Rightarrow> Some (Inl EINVAL) | Some ra \<Rightarrow> adapt_ir_to_user ra d_out out_len fr)"

section \<open>Properties\<close>

subsection \<open>The result of a sequence of placings\<close>

primrec origin_of :: "'a placing \<Rightarrow> nat \<Rightarrow> (nat + 'a) option" where
  "origin_of (Copy d s n) i = (if d \<le> i \<and> i < d + n then Some (Inl (s + (i - d))) else None)"
| "origin_of (Fill d v n) i = (if d \<le> i \<and> i < d + n then Some (Inr v) else None)"

primrec origin :: "'a placing list \<Rightarrow> nat \<Rightarrow> (nat + 'a) option" where
  "origin [] i = None"
| "origin (p # ps) i = (case origin ps i of None \<Rightarrow> origin_of p i | Some j \<Rightarrow> Some j)"

primrec fits :: "nat \<Rightarrow> nat \<Rightarrow> 'a placing \<Rightarrow> bool" where
  "fits ls ld (Copy d s n) \<longleftrightarrow> s + n \<le> ls \<and> d + n \<le> ld"
| "fits ls ld (Fill d v n) \<longleftrightarrow> d + n \<le> ld"

definition from_origin :: "(nat + 'a) option \<Rightarrow> 'a list \<Rightarrow> 'a \<Rightarrow> 'a" where
  "from_origin q src v = (case q of None \<Rightarrow> v | Some (Inl j) \<Rightarrow> src ! j | Some (Inr w) \<Rightarrow> w)"

lemma from_origin_simps [simp]:
  "from_origin None src v = v" "from_origin (Some (Inl j)) src v = src ! j" "from_origin (Some (Inr w)) src v = w"
  by (simp_all add: from_origin_def)

definition placed :: "'a placing list \<Rightarrow> 'a list \<Rightarrow> 'a list \<Rightarrow> 'a list" where
  "placed ps src dst = map (\<lambda>i. from_origin (origin ps i) src (dst ! i)) [0..<length dst]"

lemma length_placed [simp]: "length (placed ps src dst) = length dst"
  by (simp add: placed_def)

lemma nth_placed [simp]: "i < length dst \<Longrightarrow> placed ps src dst ! i = from_origin (origin ps i) src (dst ! i)"
  by (simp add: placed_def)

lemma place_placed: "fits (length src) (length dst) p \<Longrightarrow> place p src dst = Some (placed [p] src dst)"
  by (cases p) (auto simp: memset_def memcpy_def nth_append intro!: nth_equalityI)

lemma placed_Cons: "placed ps src (placed [p] src dst) = placed (p # ps) src dst"
  by (rule nth_equalityI) (auto simp: from_origin_def split: option.splits sum.splits)

lemma places_placed:
  "list_all (fits (length src) (length dst)) ps \<Longrightarrow> places ps src dst = Some (placed ps src dst)"
proof (induction ps arbitrary: dst)
  case Nil
  then show ?case by (auto intro: nth_equalityI)
next
  case (Cons p ps)
  then show ?case by (simp add: place_placed placed_Cons)
qed

text \<open>A buffer written by several tables in turn, each from its own source.\<close>

primrec placed_all :: "('a placing list \<times> 'a list) list \<Rightarrow> 'a list \<Rightarrow> 'a list" where
  "placed_all [] dst = dst"
| "placed_all (l # ls) dst = placed_all ls (placed (fst l) (snd l) dst)"

lemma length_placed_all [simp]: "length (placed_all ls dst) = length dst"
  by (induction ls arbitrary: dst) auto

lemma nth_placed_all_later:
  "list_all (\<lambda>l. origin (fst l) j = None) ls \<Longrightarrow> j < length dst \<Longrightarrow> placed_all ls dst ! j = dst ! j"
  by (induction ls arbitrary: dst) auto

text \<open>Bit \<open>i\<close> is taken from \<open>j\<close>, which \<open>out\<close> gave the value of bit \<open>i\<close> and no later table changed: it comes back.\<close>

definition returns_bit :: "'a placing list \<Rightarrow> 'a placing list \<Rightarrow> 'a placing list list \<Rightarrow> nat \<Rightarrow> nat \<Rightarrow> bool" where
  "returns_bit back out later n i =
     (case origin back i of
        Some (Inl j) \<Rightarrow> j < n \<and> origin out j = Some (Inl i) \<and> list_all (\<lambda>ps. origin ps j = None) later
      | _ \<Rightarrow> False)"

lemma placed_back:
  assumes "returns_bit back out (map fst later) n i" and "n \<le> length dst" and "i < length r"
  shows "placed back (placed_all later (placed out src dst)) r ! i = src ! i"
  using assms by (auto simp: returns_bit_def nth_placed_all_later list_all_iff split: option.splits sum.splits)

lemma placed_back_all:
  assumes "list_all (returns_bit back out (map fst later) n) [0..<length src]" and "n \<le> length dst"
    and "length r = length src"
  shows "placed back (placed_all later (placed out src dst)) r = src"
proof (rule nth_equalityI)
  fix i assume "i < length (placed back (placed_all later (placed out src dst)) r)"
  with assms show "placed back (placed_all later (placed out src dst)) r ! i = src ! i"
    by (intro placed_back [where n = n]) (auto simp: list_all_iff)
qed (simp add: assms)

subsection \<open>Frames on the line\<close>

definition wf_frame :: "v110_frame \<Rightarrow> bool" where
  "wf_frame fr \<longleftrightarrow> length (d_bits fr) = 48 \<and> length (e_bits fr) = 7 \<and> length (s_bits fr) = 9 \<and> length (x_bits fr) = 2"

lemma wf_frameD [simp]:
  "wf_frame fr \<Longrightarrow> length (d_bits fr) = 48" "wf_frame fr \<Longrightarrow> length (e_bits fr) = 7"
  "wf_frame fr \<Longrightarrow> length (s_bits fr) = 9" "wf_frame fr \<Longrightarrow> length (x_bits fr) = 2"
  by (simp_all add: wf_frame_def)

definition v110_line :: "v110_frame \<Rightarrow> ubit list \<Rightarrow> ubit list" where
  "v110_line fr ra = placed_all [(v110_align, []), (v110_x_out, x_bits fr), (v110_s_out, s_bits fr),
                                 (v110_e_out, e_bits fr), (v110_d_out, d_bits fr)] ra"

lemmas v110_tables = v110_align_def v110_x_out_def v110_s_out_def v110_e_out_def v110_d_out_def
  v110_x_bits_def v110_s_bits_def v110_e_bits_def v110_d_bits_def

lemma v110_places:
  "80 \<le> length ra \<Longrightarrow> places v110_align [] ra = Some (placed v110_align [] ra)"
  "80 \<le> length ra \<Longrightarrow> length x = 2 \<Longrightarrow> places v110_x_out x ra = Some (placed v110_x_out x ra)"
  "80 \<le> length ra \<Longrightarrow> length s = 9 \<Longrightarrow> places v110_s_out s ra = Some (placed v110_s_out s ra)"
  "80 \<le> length ra \<Longrightarrow> length e = 7 \<Longrightarrow> places v110_e_out e ra = Some (placed v110_e_out e ra)"
  "80 \<le> length ra \<Longrightarrow> length d = 48 \<Longrightarrow> places v110_d_out d ra = Some (placed v110_d_out d ra)"
  "80 \<le> length ra \<Longrightarrow> length x = 2 \<Longrightarrow> places v110_x_bits ra x = Some (placed v110_x_bits ra x)"
  "80 \<le> length ra \<Longrightarrow> length s = 9 \<Longrightarrow> places v110_s_bits ra s = Some (placed v110_s_bits ra s)"
  "80 \<le> length ra \<Longrightarrow> length e = 7 \<Longrightarrow> places v110_e_bits ra e = Some (placed v110_e_bits ra e)"
  "80 \<le> length ra \<Longrightarrow> length d = 48 \<Longrightarrow> places v110_d_bits ra d = Some (placed v110_d_bits ra d)"
  by (rule places_placed; simp add: v110_tables upt_rec)+

lemma v110_encode:
  "wf_frame fr \<Longrightarrow> 80 \<le> n \<Longrightarrow> n \<le> length ra \<Longrightarrow> osmo_v110_encode_frame ra n fr = Some (Inr (v110_line fr ra, 80))"
  by (simp add: osmo_v110_encode_frame_def v110_line_def v110_places)

lemma v110_decode:
  "wf_frame fr \<Longrightarrow> 80 \<le> n \<Longrightarrow> n \<le> length ra \<Longrightarrow>
   osmo_v110_decode_frame fr ra n =
     Some (Inr \<lparr>d_bits = placed v110_d_bits ra (d_bits fr), e_bits = placed v110_e_bits ra (e_bits fr),
                s_bits = placed v110_s_bits ra (s_bits fr), x_bits = placed v110_x_bits ra (x_bits fr)\<rparr>)"
  by (simp add: osmo_v110_decode_frame_def v110_places)

text \<open>The S bits 2, 5 and 7 of the record have no place on the line; decoding leaves them as they were.\<close>

definition keep_s :: "ubit list \<Rightarrow> ubit list \<Rightarrow> ubit list" where
  "keep_s s s' = [s ! 0, s' ! 1, s ! 2, s ! 3, s' ! 4, s ! 5, s' ! 6, s ! 7, s ! 8]"

lemma v110_line_d: "wf_frame fr \<Longrightarrow> 80 \<le> length ra \<Longrightarrow> length d = 48 \<Longrightarrow> placed v110_d_bits (v110_line fr ra) d = d_bits fr"
proof -
  assume a: "wf_frame fr" "80 \<le> length ra" "length d = 48"
  have "list_all (returns_bit v110_d_bits v110_d_out [] 80) [0..<48]" by code_simp
  with a placed_back_all [of v110_d_bits v110_d_out "[]" 80 "d_bits fr"] show ?thesis by (simp add: v110_line_def)
qed

lemma v110_line_e: "wf_frame fr \<Longrightarrow> 80 \<le> length ra \<Longrightarrow> length e = 7 \<Longrightarrow> placed v110_e_bits (v110_line fr ra) e = e_bits fr"
proof -
  assume a: "wf_frame fr" "80 \<le> length ra" "length e = 7"
  have "list_all (returns_bit v110_e_bits v110_e_out [v110_d_out] 80) [0..<7]" by code_simp
  with a placed_back_all [of v110_e_bits v110_e_out "[(v110_d_out, d_bits fr)]" 80 "e_bits fr"]
  show ?thesis by (simp add: v110_line_def)
qed

lemma v110_line_x: "wf_frame fr \<Longrightarrow> 80 \<le> length ra \<Longrightarrow> length x = 2 \<Longrightarrow> placed v110_x_bits (v110_line fr ra) x = x_bits fr"
proof -
  assume a: "wf_frame fr" "80 \<le> length ra" "length x = 2"
  have "list_all (returns_bit v110_x_bits v110_x_out [v110_s_out, v110_e_out, v110_d_out] 80) [0..<2]" by code_simp
  with a placed_back_all [of v110_x_bits v110_x_out "[(v110_s_out, s_bits fr), (v110_e_out, e_bits fr), (v110_d_out, d_bits fr)]" 80 "x_bits fr"]
  show ?thesis by (simp add: v110_line_def)
qed

lemma less_9_cases: "(i :: nat) < 9 \<longleftrightarrow> i \<in> {0, 1, 2, 3, 4, 5, 6, 7, 8}"
  by auto

lemma v110_line_s:
  assumes "wf_frame fr" "80 \<le> length ra" "length s = 9"
  shows "placed v110_s_bits (v110_line fr ra) s = keep_s (s_bits fr) s"
proof (rule nth_equalityI)
  fix i assume "i < length (placed v110_s_bits (v110_line fr ra) s)"
  then have i: "i \<in> {0, 1, 2, 3, 4, 5, 6, 7, 8}" using assms less_9_cases by simp
  have bk: "list_all (returns_bit v110_s_bits v110_s_out [v110_e_out, v110_d_out] 80) [0, 2, 3, 5, 7, 8]" by code_simp
  have rs: "list_all (\<lambda>i. origin v110_s_bits i = None) [1, 4, 6]" by code_simp
  show "placed v110_s_bits (v110_line fr ra) s ! i = keep_s (s_bits fr) s ! i"
  proof (cases "i \<in> {1, 4, 6}")
    case True
    with rs assms show ?thesis by (auto simp: keep_s_def)
  next
    case False
    with i bk have "returns_bit v110_s_bits v110_s_out (map fst [(v110_e_out, e_bits fr), (v110_d_out, d_bits fr)]) 80 i" by auto
    from placed_back [OF this, of "placed v110_x_out (x_bits fr) (placed v110_align [] ra)" s "s_bits fr"]
    have "placed v110_s_bits (v110_line fr ra) s ! i = s_bits fr ! i"
      using i assms by (simp add: v110_line_def less_9_cases del: nth_placed)
    with i False show ?thesis by (auto simp: keep_s_def)
  qed
qed (simp add: keep_s_def assms)

text \<open>The frame alignment pattern: eight zeros, then a one at the start of each of the nine other octets.\<close>

definition v110_aligned :: "ubit list \<Rightarrow> bool" where
  "v110_aligned ra \<longleftrightarrow> list_all (\<lambda>i. ra ! i = 0) [0..<8] \<and> list_all (\<lambda>i. ra ! (8 * i) = 1) [1..<10]"

lemma v110_line_aligned: "80 \<le> length ra \<Longrightarrow> v110_aligned (v110_line fr ra)"
proof -
  assume a: "80 \<le> length ra"
  define ps where "ps = [(v110_x_out, x_bits fr), (v110_s_out, s_bits fr), (v110_e_out, e_bits fr), (v110_d_out, d_bits fr)]"
  have keep: "list_all (\<lambda>l. origin (fst l) j = None) ps"
    if "list_all (\<lambda>p. origin p j = None) [v110_x_out, v110_s_out, v110_e_out, v110_d_out]" for j
    using that by (simp add: ps_def)
  have z: "list_all (\<lambda>j. list_all (\<lambda>p. origin p j = None) [v110_x_out, v110_s_out, v110_e_out, v110_d_out] \<and>
             origin v110_align j = Some (Inr 0)) [0..<8]" by code_simp
  have one: "list_all (\<lambda>i. list_all (\<lambda>p. origin p (8 * i) = None) [v110_x_out, v110_s_out, v110_e_out, v110_d_out] \<and>
             origin v110_align (8 * i) = Some (Inr 1)) [1..<10]" by code_simp
  have line: "v110_line fr ra = placed_all ps (placed v110_align [] ra)" by (simp add: v110_line_def ps_def)
  have val: "v110_line fr ra ! j = v" if "list_all (\<lambda>p. origin p j = None) [v110_x_out, v110_s_out, v110_e_out, v110_d_out] \<and>
             origin v110_align j = Some (Inr v)" "j < 80" for j v
    using that a nth_placed_all_later [OF keep, of j "placed v110_align [] ra"] by (simp add: line)
  show ?thesis
    unfolding v110_aligned_def list_all_iff set_upt atLeastLessThan_iff Ball_def
    using z one by (auto intro!: val simp: list_all_iff)
qed

lemma length_v110_line [simp]: "length (v110_line fr ra) = length ra"
  by (simp add: v110_line_def)

lemma v110_frame_roundtrip:
  "wf_frame fr \<Longrightarrow> wf_frame fr0 \<Longrightarrow> 80 \<le> length ra \<Longrightarrow>
   osmo_v110_decode_frame fr0 (v110_line fr ra) (length ra) = Some (Inr (fr\<lparr>s_bits := keep_s (s_bits fr) (s_bits fr0)\<rparr>))"
  by (simp add: v110_decode v110_line_d v110_line_e v110_line_x v110_line_s)

subsection \<open>The contract of a rate adaptation\<close>

locale ra1_rate =
  fixes chunk :: nat and e :: "ubit list" and spread :: "ubit list \<Rightarrow> ubit list"
    and to_ir :: "v110_frame \<Rightarrow> ubit list \<Rightarrow> nat \<Rightarrow> (errno + v110_frame) res"
    and to_user :: "ubit list \<Rightarrow> nat \<Rightarrow> v110_frame \<Rightarrow> (errno + ubit list \<times> nat) res"
  assumes e_length: "length e = 3"
    and spread_length: "length d_in = chunk \<Longrightarrow> length (spread d_in) = 48"
    and to_ir: "wf_frame fr \<Longrightarrow> length d_in = chunk \<Longrightarrow>
      to_ir fr d_in chunk = Some (Inr (fr\<lparr>e_bits := e @ drop 3 (e_bits fr), d_bits := spread d_in\<rparr>))"
    and to_ir_length: "n \<noteq> chunk \<Longrightarrow> to_ir fr d_in n = Some (Inl EINVAL)"
    and to_user: "wf_frame fr \<Longrightarrow> take 3 (e_bits fr) = e \<Longrightarrow> length d_in = chunk \<Longrightarrow> d_bits fr = spread d_in \<Longrightarrow>
      chunk \<le> n \<Longrightarrow> n \<le> length out \<Longrightarrow> to_user out n fr = Some (Inr (d_in @ drop chunk out, chunk))"
    and to_user_space: "n < chunk \<Longrightarrow> to_user out n fr = Some (Inl ENOSPC)"
    and to_user_rate: "wf_frame fr \<Longrightarrow> take 3 (e_bits fr) \<noteq> e \<Longrightarrow> chunk \<le> n \<Longrightarrow> to_user out n fr = Some (Inl EINVAL)"
    and to_user_any: "wf_frame fr \<Longrightarrow> take 3 (e_bits fr) = e \<Longrightarrow> chunk \<le> n \<Longrightarrow> n \<le> length out \<Longrightarrow>
      \<exists>u. length u = chunk \<and> to_user out n fr = Some (Inr (u @ drop chunk out, chunk))"
    and chunk_range: "0 < chunk \<and> chunk \<le> 48"
begin

definition adapted :: "v110_frame \<Rightarrow> ubit list \<Rightarrow> v110_frame" where
  "adapted fr d_in = fr\<lparr>e_bits := e @ drop 3 (e_bits fr), d_bits := spread d_in\<rparr>"

lemma wf_adapted: "wf_frame fr \<Longrightarrow> length d_in = chunk \<Longrightarrow> wf_frame (adapted fr d_in)"
  by (simp add: adapted_def wf_frame_def spread_length e_length del: wf_frameD)

text \<open>A frame that arrives with the D bits and the rate it was sent with gives the user bits back.\<close>

lemma collected:
  assumes "wf_frame fr" "length d_in = chunk" "wf_frame fr'" "d_bits fr' = d_bits (adapted fr d_in)"
    and "take 3 (e_bits fr') = take 3 (e_bits (adapted fr d_in))" "chunk \<le> length out"
  shows "to_user out (length out) fr' = Some (Inr (d_in @ drop chunk out, chunk))"
  using assms by (intro to_user) (simp_all add: adapted_def e_length)

end

subsubsection \<open>Rates that repeat each user bit\<close>

definition repeated :: "nat \<Rightarrow> ubit list \<Rightarrow> ubit list" where
  "repeated k d_in = map (\<lambda>j. d_in ! (j div k)) [0..<48]"

lemma repeat_loop:
  assumes body: "\<And>i d. i < n \<Longrightarrow> length d = 48 \<Longrightarrow> body i d = memset d (i * k) (d_in ! i) k"
    and "n * k = 48" "length d = 48"
  shows "for_loop 0 n body d = Some (repeated k d_in)"
proof -
  let ?P = "\<lambda>i d. length d = 48 \<and> (\<forall>j < i * k. d ! j = d_in ! (j div k))"
  have k: "0 < k" using assms(2) by (cases k) auto
  have "\<exists>s'. for_loop 0 n body d = Some s' \<and> ?P n s'"
  proof (rule for_loop_rule)
    show "\<exists>t'. body i t = Some t' \<and> ?P (Suc i) t'" if "0 \<le> i" "i < n" "?P i t" for i t
    proof -
      have "(i + 1) * k \<le> n * k" using that by (intro mult_le_mono1) simp
      then have room: "i * k + k \<le> length t" using that assms(2) by simp
      have m: "memset t (i * k) (d_in ! i) k = Some (placed [Fill (i * k) (d_in ! i) k] [] t)"
        using place_placed [of "[]" t "Fill (i * k) (d_in ! i) k"] room by simp
      have "placed [Fill (i * k) (d_in ! i) k] [] t ! j = d_in ! (j div k)" if j: "j < Suc i * k" for j
      proof (cases "j < i * k")
        case True
        with \<open>?P i t\<close> room show ?thesis by simp
      next
        case False
        then have "j div k = i" using j k by (intro div_nat_eqI) (auto simp: mult.commute)
        with False j room show ?thesis by simp
      qed
      with m that body [of i t] show ?thesis by (intro exI [of _ "placed [Fill (i * k) (d_in ! i) k] [] t"]) simp
    qed
  qed (use assms in auto)
  with assms(2) show ?thesis by (auto simp: repeated_def intro!: nth_equalityI)
qed

lemma collect_loop:
  assumes "n * k = 48" "0 < k" "length d_in = n" "d = repeated k d_in" "n \<le> length out"
  shows "for_loop 0 n (\<lambda>i out. do { v \<leftarrow> rd d (i * k); wr out i v }) out = Some (d_in @ drop n out)"
proof -
  have lt: "i * k < 48" if "i < n" for i using that assms(1,2) by (metis mult_less_cancel2)
  have "\<exists>out'. for_loop 0 n (\<lambda>i out. do { v \<leftarrow> rd d (i * k); wr out i v }) out = Some out' \<and> length out' = length out \<and>
          (\<forall>j < length out. out' ! j = (if 0 \<le> j \<and> j < n then d_in ! j else out ! j))"
    by (rule for_loop_pointwise) (use assms lt in \<open>auto simp: rd_def wr_def repeated_def\<close>)
  then show ?thesis using assms by (auto simp: nth_append intro!: nth_equalityI)
qed

lemma collect_any:
  assumes "n * k = 48" "0 < k" "length d = 48" "n \<le> length out"
  shows "\<exists>u. length u = n \<and> do { out \<leftarrow> for_loop 0 n (\<lambda>i out. do { v \<leftarrow> rd d (i * k); wr out i v }) out; Some (Inr (out, n)) } =
           Some (Inr (u @ drop n out, n) :: errno + _)"
proof -
  have lt: "i * k < 48" if "i < n" for i using that assms(1,2) by (metis mult_less_cancel2)
  have "\<exists>out'. for_loop 0 n (\<lambda>i out. do { v \<leftarrow> rd d (i * k); wr out i v }) out = Some out' \<and> length out' = length out \<and>
          (\<forall>j < length out. out' ! j = (if 0 \<le> j \<and> j < n then d ! (j * k) else out ! j))"
    by (rule for_loop_pointwise) (use assms lt in \<open>auto simp: rd_def wr_def\<close>)
  then obtain out' where o: "for_loop 0 n (\<lambda>i out. do { v \<leftarrow> rd d (i * k); wr out i v }) out = Some out'" "length out' = length out"
    "\<forall>j < length out. out' ! j = (if 0 \<le> j \<and> j < n then d ! (j * k) else out ! j)" by blast
  have "out' = take n out' @ drop n out" using o assms(4) by (auto simp: nth_append intro!: nth_equalityI)
  then show ?thesis using o(1,2) assms(4) by (intro exI [of _ "take n out'"]) simp
qed

lemma e1e2e3_set: "wf_frame fr \<Longrightarrow> rate < 12 \<Longrightarrow>
  osmo_v110_e1e2e3_set (e_bits fr) rate = Some (osmo_v110_e1e2e3 ! rate @ drop 3 (e_bits fr)) \<and> length (osmo_v110_e1e2e3 ! rate) = 3"
proof -
  assume a: "wf_frame fr" "rate < 12"
  have "list_all (\<lambda>t. length t = 3) osmo_v110_e1e2e3 \<and> length osmo_v110_e1e2e3 = 12" by code_simp
  with a have "length (osmo_v110_e1e2e3 ! rate) = 3" "length osmo_v110_e1e2e3 = 12" by (simp_all add: list_all_length)
  with a show ?thesis by (simp add: osmo_v110_e1e2e3_set_def rd_def memcpy_def)
qed

lemma e1e2e3_cmp: "wf_frame fr \<Longrightarrow> rate < 12 \<Longrightarrow>
  osmo_v110_e1e2e3_cmp (e_bits fr) rate = Some (take 3 (e_bits fr) \<noteq> osmo_v110_e1e2e3 ! rate)"
proof -
  assume a: "wf_frame fr" "rate < 12"
  have "length osmo_v110_e1e2e3 = 12" by code_simp
  with a show ?thesis by (simp add: osmo_v110_e1e2e3_cmp_def rd_def)
qed

lemma length_repeated [simp]: "length (repeated k d) = 48"
  by (simp add: repeated_def)

interpretation r600: ra1_rate 6 "osmo_v110_e1e2e3 ! 0" "repeated 8" v110_adapt_600_to_IR8000 v110_adapt_IR8000_to_600
proof unfold_locales
  fix fr :: v110_frame and d_in :: "ubit list" assume "wf_frame fr" "length d_in = 6"
  then show "v110_adapt_600_to_IR8000 fr d_in 6 = Some (Inr (fr\<lparr>e_bits := osmo_v110_e1e2e3 ! 0 @ drop 3 (e_bits fr), d_bits := repeated 8 d_in\<rparr>))"
    using repeat_loop [of 6 "\<lambda>i d. do { v \<leftarrow> rd d_in i; memset d (i * 8) v 8 }" 8 d_in "d_bits fr"]
    by (simp add: v110_adapt_600_to_IR8000_def e1e2e3_set rd_def)
qed (simp_all add: v110_adapt_600_to_IR8000_def v110_adapt_IR8000_to_600_def e1e2e3_set e1e2e3_cmp collect_loop collect_any osmo_v110_e1e2e3_def)

interpretation r1200: ra1_rate 12 "osmo_v110_e1e2e3 ! 1" "repeated 4" v110_adapt_1200_to_IR8000 v110_adapt_IR8000_to_1200
proof unfold_locales
  fix fr :: v110_frame and d_in :: "ubit list" assume "wf_frame fr" "length d_in = 12"
  then show "v110_adapt_1200_to_IR8000 fr d_in 12 = Some (Inr (fr\<lparr>e_bits := osmo_v110_e1e2e3 ! 1 @ drop 3 (e_bits fr), d_bits := repeated 4 d_in\<rparr>))"
    using repeat_loop [of 12 "\<lambda>i d. do { v \<leftarrow> rd d_in i; memset d (i * 4) v 4 }" 4 d_in "d_bits fr"]
    by (simp add: v110_adapt_1200_to_IR8000_def e1e2e3_set rd_def)
qed (simp_all add: v110_adapt_1200_to_IR8000_def v110_adapt_IR8000_to_1200_def e1e2e3_set e1e2e3_cmp collect_loop collect_any osmo_v110_e1e2e3_def)

lemma wr_wr_memset: "i * 2 + 2 \<le> length d \<Longrightarrow> do { d \<leftarrow> wr d (i * 2) v; wr d (Suc (i * 2)) v } = memset d (i * 2) v 2"
proof -
  assume a: "i * 2 + 2 \<le> length d"
  then have "memset d (i * 2) v 2 = Some (placed [Fill (i * 2) v 2] [] d)"
    using place_placed [of "[]" d "Fill (i * 2) v 2"] by simp
  moreover have "placed [Fill (i * 2) v 2] [] d = d[i * 2 := v, Suc (i * 2) := v]"
    by (rule nth_equalityI) (auto simp: nth_list_update less_Suc_eq)
  ultimately show ?thesis using a by (simp add: wr_def)
qed

interpretation r2400: ra1_rate 24 "osmo_v110_e1e2e3 ! 2" "repeated 2" v110_adapt_2400_to_IR8000 v110_adapt_IR8000_to_2400
proof unfold_locales
  fix fr :: v110_frame and d_in :: "ubit list" assume "wf_frame fr" "length d_in = 24"
  then show "v110_adapt_2400_to_IR8000 fr d_in 24 = Some (Inr (fr\<lparr>e_bits := osmo_v110_e1e2e3 ! 2 @ drop 3 (e_bits fr), d_bits := repeated 2 d_in\<rparr>))"
    using repeat_loop [of 24 "\<lambda>i d. do { v \<leftarrow> rd d_in i; d \<leftarrow> wr d (i * 2 + 0) v; wr d (i * 2 + 1) v }" 2 d_in "d_bits fr"]
    by (simp add: v110_adapt_2400_to_IR8000_def e1e2e3_set rd_def wr_wr_memset)
qed (simp_all add: v110_adapt_2400_to_IR8000_def v110_adapt_IR8000_to_2400_def e1e2e3_set e1e2e3_cmp collect_loop collect_any osmo_v110_e1e2e3_def)

interpretation r4800: ra1_rate 48 "osmo_v110_e1e2e3 ! 3" "\<lambda>d. d" v110_adapt_Nx4800_to_IR v110_adapt_IR_to_Nx4800
  by unfold_locales (simp_all add: v110_adapt_Nx4800_to_IR_def v110_adapt_IR_to_Nx4800_def e1e2e3_set e1e2e3_cmp memcpy_def osmo_v110_e1e2e3_def exI [of _ "d_bits _"])

subsubsection \<open>Rates with fill bits\<close>

definition filled :: "ra1_script \<Rightarrow> ubit list \<Rightarrow> ubit list" where
  "filled scr d_in = placed (fst (script_in 0 scr)) d_in (replicate 48 0)"

lemma length_filled [simp]: "length (filled scr d) = 48"
  by (simp add: filled_def)

definition script_ok :: "ra1_script \<Rightarrow> nat \<Rightarrow> bool" where
  "script_ok scr n \<longleftrightarrow>
     list_all (fits n 48) (fst (script_in 0 scr)) \<and> snd (script_in 0 scr) = 48 \<and>
     list_all (fits 48 n) (fst (script_out 0 scr)) \<and> snd (script_out 0 scr) = 48 \<and>
     list_all (\<lambda>i. origin (fst (script_in 0 scr)) i \<noteq> None) [0..<48] \<and>
     list_all (returns_bit (fst (script_out 0 scr)) (fst (script_in 0 scr)) [] 48) [0..<n]"

lemma placed_covered:
  assumes "list_all (\<lambda>i. origin ps i \<noteq> None) [0..<length r]" "length r' = length r"
  shows "placed ps src r = placed ps src r'"
proof (rule nth_equalityI)
  fix i assume "i < length (placed ps src r)"
  with assms obtain q where "origin ps i = Some q" by (auto simp: list_all_length)
  with \<open>i < _\<close> assms(2) show "placed ps src r ! i = placed ps src r' ! i" by (cases q) auto
qed (simp add: assms)

lemma script_in_run:
  assumes "script_ok scr n" "length d_in = n" "length d = 48"
  shows "run_script (script_in 0 scr) d_in d = Some (filled scr d_in)"
proof -
  have "places (fst (script_in 0 scr)) d_in d = Some (placed (fst (script_in 0 scr)) d_in d)"
    using assms by (intro places_placed) (simp add: script_ok_def)
  moreover have "placed (fst (script_in 0 scr)) d_in d = filled scr d_in"
    unfolding filled_def using assms by (intro placed_covered) (simp_all add: script_ok_def)
  ultimately show ?thesis
    using assms by (simp add: run_script_def script_ok_def split_def)
qed

lemma fits_mono: "fits ls ld p \<Longrightarrow> ld \<le> ld' \<Longrightarrow> fits ls ld' p"
  by (cases p) auto

lemma origin_beyond: "list_all (fits ls n) ps \<Longrightarrow> n \<le> i \<Longrightarrow> origin ps i = None"
proof (induction ps)
  case (Cons p ps)
  then show ?case by (cases p) auto
qed simp

lemma script_out_run:
  assumes "script_ok scr n" "length d_in = n" "n \<le> length out"
  shows "run_script (script_out 0 scr) (filled scr d_in) out = Some (d_in @ drop n out)"
proof -
  let ?ps = "fst (script_out 0 scr)"
  have "places ?ps (filled scr d_in) out = Some (placed ?ps (filled scr d_in) out)"
    using assms by (intro places_placed) (auto simp: script_ok_def list_all_iff intro: fits_mono)
  moreover have "placed ?ps (filled scr d_in) out = d_in @ drop n out"
  proof (rule nth_equalityI)
    fix i assume i: "i < length (placed ?ps (filled scr d_in) out)"
    show "placed ?ps (filled scr d_in) out ! i = (d_in @ drop n out) ! i"
    proof (cases "i < n")
      case True
      with assms have "returns_bit ?ps (fst (script_in 0 scr)) (map fst []) 48 i"
        by (simp add: script_ok_def list_all_iff)
      from placed_back [OF this, of "replicate 48 0" out d_in] True i assms show ?thesis
        by (simp add: filled_def nth_append del: nth_placed)
    next
      case False
      with i assms origin_beyond [of 48 n ?ps i] show ?thesis by (simp add: script_ok_def nth_append)
    qed
  qed (use assms in simp)
  ultimately show ?thesis using assms by (simp add: run_script_def script_ok_def split_def)
qed

lemma script_out_any:
  assumes "script_ok scr n" "length d = 48" "n \<le> length out"
  shows "\<exists>u. length u = n \<and> do { out \<leftarrow> run_script (script_out 0 scr) d out; Some (Inr (out, n)) } =
           Some (Inr (u @ drop n out, n) :: errno + _)"
proof -
  let ?ps = "fst (script_out 0 scr)"
  have "places ?ps d out = Some (placed ?ps d out)"
    using assms by (intro places_placed) (auto simp: script_ok_def list_all_iff intro: fits_mono)
  moreover have "placed ?ps d out = take n (placed ?ps d out) @ drop n out"
  proof (rule nth_equalityI)
    fix i assume "i < length (placed ?ps d out)"
    with assms origin_beyond [of 48 n ?ps i] show "placed ?ps d out ! i = (take n (placed ?ps d out) @ drop n out) ! i"
      by (simp add: script_ok_def nth_append)
  qed (use assms in simp)
  ultimately have "run_script (script_out 0 scr) d out = Some (take n (placed ?ps d out) @ drop n out)"
    using assms by (simp add: run_script_def script_ok_def split_def)
  then show ?thesis using assms by (intro exI [of _ "take n (placed ?ps d out)"]) simp
qed

lemma script_ok_Nx3600: "script_ok script_Nx3600 36" by code_simp
lemma script_ok_Nx12000: "script_ok script_Nx12000 30" by code_simp

interpretation r3600: ra1_rate 36 "osmo_v110_e1e2e3 ! 4" "filled script_Nx3600" v110_adapt_Nx3600_to_IR v110_adapt_IR_to_Nx3600
  by unfold_locales (simp_all add: v110_adapt_Nx3600_to_IR_def v110_adapt_IR_to_Nx3600_def e1e2e3_set e1e2e3_cmp
      script_in_run [OF script_ok_Nx3600] script_out_run [OF script_ok_Nx3600] script_out_any [OF script_ok_Nx3600] osmo_v110_e1e2e3_def)

interpretation r12000: ra1_rate 30 "osmo_v110_e1e2e3 ! 6" "filled script_Nx12000" v110_adapt_Nx12000_to_IR v110_adapt_IR_to_Nx12000
  by unfold_locales (simp_all add: v110_adapt_Nx12000_to_IR_def v110_adapt_IR_to_Nx12000_def e1e2e3_set e1e2e3_cmp
      script_in_run [OF script_ok_Nx12000] script_out_run [OF script_ok_Nx12000] script_out_any [OF script_ok_Nx12000] osmo_v110_e1e2e3_def)

subsection \<open>User bits over the line\<close>

lemma sync_ra1_cases:
  assumes "sync_ra1 rate = Some ra"
  shows "rate \<in> set [0, 1, 2, 3, 4, 5, 6, 7, 8, 9, 10, 11] \<and> ra = osmo_v110_sync_ra1_def ! nat rate"
proof -
  have "0 \<le> r \<Longrightarrow> r < 12 \<Longrightarrow> r = 0 \<or> r = 1 \<or> r = 2 \<or> r = 3 \<or> r = 4 \<or> r = 5 \<or> r = 6 \<or> r = 7 \<or> r = 8 \<or> r = 9 \<or> r = 10 \<or> r = 11"
    for r :: int by presburger
  with assms show ?thesis by (simp add: sync_ra1_def split: if_splits)
qed

definition paired :: "'a list \<Rightarrow> bool" where
  "paired d \<longleftrightarrow> (\<forall>i < length d div 2. d ! (2 * i) = d ! (2 * i + 1))"

lemma paired_repeated:
  assumes "k \<in> {2, 4, 8}"
  shows "paired (repeated k d)"
proof -
  have "k = 2 * (k div 2)" using assms by auto
  then have "(2 * i + 1) div k = (2 * i) div k" for i by (metis div_mult2_eq Suc_eq_plus1 div_mult_self1_is_m Suc_double_not_eq_double even_Suc_div_two dvd_triv_left zero_less_numeral)
  then show ?thesis by (simp add: paired_def repeated_def)
qed

text \<open>Every entry of the table satisfies the contract; those below 4800 bit/s give pairs of equal bits,
  and those that are multiples of 4800 bit/s by a power of two use the D bits as they are.\<close>

lemma ra1_contract:
  assumes "sync_ra1 rate = Some ra"
  shows "\<exists>e spread. ra1_rate (user_data_chunk_bits ra) e spread (adapt_user_to_ir ra) (adapt_ir_to_user ra) \<and>
           e = osmo_v110_e1e2e3 ! nat rate \<and> (data_rate ra < 4800 \<longrightarrow> (\<forall>d. paired (spread d))) \<and>
           (data_rate ra \<in> {4800, 9600, 19200, 38400} \<longrightarrow> spread = (\<lambda>d. d)) \<and>
           intermediate_rate ra * user_data_chunk_bits ra = 80 * data_rate ra"
proof -
  note rates = r600.ra1_rate_axioms r1200.ra1_rate_axioms r2400.ra1_rate_axioms r4800.ra1_rate_axioms
    r3600.ra1_rate_axioms r12000.ra1_rate_axioms
  have e: "osmo_v110_e1e2e3 ! 5 = osmo_v110_e1e2e3 ! 3" "osmo_v110_e1e2e3 ! 8 = osmo_v110_e1e2e3 ! 3"
    "osmo_v110_e1e2e3 ! 11 = osmo_v110_e1e2e3 ! 3" "osmo_v110_e1e2e3 ! 7 = osmo_v110_e1e2e3 ! 4"
    "osmo_v110_e1e2e3 ! 10 = osmo_v110_e1e2e3 ! 4" "osmo_v110_e1e2e3 ! 9 = osmo_v110_e1e2e3 ! 6"
    by (simp_all add: osmo_v110_e1e2e3_def)
  have "rate \<in> {0, 1, 2, 3, 4, 5, 6, 7, 8, 9, 10, 11}" "ra = osmo_v110_sync_ra1_def ! nat rate"
    using sync_ra1_cases [OF assms] by simp_all
  then consider "rate \<in> {0}" | "rate \<in> {1}" | "rate \<in> {2}" | "rate \<in> {3, 5, 8, 11}" | "rate \<in> {4, 7, 10}" | "rate \<in> {6, 9}" by auto
  then show ?thesis
  proof cases
    case 1
    with \<open>ra = _\<close> show ?thesis by (intro exI [of _ "osmo_v110_e1e2e3 ! 0"] exI [of _ "repeated 8"])
      (simp add: osmo_v110_sync_ra1_def_def rates paired_repeated)
  next
    case 2
    with \<open>ra = _\<close> show ?thesis by (intro exI [of _ "osmo_v110_e1e2e3 ! 1"] exI [of _ "repeated 4"])
      (use rates in \<open>simp add: osmo_v110_sync_ra1_def_def paired_repeated\<close>)
  next
    case 3
    with \<open>ra = _\<close> show ?thesis by (intro exI [of _ "osmo_v110_e1e2e3 ! 2"] exI [of _ "repeated 2"])
      (use rates in \<open>simp add: osmo_v110_sync_ra1_def_def paired_repeated\<close>)
  next
    case 4
    with \<open>ra = _\<close> show ?thesis by (intro exI [of _ "osmo_v110_e1e2e3 ! 3"] exI [of _ "\<lambda>d. d"])
      (use rates in \<open>auto simp: osmo_v110_sync_ra1_def_def e\<close>)
  next
    case 5
    with \<open>ra = _\<close> show ?thesis by (intro exI [of _ "osmo_v110_e1e2e3 ! 4"] exI [of _ "filled script_Nx3600"])
      (use rates in \<open>auto simp: osmo_v110_sync_ra1_def_def e\<close>)
  next
    case 6
    with \<open>ra = _\<close> show ?thesis by (intro exI [of _ "osmo_v110_e1e2e3 ! 6"] exI [of _ "filled script_Nx12000"])
      (use rates in \<open>auto simp: osmo_v110_sync_ra1_def_def e\<close>)
  qed
qed

lemma ra1_receive:
  assumes "sync_ra1 rate = Some ra" "wf_frame fr" "user_data_chunk_bits ra \<le> length out"
  shows "\<exists>u. length u = user_data_chunk_bits ra \<and> 0 < user_data_chunk_bits ra \<and> user_data_chunk_bits ra \<le> 48 \<and>
    osmo_v110_sync_ra1_ir_to_user rate out (length out) fr =
      Some (if take 3 (e_bits fr) = osmo_v110_e1e2e3 ! nat rate
            then Inr (u @ drop (user_data_chunk_bits ra) out, user_data_chunk_bits ra) else Inl EINVAL)"
proof -
  obtain spread where c: "ra1_rate (user_data_chunk_bits ra) (osmo_v110_e1e2e3 ! nat rate) spread (adapt_user_to_ir ra) (adapt_ir_to_user ra)"
    using ra1_contract [OF assms(1)] by blast
  show ?thesis
  proof (cases "take 3 (e_bits fr) = osmo_v110_e1e2e3 ! nat rate")
    case True
    with ra1_rate.to_user_any [OF c assms(2) True, of "length out" out] ra1_rate.chunk_range [OF c] assms show ?thesis
      by (auto simp: osmo_v110_sync_ra1_ir_to_user_def)
  next
    case False
    with ra1_rate.to_user_rate [OF c assms(2) False, of "length out" out] ra1_rate.chunk_range [OF c] assms show ?thesis
      by (auto simp: osmo_v110_sync_ra1_ir_to_user_def intro: exI [of _ "replicate (user_data_chunk_bits ra) 0"])
  qed
qed

lemma ra1_send:
  assumes "sync_ra1 rate = Some ra" "wf_frame fr" "length d_in = user_data_chunk_bits ra"
  shows "\<exists>fr'. osmo_v110_sync_ra1_user_to_ir rate fr d_in (length d_in) = Some (Inr fr') \<and> wf_frame fr' \<and>
    s_bits fr' = s_bits fr \<and> x_bits fr' = x_bits fr \<and> take 3 (e_bits fr') = osmo_v110_e1e2e3 ! nat rate \<and>
    (\<forall>out fr''. user_data_chunk_bits ra \<le> length out \<longrightarrow> wf_frame fr'' \<longrightarrow> d_bits fr'' = d_bits fr' \<longrightarrow>
       take 3 (e_bits fr'') = take 3 (e_bits fr') \<longrightarrow>
       osmo_v110_sync_ra1_ir_to_user rate out (length out) fr'' = Some (Inr (d_in @ drop (length d_in) out, length d_in)))"
proof -
  obtain spread where c: "ra1_rate (user_data_chunk_bits ra) (osmo_v110_e1e2e3 ! nat rate) spread (adapt_user_to_ir ra) (adapt_ir_to_user ra)"
    using ra1_contract [OF assms(1)] by blast
  let ?fr = "ra1_rate.adapted (osmo_v110_e1e2e3 ! nat rate) spread fr d_in"
  have "osmo_v110_sync_ra1_user_to_ir rate fr d_in (length d_in) = Some (Inr ?fr)"
    using ra1_rate.to_ir [OF c, of fr d_in] assms by (simp add: osmo_v110_sync_ra1_user_to_ir_def ra1_rate.adapted_def [OF c])
  moreover have "wf_frame ?fr" by (rule ra1_rate.wf_adapted [OF c assms(2,3)])
  moreover have "take 3 (e_bits ?fr) = osmo_v110_e1e2e3 ! nat rate" using ra1_rate.e_length [OF c] by (simp add: ra1_rate.adapted_def [OF c])
  ultimately show ?thesis using ra1_rate.collected [OF c assms(2,3)] assms
    by (intro exI [of _ ?fr]) (auto simp: osmo_v110_sync_ra1_ir_to_user_def ra1_rate.adapted_def [OF c])
qed


definition demo_frame :: v110_frame where
  "demo_frame = \<lparr>d_bits = replicate 48 0, e_bits = replicate 7 1, s_bits = replicate 9 1, x_bits = [0, 1]\<rparr>"

definition demo_user :: "ubit list" where
  "demo_user = map (\<lambda>i. if i mod 3 = 0 then 1 else 0) [0..<36]"


end
