(* ===== verification/Csd.thy ===== *)
theory Csd
  imports V110
begin

text \<open>
  The frames of GSM circuit switched data, \<open>src/gsm/gsm44021.c\<close>: the modified V.110 frames of 60 bits (12 and 6 kbit/s) and
  of 36 bits (3.6 kbit/s) on the radio interface, which carry the D, S, X and E4 to E7 bits of a V.110 frame; E1 to E3,
  which name the user rate, must be known to the receiver.

  The tables are the assignments and \<open>memcpy\<close> calls of the source in their order, run by \<open>places\<close> of theory \<open>V110\<close>.

  Shown: user bits of every rate pass a 60-bit frame unchanged once the receiver sets E1 to E3; those below 4800 bit/s
  pass a 36-bit frame, which keeps one D bit of every pair; and for the other rates it loses every second D bit.
\<close>

subsection \<open>60-bit frames\<close>

definition csd_12k_6k_x_bits :: "ubit placing list" where
  "csd_12k_6k_x_bits = [Copy 0 (1 * 7 + 6) 1, Copy 1 (6 * 7 + 3) 1]"

definition csd_12k_6k_s_bits :: "ubit placing list" where
  "csd_12k_6k_s_bits = [Copy 0 (0 * 7 + 6) 1, Copy 2 (2 * 7 + 6) 1, Copy 3 (3 * 7 + 6) 1,
                        Copy 5 (5 * 7 + 3) 1, Copy 7 (7 * 7 + 3) 1, Copy 8 (8 * 7 + 3) 1]"

definition csd_12k_6k_e_bits :: "ubit placing list" where
  "csd_12k_6k_e_bits = [Copy 3 (4 * 7 + 0) 4]"

definition csd_12k_6k_d_bits :: "ubit placing list" where
  "csd_12k_6k_d_bits =
     [Copy (0 * 6 + 0) (0 * 7 + 0) 6, Copy (1 * 6 + 0) (1 * 7 + 0) 6, Copy (2 * 6 + 0) (2 * 7 + 0) 6,
      Copy (3 * 6 + 0) (3 * 7 + 0) 6, Copy (4 * 6 + 0) (4 * 7 + 4) 3, Copy (4 * 6 + 3) (5 * 7 + 0) 3,
      Copy (5 * 6 + 0) (5 * 7 + 4) 3, Copy (5 * 6 + 3) (6 * 7 + 0) 3, Copy (6 * 6 + 0) (6 * 7 + 4) 3,
      Copy (6 * 6 + 3) (7 * 7 + 0) 3, Copy (7 * 6 + 0) (7 * 7 + 4) 3, Copy (7 * 6 + 3) (8 * 7 + 0) 3]"

definition osmo_csd_12k_6k_decode_frame :: "v110_frame \<Rightarrow> ubit list \<Rightarrow> nat \<Rightarrow> (errno + v110_frame) res" where
  "osmo_csd_12k_6k_decode_frame fr ra_bits n_bits =
     (if n_bits < 60 then Some (Inl EINVAL)
      else do {
        x \<leftarrow> places csd_12k_6k_x_bits ra_bits (x_bits fr);
        s \<leftarrow> places csd_12k_6k_s_bits ra_bits (s_bits fr);
        e \<leftarrow> places csd_12k_6k_e_bits ra_bits (e_bits fr);
        d \<leftarrow> places csd_12k_6k_d_bits ra_bits (d_bits fr);
        Some (Inr \<lparr>d_bits = d, e_bits = e, s_bits = s, x_bits = x\<rparr>) })"

definition csd_12k_6k_x_out :: "ubit placing list" where
  "csd_12k_6k_x_out = [Copy (1 * 7 + 6) 0 1, Copy (6 * 7 + 3) 1 1]"

definition csd_12k_6k_s_out :: "ubit placing list" where
  "csd_12k_6k_s_out = [Copy (0 * 7 + 6) 0 1, Copy (2 * 7 + 6) 2 1, Copy (3 * 7 + 6) 3 1,
                       Copy (5 * 7 + 3) 5 1, Copy (7 * 7 + 3) 7 1, Copy (8 * 7 + 3) 8 1]"

definition csd_12k_6k_e_out :: "ubit placing list" where
  "csd_12k_6k_e_out = [Copy (4 * 7 + 0) 3 4]"

definition csd_12k_6k_d_out :: "ubit placing list" where
  "csd_12k_6k_d_out =
     [Copy (0 * 7 + 0) (0 * 6 + 0) 6, Copy (1 * 7 + 0) (1 * 6 + 0) 6, Copy (2 * 7 + 0) (2 * 6 + 0) 6,
      Copy (3 * 7 + 0) (3 * 6 + 0) 6, Copy (4 * 7 + 4) (4 * 6 + 0) 3, Copy (5 * 7 + 0) (4 * 6 + 3) 3,
      Copy (5 * 7 + 4) (5 * 6 + 0) 3, Copy (6 * 7 + 0) (5 * 6 + 3) 3, Copy (6 * 7 + 4) (6 * 6 + 0) 3,
      Copy (7 * 7 + 0) (6 * 6 + 3) 3, Copy (7 * 7 + 4) (7 * 6 + 0) 3, Copy (8 * 7 + 0) (7 * 6 + 3) 3]"

definition osmo_csd_12k_6k_encode_frame :: "ubit list \<Rightarrow> nat \<Rightarrow> v110_frame \<Rightarrow> (errno + ubit list \<times> nat) res" where
  "osmo_csd_12k_6k_encode_frame ra_bits ra_bits_size fr =
     (if ra_bits_size < 60 then Some (Inl EINVAL)
      else do {
        ra \<leftarrow> places csd_12k_6k_x_out (x_bits fr) ra_bits;
        ra \<leftarrow> places csd_12k_6k_s_out (s_bits fr) ra;
        ra \<leftarrow> places csd_12k_6k_e_out (e_bits fr) ra;
        ra \<leftarrow> places csd_12k_6k_d_out (d_bits fr) ra;
        Some (Inr (ra, 60)) })"

subsection \<open>36-bit frames\<close>

definition csd_3k6_x_bits :: "ubit placing list" where
  "csd_3k6_x_bits = [Copy 0 (0 * 8 + 7) 1, Copy 1 (3 * 8 + 3) 1]"

definition csd_3k6_s_bits :: "ubit placing list" where
  "csd_3k6_s_bits = [Copy 0 (0 * 8 + 3) 1, Copy 2 (1 * 8 + 3) 1, Copy 3 (1 * 8 + 7) 1,
                     Copy 5 (2 * 8 + 7) 1, Copy 7 (3 * 8 + 7) 1, Copy 8 (4 * 8 + 3) 1]"

definition csd_3k6_e_bits :: "ubit placing list" where
  "csd_3k6_e_bits = [Copy 3 (2 * 8 + 0) 4]"

text \<open>The places of D1 to D24 on the line; each is stored twice, and each second D bit of the frame is sent. The second
  component is the final \<open>d_idx\<close>.\<close>

definition csd_3k6_d_pos :: "nat list" where
  "csd_3k6_d_pos =
     [0 * 8 + 0, 0 * 8 + 1, 0 * 8 + 2, 0 * 8 + 4, 0 * 8 + 5, 0 * 8 + 6,
      1 * 8 + 0, 1 * 8 + 1, 1 * 8 + 2, 1 * 8 + 4, 1 * 8 + 5, 1 * 8 + 6,
      2 * 8 + 4, 2 * 8 + 5, 2 * 8 + 6,
      3 * 8 + 0, 3 * 8 + 1, 3 * 8 + 2, 3 * 8 + 4, 3 * 8 + 5, 3 * 8 + 6,
      4 * 8 + 0, 4 * 8 + 1, 4 * 8 + 2]"

definition csd_3k6_d_bits :: "ubit placing list \<times> nat" where
  "csd_3k6_d_bits = (concat (map (\<lambda>(k, p). [Copy (2 * k) p 1, Copy (2 * k + 1) p 1]) (enumerate 0 csd_3k6_d_pos)),
                     2 * length csd_3k6_d_pos)"

definition osmo_csd_3k6_decode_frame :: "v110_frame \<Rightarrow> ubit list \<Rightarrow> nat \<Rightarrow> (errno + v110_frame) res" where
  "osmo_csd_3k6_decode_frame fr ra_bits n_bits =
     (if n_bits < 36 then Some (Inl EINVAL)
      else do {
        x \<leftarrow> places csd_3k6_x_bits ra_bits (x_bits fr);
        s \<leftarrow> places csd_3k6_s_bits ra_bits (s_bits fr);
        e \<leftarrow> places csd_3k6_e_bits ra_bits (e_bits fr);
        d \<leftarrow> run_script csd_3k6_d_bits ra_bits (d_bits fr);
        Some (Inr \<lparr>d_bits = d, e_bits = e, s_bits = s, x_bits = x\<rparr>) })"

definition csd_3k6_x_out :: "ubit placing list" where
  "csd_3k6_x_out = [Copy (0 * 8 + 7) 0 1, Copy (3 * 8 + 3) 1 1]"

definition csd_3k6_s_out :: "ubit placing list" where
  "csd_3k6_s_out = [Copy (0 * 8 + 3) 0 1, Copy (1 * 8 + 3) 2 1, Copy (1 * 8 + 7) 3 1,
                    Copy (2 * 8 + 7) 5 1, Copy (3 * 8 + 7) 7 1, Copy (4 * 8 + 3) 8 1]"

definition csd_3k6_e_out :: "ubit placing list" where
  "csd_3k6_e_out = [Copy (2 * 8 + 0) 3 4]"

definition csd_3k6_d_out :: "ubit placing list \<times> nat" where
  "csd_3k6_d_out = (map (\<lambda>(k, p). Copy p (2 * k) 1) (enumerate 0 csd_3k6_d_pos), 2 * length csd_3k6_d_pos)"

definition osmo_csd_3k6_encode_frame :: "ubit list \<Rightarrow> nat \<Rightarrow> v110_frame \<Rightarrow> (errno + ubit list \<times> nat) res" where
  "osmo_csd_3k6_encode_frame ra_bits ra_bits_size fr =
     (if ra_bits_size < 36 then Some (Inl EINVAL)
      else do {
        ra \<leftarrow> places csd_3k6_x_out (x_bits fr) ra_bits;
        ra \<leftarrow> places csd_3k6_s_out (s_bits fr) ra;
        ra \<leftarrow> places csd_3k6_e_out (e_bits fr) ra;
        ra \<leftarrow> run_script csd_3k6_d_out (d_bits fr) ra;
        Some (Inr (ra, 36)) })"

section \<open>Properties\<close>

subsection \<open>The frames on the line\<close>

text \<open>The bits \<open>is\<close> of a field of \<open>len\<close> bits come back over a line of \<open>n\<close> bits; the others are left alone.\<close>

definition covers :: "ubit placing list \<Rightarrow> ubit placing list \<Rightarrow> ubit placing list list \<Rightarrow> nat \<Rightarrow> nat \<Rightarrow> nat list \<Rightarrow> bool" where
  "covers inn out later n len is \<longleftrightarrow> list_all (fits n len) inn \<and> list_all (fits len n) out \<and>
     list_all (\<lambda>i. if i \<in> set is then returns_bit inn out later n i else origin inn i = None) [0..<len]"

lemma covers_back:
  assumes "covers inn out (map fst later) n len is" "n \<le> length dst" "length r = len"
  shows "placed inn (placed_all later (placed out src dst)) r = map (\<lambda>i. if i \<in> set is then src ! i else r ! i) [0..<len]"
proof (rule nth_equalityI)
  fix i assume i: "i < length (placed inn (placed_all later (placed out src dst)) r)"
  then have "if i \<in> set is then returns_bit inn out (map fst later) n i else origin inn i = None"
    using assms by (simp add: covers_def list_all_iff)
  then show "placed inn (placed_all later (placed out src dst)) r ! i = map (\<lambda>i. if i \<in> set is then src ! i else r ! i) [0..<len] ! i"
    using i assms placed_back [of inn out later n i dst r src] by (simp del: nth_placed split: if_splits) simp
qed (simp add: assms)

lemma covers_places:
  assumes "covers inn out later n len is" "n \<le> length ra" "length f = len"
  shows "places out f ra = Some (placed out f ra)" "places inn ra f = Some (placed inn ra f)"
proof -
  have more: "fits ls ld p \<Longrightarrow> ls \<le> ls' \<Longrightarrow> ld \<le> ld' \<Longrightarrow> fits ls' ld' p" for ls ld ls' ld' and p :: "ubit placing"
    by (cases p) auto
  show "places out f ra = Some (placed out f ra)" "places inn ra f = Some (placed inn ra f)"
    using assms more [OF _ order_refl assms(2)] more [OF _ assms(2) order_refl]
    by (auto intro!: places_placed simp: covers_def list_all_iff)
qed

definition s_places :: "nat list" where "s_places = [0, 2, 3, 5, 7, 8]"

definition csd_12k_6k_line :: "v110_frame \<Rightarrow> ubit list \<Rightarrow> ubit list" where
  "csd_12k_6k_line fr ra = placed_all [(csd_12k_6k_x_out, x_bits fr), (csd_12k_6k_s_out, s_bits fr),
                                       (csd_12k_6k_e_out, e_bits fr), (csd_12k_6k_d_out, d_bits fr)] ra"

lemma csd_12k_6k_covers:
  "covers csd_12k_6k_x_bits csd_12k_6k_x_out [csd_12k_6k_s_out, csd_12k_6k_e_out, csd_12k_6k_d_out] 60 2 [0, 1]"
  "covers csd_12k_6k_s_bits csd_12k_6k_s_out [csd_12k_6k_e_out, csd_12k_6k_d_out] 60 9 s_places"
  "covers csd_12k_6k_e_bits csd_12k_6k_e_out [csd_12k_6k_d_out] 60 7 [3, 4, 5, 6]"
  "covers csd_12k_6k_d_bits csd_12k_6k_d_out [] 60 48 [0..<48]"
  by code_simp+

definition csd_3k6_line :: "v110_frame \<Rightarrow> ubit list \<Rightarrow> ubit list" where
  "csd_3k6_line fr ra = placed_all [(csd_3k6_x_out, x_bits fr), (csd_3k6_s_out, s_bits fr),
                                    (csd_3k6_e_out, e_bits fr), (fst csd_3k6_d_out, d_bits fr)] ra"

lemma csd_3k6_covers:
  "covers csd_3k6_x_bits csd_3k6_x_out [csd_3k6_s_out, csd_3k6_e_out, fst csd_3k6_d_out] 36 2 [0, 1]"
  "covers csd_3k6_s_bits csd_3k6_s_out [csd_3k6_e_out, fst csd_3k6_d_out] 36 9 s_places"
  "covers csd_3k6_e_bits csd_3k6_e_out [fst csd_3k6_d_out] 36 7 [3, 4, 5, 6]"
  by code_simp+

text \<open>Of the D bits, the even ones are sent; each comes back at its place and the next.\<close>

lemma csd_3k6_d_covers:
  "list_all (fits 36 48) (fst csd_3k6_d_bits) \<and> list_all (fits 48 36) (fst csd_3k6_d_out) \<and>
   snd csd_3k6_d_bits = 48 \<and> snd csd_3k6_d_out = 48 \<and>
   list_all (\<lambda>i. case origin (fst csd_3k6_d_bits) i of
       Some (Inl j) \<Rightarrow> j < 36 \<and> origin (fst csd_3k6_d_out) j = Some (Inl (2 * (i div 2))) | _ \<Rightarrow> False) [0..<48]"
  by code_simp

lemma map_upt_id: "length xs = n \<Longrightarrow> map (\<lambda>i. if i \<in> set [0..<n] then xs ! i else ys ! i) [0..<n] = xs"
  by (auto intro!: nth_equalityI)

lemma s_places_keep: "map (\<lambda>i. if i \<in> set s_places then s ! i else s' ! i) [0..<9] = keep_s s s'"
  by (simp add: s_places_def keep_s_def upt_rec numeral_eq_Suc)

lemma e_places_keep:
  "length e' = 7 \<Longrightarrow> length e = 7 \<Longrightarrow> map (\<lambda>i. if i \<in> set [3, 4, 5, 6] then e ! i else e' ! i) [0..<7] = take 3 e' @ drop 3 e"
  by (auto simp: nth_append less_Suc_eq numeral_eq_Suc intro!: nth_equalityI)

lemma x_places_keep: "length x = 2 \<Longrightarrow> map (\<lambda>i. if i \<in> set [0, 1] then x ! i else x' ! i) [0..<2] = x"
  by (auto simp: less_Suc_eq numeral_2_eq_2 intro!: nth_equalityI)

text \<open>What arrives: all bits but E1 to E3 and the unused S bits, which the receiver's frame keeps.\<close>

definition csd_received :: "v110_frame \<Rightarrow> v110_frame \<Rightarrow> v110_frame" where
  "csd_received fr fr0 = fr\<lparr>e_bits := take 3 (e_bits fr0) @ drop 3 (e_bits fr), s_bits := keep_s (s_bits fr) (s_bits fr0)\<rparr>"

lemma csd_12k_6k_roundtrip:
  assumes "wf_frame fr" "wf_frame fr0" "60 \<le> length ra"
  shows "osmo_csd_12k_6k_encode_frame ra (length ra) fr = Some (Inr (csd_12k_6k_line fr ra, 60))"
    and "osmo_csd_12k_6k_decode_frame fr0 (csd_12k_6k_line fr ra) (length ra) = Some (Inr (csd_received fr fr0))"
proof -
  note c = csd_12k_6k_covers
  show "osmo_csd_12k_6k_encode_frame ra (length ra) fr = Some (Inr (csd_12k_6k_line fr ra, 60))"
    using assms by (simp add: osmo_csd_12k_6k_encode_frame_def csd_12k_6k_line_def
        covers_places [OF c(1)] covers_places [OF c(2)] covers_places [OF c(3)] covers_places [OF c(4)])
  let ?l = "csd_12k_6k_line fr ra"
  have "placed csd_12k_6k_x_bits ?l (x_bits fr0) = x_bits fr"
    using assms covers_back [of csd_12k_6k_x_bits csd_12k_6k_x_out "[(csd_12k_6k_s_out, s_bits fr), (csd_12k_6k_e_out, e_bits fr), (csd_12k_6k_d_out, d_bits fr)]"]
      c(1) x_places_keep [of "x_bits fr"] by (simp add: csd_12k_6k_line_def)
  moreover have "placed csd_12k_6k_s_bits ?l (s_bits fr0) = keep_s (s_bits fr) (s_bits fr0)"
    using assms covers_back [of csd_12k_6k_s_bits csd_12k_6k_s_out "[(csd_12k_6k_e_out, e_bits fr), (csd_12k_6k_d_out, d_bits fr)]"]
      c(2) by (simp add: csd_12k_6k_line_def s_places_keep)
  moreover have "placed csd_12k_6k_e_bits ?l (e_bits fr0) = take 3 (e_bits fr0) @ drop 3 (e_bits fr)"
    using assms covers_back [of csd_12k_6k_e_bits csd_12k_6k_e_out "[(csd_12k_6k_d_out, d_bits fr)]"]
      c(3) e_places_keep [of "e_bits fr0" "e_bits fr"] by (simp add: csd_12k_6k_line_def)
  moreover have "placed csd_12k_6k_d_bits ?l (d_bits fr0) = d_bits fr"
    using assms covers_back [of csd_12k_6k_d_bits csd_12k_6k_d_out "[]"] c(4) map_upt_id [of "d_bits fr" 48] by (simp add: csd_12k_6k_line_def)
  ultimately show "osmo_csd_12k_6k_decode_frame fr0 ?l (length ra) = Some (Inr (csd_received fr fr0))"
    using assms by (simp add: osmo_csd_12k_6k_decode_frame_def csd_received_def csd_12k_6k_line_def
        covers_places [OF c(1)] covers_places [OF c(2)] covers_places [OF c(3)] covers_places [OF c(4)])
qed

definition every_second :: "ubit list \<Rightarrow> ubit list" where
  "every_second d = map (\<lambda>i. d ! (2 * (i div 2))) [0..<48]"

lemma every_second_paired:
  assumes "paired d" "length d = 48"
  shows "every_second d = d"
proof (rule nth_equalityI)
  fix i assume "i < length (every_second d)"
  then have i: "i < 48" by (simp add: every_second_def)
  have "d ! (2 * (i div 2)) = d ! i"
  proof (cases "even i")
    case False
    then have "i = 2 * (i div 2) + 1" by presburger
    moreover have "i div 2 < length d div 2" using i assms(2) by presburger
    ultimately show ?thesis using assms(1) unfolding paired_def by metis
  qed simp
  with i show "every_second d ! i = d ! i" by (simp add: every_second_def)
qed (simp add: every_second_def assms)

lemma csd_3k6_d_places:
  assumes "36 \<le> length ra" "length d = 48"
  shows "places (fst csd_3k6_d_out) d ra = Some (placed (fst csd_3k6_d_out) d ra)"
    and "places (fst csd_3k6_d_bits) ra d = Some (placed (fst csd_3k6_d_bits) ra d)"
proof -
  have "fits 48 36 p \<Longrightarrow> fits 48 (length ra) p" "fits 36 48 p \<Longrightarrow> fits (length ra) 48 p" for p :: "ubit placing"
    using assms(1) by (cases p; auto)+
  with csd_3k6_d_covers assms
  show "places (fst csd_3k6_d_out) d ra = Some (placed (fst csd_3k6_d_out) d ra)"
    "places (fst csd_3k6_d_bits) ra d = Some (placed (fst csd_3k6_d_bits) ra d)"
    by (auto intro!: places_placed simp: list_all_iff)
qed

lemma csd_3k6_d_back:
  assumes "36 \<le> length ra" "length d0 = 48"
  shows "placed (fst csd_3k6_d_bits) (placed (fst csd_3k6_d_out) d ra) d0 = every_second d"
proof (rule nth_equalityI)
  fix i assume "i < length (placed (fst csd_3k6_d_bits) (placed (fst csd_3k6_d_out) d ra) d0)"
  then have i: "i < 48" using assms by simp
  then have "case origin (fst csd_3k6_d_bits) i of
       Some (Inl j) \<Rightarrow> j < 36 \<and> origin (fst csd_3k6_d_out) j = Some (Inl (2 * (i div 2))) | _ \<Rightarrow> False"
    using csd_3k6_d_covers by (simp add: list_all_iff)
  then show "placed (fst csd_3k6_d_bits) (placed (fst csd_3k6_d_out) d ra) d0 ! i = every_second d ! i"
    using i assms by (auto simp: every_second_def split: option.splits sum.splits)
qed (simp add: every_second_def assms)

lemma csd_3k6_roundtrip:
  assumes "wf_frame fr" "wf_frame fr0" "36 \<le> length ra"
  shows "osmo_csd_3k6_encode_frame ra (length ra) fr = Some (Inr (csd_3k6_line fr ra, 36))"
    and "osmo_csd_3k6_decode_frame fr0 (csd_3k6_line fr ra) (length ra) =
           Some (Inr (csd_received (fr\<lparr>d_bits := every_second (d_bits fr)\<rparr>) fr0))"
proof -
  note c = csd_3k6_covers
  have idx: "snd csd_3k6_d_bits = 48" "snd csd_3k6_d_out = 48" using csd_3k6_d_covers by simp_all
  show "osmo_csd_3k6_encode_frame ra (length ra) fr = Some (Inr (csd_3k6_line fr ra, 36))"
    using assms by (simp add: osmo_csd_3k6_encode_frame_def csd_3k6_line_def run_script_def split_def idx csd_3k6_d_places csd_3k6_d_back
        covers_places [OF c(1)] covers_places [OF c(2)] covers_places [OF c(3)])
  let ?l = "csd_3k6_line fr ra"
  have "placed csd_3k6_x_bits ?l (x_bits fr0) = x_bits fr"
    using assms covers_back [of csd_3k6_x_bits csd_3k6_x_out "[(csd_3k6_s_out, s_bits fr), (csd_3k6_e_out, e_bits fr), (fst csd_3k6_d_out, d_bits fr)]"]
      c(1) x_places_keep [of "x_bits fr"] by (simp add: csd_3k6_line_def)
  moreover have "placed csd_3k6_s_bits ?l (s_bits fr0) = keep_s (s_bits fr) (s_bits fr0)"
    using assms covers_back [of csd_3k6_s_bits csd_3k6_s_out "[(csd_3k6_e_out, e_bits fr), (fst csd_3k6_d_out, d_bits fr)]"]
      c(2) by (simp add: csd_3k6_line_def s_places_keep)
  moreover have "placed csd_3k6_e_bits ?l (e_bits fr0) = take 3 (e_bits fr0) @ drop 3 (e_bits fr)"
    using assms covers_back [of csd_3k6_e_bits csd_3k6_e_out "[(fst csd_3k6_d_out, d_bits fr)]"]
      c(3) e_places_keep [of "e_bits fr0" "e_bits fr"] by (simp add: csd_3k6_line_def)
  ultimately show "osmo_csd_3k6_decode_frame fr0 ?l (length ra) =
      Some (Inr (csd_received (fr\<lparr>d_bits := every_second (d_bits fr)\<rparr>) fr0))"
    using assms by (simp add: osmo_csd_3k6_decode_frame_def csd_received_def csd_3k6_line_def run_script_def split_def idx csd_3k6_d_places csd_3k6_d_back
        covers_places [OF c(1)] covers_places [OF c(2)] covers_places [OF c(3)])
qed

subsection \<open>User bits over the radio interface\<close>

text \<open>The receiver decodes the frame and sets E1 to E3 to those of the rate it knows, as the comment asks.\<close>

definition set_rate :: "nat \<Rightarrow> v110_frame \<Rightarrow> v110_frame res" where
  "set_rate rate fr = do { e \<leftarrow> osmo_v110_e1e2e3_set (e_bits fr) rate; Some (fr\<lparr>e_bits := e\<rparr>) }"

lemma wf_csd_received:
  assumes "wf_frame fr" "wf_frame fr0"
  shows "wf_frame (csd_received fr fr0)"
  using assms by (simp add: csd_received_def wf_frame_def keep_s_def del: wf_frameD)

text \<open>C17: user bits of every rate pass the 60-bit frames of the radio interface: adapted, encoded, decoded into any frame and with
  E1 to E3 set for the rate, the user bits come back. User bits below 4800 bit/s also pass the 36-bit frames; at 4800 bit/s
  and above every second D bit is replaced by its neighbour, so that two chunks that differ there are not told apart.\<close>

theorem csd_transfers:
  assumes "sync_ra1 rate = Some ra" "wf_frame fr" "wf_frame fr0" "length d_in = user_data_chunk_bits ra"
    and "60 \<le> length ra_bits" "user_data_chunk_bits ra \<le> length out"
  shows "\<exists>fr1 line line' fr2 fr2' fr3 fr3'. osmo_v110_sync_ra1_user_to_ir rate fr d_in (length d_in) = Some (Inr fr1) \<and>
            osmo_csd_12k_6k_encode_frame ra_bits (length ra_bits) fr1 = Some (Inr (line, 60)) \<and>
            osmo_csd_12k_6k_decode_frame fr0 line (length line) = Some (Inr fr2) \<and> set_rate (nat rate) fr2 = Some fr3 \<and>
            osmo_v110_sync_ra1_ir_to_user rate out (length out) fr3 = Some (Inr (d_in @ drop (length d_in) out, length d_in)) \<and>
            osmo_csd_3k6_encode_frame ra_bits (length ra_bits) fr1 = Some (Inr (line', 36)) \<and>
            osmo_csd_3k6_decode_frame fr0 line' (length line') = Some (Inr fr2') \<and> set_rate (nat rate) fr2' = Some fr3' \<and>
            d_bits fr3' = every_second (d_bits fr1) \<and>
            (data_rate ra < 4800 \<longrightarrow>
               osmo_v110_sync_ra1_ir_to_user rate out (length out) fr3' = Some (Inr (d_in @ drop (length d_in) out, length d_in))) \<and>
            (data_rate ra \<in> {4800, 9600, 19200, 38400} \<longrightarrow>
               osmo_v110_sync_ra1_ir_to_user rate out (length out) fr3' =
                 Some (Inr (every_second d_in @ drop (length d_in) out, length d_in)))"
proof -
  let ?e = "osmo_v110_e1e2e3 ! nat rate"
  obtain spread where c: "ra1_rate (user_data_chunk_bits ra) ?e spread (adapt_user_to_ir ra) (adapt_ir_to_user ra)"
    and p: "data_rate ra < 4800 \<longrightarrow> (\<forall>d. paired (spread d))"
    and q: "data_rate ra \<in> {4800, 9600, 19200, 38400} \<longrightarrow> spread = (\<lambda>d. d)" using ra1_contract [OF assms(1)] by blast
  define fr1 where "fr1 = ra1_rate.adapted ?e spread fr d_in"
  have wf: "wf_frame fr1" unfolding fr1_def using ra1_rate.wf_adapted [OF c] assms by blast
  have d1: "d_bits fr1 = spread d_in" "take 3 (e_bits fr1) = ?e" "length ?e = 3"
    using ra1_rate.e_length [OF c] by (simp_all add: fr1_def ra1_rate.adapted_def [OF c])
  have lt: "nat rate < 12" using sync_ra1_cases [OF assms(1)] by auto
  define known :: "v110_frame \<Rightarrow> v110_frame" where "known = (\<lambda>f. f\<lparr>e_bits := ?e @ drop 3 (e_bits f)\<rparr>)"
  have rate: "set_rate (nat rate) f = Some (known f)" if "wf_frame f" for f
    using e1e2e3_set [OF that lt] by (simp add: set_rate_def known_def)
  have wfb: "wf_frame (known f)" if "wf_frame f" for f using that d1(3) by (simp add: known_def wf_frame_def del: wf_frameD)
  have te: "take 3 (e_bits (known f)) = ?e" for f by (simp add: known_def d1)
  let ?f2 = "csd_received fr1 fr0" and ?f2' = "csd_received (fr1\<lparr>d_bits := every_second (d_bits fr1)\<rparr>) fr0"
  have "wf_frame (fr1\<lparr>d_bits := every_second (d_bits fr1)\<rparr>)" using wf by (simp add: wf_frame_def every_second_def del: wf_frameD)
  with wf assms(3) have w2: "wf_frame ?f2" "wf_frame ?f2'" by (simp_all add: wf_csd_received)
  have coll: "osmo_v110_sync_ra1_ir_to_user rate out (length out) f = Some (Inr (d @ drop (length d_in) out, length d_in))"
    if "wf_frame f" "take 3 (e_bits f) = ?e" "d_bits f = spread d" "length d = length d_in" for f d
    using ra1_rate.to_user [OF c that(1,2) _ that(3), of "length out" out] that(4) assms
    by (simp add: osmo_v110_sync_ra1_ir_to_user_def)
  have "osmo_v110_sync_ra1_user_to_ir rate fr d_in (length d_in) = Some (Inr fr1)"
    using ra1_rate.to_ir [OF c, of fr d_in] assms
    by (simp add: osmo_v110_sync_ra1_user_to_ir_def fr1_def ra1_rate.adapted_def [OF c])
  moreover have "osmo_v110_sync_ra1_ir_to_user rate out (length out) (known ?f2) = Some (Inr (d_in @ drop (length d_in) out, length d_in))"
    by (rule coll [OF wfb [OF w2(1)] te]) (simp_all add: known_def csd_received_def d1)
  moreover have "osmo_v110_sync_ra1_ir_to_user rate out (length out) (known ?f2') = Some (Inr (d_in @ drop (length d_in) out, length d_in))"
    if "data_rate ra < 4800"
    using that p every_second_paired [of "spread d_in"] ra1_rate.spread_length [OF c assms(4)]
    by (intro coll [OF wfb [OF w2(2)] te]) (simp_all add: known_def csd_received_def d1)
  moreover have "osmo_v110_sync_ra1_ir_to_user rate out (length out) (known ?f2') = Some (Inr (every_second d_in @ drop (length d_in) out, length d_in))"
    if r: "data_rate ra \<in> {4800, 9600, 19200, 38400}"
  proof -
    have "length d_in = 48" using r sync_ra1_cases [OF assms(1)] assms(4) by (auto simp: osmo_v110_sync_ra1_def_def)
    moreover have "spread = (\<lambda>d. d)" using q r by blast
    ultimately show ?thesis
      by (intro coll [OF wfb [OF w2(2)] te]) (simp_all add: known_def csd_received_def d1 every_second_def)
  qed
  moreover have "osmo_csd_12k_6k_decode_frame fr0 (csd_12k_6k_line fr1 ra_bits) (length (csd_12k_6k_line fr1 ra_bits)) = Some (Inr ?f2)"
    using csd_12k_6k_roundtrip [OF wf assms(3,5)] by (simp add: csd_12k_6k_line_def)
  moreover have "osmo_csd_3k6_decode_frame fr0 (csd_3k6_line fr1 ra_bits) (length (csd_3k6_line fr1 ra_bits)) = Some (Inr ?f2')"
    using csd_3k6_roundtrip(2) [OF wf assms(3), of ra_bits] assms(5) by (simp add: csd_3k6_line_def)
  moreover have "osmo_csd_3k6_encode_frame ra_bits (length ra_bits) fr1 = Some (Inr (csd_3k6_line fr1 ra_bits, 36))"
    using csd_3k6_roundtrip(1) [OF wf assms(3), of ra_bits] assms(5) by simp
  moreover have "d_bits (known ?f2') = every_second (d_bits fr1)" by (simp add: known_def csd_received_def)
  moreover note csd_12k_6k_roundtrip(1) [OF wf assms(3,5)] rate [OF w2(1)] rate [OF w2(2)]
  ultimately show ?thesis by (intro exI conjI impI) (assumption | blast)+
qed

theorem csd_transfers_witness:
  "\<exists>fr1 line' fr2' fr3'. osmo_v110_sync_ra1_user_to_ir 2 demo_frame (take 24 demo_user) 24 = Some (Inr fr1) \<and>
     osmo_csd_3k6_encode_frame (replicate 60 0) 60 fr1 = Some (Inr (line', 36)) \<and>
     osmo_csd_3k6_decode_frame demo_frame line' (length line') = Some (Inr fr2') \<and> set_rate 2 fr2' = Some fr3' \<and>
     osmo_v110_sync_ra1_ir_to_user 2 (replicate 30 0) 30 fr3' = Some (Inr (take 24 demo_user @ replicate 6 0, 24))"
proof -
  have r: "sync_ra1 2 = Some (osmo_v110_sync_ra1_def ! 2)" by (simp add: sync_ra1_def)
  have u: "user_data_chunk_bits (osmo_v110_sync_ra1_def ! 2) = 24" "data_rate (osmo_v110_sync_ra1_def ! 2) = 2400"
    by (simp_all add: osmo_v110_sync_ra1_def_def)
  have "wf_frame demo_frame" "length demo_user = 36" by (simp_all add: wf_frame_def demo_frame_def demo_user_def)
  with csd_transfers [OF r, of demo_frame demo_frame "take 24 demo_user" "replicate 60 0" "replicate 30 0"] u show ?thesis
    by simp blast
qed

end
