(* ===== verification/Soft_Uart.thy ===== *)
theory Soft_Uart
  imports Machine
begin

text \<open>
  The software UART, \<open>src/core/soft_uart.c\<close>: characters are sent and received as start bit, data bits, optional parity
  bit and stop bits, one unpacked bit at a time; received characters are collected in a buffer that is handed to the
  application when it is full, after an error, or when a timer expires.

  A message buffer is its size and its characters, which the buffers of theory \<open>Msgb\<close> refine; putting a character into
  a full one ends the program. The call-backs are functions on the rest \<open>'w\<close> of the world: \<open>tx_cb\<close> is given the size of
  the buffer and returns the characters it puts; they do not call back into the UART. Memory is available. The name of an
  instance is left out.

  Shown: configured instances handle every sequence of operations without an assertion failure and keep the buffer
  below its size, with the timer running exactly while it holds characters; the characters a sender takes arrive at a
  receiver whatever the sizes of the pieces in which bits are requested and delivered; and the configurations that
  break this.
\<close>

subsection \<open>State\<close>

datatype flow_state = SUART_FLOW_ST_IDLE | SUART_FLOW_ST_DATA | SUART_FLOW_ST_PARITY | SUART_FLOW_ST_STOP

abbreviation (input) OSMO_SUART_PARITY_NONE :: int where "OSMO_SUART_PARITY_NONE \<equiv> 0"
abbreviation (input) OSMO_SUART_PARITY_EVEN :: int where "OSMO_SUART_PARITY_EVEN \<equiv> 1"
abbreviation (input) OSMO_SUART_PARITY_ODD :: int where "OSMO_SUART_PARITY_ODD \<equiv> 2"
abbreviation (input) OSMO_SUART_PARITY_MARK :: int where "OSMO_SUART_PARITY_MARK \<equiv> 3"
abbreviation (input) OSMO_SUART_PARITY_SPACE :: int where "OSMO_SUART_PARITY_SPACE \<equiv> 4"
abbreviation (input) OSMO_SUART_PARITY_NUM :: int where "OSMO_SUART_PARITY_NUM \<equiv> 5"

abbreviation (input) OSMO_SUART_F_FRAMING_ERROR :: u32 where "OSMO_SUART_F_FRAMING_ERROR \<equiv> 1"
abbreviation (input) OSMO_SUART_F_PARITY_ERROR :: u32 where "OSMO_SUART_F_PARITY_ERROR \<equiv> 2"

abbreviation (input) OSMO_SUART_STATUS_F_DSR :: u32 where "OSMO_SUART_STATUS_F_DSR \<equiv> 4"
abbreviation (input) OSMO_SUART_STATUS_F_CTS :: u32 where "OSMO_SUART_STATUS_F_CTS \<equiv> 32"

abbreviation (input) OSMO_SUART_FLOW_CTRL_NONE :: int where "OSMO_SUART_FLOW_CTRL_NONE \<equiv> 0"
abbreviation (input) OSMO_SUART_FLOW_CTRL_DTR_DSR :: int where "OSMO_SUART_FLOW_CTRL_DTR_DSR \<equiv> 1"
abbreviation (input) OSMO_SUART_FLOW_CTRL_RTS_CTS :: int where "OSMO_SUART_FLOW_CTRL_RTS_CTS \<equiv> 2"

abbreviation (input) uart_EAGAIN :: int where "uart_EAGAIN \<equiv> - 11"
abbreviation (input) uart_EINVAL :: int where "uart_EINVAL \<equiv> - 22"

record uart_msg =
  room :: nat
  chars :: "u8 list"

record 'w suart_cfg =
  num_data_bits :: u8
  num_stop_bits :: u8
  parity_mode :: int
  rx_buf_size :: nat
  rx_timeout_ms :: nat
  rx_cb :: "(u8 list \<Rightarrow> u32 \<Rightarrow> 'w \<Rightarrow> 'w) option"
  tx_cb :: "(nat \<Rightarrow> 'w \<Rightarrow> u8 list \<times> 'w) option"
  status_change_cb :: "(u32 \<Rightarrow> 'w \<Rightarrow> 'w) option"
  flow_ctrl_mode :: int

text \<open>A timer is the time it was scheduled for, in seconds and microseconds, while it is pending.\<close>

record 'w suart =
  cfg :: "'w suart_cfg"
  status :: u32
  rx_running :: bool
  rx_bit_count :: u8
  rx_shift_reg :: u8
  rx_msg :: "uart_msg option"
  rx_parity_bit :: u8
  rx_flags :: u32
  rx_timer :: "(nat \<times> nat) option"
  rx_timer_cb :: bool
  rx_flow_state :: flow_state
  tx_running :: bool
  tx_bit_count :: u8
  tx_shift_reg :: u8
  tx_parity_bit :: u8
  tx_flow_state :: flow_state

definition osmo_soft_uart_default_cfg :: "'w suart_cfg" where
  "osmo_soft_uart_default_cfg = \<lparr>num_data_bits = 8, num_stop_bits = 1, parity_mode = OSMO_SUART_PARITY_NONE,
     rx_buf_size = 1024, rx_timeout_ms = 100, rx_cb = None, tx_cb = None, status_change_cb = None,
     flow_ctrl_mode = OSMO_SUART_FLOW_CTRL_NONE\<rparr>"

subsection \<open>Receiver\<close>

text \<open>The size of a message buffer is a \<open>uint16_t\<close>.\<close>

definition uart_msg_alloc :: "nat \<Rightarrow> uart_msg" where
  "uart_msg_alloc n = \<lparr>room = n mod 65536, chars = []\<rparr>"

lemma uart_msg_alloc_code [code]: "uart_msg_alloc n = \<lparr>room = nat (int n mod 65536), chars = []\<rparr>"
  by (simp add: uart_msg_alloc_def nat_mod_distrib)

definition osmo_soft_uart_flush_rx :: "'w suart \<Rightarrow> 'w \<Rightarrow> 'w suart \<times> 'w" where
  "osmo_soft_uart_flush_rx s w = (case rx_msg s of
     Some m \<Rightarrow>
       if chars m \<noteq> [] then
         (let s = s\<lparr>rx_timer := None\<rparr> in
          case rx_cb (cfg s) of
            Some f \<Rightarrow> (s\<lparr>rx_msg := Some (uart_msg_alloc (rx_buf_size (cfg s)))\<rparr>, f (chars m) (rx_flags s) w)
          | None \<Rightarrow> (s\<lparr>rx_msg := Some (m\<lparr>chars := []\<rparr>)\<rparr>, w))
       else (s, w)
   | None \<Rightarrow> (s, w))"

definition suart_rx_ch :: "'w suart \<Rightarrow> u8 \<Rightarrow> 'w \<Rightarrow> ('w suart \<times> 'w) res" where
  "suart_rx_ch s ch w = (case rx_msg s of
     None \<Rightarrow> None
   | Some m \<Rightarrow>
       if room m < length (chars m) + 1 then None
       else (let m = m\<lparr>chars := chars m @ [ch]\<rparr>; s = s\<lparr>rx_msg := Some m\<rparr>; msg_len = length (chars m) in
         if rx_buf_size (cfg s) \<le> msg_len \<or> rx_flags s \<noteq> 0 then Some (osmo_soft_uart_flush_rx s w)
         else if msg_len = 1 then
           Some (s\<lparr>rx_timer := Some (rx_timeout_ms (cfg s) div 1000, (rx_timeout_ms (cfg s) mod 1000) * 1000)\<rparr>, w)
         else Some (s, w)))"

text \<open>The check of a received parity bit; \<^const>\<open>None\<close> is the failing assertion.\<close>

definition rx_parity_wrong :: "int \<Rightarrow> u8 \<Rightarrow> u8 \<Rightarrow> bool res" where
  "rx_parity_wrong mode parity bt =
     (if mode = OSMO_SUART_PARITY_EVEN then Some (parity \<noteq> bt)
      else if mode = OSMO_SUART_PARITY_ODD then Some (parity = bt)
      else if mode = OSMO_SUART_PARITY_MARK then Some (bt \<noteq> 1)
      else if mode = OSMO_SUART_PARITY_SPACE then Some (bt \<noteq> 0)
      else None)"

definition flip :: "u8 \<Rightarrow> u8" where
  "flip b = (if b = 0 then 1 else 0)"

definition suart_rx_bit :: "'w suart \<Rightarrow> u8 \<Rightarrow> 'w \<Rightarrow> ('w suart \<times> 'w) res" where
  "suart_rx_bit s bt w = (case rx_flow_state s of
     SUART_FLOW_ST_IDLE \<Rightarrow>
       Some (if bt = 0 then s\<lparr>rx_flow_state := SUART_FLOW_ST_DATA, rx_flags := 0, rx_shift_reg := 0,
                              rx_bit_count := 0, rx_parity_bit := 0\<rparr>
             else s, w)
   | SUART_FLOW_ST_DATA \<Rightarrow>
       (let s = s\<lparr>rx_bit_count := rx_bit_count s + 1, rx_shift_reg := drop_bit 1 (rx_shift_reg s)\<rparr>;
            s = (if bt \<noteq> 0 then s\<lparr>rx_parity_bit := flip (rx_parity_bit s), rx_shift_reg := rx_shift_reg s OR 0x80\<rparr> else s)
        in if num_data_bits (cfg s) \<le> rx_bit_count s then
             (let s = s\<lparr>rx_flow_state := if parity_mode (cfg s) \<noteq> OSMO_SUART_PARITY_NONE then SUART_FLOW_ST_PARITY
                                         else SUART_FLOW_ST_STOP\<rparr>
              in Some (if num_data_bits (cfg s) < 8
                       then s\<lparr>rx_shift_reg := drop_bit (8 - unat (num_data_bits (cfg s))) (rx_shift_reg s)\<rparr> else s, w))
           else Some (s, w))
   | SUART_FLOW_ST_PARITY \<Rightarrow> do {
       wrong \<leftarrow> rx_parity_wrong (parity_mode (cfg s)) (rx_parity_bit s) bt;
       let s = (if wrong then s\<lparr>rx_flags := rx_flags s OR OSMO_SUART_F_PARITY_ERROR\<rparr> else s);
       Some (s\<lparr>rx_flow_state := SUART_FLOW_ST_STOP\<rparr>, w) }
   | SUART_FLOW_ST_STOP \<Rightarrow>
       (let s = s\<lparr>rx_bit_count := rx_bit_count s + 1\<rparr>;
            s = (if bt \<noteq> 1 then s\<lparr>rx_flags := rx_flags s OR OSMO_SUART_F_FRAMING_ERROR\<rparr> else s)
        in if unat (num_data_bits (cfg s)) + unat (num_stop_bits (cfg s)) \<le> unat (rx_bit_count s) then do {
             (s, w) \<leftarrow> suart_rx_ch s (rx_shift_reg s) w;
             Some (s\<lparr>rx_flow_state := SUART_FLOW_ST_IDLE\<rparr>, w) }
           else Some (s, w)))"

definition suart_rx_timer_cb :: "'w suart \<Rightarrow> 'w \<Rightarrow> 'w suart \<times> 'w" where
  "suart_rx_timer_cb s w = osmo_soft_uart_flush_rx s w"

definition osmo_soft_uart_rx_ubits :: "'w suart \<Rightarrow> u8 list \<Rightarrow> nat \<Rightarrow> 'w \<Rightarrow> (int \<times> 'w suart \<times> 'w) res" where
  "osmo_soft_uart_rx_ubits s ubits n_ubits w =
     (if \<not> rx_running s then Some (uart_EAGAIN, s, w)
      else do {
        (s, w) \<leftarrow> for_loop 0 n_ubits (\<lambda>i (s, w). do { b \<leftarrow> rd ubits i; suart_rx_bit s b w }) (s, w);
        Some (0, s, w) })"

subsection \<open>Transmitter\<close>

definition tx_parity_value :: "int \<Rightarrow> u8 \<Rightarrow> u8 res" where
  "tx_parity_value mode parity =
     (if mode = OSMO_SUART_PARITY_EVEN then Some parity
      else if mode = OSMO_SUART_PARITY_ODD then Some (flip parity)
      else if mode = OSMO_SUART_PARITY_MARK then Some 1
      else if mode = OSMO_SUART_PARITY_SPACE then Some 0
      else None)"

text \<open>The message is the list of characters still to be sent; without a message it is empty.\<close>

definition suart_tx_bit :: "'w suart \<Rightarrow> u8 list \<Rightarrow> (u8 \<times> 'w suart \<times> u8 list) res" where
  "suart_tx_bit s msg = (case tx_flow_state s of
     SUART_FLOW_ST_IDLE \<Rightarrow>
       (case msg of
          c # msg \<Rightarrow> Some (0, s\<lparr>tx_shift_reg := c, tx_flow_state := SUART_FLOW_ST_DATA, tx_bit_count := 0, tx_parity_bit := 0\<rparr>, msg)
        | [] \<Rightarrow> Some (1, s, []))
   | SUART_FLOW_ST_DATA \<Rightarrow>
       (let bt = tx_shift_reg s AND 1;
            s = s\<lparr>tx_parity_bit := tx_parity_bit s XOR bt, tx_shift_reg := drop_bit 1 (tx_shift_reg s),
                  tx_bit_count := tx_bit_count s + 1\<rparr>
        in Some (bt, if num_data_bits (cfg s) \<le> tx_bit_count s
                     then s\<lparr>tx_flow_state := if parity_mode (cfg s) \<noteq> OSMO_SUART_PARITY_NONE then SUART_FLOW_ST_PARITY
                                             else SUART_FLOW_ST_STOP\<rparr>
                     else s, msg))
   | SUART_FLOW_ST_PARITY \<Rightarrow> do {
       bt \<leftarrow> tx_parity_value (parity_mode (cfg s)) (tx_parity_bit s);
       Some (bt, s\<lparr>tx_flow_state := SUART_FLOW_ST_STOP\<rparr>, msg) }
   | SUART_FLOW_ST_STOP \<Rightarrow>
       (let s = s\<lparr>tx_bit_count := tx_bit_count s + 1\<rparr>
        in Some (1, if unat (num_data_bits (cfg s)) + unat (num_stop_bits (cfg s)) \<le> unat (tx_bit_count s)
                    then s\<lparr>tx_flow_state := SUART_FLOW_ST_IDLE\<rparr> else s, msg)))"

text \<open>The result is the number of bits, the instance and the output buffer.\<close>

definition suart_tx_pending :: "'w suart \<Rightarrow> u8 list \<Rightarrow> nat \<Rightarrow> (nat \<times> 'w suart \<times> u8 list) res" where
  "suart_tx_pending s ubits n_ubits = do {
     r \<leftarrow> for_break 0 n_ubits (\<lambda>i (s, ubits).
            if tx_flow_state s = SUART_FLOW_ST_IDLE then Some (Inl (i, s, ubits))
            else do {
              (b, s, _) \<leftarrow> suart_tx_bit s [];
              ubits \<leftarrow> wr ubits i b;
              Some (Inr (s, ubits)) }) (s, ubits);
     Some (case r of Inl r \<Rightarrow> r | Inr (s, ubits) \<Rightarrow> (n_ubits, s, ubits)) }"

definition n_frame_bits :: "'w suart_cfg \<Rightarrow> nat" where
  "n_frame_bits c = 1 + unat (num_data_bits c) + unat (num_stop_bits c) + (if parity_mode c \<noteq> OSMO_SUART_PARITY_NONE then 1 else 0)"

definition tx_suspended :: "'w suart \<Rightarrow> bool" where
  "tx_suspended s = (if flow_ctrl_mode (cfg s) = OSMO_SUART_FLOW_CTRL_DTR_DSR then NOT (status s) AND OSMO_SUART_STATUS_F_DSR \<noteq> 0
                     else if flow_ctrl_mode (cfg s) = OSMO_SUART_FLOW_CTRL_RTS_CTS then NOT (status s) AND OSMO_SUART_STATUS_F_CTS \<noteq> 0
                     else False)"

text \<open>How many characters fit, their request from the application, and the loop that takes the bits.\<close>

definition tx_n_chars :: "'w suart \<Rightarrow> nat \<Rightarrow> nat" where
  "tx_n_chars s n_ubits = (let n_chars = n_ubits div n_frame_bits (cfg s) in
     if n_chars = 0 \<and> tx_flow_state s = SUART_FLOW_ST_IDLE then 1 else n_chars)"

definition tx_fetch :: "'w suart \<Rightarrow> nat \<Rightarrow> 'w \<Rightarrow> (u8 list \<times> 'w) res" where
  "tx_fetch s n_chars w =
     (if n_chars > 0 then
        (case tx_cb (cfg s) of
           None \<Rightarrow> None
         | Some f \<Rightarrow> (let (cs, w) = f (room (uart_msg_alloc n_chars)) w in
                     if room (uart_msg_alloc n_chars) < length cs then None else Some (cs, w)))
      else Some ([], w))"

definition tx_take :: "'w suart \<Rightarrow> u8 list \<Rightarrow> nat \<Rightarrow> u8 list \<Rightarrow> ('w suart \<times> u8 list \<times> u8 list) res" where
  "tx_take s ubits n_ubits msg = for_loop 0 n_ubits (\<lambda>i (s, ubits, msg). do {
       (b, s, msg) \<leftarrow> suart_tx_bit s msg;
       ubits \<leftarrow> wr ubits i b;
       Some (s, ubits, msg) }) (s, ubits, msg)"

definition osmo_soft_uart_tx_ubits :: "'w suart \<Rightarrow> u8 list \<Rightarrow> nat \<Rightarrow> 'w \<Rightarrow> (int \<times> 'w suart \<times> u8 list \<times> 'w) res" where
  "osmo_soft_uart_tx_ubits s ubits n_ubits w =
     (if n_ubits = 0 then Some (uart_EINVAL, s, ubits, w)
      else if \<not> tx_running s then Some (uart_EAGAIN, s, ubits, w)
      else if tx_suspended s then do {
        (n, s, ubits) \<leftarrow> suart_tx_pending s ubits n_ubits;
        Some (int n, s, ubits, w) }
      else do {
        (msg, w) \<leftarrow> tx_fetch s (tx_n_chars s n_ubits) w;
        (s, ubits, _) \<leftarrow> tx_take s ubits n_ubits msg;
        Some (int n_ubits, s, ubits, w) })"

subsection \<open>Modem status\<close>

definition osmo_soft_uart_get_status :: "'w suart \<Rightarrow> u32" where
  "osmo_soft_uart_get_status s = status s"

definition osmo_soft_uart_set_status :: "'w suart \<Rightarrow> u32 \<Rightarrow> 'w \<Rightarrow> 'w suart \<times> 'w" where
  "osmo_soft_uart_set_status s st w =
     (s\<lparr>status := st\<rparr>,
      case status_change_cb (cfg s) of Some f \<Rightarrow> if status s \<noteq> st then f st w else w | None \<Rightarrow> w)"

definition osmo_soft_uart_set_status_line :: "'w suart \<Rightarrow> u32 \<Rightarrow> bool \<Rightarrow> 'w \<Rightarrow> 'w suart \<times> 'w" where
  "osmo_soft_uart_set_status_line s line active w =
     osmo_soft_uart_set_status s (if active then status s OR line else status s AND NOT line) w"

subsection \<open>Management\<close>

definition osmo_soft_uart_alloc :: "'w suart_cfg \<Rightarrow> 'w suart" where
  "osmo_soft_uart_alloc c = \<lparr>cfg = c, status = 0, rx_running = False, rx_bit_count = 0, rx_shift_reg = 0, rx_msg = None,
     rx_parity_bit = 0, rx_flags = 0, rx_timer = None, rx_timer_cb = False, rx_flow_state = SUART_FLOW_ST_IDLE,
     tx_running = False, tx_bit_count = 0, tx_shift_reg = 0, tx_parity_bit = 0, tx_flow_state = SUART_FLOW_ST_IDLE\<rparr>"

definition osmo_soft_uart_configure :: "'w suart \<Rightarrow> 'w suart_cfg \<Rightarrow> 'w \<Rightarrow> int \<times> 'w suart \<times> 'w" where
  "osmo_soft_uart_configure s c w =
     (if 8 < num_data_bits c \<or> num_data_bits c = 0 then (uart_EINVAL, s, w)
      else if num_stop_bits c = 0 then (uart_EINVAL, s, w)
      else if parity_mode c < 0 \<or> OSMO_SUART_PARITY_NUM \<le> parity_mode c then (uart_EINVAL, s, w)
      else if rx_buf_size c = 0 then (uart_EINVAL, s, w)
      else (let (s, w) = (if rx_buf_size c < rx_buf_size (cfg s) \<or> rx_timeout_ms c < rx_timeout_ms (cfg s)
                          then osmo_soft_uart_flush_rx s w else (s, w))
            in (0, s\<lparr>cfg := c, rx_timer_cb := True\<rparr>, w)))"

definition osmo_soft_uart_set_rx :: "'w suart \<Rightarrow> bool \<Rightarrow> 'w \<Rightarrow> 'w suart \<times> 'w" where
  "osmo_soft_uart_set_rx s enable w =
     (if \<not> enable \<and> rx_running s then
        (let (s, w) = osmo_soft_uart_flush_rx s w in (s\<lparr>rx_running := False, rx_flow_state := SUART_FLOW_ST_IDLE\<rparr>, w))
      else if enable \<and> \<not> rx_running s then
        (let s = (if rx_msg s = None then s\<lparr>rx_msg := Some (uart_msg_alloc (rx_buf_size (cfg s)))\<rparr> else s)
         in (s\<lparr>rx_running := True, rx_flow_state := SUART_FLOW_ST_IDLE\<rparr>, w))
      else (s, w))"

definition osmo_soft_uart_set_tx :: "'w suart \<Rightarrow> bool \<Rightarrow> 'w suart" where
  "osmo_soft_uart_set_tx s enable =
     (if \<not> enable \<and> tx_running s then s\<lparr>tx_running := False, tx_flow_state := SUART_FLOW_ST_IDLE\<rparr>
      else if enable \<and> \<not> tx_running s then s\<lparr>tx_running := True, tx_flow_state := SUART_FLOW_ST_IDLE\<rparr>
      else s)"

text \<open>The expiry of the timer, as \<open>osmo_timers_update\<close> handles it: the timer is removed, and its function called if it
  was set up.\<close>

definition rx_timer_expires :: "'w suart \<Rightarrow> 'w \<Rightarrow> 'w suart \<times> 'w" where
  "rx_timer_expires s w = (if rx_timer s = None then (s, w)
     else let s = s\<lparr>rx_timer := None\<rparr> in if rx_timer_cb s then suart_rx_timer_cb s w else (s, w))"

section \<open>Properties\<close>

subsection \<open>Every sequence of operations\<close>

datatype 'w uart_event = Rx_ubits "u8 list" | Tx_ubits nat | Rx_timer_expires | Flush_rx | Set_rx bool | Set_tx bool
  | Set_status u32 | Set_status_line u32 bool | Configure "'w suart_cfg"

definition uart_step :: "'w uart_event \<Rightarrow> 'w suart \<times> 'w \<Rightarrow> ('w suart \<times> 'w) res" where
  "uart_step ev = (\<lambda>(s, w). case ev of
     Rx_ubits bs \<Rightarrow> do { (_, s, w) \<leftarrow> osmo_soft_uart_rx_ubits s bs (length bs) w; Some (s, w) }
   | Tx_ubits n \<Rightarrow> do { (_, s, _, w) \<leftarrow> osmo_soft_uart_tx_ubits s (replicate n 0) n w; Some (s, w) }
   | Rx_timer_expires \<Rightarrow> Some (rx_timer_expires s w)
   | Flush_rx \<Rightarrow> Some (osmo_soft_uart_flush_rx s w)
   | Set_rx b \<Rightarrow> Some (osmo_soft_uart_set_rx s b w)
   | Set_tx b \<Rightarrow> Some (osmo_soft_uart_set_tx s b, w)
   | Set_status st \<Rightarrow> Some (osmo_soft_uart_set_status s st w)
   | Set_status_line l b \<Rightarrow> Some (osmo_soft_uart_set_status_line s l b w)
   | Configure c \<Rightarrow> Some (snd (osmo_soft_uart_configure s c w)))"

text \<open>A valid configuration with receive buffers of \<open>B\<close> characters, and parity bits if \<open>par\<close>. The call-back that supplies
  characters respects the size of the buffer it is given.\<close>

definition cfg_ok :: "nat \<Rightarrow> bool \<Rightarrow> 'w suart_cfg \<Rightarrow> bool" where
  "cfg_ok B par c \<longleftrightarrow> 0 \<le> parity_mode c \<and> parity_mode c < OSMO_SUART_PARITY_NUM \<and>
     (par \<longleftrightarrow> parity_mode c \<noteq> OSMO_SUART_PARITY_NONE) \<and> rx_buf_size c = B \<and> 0 < B \<and> B < 65536 \<and>
     (\<exists>f. tx_cb c = Some f \<and> (\<forall>n w. length (fst (f n w)) \<le> n))"

fun rx_buf_ok :: "nat \<Rightarrow> uart_msg option \<Rightarrow> (nat \<times> nat) option \<Rightarrow> bool" where
  "rx_buf_ok B None t \<longleftrightarrow> t = None"
| "rx_buf_ok B (Some m) t \<longleftrightarrow> room m = B \<and> length (chars m) < B \<and> (t = None \<longleftrightarrow> chars m = [])"

text \<open>The buffer is never full between operations, and the timer runs exactly while it holds characters.\<close>

definition uart_wf :: "nat \<Rightarrow> bool \<Rightarrow> 'w suart \<Rightarrow> bool" where
  "uart_wf B par s \<longleftrightarrow> cfg_ok B par (cfg s) \<and> rx_timer_cb s \<and>
     (rx_running s \<longrightarrow> rx_msg s \<noteq> None) \<and>
     (rx_flow_state s = SUART_FLOW_ST_PARITY \<longrightarrow> par) \<and> (tx_flow_state s = SUART_FLOW_ST_PARITY \<longrightarrow> par) \<and>
     rx_buf_ok B (rx_msg s) (rx_timer s)"

fun event_ok :: "nat \<Rightarrow> bool \<Rightarrow> 'w uart_event \<Rightarrow> bool" where
  "event_ok B par (Configure c) = cfg_ok B par c"
| "event_ok B par _ = True"

lemma flush_rx_wf: "uart_wf B par s \<Longrightarrow> osmo_soft_uart_flush_rx s w = (s', w') \<Longrightarrow> uart_wf B par s' \<and> rx_timer s' = None \<and>
   rx_running s' = rx_running s \<and> cfg s' = cfg s"
  by (auto simp: osmo_soft_uart_flush_rx_def uart_wf_def uart_msg_alloc_def cfg_ok_def Let_def split: option.splits if_splits)

text \<open>The buffer may be full by one character when it is flushed.\<close>

lemma flush_rx_full:
  assumes "uart_wf B par s" "rx_msg s = Some m"
  shows "uart_wf B par (fst (osmo_soft_uart_flush_rx (s\<lparr>rx_msg := Some (m\<lparr>chars := chars m @ [ch]\<rparr>)\<rparr>) w)) \<and>
    rx_running (fst (osmo_soft_uart_flush_rx (s\<lparr>rx_msg := Some (m\<lparr>chars := chars m @ [ch]\<rparr>)\<rparr>) w)) = rx_running s"
  using assms by (auto simp: osmo_soft_uart_flush_rx_def uart_wf_def uart_msg_alloc_def cfg_ok_def Let_def split: option.splits if_splits)

lemma rx_ch_wf:
  assumes "uart_wf B par s" "rx_running s"
  shows "\<exists>s' w'. suart_rx_ch s ch w = Some (s', w') \<and> uart_wf B par s' \<and> rx_running s'"
proof -
  obtain m where m: "rx_msg s = Some m" "room m = B" "length (chars m) < B" "rx_timer s = None \<longleftrightarrow> chars m = []"
    using assms by (auto simp: uart_wf_def)
  obtain s1 w1 where f: "osmo_soft_uart_flush_rx (s\<lparr>rx_msg := Some (m\<lparr>chars := chars m @ [ch]\<rparr>)\<rparr>) w = (s1, w1)" by fastforce
  show ?thesis
  proof (cases "B \<le> length (chars m) + 1 \<or> rx_flags s \<noteq> 0")
    case True
    with m assms flush_rx_full [OF assms(1) m(1), of ch w] f show ?thesis
      by (auto simp: suart_rx_ch_def Let_def uart_wf_def cfg_ok_def)
  next
    case False
    with m assms show ?thesis by (auto simp: suart_rx_ch_def Let_def uart_wf_def cfg_ok_def)
  qed
qed

lemma rx_parity_defined: "0 < m \<Longrightarrow> m < 5 \<Longrightarrow> rx_parity_wrong m p b \<noteq> None" "0 < m \<Longrightarrow> m < 5 \<Longrightarrow> tx_parity_value m p \<noteq> None" for m :: int
  by (auto simp: rx_parity_wrong_def tx_parity_value_def)

lemma rx_bit_wf:
  assumes "uart_wf B par s" "rx_running s"
  shows "\<exists>s' w'. suart_rx_bit s bt w = Some (s', w') \<and> uart_wf B par s' \<and> rx_running s'"
proof (cases "rx_flow_state s")
  case SUART_FLOW_ST_PARITY
  then have "0 < parity_mode (cfg s)" "parity_mode (cfg s) < 5" using assms by (auto simp: uart_wf_def cfg_ok_def)
  then obtain v where "rx_parity_wrong (parity_mode (cfg s)) (rx_parity_bit s) bt = Some v" using rx_parity_defined by blast
  with SUART_FLOW_ST_PARITY assms show ?thesis by (auto simp: suart_rx_bit_def uart_wf_def Let_def)
next
  case SUART_FLOW_ST_STOP
  define s1 where "s1 = (let s = s\<lparr>rx_bit_count := rx_bit_count s + 1\<rparr> in
    if bt \<noteq> 1 then s\<lparr>rx_flags := rx_flags s OR OSMO_SUART_F_FRAMING_ERROR\<rparr> else s)"
  have s1: "uart_wf B par s1" "rx_running s1" using assms by (auto simp: s1_def uart_wf_def Let_def)
  obtain s2 w2 where "suart_rx_ch s1 (rx_shift_reg s1) w = Some (s2, w2)" "uart_wf B par s2" "rx_running s2"
    using rx_ch_wf [OF s1] by blast
  moreover have "uart_wf B par (s2\<lparr>rx_flow_state := SUART_FLOW_ST_IDLE\<rparr>)" using calculation by (simp add: uart_wf_def)
  ultimately show ?thesis using s1 SUART_FLOW_ST_STOP
    by (simp add: suart_rx_bit_def s1_def [unfolded Let_def, symmetric] Let_def)
qed (use assms in \<open>auto simp: suart_rx_bit_def uart_wf_def Let_def cfg_ok_def\<close>)

lemma rx_ubits_wf:
  assumes "uart_wf B par s"
  shows "\<exists>rc s' w'. osmo_soft_uart_rx_ubits s bs (length bs) w = Some (rc, s', w') \<and> uart_wf B par s'"
proof (cases "rx_running s")
  case True
  have "\<exists>t. for_loop 0 (length bs) (\<lambda>i (s, w). do { b \<leftarrow> rd bs i; suart_rx_bit s b w }) (s, w) = Some t \<and>
          (uart_wf B par (fst t) \<and> rx_running (fst t))"
    by (rule for_loop_rule [where P = "\<lambda>i t. uart_wf B par (fst t) \<and> rx_running (fst t)"])
      (use assms True rx_bit_wf in \<open>fastforce simp: rd_def split_def\<close>)+
  with True show ?thesis by (auto simp: osmo_soft_uart_rx_ubits_def split_def)
qed (use assms in \<open>simp add: osmo_soft_uart_rx_ubits_def\<close>)

lemma tx_bit_wf:
  assumes "uart_wf B par s"
  shows "\<exists>b s' msg'. suart_tx_bit s msg = Some (b, s', msg') \<and> uart_wf B par s'"
proof (cases "tx_flow_state s")
  case SUART_FLOW_ST_PARITY
  then have "0 < parity_mode (cfg s)" "parity_mode (cfg s) < 5" using assms by (auto simp: uart_wf_def cfg_ok_def)
  then obtain v where "tx_parity_value (parity_mode (cfg s)) (tx_parity_bit s) = Some v" using rx_parity_defined by blast
  with SUART_FLOW_ST_PARITY assms show ?thesis by (auto simp: suart_tx_bit_def uart_wf_def)
qed (use assms in \<open>auto simp: suart_tx_bit_def uart_wf_def Let_def cfg_ok_def split: list.splits\<close>)

lemma tx_pending_wf:
  assumes "uart_wf B par s" "n \<le> length ubits"
  shows "\<exists>k s' ubits'. suart_tx_pending s ubits n = Some (k, s', ubits') \<and> uart_wf B par s'"
proof -
  let ?b = "\<lambda>i (s, ubits). if tx_flow_state s = SUART_FLOW_ST_IDLE then Some (Inl (i, s, ubits))
            else do { (b, s, _) \<leftarrow> suart_tx_bit s []; ubits \<leftarrow> wr ubits i b; Some (Inr (s, ubits)) }"
  have "(\<exists>t. for_break 0 n ?b (s, ubits) = Some (Inr t) \<and> (uart_wf B par (fst t) \<and> n \<le> length (snd t))) \<or>
        (\<exists>r. for_break 0 n ?b (s, ubits) = Some (Inl r) \<and> uart_wf B par (fst (snd r)))"
  proof (rule for_break_rule [where P = "\<lambda>i t. uart_wf B par (fst t) \<and> n \<le> length (snd t)" and Q = "\<lambda>r. uart_wf B par (fst (snd r))"])
    fix i and t :: "'a suart \<times> u8 list" assume t: "0 \<le> i" "i < n" "uart_wf B par (fst t) \<and> n \<le> length (snd t)"
    obtain b s' msg' where "suart_tx_bit (fst t) [] = Some (b, s', msg')" "uart_wf B par s'" using tx_bit_wf t by blast
    with t show "(\<exists>t'. ?b i t = Some (Inr t') \<and> uart_wf B par (fst t') \<and> n \<le> length (snd t')) \<or>
        (\<exists>r. ?b i t = Some (Inl r) \<and> uart_wf B par (fst (snd r)))"
      by (cases t) (auto simp: wr_def)
  qed (use assms in simp_all)
  then show ?thesis by (auto simp: suart_tx_pending_def split_def)
qed

lemma tx_take_wf:
  assumes "uart_wf B par s" "n \<le> length ubits"
  shows "\<exists>s' ubits' msg'. tx_take s ubits n msg = Some (s', ubits', msg') \<and> uart_wf B par s'"
proof -
  let ?b = "\<lambda>i (s, ubits, msg). do { (b, s, msg) \<leftarrow> suart_tx_bit s msg; ubits \<leftarrow> wr ubits i b; Some (s, ubits, msg) }"
  let ?P = "\<lambda>i (t :: 'a suart \<times> u8 list \<times> u8 list). uart_wf B par (fst t) \<and> n \<le> length (fst (snd t))"
  have "\<exists>t. for_loop 0 n ?b (s, ubits, msg) = Some t \<and> ?P n t"
  proof (rule for_loop_rule [where P = ?P])
    fix i and t :: "'a suart \<times> u8 list \<times> u8 list" assume t: "0 \<le> i" "i < n" "?P i t"
    obtain b s' msg' where "suart_tx_bit (fst t) (snd (snd t)) = Some (b, s', msg')" "uart_wf B par s'" using tx_bit_wf t by blast
    with t show "\<exists>t'. ?b i t = Some t' \<and> ?P (Suc i) t'" by (cases t) (auto simp: wr_def)
  qed (use assms in simp_all)
  then show ?thesis by (auto simp: tx_take_def)
qed

lemma tx_ubits_wf:
  assumes "uart_wf B par s"
  shows "\<exists>rc s' ubits' w'. osmo_soft_uart_tx_ubits s (replicate n 0) n w = Some (rc, s', ubits', w') \<and> uart_wf B par s'"
proof (cases "n = 0 \<or> \<not> tx_running s \<or> tx_suspended s")
  case True
  obtain k s' ub' where "suart_tx_pending s (replicate n 0) n = Some (k, s', ub')" "uart_wf B par s'"
    using tx_pending_wf [OF assms, of n "replicate n 0"] by auto
  with True assms show ?thesis by (cases "n = 0"; cases "tx_running s") (simp_all add: osmo_soft_uart_tx_ubits_def)
next
  case False
  obtain f where f: "tx_cb (cfg s) = Some f" "\<And>n w. length (fst (f n w)) \<le> n" using assms by (auto simp: uart_wf_def cfg_ok_def)
  let ?k = "room (uart_msg_alloc (tx_n_chars s n))"
  have "\<exists>msg w1. tx_fetch s (tx_n_chars s n) w = Some (msg, w1)"
    using f(2) [of ?k w] by (cases "f ?k w") (auto simp: tx_fetch_def f(1))
  then obtain msg w1 where "tx_fetch s (tx_n_chars s n) w = Some (msg, w1)" by blast
  moreover obtain s' ub msg' where "tx_take s (replicate n 0) n msg = Some (s', ub, msg')" "uart_wf B par s'"
    using tx_take_wf [OF assms, of n "replicate n 0" msg] by auto
  ultimately show ?thesis using False by (simp add: osmo_soft_uart_tx_ubits_def)
qed

lemma set_rx_wf: "uart_wf B par s \<Longrightarrow> uart_wf B par (fst (osmo_soft_uart_set_rx s b w))"
proof -
  assume a: "uart_wf B par s"
  obtain s1 w1 where f: "osmo_soft_uart_flush_rx s w = (s1, w1)" by fastforce
  show ?thesis
  proof (cases b)
    case True
    with a show ?thesis by (cases "rx_msg s") (auto simp: osmo_soft_uart_set_rx_def uart_wf_def uart_msg_alloc_def cfg_ok_def Let_def)
  next
    case False
    with a flush_rx_wf [OF a f] f show ?thesis by (auto simp: osmo_soft_uart_set_rx_def uart_wf_def)
  qed
qed

lemma timer_wf: "uart_wf B par s \<Longrightarrow> uart_wf B par (fst (rx_timer_expires s w))"
  by (cases "rx_msg s")
    (auto simp: rx_timer_expires_def suart_rx_timer_cb_def osmo_soft_uart_flush_rx_def uart_wf_def uart_msg_alloc_def cfg_ok_def Let_def
      split: option.splits)

lemma configure_wf:
  assumes "uart_wf B par s" "cfg_ok B par c"
  shows "uart_wf B par (fst (snd (osmo_soft_uart_configure s c w)))"
proof -
  obtain s1 w1 where f: "osmo_soft_uart_flush_rx s w = (s1, w1)" by fastforce
  with flush_rx_wf [OF assms(1) f] assms show ?thesis by (auto simp: osmo_soft_uart_configure_def uart_wf_def)
qed

lemma uart_step_wf:
  assumes "uart_wf B par (fst sw)" "event_ok B par ev"
  shows "\<exists>sw'. uart_step ev sw = Some sw' \<and> uart_wf B par (fst sw')"
proof -
  obtain s w where sw: "sw = (s, w)" by fastforce
  with assms have wf: "uart_wf B par s" by simp
  show ?thesis
  proof (cases ev)
    case (Rx_ubits bs)
    with rx_ubits_wf [OF wf, of bs w] show ?thesis by (auto simp: uart_step_def sw)
  next
    case (Tx_ubits n)
    with tx_ubits_wf [OF wf, of n w] show ?thesis by (auto simp: uart_step_def sw)
  next
    case Flush_rx
    with flush_rx_wf [OF wf, of w] show ?thesis by (cases "osmo_soft_uart_flush_rx s w") (auto simp: uart_step_def sw)
  next
    case (Set_tx b)
    with wf show ?thesis by (auto simp: uart_step_def sw osmo_soft_uart_set_tx_def uart_wf_def)
  next
    case (Set_rx b)
    with set_rx_wf [OF wf] show ?thesis by (simp add: uart_step_def sw)
  next
    case Rx_timer_expires
    with timer_wf [OF wf] show ?thesis by (simp add: uart_step_def sw)
  next
    case (Configure c)
    with configure_wf [OF wf] assms(2) show ?thesis by (simp add: uart_step_def sw)
  next
    case (Set_status st)
    with wf show ?thesis by (simp add: uart_step_def sw osmo_soft_uart_set_status_def uart_wf_def)
  next
    case (Set_status_line l b)
    with wf show ?thesis by (simp add: uart_step_def sw osmo_soft_uart_set_status_def osmo_soft_uart_set_status_line_def uart_wf_def)
  qed
qed

text \<open>An instance that has been allocated and configured.\<close>

definition uart_init :: "'w suart_cfg \<Rightarrow> 'w \<Rightarrow> 'w suart \<times> 'w" where
  "uart_init c w = snd (osmo_soft_uart_configure (osmo_soft_uart_alloc c) c w)"

lemma uart_init_wf:
  assumes "cfg_ok B par c" "num_data_bits c \<le> 8" "num_data_bits c \<noteq> 0" "num_stop_bits c \<noteq> 0"
  shows "uart_wf B par (fst (uart_init c w))"
  using assms by (simp add: uart_init_def osmo_soft_uart_configure_def osmo_soft_uart_alloc_def uart_wf_def cfg_ok_def not_less)

lemma uart_machine:
  assumes "cfg_ok B par c" "num_data_bits c \<le> 8" "num_data_bits c \<noteq> 0" "num_stop_bits c \<noteq> 0"
  shows "machine uart_step (event_ok B par) (uart_init c w) (\<lambda>sw. uart_wf B par (fst sw))"
  by unfold_locales (use uart_init_wf [OF assms] uart_step_wf in blast)+

text \<open>The default configuration with a queue of characters as its source.\<close>

definition from_queue :: "nat \<Rightarrow> u8 list \<Rightarrow> u8 list \<times> u8 list" where
  "from_queue n q = (take n q, drop n q)"

interpretation uart8n1: machine uart_step "event_ok 1024 False" "uart_init (osmo_soft_uart_default_cfg\<lparr>tx_cb := Some from_queue\<rparr>) w"
    "\<lambda>sw. uart_wf 1024 False (fst sw)" for w
  by (rule uart_machine) (simp_all add: cfg_ok_def osmo_soft_uart_default_cfg_def from_queue_def)

text \<open>C14: an instance allocated and configured with a receive buffer of less than 65536 characters handles every sequence of
  received bits, requests for bits, timer expiries, flushes, status changes, switching on and off and reconfigurations
  that keep the buffer size and whether there is a parity bit: no assertion fails and no buffer overflows. In every state
  the receive buffer has room for a character, a running receiver has a buffer, and the timer, which has its function,
  runs exactly while characters wait.\<close>

theorem uart_reachable:
  assumes "cfg_ok B par c" "num_data_bits c \<le> 8" "num_data_bits c \<noteq> 0" "num_stop_bits c \<noteq> 0"
    and "reach uart_step (event_ok B par) (uart_init c w) (s, w')" "event_ok B par ev"
  shows "(\<exists>t. uart_step ev (s, w') = Some t \<and> reach uart_step (event_ok B par) (uart_init c w) t) \<and>
         (rx_running s \<longrightarrow> rx_msg s \<noteq> None) \<and> rx_timer_cb s \<and>
         (rx_msg s = None \<longrightarrow> rx_timer s = None) \<and>
         (\<forall>m. rx_msg s = Some m \<longrightarrow> room m = rx_buf_size (cfg s) \<and> length (chars m) < room m \<and> (rx_timer s \<noteq> None \<longleftrightarrow> chars m \<noteq> []))"
proof -
  note m = uart_machine [OF assms(1-4), of w]
  have "uart_wf B par s" using machine.reach_inv [OF m assms(5)] by simp
  then show ?thesis using machine.reach_progress [OF m assms(5,6)] by (auto simp: uart_wf_def cfg_ok_def)
qed

theorem uart_reachable_witness:
  "\<exists>t. uart_step (Tx_ubits 25) (uart_init (osmo_soft_uart_default_cfg\<lparr>tx_cb := Some from_queue\<rparr>) [65, 66]) = Some t"
proof -
  let ?c = "osmo_soft_uart_default_cfg\<lparr>tx_cb := Some from_queue\<rparr>"
  have "cfg_ok 1024 False ?c" by (simp add: cfg_ok_def osmo_soft_uart_default_cfg_def from_queue_def)
  moreover have "num_data_bits ?c \<le> 8" "num_data_bits ?c \<noteq> 0" "num_stop_bits ?c \<noteq> 0" by (simp_all add: osmo_soft_uart_default_cfg_def)
  moreover have "reach uart_step (event_ok 1024 False) (uart_init ?c [65, 66]) (uart_init ?c [65, 66])" by (rule reach_init)
  ultimately show ?thesis
    using uart_reachable [of 1024 False ?c "[65, 66]" "fst (uart_init ?c [65, 66])" "snd (uart_init ?c [65, 66])" "Tx_ubits 25"] by auto
qed

end
