(* ===== verification/Uart_Link.thy ===== *)
theory Uart_Link
  imports Soft_Uart
begin

text \<open>
  Two software UARTs on a line. The format of a character on the line is written down as \<open>uart_frame\<close>, a line as any
  sequence of such frames and idle bits (\<open>uart_line\<close>). The transmitter refines it: the bits it has handed out and the
  rest of the current character (\<open>tx_rest\<close>) always form the line of the characters it has taken. The receiver accepts
  every line and collects its characters.

  Shown: the transfer of characters from one to the other whatever the sizes of the requests and deliveries, and
  configurations for which it fails.
\<close>

subsection \<open>Characters on the line\<close>

text \<open>The format of a line: data bits, stop bits, parity mode.\<close>

definition fmt_ok :: "nat \<Rightarrow> nat \<Rightarrow> int \<Rightarrow> bool" where
  "fmt_ok nd ns mode \<longleftrightarrow> 0 < nd \<and> nd \<le> 8 \<and> 0 < ns \<and> nd + ns \<le> 255 \<and> 0 \<le> mode \<and> mode < 5"

definition has_fmt :: "nat \<Rightarrow> nat \<Rightarrow> int \<Rightarrow> 'w suart_cfg \<Rightarrow> bool" where
  "has_fmt nd ns mode c \<longleftrightarrow> unat (num_data_bits c) = nd \<and> unat (num_stop_bits c) = ns \<and> parity_mode c = mode"

definition data_field :: "nat \<Rightarrow> u8 \<Rightarrow> u8 list" where
  "data_field n c = map (\<lambda>k. if bit c k then 1 else 0) [0..<n]"

definition parity_field :: "int \<Rightarrow> u8 \<Rightarrow> u8 list" where
  "parity_field mode p = (case tx_parity_value mode p of None \<Rightarrow> [] | Some v \<Rightarrow> [v])"

definition after_data :: "nat \<Rightarrow> int \<Rightarrow> u8 \<Rightarrow> u8 list" where
  "after_data ns mode p = parity_field mode p @ replicate ns 1"

definition uart_frame :: "nat \<Rightarrow> nat \<Rightarrow> int \<Rightarrow> u8 \<Rightarrow> u8 list" where
  "uart_frame nd ns mode c = 0 # data_field nd c @ after_data ns mode (fold (XOR) (data_field nd c) 0)"

text \<open>Idle bits and characters in any order.\<close>

inductive uart_line :: "nat \<Rightarrow> nat \<Rightarrow> int \<Rightarrow> u8 list \<Rightarrow> u8 list \<Rightarrow> bool" for nd ns mode where
  line_nil: "uart_line nd ns mode [] []"
| line_idle: "uart_line nd ns mode bs cs \<Longrightarrow> uart_line nd ns mode (bs @ [1]) cs"
| line_char: "uart_line nd ns mode bs cs \<Longrightarrow> uart_line nd ns mode (bs @ uart_frame nd ns mode c) (cs @ [c])"

lemma data_field_0 [simp]: "data_field 0 c = []"
  by (simp add: data_field_def)

lemma length_data_field [simp]: "length (data_field n c) = n"
  by (simp add: data_field_def)

lemma data_field_Suc: "data_field (Suc n) c = (c AND 1) # data_field n (drop_bit 1 c)"
proof -
  have "c AND 1 = (if bit c 0 then 1 else 0)" by (cases rule: parity_cases [of c]) (simp_all add: and_one_eq bit_0)
  moreover have "[0..<Suc n] = 0 # map Suc [0..<n]" by (simp add: map_Suc_upt upt_conv_Cons del: upt_Suc)
  ultimately show ?thesis by (simp add: data_field_def bit_drop_bit_eq comp_def bit_0 del: upt_Suc drop_bit_Suc)
qed

lemma data_field_bits: "x \<in> set (data_field n c) \<Longrightarrow> x = 0 \<or> x = 1"
  by (auto simp: data_field_def split: if_splits)

lemma fold_xor_bit: "(\<forall>x \<in> set xs. x = 0 \<or> x = (1 :: u8)) \<Longrightarrow> p = 0 \<or> p = 1 \<Longrightarrow> fold (XOR) xs p = 0 \<or> fold (XOR) xs p = 1"
proof (induction xs arbitrary: p)
  case (Cons x xs)
  from Cons.prems have "x XOR p = 0 \<or> x XOR p = 1" by auto
  with Cons show ?case by (simp del: fold_simps add: fold_Cons)
qed simp

lemma length_frame: "length (uart_frame nd ns mode c) = 1 + nd + ns + length (parity_field mode 0)"
  by (simp add: uart_frame_def after_data_def parity_field_def tx_parity_value_def)

subsection \<open>The sender\<close>

definition tx_ok :: "nat \<Rightarrow> nat \<Rightarrow> int \<Rightarrow> 'w suart \<Rightarrow> bool" where
  "tx_ok nd ns mode s \<longleftrightarrow> fmt_ok nd ns mode \<and> has_fmt nd ns mode (cfg s) \<and>
     (case tx_flow_state s of
        SUART_FLOW_ST_IDLE \<Rightarrow> True
      | SUART_FLOW_ST_DATA \<Rightarrow> unat (tx_bit_count s) < nd
      | SUART_FLOW_ST_PARITY \<Rightarrow> unat (tx_bit_count s) = nd \<and> mode \<noteq> 0
      | SUART_FLOW_ST_STOP \<Rightarrow> nd \<le> unat (tx_bit_count s) \<and> unat (tx_bit_count s) < nd + ns)"

text \<open>What is still to be sent of the current character.\<close>

definition tx_rest :: "nat \<Rightarrow> nat \<Rightarrow> int \<Rightarrow> 'w suart \<Rightarrow> u8 list" where
  "tx_rest nd ns mode s = (case tx_flow_state s of
        SUART_FLOW_ST_IDLE \<Rightarrow> []
      | SUART_FLOW_ST_DATA \<Rightarrow> (let ds = data_field (nd - unat (tx_bit_count s)) (tx_shift_reg s) in
          ds @ after_data ns mode (fold (XOR) ds (tx_parity_bit s)))
      | SUART_FLOW_ST_PARITY \<Rightarrow> after_data ns mode (tx_parity_bit s)
      | SUART_FLOW_ST_STOP \<Rightarrow> replicate (nd + ns - unat (tx_bit_count s)) 1)"

lemma unat_Suc_u8: "unat (x :: u8) < 255 \<Longrightarrow> unat (x + 1) = Suc (unat x)"
  by (simp add: unat_word_ariths(1))

lemma tx_bit_busy:
  assumes "tx_ok nd ns mode s" "tx_flow_state s \<noteq> SUART_FLOW_ST_IDLE"
  shows "\<exists>b s'. suart_tx_bit s msg = Some (b, s', msg) \<and> tx_ok nd ns mode s' \<and> tx_rest nd ns mode s = b # tx_rest nd ns mode s' \<and>
           cfg s' = cfg s \<and> status s' = status s \<and> tx_running s' = tx_running s"
proof (cases "tx_flow_state s")
  case SUART_FLOW_ST_DATA
  then have k: "unat (tx_bit_count s) < nd" "nd \<le> 8" using assms by (simp_all add: tx_ok_def fmt_ok_def)
  then have c: "unat (tx_bit_count s + 1) = Suc (unat (tx_bit_count s))" by (intro unat_Suc_u8) simp
  have d: "nd - unat (tx_bit_count s) = Suc (nd - Suc (unat (tx_bit_count s)))" using k by simp
  have le: "num_data_bits (cfg s) \<le> tx_bit_count s + 1 \<longleftrightarrow> nd = Suc (unat (tx_bit_count s))"
    using k c assms by (auto simp: word_le_nat_alt tx_ok_def has_fmt_def)
  show ?thesis
    using SUART_FLOW_ST_DATA assms k c
    by (auto simp: suart_tx_bit_def Let_def le tx_ok_def tx_rest_def d data_field_Suc after_data_def parity_field_def tx_parity_value_def
        fmt_ok_def has_fmt_def xor.commute)
next
  case SUART_FLOW_ST_PARITY
  then obtain v where "tx_parity_value mode (tx_parity_bit s) = Some v"
    using assms rx_parity_defined(2) [of mode] by (fastforce simp: tx_ok_def fmt_ok_def)
  with SUART_FLOW_ST_PARITY assms show ?thesis
    by (auto simp: suart_tx_bit_def tx_ok_def tx_rest_def after_data_def parity_field_def has_fmt_def fmt_ok_def)
next
  case SUART_FLOW_ST_STOP
  then have k: "unat (tx_bit_count s) < nd + ns" "nd + ns \<le> 255" using assms by (simp_all add: tx_ok_def fmt_ok_def)
  then have c: "unat (tx_bit_count s + 1) = Suc (unat (tx_bit_count s))" by (intro unat_Suc_u8) simp
  have d: "nd + ns - unat (tx_bit_count s) = Suc (nd + ns - Suc (unat (tx_bit_count s)))" using k by simp
  show ?thesis
    using SUART_FLOW_ST_STOP assms k c
    by (auto simp: suart_tx_bit_def Let_def tx_ok_def tx_rest_def d has_fmt_def)
qed (use assms in simp)

lemma tx_bit_idle:
  assumes "tx_ok nd ns mode s" "tx_flow_state s = SUART_FLOW_ST_IDLE"
  shows "suart_tx_bit s [] = Some (1, s, [])"
    and "\<exists>s'. suart_tx_bit s (c # msg) = Some (0, s', msg) \<and> tx_ok nd ns mode s' \<and>
           uart_frame nd ns mode c = 0 # tx_rest nd ns mode s' \<and> cfg s' = cfg s \<and> status s' = status s \<and> tx_running s' = tx_running s"
  using assms by (simp_all add: suart_tx_bit_def tx_ok_def tx_rest_def fmt_ok_def uart_frame_def Let_def)

subsubsection \<open>Taking bits\<close>

primrec tx_pull :: "nat \<Rightarrow> 'w suart \<Rightarrow> u8 list \<Rightarrow> (u8 list \<times> 'w suart \<times> u8 list) res" where
  "tx_pull 0 s msg = Some ([], s, msg)"
| "tx_pull (Suc n) s msg = do {
     (b, s, msg) \<leftarrow> suart_tx_bit s msg;
     (bs, s, msg) \<leftarrow> tx_pull n s msg;
     Some (b # bs, s, msg) }"

lemma tx_take_pull:
  "length ubits = i + n \<Longrightarrow> tx_pull n s msg = Some (bs, s', msg') \<Longrightarrow>
   for_loop i (i + n) (\<lambda>i (s, ubits, msg). do { (b, s, msg) \<leftarrow> suart_tx_bit s msg; ubits \<leftarrow> wr ubits i b; Some (s, ubits, msg) })
     (s, ubits, msg) = Some (s', take i ubits @ bs, msg')"
proof (induction n arbitrary: i s ubits msg bs)
  case 0
  then show ?case by (simp add: for_loop_done)
next
  case (Suc n)
  from Suc.prems(2) obtain b s1 msg1 cs where 1: "suart_tx_bit s msg = Some (b, s1, msg1)"
    "tx_pull n s1 msg1 = Some (cs, s', msg')" "bs = b # cs"
    by (auto simp: bind_eq_Some_conv)
  have t: "take (Suc i) (ubits[i := b]) = take i ubits @ [b]" using Suc.prems(1) by (simp add: take_Suc_conv_app_nth)
  have "length (ubits[i := b]) = Suc i + n" using Suc.prems(1) by simp
  note ih = Suc.IH [OF this 1(2)]
  have "i + Suc n = Suc i + n" by simp
  then show ?case using Suc.prems(1) 1 ih t by (simp only: for_loop_step) (simp add: for_loop_step wr_def)
qed

text \<open>The bits sent so far and the rest of the current character form a line that carries the characters taken. Bits
  enough for the characters still in the buffer are requested.\<close>

definition tx_fits :: "nat \<Rightarrow> nat \<Rightarrow> int \<Rightarrow> 'w suart \<Rightarrow> u8 list \<Rightarrow> nat \<Rightarrow> bool" where
  "tx_fits nd ns mode s msg m \<longleftrightarrow> msg = [] \<or>
     length (tx_rest nd ns mode s) + (length msg - 1) * length (uart_frame nd ns mode 0) + 1 \<le> m"

lemma frame_length_eq: "length (uart_frame nd ns mode c) = length (uart_frame nd ns mode 0)"
  by (simp add: uart_frame_def after_data_def parity_field_def tx_parity_value_def)

lemma tx_step:
  assumes "tx_ok nd ns mode s" "uart_line nd ns mode (out @ tx_rest nd ns mode s) cs" "tx_fits nd ns mode s msg (Suc m)"
  shows "\<exists>b s' msg' taken. suart_tx_bit s msg = Some (b, s', msg') \<and> tx_ok nd ns mode s' \<and> msg = taken @ msg' \<and>
           uart_line nd ns mode ((out @ [b]) @ tx_rest nd ns mode s') (cs @ taken) \<and> tx_fits nd ns mode s' msg' m \<and>
           cfg s' = cfg s \<and> status s' = status s \<and> tx_running s' = tx_running s"
proof (cases "tx_flow_state s = SUART_FLOW_ST_IDLE")
  case False
  obtain b s' where "suart_tx_bit s msg = Some (b, s', msg)" "tx_ok nd ns mode s'" "tx_rest nd ns mode s = b # tx_rest nd ns mode s'"
    "cfg s' = cfg s" "status s' = status s" "tx_running s' = tx_running s"
    using tx_bit_busy [OF assms(1) False, of msg] by blast
  with assms show ?thesis by (intro exI [of _ b] exI [of _ s'] exI [of _ msg] exI [of _ "[]"]) (auto simp: tx_fits_def)
next
  case True
  then have r: "tx_rest nd ns mode s = []" by (simp add: tx_rest_def)
  show ?thesis
  proof (cases msg)
    case Nil
    with tx_bit_idle(1) [OF assms(1) True] assms r line_idle show ?thesis by (auto simp: tx_fits_def)
  next
    case (Cons c msg')
    obtain s' where s': "suart_tx_bit s msg = Some (0, s', msg')" "tx_ok nd ns mode s'"
      "uart_frame nd ns mode c = 0 # tx_rest nd ns mode s'" "cfg s' = cfg s" "status s' = status s" "tx_running s' = tx_running s"
      using tx_bit_idle(2) [OF assms(1) True, of c msg'] Cons by blast
    have "uart_line nd ns mode (out @ uart_frame nd ns mode c) (cs @ [c])" using assms(2) r line_char by auto
    moreover have "tx_fits nd ns mode s' msg' m"
    proof (cases msg')
      case (Cons c' msg'')
      have "length (tx_rest nd ns mode s') + 1 = length (uart_frame nd ns mode 0)"
        using s'(3) frame_length_eq [of nd ns mode c] by simp
      with assms(3) r \<open>msg = c # msg'\<close> Cons show ?thesis by (simp add: tx_fits_def algebra_simps)
    qed (simp add: tx_fits_def)
    ultimately show ?thesis using s' Cons by (intro exI [of _ 0] exI [of _ s'] exI [of _ msg'] exI [of _ "[c]"]) simp
  qed
qed

lemma tx_pull_line:
  assumes "tx_ok nd ns mode s" "uart_line nd ns mode (out @ tx_rest nd ns mode s) cs" "tx_fits nd ns mode s msg n"
  shows "\<exists>bs s'. tx_pull n s msg = Some (bs, s', []) \<and> length bs = n \<and> tx_ok nd ns mode s' \<and>
           uart_line nd ns mode ((out @ bs) @ tx_rest nd ns mode s') (cs @ msg) \<and>
           cfg s' = cfg s \<and> status s' = status s \<and> tx_running s' = tx_running s"
  using assms
proof (induction n arbitrary: s out cs msg)
  case 0
  then show ?case by (simp add: tx_fits_def)
next
  case (Suc n)
  obtain b s1 msg1 taken where 1: "suart_tx_bit s msg = Some (b, s1, msg1)" "tx_ok nd ns mode s1" "msg = taken @ msg1"
    "uart_line nd ns mode ((out @ [b]) @ tx_rest nd ns mode s1) (cs @ taken)" "tx_fits nd ns mode s1 msg1 n"
    "cfg s1 = cfg s" "status s1 = status s" "tx_running s1 = tx_running s"
    using tx_step [OF Suc.prems] by blast
  from Suc.IH [OF 1(2,4,5)] 1 show ?case by fastforce
qed

lemma tx_rest_less: "tx_ok nd ns mode s \<Longrightarrow> length (tx_rest nd ns mode s) < length (uart_frame nd ns mode 0)"
  by (cases "tx_flow_state s")
    (auto simp: tx_ok_def tx_rest_def Let_def uart_frame_def after_data_def parity_field_def tx_parity_value_def)

lemma n_frame_bits_eq: "has_fmt nd ns mode c \<Longrightarrow> fmt_ok nd ns mode \<Longrightarrow> n_frame_bits c = length (uart_frame nd ns mode 0)"
  by (auto simp: n_frame_bits_def has_fmt_def fmt_ok_def uart_frame_def after_data_def parity_field_def tx_parity_value_def)

text \<open>The characters requested fit into the bits requested, so none of them is left in the buffer when it is freed.\<close>

lemma tx_fits_request:
  assumes "tx_ok nd ns mode s" "length msg \<le> tx_n_chars s n" "0 < n"
  shows "tx_fits nd ns mode s msg n"
proof (cases "msg = []")
  case False
  let ?F = "length (uart_frame nd ns mode 0)"
  have F: "n_frame_bits (cfg s) = ?F" using assms(1) n_frame_bits_eq [of nd ns mode "cfg s"] by (simp add: tx_ok_def)
  have pos: "0 < ?F" by (simp add: uart_frame_def)
  have less: "length (tx_rest nd ns mode s) + 1 \<le> ?F" using tx_rest_less [OF assms(1)] by simp
  show ?thesis
  proof (cases "n div ?F = 0")
    case True
    with False assms F have "tx_flow_state s = SUART_FLOW_ST_IDLE" "length msg = 1"
      by (auto simp: tx_n_chars_def Let_def split: if_splits) (cases msg; simp)
    then show ?thesis using assms(3) by (simp add: tx_fits_def tx_rest_def)
  next
    case div: False
    with assms(2) F have "length msg \<le> n div ?F" by (simp add: tx_n_chars_def Let_def)
    then have "length msg * ?F \<le> n" by (metis div_times_less_eq_dividend le_trans mult_le_mono1)
    moreover have "length msg * ?F = ?F + (length msg - 1) * ?F" using False by (cases msg) simp_all
    ultimately show ?thesis using less by (simp add: tx_fits_def)
  qed
qed (simp add: tx_fits_def)

subsection \<open>The receiver\<close>

primrec rx_feed :: "u8 list \<Rightarrow> 'w suart \<Rightarrow> 'w \<Rightarrow> ('w suart \<times> 'w) res" where
  "rx_feed [] s w = Some (s, w)"
| "rx_feed (b # bs) s w = do { (s, w) \<leftarrow> suart_rx_bit s b w; rx_feed bs s w }"

lemma rx_feed_append: "rx_feed (xs @ ys) s w = do { (s, w) \<leftarrow> rx_feed xs s w; rx_feed ys s w }"
  by (induction xs arbitrary: s w) (auto split: Option.bind_split)

lemma for_loop_feed:
  "for_loop (length pre) (length (pre @ bs)) (\<lambda>i (s, w). do { b \<leftarrow> rd (pre @ bs) i; suart_rx_bit s b w }) (s, w) = rx_feed bs s w"
proof (induction bs arbitrary: pre s w)
  case Nil
  then show ?case by (simp add: for_loop_done)
next
  case (Cons b bs)
  have "rd (pre @ b # bs) (length pre) = Some b" by (simp add: rd_def)
  with Cons.IH [of "pre @ [b]"] show ?case
    by (subst for_loop_step) (auto split: option.splits)
qed

lemma rx_ubits_feed: "rx_running s \<Longrightarrow> osmo_soft_uart_rx_ubits s bs (length bs) w = do { (s, w) \<leftarrow> rx_feed bs s w; Some (0, s, w) }"
  using for_loop_feed [of "[]" bs s w] by (simp add: osmo_soft_uart_rx_ubits_def)

definition rx_same :: "'w suart \<Rightarrow> 'w suart \<Rightarrow> bool" where
  "rx_same s s' \<longleftrightarrow> cfg s' = cfg s \<and> rx_running s' = rx_running s \<and> rx_msg s' = rx_msg s \<and> rx_flags s' = rx_flags s \<and>
     rx_timer s' = rx_timer s \<and> rx_timer_cb s' = rx_timer_cb s \<and> tx_flow_state s' = tx_flow_state s"

lemma rx_same_trans: "rx_same s t \<Longrightarrow> rx_same t u \<Longrightarrow> rx_same s u"
  by (simp add: rx_same_def)

text \<open>The shift register after \<open>k\<close> data bits of \<open>c\<close>.\<close>

lemma shift_in:
  fixes c :: u8
  assumes "k < 8"
  shows "drop_bit 1 (push_bit (8 - k) (take_bit k c)) OR (if bit c k then 0x80 else 0) = push_bit (8 - Suc k) (take_bit (Suc k) c)"
proof (rule bit_word_eqI)
  fix i assume "i < LENGTH(8)"
  then have i: "i < 8" by simp
  have b80: "bit (0x80 :: u8) i \<longleftrightarrow> i = 7"
  proof -
    have "list_all (\<lambda>i. bit (0x80 :: u8) i \<longleftrightarrow> i = 7) [0..<8]" by code_simp
    with i show ?thesis by (simp add: list_all_iff)
  qed
  show "bit (drop_bit 1 (push_bit (8 - k) (take_bit k c)) OR (if bit c k then 0x80 else 0)) i =
        bit (push_bit (8 - Suc k) (take_bit (Suc k) c)) i"
  proof (cases "i = 7")
    case True
    with assms show ?thesis
      by (cases "k = 7") (auto simp: bit_or_iff bit_drop_bit_eq bit_push_bit_iff bit_take_bit_iff b80)
  next
    case False
    then have "i < 7" "\<not> bit (if bit c k then 0x80 else 0 :: u8) i" using i b80 by simp_all
    with assms show ?thesis
      by (auto simp: bit_or_iff bit_drop_bit_eq bit_push_bit_iff bit_take_bit_iff less_Suc_eq simp del: if_split)
  qed
qed

lemma align_shift: "n \<le> 8 \<Longrightarrow> drop_bit (8 - n) (push_bit (8 - n) (take_bit n (c :: u8))) = take_bit n c"
  by (rule bit_word_eqI) (auto simp: bit_drop_bit_eq bit_push_bit_iff bit_take_bit_iff)

lemma data_field_drop: "k < 8 \<Longrightarrow> data_field (Suc m) (drop_bit k (c :: u8)) = (if bit c k then 1 else 0) # data_field m (drop_bit (Suc k) c)"
proof -
  have "drop_bit k c AND 1 = (if bit c k then 1 else 0)"
    by (cases rule: parity_cases [of "drop_bit k c"]) (simp_all add: and_one_eq bit_iff_odd_drop_bit)
  then show ?thesis by (simp add: data_field_Suc drop_bit_drop_bit del: drop_bit_Suc)
qed

lemma rx_data_bit:
  assumes "fmt_ok nd ns mode" "has_fmt nd ns mode (cfg s)" "rx_flow_state s = SUART_FLOW_ST_DATA"
    and "unat (rx_bit_count s) = k" "k < nd" "rx_shift_reg s = push_bit (8 - k) (take_bit k c)"
    and "rx_parity_bit s = 0 \<or> rx_parity_bit s = 1"
  shows "\<exists>s'. suart_rx_bit s (if bit c k then 1 else 0) w = Some (s', w) \<and> rx_same s s' \<and> unat (rx_bit_count s') = Suc k \<and>
           rx_parity_bit s' = (if bit c k then 1 else 0) XOR rx_parity_bit s \<and>
           rx_flow_state s' = (if Suc k < nd then SUART_FLOW_ST_DATA else if mode = 0 then SUART_FLOW_ST_STOP else SUART_FLOW_ST_PARITY) \<and>
           rx_shift_reg s' = (if Suc k < nd then push_bit (8 - Suc k) (take_bit (Suc k) c) else take_bit nd c)"
proof -
  have nd: "nd \<le> 8" "k < 8" using assms by (simp_all add: fmt_ok_def)
  then have cnt: "unat (rx_bit_count s + 1) = Suc k" using assms(4) unat_Suc_u8 [of "rx_bit_count s"] by simp
  have le: "num_data_bits (cfg s) \<le> rx_bit_count s + 1 \<longleftrightarrow> \<not> Suc k < nd"
    using assms cnt by (auto simp: word_le_nat_alt has_fmt_def)
  have lt: "num_data_bits (cfg s) < 8 \<longleftrightarrow> nd < 8"
    using assms nd by (simp add: word_less_nat_alt has_fmt_def)
  have sh: "(if bit c k then drop_bit 1 (rx_shift_reg s) OR 0x80 else drop_bit 1 (rx_shift_reg s)) = push_bit (8 - Suc k) (take_bit (Suc k) c)"
    using shift_in [OF nd(2), of c] assms(6) by (cases "bit c k") simp_all
  have al: "nd = Suc k \<Longrightarrow> drop_bit (8 - nd) (push_bit (8 - Suc k) (take_bit (Suc k) c)) = take_bit nd c"
    using align_shift [OF nd(1), of c] by simp
  have pm: "parity_mode (cfg s) = mode" "unat (num_data_bits (cfg s)) = nd" using assms(2) by (simp_all add: has_fmt_def)
  have fl: "flip (rx_parity_bit s) = 1 XOR rx_parity_bit s" using assms(7) by (auto simp: flip_def)
  show ?thesis
  proof (cases "Suc k < nd")
    case True
    with assms(3) sh cnt le fl show ?thesis by (cases "bit c k") (simp_all add: suart_rx_bit_def Let_def rx_same_def)
  next
    case False
    then have e: "nd = Suc k" using assms(5) by simp
    have full: "\<not> nd < 8 \<Longrightarrow> push_bit (8 - Suc k) (take_bit (Suc k) c) = take_bit nd c" using e nd by simp
    show ?thesis using assms(3) sh cnt le fl lt al [OF e] full e
      by (cases "bit c k"; cases "nd < 8") (simp_all add: suart_rx_bit_def Let_def rx_same_def pm)
  qed
qed

lemma rx_data:
  assumes "fmt_ok nd ns mode" "has_fmt nd ns mode (cfg s)" "rx_flow_state s = SUART_FLOW_ST_DATA"
    and "unat (rx_bit_count s) = k" "k + Suc m = nd" "rx_shift_reg s = push_bit (8 - k) (take_bit k c)"
    and "rx_parity_bit s = 0 \<or> rx_parity_bit s = 1"
  shows "\<exists>s'. rx_feed (data_field (Suc m) (drop_bit k c)) s w = Some (s', w) \<and> rx_same s s' \<and> unat (rx_bit_count s') = nd \<and>
           rx_parity_bit s' = fold (XOR) (data_field (Suc m) (drop_bit k c)) (rx_parity_bit s) \<and>
           rx_flow_state s' = (if mode = 0 then SUART_FLOW_ST_STOP else SUART_FLOW_ST_PARITY) \<and> rx_shift_reg s' = take_bit nd c"
  using assms
proof (induction m arbitrary: s k)
  case 0
  then have "k < 8" by (simp add: fmt_ok_def)
  with 0 rx_data_bit [OF 0(1-4) _ 0(6,7), of w] show ?case by (auto simp: data_field_drop)
next
  case (Suc m)
  then have k: "k < 8" "k < nd" by (simp_all add: fmt_ok_def)
  obtain s1 where s1: "suart_rx_bit s (if bit c k then 1 else 0) w = Some (s1, w)" "rx_same s s1" "unat (rx_bit_count s1) = Suc k"
    "rx_parity_bit s1 = (if bit c k then 1 else 0) XOR rx_parity_bit s" "rx_flow_state s1 = SUART_FLOW_ST_DATA"
    "rx_shift_reg s1 = push_bit (8 - Suc k) (take_bit (Suc k) c)"
    using rx_data_bit [OF Suc.prems(1-4) k(2) Suc.prems(6,7), of w] Suc.prems(5) by auto
  have "has_fmt nd ns mode (cfg s1)" "Suc k + Suc m = nd" "rx_parity_bit s1 = 0 \<or> rx_parity_bit s1 = 1"
    using s1(2,4) Suc.prems by (auto simp: rx_same_def)
  from Suc.IH [OF Suc.prems(1) this(1) s1(5,3) this(2) s1(6) this(3)] s1
  show ?case using data_field_drop [OF k(1), of "Suc m" c] rx_same_trans [OF s1(2)] by auto
qed

text \<open>An application that logs what it is handed.\<close>

definition to_log :: "u8 list \<Rightarrow> u32 \<Rightarrow> (u8 list \<times> u32) list \<Rightarrow> (u8 list \<times> u32) list" where
  "to_log cs fl log = log @ [(cs, fl)]"

definition rx_got :: "'w suart \<Rightarrow> (u8 list \<times> u32) list \<Rightarrow> u8 list" where
  "rx_got s log = concat (map fst log) @ (case rx_msg s of None \<Rightarrow> [] | Some m \<Rightarrow> chars m)"

definition rx_ready :: "nat \<Rightarrow> nat \<Rightarrow> int \<Rightarrow> (u8 list \<times> u32) list suart \<Rightarrow> bool" where
  "rx_ready nd ns mode s \<longleftrightarrow> fmt_ok nd ns mode \<and> has_fmt nd ns mode (cfg s) \<and> rx_running s \<and> rx_cb (cfg s) = Some to_log \<and>
     rx_buf_size (cfg s) < 65536 \<and> (\<exists>m. rx_msg s = Some m \<and> room m = rx_buf_size (cfg s) \<and> length (chars m) < room m)"

definition clean :: "(u8 list \<times> u32) list \<Rightarrow> bool" where
  "clean log \<longleftrightarrow> list_all (\<lambda>e. snd e = 0) log"

lemma rx_ready_same: "rx_ready nd ns mode s \<Longrightarrow> rx_same s s' \<Longrightarrow> rx_ready nd ns mode s' \<and> rx_got s' log = rx_got s log \<and> rx_flags s' = rx_flags s"
  by (simp add: rx_ready_def rx_same_def rx_got_def)

lemma rx_ch_got:
  assumes "rx_ready nd ns mode s" "rx_flags s = 0" "clean log"
  shows "\<exists>s' log'. suart_rx_ch s ch log = Some (s', log') \<and> rx_ready nd ns mode s' \<and> clean log' \<and>
           rx_got s' log' = rx_got s log @ [ch]"
  using assms
  by (auto simp: suart_rx_ch_def Let_def osmo_soft_uart_flush_rx_def rx_ready_def rx_got_def to_log_def clean_def uart_msg_alloc_def)

lemma rx_parity:
  assumes "fmt_ok nd ns mode" "has_fmt nd ns mode (cfg s)" "rx_parity_bit s = 0 \<or> rx_parity_bit s = 1"
    and "rx_flow_state s = (if mode = 0 then SUART_FLOW_ST_STOP else SUART_FLOW_ST_PARITY)"
  shows "\<exists>s'. rx_feed (parity_field mode (rx_parity_bit s)) s w = Some (s', w) \<and> rx_same s s' \<and>
           rx_flow_state s' = SUART_FLOW_ST_STOP \<and> rx_bit_count s' = rx_bit_count s \<and> rx_shift_reg s' = rx_shift_reg s"
proof (cases "mode = 0")
  case True
  with assms show ?thesis by (simp add: parity_field_def tx_parity_value_def rx_same_def)
next
  case False
  then have "mode = 1 \<or> mode = 2 \<or> mode = 3 \<or> mode = 4" using assms(1) by (auto simp: fmt_ok_def)
  then obtain v where "tx_parity_value mode (rx_parity_bit s) = Some v" "rx_parity_wrong mode (rx_parity_bit s) v = Some False"
    using assms(3) by (auto simp: tx_parity_value_def rx_parity_wrong_def flip_def)
  moreover have "parity_mode (cfg s) = mode" using assms(2) by (simp add: has_fmt_def)
  ultimately show ?thesis using False assms(4)
    by (simp add: parity_field_def suart_rx_bit_def Let_def rx_same_def)
qed

lemma rx_stop:
  assumes "rx_ready nd ns mode s" "rx_flags s = 0" "clean log" "rx_flow_state s = SUART_FLOW_ST_STOP"
    and "unat (rx_bit_count s) + Suc m = nd + ns"
  shows "\<exists>s' log'. rx_feed (replicate (Suc m) 1) s log = Some (s', log') \<and> rx_ready nd ns mode s' \<and> clean log' \<and>
           rx_flow_state s' = SUART_FLOW_ST_IDLE \<and> rx_got s' log' = rx_got s log @ [rx_shift_reg s]"
  using assms
proof (induction m arbitrary: s)
  case 0
  have b: "nd + ns \<le> 255" "unat (num_data_bits (cfg s)) + unat (num_stop_bits (cfg s)) = nd + ns"
    using 0(1) by (auto simp: rx_ready_def fmt_ok_def has_fmt_def)
  then have c: "unat (rx_bit_count s + 1) = nd + ns" using 0(5) unat_Suc_u8 [of "rx_bit_count s"] by simp
  let ?s = "s\<lparr>rx_bit_count := rx_bit_count s + 1\<rparr>"
  have r: "rx_ready nd ns mode ?s" "rx_got ?s log = rx_got s log" "rx_flags ?s = 0" "rx_shift_reg ?s = rx_shift_reg s"
    using 0(1,2) by (simp_all add: rx_ready_def rx_got_def)
  obtain s' log' where s': "suart_rx_ch ?s (rx_shift_reg s) log = Some (s', log')" "rx_ready nd ns mode s'" "clean log'"
    "rx_got s' log' = rx_got s log @ [rx_shift_reg s]"
    using rx_ch_got [OF r(1,3) 0(3), of "rx_shift_reg s"] r(2) by auto
  have "rx_ready nd ns mode (s'\<lparr>rx_flow_state := SUART_FLOW_ST_IDLE\<rparr>)" "rx_got (s'\<lparr>rx_flow_state := SUART_FLOW_ST_IDLE\<rparr>) log' = rx_got s' log'"
    using s'(2) by (simp_all add: rx_ready_def rx_got_def)
  with s' 0(4) b c show ?case by (simp add: suart_rx_bit_def Let_def)
next
  case (Suc m)
  have b: "nd + ns \<le> 255" "unat (num_data_bits (cfg s)) + unat (num_stop_bits (cfg s)) = nd + ns"
    using Suc.prems(1) by (auto simp: rx_ready_def fmt_ok_def has_fmt_def)
  then have c: "unat (rx_bit_count s + 1) = Suc (unat (rx_bit_count s))" using Suc.prems(5) by (intro unat_Suc_u8) simp
  let ?s = "s\<lparr>rx_bit_count := rx_bit_count s + 1\<rparr>"
  have "suart_rx_bit s 1 log = Some (?s, log)" using Suc.prems(4,5) b c by (simp add: suart_rx_bit_def Let_def)
  moreover have r: "rx_ready nd ns mode ?s" "rx_got ?s log = rx_got s log"
    using Suc.prems(1) by (simp_all add: rx_ready_def rx_got_def)
  ultimately show ?case using Suc.IH [OF r(1)] Suc.prems c r(2) by simp
qed

text \<open>One character, from idle to idle.\<close>

lemma rx_character:
  assumes "rx_ready nd ns mode s" "clean log" "rx_flow_state s = SUART_FLOW_ST_IDLE"
  shows "\<exists>s' log'. rx_feed (uart_frame nd ns mode c) s log = Some (s', log') \<and> rx_ready nd ns mode s' \<and> clean log' \<and>
           rx_flow_state s' = SUART_FLOW_ST_IDLE \<and> rx_got s' log' = rx_got s log @ [take_bit nd c]"
proof -
  have f: "fmt_ok nd ns mode" "has_fmt nd ns mode (cfg s)" using assms(1) by (simp_all add: rx_ready_def)
  obtain m k where nd: "nd = Suc m" "ns = Suc k" using f(1) by (cases nd; cases ns) (auto simp: fmt_ok_def)
  let ?s0 = "s\<lparr>rx_flow_state := SUART_FLOW_ST_DATA, rx_flags := 0, rx_shift_reg := 0, rx_bit_count := 0, rx_parity_bit := 0\<rparr>"
  have 0: "suart_rx_bit s 0 log = Some (?s0, log)" using assms(3) by (simp add: suart_rx_bit_def)
  have r0: "rx_ready nd ns mode ?s0" "rx_got ?s0 log = rx_got s log" using assms(1) by (simp_all add: rx_ready_def rx_got_def)
  obtain s1 where s1: "rx_feed (data_field nd c) ?s0 log = Some (s1, log)" "rx_same ?s0 s1" "unat (rx_bit_count s1) = nd"
    "rx_parity_bit s1 = fold (XOR) (data_field nd c) 0" "rx_flow_state s1 = (if mode = 0 then SUART_FLOW_ST_STOP else SUART_FLOW_ST_PARITY)"
    "rx_shift_reg s1 = take_bit nd c"
    using rx_data [OF f(1), of ?s0 0 m c log] f(2) nd(1) by auto
  have p: "rx_parity_bit s1 = 0 \<or> rx_parity_bit s1 = 1" using s1(4) fold_xor_bit [of "data_field nd c" 0] data_field_bits by auto
  have r1: "rx_ready nd ns mode s1" "rx_got s1 log = rx_got s log" "rx_flags s1 = 0"
    using rx_ready_same [OF r0(1) s1(2), of log] r0(2) by simp_all
  obtain s2 where s2: "rx_feed (parity_field mode (rx_parity_bit s1)) s1 log = Some (s2, log)" "rx_same s1 s2"
    "rx_flow_state s2 = SUART_FLOW_ST_STOP" "rx_bit_count s2 = rx_bit_count s1" "rx_shift_reg s2 = rx_shift_reg s1"
    using rx_parity [OF f(1) _ p s1(5), of log] r1(1) by (auto simp: rx_ready_def)
  have r2: "rx_ready nd ns mode s2" "rx_got s2 log = rx_got s log" "rx_flags s2 = 0"
    using rx_ready_same [OF r1(1) s2(2), of log] r1 by simp_all
  from rx_stop [OF r2(1,3) assms(2) s2(3), of k] r2(2) s1(3,6) s2(4,5) nd(2)
  show ?thesis using 0 s1(1,4) s2(1) nd(2) by (auto simp: uart_frame_def after_data_def rx_feed_append)
qed

lemma rx_line:
  assumes "uart_line nd ns mode bs cs" "rx_ready nd ns mode s" "rx_flow_state s = SUART_FLOW_ST_IDLE" "clean log"
  shows "\<exists>s' log'. rx_feed bs s log = Some (s', log') \<and> rx_ready nd ns mode s' \<and> clean log' \<and>
           rx_flow_state s' = SUART_FLOW_ST_IDLE \<and> rx_got s' log' = rx_got s log @ map (take_bit nd) cs"
  using assms
proof (induction)
  case line_nil
  then show ?case by simp
next
  case (line_idle bs cs)
  then obtain s' log' where "rx_feed bs s log = Some (s', log')" "rx_ready nd ns mode s'" "clean log'"
    "rx_flow_state s' = SUART_FLOW_ST_IDLE" "rx_got s' log' = rx_got s log @ map (take_bit nd) cs" by blast
  then show ?case by (simp add: rx_feed_append suart_rx_bit_def)
next
  case (line_char bs cs c)
  then obtain s' log' where "rx_feed bs s log = Some (s', log')" "rx_ready nd ns mode s'" "clean log'"
    "rx_flow_state s' = SUART_FLOW_ST_IDLE" "rx_got s' log' = rx_got s log @ map (take_bit nd) cs" by blast
  then show ?case using rx_character [of nd ns mode s' log' c] by (auto simp: rx_feed_append)
qed

subsection \<open>A sender and a receiver\<close>

text \<open>Requests of the given sizes, and the bits they return.\<close>

primrec tx_calls :: "nat list \<Rightarrow> 'w suart \<Rightarrow> 'w \<Rightarrow> (u8 list \<times> 'w suart \<times> 'w) res" where
  "tx_calls [] s w = Some ([], s, w)"
| "tx_calls (n # ns) s w = do {
     (rc, s, ubits, w) \<leftarrow> osmo_soft_uart_tx_ubits s (replicate n 0) n w;
     (bs, s, w) \<leftarrow> tx_calls ns s w;
     Some (take (nat rc) ubits @ bs, s, w) }"

text \<open>Bits delivered in pieces; every call must succeed.\<close>

primrec rx_calls :: "u8 list list \<Rightarrow> 'w suart \<Rightarrow> 'w \<Rightarrow> ('w suart \<times> 'w) res" where
  "rx_calls [] s w = Some (s, w)"
| "rx_calls (p # ps) s w = do {
     (rc, s, w) \<leftarrow> osmo_soft_uart_rx_ubits s p (length p) w;
     if rc = 0 then rx_calls ps s w else None }"

lemma suart_rx_bit_running: "suart_rx_bit s b w = Some (s', w') \<Longrightarrow> rx_running s' = rx_running s"
  by (auto simp: suart_rx_bit_def suart_rx_ch_def osmo_soft_uart_flush_rx_def Let_def bind_eq_Some_conv
      split: flow_state.splits if_splits option.splits)

lemma rx_feed_running: "rx_feed bs s w = Some (s', w') \<Longrightarrow> rx_running s' = rx_running s"
  by (induction bs arbitrary: s w) (auto simp: bind_eq_Some_conv dest: suart_rx_bit_running)

lemma rx_calls_feed: "rx_running s \<Longrightarrow> rx_calls ps s w = rx_feed (concat ps) s w"
proof (induction ps arbitrary: s w)
  case (Cons p ps)
  then show ?case
    by (cases "rx_feed p s w") (auto simp: rx_ubits_feed rx_feed_append dest: rx_feed_running)
qed simp

lemma tx_call:
  assumes "tx_ok nd ns mode s" "uart_line nd ns mode (out @ tx_rest nd ns mode s) cs" "0 < n" "tx_running s" "\<not> tx_suspended s"
    and "tx_cb (cfg s) = Some from_queue"
  shows "\<exists>bs s'. osmo_soft_uart_tx_ubits s (replicate n 0) n q = Some (int n, s', bs, drop (room (uart_msg_alloc (tx_n_chars s n))) q) \<and>
           length bs = n \<and> tx_ok nd ns mode s' \<and>
           uart_line nd ns mode ((out @ bs) @ tx_rest nd ns mode s') (cs @ take (room (uart_msg_alloc (tx_n_chars s n))) q) \<and>
           cfg s' = cfg s \<and> status s' = status s \<and> tx_running s' = tx_running s"
proof -
  let ?k = "room (uart_msg_alloc (tx_n_chars s n))"
  have k: "?k \<le> tx_n_chars s n" by (simp add: uart_msg_alloc_def)
  have fetch: "tx_fetch s (tx_n_chars s n) q = Some (take ?k q, drop ?k q)"
    using assms(6) by (cases "tx_n_chars s n = 0") (simp_all add: tx_fetch_def from_queue_def uart_msg_alloc_def)
  have "tx_fits nd ns mode s (take ?k q) n" using k assms(1,3) by (intro tx_fits_request) simp_all
  from tx_pull_line [OF assms(1,2) this] obtain bs s' where p: "tx_pull n s (take ?k q) = Some (bs, s', [])" "length bs = n"
    "tx_ok nd ns mode s'" "uart_line nd ns mode ((out @ bs) @ tx_rest nd ns mode s') (cs @ take ?k q)"
    "cfg s' = cfg s" "status s' = status s" "tx_running s' = tx_running s" by blast
  have "tx_take s (replicate n 0) n (take ?k q) = Some (s', bs, [])"
    using tx_take_pull [of "replicate n 0" 0 n s "take ?k q" bs s' "[]"] p(1) by (simp add: tx_take_def)
  with fetch p assms show ?thesis by (simp add: osmo_soft_uart_tx_ubits_def)
qed

lemma tx_suspended_same: "cfg s' = cfg s \<Longrightarrow> status s' = status s \<Longrightarrow> tx_suspended s' = tx_suspended s"
  by (simp add: tx_suspended_def)

lemma tx_calls_line:
  assumes "tx_ok nd ns mode s" "uart_line nd ns mode (out @ tx_rest nd ns mode s) cs" "list_all ((<) 0) reqs" "tx_running s"
    and "\<not> tx_suspended s" "tx_cb (cfg s) = Some from_queue"
  shows "\<exists>bs s' taken q'. tx_calls reqs s q = Some (bs, s', q') \<and> q = taken @ q' \<and> length bs = sum_list reqs \<and> tx_ok nd ns mode s' \<and>
           uart_line nd ns mode ((out @ bs) @ tx_rest nd ns mode s') (cs @ taken) \<and>
           (list_all (\<lambda>n. n_frame_bits (cfg s) \<le> n \<and> n < 65536) reqs \<and> length q \<le> length reqs \<longrightarrow> q' = []) \<and>
           cfg s' = cfg s \<and> status s' = status s \<and> tx_running s' = tx_running s"
  using assms
proof (induction reqs arbitrary: s out cs q)
  case Nil
  then show ?case by simp
next
  case (Cons n reqs)
  let ?k = "room (uart_msg_alloc (tx_n_chars s n))"
  obtain bs s1 where 1: "osmo_soft_uart_tx_ubits s (replicate n 0) n q = Some (int n, s1, bs, drop ?k q)"
    "length bs = n" "tx_ok nd ns mode s1" "uart_line nd ns mode ((out @ bs) @ tx_rest nd ns mode s1) (cs @ take ?k q)"
    "cfg s1 = cfg s" "status s1 = status s" "tx_running s1 = tx_running s"
    using tx_call [OF Cons.prems(1,2) _ Cons.prems(4,5,6), of n q] Cons.prems(3) by auto
  have "list_all ((<) 0) reqs" "tx_running s1" "\<not> tx_suspended s1" "tx_cb (cfg s1) = Some from_queue"
    using Cons.prems 1 tx_suspended_same [OF 1(5,6)] by simp_all
  from Cons.IH [OF 1(3,4) this, of "drop ?k q"] obtain bs' s2 taken q' where 2:
    "tx_calls reqs s1 (drop ?k q) = Some (bs', s2, q')" "drop ?k q = taken @ q'" "length bs' = sum_list reqs" "tx_ok nd ns mode s2"
    "uart_line nd ns mode (((out @ bs) @ bs') @ tx_rest nd ns mode s2) ((cs @ take ?k q) @ taken)"
    "list_all (\<lambda>n. n_frame_bits (cfg s1) \<le> n \<and> n < 65536) reqs \<and> length (drop ?k q) \<le> length reqs \<longrightarrow> q' = []"
    "cfg s2 = cfg s1" "status s2 = status s1" "tx_running s2 = tx_running s1" by blast
  have prog: "0 < ?k" if "n_frame_bits (cfg s) \<le> n" "n < 65536"
  proof -
    have "0 < n_frame_bits (cfg s)" by (simp add: n_frame_bits_def)
    then have "0 < n div n_frame_bits (cfg s)" using that by (simp add: div_greater_zero_iff)
    moreover have "n div n_frame_bits (cfg s) < 65536" using that(2) div_le_dividend le_less_trans by blast
    ultimately show ?thesis by (simp add: uart_msg_alloc_def tx_n_chars_def Let_def)
  qed
  have "q = (take ?k q @ taken) @ q'" using 2(2) append_take_drop_id [of ?k q] by simp
  moreover have "tx_calls (n # reqs) s q = Some (bs @ bs', s2, q')" using 1 2 by simp
  moreover have "list_all (\<lambda>n. n_frame_bits (cfg s) \<le> n \<and> n < 65536) (n # reqs) \<and> length q \<le> length (n # reqs) \<longrightarrow> q' = []"
    using 2(6) 1(5) prog by auto
  ultimately show ?case using 1 2 by (intro exI [of _ "bs @ bs'"] exI [of _ s2] exI [of _ "take ?k q @ taken"] exI [of _ q']) simp
qed

text \<open>With the transmitter suspended, a request of a whole character returns what is left of the current one.\<close>

lemma tx_drain:
  assumes "tx_ok nd ns mode s" "length (tx_rest nd ns mode s) < n" "length ubits = i + n"
  shows "\<exists>s'. for_break i (i + n) (\<lambda>i (s, ubits). if tx_flow_state s = SUART_FLOW_ST_IDLE then Some (Inl (i, s, ubits))
            else do { (b, s, _) \<leftarrow> suart_tx_bit s []; ubits \<leftarrow> wr ubits i b; Some (Inr (s, ubits)) }) (s, ubits) =
          Some (Inl (i + length (tx_rest nd ns mode s), s', take i ubits @ tx_rest nd ns mode s @ drop (i + length (tx_rest nd ns mode s)) ubits)) \<and>
          tx_flow_state s' = SUART_FLOW_ST_IDLE"
  using assms
proof (induction n arbitrary: i s ubits)
  case (Suc n)
  show ?case
  proof (cases "tx_flow_state s = SUART_FLOW_ST_IDLE")
    case True
    then show ?thesis by (simp add: for_break_step tx_rest_def)
  next
    case False
    obtain b s1 where 1: "suart_tx_bit s [] = Some (b, s1, [])" "tx_ok nd ns mode s1" "tx_rest nd ns mode s = b # tx_rest nd ns mode s1"
      using tx_bit_busy [OF Suc.prems(1) False, of "[]"] by blast
    have t: "take (Suc i) (ubits[i := b]) = take i ubits @ [b]" using Suc.prems(3) by (simp add: take_Suc_conv_app_nth)
    have "length (tx_rest nd ns mode s1) < n" "length (ubits[i := b]) = Suc i + n" using Suc.prems 1 by simp_all
    from Suc.IH [OF 1(2) this] obtain s' where "for_break (Suc i) (Suc i + n) (\<lambda>i (s, ubits). if tx_flow_state s = SUART_FLOW_ST_IDLE
              then Some (Inl (i, s, ubits))
            else do { (b, s, _) \<leftarrow> suart_tx_bit s []; ubits \<leftarrow> wr ubits i b; Some (Inr (s, ubits)) }) (s1, ubits[i := b]) =
          Some (Inl (i + length (tx_rest nd ns mode s), s', take i ubits @ tx_rest nd ns mode s @ drop (i + length (tx_rest nd ns mode s)) ubits))"
      "tx_flow_state s' = SUART_FLOW_ST_IDLE"
      using t 1(3) by auto
    then show ?thesis using False 1(1) Suc.prems(3) by (intro exI [of _ s']) (simp add: for_break_step wr_def)
  qed
qed simp

lemma tx_pending_rest:
  assumes "tx_ok nd ns mode s" "length (tx_rest nd ns mode s) < n"
  shows "\<exists>s' ubits. suart_tx_pending s (replicate n 0) n = Some (length (tx_rest nd ns mode s), s', ubits) \<and>
           take (length (tx_rest nd ns mode s)) ubits = tx_rest nd ns mode s \<and> tx_flow_state s' = SUART_FLOW_ST_IDLE"
  using tx_drain [OF assms, of "replicate n 0" 0] by (auto simp: suart_tx_pending_def)

definition uart_sender :: "'w suart_cfg \<Rightarrow> 'w \<Rightarrow> 'w suart" where
  "uart_sender c w =
     osmo_soft_uart_set_tx (fst (osmo_soft_uart_set_status_line (fst (uart_init c w)) OSMO_SUART_STATUS_F_CTS True w)) True"

definition uart_receiver :: "'w suart_cfg \<Rightarrow> 'w \<Rightarrow> 'w suart" where
  "uart_receiver c w = fst (osmo_soft_uart_set_rx (fst (uart_init c w)) True w)"

lemma cts_line:
  "(NOT x AND - 33) AND (32 :: u32) = 0" "NOT (x AND NOT (32 :: u32)) AND 32 \<noteq> 0"
proof -
  show "(NOT x AND - 33) AND (32 :: u32) = 0" by (simp add: and.assoc)
  have "NOT (x AND NOT (32 :: u32)) AND 32 = 32" by (simp add: bit.conj_disj_distrib2)
  then show "NOT (x AND NOT (32 :: u32)) AND 32 \<noteq> 0" by simp
qed

lemma tx_status_update [simp]:
  "tx_ok nd ns mode (s\<lparr>status := x\<rparr>) = tx_ok nd ns mode s" "tx_rest nd ns mode (s\<lparr>status := x\<rparr>) = tx_rest nd ns mode s"
  by (cases "tx_flow_state s"; simp add: tx_ok_def tx_rest_def)+

lemma uart_init_alloc: "rx_msg (fst (uart_init c w)) = None \<and> cfg (fst (uart_init c w)) = c \<and> tx_flow_state (fst (uart_init c w)) = SUART_FLOW_ST_IDLE \<and>
  \<not> tx_running (fst (uart_init c w)) \<and> \<not> rx_running (fst (uart_init c w)) \<and> rx_flow_state (fst (uart_init c w)) = SUART_FLOW_ST_IDLE"
  by (simp add: uart_init_def osmo_soft_uart_configure_def osmo_soft_uart_alloc_def)

lemma uart_sender_ready:
  assumes "fmt_ok nd ns mode" "has_fmt nd ns mode c" "flow_ctrl_mode c = OSMO_SUART_FLOW_CTRL_RTS_CTS"
  shows "tx_ok nd ns mode (uart_sender c w) \<and> tx_rest nd ns mode (uart_sender c w) = [] \<and> tx_running (uart_sender c w) \<and>
         \<not> tx_suspended (uart_sender c w) \<and> cfg (uart_sender c w) = c"
  using assms uart_init_alloc [of c w]
  by (simp add: uart_sender_def osmo_soft_uart_set_tx_def osmo_soft_uart_set_status_line_def osmo_soft_uart_set_status_def
      tx_ok_def tx_rest_def tx_suspended_def cts_line)

lemma uart_receiver_ready:
  assumes "fmt_ok nd ns mode" "has_fmt nd ns mode c" "rx_cb c = Some to_log" "0 < rx_buf_size c" "rx_buf_size c < 65536"
  shows "rx_ready nd ns mode (uart_receiver c w) \<and> rx_flow_state (uart_receiver c w) = SUART_FLOW_ST_IDLE \<and> rx_got (uart_receiver c w) [] = []"
  using assms uart_init_alloc [of c w]
  by (simp add: uart_receiver_def osmo_soft_uart_set_rx_def Let_def rx_ready_def rx_got_def uart_msg_alloc_def)

text \<open>C12: characters pass from a sender to a receiver of the same format. Whatever numbers of bits are requested from the
  sender, it takes characters from its application, none of them is lost, and it takes at least one per request of a
  whole character. When the peer then de-asserts CTS, one more request returns the rest of the current character and the
  sender is idle. All these bits, delivered to the receiver in pieces of any sizes, give the application of the receiver,
  through its call-back and what waits in its buffer, exactly the characters taken, cut to the data bits of the format,
  and no error is flagged. The format has at most 255 data and stop bits together.\<close>

theorem uart_transfers:
  assumes "fmt_ok nd ns mode" "has_fmt nd ns mode ct" "has_fmt nd ns mode cr"
    and "tx_cb ct = Some from_queue" "flow_ctrl_mode ct = OSMO_SUART_FLOW_CTRL_RTS_CTS"
    and "rx_cb cr = Some to_log" "0 < rx_buf_size cr" "rx_buf_size cr < 65536" "list_all ((<) 0) reqs"
  shows "\<exists>bits s s' rest ubits q' taken. tx_calls reqs (uart_sender ct q) q = Some (bits, s, q') \<and> length bits = sum_list reqs \<and>
           q = taken @ q' \<and>
           (list_all (\<lambda>n. n_frame_bits ct \<le> n \<and> n < 65536) reqs \<and> length q \<le> length reqs \<longrightarrow> q' = []) \<and>
           osmo_soft_uart_tx_ubits (fst (osmo_soft_uart_set_status_line s OSMO_SUART_STATUS_F_CTS False q'))
             (replicate (n_frame_bits ct) 0) (n_frame_bits ct) q' = Some (int (length rest), s', ubits, q') \<and>
           take (length rest) ubits = rest \<and> tx_flow_state s' = SUART_FLOW_ST_IDLE \<and>
           (\<forall>pieces. concat pieces = bits @ rest \<longrightarrow>
              (\<exists>r log. rx_calls pieces (uart_receiver cr []) [] = Some (r, log) \<and> rx_got r log = map (take_bit nd) taken \<and> clean log))"
proof -
  let ?s = "uart_sender ct q" and ?F = "n_frame_bits ct"
  have snd: "tx_ok nd ns mode ?s" "tx_rest nd ns mode ?s = []" "tx_running ?s" "\<not> tx_suspended ?s" "cfg ?s = ct"
    using uart_sender_ready [OF assms(1,2,5)] by blast+
  have "uart_line nd ns mode ([] @ tx_rest nd ns mode ?s) []" using snd(2) line_nil by simp
  moreover have "tx_cb (cfg ?s) = Some from_queue" using assms(4) snd(5) by simp
  ultimately have "\<exists>bs s' taken q'. tx_calls reqs ?s q = Some (bs, s', q') \<and> q = taken @ q' \<and> length bs = sum_list reqs \<and>
      tx_ok nd ns mode s' \<and> uart_line nd ns mode (bs @ tx_rest nd ns mode s') taken \<and>
      (list_all (\<lambda>n. n_frame_bits ct \<le> n \<and> n < 65536) reqs \<and> length q \<le> length reqs \<longrightarrow> q' = []) \<and> cfg s' = ct \<and> tx_running s'"
    using tx_calls_line [OF snd(1) _ assms(9) snd(3,4), of "[]" "[]" q] snd(3,5) by (simp only: append_Nil simp_thms) blast
  then obtain bits s taken q' where 1: "tx_calls reqs ?s q = Some (bits, s, q')" "q = taken @ q'" "length bits = sum_list reqs" "tx_ok nd ns mode s"
    "uart_line nd ns mode (bits @ tx_rest nd ns mode s) taken"
    "list_all (\<lambda>n. n_frame_bits ct \<le> n \<and> n < 65536) reqs \<and> length q \<le> length reqs \<longrightarrow> q' = []" "cfg s = ct" "tx_running s"
    by blast
  let ?rest = "tx_rest nd ns mode s" and ?t = "fst (osmo_soft_uart_set_status_line s OSMO_SUART_STATUS_F_CTS False q')"
  have t: "tx_ok nd ns mode ?t" "tx_rest nd ns mode ?t = ?rest" "tx_running ?t" "tx_suspended ?t"
    using 1(4,7,8) assms(5) by (simp_all add: osmo_soft_uart_set_status_line_def osmo_soft_uart_set_status_def tx_suspended_def cts_line)
  have F: "length ?rest < ?F" "0 < ?F" using tx_rest_less [OF 1(4)] n_frame_bits_eq [OF assms(2,1)] by (simp_all add: uart_frame_def)
  obtain s' ubits where "suart_tx_pending ?t (replicate ?F 0) ?F = Some (length ?rest, s', ubits)" "take (length ?rest) ubits = ?rest"
    "tx_flow_state s' = SUART_FLOW_ST_IDLE"
    using tx_pending_rest [OF t(1), of ?F] F(1) t(2) by auto
  moreover from this have "osmo_soft_uart_tx_ubits ?t (replicate ?F 0) ?F q' = Some (int (length ?rest), s', ubits, q')"
    using t(3,4) F(2) by (simp add: osmo_soft_uart_tx_ubits_def)
  moreover have "\<exists>r log. rx_calls pieces (uart_receiver cr []) [] = Some (r, log) \<and> rx_got r log = map (take_bit nd) taken \<and> clean log"
    if "concat pieces = bits @ ?rest" for pieces
  proof -
    have r: "rx_ready nd ns mode (uart_receiver cr [])" "rx_flow_state (uart_receiver cr []) = SUART_FLOW_ST_IDLE" "rx_got (uart_receiver cr []) [] = []"
      using uart_receiver_ready [OF assms(1,3,6,7,8)] by blast+
    have "clean []" by (simp add: clean_def)
    from rx_line [OF 1(5) r(1,2) this] r(1,3) that show ?thesis
      by (auto simp: rx_calls_feed rx_ready_def)
  qed
  ultimately show ?thesis using 1 by blast
qed

theorem uart_transfers_witness:
  "\<exists>bits s q' taken. tx_calls [3, 11, 25, 40] (uart_sender (osmo_soft_uart_default_cfg\<lparr>num_data_bits := 7, parity_mode := 2,
       tx_cb := Some from_queue, flow_ctrl_mode := 2\<rparr>) [72, 105, 200]) [72, 105, 200] = Some (bits, s, q') \<and> [72, 105, 200] = taken @ q'"
proof -
  let ?c = "osmo_soft_uart_default_cfg\<lparr>num_data_bits := 7, parity_mode := 2, tx_cb := Some from_queue, flow_ctrl_mode := 2\<rparr>"
  let ?r = "osmo_soft_uart_default_cfg\<lparr>num_data_bits := 7, parity_mode := 2, rx_cb := Some to_log\<rparr>"
  have "fmt_ok 7 1 2" "has_fmt 7 1 2 ?c" "has_fmt 7 1 2 ?r" "tx_cb ?c = Some from_queue" "flow_ctrl_mode ?c = 2" "rx_cb ?r = Some to_log"
    "0 < rx_buf_size ?r" "rx_buf_size ?r < 65536" "list_all ((<) 0) [3, 11, 25, 40 :: nat]"
    by (simp_all add: fmt_ok_def has_fmt_def osmo_soft_uart_default_cfg_def)
  from uart_transfers [OF this, of "[72, 105, 200]"] show ?thesis by blast
qed

subsection \<open>Configurations that break it\<close>

definition small_cfg :: "nat \<Rightarrow> unit suart_cfg" where
  "small_cfg n = osmo_soft_uart_default_cfg\<lparr>rx_buf_size := n, rx_timeout_ms := 1\<rparr>"

definition frames :: "u8 list \<Rightarrow> u8 list" where
  "frames cs = concat (map (uart_frame 8 1 0) cs)"

text \<open>A receiver reconfigured between two deliveries.\<close>

definition rx_reconfigured :: "unit suart_cfg \<Rightarrow> u8 list \<Rightarrow> unit suart_cfg \<Rightarrow> u8 list \<Rightarrow> (int \<times> unit suart) res" where
  "rx_reconfigured c bs c' bs' = do {
     (s, w) \<leftarrow> rx_feed bs (uart_receiver c ()) ();
     let (rc, s, w) = osmo_soft_uart_configure s c' w;
     (s, w) \<leftarrow> rx_feed bs' s w;
     Some (rc, s) }"

lemma tx_stuck:
  assumes "255 < unat (num_data_bits (cfg s)) + unat (num_stop_bits (cfg s))" "tx_flow_state s = SUART_FLOW_ST_STOP"
  shows "\<exists>s'. tx_pull n s msg = Some (replicate n 1, s', msg) \<and> tx_flow_state s' = SUART_FLOW_ST_STOP"
  using assms
proof (induction n arbitrary: s)
  case (Suc n)
  let ?s = "s\<lparr>tx_bit_count := tx_bit_count s + 1\<rparr>"
  have "unat (tx_bit_count s + 1) < 256" using unsigned_less [of "tx_bit_count s + 1"] by simp
  then have "suart_tx_bit s msg = Some (1, ?s, msg)" using Suc.prems by (simp add: suart_tx_bit_def Let_def)
  with Suc.IH [of ?s] Suc.prems show ?case by auto
qed simp

lemma rx_stuck:
  assumes "255 < unat (num_data_bits (cfg s)) + unat (num_stop_bits (cfg s))" "rx_flow_state s = SUART_FLOW_ST_STOP"
  shows "\<exists>s'. rx_feed bs s w = Some (s', w) \<and> rx_flow_state s' = SUART_FLOW_ST_STOP \<and> rx_msg s' = rx_msg s"
  using assms
proof (induction bs arbitrary: s)
  case (Cons b bs)
  let ?s = "if b \<noteq> 1 then s\<lparr>rx_bit_count := rx_bit_count s + 1, rx_flags := rx_flags s OR 1\<rparr> else s\<lparr>rx_bit_count := rx_bit_count s + 1\<rparr>"
  have "unat (rx_bit_count s + 1) < 256" using unsigned_less [of "rx_bit_count s + 1"] by simp
  then have "suart_rx_bit s b w = Some (?s, w)" using Cons.prems by (simp add: suart_rx_bit_def Let_def)
  with Cons.IH [of ?s] Cons.prems show ?case by auto
qed simp

text \<open>The first character meets a buffer without room.\<close>

lemma rx_no_room:
  assumes "has_fmt 8 1 0 (cfg s)" "rx_running s" "rx_flow_state s = SUART_FLOW_ST_IDLE" "rx_msg s = Some m" "room m = 0"
  shows "rx_feed (uart_frame 8 1 0 c) s w = None"
proof -
  let ?s0 = "s\<lparr>rx_flow_state := SUART_FLOW_ST_DATA, rx_flags := 0, rx_shift_reg := 0, rx_bit_count := 0, rx_parity_bit := 0\<rparr>"
  have "fmt_ok 8 1 0" by (simp add: fmt_ok_def)
  from rx_data [OF this, of ?s0 0 7 c w] assms(1) obtain s1 where s1: "rx_feed (data_field 8 c) ?s0 w = Some (s1, w)" "rx_same ?s0 s1"
    "unat (rx_bit_count s1) = 8" "rx_flow_state s1 = SUART_FLOW_ST_STOP" by auto
  have "rx_msg s1 = Some m" "has_fmt 8 1 0 (cfg s1)" using s1(2) assms(1,4) by (simp_all add: rx_same_def)
  then have "suart_rx_bit s1 1 w = None"
    using s1(3,4) assms(5) unat_Suc_u8 [of "rx_bit_count s1"] by (simp add: suart_rx_bit_def Let_def suart_rx_ch_def has_fmt_def)
  with s1(1) assms(3) show ?thesis
    by (simp add: uart_frame_def after_data_def parity_field_def tx_parity_value_def rx_feed_append suart_rx_bit_def)
qed

text \<open>C40: configurations and reconfigurations that \<open>osmo_soft_uart_configure\<close> accepts and the UART does not survive. With more
  than 255 data and stop bits the 8-bit counter never reaches their sum: the sender sends stop bits for ever and the
  receiver never delivers the character. A receive buffer of 65536 characters is allocated with no room, and the first
  character aborts the program. So does a character for which there is no room in the old buffer after the size has been
  raised, and a bit that arrives in the parity state after parity has been switched off. An instance that was allocated
  with a configuration but not configured with it keeps received characters for ever: its timer has no function.\<close>

theorem uart_hazards:
  "(\<forall>(s :: 'w suart) c w msg n bs. num_data_bits c \<le> 8 \<and> num_data_bits c \<noteq> 0 \<and> 255 < unat (num_data_bits c) + unat (num_stop_bits c) \<and>
       0 \<le> parity_mode c \<and> parity_mode c < 5 \<and> rx_buf_size c \<noteq> 0 \<longrightarrow>
       fst (osmo_soft_uart_configure s c w) = 0 \<and>
       (cfg s = c \<and> tx_flow_state s = SUART_FLOW_ST_STOP \<longrightarrow> (\<exists>s'. tx_pull n s msg = Some (replicate n 1, s', msg))) \<and>
       (cfg s = c \<and> rx_flow_state s = SUART_FLOW_ST_STOP \<longrightarrow> (\<exists>s'. rx_feed bs s w = Some (s', w) \<and> rx_msg s' = rx_msg s))) \<and>
   rx_feed (frames [65]) (uart_receiver (small_cfg 65536) ()) () = None \<and>
   rx_reconfigured (small_cfg 2) [] (small_cfg 3) (frames [65, 66, 67]) = None \<and>
   map_option fst (rx_reconfigured (small_cfg 3) [] (small_cfg 3) (frames [65, 66, 67])) = Some 0 \<and>
   rx_reconfigured ((small_cfg 9)\<lparr>parity_mode := 1\<rparr>) (take 9 (frames [65])) (small_cfg 9) [1] = None \<and>
   map_option (\<lambda>(s, w). (rx_timer s \<noteq> None, map_option chars (rx_msg (fst (rx_timer_expires s w))), rx_timer (fst (rx_timer_expires s w))))
     (rx_feed (frames [65]) (fst (osmo_soft_uart_set_rx (osmo_soft_uart_alloc (small_cfg 9)) True ())) ()) = Some (True, Some [65], None)"
  (is "?stuck \<and> ?big \<and> ?more \<and> ?same \<and> ?par \<and> ?timer")
proof (intro conjI)
  show ?stuck
  proof (intro allI impI)
    fix s :: "'w suart" and c :: "'w suart_cfg" and w :: 'w and msg n bs
    assume a: "num_data_bits c \<le> 8 \<and> num_data_bits c \<noteq> 0 \<and> 255 < unat (num_data_bits c) + unat (num_stop_bits c) \<and>
       0 \<le> parity_mode c \<and> parity_mode c < 5 \<and> rx_buf_size c \<noteq> 0"
    then have "num_stop_bits c \<noteq> 0" by (auto simp: word_le_nat_alt)
    with a tx_stuck [of s n msg] rx_stuck [of s bs w]
    show "fst (osmo_soft_uart_configure s c w) = 0 \<and>
       (cfg s = c \<and> tx_flow_state s = SUART_FLOW_ST_STOP \<longrightarrow> (\<exists>s'. tx_pull n s msg = Some (replicate n 1, s', msg))) \<and>
       (cfg s = c \<and> rx_flow_state s = SUART_FLOW_ST_STOP \<longrightarrow> (\<exists>s'. rx_feed bs s w = Some (s', w) \<and> rx_msg s' = rx_msg s))"
      by (auto simp: osmo_soft_uart_configure_def not_less split: prod.splits)
  qed
  show ?big
    using rx_no_room [of "uart_receiver (small_cfg 65536) ()" "\<lparr>room = 0, chars = []\<rparr>" 65 "()"] uart_init_alloc [of "small_cfg 65536" "()"]
    by (simp add: frames_def uart_receiver_def osmo_soft_uart_set_rx_def Let_def uart_msg_alloc_def has_fmt_def small_cfg_def
        osmo_soft_uart_default_cfg_def)
  show ?more by code_simp
  show ?same by code_simp
  show ?par by code_simp
  show ?timer by code_simp
qed

text \<open>The first part at 8 data and 250 stop bits.\<close>

theorem uart_hazards_witness:
  "\<exists>s'. tx_pull 1000 ((uart_sender (osmo_soft_uart_default_cfg\<lparr>num_stop_bits := 250\<rparr>) ())\<lparr>tx_flow_state := SUART_FLOW_ST_STOP\<rparr>) [65] =
     Some (replicate 1000 1, s', [65])"
proof -
  let ?c = "osmo_soft_uart_default_cfg\<lparr>num_stop_bits := 250\<rparr> :: unit suart_cfg"
  let ?s = "(uart_sender ?c ())\<lparr>tx_flow_state := SUART_FLOW_ST_STOP\<rparr>"
  have "cfg ?s = ?c" using uart_init_alloc [of ?c "()"]
    by (simp add: uart_sender_def osmo_soft_uart_set_tx_def osmo_soft_uart_set_status_line_def osmo_soft_uart_set_status_def)
  moreover have "num_data_bits ?c \<le> 8 \<and> num_data_bits ?c \<noteq> 0 \<and> 255 < unat (num_data_bits ?c) + unat (num_stop_bits ?c) \<and>
       0 \<le> parity_mode ?c \<and> parity_mode ?c < 5 \<and> rx_buf_size ?c \<noteq> 0" by (simp add: osmo_soft_uart_default_cfg_def)
  moreover note uart_hazards [THEN conjunct1, rule_format, of ?c ?s "()" 1000 "[65]"]
  ultimately show ?thesis by simp
qed

end
