(* ===== verification/Tdef.thy ===== *)
theory Tdef
  imports Prelude
begin

text \<open>
  Timer definitions, \<open>src/core/tdef.c\<close>: values with a unit and a permitted range, their conversion between units, reading and
  setting them by timer number, and the table that gives the states of a machine their timers. An \<open>unsigned long\<close> is a
  natural number up to \<open>ULONG_MAX\<close> (64 bits).

  Shown: the conversion, written in the code as three cases over a factor, equals division with the ceiling over the lengths of the
  units, limited to the largest value (\<open>round_ceiling\<close>); what is set is read back and never shortened.
\<close>

definition ULONG_MAX :: nat where
  "ULONG_MAX = 18446744073709551615"

definition wrap_ulong :: "nat \<Rightarrow> nat" where
  "wrap_ulong n = n mod (ULONG_MAX + 1)"

subsection \<open>Units\<close>

datatype osmo_tdef_unit = OSMO_TDEF_S | OSMO_TDEF_MS | OSMO_TDEF_M | OSMO_TDEF_CUSTOM | OSMO_TDEF_US

definition osmo_tdef_factor :: "osmo_tdef_unit \<Rightarrow> osmo_tdef_unit \<Rightarrow> nat" where
  "osmo_tdef_factor a b =
     (if b = a \<or> b = OSMO_TDEF_CUSTOM \<or> a = OSMO_TDEF_CUSTOM then 1
      else case b of
        OSMO_TDEF_US \<Rightarrow> (case a of OSMO_TDEF_MS \<Rightarrow> 1000 | OSMO_TDEF_S \<Rightarrow> 1000*1000 | OSMO_TDEF_M \<Rightarrow> 60*1000*1000 | _ \<Rightarrow> 0)
      | OSMO_TDEF_MS \<Rightarrow> (case a of OSMO_TDEF_S \<Rightarrow> 1000 | OSMO_TDEF_M \<Rightarrow> 60*1000 | _ \<Rightarrow> 0)
      | OSMO_TDEF_S \<Rightarrow> (case a of OSMO_TDEF_M \<Rightarrow> 60 | _ \<Rightarrow> 0)
      | _ \<Rightarrow> 0)"

definition osmo_tdef_round :: "nat \<Rightarrow> osmo_tdef_unit \<Rightarrow> osmo_tdef_unit \<Rightarrow> nat" where
  "osmo_tdef_round val from_unit to_unit =
     (if val = 0 then 0
      else let f = osmo_tdef_factor from_unit to_unit in
        if f = 1 then val
        else if f < 1 then
          let f = osmo_tdef_factor to_unit from_unit in val div f + (if val mod f \<noteq> 0 then 1 else 0)
        else if f > ULONG_MAX div val then ULONG_MAX
        else val * f)"

subsection \<open>Timer definitions\<close>

record osmo_tdef =
  tdef_T :: int
  default_val :: nat
  tdef_unit :: osmo_tdef_unit
  desc :: "string option"
  tdef_val :: nat
  min_val :: nat
  max_val :: nat

text \<open>An array of definitions ends with an entry that is all zero. Its entries before that one are those the code
  visits; without it the loop would read behind the array.\<close>

definition tdef_used :: "osmo_tdef \<Rightarrow> bool" where
  "tdef_used t \<longleftrightarrow> tdef_T t \<noteq> 0 \<or> default_val t \<noteq> 0 \<or> desc t \<noteq> None"

definition osmo_tdef_val_in_range :: "osmo_tdef \<Rightarrow> nat \<Rightarrow> bool" where
  "osmo_tdef_val_in_range tdef new_val \<longleftrightarrow> min_val tdef \<le> new_val \<and> (max_val tdef = 0 \<or> new_val \<le> max_val tdef)"

text \<open>\<open>osmo_panic\<close> is \<^const>\<open>None\<close>, as is leaving the array.\<close>

fun osmo_tdefs_reset :: "osmo_tdef list \<Rightarrow> osmo_tdef list res" where
  "osmo_tdefs_reset [] = None"
| "osmo_tdefs_reset (t # tdefs) =
     (if \<not> tdef_used t then Some (t # tdefs)
      else if \<not> osmo_tdef_val_in_range t (default_val t) then None
      else do { tdefs \<leftarrow> osmo_tdefs_reset tdefs; Some (t\<lparr>tdef_val := default_val t\<rparr> # tdefs) })"

text \<open>The entry found, as its index.\<close>

fun osmo_tdef_get_entry :: "osmo_tdef list \<Rightarrow> int \<Rightarrow> nat option res" where
  "osmo_tdef_get_entry [] T = None"
| "osmo_tdef_get_entry (t # tdefs) T =
     (if \<not> tdef_used t then Some None
      else if tdef_T t = T then Some (Some 0)
      else do { r \<leftarrow> osmo_tdef_get_entry tdefs T; Some (map_option Suc r) })"

definition osmo_tdef_get :: "osmo_tdef list \<Rightarrow> int \<Rightarrow> osmo_tdef_unit \<Rightarrow> int \<Rightarrow> nat res" where
  "osmo_tdef_get tdefs T as_unit val_if_not_present = do {
     r \<leftarrow> osmo_tdef_get_entry tdefs T;
     case r of
       None \<Rightarrow> if val_if_not_present \<ge> 0 then Some (nat val_if_not_present) else None
     | Some i \<Rightarrow> Some (osmo_tdef_round (tdef_val (tdefs ! i)) (tdef_unit (tdefs ! i)) as_unit) }"

definition osmo_tdef_set :: "osmo_tdef list \<Rightarrow> int \<Rightarrow> nat \<Rightarrow> osmo_tdef_unit \<Rightarrow> (errno + osmo_tdef list) res" where
  "osmo_tdef_set tdefs T val val_unit = do {
     r \<leftarrow> osmo_tdef_get_entry tdefs T;
     case r of
       None \<Rightarrow> Some (Inl EEXIST)
     | Some i \<Rightarrow>
         let new_val = osmo_tdef_round val val_unit (tdef_unit (tdefs ! i)) in
         if \<not> osmo_tdef_val_in_range (tdefs ! i) new_val then Some (Inl ERANGE)
         else Some (Inr (tdefs[i := (tdefs ! i)\<lparr>tdef_val := new_val\<rparr>])) }"

subsection \<open>Timers of states\<close>

record osmo_tdef_state_timeout =
  timeout_T :: int
  keep_timer :: bool

definition osmo_tdef_get_state_timeout :: "nat \<Rightarrow> osmo_tdef_state_timeout list \<Rightarrow> osmo_tdef_state_timeout option res" where
  "osmo_tdef_get_state_timeout state timeouts_array =
     (if \<not> state < 32 then None
      else do {
        t \<leftarrow> rd timeouts_array state;
        if \<not> keep_timer t \<and> timeout_T t = 0 then Some None else Some (Some t) })"

section \<open>Properties\<close>

text \<open>The length of a unit in microseconds.\<close>

primrec usecs :: "osmo_tdef_unit \<Rightarrow> nat" where
  "usecs OSMO_TDEF_S = 1000000"
| "usecs OSMO_TDEF_MS = 1000"
| "usecs OSMO_TDEF_M = 60000000"
| "usecs OSMO_TDEF_CUSTOM = 1"
| "usecs OSMO_TDEF_US = 1"

definition ceil_div :: "nat \<Rightarrow> nat \<Rightarrow> nat" where
  "ceil_div a b = (a + (b - 1)) div b"

text \<open>Divisors are never zero.\<close>

lemma factor_one_way: "osmo_tdef_factor a b = 0 \<Longrightarrow> 1 < osmo_tdef_factor b a"
  by (cases a; cases b) (simp_all add: osmo_tdef_factor_def)

lemma factor_usecs:
  assumes "a \<noteq> OSMO_TDEF_CUSTOM" "b \<noteq> OSMO_TDEF_CUSTOM" "osmo_tdef_factor a b \<noteq> 0"
  shows "usecs a = osmo_tdef_factor a b * usecs b"
  using assms by (cases a; cases b) (simp_all add: osmo_tdef_factor_def)

lemma usecs_pos [simp]: "0 < usecs u"
  by (cases u) simp_all

lemma ceil_div_mult: "0 < b \<Longrightarrow> ceil_div (v * b) (f * b) = ceil_div v f"
proof (cases "f = 0")
  case False
  assume b: "0 < b"
  have "f * b - 1 = (f - 1) * b + (b - 1)" using b False by (cases f) (auto simp: algebra_simps)
  then have "(v * b + (f * b - 1)) div (f * b) = ((b - 1) + (v + (f - 1)) * b) div b div f"
    by (simp add: div_mult2_eq [symmetric] distrib_left ac_simps)
  also have "\<dots> = (v + (f - 1)) div f" using b div_mult_self1 [of b "b - 1" "v + (f - 1)"] by (simp only: div_less diff_less zero_less_one) simp
  finally show ?thesis by (simp add: ceil_div_def)
qed (simp add: ceil_div_def)

lemma ceil_div_one [simp]: "ceil_div v (Suc 0) = v"
  by (simp add: ceil_div_def)

lemma ceil_div_code: "0 < f \<Longrightarrow> v div f + (if v mod f \<noteq> 0 then 1 else 0) = ceil_div v f"
proof -
  assume f: "0 < f"
  have "(v div f * f + v mod f + (f - 1)) div f = v div f + (v mod f + (f - 1)) div f"
    unfolding add.assoc using f by (intro div_mult_self3) simp
  moreover have "(v mod f + (f - 1)) div f = (if v mod f \<noteq> 0 then 1 else 0)"
  proof (cases "v mod f = 0")
    case False
    then have "v mod f + (f - 1) = f + (v mod f - 1)" using f by linarith
    moreover have "v mod f - 1 < f" using mod_less_divisor [OF f, of v] by linarith
    ultimately have "(v mod f + (f - 1)) div f = 1 + (v mod f - 1) div f" using f by (simp only: div_add_self1)
    with \<open>v mod f - 1 < f\<close> False show ?thesis by simp
  qed (use f in simp)
  ultimately show ?thesis unfolding ceil_div_def by (simp only: div_mult_mod_eq)
qed

lemma ceil_div_le: "0 < f \<Longrightarrow> ceil_div v f \<le> v"
proof (cases "v = 0")
  case False
  assume f: "0 < f"
  with False have "v + (f - 1) \<le> v * f" by (cases v; cases f) auto
  then have "(v + (f - 1)) div f \<le> v * f div f" by (rule div_le_mono)
  with f show ?thesis by (simp add: ceil_div_def)
qed (simp add: ceil_div_def)

text \<open>Rounding is division with the ceiling, limited to the largest value of the type.\<close>

lemma round_ceiling:
  assumes "a \<noteq> OSMO_TDEF_CUSTOM" "b \<noteq> OSMO_TDEF_CUSTOM" "v \<le> ULONG_MAX"
  shows "osmo_tdef_round v a b = min ULONG_MAX (ceil_div (v * usecs a) (usecs b))"
proof (cases "osmo_tdef_factor a b = 0")
  case True
  then have "usecs b = osmo_tdef_factor b a * usecs a" using factor_one_way [OF True] assms by (intro factor_usecs) auto
  then have "ceil_div (v * usecs a) (usecs b) = ceil_div v (osmo_tdef_factor b a)" by (simp add: ceil_div_mult)
  moreover have "ceil_div v (osmo_tdef_factor b a) \<le> v" using factor_one_way [OF True] by (intro ceil_div_le) simp
  ultimately show ?thesis using True factor_one_way [OF True] assms(3) ceil_div_code [of "osmo_tdef_factor b a" v]
    by (auto simp: osmo_tdef_round_def Let_def ceil_div_def)
next
  case False
  then have u: "usecs a = osmo_tdef_factor a b * usecs b" using assms by (intro factor_usecs) auto
  have "ceil_div (v * usecs a) (usecs b) = v * osmo_tdef_factor a b"
    using ceil_div_mult [of "usecs b" "v * osmo_tdef_factor a b" 1] by (simp add: u mult.assoc)
  moreover have "osmo_tdef_factor a b > ULONG_MAX div v \<longleftrightarrow> v * osmo_tdef_factor a b > ULONG_MAX" if "0 < v"
    using that by (simp add: div_less_iff_less_mult mult.commute)
  ultimately show ?thesis using False assms(3) by (auto simp: osmo_tdef_round_def Let_def)
qed


lemma entry_used: "osmo_tdef_get_entry tdefs T = Some (Some i) \<Longrightarrow> i < length tdefs \<and> tdef_T (tdefs ! i) = T \<and> tdef_used (tdefs ! i)"
  by (induction tdefs T arbitrary: i rule: osmo_tdef_get_entry.induct) (auto simp: bind_eq_Some_conv split: if_splits)

text \<open>Only the value of a definition ever changes, so the entries stay where they are.\<close>

lemma entry_update: "osmo_tdef_get_entry (tdefs[i := (tdefs ! i)\<lparr>tdef_val := v\<rparr>]) T = osmo_tdef_get_entry tdefs T"
proof (induction tdefs T arbitrary: i rule: osmo_tdef_get_entry.induct)
  case (2 t tdefs T)
  then show ?case by (cases i) (auto simp: tdef_used_def)
qed simp

lemma ceil_div_ge: "0 < b \<Longrightarrow> a \<le> ceil_div a b * b \<and> ceil_div a b * b < a + b"
proof -
  assume b: "0 < b"
  have "a + (b - 1) = ceil_div a b * b + (a + (b - 1)) mod b" by (simp add: ceil_div_def)
  with b mod_less_divisor [OF b, of "a + (b - 1)"] show ?thesis by linarith
qed

lemma round_limit: "v \<le> ULONG_MAX \<Longrightarrow> osmo_tdef_round v a b \<le> ULONG_MAX"
proof -
  assume v: "v \<le> ULONG_MAX"
  have "v div f + (if v mod f \<noteq> 0 then 1 else 0) \<le> v" if "1 < f" for f
    using ceil_div_code [of f v] ceil_div_le [of f v] that by simp
  with factor_one_way [of a b] have down: "osmo_tdef_factor a b < 1 \<Longrightarrow>
      v div osmo_tdef_factor b a + (if v mod osmo_tdef_factor b a \<noteq> 0 then 1 else 0) \<le> v" by simp
  have up: "v * f \<le> ULONG_MAX" if "f \<le> ULONG_MAX div v" for f
    using mult_le_mono2 [OF that, of v] times_div_less_eq_dividend [of v ULONG_MAX] by linarith
  from v down up show ?thesis unfolding osmo_tdef_round_def Let_def by (auto split: if_split simp del: One_nat_def intro: order_trans [OF div_le_dividend])
qed

lemma round_back:
  assumes "a \<noteq> OSMO_TDEF_CUSTOM" "b \<noteq> OSMO_TDEF_CUSTOM" "v \<le> ULONG_MAX" "v * usecs a \<le> ULONG_MAX * usecs b"
    and w: "w = osmo_tdef_round (osmo_tdef_round v a b) b a"
  shows "v \<le> w \<and> w * usecs a < v * usecs a + max (usecs a) (usecs b)"
proof (cases "osmo_tdef_factor a b = 0")
  case True
  then have u: "usecs b = osmo_tdef_factor b a * usecs a" using factor_one_way [OF True] assms by (intro factor_usecs) auto
  let ?f = "osmo_tdef_factor b a" and ?n = "osmo_tdef_round v a b"
  have f: "1 < ?f" by (rule factor_one_way [OF True])
  have n: "?n = ceil_div v ?f"
    using round_ceiling [of a b v] assms ceil_div_mult [of "usecs a" v ?f] ceil_div_le [of ?f v] f by (simp add: u)
  have "w = min ULONG_MAX (?n * ?f)"
    using round_ceiling [OF assms(2,1) round_limit [OF assms(3)], of a b] ceil_div_mult [of "usecs a" "?n * ?f" 1]
    by (simp add: u w mult.assoc)
  moreover have "v \<le> ?n * ?f" "?n * ?f < v + ?f" using ceil_div_ge [of ?f v] f n by auto
  ultimately have "v \<le> w" "w < v + ?f" using assms(3) by auto
  moreover from \<open>w < v + ?f\<close> have "w * usecs a < (v + ?f) * usecs a" by simp
  ultimately show ?thesis by (simp add: u distrib_right)
next
  case False
  let ?f = "osmo_tdef_factor a b"
  have u: "usecs a = ?f * usecs b" using False assms by (intro factor_usecs) auto
  have "ceil_div (v * usecs a) (usecs b) = v * ?f"
    using ceil_div_mult [of "usecs b" "v * ?f" 1] by (simp add: u mult.assoc)
  moreover have "v * ?f \<le> ULONG_MAX" using assms(4) by (simp add: u mult.assoc [symmetric])
  ultimately have n: "osmo_tdef_round v a b = v * ?f" using round_ceiling [of a b v] assms by simp
  have "w = min ULONG_MAX (ceil_div (v * ?f * usecs b) (?f * usecs b))"
    using round_ceiling [OF assms(2,1), of "v * ?f"] \<open>v * ?f \<le> ULONG_MAX\<close> by (simp add: w n u)
  also have "\<dots> = v" using assms(3) False ceil_div_mult [of "?f * usecs b" v 1] by (simp add: mult.assoc)
  finally show ?thesis by (simp add: less_max_iff_disj)
qed

lemma reset_defaults:
  "osmo_tdefs_reset tdefs = Some tdefs' \<Longrightarrow> osmo_tdef_get_entry tdefs T = Some (Some i) \<Longrightarrow>
   osmo_tdef_get_entry tdefs' T = Some (Some i) \<and> tdefs' ! i = (tdefs ! i)\<lparr>tdef_val := default_val (tdefs ! i)\<rparr>"
  by (induction tdefs arbitrary: tdefs' i) (auto simp: bind_eq_Some_conv tdef_used_def split: if_splits)

text \<open>C37: timer values are converted by division with the ceiling, limited to the largest \<open>unsigned long\<close>. Setting a timer
  answers -EEXIST for an unknown timer and -ERANGE outside of the range of its definition; otherwise the value read back in the
  unit it was set in is never shorter than the one set and longer by less than the coarser of the two units, as long as
  it fits. Other timers keep their values, and a reset gives every timer its default.\<close>

theorem tdef_timers:
  assumes "osmo_tdef_get_entry tdefs T = Some (Some i)" "a \<noteq> OSMO_TDEF_CUSTOM" "tdef_unit (tdefs ! i) \<noteq> OSMO_TDEF_CUSTOM"
    and "v \<le> ULONG_MAX" "osmo_tdef_get_entry tdefs T0 = Some None"
    and "new = min ULONG_MAX (ceil_div (v * usecs a) (usecs (tdef_unit (tdefs ! i))))"
  shows "osmo_tdef_round v a (tdef_unit (tdefs ! i)) = new \<and>
         osmo_tdef_set tdefs T v a = Some (if osmo_tdef_val_in_range (tdefs ! i) new
           then Inr (tdefs[i := (tdefs ! i)\<lparr>tdef_val := new\<rparr>]) else Inl ERANGE) \<and>
         osmo_tdef_set tdefs T0 v a = Some (Inl EEXIST) \<and>
         (osmo_tdef_set tdefs T v a = Some (Inr tdefs') \<longrightarrow>
           (\<exists>w. osmo_tdef_get tdefs' T a d = Some w \<and>
              (v * usecs a \<le> ULONG_MAX * usecs (tdef_unit (tdefs ! i)) \<longrightarrow>
                 v \<le> w \<and> w * usecs a < v * usecs a + max (usecs a) (usecs (tdef_unit (tdefs ! i))))) \<and>
           (T' \<noteq> T \<longrightarrow> osmo_tdef_get tdefs' T' u d = osmo_tdef_get tdefs T' u d)) \<and>
         (osmo_tdefs_reset tdefs = Some tdefs0 \<longrightarrow>
           osmo_tdef_get tdefs0 T u d = Some (osmo_tdef_round (default_val (tdefs ! i)) (tdef_unit (tdefs ! i)) u))"
proof -
  have new: "osmo_tdef_round v a (tdef_unit (tdefs ! i)) = new" using assms by (simp add: round_ceiling)
  note set = new assms(1,5) entry_used [OF assms(1)]
  have other: "osmo_tdef_get (tdefs[i := (tdefs ! i)\<lparr>tdef_val := new\<rparr>]) T' u d = osmo_tdef_get tdefs T' u d" if "T' \<noteq> T"
  proof -
    have "j \<noteq> i" if "osmo_tdef_get_entry tdefs T' = Some (Some j)" for j using that \<open>T' \<noteq> T\<close> entry_used set by metis
    then show ?thesis by (auto simp: osmo_tdef_get_def entry_update split: Option.bind_split option.splits)
  qed
  show ?thesis
    using round_back [OF assms(2-4) _ refl] other set
    by (auto simp: osmo_tdef_set_def osmo_tdef_get_def entry_update Let_def dest: reset_defaults)
qed

definition demo_tdefs :: "osmo_tdef list" where
  "demo_tdefs =
    [\<lparr>tdef_T = 1, default_val = 3, tdef_unit = OSMO_TDEF_S, desc = None, tdef_val = 3, min_val = 0, max_val = 20\<rparr>,
     \<lparr>tdef_T = 0, default_val = 0, tdef_unit = OSMO_TDEF_S, desc = None, tdef_val = 0, min_val = 0, max_val = 0\<rparr>]"

theorem tdef_timers_witness:
  "osmo_tdef_set demo_tdefs 1 1100 OSMO_TDEF_MS = Some (Inr (demo_tdefs[0 := (demo_tdefs ! 0)\<lparr>tdef_val := 2\<rparr>])) \<and>
   osmo_tdef_set demo_tdefs 7 1100 OSMO_TDEF_MS = Some (Inl EEXIST)"
proof -
  have "osmo_tdef_get_entry demo_tdefs 1 = Some (Some 0)" "osmo_tdef_get_entry demo_tdefs 7 = Some None"
    "tdef_unit (demo_tdefs ! 0) = OSMO_TDEF_S" by (simp_all add: demo_tdefs_def tdef_used_def)
  from tdef_timers [OF this(1) _ _ _ this(2) refl, of OSMO_TDEF_MS 1100] this(3) show ?thesis
    by (simp add: ULONG_MAX_def ceil_div_def osmo_tdef_val_in_range_def demo_tdefs_def)
qed

end
