(* ===== verification/Fsm.thy ===== *)
theory Fsm
  imports Tdef
begin

text \<open>
  State machines, \<open>src/core/fsm.c\<close>: changing the state of an instance, delivering an event to it, and its timer. The descriptor of
  a machine is split in two, because the actions of a machine call the state change and only its masks and its functions run on entering and
  leaving matter there: \<open>osmo_fsm_state\<close> holds those, \<open>osmo_fsm\<close> adds the actions of the states. An instance carries the data of
  its owner as \<open>priv\<close>. A timer is the relative time it was started with, as the \<open>int\<close> seconds and microseconds given to
  \<open>osmo_timer_schedule\<close>; the passing of time is not modelled, expiry is an event.

  Results are an error code (\<^const>\<open>None\<close> for 0) with the instance; -1 is -EPERM. \<^const>\<open>None\<close> as the whole result is a failed
  assertion or undefined behaviour, as the shift by 32 or more of a state or event number.

  Shown: what every kind of state change does on each of its branches (\<open>fsm_state_changes\<close>); and the contract \<open>fsm_table\<close> under which
  a machine handles or refuses every event.
\<close>

subsection \<open>Timers and flags\<close>

definition UINT_FLAG :: "nat \<Rightarrow> u32 res" where
  "UINT_FLAG n = (if n < 32 then Some (push_bit n 1) else None)"

type_synonym osmo_timer = "(int \<times> int) option"

definition int32 :: "nat \<Rightarrow> int" where
  "int32 n = sint (word_of_nat n :: 32 word)"

definition osmo_timer_schedule :: "nat \<Rightarrow> nat \<Rightarrow> osmo_timer" where
  "osmo_timer_schedule seconds microseconds = Some (int32 seconds, int32 microseconds)"

subsection \<open>Instances and their descriptors\<close>

record 'p osmo_fsm_inst =
  state :: nat
  fi_T :: int
  timer :: osmo_timer
  terminating :: bool
  priv :: 'p

record 'p osmo_fsm_state =
  in_event_mask :: u32
  out_state_mask :: u32
  onenter :: "('p osmo_fsm_inst \<Rightarrow> nat \<Rightarrow> 'p osmo_fsm_inst res) option"
  onleave :: "('p osmo_fsm_inst \<Rightarrow> nat \<Rightarrow> 'p osmo_fsm_inst res) option"

type_synonym ('p, 'd) fsm_action = "'p osmo_fsm_inst \<Rightarrow> nat \<Rightarrow> 'd \<Rightarrow> ('p osmo_fsm_inst \<times> 'd) res"

record ('p, 'd) osmo_fsm =
  states :: "'p osmo_fsm_state list"
  actions :: "('p, 'd) fsm_action option list"
  allstate_event_mask :: u32
  allstate_action :: "('p, 'd) fsm_action option"
  timer_cb :: "('p osmo_fsm_inst \<Rightarrow> (int \<times> 'p osmo_fsm_inst) res) option"

definition osmo_fsm_inst_alloc :: "'p \<Rightarrow> 'p osmo_fsm_inst" where
  "osmo_fsm_inst_alloc p = \<lparr>state = 0, fi_T = 0, timer = None, terminating = False, priv = p\<rparr>"

subsection \<open>Changing the state\<close>

definition call_opt :: "('s \<Rightarrow> nat \<Rightarrow> 's res) option \<Rightarrow> 's \<Rightarrow> nat \<Rightarrow> 's res" where
  "call_opt cb s n = (case cb of None \<Rightarrow> Some s | Some f \<Rightarrow> f s n)"

definition state_chg :: "'p osmo_fsm_state list \<Rightarrow> 'p osmo_fsm_inst \<Rightarrow> nat \<Rightarrow> bool \<Rightarrow> nat \<Rightarrow> int
    \<Rightarrow> (errno option \<times> 'p osmo_fsm_inst) res" where
  "state_chg sts fi new_state keep timeout_ms T = do {
     let old_state = state fi;
     if terminating fi then Some (Some EINVAL, fi)
     else do {
       st \<leftarrow> rd sts old_state;
       flag \<leftarrow> UINT_FLAG new_state;
       if out_state_mask st AND flag = 0 then Some (Some EPERM, fi)
       else do {
         let fi = (if keep then fi else fi\<lparr>timer := None\<rparr>);
         fi \<leftarrow> call_opt (onleave st) fi new_state;
         let fi = fi\<lparr>state := new_state\<rparr>;
         st \<leftarrow> rd sts new_state;
         let fi = (if \<not> keep \<or> timer fi = None
                   then (let fi = fi\<lparr>fi_T := T\<rparr> in
                         if timeout_ms \<noteq> 0
                         then fi\<lparr>timer := osmo_timer_schedule (timeout_ms div 1000) (timeout_ms mod 1000 * 1000)\<rparr> else fi)
                   else fi);
         fi \<leftarrow> call_opt (onenter st) fi old_state;
         Some (None, fi) } } }"

definition osmo_fsm_inst_state_chg where
  "osmo_fsm_inst_state_chg sts fi new_state timeout_secs T =
     state_chg sts fi new_state False (wrap_ulong (timeout_secs * 1000)) T"

definition osmo_fsm_inst_state_chg_ms where
  "osmo_fsm_inst_state_chg_ms sts fi new_state timeout_ms T = state_chg sts fi new_state False timeout_ms T"

definition osmo_fsm_inst_state_chg_keep_timer where
  "osmo_fsm_inst_state_chg_keep_timer sts fi new_state = state_chg sts fi new_state True 0 0"

definition osmo_fsm_inst_state_chg_keep_or_start_timer where
  "osmo_fsm_inst_state_chg_keep_or_start_timer sts fi new_state timeout_secs T =
     state_chg sts fi new_state True (wrap_ulong (timeout_secs * 1000)) T"

definition osmo_fsm_inst_state_chg_keep_or_start_timer_ms where
  "osmo_fsm_inst_state_chg_keep_or_start_timer_ms sts fi new_state timeout_ms T =
     state_chg sts fi new_state True timeout_ms T"

subsection \<open>Events\<close>

definition osmo_fsm_inst_dispatch :: "('p, 'd) osmo_fsm \<Rightarrow> 'p osmo_fsm_inst \<Rightarrow> nat \<Rightarrow> 'd
    \<Rightarrow> (errno option \<times> 'p osmo_fsm_inst \<times> 'd) res" where
  "osmo_fsm_inst_dispatch fsm fi event data =
     (if terminating fi then Some (Some EINVAL, fi, data)
      else if \<not> state fi < length (states fsm) then None
      else do {
        flag \<leftarrow> UINT_FLAG event;
        case (if flag AND allstate_event_mask fsm \<noteq> 0 then allstate_action fsm else None) of
          Some action \<Rightarrow> do { (fi, data) \<leftarrow> action fi event data; Some (None, fi, data) }
        | None \<Rightarrow>
            if flag AND in_event_mask (states fsm ! state fi) = 0 then Some (Some EPERM, fi, data)
            else do {
              action \<leftarrow> rd (actions fsm) (state fi);
              (fi, data) \<leftarrow> (case action of None \<Rightarrow> Some (fi, data) | Some action \<Rightarrow> action fi event data);
              Some (None, fi, data) } })"

text \<open>The timer expires: \<open>osmo_timers_update\<close> has deleted it and calls back. The flag says whether the instance is then terminated.\<close>

definition fsm_tmr_cb :: "('p, 'd) osmo_fsm \<Rightarrow> 'p osmo_fsm_inst \<Rightarrow> (bool \<times> 'p osmo_fsm_inst) res" where
  "fsm_tmr_cb fsm fi =
     (case timer_cb fsm of
        Some cb \<Rightarrow> do { (rc, fi) \<leftarrow> cb fi; Some (rc = 1, fi) }
      | None \<Rightarrow> Some (True, fi))"

subsection \<open>Timers by state\<close>

definition osmo_tdef_fsm_inst_state_chg :: "'p osmo_fsm_state list \<Rightarrow> 'p osmo_fsm_inst \<Rightarrow> nat \<Rightarrow> osmo_tdef_state_timeout list
    \<Rightarrow> osmo_tdef list \<Rightarrow> int \<Rightarrow> (errno option \<times> 'p osmo_fsm_inst) res" where
  "osmo_tdef_fsm_inst_state_chg sts fi new_state timeouts_array tdefs default_timeout = do {
     t \<leftarrow> osmo_tdef_get_state_timeout new_state timeouts_array;
     case t of
       None \<Rightarrow> osmo_fsm_inst_state_chg sts fi new_state 0 0
     | Some t \<Rightarrow> do {
         val_ms \<leftarrow> (if timeout_T t \<noteq> 0 then do {
             r \<leftarrow> osmo_tdef_get_entry tdefs (timeout_T t);
             case r of
               None \<Rightarrow> if default_timeout \<ge> 0 then Some (wrap_ulong (nat (default_timeout * 1000))) else None
             | Some i \<Rightarrow>
                 let val_ms = osmo_tdef_round (tdef_val (tdefs ! i)) (tdef_unit (tdefs ! i)) OSMO_TDEF_MS in
                 Some (if tdef_unit (tdefs ! i) = OSMO_TDEF_CUSTOM then wrap_ulong (val_ms * 1000) else val_ms) }
           else Some 0);
         if keep_timer t then
           if timeout_T t \<noteq> 0 then osmo_fsm_inst_state_chg_keep_or_start_timer_ms sts fi new_state val_ms (timeout_T t)
           else osmo_fsm_inst_state_chg_keep_timer sts fi new_state
         else osmo_fsm_inst_state_chg_ms sts fi new_state val_ms (timeout_T t) } }"


lemma call_opt_simps [simp]: "call_opt None s n = Some s" "call_opt (Some f) s n = f s n"
  by (simp_all add: call_opt_def)

section \<open>Properties\<close>

lemma flag_bit: "UINT_FLAG n = Some f \<longleftrightarrow> n < 32 \<and> f = push_bit n 1"
  by (auto simp: UINT_FLAG_def)

lemma flag_in_mask: "m AND 2 ^ n = 0 \<longleftrightarrow> \<not> bit m n" "2 ^ n AND m = 0 \<longleftrightarrow> \<not> bit m n" for m :: u32
  using and_exp_eq_0_iff_not_bit [of m n] by (simp_all add: and.commute)

text \<open>A transition is permitted by a bit of the mask of the present state.\<close>

definition permits :: "u32 \<Rightarrow> nat \<Rightarrow> bool" where
  "permits m n \<longleftrightarrow> n < 32 \<and> bit m n"

lemma state_chg_refused:
  "\<not> terminating fi \<Longrightarrow> state fi < length sts \<Longrightarrow> n < 32 \<Longrightarrow> \<not> permits (out_state_mask (sts ! state fi)) n \<Longrightarrow>
   state_chg sts fi n keep ms T = Some (Some EPERM, fi)"
  by (simp add: state_chg_def UINT_FLAG_def rd_def permits_def flag_in_mask Let_def)

lemma state_chg_terminating: "terminating fi \<Longrightarrow> state_chg sts fi n keep ms T = Some (Some EINVAL, fi)"
  by (simp add: state_chg_def)

text \<open>The instance after the timer was seen to, in the new state: \<open>timed\<close> in general, \<open>started\<close> when no timer can be left over.\<close>

definition timed :: "'p osmo_fsm_inst \<Rightarrow> bool \<Rightarrow> nat \<Rightarrow> int \<Rightarrow> 'p osmo_fsm_inst" where
  "timed fi keep ms T =
     (if keep \<and> timer fi \<noteq> None then fi
      else fi\<lparr>fi_T := T, timer := (if ms = 0 then timer fi else osmo_timer_schedule (ms div 1000) (ms mod 1000 * 1000))\<rparr>)"

definition started :: "'p osmo_fsm_inst \<Rightarrow> bool \<Rightarrow> nat \<Rightarrow> int \<Rightarrow> 'p osmo_fsm_inst" where
  "started fi keep ms T =
     (if keep \<and> timer fi \<noteq> None then fi
      else fi\<lparr>fi_T := T, timer := (if ms = 0 then None else osmo_timer_schedule (ms div 1000) (ms mod 1000 * 1000))\<rparr>)"

lemma state_chg_general:
  assumes "\<not> terminating fi" "state fi < length sts" "permits (out_state_mask (sts ! state fi)) n" "n < length sts"
  shows "state_chg sts fi n keep ms T =
    do { fi1 \<leftarrow> call_opt (onleave (sts ! state fi)) (if keep then fi else fi\<lparr>timer := None\<rparr>) n;
         fi2 \<leftarrow> call_opt (onenter (sts ! n)) (timed (fi1\<lparr>state := n\<rparr>) keep ms T) (state fi); Some (None, fi2) }"
proof -
  have t: "(if \<not> keep \<or> timer (fi1\<lparr>state := n\<rparr>) = None
       then (let fi = (fi1\<lparr>state := n\<rparr>)\<lparr>fi_T := T\<rparr> in
             if ms \<noteq> 0 then fi\<lparr>timer := osmo_timer_schedule (ms div 1000) (ms mod 1000 * 1000)\<rparr> else fi)
       else fi1\<lparr>state := n\<rparr>) = timed (fi1\<lparr>state := n\<rparr>) keep ms T" for fi1 :: "'a osmo_fsm_inst"
    by (cases fi1) (auto simp: timed_def Let_def)
  have f: "UINT_FLAG n = Some (push_bit n 1)" "out_state_mask (sts ! state fi) AND push_bit n 1 \<noteq> 0"
    using assms(3) by (auto simp: permits_def UINT_FLAG_def flag_in_mask)
  have r: "rd sts (state fi) = Some (sts ! state fi)" "rd sts n = Some (sts ! n)" using assms by (simp_all add: rd_Some)
  show ?thesis
    unfolding state_chg_def Let_def [of "state fi"] r f(1) bind.bind_lunit using assms(1) f(2)
    by (simp only: if_False if_True Let_def [where s = "if keep then fi else fi\<lparr>timer := None\<rparr>"] Let_def [where s = "x\<lparr>state := n\<rparr>" for x] bind.bind_lunit r t) (simp add: Let_def)
qed

lemma state_chg_permitted:
  assumes "\<not> terminating fi" "state fi < length sts" "permits (out_state_mask (sts ! state fi)) n" "n < length sts"
    and "onleave (sts ! state fi) = None"
  shows "state_chg sts fi n keep ms T =
    do { fi \<leftarrow> call_opt (onenter (sts ! n)) (started (fi\<lparr>state := n\<rparr>) keep ms T) (state fi); Some (None, fi) }"
proof -
  have "timed ((if keep then fi else fi\<lparr>timer := None\<rparr>)\<lparr>state := n\<rparr>) keep ms T = started (fi\<lparr>state := n\<rparr>) keep ms T"
    by (cases fi; cases "timer fi") (auto simp: timed_def started_def)
  then show ?thesis unfolding state_chg_general [OF assms(1-4)] assms(5) by simp
qed


subsection \<open>The contract of a table\<close>

text \<open>A table of states whose actions accept every event that their mask admits: from an instance and data that satisfy
  \<open>pre\<close> for the event they produce some that satisfy \<open>post\<close>, which also covers the events refused. Every event is then handled or
  refused, the refused ones without any effect.\<close>

locale fsm_table =
  fixes fsm :: "('p, 'd) osmo_fsm" and pre post :: "nat \<Rightarrow> 'p osmo_fsm_inst \<Rightarrow> 'd \<Rightarrow> bool"
  assumes pre_state: "pre ev fi d \<Longrightarrow> \<not> terminating fi \<and> state fi < length (states fsm) \<and> ev < 32"
    and no_allstate: "allstate_action fsm = None"
    and length_actions: "length (actions fsm) = length (states fsm)"
    and accepts: "pre ev fi d \<Longrightarrow> permits (in_event_mask (states fsm ! state fi)) ev \<Longrightarrow>
      \<exists>act fi' d'. actions fsm ! state fi = Some act \<and> act fi ev d = Some (fi', d') \<and> post ev fi' d'"
    and refuses: "pre ev fi d \<Longrightarrow> \<not> permits (in_event_mask (states fsm ! state fi)) ev \<Longrightarrow> post ev fi d"
begin

lemma dispatch_unfold:
  assumes "pre ev fi d"
  shows "osmo_fsm_inst_dispatch fsm fi ev d =
    (if permits (in_event_mask (states fsm ! state fi)) ev
     then do { (fi, d) \<leftarrow> (case actions fsm ! state fi of None \<Rightarrow> Some (fi, d) | Some act \<Rightarrow> act fi ev d); Some (None, fi, d) }
     else Some (Some EPERM, fi, d))"
  using pre_state [OF assms(1)] no_allstate length_actions
  by (simp add: osmo_fsm_inst_dispatch_def UINT_FLAG_def rd_def permits_def flag_in_mask)

lemma dispatch_post:
  assumes "pre ev fi d"
  shows "\<exists>rc fi' d'. osmo_fsm_inst_dispatch fsm fi ev d = Some (rc, fi', d') \<and> post ev fi' d' \<and>
    rc = (if permits (in_event_mask (states fsm ! state fi)) ev then None else Some EPERM) \<and> (rc \<noteq> None \<longrightarrow> fi' = fi \<and> d' = d)"
proof (cases "permits (in_event_mask (states fsm ! state fi)) ev")
  case True
  obtain act fi' d' where a: "actions fsm ! state fi = Some act" "act fi ev d = Some (fi', d')" "post ev fi' d'"
    using accepts [OF assms True] by blast
  with True show ?thesis by (simp add: dispatch_unfold [OF assms])
qed (use refuses [OF assms] dispatch_unfold [OF assms] in auto)

end

subsection \<open>State changes\<close>

lemma int32_small: "n < 2147483648 \<Longrightarrow> int32 n = int n"
  by (simp add: int32_def signed_of_nat signed_take_bit_int_eq_self)

lemma int32_large: "2147483648 \<le> n \<Longrightarrow> n < 4294967296 \<Longrightarrow> int32 n = int n - 4294967296"
proof -
  assume a: "2147483648 \<le> n" "n < 4294967296"
  have "signed_take_bit 31 (int n) = (int n + 2147483648) mod 4294967296 - 2147483648"
    by (simp add: signed_take_bit_eq_take_bit_shift take_bit_eq_mod)
  also have "(int n + 2147483648) mod 4294967296 = int n + 2147483648 - 4294967296"
    using a mod_add_self2 [of "int n + 2147483648 - 4294967296" "4294967296::int"] by (simp add: mod_pos_pos_trivial add.commute)
  finally show ?thesis by (simp add: int32_def signed_of_nat)
qed

lemma schedule_ms: "ms < 2147483648 * 1000 \<Longrightarrow>
  osmo_timer_schedule (ms div 1000) (ms mod 1000 * 1000) = Some (int (ms div 1000), int (ms mod 1000 * 1000))"
proof -
  assume a: "ms < 2147483648 * 1000"
  have "ms mod 1000 < 1000" by simp
  then have "ms mod 1000 * 1000 < 2147483648" by linarith
  with a show ?thesis by (simp add: osmo_timer_schedule_def int32_small less_mult_imp_div_less)
qed


lemma int32_eq: "int32 n = (int n + 2147483648) mod 4294967296 - 2147483648"
  by (simp add: int32_def signed_of_nat signed_take_bit_eq_take_bit_shift take_bit_eq_mod)

text \<open>C36: every kind of state change, in seconds and in milliseconds, starting a timer, keeping it or both. The state of an instance changes
  only as the mask of its present state permits: an instance that terminates answers -EINVAL, a transition outside the mask -EPERM, both without
  any effect. Otherwise the old timer is deleted unless it is to be kept, \<open>onleave\<close> runs, the state is the new one, the timer is seen to, and
  \<open>onenter\<close> runs last, told the state left. A timer that still runs then is kept, with its number, if that was asked for; otherwise the number is the new
  one and a time-out other than zero starts the timer, while zero leaves it as \<open>onleave\<close> left it.
  The time is the number of milliseconds as \<open>unsigned long\<close>, split in seconds, which are converted to \<open>int\<close>, and microseconds. Up to 2147483647 seconds
  are started exactly. The documented limit to 2147483647 is not applied: 2147483648 to 4294967295 seconds give a negative time, beyond that
  the time is taken modulo 4294967296, so that a multiple gives a timer of no seconds, and from 18446744073709552 seconds on the
  milliseconds wrap round first.\<close>

theorem fsm_state_changes:
  assumes "state fi < length sts" "n < length sts" "n < 32"
  shows "(\<forall>keep ms. terminating fi \<longrightarrow> state_chg sts fi n keep ms T = Some (Some EINVAL, fi)) \<and>
         (\<forall>keep ms. \<not> terminating fi \<and> \<not> bit (out_state_mask (sts ! state fi)) n \<longrightarrow>
            state_chg sts fi n keep ms T = Some (Some EPERM, fi)) \<and>
         (let change = (\<lambda>keep T due. do {
                 fi1 \<leftarrow> call_opt (onleave (sts ! state fi)) (if keep then fi else fi\<lparr>timer := None\<rparr>) n;
                 fi2 \<leftarrow> call_opt (onenter (sts ! n))
                   (if keep \<and> timer fi1 \<noteq> None then fi1\<lparr>state := n\<rparr>
                    else fi1\<lparr>state := n, fi_T := T, timer := (if due = None then timer fi1 else due)\<rparr>) (state fi);
                 Some (None, fi2) });
              as_int = (\<lambda>s. (int s + 2147483648) mod 4294967296 - 2147483648);
              in_ms = (\<lambda>ms. if ms = 0 then None else Some (as_int (ms div 1000), int (ms mod 1000) * 1000));
              in_s = (\<lambda>secs. in_ms (secs * 1000 mod 18446744073709551616)) in
          (\<not> terminating fi \<and> bit (out_state_mask (sts ! state fi)) n \<longrightarrow>
             osmo_fsm_inst_state_chg sts fi n secs T = change False T (in_s secs) \<and>
             osmo_fsm_inst_state_chg_ms sts fi n ms T = change False T (in_ms ms) \<and>
             osmo_fsm_inst_state_chg_keep_timer sts fi n = change True 0 None \<and>
             osmo_fsm_inst_state_chg_keep_or_start_timer sts fi n secs T = change True T (in_s secs) \<and>
             osmo_fsm_inst_state_chg_keep_or_start_timer_ms sts fi n ms T = change True T (in_ms ms)) \<and>
          (secs < 2147483648 \<longrightarrow> in_s secs = (if secs = 0 then None else Some (int secs, 0))) \<and>
          (2147483648 \<le> secs \<and> secs < 4294967296 \<longrightarrow> in_s secs = Some (int secs - 4294967296, 0) \<and> int secs - 4294967296 < 0) \<and>
          (4294967296 \<le> secs \<and> secs < 18446744073709552 \<longrightarrow> in_s secs = Some (as_int (secs mod 4294967296), 0)))"
proof -
  have p: "permits (out_state_mask (sts ! state fi)) n \<longleftrightarrow> bit (out_state_mask (sts ! state fi)) n"
    using assms(3) by (simp add: permits_def)
  let ?in_ms = "\<lambda>ms. if ms = 0 then None else Some ((int (ms div 1000) + 2147483648) mod 4294967296 - 2147483648, int (ms mod 1000) * 1000)"
  have us: "int32 (ms mod 1000 * 1000) = int (ms mod 1000) * 1000" for ms
  proof -
    have "ms mod 1000 < 1000" by simp
    then have "ms mod 1000 * 1000 < 2147483648" by linarith
    then show ?thesis by (simp add: int32_small)
  qed
  have t: "timed (fi1\<lparr>state := n\<rparr>) keep ms T =
      (if keep \<and> timer fi1 \<noteq> None then fi1\<lparr>state := n\<rparr> else fi1\<lparr>state := n, fi_T := T, timer := (if ?in_ms ms = None then timer fi1 else ?in_ms ms)\<rparr>)"
    for keep ms T and fi1 :: "'a osmo_fsm_inst"
    unfolding timed_def osmo_timer_schedule_def us int32_eq by auto
  note perm = state_chg_general [OF _ assms(1) _ assms(2), unfolded p t]
  have w: "wrap_ulong (secs * 1000) = secs * 1000 mod 18446744073709551616" by (simp add: wrap_ulong_def ULONG_MAX_def)
  have s1: "secs * 1000 mod 18446744073709551616 = secs * 1000" if "secs < 18446744073709552" using that by simp
  have wrap: "(int secs + 2147483648) mod 4294967296 = int secs - 2147483648" if "2147483648 \<le> secs" "secs < 4294967296"
    using that mod_add_self2 [of "int secs - 2147483648" "4294967296 :: int"] by (simp add: mod_pos_pos_trivial add.commute)
  have big: "(int (secs mod 4294967296) + 2147483648) mod 4294967296 = (int secs + 2147483648) mod 4294967296"
    by (simp add: zmod_int mod_add_left_eq)
  show ?thesis
    unfolding Let_def
  proof (intro conjI allI impI, goal_cases)
    case 3
    then show ?case by (simp only: osmo_fsm_inst_state_chg_def perm w simp_thms)
  next
    case 4
    then show ?case by (simp only: osmo_fsm_inst_state_chg_ms_def perm simp_thms)
  next
    case 5
    then show ?case unfolding osmo_fsm_inst_state_chg_keep_timer_def perm [OF conjunct1 [OF 5] conjunct2 [OF 5]] by simp
  next
    case 6
    then show ?case by (simp only: osmo_fsm_inst_state_chg_keep_or_start_timer_def perm w simp_thms)
  next
    case 7
    then show ?case by (simp only: osmo_fsm_inst_state_chg_keep_or_start_timer_ms_def perm simp_thms)
  qed (use state_chg_terminating [of fi] state_chg_refused [OF _ assms(1,3)] p s1 wrap big in \<open>simp_all add: mod_pos_pos_trivial\<close>)
qed

definition demo_states :: "unit osmo_fsm_state list" where
  "demo_states =
    [\<lparr>in_event_mask = 0, out_state_mask = 2, onenter = None, onleave = None\<rparr>,
     \<lparr>in_event_mask = 0, out_state_mask = 1, onenter = None, onleave = None\<rparr>]"

theorem fsm_state_changes_witness:
  "osmo_fsm_inst_state_chg demo_states (osmo_fsm_inst_alloc ()) 1 2147483648 7 =
     Some (None, \<lparr>state = 1, fi_T = 7, timer = Some (-2147483648, 0), terminating = False, priv = ()\<rparr>) \<and>
   osmo_fsm_inst_state_chg demo_states (osmo_fsm_inst_alloc ()) 1 4294967296 7 =
     Some (None, \<lparr>state = 1, fi_T = 7, timer = Some (0, 0), terminating = False, priv = ()\<rparr>) \<and>
   osmo_fsm_inst_state_chg_keep_or_start_timer_ms demo_states (osmo_fsm_inst_alloc ()) 1 1500 7 =
     Some (None, \<lparr>state = 1, fi_T = 7, timer = Some (1, 500000), terminating = False, priv = ()\<rparr>)"
proof -
  have l: "state (osmo_fsm_inst_alloc ()) < length demo_states" "(1::nat) < length demo_states" "(1::nat) < 32"
    by (simp_all add: demo_states_def osmo_fsm_inst_alloc_def)
  show ?thesis
    using fsm_state_changes [OF l, of 7 2147483648 1500] fsm_state_changes [OF l, of 7 4294967296 1500]
    by (simp add: demo_states_def osmo_fsm_inst_alloc_def bit_Suc Let_def)
qed

end
