(* ===== verification/V110_Ta.thy ===== *)
theory V110_Ta
  imports V110 Fsm Machine
begin

text \<open>
  The V.110 terminal adapter, \<open>src/isdn/v110_ta.c\<close>: a state machine on \<open>Fsm\<close> between a terminal, which switches the circuits of
  V.24, and the frames of \<open>V110\<close> on the line. The table of the machine is \<open>v110_ta_states\<close>, one action per state; \<open>ta_tdefs\<close> are
  its three timers. A frame is passed to an event by its contents.

  The application behind the call-backs is a state \<open>'w\<close>. A call-back returns the new state and, because the code allows it, the calls of
  \<open>osmo_v110_ta_set_circuit\<close> that the application makes from inside it; every handler takes the function \<open>sc\<close> that runs such a
  call, and \<open>nested n\<close> is that function for calls nested at most \<open>n\<close> deep. An application that makes none is \<open>quiet\<close>; for it the
  results hold for any \<open>sc\<close>. The call-backs for receiving and sending are present, as \<open>osmo_v110_ta_alloc\<close> asserts, and memory is available.

  Shown: for quiet applications \<open>react_rx\<close> and \<open>react\<close> give the successor of every state; the machine meets the contract \<open>fsm_table\<close>,
  so that no assertion fails in any sequence of operations, and each state shows the line and the terminal what it should (\<open>ta_wf\<close>).
\<close>

subsection \<open>Circuits\<close>

abbreviation (input) OSMO_V110_TA_C_105 :: nat where "OSMO_V110_TA_C_105 \<equiv> 0"
abbreviation (input) OSMO_V110_TA_C_106 :: nat where "OSMO_V110_TA_C_106 \<equiv> 1"
abbreviation (input) OSMO_V110_TA_C_107 :: nat where "OSMO_V110_TA_C_107 \<equiv> 2"
abbreviation (input) OSMO_V110_TA_C_108 :: nat where "OSMO_V110_TA_C_108 \<equiv> 3"
abbreviation (input) OSMO_V110_TA_C_109 :: nat where "OSMO_V110_TA_C_109 \<equiv> 4"
abbreviation (input) OSMO_V110_TA_C_133 :: nat where "OSMO_V110_TA_C_133 \<equiv> 5"

definition S :: "nat \<Rightarrow> u32" where
  "S x = push_bit x 1"

definition V24_FLAGMASK_IS_ON :: "u32 \<Rightarrow> nat \<Rightarrow> bool" where
  "V24_FLAGMASK_IS_ON flags circuit \<longleftrightarrow> flags AND S circuit \<noteq> 0"

definition V24_FLAGMASK_IS_OFF :: "u32 \<Rightarrow> nat \<Rightarrow> bool" where
  "V24_FLAGMASK_IS_OFF flags circuit \<longleftrightarrow> flags AND S circuit = 0"

definition V24_FLAGMASK_SET_ON :: "u32 \<Rightarrow> nat \<Rightarrow> u32" where
  "V24_FLAGMASK_SET_ON flags circuit = flags OR S circuit"

definition V24_FLAGMASK_SET_OFF :: "u32 \<Rightarrow> nat \<Rightarrow> u32" where
  "V24_FLAGMASK_SET_OFF flags circuit = flags AND NOT (S circuit)"

abbreviation (input) V110_SX_BIT_ON :: ubit where "V110_SX_BIT_ON \<equiv> 0"
abbreviation (input) V110_SX_BIT_OFF :: ubit where "V110_SX_BIT_OFF \<equiv> 1"

subsection \<open>Timers\<close>

abbreviation (input) OSMO_V110_TA_TIMER_X1 :: int where "OSMO_V110_TA_TIMER_X1 \<equiv> -1"
abbreviation (input) OSMO_V110_TA_TIMER_T1 :: int where "OSMO_V110_TA_TIMER_T1 \<equiv> 1"
abbreviation (input) OSMO_V110_TA_TIMER_T2 :: int where "OSMO_V110_TA_TIMER_T2 \<equiv> 2"

definition v110_ta_tdef :: "osmo_tdef list" where
  "v110_ta_tdef =
    [\<lparr>tdef_T = OSMO_V110_TA_TIMER_X1, default_val = 3000, tdef_unit = OSMO_TDEF_MS,
      desc = Some ''ITU-T V.110 7.1.5 Loss of frame synchronization: sync recovery timer'', tdef_val = 0, min_val = 0, max_val = 0\<rparr>,
     \<lparr>tdef_T = OSMO_V110_TA_TIMER_T1, default_val = 10000, tdef_unit = OSMO_TDEF_MS,
      desc = Some ''ITU-T V.110 7.1.2 Connect TA to line: sync establishment timer'', tdef_val = 0, min_val = 0, max_val = 0\<rparr>,
     \<lparr>tdef_T = OSMO_V110_TA_TIMER_T2, default_val = 5000, tdef_unit = OSMO_TDEF_MS,
      desc = Some ''ITU-T V.110 7.1.4 Disconnect mode: disconnect confirmation timer'', tdef_val = 0, min_val = 0, max_val = 0\<rparr>,
     \<lparr>tdef_T = 0, default_val = 0, tdef_unit = OSMO_TDEF_S, desc = None, tdef_val = 0, min_val = 0, max_val = 0\<rparr>]"

subsection \<open>States and events\<close>

abbreviation (input) V110_TA_ST_IDLE_READY :: nat where "V110_TA_ST_IDLE_READY \<equiv> 0"
abbreviation (input) V110_TA_ST_CON_TA_TO_LINE :: nat where "V110_TA_ST_CON_TA_TO_LINE \<equiv> 1"
abbreviation (input) V110_TA_ST_DATA_TRANSFER :: nat where "V110_TA_ST_DATA_TRANSFER \<equiv> 2"
abbreviation (input) V110_TA_ST_DISCONNECTING :: nat where "V110_TA_ST_DISCONNECTING \<equiv> 3"
abbreviation (input) V110_TA_ST_RESYNCING :: nat where "V110_TA_ST_RESYNCING \<equiv> 4"

abbreviation (input) V110_TA_EV_RX_FRAME_IND :: nat where "V110_TA_EV_RX_FRAME_IND \<equiv> 0"
abbreviation (input) V110_TA_EV_TX_FRAME_RTS :: nat where "V110_TA_EV_TX_FRAME_RTS \<equiv> 1"
abbreviation (input) V110_TA_EV_V24_STATUS_CHG :: nat where "V110_TA_EV_V24_STATUS_CHG \<equiv> 2"
abbreviation (input) V110_TA_EV_SYNC_IND :: nat where "V110_TA_EV_SYNC_IND \<equiv> 3"
abbreviation (input) V110_TA_EV_DESYNC_IND :: nat where "V110_TA_EV_DESYNC_IND \<equiv> 4"
abbreviation (input) V110_TA_EV_TIMEOUT :: nat where "V110_TA_EV_TIMEOUT \<equiv> 5"

datatype v110_ta_d_bit_mode = V110_TA_DBIT_M_ALL_ZERO | V110_TA_DBIT_M_ALL_ONE | V110_TA_DBIT_M_FORWARD

primrec d_bit_value :: "v110_ta_d_bit_mode \<Rightarrow> ubit" where
  "d_bit_value V110_TA_DBIT_M_ALL_ZERO = 0"
| "d_bit_value V110_TA_DBIT_M_ALL_ONE = 1"
| "d_bit_value V110_TA_DBIT_M_FORWARD = 2"

abbreviation (input) OSMO_V110_LOCAL_FLOW_CTRL_NONE :: nat where "OSMO_V110_LOCAL_FLOW_CTRL_NONE \<equiv> 0"

type_synonym v24_requests = "(nat \<times> bool) list"

record 'w v110_ta_cfg =
  rate :: int
  flow_ctrl_local :: nat
  flow_ctrl_end_to_end :: bool
  rx_cb :: "'w \<Rightarrow> ubit list \<Rightarrow> 'w \<times> v24_requests"
  tx_cb :: "'w \<Rightarrow> nat \<Rightarrow> ubit list \<times> 'w \<times> v24_requests"
  status_update_cb :: "('w \<Rightarrow> u32 \<Rightarrow> 'w \<times> v24_requests) option"

record 'w v110_ta =
  Tdefs :: "osmo_tdef list"
  cfg :: "'w v110_ta_cfg"
  v24_flags :: u32
  tx_d_bit_mode :: v110_ta_d_bit_mode
  tx_s_bits :: ubit
  tx_x_bits :: ubit
  rx_d_bit_mode :: v110_ta_d_bit_mode
  app :: 'w

type_synonym 'w ta_inst = "'w v110_ta osmo_fsm_inst"
type_synonym 'w ta_set = "'w ta_inst \<Rightarrow> nat \<Rightarrow> bool \<Rightarrow> 'w ta_inst res"

definition upd :: "('w v110_ta \<Rightarrow> 'w v110_ta) \<Rightarrow> 'w ta_inst \<Rightarrow> 'w ta_inst" where
  "upd f fi = fi\<lparr>priv := f (priv fi)\<rparr>"

text \<open>The application after a call-back, and then its calls of \<open>osmo_v110_ta_set_circuit\<close> from inside the call-back.\<close>

fun requests :: "'w ta_set \<Rightarrow> v24_requests \<Rightarrow> 'w ta_inst \<Rightarrow> 'w ta_inst res" where
  "requests sc [] fi = Some fi"
| "requests sc ((circuit, active) # rs) fi = do { fi \<leftarrow> sc fi circuit active; requests sc rs fi }"

definition called :: "'w ta_set \<Rightarrow> 'w \<times> v24_requests \<Rightarrow> 'w ta_inst \<Rightarrow> 'w ta_inst res" where
  "called sc r fi = requests sc (snd r) (upd (app_update (\<lambda>_. fst r)) fi)"

subsection \<open>Frames\<close>

definition v110_df_x_bits_are :: "v110_frame \<Rightarrow> ubit \<Rightarrow> bool" where
  "v110_df_x_bits_are df cmp \<longleftrightarrow> x_bits df ! 0 = cmp \<and> x_bits df ! 1 = cmp"

definition v110_df_s_bits_are :: "v110_frame \<Rightarrow> ubit \<Rightarrow> bool" where
  "v110_df_s_bits_are df cmp \<longleftrightarrow> list_all (\<lambda>idx. s_bits df ! idx = cmp) [0, 2, 3, 5, 7, 8]"

definition v110_df_d_bits_are :: "v110_frame \<Rightarrow> ubit \<Rightarrow> bool" where
  "v110_df_d_bits_are df cmp \<longleftrightarrow> list_all (\<lambda>i. d_bits df ! i = cmp) [0..<48]"

definition v110_ta_handle_frame :: "'w ta_set \<Rightarrow> 'w ta_inst \<Rightarrow> v110_frame \<Rightarrow> 'w ta_inst res" where
  "v110_ta_handle_frame sc fi df =
     (let c = cfg (priv fi); user_bits = replicate 48 0 in
      if rx_d_bit_mode (priv fi) \<noteq> V110_TA_DBIT_M_FORWARD then
        (case osmo_v110_sync_ra1_get_user_data_chunk_bitlen (rate c) of
           Inl _ \<Rightarrow> None
         | Inr num_user_bits \<Rightarrow>
             if num_user_bits > 0 then do {
               user_bits \<leftarrow> memset user_bits 0 (d_bit_value (rx_d_bit_mode (priv fi))) num_user_bits;
               called sc (rx_cb c (app (priv fi)) (take num_user_bits user_bits)) fi }
             else None)
      else do {
        r \<leftarrow> osmo_v110_sync_ra1_ir_to_user (rate c) user_bits 48 df;
        case r of
          Inl _ \<Rightarrow> Some fi
        | Inr (user_bits, rc) \<Rightarrow>
            if rc > 0 then called sc (rx_cb c (app (priv fi)) (take rc user_bits)) fi else Some fi })"

definition v110_ta_build_frame :: "'w ta_set \<Rightarrow> 'w ta_inst \<Rightarrow> v110_frame \<Rightarrow> ('w ta_inst \<times> v110_frame) res" where
  "v110_ta_build_frame sc fi df = do {
     e \<leftarrow> memset (e_bits df) 0 1 7;
     s \<leftarrow> memset (s_bits df) 0 (tx_s_bits (priv fi)) 9;
     x \<leftarrow> memset (x_bits df) 0 (tx_x_bits (priv fi)) 2;
     let df = df\<lparr>e_bits := e, s_bits := s, x_bits := x\<rparr>;
     let c = cfg (priv fi);
     if tx_d_bit_mode (priv fi) \<noteq> V110_TA_DBIT_M_FORWARD then do {
       d \<leftarrow> memset (d_bits df) 0 (d_bit_value (tx_d_bit_mode (priv fi))) 48;
       Some (fi, df\<lparr>d_bits := d\<rparr>) }
     else
       case osmo_v110_sync_ra1_get_user_data_chunk_bitlen (rate c) of
         Inl _ \<Rightarrow> None
       | Inr num_user_bits \<Rightarrow>
           if num_user_bits > 0 then do {
             let (user_bits, r) = tx_cb c (app (priv fi)) num_user_bits;
             fi \<leftarrow> called sc r fi;
             rc \<leftarrow> osmo_v110_sync_ra1_user_to_ir (rate c) df user_bits num_user_bits;
             case rc of Inl _ \<Rightarrow> None | Inr df \<Rightarrow> Some (fi, df) }
           else None }"

definition v110_ta_flags_update :: "'w ta_set \<Rightarrow> 'w ta_inst \<Rightarrow> u32 \<Rightarrow> 'w ta_inst res" where
  "v110_ta_flags_update sc fi flags =
     (if v24_flags (priv fi) = flags then Some fi
      else do {
        fi \<leftarrow> (case status_update_cb (cfg (priv fi)) of
                None \<Rightarrow> Some fi | Some cb \<Rightarrow> called sc (cb (app (priv fi)) flags) fi);
        Some (upd (v24_flags_update (\<lambda>_. flags)) fi) })"

definition v110_ta_fsm_timeouts :: "osmo_tdef_state_timeout list" where
  "v110_ta_fsm_timeouts = (replicate 32 \<lparr>timeout_T = 0, keep_timer = False\<rparr>)
     [V110_TA_ST_RESYNCING := \<lparr>timeout_T = OSMO_V110_TA_TIMER_X1, keep_timer = False\<rparr>,
      V110_TA_ST_CON_TA_TO_LINE := \<lparr>timeout_T = OSMO_V110_TA_TIMER_T1, keep_timer = False\<rparr>,
      V110_TA_ST_DISCONNECTING := \<lparr>timeout_T = OSMO_V110_TA_TIMER_T2, keep_timer = False\<rparr>]"


text \<open>\<open>v110_ta_fsm_state_chg\<close>, whose result the actions ignore; \<open>sts\<close> is the table below.\<close>

definition v110_ta_fsm_state_chg :: "'w v110_ta osmo_fsm_state list \<Rightarrow> nat \<Rightarrow> 'w ta_inst \<Rightarrow> 'w ta_inst res" where
  "v110_ta_fsm_state_chg sts st fi = do {
     (rc, fi) \<leftarrow> osmo_tdef_fsm_inst_state_chg sts fi st v110_ta_fsm_timeouts (Tdefs (priv fi)) 0;
     Some fi }"

subsection \<open>Entering states\<close>

definition v110_ta_fsm_idle_ready_onenter :: "'w ta_set \<Rightarrow> 'w ta_inst \<Rightarrow> nat \<Rightarrow> 'w ta_inst res" where
  "v110_ta_fsm_idle_ready_onenter sc fi prev_state =
     (let flags = v24_flags (priv fi);
          fi = upd (tx_d_bit_mode_update (\<lambda>_. V110_TA_DBIT_M_ALL_ONE)) fi;
          fi = upd (tx_s_bits_update (\<lambda>_. V110_SX_BIT_OFF)) fi;
          fi = upd (tx_x_bits_update (\<lambda>_. V110_SX_BIT_OFF)) fi;
          fi = upd (rx_d_bit_mode_update (\<lambda>_. V110_TA_DBIT_M_ALL_ONE)) fi;
          flags = V24_FLAGMASK_SET_OFF flags OSMO_V110_TA_C_106;
          flags = V24_FLAGMASK_SET_OFF flags OSMO_V110_TA_C_107;
          flags = V24_FLAGMASK_SET_OFF flags OSMO_V110_TA_C_109
      in v110_ta_flags_update sc fi flags)"

definition v110_ta_fsm_connect_ta_to_line_onenter :: "'w ta_inst \<Rightarrow> nat \<Rightarrow> 'w ta_inst res" where
  "v110_ta_fsm_connect_ta_to_line_onenter fi prev_state =
     (let fi = upd (tx_d_bit_mode_update (\<lambda>_. V110_TA_DBIT_M_ALL_ONE)) fi;
          fi = upd (tx_s_bits_update (\<lambda>_. V110_SX_BIT_OFF)) fi;
          fi = upd (tx_x_bits_update (\<lambda>_. V110_SX_BIT_OFF)) fi
      in if fi_T fi = OSMO_V110_TA_TIMER_T1 then Some fi else None)"

definition v110_ta_fsm_data_transfer_onenter :: "'w ta_set \<Rightarrow> 'w ta_inst \<Rightarrow> nat \<Rightarrow> 'w ta_inst res" where
  "v110_ta_fsm_data_transfer_onenter sc fi prev_state = do {
     let flags = v24_flags (priv fi);
     let flags = V24_FLAGMASK_SET_ON flags OSMO_V110_TA_C_107;
     let flags = V24_FLAGMASK_SET_ON flags OSMO_V110_TA_C_109;
     let fi = upd (rx_d_bit_mode_update (\<lambda>_. V110_TA_DBIT_M_FORWARD)) fi;
     let fi = upd (tx_d_bit_mode_update (\<lambda>_. V110_TA_DBIT_M_FORWARD)) fi;
     let flags = (if \<not> flow_ctrl_end_to_end (cfg (priv fi)) then V24_FLAGMASK_SET_ON flags OSMO_V110_TA_C_106 else flags);
     fi \<leftarrow> v110_ta_flags_update sc fi flags;
     let fi = upd (tx_s_bits_update (\<lambda>_. V110_SX_BIT_ON)) fi;
     Some (if \<not> flow_ctrl_end_to_end (cfg (priv fi)) then upd (tx_x_bits_update (\<lambda>_. V110_SX_BIT_ON)) fi else fi) }"

definition v110_ta_fsm_disconnect_onenter :: "'w ta_set \<Rightarrow> 'w ta_inst \<Rightarrow> nat \<Rightarrow> 'w ta_inst res" where
  "v110_ta_fsm_disconnect_onenter sc fi prev_state = do {
     let flags = v24_flags (priv fi);
     let fi = upd (tx_s_bits_update (\<lambda>_. V110_SX_BIT_OFF)) fi;
     let flags = V24_FLAGMASK_SET_OFF flags OSMO_V110_TA_C_106;
     fi \<leftarrow> v110_ta_flags_update sc fi flags;
     let fi = upd (tx_d_bit_mode_update (\<lambda>_. V110_TA_DBIT_M_ALL_ZERO)) fi;
     if fi_T fi = OSMO_V110_TA_TIMER_T2 then Some fi else None }"

definition v110_ta_fsm_resyncing_onenter :: "'w ta_inst \<Rightarrow> nat \<Rightarrow> 'w ta_inst res" where
  "v110_ta_fsm_resyncing_onenter fi prev_state =
     (let fi = upd (rx_d_bit_mode_update (\<lambda>_. V110_TA_DBIT_M_ALL_ONE)) fi;
          fi = upd (tx_x_bits_update (\<lambda>_. V110_SX_BIT_OFF)) fi
      in if fi_T fi = OSMO_V110_TA_TIMER_X1 then Some fi else None)"

text \<open>Masks, and the functions run on entering; the actions follow.\<close>

definition v110_ta_states :: "'w ta_set \<Rightarrow> 'w v110_ta osmo_fsm_state list" where
  "v110_ta_states sc =
    [\<lparr>in_event_mask = S V110_TA_EV_V24_STATUS_CHG OR S V110_TA_EV_TX_FRAME_RTS OR S V110_TA_EV_RX_FRAME_IND,
      out_state_mask = S V110_TA_ST_IDLE_READY OR S V110_TA_ST_CON_TA_TO_LINE,
      onenter = Some (v110_ta_fsm_idle_ready_onenter sc), onleave = None\<rparr>,
     \<lparr>in_event_mask = S V110_TA_EV_V24_STATUS_CHG OR S V110_TA_EV_TIMEOUT OR S V110_TA_EV_SYNC_IND
                        OR S V110_TA_EV_TX_FRAME_RTS OR S V110_TA_EV_RX_FRAME_IND,
      out_state_mask = S V110_TA_ST_DATA_TRANSFER OR S V110_TA_ST_IDLE_READY,
      onenter = Some v110_ta_fsm_connect_ta_to_line_onenter, onleave = None\<rparr>,
     \<lparr>in_event_mask = S V110_TA_EV_V24_STATUS_CHG OR S V110_TA_EV_DESYNC_IND OR S V110_TA_EV_TX_FRAME_RTS
                        OR S V110_TA_EV_RX_FRAME_IND,
      out_state_mask = S V110_TA_ST_RESYNCING OR S V110_TA_ST_DISCONNECTING,
      onenter = Some (v110_ta_fsm_data_transfer_onenter sc), onleave = None\<rparr>,
     \<lparr>in_event_mask = S V110_TA_EV_V24_STATUS_CHG OR S V110_TA_EV_TIMEOUT OR S V110_TA_EV_TX_FRAME_RTS
                        OR S V110_TA_EV_RX_FRAME_IND OR S V110_TA_EV_DESYNC_IND,
      out_state_mask = S V110_TA_ST_IDLE_READY,
      onenter = Some (v110_ta_fsm_disconnect_onenter sc), onleave = None\<rparr>,
     \<lparr>in_event_mask = S V110_TA_EV_V24_STATUS_CHG OR S V110_TA_EV_TIMEOUT OR S V110_TA_EV_TX_FRAME_RTS
                        OR S V110_TA_EV_SYNC_IND,
      out_state_mask = S V110_TA_ST_IDLE_READY OR S V110_TA_ST_DATA_TRANSFER,
      onenter = Some v110_ta_fsm_resyncing_onenter, onleave = None\<rparr>]"

subsection \<open>Actions\<close>

text \<open>The data of an event is the frame received or the frame to fill; \<^const>\<open>None\<close> is the null pointer of the others.\<close>

definition v110_ta_tx :: "'w ta_set \<Rightarrow> 'w ta_inst \<Rightarrow> v110_frame option \<Rightarrow> ('w ta_inst \<times> v110_frame option) res" where
  "v110_ta_tx sc fi data = do { df \<leftarrow> data; (fi, df) \<leftarrow> v110_ta_build_frame sc fi df; Some (fi, Some df) }"

definition v110_ta_rx :: "'w ta_set \<Rightarrow> 'w ta_inst \<Rightarrow> v110_frame option \<Rightarrow> ('w ta_inst \<times> v110_frame option) res" where
  "v110_ta_rx sc fi data = do { df \<leftarrow> data; fi \<leftarrow> v110_ta_handle_frame sc fi df; Some (fi, data) }"

definition v110_ta_fsm_idle_ready :: "'w ta_set \<Rightarrow> ('w v110_ta, v110_frame option) fsm_action" where
  "v110_ta_fsm_idle_ready sc fi event data =
     (if event = V110_TA_EV_V24_STATUS_CHG then
        if V24_FLAGMASK_IS_ON (v24_flags (priv fi)) OSMO_V110_TA_C_108
        then do { fi \<leftarrow> v110_ta_fsm_state_chg (v110_ta_states sc) V110_TA_ST_CON_TA_TO_LINE fi; Some (fi, data) }
        else Some (fi, data)
      else if event = V110_TA_EV_RX_FRAME_IND then v110_ta_rx sc fi data
      else if event = V110_TA_EV_TX_FRAME_RTS then v110_ta_tx sc fi data
      else None)"

definition v110_ta_fsm_connect_ta_to_line :: "'w ta_set \<Rightarrow> ('w v110_ta, v110_frame option) fsm_action" where
  "v110_ta_fsm_connect_ta_to_line sc fi event data =
     (if event = V110_TA_EV_V24_STATUS_CHG then
        if V24_FLAGMASK_IS_OFF (v24_flags (priv fi)) OSMO_V110_TA_C_108
        then do { fi \<leftarrow> v110_ta_fsm_state_chg (v110_ta_states sc) V110_TA_ST_IDLE_READY fi; Some (fi, data) }
        else Some (fi, data)
      else if event = V110_TA_EV_SYNC_IND then
        if V24_FLAGMASK_IS_ON (v24_flags (priv fi)) OSMO_V110_TA_C_108
        then Some (upd (tx_x_bits_update (\<lambda>_. V110_SX_BIT_ON)) (upd (tx_s_bits_update (\<lambda>_. V110_SX_BIT_ON)) fi), data)
        else None
      else if event = V110_TA_EV_RX_FRAME_IND then do {
        df \<leftarrow> data;
        let flags = v24_flags (priv fi);
        fi \<leftarrow> (if v110_df_s_bits_are df V110_SX_BIT_ON \<and> v110_df_x_bits_are df V110_SX_BIT_ON then do {
            let flags = V24_FLAGMASK_SET_ON flags OSMO_V110_TA_C_107;
            let fi = fi\<lparr>timer := None\<rparr>;
            let flags = V24_FLAGMASK_SET_ON flags OSMO_V110_TA_C_109;
            let fi = upd (rx_d_bit_mode_update (\<lambda>_. V110_TA_DBIT_M_FORWARD)) fi;
            let flags = V24_FLAGMASK_SET_ON flags OSMO_V110_TA_C_106;
            let fi = upd (tx_d_bit_mode_update (\<lambda>_. V110_TA_DBIT_M_FORWARD)) fi;
            fi \<leftarrow> v110_ta_flags_update sc fi flags;
            v110_ta_fsm_state_chg (v110_ta_states sc) V110_TA_ST_DATA_TRANSFER fi }
          else Some fi);
        v110_ta_rx sc fi data }
      else if event = V110_TA_EV_TX_FRAME_RTS then v110_ta_tx sc fi data
      else if event = V110_TA_EV_TIMEOUT then do {
        fi \<leftarrow> v110_ta_fsm_state_chg (v110_ta_states sc) V110_TA_ST_IDLE_READY fi; Some (fi, data) }
      else None)"

definition v110_ta_fsm_data_transfer :: "'w ta_set \<Rightarrow> ('w v110_ta, v110_frame option) fsm_action" where
  "v110_ta_fsm_data_transfer sc fi event data =
     (if event = V110_TA_EV_V24_STATUS_CHG then
        if V24_FLAGMASK_IS_ON (v24_flags (priv fi)) OSMO_V110_TA_C_108 then Some (fi, data)
        else do { fi \<leftarrow> v110_ta_fsm_state_chg (v110_ta_states sc) V110_TA_ST_DISCONNECTING fi; Some (fi, data) }
      else if event = V110_TA_EV_DESYNC_IND then do {
        fi \<leftarrow> v110_ta_fsm_state_chg (v110_ta_states sc) V110_TA_ST_RESYNCING fi; Some (fi, data) }
      else if event = V110_TA_EV_TX_FRAME_RTS then v110_ta_tx sc fi data
      else if event = V110_TA_EV_RX_FRAME_IND then do {
        df \<leftarrow> data;
        let flags = v24_flags (priv fi);
        if v110_df_s_bits_are df V110_SX_BIT_OFF \<and> v110_df_d_bits_are df 0 then do {
          let flags = V24_FLAGMASK_SET_OFF flags OSMO_V110_TA_C_107;
          let flags = V24_FLAGMASK_SET_OFF flags OSMO_V110_TA_C_109;
          fi \<leftarrow> v110_ta_flags_update sc fi flags;
          Some (fi, data) }
        else v110_ta_rx sc fi data }
      else None)"

definition v110_ta_fsm_disconnect :: "'w ta_set \<Rightarrow> ('w v110_ta, v110_frame option) fsm_action" where
  "v110_ta_fsm_disconnect sc fi event data =
     (if event = V110_TA_EV_V24_STATUS_CHG then Some (fi, data)
      else if event = V110_TA_EV_TX_FRAME_RTS then v110_ta_tx sc fi data
      else if event = V110_TA_EV_RX_FRAME_IND then do {
        df \<leftarrow> data;
        fi \<leftarrow> (if v110_df_s_bits_are df V110_SX_BIT_OFF
               then v110_ta_fsm_state_chg (v110_ta_states sc) V110_TA_ST_IDLE_READY fi else Some fi);
        v110_ta_rx sc fi data }
      else if event = V110_TA_EV_DESYNC_IND \<or> event = V110_TA_EV_TIMEOUT then do {
        fi \<leftarrow> v110_ta_fsm_state_chg (v110_ta_states sc) V110_TA_ST_IDLE_READY fi; Some (fi, data) }
      else None)"

definition v110_ta_fsm_resyncing :: "'w ta_set \<Rightarrow> ('w v110_ta, v110_frame option) fsm_action" where
  "v110_ta_fsm_resyncing sc fi event data =
     (let flags = v24_flags (priv fi) in
      if event = V110_TA_EV_V24_STATUS_CHG then Some (fi, data)
      else if event = V110_TA_EV_TX_FRAME_RTS then v110_ta_tx sc fi data
      else if event = V110_TA_EV_SYNC_IND then do {
        let fi = upd (tx_x_bits_update (\<lambda>_. V110_SX_BIT_ON)) fi;
        fi \<leftarrow> v110_ta_fsm_state_chg (v110_ta_states sc) V110_TA_ST_DATA_TRANSFER fi;
        Some (fi, data) }
      else if event = V110_TA_EV_TIMEOUT then do {
        let fi = upd (tx_s_bits_update (\<lambda>_. V110_SX_BIT_OFF)) fi;
        let fi = upd (tx_x_bits_update (\<lambda>_. V110_SX_BIT_OFF)) fi;
        let fi = upd (tx_d_bit_mode_update (\<lambda>_. V110_TA_DBIT_M_ALL_ZERO)) fi;
        let flags = V24_FLAGMASK_SET_OFF flags OSMO_V110_TA_C_107;
        fi \<leftarrow> v110_ta_flags_update sc fi flags;
        fi \<leftarrow> v110_ta_fsm_state_chg (v110_ta_states sc) V110_TA_ST_DISCONNECTING fi;
        Some (fi, data) }
      else None)"

definition osmo_v110_ta_fsm0 :: "'w ta_set \<Rightarrow> ('w v110_ta, v110_frame option) osmo_fsm" where
  "osmo_v110_ta_fsm0 sc =
     \<lparr>states = v110_ta_states sc,
      actions = [Some (v110_ta_fsm_idle_ready sc), Some (v110_ta_fsm_connect_ta_to_line sc), Some (v110_ta_fsm_data_transfer sc),
                 Some (v110_ta_fsm_disconnect sc), Some (v110_ta_fsm_resyncing sc)],
      allstate_event_mask = 0, allstate_action = None, timer_cb = None\<rparr>"

definition v110_ta_timer_cb :: "'w ta_set \<Rightarrow> 'w ta_inst \<Rightarrow> (int \<times> 'w ta_inst) res" where
  "v110_ta_timer_cb sc fi = do {
     (rc, fi, _) \<leftarrow> osmo_fsm_inst_dispatch (osmo_v110_ta_fsm0 sc) fi V110_TA_EV_TIMEOUT None;
     Some (0, fi) }"

definition osmo_v110_ta_fsm :: "'w ta_set \<Rightarrow> ('w v110_ta, v110_frame option) osmo_fsm" where
  "osmo_v110_ta_fsm sc = osmo_v110_ta_fsm0 sc\<lparr>timer_cb := Some (v110_ta_timer_cb sc)\<rparr>"

subsection \<open>Interface\<close>

definition osmo_v110_ta_alloc :: "'w ta_set \<Rightarrow> 'w v110_ta_cfg \<Rightarrow> 'w \<Rightarrow> 'w ta_inst option res" where
  "osmo_v110_ta_alloc sc c w =
     (if flow_ctrl_local c \<noteq> OSMO_V110_LOCAL_FLOW_CTRL_NONE then Some None
      else do {
        tdefs \<leftarrow> osmo_tdefs_reset v110_ta_tdef;
        let fi = osmo_fsm_inst_alloc \<lparr>Tdefs = tdefs, cfg = c, v24_flags = 0, tx_d_bit_mode = V110_TA_DBIT_M_ALL_ZERO, tx_s_bits = 0,
          tx_x_bits = 0, rx_d_bit_mode = V110_TA_DBIT_M_ALL_ZERO, app = w\<rparr>;
        (rc, fi) \<leftarrow> osmo_fsm_inst_state_chg (v110_ta_states sc) fi V110_TA_ST_IDLE_READY 0 0;
        Some (Some fi) })"

definition osmo_v110_ta_set_timer_val_ms :: "'w ta_inst \<Rightarrow> int \<Rightarrow> nat \<Rightarrow> (errno option \<times> 'w ta_inst) res" where
  "osmo_v110_ta_set_timer_val_ms fi T val_ms = do {
     r \<leftarrow> osmo_tdef_set (Tdefs (priv fi)) T val_ms OSMO_TDEF_MS;
     Some (case r of Inl e \<Rightarrow> (Some e, fi) | Inr tdefs \<Rightarrow> (None, upd (Tdefs_update (\<lambda>_. tdefs)) fi)) }"

definition ta_dispatch :: "'w ta_set \<Rightarrow> 'w ta_inst \<Rightarrow> nat \<Rightarrow> v110_frame option \<Rightarrow> (errno option \<times> 'w ta_inst \<times> v110_frame option) res" where
  "ta_dispatch sc = osmo_fsm_inst_dispatch (osmo_v110_ta_fsm sc)"

definition osmo_v110_ta_frame_in :: "'w ta_set \<Rightarrow> 'w ta_inst \<Rightarrow> v110_frame \<Rightarrow> (errno option \<times> 'w ta_inst) res" where
  "osmo_v110_ta_frame_in sc fi df = do { (rc, fi, _) \<leftarrow> ta_dispatch sc fi V110_TA_EV_RX_FRAME_IND (Some df); Some (rc, fi) }"

definition osmo_v110_ta_frame_out :: "'w ta_set \<Rightarrow> 'w ta_inst \<Rightarrow> v110_frame \<Rightarrow> (errno option \<times> 'w ta_inst \<times> v110_frame) res" where
  "osmo_v110_ta_frame_out sc fi out = do {
     (rc, fi, df) \<leftarrow> ta_dispatch sc fi V110_TA_EV_TX_FRAME_RTS (Some out); df \<leftarrow> df; Some (rc, fi, df) }"

definition osmo_v110_ta_sync_ind :: "'w ta_set \<Rightarrow> 'w ta_inst \<Rightarrow> (errno option \<times> 'w ta_inst) res" where
  "osmo_v110_ta_sync_ind sc fi = do { (rc, fi, _) \<leftarrow> ta_dispatch sc fi V110_TA_EV_SYNC_IND None; Some (rc, fi) }"

definition osmo_v110_ta_desync_ind :: "'w ta_set \<Rightarrow> 'w ta_inst \<Rightarrow> (errno option \<times> 'w ta_inst) res" where
  "osmo_v110_ta_desync_ind sc fi = do { (rc, fi, _) \<leftarrow> ta_dispatch sc fi V110_TA_EV_DESYNC_IND None; Some (rc, fi) }"

definition osmo_v110_ta_get_status :: "'w ta_inst \<Rightarrow> u32" where
  "osmo_v110_ta_get_status fi = v24_flags (priv fi)"

definition v110_ta_set_status :: "'w ta_set \<Rightarrow> 'w ta_inst \<Rightarrow> u32 \<Rightarrow> (errno option \<times> 'w ta_inst) res" where
  "v110_ta_set_status sc fi status =
     (let old_status = v24_flags (priv fi); fi = upd (v24_flags_update (\<lambda>_. status)) fi in
      if status \<noteq> old_status
      then do { (rc, fi, _) \<leftarrow> ta_dispatch sc fi V110_TA_EV_V24_STATUS_CHG None; Some (rc, fi) }
      else Some (None, fi))"

definition osmo_v110_ta_get_circuit :: "'w ta_inst \<Rightarrow> nat \<Rightarrow> bool" where
  "osmo_v110_ta_get_circuit fi circuit = V24_FLAGMASK_IS_ON (v24_flags (priv fi)) circuit"

definition osmo_v110_ta_set_circuit :: "'w ta_set \<Rightarrow> 'w ta_inst \<Rightarrow> nat \<Rightarrow> bool \<Rightarrow> (errno option \<times> 'w ta_inst) res" where
  "osmo_v110_ta_set_circuit sc fi circuit active =
     (let status = v24_flags (priv fi) in
      if circuit \<noteq> OSMO_V110_TA_C_105 \<and> circuit \<noteq> OSMO_V110_TA_C_108 \<and> circuit \<noteq> OSMO_V110_TA_C_133 then Some (Some EACCES, fi)
      else if active then v110_ta_set_status sc fi (V24_FLAGMASK_SET_ON status circuit)
      else v110_ta_set_status sc fi (V24_FLAGMASK_SET_OFF status circuit))"

text \<open>Calls from inside a call-back, nested at most \<open>n\<close> deep. An application that does not call back needs none.\<close>

primrec nested :: "nat \<Rightarrow> 'w ta_set" where
  "nested 0 = (\<lambda>fi circuit active. None)"
| "nested (Suc n) = (\<lambda>fi circuit active. do { (rc, fi) \<leftarrow> osmo_v110_ta_set_circuit (nested n) fi circuit active; Some fi })"

text \<open>The timer expires.\<close>

definition ta_timer_expires :: "'w ta_set \<Rightarrow> 'w ta_inst \<Rightarrow> 'w ta_inst res" where
  "ta_timer_expires sc fi =
     (if timer fi = None then Some fi
      else do { (terminate, fi) \<leftarrow> fsm_tmr_cb (osmo_v110_ta_fsm sc) (fi\<lparr>timer := None\<rparr>); if terminate then None else Some fi })"


section \<open>Properties\<close>

named_theorems ta \<open>the terminal adapter of an application that does not call back\<close>

subsection \<open>Circuits\<close>

lemma on_bit [ta]: "V24_FLAGMASK_IS_ON flags c \<longleftrightarrow> bit flags c"
  by (simp add: V24_FLAGMASK_IS_ON_def S_def flag_in_mask)

lemma off_bit [ta]: "V24_FLAGMASK_IS_OFF flags c \<longleftrightarrow> \<not> bit flags c"
  by (simp add: V24_FLAGMASK_IS_OFF_def S_def flag_in_mask)

lemma bit_set_on [ta]: "bit (V24_FLAGMASK_SET_ON flags c) n \<longleftrightarrow> bit flags n \<or> n = c \<and> n < 32"
  by (auto simp: V24_FLAGMASK_SET_ON_def S_def bit_simps)

lemma bit_set_off [ta]: "bit (V24_FLAGMASK_SET_OFF flags c) n \<longleftrightarrow> bit flags n \<and> n \<noteq> c"
  by (auto simp: V24_FLAGMASK_SET_OFF_def S_def bit_simps dest: bit_imp_le_length)

subsection \<open>Applications that do not call back\<close>

definition quiet :: "'w v110_ta_cfg \<Rightarrow> bool" where
  "quiet c \<longleftrightarrow> (\<forall>w bits. snd (rx_cb c w bits) = []) \<and>
     (\<forall>w n. snd (snd (tx_cb c w n)) = [] \<and> length (fst (tx_cb c w n)) = n) \<and>
     (\<forall>cb w flags. status_update_cb c = Some cb \<longrightarrow> snd (cb w flags) = [])"

definition status_seen :: "'w v110_ta_cfg \<Rightarrow> 'w \<Rightarrow> u32 \<Rightarrow> 'w" where
  "status_seen c w flags = (case status_update_cb c of None \<Rightarrow> w | Some cb \<Rightarrow> fst (cb w flags))"

definition set_flags :: "u32 \<Rightarrow> 'w v110_ta \<Rightarrow> 'w v110_ta" where
  "set_flags flags p = (if v24_flags p = flags then p else p\<lparr>app := status_seen (cfg p) (app p) flags, v24_flags := flags\<rparr>)"

lemma flags_update_quiet: "quiet (cfg (priv fi)) \<Longrightarrow> v110_ta_flags_update sc fi flags = Some (upd (set_flags flags) fi)"
  by (auto simp: v110_ta_flags_update_def quiet_def status_seen_def set_flags_def called_def upd_def split: option.splits)

lemma set_flags_simps [simp]:
  "Tdefs (set_flags f p) = Tdefs p" "cfg (set_flags f p) = cfg p" "v24_flags (set_flags f p) = f"
  "tx_d_bit_mode (set_flags f p) = tx_d_bit_mode p" "tx_s_bits (set_flags f p) = tx_s_bits p"
  "tx_x_bits (set_flags f p) = tx_x_bits p" "rx_d_bit_mode (set_flags f p) = rx_d_bit_mode p"
  by (simp_all add: set_flags_def)

lemma upd_simps [simp]:
  "state (upd f fi) = state fi" "fi_T (upd f fi) = fi_T fi" "timer (upd f fi) = timer fi"
  "terminating (upd f fi) = terminating fi" "priv (upd f fi) = f (priv fi)"
  by (simp_all add: upd_def)

subsection \<open>The table\<close>

definition ta_next :: "nat \<Rightarrow> nat \<Rightarrow> bool" where
  "ta_next s n \<longleftrightarrow> n \<in> [{0, 1}, {0, 2}, {3, 4}, {0}, {0, 2}] ! s"

definition ta_accepts :: "nat \<Rightarrow> nat \<Rightarrow> bool" where
  "ta_accepts s ev \<longleftrightarrow> ev \<in> [{0, 1, 2}, {0, 1, 2, 3, 5}, {0, 1, 2, 4}, {0, 1, 2, 4, 5}, {1, 2, 3, 5}] ! s"

lemma less_five: "(n::nat) < 5 \<longleftrightarrow> n = 0 \<or> n = 1 \<or> n = 2 \<or> n = 3 \<or> n = 4"
  by auto

lemma length_states [simp]: "length (v110_ta_states sc) = 5"
  by (simp add: v110_ta_states_def)

lemma bit_S: "bit (S c) n \<longleftrightarrow> n = c \<and> n < 32"
  by (auto simp: S_def bit_simps)

lemma out_mask: "s < 5 \<Longrightarrow> permits (out_state_mask (v110_ta_states sc ! s)) n \<longleftrightarrow> ta_next s n"
  by (auto simp: less_five v110_ta_states_def permits_def ta_next_def bit_or_iff bit_S)

lemma in_mask: "s < 5 \<Longrightarrow> permits (in_event_mask (v110_ta_states sc ! s)) n \<longleftrightarrow> ta_accepts s n"
  by (auto simp: less_five v110_ta_states_def permits_def ta_accepts_def bit_or_iff bit_S)

text \<open>The timers of the states; only their values may change.\<close>

definition ta_tdefs :: "nat \<Rightarrow> nat \<Rightarrow> nat \<Rightarrow> osmo_tdef list" where
  "ta_tdefs x1 t1 t2 = v110_ta_tdef[0 := (v110_ta_tdef ! 0)\<lparr>tdef_val := x1\<rparr>,
     1 := (v110_ta_tdef ! 1)\<lparr>tdef_val := t1\<rparr>, 2 := (v110_ta_tdef ! 2)\<lparr>tdef_val := t2\<rparr>]"

definition ta_T :: "nat \<Rightarrow> int" where
  "ta_T n = [0, 1, 0, 2, -1] ! n"

definition ta_ms :: "osmo_tdef list \<Rightarrow> nat \<Rightarrow> nat" where
  "ta_ms td n = [0, tdef_val (td ! 1), 0, tdef_val (td ! 2), tdef_val (td ! 0)] ! n"

definition ta_base :: "'w ta_inst \<Rightarrow> bool" where
  "ta_base fi \<longleftrightarrow> \<not> terminating fi \<and> state fi < 5 \<and> quiet (cfg (priv fi)) \<and> sync_ra1 (rate (cfg (priv fi))) \<noteq> None \<and>
     (\<exists>x1 t1 t2. Tdefs (priv fi) = ta_tdefs x1 t1 t2)"

lemma timeouts:
  "n < 5 \<Longrightarrow> osmo_tdef_get_state_timeout n v110_ta_fsm_timeouts =
     Some (if ta_T n = 0 then None else Some \<lparr>timeout_T = ta_T n, keep_timer = False\<rparr>)"
  by (auto simp: less_five osmo_tdef_get_state_timeout_def v110_ta_fsm_timeouts_def rd_def ta_T_def)

lemma entries:
  "osmo_tdef_get_entry (ta_tdefs x1 t1 t2) (-1) = Some (Some 0)" "osmo_tdef_get_entry (ta_tdefs x1 t1 t2) 1 = Some (Some 1)"
  "osmo_tdef_get_entry (ta_tdefs x1 t1 t2) 2 = Some (Some 2)"
  by (simp_all add: ta_tdefs_def v110_ta_tdef_def tdef_used_def)

lemma round_same [simp]: "osmo_tdef_round v u u = v"
  by (simp add: osmo_tdef_round_def osmo_tdef_factor_def)

lemma ta_state_chg:
  assumes "ta_base fi" "n < 5"
  shows "v110_ta_fsm_state_chg (v110_ta_states sc) n fi =
    (if ta_next (state fi) n
     then call_opt (onenter (v110_ta_states sc ! n)) (started (fi\<lparr>state := n\<rparr>) False (ta_ms (Tdefs (priv fi)) n) (ta_T n)) (state fi)
     else Some fi)"
proof -
  obtain x1 t1 t2 where td: "Tdefs (priv fi) = ta_tdefs x1 t1 t2" using assms by (auto simp: ta_base_def)
  have b: "\<not> terminating fi" "state fi < 5" using assms by (auto simp: ta_base_def)
  have leave: "onleave (v110_ta_states sc ! state fi) = None" using b by (auto simp: less_five v110_ta_states_def)
  have "osmo_tdef_fsm_inst_state_chg (v110_ta_states sc) fi n v110_ta_fsm_timeouts (Tdefs (priv fi)) 0 =
    state_chg (v110_ta_states sc) fi n False (ta_ms (Tdefs (priv fi)) n) (ta_T n)"
    using assms(2) unfolding osmo_tdef_fsm_inst_state_chg_def timeouts [OF assms(2)]
    by (auto simp: less_five ta_T_def ta_ms_def td entries Let_def osmo_fsm_inst_state_chg_def osmo_fsm_inst_state_chg_ms_def
        wrap_ulong_def) (simp_all add: ta_tdefs_def v110_ta_tdef_def)
  moreover have "state_chg (v110_ta_states sc) fi n False (ta_ms (Tdefs (priv fi)) n) (ta_T n) =
    (if ta_next (state fi) n
     then do { fi \<leftarrow> call_opt (onenter (v110_ta_states sc ! n)) (started (fi\<lparr>state := n\<rparr>) False (ta_ms (Tdefs (priv fi)) n) (ta_T n))
                      (state fi); Some (None, fi) }
     else Some (Some EPERM, fi))"
    using state_chg_permitted [of fi "v110_ta_states sc" n] state_chg_refused [of fi "v110_ta_states sc" n] b assms(2) leave
    by (simp add: out_mask)
  ultimately show ?thesis by (simp add: v110_ta_fsm_state_chg_def)
qed


subsection \<open>Frames of an application that does not call back\<close>

definition chunk_of :: "'w v110_ta \<Rightarrow> nat" where
  "chunk_of p = (case osmo_v110_sync_ra1_get_user_data_chunk_bitlen (rate (cfg p)) of Inl _ \<Rightarrow> 0 | Inr n \<Rightarrow> n)"

definition received :: "'w v110_ta \<Rightarrow> v110_frame \<Rightarrow> ubit list option" where
  "received p df =
     (if rx_d_bit_mode p \<noteq> V110_TA_DBIT_M_FORWARD then Some (replicate (chunk_of p) (d_bit_value (rx_d_bit_mode p)))
      else case osmo_v110_sync_ra1_ir_to_user (rate (cfg p)) (replicate 48 0) 48 df of
        Some (Inr (bits, rc)) \<Rightarrow> Some (take rc bits)
      | _ \<Rightarrow> None)"

definition hand :: "v110_frame \<Rightarrow> 'w v110_ta \<Rightarrow> 'w v110_ta" where
  "hand df p = (case received p df of None \<Rightarrow> p | Some bits \<Rightarrow> p\<lparr>app := fst (rx_cb (cfg p) (app p) bits)\<rparr>)"

lemma called_quiet: "snd r = [] \<Longrightarrow> called sc r fi = Some (upd (app_update (\<lambda>_. fst r)) fi)"
  by (simp add: called_def)

lemma handle_quiet:
  assumes "ta_base fi" "wf_frame df"
  shows "v110_ta_handle_frame sc fi df = Some (upd (hand df) fi)"
proof -
  let ?p = "priv fi"
  obtain ra where ra: "sync_ra1 (rate (cfg ?p)) = Some ra" using assms by (auto simp: ta_base_def)
  have q: "snd (rx_cb (cfg ?p) w bits) = []" for w bits using assms by (simp add: ta_base_def quiet_def)
  obtain u where u: "length u = user_data_chunk_bits ra" "0 < user_data_chunk_bits ra" "user_data_chunk_bits ra \<le> 48"
    "osmo_v110_sync_ra1_ir_to_user (rate (cfg ?p)) (replicate 48 0) 48 df =
      Some (if take 3 (e_bits df) = osmo_v110_e1e2e3 ! nat (rate (cfg ?p))
            then Inr (u @ replicate (48 - user_data_chunk_bits ra) 0, user_data_chunk_bits ra) else Inl EINVAL)"
    using ra1_receive [OF ra assms(2), of "replicate 48 0"] ra1_receive [OF ra assms(2), of "replicate (user_data_chunk_bits ra) 0"]
    by auto
  show ?thesis
  proof (cases "rx_d_bit_mode ?p = V110_TA_DBIT_M_FORWARD")
    case True
    with u show ?thesis
      by (cases "take 3 (e_bits df) = osmo_v110_e1e2e3 ! nat (rate (cfg ?p))")
        (simp_all add: v110_ta_handle_frame_def hand_def received_def called_quiet [OF q] Let_def upd_def)
  next
    case False
    with u ra show ?thesis
      by (simp add: v110_ta_handle_frame_def hand_def received_def called_quiet [OF q] chunk_of_def memset_def memcpy_def
          osmo_v110_sync_ra1_get_user_data_chunk_bitlen_def Let_def upd_def)
  qed
qed


definition frame_sent :: "'w v110_ta \<Rightarrow> v110_frame \<Rightarrow> v110_frame" where
  "frame_sent p df =
     (let df = df\<lparr>e_bits := replicate 7 1, s_bits := replicate 9 (tx_s_bits p), x_bits := replicate 2 (tx_x_bits p)\<rparr> in
      if tx_d_bit_mode p \<noteq> V110_TA_DBIT_M_FORWARD then df\<lparr>d_bits := replicate 48 (d_bit_value (tx_d_bit_mode p))\<rparr>
      else case osmo_v110_sync_ra1_user_to_ir (rate (cfg p)) df (fst (tx_cb (cfg p) (app p) (chunk_of p))) (chunk_of p) of
        Some (Inr df) \<Rightarrow> df
      | _ \<Rightarrow> df)"

definition taken :: "'w v110_ta \<Rightarrow> 'w v110_ta" where
  "taken p = (if tx_d_bit_mode p = V110_TA_DBIT_M_FORWARD
    then p\<lparr>app := fst (snd (tx_cb (cfg p) (app p) (chunk_of p)))\<rparr> else p)"

lemma memset_all [simp]: "length d = n \<Longrightarrow> memset d 0 v n = Some (replicate n v)"
  by (simp add: memset_def memcpy_def)

lemma chunk_of_ra: "sync_ra1 (rate (cfg p)) = Some ra \<Longrightarrow>
    osmo_v110_sync_ra1_get_user_data_chunk_bitlen (rate (cfg p)) = Inr (chunk_of p) \<and> chunk_of p = user_data_chunk_bits ra"
  by (simp add: chunk_of_def osmo_v110_sync_ra1_get_user_data_chunk_bitlen_def)

lemma build_quiet:
  assumes "ta_base fi" "wf_frame df"
  shows "v110_ta_build_frame sc fi df = Some (upd taken fi, frame_sent (priv fi) df) \<and> wf_frame (frame_sent (priv fi) df)"
proof -
  let ?p = "priv fi"
  let ?df = "df\<lparr>e_bits := replicate 7 1, s_bits := replicate 9 (tx_s_bits ?p), x_bits := replicate 2 (tx_x_bits ?p)\<rparr>"
  let ?t = "tx_cb (cfg ?p) (app ?p) (chunk_of ?p)"
  obtain ra where ra: "sync_ra1 (rate (cfg ?p)) = Some ra" using assms by (auto simp: ta_base_def)
  have wf: "wf_frame ?df" using assms(2) by (simp add: wf_frame_def del: wf_frameD)
  have q: "snd (snd ?t) = []" "length (fst ?t) = chunk_of ?p" using assms by (simp_all add: ta_base_def quiet_def)
  have n: "0 < chunk_of ?p" using ra1_receive [OF ra wf, of "replicate (user_data_chunk_bits ra) 0"] chunk_of_ra [OF ra] by auto
  obtain fr' where fr': "osmo_v110_sync_ra1_user_to_ir (rate (cfg ?p)) ?df (fst ?t) (chunk_of ?p) = Some (Inr fr')" "wf_frame fr'"
    using ra1_send [OF ra wf, of "fst ?t"] q chunk_of_ra [OF ra] by auto
  obtain bits w where t: "?t = (bits, w, [])" using q by (cases ?t) (auto simp: prod_eq_iff)
  show ?thesis
  proof (cases "tx_d_bit_mode ?p = V110_TA_DBIT_M_FORWARD")
    case True
    with t n fr' assms chunk_of_ra [OF ra] show ?thesis
      by (simp add: v110_ta_build_frame_def Let_def called_def frame_sent_def taken_def upd_def)
  next
    case False
    with assms wf show ?thesis
      by (cases fi) (simp add: v110_ta_build_frame_def Let_def frame_sent_def taken_def upd_def wf_frame_def del: wf_frameD)
  qed
qed

lemma hand_simps [simp]:
  "Tdefs (hand df p) = Tdefs p" "cfg (hand df p) = cfg p" "v24_flags (hand df p) = v24_flags p"
  "tx_d_bit_mode (hand df p) = tx_d_bit_mode p" "tx_s_bits (hand df p) = tx_s_bits p"
  "tx_x_bits (hand df p) = tx_x_bits p" "rx_d_bit_mode (hand df p) = rx_d_bit_mode p"
  by (simp_all add: hand_def split: option.splits)

lemma taken_simps [simp]:
  "Tdefs (taken p) = Tdefs p" "cfg (taken p) = cfg p" "v24_flags (taken p) = v24_flags p"
  "tx_d_bit_mode (taken p) = tx_d_bit_mode p" "tx_s_bits (taken p) = tx_s_bits p"
  "tx_x_bits (taken p) = tx_x_bits p" "rx_d_bit_mode (taken p) = rx_d_bit_mode p"
  by (simp_all add: taken_def)

subsection \<open>Entering a state\<close>

definition circuits_off :: "u32 \<Rightarrow> u32" where
  "circuits_off flags = V24_FLAGMASK_SET_OFF (V24_FLAGMASK_SET_OFF (V24_FLAGMASK_SET_OFF flags
     OSMO_V110_TA_C_106) OSMO_V110_TA_C_107) OSMO_V110_TA_C_109"

definition circuits_on :: "u32 \<Rightarrow> u32" where
  "circuits_on flags = V24_FLAGMASK_SET_ON (V24_FLAGMASK_SET_ON flags OSMO_V110_TA_C_107) OSMO_V110_TA_C_109"

fun enter :: "nat \<Rightarrow> 'w v110_ta \<Rightarrow> 'w v110_ta" where
  "enter n p =
     (if n = 0 then set_flags (circuits_off (v24_flags p)) (p\<lparr>tx_d_bit_mode := V110_TA_DBIT_M_ALL_ONE, tx_s_bits := 1, tx_x_bits := 1,
        rx_d_bit_mode := V110_TA_DBIT_M_ALL_ONE\<rparr>)
      else if n = 1 then p\<lparr>tx_d_bit_mode := V110_TA_DBIT_M_ALL_ONE, tx_s_bits := 1, tx_x_bits := 1\<rparr>
      else if n = 2 then
        (set_flags (if flow_ctrl_end_to_end (cfg p) then circuits_on (v24_flags p)
                    else V24_FLAGMASK_SET_ON (circuits_on (v24_flags p)) OSMO_V110_TA_C_106)
          (p\<lparr>rx_d_bit_mode := V110_TA_DBIT_M_FORWARD, tx_d_bit_mode := V110_TA_DBIT_M_FORWARD\<rparr>))
        \<lparr>tx_s_bits := 0, tx_x_bits := if flow_ctrl_end_to_end (cfg p) then tx_x_bits p else 0\<rparr>
      else if n = 3 then
        (set_flags (V24_FLAGMASK_SET_OFF (v24_flags p) OSMO_V110_TA_C_106) (p\<lparr>tx_s_bits := 1\<rparr>))
        \<lparr>tx_d_bit_mode := V110_TA_DBIT_M_ALL_ZERO\<rparr>
      else p\<lparr>rx_d_bit_mode := V110_TA_DBIT_M_ALL_ONE, tx_x_bits := 1\<rparr>)"

definition entered :: "nat \<Rightarrow> 'w ta_inst \<Rightarrow> 'w ta_inst" where
  "entered n fi = upd (enter n) (started (fi\<lparr>state := n\<rparr>) False (ta_ms (Tdefs (priv fi)) n) (ta_T n))"

lemma started_simps [simp]:
  "state (started fi False ms T) = state fi" "fi_T (started fi False ms T) = T"
  "timer (started fi False ms T) = (if ms = 0 then None else osmo_timer_schedule (ms div 1000) (ms mod 1000 * 1000))"
  "terminating (started fi False ms T) = terminating fi" "priv (started fi False ms T) = priv fi"
  by (simp_all add: started_def)

lemma upd_upd [simp]: "upd f (upd g fi) = upd (f \<circ> g) fi"
  by (simp add: upd_def)

lemma upd_cong: "f (priv fi) = g (priv fi) \<Longrightarrow> upd f fi = upd g fi"
  by (simp add: upd_def)

lemma onenter_entered:
  assumes "quiet (cfg (priv fi))" "n < 5"
  shows "call_opt (onenter (v110_ta_states sc ! n)) (started (fi\<lparr>state := n\<rparr>) False (ta_ms (Tdefs (priv fi)) n) (ta_T n)) prev =
    Some (entered n fi)"
  using assms
  by (auto simp: less_five v110_ta_states_def entered_def v110_ta_fsm_idle_ready_onenter_def
      v110_ta_fsm_connect_ta_to_line_onenter_def v110_ta_fsm_data_transfer_onenter_def v110_ta_fsm_disconnect_onenter_def
      v110_ta_fsm_resyncing_onenter_def flags_update_quiet Let_def ta_T_def circuits_off_def circuits_on_def intro!: upd_cong)

lemma goto: "ta_base fi \<Longrightarrow> n < 5 \<Longrightarrow>
    v110_ta_fsm_state_chg (v110_ta_states sc) n fi = Some (if ta_next (state fi) n then entered n fi else fi)"
  using ta_state_chg [of fi n sc] onenter_entered [of fi n] by (simp add: ta_base_def)

subsection \<open>Events\<close>

definition connect :: "'w v110_ta \<Rightarrow> 'w v110_ta" where
  "connect p = set_flags (V24_FLAGMASK_SET_ON (circuits_on (v24_flags p)) OSMO_V110_TA_C_106)
     (p\<lparr>rx_d_bit_mode := V110_TA_DBIT_M_FORWARD, tx_d_bit_mode := V110_TA_DBIT_M_FORWARD\<rparr>)"

definition sx_on :: "v110_frame \<Rightarrow> bool" where
  "sx_on df \<longleftrightarrow> v110_df_s_bits_are df V110_SX_BIT_ON \<and> v110_df_x_bits_are df V110_SX_BIT_ON"

definition disc_request :: "v110_frame \<Rightarrow> bool" where
  "disc_request df \<longleftrightarrow> v110_df_s_bits_are df V110_SX_BIT_OFF \<and> v110_df_d_bits_are df 0"

definition react_rx :: "v110_frame \<Rightarrow> 'w ta_inst \<Rightarrow> 'w ta_inst" where
  "react_rx df fi =
     (if state fi = 1 \<and> sx_on df then upd (hand df) (entered 2 (upd connect (fi\<lparr>timer := None\<rparr>)))
      else if state fi = 2 \<and> disc_request df then
        upd (\<lambda>p. set_flags (V24_FLAGMASK_SET_OFF (V24_FLAGMASK_SET_OFF (v24_flags p) OSMO_V110_TA_C_107) OSMO_V110_TA_C_109) p) fi
      else if state fi = 3 \<and> v110_df_s_bits_are df V110_SX_BIT_OFF then upd (hand df) (entered 0 fi)
      else upd (hand df) fi)"

definition react :: "nat \<Rightarrow> 'w ta_inst \<Rightarrow> 'w ta_inst" where
  "react ev fi =
     (if ev = 2 then
        if state fi = 0 \<and> bit (v24_flags (priv fi)) 3 then entered 1 fi
        else if state fi = 1 \<and> \<not> bit (v24_flags (priv fi)) 3 then entered 0 fi
        else if state fi = 2 \<and> \<not> bit (v24_flags (priv fi)) 3 then entered 3 fi
        else fi
      else if ev = 3 then
        if state fi = 1 then upd (\<lambda>p. p\<lparr>tx_s_bits := 0, tx_x_bits := 0\<rparr>) fi
        else entered 2 (upd (\<lambda>p. p\<lparr>tx_x_bits := 0\<rparr>) fi)
      else if state fi = 2 then entered 4 fi
      else if state fi = 4 then
        upd (\<lambda>p. set_flags (V24_FLAGMASK_SET_OFF (v24_flags p) OSMO_V110_TA_C_107)
                   (p\<lparr>tx_s_bits := 1, tx_x_bits := 1, tx_d_bit_mode := V110_TA_DBIT_M_ALL_ZERO\<rparr>)) fi
      else entered 0 fi)"

lemma ta_base_upd [simp]: "Tdefs (f (priv fi)) = Tdefs (priv fi) \<Longrightarrow> cfg (f (priv fi)) = cfg (priv fi) \<Longrightarrow> ta_base (upd f fi) = ta_base fi"
  by (simp add: ta_base_def)

lemma ta_base_timer [simp]: "ta_base (fi\<lparr>timer := t\<rparr>) = ta_base fi"
  by (simp add: ta_base_def)

lemma enter_simps [simp]: "Tdefs (enter n p) = Tdefs p" "cfg (enter n p) = cfg p"
  by simp_all

lemma entered_simps [simp]:
  "state (entered n fi) = n" "fi_T (entered n fi) = ta_T n" "priv (entered n fi) = enter n (priv fi)"
  "terminating (entered n fi) = terminating fi"
  "timer (entered n fi) = (let ms = ta_ms (Tdefs (priv fi)) n in
     if ms = 0 then None else osmo_timer_schedule (ms div 1000) (ms mod 1000 * 1000))"
  by (simp_all add: entered_def Let_def del: enter.simps)

declare enter.simps [simp del]

lemma ta_base_entered [simp]: "n < 5 \<Longrightarrow> ta_base fi \<Longrightarrow> ta_base (entered n fi)"
  by (simp add: ta_base_def)

definition action_of :: "'w ta_set \<Rightarrow> nat \<Rightarrow> ('w v110_ta, v110_frame option) fsm_action" where
  "action_of sc s = [v110_ta_fsm_idle_ready sc, v110_ta_fsm_connect_ta_to_line sc, v110_ta_fsm_data_transfer sc,
     v110_ta_fsm_disconnect sc, v110_ta_fsm_resyncing sc] ! s"

lemmas ta_actions = action_of_def v110_ta_fsm_idle_ready_def v110_ta_fsm_connect_ta_to_line_def v110_ta_fsm_data_transfer_def
  v110_ta_fsm_disconnect_def v110_ta_fsm_resyncing_def

lemma base_lt: "ta_base fi \<Longrightarrow> state fi < 5"
  by (simp add: ta_base_def)

lemma action_tx:
  assumes "ta_base fi" "wf_frame df"
  shows "action_of sc (state fi) fi 1 (Some df) = Some (upd taken fi, Some (frame_sent (priv fi) df))"
  using base_lt [OF assms(1)] build_quiet [OF assms, of sc]
  by (auto simp: less_five ta_actions v110_ta_tx_def Let_def)

lemma rx_quiet: "ta_base fi \<Longrightarrow> wf_frame df \<Longrightarrow> v110_ta_rx sc fi (Some df) = Some (upd (hand df) fi, Some df)"
  by (simp add: v110_ta_rx_def handle_quiet)

lemma connect_simps [simp]: "Tdefs (connect p) = Tdefs p" "cfg (connect p) = cfg p"
  by (simp_all add: connect_def)

lemma action_rx:
  assumes "ta_base fi" "wf_frame df" "state fi \<noteq> 4"
  shows "action_of sc (state fi) fi 0 (Some df) = Some (react_rx df fi, Some df)"
proof -
  note f = flags_update_quiet goto rx_quiet ta_next_def react_rx_def sx_on_def [symmetric] disc_request_def [symmetric] Let_def
  have q: "quiet (cfg (priv fi))" using assms(1) by (simp add: ta_base_def)
  have c: "upd (v24_flags_update (\<lambda>_. x)) fi = upd (\<lambda>p. p\<lparr>v24_flags := x\<rparr>) fi" for x by simp
  consider "state fi = 0" | "state fi = 1" | "state fi = 2" | "state fi = 3" using base_lt [OF assms(1)] assms(3) by linarith
  then show ?thesis
  proof cases
    case 1
    with assms show ?thesis by (simp add: ta_actions f)
  next
    case 2
    let ?fi = "upd (set_flags (V24_FLAGMASK_SET_ON (V24_FLAGMASK_SET_ON (V24_FLAGMASK_SET_ON (v24_flags (priv fi)) 2) 4) 1) \<circ>
       (tx_d_bit_mode_update (\<lambda>_. V110_TA_DBIT_M_FORWARD) \<circ> rx_d_bit_mode_update (\<lambda>_. V110_TA_DBIT_M_FORWARD))) (fi\<lparr>timer := None\<rparr>)"
    have "upd connect (fi\<lparr>timer := None\<rparr>) = ?fi" by (rule upd_cong) (simp add: connect_def circuits_on_def)
    with 2 assms q show ?thesis by (simp add: ta_actions f)
  next
    case 3
    with assms q show ?thesis by (simp add: ta_actions f)
  next
    case 4
    with assms q show ?thesis by (simp add: ta_actions f)
  qed
qed


lemma action_other:
  assumes "ta_base fi" "ta_accepts (state fi) ev" "2 \<le> ev" "state fi = 1 \<Longrightarrow> ev = 3 \<Longrightarrow> bit (v24_flags (priv fi)) 3"
  shows "action_of sc (state fi) fi ev d = Some (react ev fi, d)"
proof -
  note f = flags_update_quiet goto ta_next_def react_def Let_def ta comp_def
  have q: "quiet (cfg (priv fi))" using assms(1) by (simp add: ta_base_def)
  consider "state fi = 0" | "state fi = 1" | "state fi = 2" | "state fi = 3" | "state fi = 4"
    using base_lt [OF assms(1)] by linarith
  then show ?thesis
  proof cases
    case 1
    with assms(2,3) have "ev = 2" by (auto simp: ta_accepts_def)
    with 1 assms show ?thesis by (simp add: ta_actions f)
  next
    case 2
    with assms(2,3) have "ev \<in> {2, 3, 5}" by (auto simp: ta_accepts_def)
    with 2 assms show ?thesis by (auto simp: ta_actions f intro!: upd_cong)
  next
    case 3
    with assms(2,3) have "ev \<in> {2, 4}" by (auto simp: ta_accepts_def)
    with 3 assms show ?thesis by (auto simp: ta_actions f)
  next
    case 4
    with assms(2,3) have "ev \<in> {2, 4, 5}" by (auto simp: ta_accepts_def)
    with 4 assms show ?thesis by (auto simp: ta_actions f)
  next
    case 5
    with assms(2,3) have "ev \<in> {2, 3, 5}" by (auto simp: ta_accepts_def)
    with 5 assms q show ?thesis by (auto simp: ta_actions f intro!: upd_cong)
  qed
qed

subsection \<open>The invariant\<close>

text \<open>What holds of an instance, apart from circuit 108 in the connecting state.\<close>

definition ta_shape :: "'w ta_inst \<Rightarrow> bool" where
  "ta_shape fi \<longleftrightarrow> ta_base fi \<and>
     (let p = priv fi; on = bit (v24_flags p) in
      (state fi = 0 \<longrightarrow> tx_d_bit_mode p = V110_TA_DBIT_M_ALL_ONE \<and> rx_d_bit_mode p = V110_TA_DBIT_M_ALL_ONE \<and>
         tx_s_bits p = 1 \<and> tx_x_bits p = 1 \<and> \<not> on 1 \<and> \<not> on 2 \<and> \<not> on 4 \<and> timer fi = None) \<and>
      (state fi = 1 \<longrightarrow> tx_d_bit_mode p = V110_TA_DBIT_M_ALL_ONE \<and> rx_d_bit_mode p = V110_TA_DBIT_M_ALL_ONE \<and>
         tx_s_bits p = tx_x_bits p \<and> tx_x_bits p \<in> {0, 1} \<and> \<not> on 1 \<and> \<not> on 2 \<and> \<not> on 4 \<and> fi_T fi = 1) \<and>
      (state fi = 2 \<longrightarrow> tx_d_bit_mode p = V110_TA_DBIT_M_FORWARD \<and> rx_d_bit_mode p = V110_TA_DBIT_M_FORWARD \<and>
         tx_s_bits p = 0 \<and> (flow_ctrl_end_to_end (cfg p) \<or> tx_x_bits p = 0) \<and> on 1 \<and> timer fi = None) \<and>
      (state fi = 3 \<longrightarrow> tx_d_bit_mode p = V110_TA_DBIT_M_ALL_ZERO \<and> rx_d_bit_mode p = V110_TA_DBIT_M_FORWARD \<and>
         tx_s_bits p = 1 \<and> \<not> on 1 \<and> fi_T fi = 2) \<and>
      (state fi = 4 \<longrightarrow> rx_d_bit_mode p = V110_TA_DBIT_M_ALL_ONE \<and> tx_x_bits p = 1 \<and> on 1 \<and> fi_T fi = -1))"

definition ta_wf :: "'w ta_inst \<Rightarrow> bool" where
  "ta_wf fi \<longleftrightarrow> ta_shape fi \<and> (state fi = 1 \<longrightarrow> bit (v24_flags (priv fi)) 3)"

lemma enter_fields:
  "tx_d_bit_mode (enter n p) = [V110_TA_DBIT_M_ALL_ONE, V110_TA_DBIT_M_ALL_ONE, V110_TA_DBIT_M_FORWARD, V110_TA_DBIT_M_ALL_ZERO, tx_d_bit_mode p] ! n"
  "rx_d_bit_mode (enter n p) = [V110_TA_DBIT_M_ALL_ONE, rx_d_bit_mode p, V110_TA_DBIT_M_FORWARD, rx_d_bit_mode p, V110_TA_DBIT_M_ALL_ONE] ! n"
  "tx_s_bits (enter n p) = [1, 1, 0, 1, tx_s_bits p] ! n"
  "tx_x_bits (enter n p) = [1, 1, if flow_ctrl_end_to_end (cfg p) then tx_x_bits p else 0, tx_x_bits p, 1] ! n"
  "bit (v24_flags (enter n p)) c = [bit (v24_flags p) c \<and> c \<noteq> 1 \<and> c \<noteq> 2 \<and> c \<noteq> 4, bit (v24_flags p) c,
     bit (v24_flags p) c \<or> c = 2 \<or> c = 4 \<or> c = 1 \<and> \<not> flow_ctrl_end_to_end (cfg p), bit (v24_flags p) c \<and> c \<noteq> 1, bit (v24_flags p) c] ! n"
  if "n < 5"
  using that by (auto simp: less_five enter.simps circuits_off_def circuits_on_def ta)


lemma shape_base: "ta_shape fi \<Longrightarrow> ta_base fi"
  by (simp add: ta_shape_def)

lemma shape_entered:
  assumes "ta_base fi" "n < 5"
    and "n = 1 \<Longrightarrow> rx_d_bit_mode (priv fi) = V110_TA_DBIT_M_ALL_ONE \<and> (\<forall>c \<in> {1, 2, 4}. \<not> bit (v24_flags (priv fi)) c)"
    and "n = 2 \<Longrightarrow> bit (v24_flags (priv fi)) 1" and "n = 3 \<Longrightarrow> rx_d_bit_mode (priv fi) = V110_TA_DBIT_M_FORWARD"
    and "n = 4 \<Longrightarrow> bit (v24_flags (priv fi)) 1"
  shows "ta_shape (entered n fi)"
  using assms by (auto simp: ta_shape_def Let_def enter_fields less_five ta_T_def ta_ms_def)

lemma shape_same:
  assumes "ta_shape fi" "Tdefs (f (priv fi)) = Tdefs (priv fi)" "cfg (f (priv fi)) = cfg (priv fi)"
    and "\<And>c. c = 1 \<or> c = 2 \<or> c = 4 \<Longrightarrow> bit (v24_flags (f (priv fi))) c = bit (v24_flags (priv fi)) c"
    and "tx_d_bit_mode (f (priv fi)) = tx_d_bit_mode (priv fi)" "rx_d_bit_mode (f (priv fi)) = rx_d_bit_mode (priv fi)"
    and "tx_s_bits (f (priv fi)) = tx_s_bits (priv fi)" "tx_x_bits (f (priv fi)) = tx_x_bits (priv fi)"
  shows "ta_shape (upd f fi)"
  using assms by (simp add: ta_shape_def Let_def)

lemma shape_hand [simp]: "ta_shape fi \<Longrightarrow> ta_shape (upd (hand df) fi)"
  by (rule shape_same) simp_all

lemma shape_taken [simp]: "ta_shape fi \<Longrightarrow> ta_shape (upd taken fi)"
  by (rule shape_same) simp_all

lemma connect_fields:
  "tx_d_bit_mode (connect p) = V110_TA_DBIT_M_FORWARD" "rx_d_bit_mode (connect p) = V110_TA_DBIT_M_FORWARD"
  "tx_s_bits (connect p) = tx_s_bits p" "tx_x_bits (connect p) = tx_x_bits p"
  "bit (v24_flags (connect p)) c \<longleftrightarrow> bit (v24_flags p) c \<or> c = 1 \<or> c = 2 \<or> c = 4"
  by (auto simp: connect_def circuits_on_def ta)

lemma shape_rx:
  assumes "ta_shape fi" "wf_frame df" "state fi \<noteq> 4"
  shows "ta_shape (react_rx df fi)"
proof -
  note b = shape_base [OF assms(1)]
  have "ta_shape (upd (\<lambda>p. set_flags (V24_FLAGMASK_SET_OFF (V24_FLAGMASK_SET_OFF (v24_flags p) 2) 4) p) fi)" if "state fi = 2"
    using assms(1) that by (simp add: ta_shape_def Let_def ta)
  moreover have "ta_shape (entered 2 (upd connect (fi\<lparr>timer := None\<rparr>)))"
    using b by (intro shape_entered) (simp_all add: connect_fields)
  moreover have "ta_shape (entered 0 fi)" using b by (intro shape_entered) simp_all
  ultimately show ?thesis using assms(1) by (simp add: react_rx_def)
qed

lemma shape_react:
  assumes "ta_shape fi" "ta_accepts (state fi) ev" "2 \<le> ev" "state fi = 1 \<Longrightarrow> ev = 3 \<Longrightarrow> bit (v24_flags (priv fi)) 3"
  shows "ta_wf (react ev fi)"
proof -
  note b = shape_base [OF assms(1)]
  note shp = assms(1) [unfolded ta_shape_def Let_def]
  note e = shape_entered [OF b]
  have sync: "ta_shape (entered 2 (upd (\<lambda>p. p\<lparr>tx_x_bits := 0\<rparr>) fi))" if "state fi = 4"
    using b shp that by (intro shape_entered) simp_all
  consider "state fi = 0" "ev = 2" | "state fi = 1" "ev \<in> {2, 3, 5}" | "state fi = 2" "ev \<in> {2, 4}"
    | "state fi = 3" "ev \<in> {2, 4, 5}" | "state fi = 4" "ev \<in> {2, 3, 5}"
    using base_lt [OF b] assms(2,3) by (auto simp: less_five ta_accepts_def)
  then show ?thesis
  proof cases
    case 1
    with assms(1) shp e [of 1] show ?thesis by (auto simp: ta_wf_def react_def enter_fields)
  next
    case 2
    with assms(1,4) shp e [of 0] show ?thesis by (auto simp: ta_wf_def react_def) (simp_all add: ta_shape_def)
  next
    case 3
    with assms(1) shp e [of 3] e [of 4] show ?thesis by (auto simp: ta_wf_def react_def)
  next
    case 4
    with assms(1) e [of 0] show ?thesis by (auto simp: ta_wf_def react_def)
  next
    case 5
    with assms(1) shp sync show ?thesis by (auto simp: ta_wf_def react_def) (simp add: ta_shape_def ta)
  qed
qed


subsection \<open>The interface\<close>

definition ta_pre :: "nat \<Rightarrow> 'w ta_inst \<Rightarrow> v110_frame option \<Rightarrow> bool" where
  "ta_pre ev fi d \<longleftrightarrow> ta_shape fi \<and> ev \<le> 5 \<and> (ev \<le> 1 \<longrightarrow> (\<exists>df. d = Some df \<and> wf_frame df)) \<and>
     (state fi = 1 \<and> ev \<noteq> 2 \<longrightarrow> bit (v24_flags (priv fi)) 3)"

definition ta_post :: "nat \<Rightarrow> 'w ta_inst \<Rightarrow> v110_frame option \<Rightarrow> bool" where
  "ta_post ev fi d \<longleftrightarrow> ta_wf fi \<and> (ev \<le> 1 \<longrightarrow> (\<exists>df. d = Some df \<and> wf_frame df))"

definition effect :: "nat \<Rightarrow> 'w ta_inst \<Rightarrow> v110_frame option \<Rightarrow> 'w ta_inst \<times> v110_frame option" where
  "effect ev fi d =
     (if ev = 0 then (react_rx (the d) fi, d) else if ev = 1 then (upd taken fi, Some (frame_sent (priv fi) (the d))) else (react ev fi, d))"

lemma accepts_cases: "s < 5 \<Longrightarrow> ta_accepts s 0 = (s \<noteq> 4)" "s < 5 \<Longrightarrow> ta_accepts s (Suc 0)" "s < 5 \<Longrightarrow> ta_accepts s 2"
  "s < 5 \<Longrightarrow> ta_accepts s 3 = (s = 1 \<or> s = 4)" "s < 5 \<Longrightarrow> ta_accepts s 4 = (s = 2 \<or> s = 3)"
  "s < 5 \<Longrightarrow> ta_accepts s 5 = (s = 1 \<or> s = 3 \<or> s = 4)"
  by (auto simp: less_five ta_accepts_def)

lemma action_effect:
  assumes "ta_pre ev fi d" "ta_accepts (state fi) ev"
  shows "action_of sc (state fi) fi ev d = Some (effect ev fi d) \<and> ta_post ev (fst (effect ev fi d)) (snd (effect ev fi d))"
proof -
  have s: "ta_shape fi" and b: "ta_base fi" and lt: "state fi < 5" using assms(1) shape_base base_lt by (auto simp: ta_pre_def)
  consider "ev = 0" | "ev = 1" | "2 \<le> ev" by linarith
  then show ?thesis
  proof cases
    case 1
    with assms lt obtain df where df: "d = Some df" "wf_frame df" "state fi \<noteq> 4" by (auto simp: ta_pre_def accepts_cases)
    have "ta_wf (react_rx df fi)"
      using shape_rx [OF s df(2,3)] assms(1) 1 by (auto simp: ta_wf_def react_rx_def ta_pre_def split: if_splits)
    with 1 df action_rx [OF b df(2,3)] show ?thesis by (simp add: effect_def ta_post_def)
  next
    case 2
    with assms(1) obtain df where df: "d = Some df" "wf_frame df" by (auto simp: ta_pre_def)
    have "ta_wf (upd taken fi)" using s assms(1) 2 by (auto simp: ta_wf_def ta_pre_def)
    with 2 df action_tx [OF b df(2)] build_quiet [OF b df(2)] show ?thesis by (simp add: effect_def ta_post_def)
  next
    case 3
    with assms action_other [OF b assms(2) 3] shape_react [OF s assms(2) 3] show ?thesis
      by (simp add: effect_def ta_post_def ta_pre_def)
  qed
qed

lemma fsm_parts:
  "states (osmo_v110_ta_fsm sc) = v110_ta_states sc" "allstate_action (osmo_v110_ta_fsm sc) = None"
  "length (actions (osmo_v110_ta_fsm sc)) = 5" "s < 5 \<Longrightarrow> actions (osmo_v110_ta_fsm sc) ! s = Some (action_of sc s)"
  by (auto simp: osmo_v110_ta_fsm_def osmo_v110_ta_fsm0_def action_of_def less_five)

interpretation ta: fsm_table "osmo_v110_ta_fsm sc" ta_pre ta_post
proof
  fix ev :: nat and fi :: "'a ta_inst" and d
  assume p: "ta_pre ev fi d"
  then have b: "ta_base fi" and lt: "state fi < 5" using shape_base base_lt by (auto simp: ta_pre_def)
  show "\<not> terminating fi \<and> state fi < length (states (osmo_v110_ta_fsm sc)) \<and> ev < 32"
    using p b lt by (simp add: fsm_parts ta_base_def ta_pre_def)
  show "\<exists>act fi' d'. actions (osmo_v110_ta_fsm sc) ! state fi = Some act \<and> act fi ev d = Some (fi', d') \<and> ta_post ev fi' d'"
    if "permits (in_event_mask (states (osmo_v110_ta_fsm sc) ! state fi)) ev"
    using action_effect [OF p, of sc] that lt by (cases "effect ev fi d") (simp add: fsm_parts in_mask)
  show "ta_post ev fi d" if "\<not> permits (in_event_mask (states (osmo_v110_ta_fsm sc) ! state fi)) ev"
    using p that lt by (cases "ev = 2") (auto simp: fsm_parts in_mask accepts_cases ta_pre_def ta_post_def ta_wf_def)
qed (simp_all add: fsm_parts)

lemma dispatch_effect:
  assumes "ta_pre ev fi d"
  shows "ta_dispatch sc fi ev d =
    Some (if ta_accepts (state fi) ev then (None, effect ev fi d) else (Some EPERM, fi, d))"
proof -
  have lt: "state fi < 5" using assms shape_base base_lt by (auto simp: ta_pre_def)
  show ?thesis using action_effect [OF assms, of sc] lt
    by (cases "effect ev fi d") (simp add: ta_dispatch_def ta.dispatch_unfold [OF assms] fsm_parts in_mask)
qed


lemma wf_shape: "ta_wf fi \<Longrightarrow> ta_shape fi"
  by (simp add: ta_wf_def)

lemma wf_pre: "ta_wf fi \<Longrightarrow> ev \<le> 5 \<Longrightarrow> (ev \<le> 1 \<Longrightarrow> \<exists>df. d = Some df \<and> wf_frame df) \<Longrightarrow> ta_pre ev fi d"
  by (auto simp: ta_wf_def ta_pre_def)

lemma wf_lt: "ta_wf fi \<Longrightarrow> state fi < 5"
  by (simp add: wf_shape shape_base base_lt)

lemma frame_in: "ta_wf fi \<Longrightarrow> wf_frame df \<Longrightarrow>
  osmo_v110_ta_frame_in sc fi df = Some (if state fi = 4 then (Some EPERM, fi) else (None, react_rx df fi)) \<and> (state fi \<noteq> 4 \<longrightarrow> ta_wf (react_rx df fi))"
  using dispatch_effect [OF wf_pre, of fi 0 "Some df" sc] action_effect [OF wf_pre, of fi 0 "Some df" sc]
  by (simp add: osmo_v110_ta_frame_in_def effect_def accepts_cases wf_lt ta_post_def)

lemma frame_out: "ta_wf fi \<Longrightarrow> wf_frame df \<Longrightarrow>
  osmo_v110_ta_frame_out sc fi df = Some (None, upd taken fi, frame_sent (priv fi) df) \<and> ta_wf (upd taken fi) \<and>
    wf_frame (frame_sent (priv fi) df)"
  using dispatch_effect [OF wf_pre, of fi 1 "Some df" sc] action_effect [OF wf_pre, of fi 1 "Some df" sc]
  by (simp add: osmo_v110_ta_frame_out_def effect_def accepts_cases wf_lt ta_post_def)

lemma sync_ind: "ta_wf fi \<Longrightarrow>
  osmo_v110_ta_sync_ind sc fi = Some (if state fi = 1 \<or> state fi = 4 then (None, react 3 fi) else (Some EPERM, fi)) \<and>
  (state fi = 1 \<or> state fi = 4 \<longrightarrow> ta_wf (react 3 fi))"
  using dispatch_effect [OF wf_pre, of fi 3 None sc] action_effect [OF wf_pre, of fi 3 None sc]
  by (simp add: osmo_v110_ta_sync_ind_def effect_def accepts_cases wf_lt ta_post_def)

lemma desync_ind: "ta_wf fi \<Longrightarrow>
  osmo_v110_ta_desync_ind sc fi = Some (if state fi = 2 \<or> state fi = 3 then (None, react 4 fi) else (Some EPERM, fi)) \<and>
  (state fi = 2 \<or> state fi = 3 \<longrightarrow> ta_wf (react 4 fi))"
  using dispatch_effect [OF wf_pre, of fi 4 None sc] action_effect [OF wf_pre, of fi 4 None sc]
  by (simp add: osmo_v110_ta_desync_ind_def effect_def accepts_cases wf_lt ta_post_def)

definition dte_circuit :: "nat \<Rightarrow> bool" where
  "dte_circuit c \<longleftrightarrow> c = OSMO_V110_TA_C_105 \<or> c = OSMO_V110_TA_C_108 \<or> c = OSMO_V110_TA_C_133"

definition switched :: "nat \<Rightarrow> bool \<Rightarrow> 'w ta_inst \<Rightarrow> 'w ta_inst" where
  "switched c active = upd (\<lambda>p. p\<lparr>v24_flags := if active then V24_FLAGMASK_SET_ON (v24_flags p) c else V24_FLAGMASK_SET_OFF (v24_flags p) c\<rparr>)"

lemma set_same: "c < 32 \<Longrightarrow> (if active then V24_FLAGMASK_SET_ON flags c else V24_FLAGMASK_SET_OFF flags c) = flags \<longleftrightarrow> bit flags c = active"
  (is "_ \<Longrightarrow> ?f = flags \<longleftrightarrow> _")
proof
  assume c: "c < 32" and eq: "?f = flags"
  have "bit ?f c = active" using c by (simp add: ta)
  then show "bit flags c = active" by (simp only: eq)
next
  assume c: "c < 32" and b: "bit flags c = active"
  show "?f = flags" by (rule bit_word_eqI) (use b in \<open>auto simp: ta\<close>)
qed

lemma set_circuit:
  assumes "ta_wf fi"
  shows "osmo_v110_ta_set_circuit sc fi c active =
      Some (if \<not> dte_circuit c then (Some EACCES, fi)
            else (None, if bit (v24_flags (priv fi)) c = active then fi else react 2 (switched c active fi))) \<and>
    (dte_circuit c \<longrightarrow> bit (v24_flags (priv fi)) c \<noteq> active \<longrightarrow> ta_wf (react 2 (switched c active fi)))"
proof (cases "dte_circuit c")
  case True
  let ?flags = "if active then V24_FLAGMASK_SET_ON (v24_flags (priv fi)) c else V24_FLAGMASK_SET_OFF (v24_flags (priv fi)) c"
  have c: "c \<noteq> 1" "c \<noteq> 2" "c \<noteq> 4" "c < 32" using True by (auto simp: dte_circuit_def)
  have "ta_shape (switched c active fi)" unfolding switched_def
    by (rule shape_same) (use assms c in \<open>auto simp: wf_shape ta\<close>)
  then have pre: "ta_pre 2 (switched c active fi) None" by (simp add: ta_pre_def switched_def)
  have same: "?flags = v24_flags (priv fi) \<longleftrightarrow> bit (v24_flags (priv fi)) c = active" by (rule set_same [OF c(4)])
  have lt: "state (switched c active fi) < 5" using assms by (simp add: switched_def wf_lt)
  have up: "upd (v24_flags_update (\<lambda>_. ?flags)) fi = (if ?flags = v24_flags (priv fi) then fi else switched c active fi)"
    by (auto simp: switched_def upd_def)
  have set: "osmo_v110_ta_set_circuit sc fi c active = v110_ta_set_status sc fi ?flags"
    using True by (auto simp: osmo_v110_ta_set_circuit_def dte_circuit_def Let_def)
  show ?thesis
    using True dispatch_effect [OF pre, of sc] action_effect [OF pre, of sc] lt unfolding set v110_ta_set_status_def Let_def up same
    by (auto simp: effect_def accepts_cases ta_post_def)
qed (auto simp: osmo_v110_ta_set_circuit_def dte_circuit_def Let_def)

lemma dispatch_table: "osmo_fsm_inst_dispatch (osmo_v110_ta_fsm0 sc) = ta_dispatch sc"
  by (intro ext) (simp add: ta_dispatch_def osmo_fsm_inst_dispatch_def osmo_v110_ta_fsm_def cong: option.case_cong if_cong)

lemma wf_timer: "ta_wf fi \<Longrightarrow> ta_wf (fi\<lparr>timer := None\<rparr>)"
  by (simp add: ta_wf_def ta_shape_def Let_def)

lemma timer_expires:
  assumes "ta_wf fi"
  shows "ta_timer_expires sc fi = Some (if timer fi = None then fi else react 5 (fi\<lparr>timer := None\<rparr>)) \<and>
    (timer fi \<noteq> None \<longrightarrow> state fi \<in> {1, 3, 4} \<and> ta_wf (react 5 (fi\<lparr>timer := None\<rparr>)))"
proof (cases "timer fi = None")
  case False
  then have st: "state fi \<in> {1, 3, 4}" using assms wf_lt [OF assms] by (auto simp: ta_wf_def ta_shape_def Let_def less_five)
  have pre: "ta_pre 5 (fi\<lparr>timer := None\<rparr>) None" by (rule wf_pre [OF wf_timer [OF assms]]) simp_all
  show ?thesis using False st dispatch_effect [OF pre, of sc] action_effect [OF pre, of sc]
    by (auto simp: ta_timer_expires_def fsm_tmr_cb_def osmo_v110_ta_fsm_def v110_ta_timer_cb_def dispatch_table effect_def
        accepts_cases ta_post_def)
qed (simp add: ta_timer_expires_def)


definition new_ta :: "'w v110_ta_cfg \<Rightarrow> 'w \<Rightarrow> 'w ta_inst" where
  "new_ta c w = entered 0 (osmo_fsm_inst_alloc \<lparr>Tdefs = ta_tdefs 3000 10000 5000, cfg = c, v24_flags = 0,
     tx_d_bit_mode = V110_TA_DBIT_M_ALL_ZERO, tx_s_bits = 0, tx_x_bits = 0, rx_d_bit_mode = V110_TA_DBIT_M_ALL_ZERO, app = w\<rparr>)"

lemma alloc_new:
  assumes "quiet c" "flow_ctrl_local c = 0"
  shows "osmo_v110_ta_alloc sc c w = Some (Some (new_ta c w))"
proof -
  let ?fi = "osmo_fsm_inst_alloc \<lparr>Tdefs = ta_tdefs 3000 10000 5000, cfg = c, v24_flags = 0,
     tx_d_bit_mode = V110_TA_DBIT_M_ALL_ZERO, tx_s_bits = 0, tx_x_bits = 0, rx_d_bit_mode = V110_TA_DBIT_M_ALL_ZERO, app = w\<rparr>"
  have reset: "osmo_tdefs_reset v110_ta_tdef = Some (ta_tdefs 3000 10000 5000)"
    by (simp add: v110_ta_tdef_def ta_tdefs_def tdef_used_def osmo_tdef_val_in_range_def)
  have "onleave (v110_ta_states sc ! 0) = None" by (simp add: v110_ta_states_def)
  then have "osmo_fsm_inst_state_chg (v110_ta_states sc) ?fi 0 0 0 = Some (None, entered 0 ?fi)"
    using state_chg_permitted [of ?fi "v110_ta_states sc" 0 False 0 0] onenter_entered [of ?fi 0 sc 0] assms(1)
    by (simp add: osmo_fsm_inst_state_chg_def wrap_ulong_def out_mask osmo_fsm_inst_alloc_def ta_next_def ta_ms_def ta_T_def)
  then show ?thesis using assms by (simp add: osmo_v110_ta_alloc_def reset new_ta_def)
qed

lemma alloc:
  assumes "quiet c" "sync_ra1 (rate c) \<noteq> None" "flow_ctrl_local c = 0"
  shows "osmo_v110_ta_alloc sc c w = Some (Some (new_ta c w)) \<and> ta_wf (new_ta c w)"
proof -
  let ?fi = "osmo_fsm_inst_alloc \<lparr>Tdefs = ta_tdefs 3000 10000 5000, cfg = c, v24_flags = 0,
     tx_d_bit_mode = V110_TA_DBIT_M_ALL_ZERO, tx_s_bits = 0, tx_x_bits = 0, rx_d_bit_mode = V110_TA_DBIT_M_ALL_ZERO, app = w\<rparr>"
  have "ta_base ?fi" using assms by (auto simp: ta_base_def osmo_fsm_inst_alloc_def)
  from shape_entered [OF this, of 0] alloc_new [OF assms(1,3)] show ?thesis by (simp add: new_ta_def ta_wf_def)
qed

lemma set_timer:
  assumes "ta_wf fi"
  shows "\<exists>rc fi'. osmo_v110_ta_set_timer_val_ms fi T v = Some (rc, fi') \<and> ta_wf fi' \<and> rc = (if T \<in> {-1, 1, 2} then None else Some EEXIST) \<and>
    state fi' = state fi \<and> v24_flags (priv fi') = v24_flags (priv fi)"
proof -
  obtain x1 t1 t2 where td: "Tdefs (priv fi) = ta_tdefs x1 t1 t2"
    using shape_base [OF wf_shape [OF assms]] by (auto simp: ta_base_def)
  have wf: "ta_wf (upd (Tdefs_update (\<lambda>_. ta_tdefs a b c)) fi)" for a b c
    using assms by (auto simp: ta_wf_def ta_shape_def ta_base_def Let_def)
  have range: "osmo_tdef_val_in_range (ta_tdefs x1 t1 t2 ! i) v" if "i < 3" for i
    using that by (auto simp: numeral_3_eq_3 less_Suc_eq ta_tdefs_def v110_ta_tdef_def osmo_tdef_val_in_range_def)
  consider "T = -1" | "T = 1" | "T = 2" | "T \<notin> {-1, 1, 2}" by auto
  then show ?thesis
  proof cases
    case 1
    then have "osmo_tdef_set (ta_tdefs x1 t1 t2) T v OSMO_TDEF_MS = Some (Inr (ta_tdefs v t1 t2))"
      using range [of 0] by (simp add: osmo_tdef_set_def entries Let_def) (simp add: ta_tdefs_def v110_ta_tdef_def)
    with 1 wf show ?thesis by (simp add: osmo_v110_ta_set_timer_val_ms_def td)
  next
    case 2
    then have "osmo_tdef_set (ta_tdefs x1 t1 t2) T v OSMO_TDEF_MS = Some (Inr (ta_tdefs x1 v t2))"
      using range [of 1] by (simp add: osmo_tdef_set_def entries Let_def) (simp add: ta_tdefs_def v110_ta_tdef_def)
    with 2 wf show ?thesis by (simp add: osmo_v110_ta_set_timer_val_ms_def td)
  next
    case 3
    then have "osmo_tdef_set (ta_tdefs x1 t1 t2) T v OSMO_TDEF_MS = Some (Inr (ta_tdefs x1 t1 v))"
      using range [of 2] by (simp add: osmo_tdef_set_def entries Let_def) (simp add: ta_tdefs_def v110_ta_tdef_def)
    with 3 wf show ?thesis by (simp add: osmo_v110_ta_set_timer_val_ms_def td)
  next
    case 4
    then have "osmo_tdef_get_entry (ta_tdefs x1 t1 t2) T = Some None"
      by (auto simp: ta_tdefs_def v110_ta_tdef_def tdef_used_def)
    with 4 assms show ?thesis by (simp add: osmo_v110_ta_set_timer_val_ms_def td osmo_tdef_set_def upd_def)
  qed
qed


subsection \<open>Sequences of operations\<close>

datatype ta_op = Set_Circuit nat bool | Frame_In v110_frame | Frame_Out v110_frame | Sync_Ind | Desync_Ind | Timer_Expires
  | Set_Timer int nat

primrec ta_step :: "'w ta_set \<Rightarrow> ta_op \<Rightarrow> 'w ta_inst \<Rightarrow> 'w ta_inst res" where
  "ta_step sc (Set_Circuit c active) fi = map_option snd (osmo_v110_ta_set_circuit sc fi c active)"
| "ta_step sc (Frame_In df) fi = map_option snd (osmo_v110_ta_frame_in sc fi df)"
| "ta_step sc (Frame_Out df) fi = map_option (fst \<circ> snd) (osmo_v110_ta_frame_out sc fi df)"
| "ta_step sc Sync_Ind fi = map_option snd (osmo_v110_ta_sync_ind sc fi)"
| "ta_step sc Desync_Ind fi = map_option snd (osmo_v110_ta_desync_ind sc fi)"
| "ta_step sc Timer_Expires fi = ta_timer_expires sc fi"
| "ta_step sc (Set_Timer T v) fi = map_option snd (osmo_v110_ta_set_timer_val_ms fi T v)"

primrec ta_ok :: "ta_op \<Rightarrow> bool" where
  "ta_ok (Set_Circuit c active) = True"
| "ta_ok (Frame_In df) = wf_frame df"
| "ta_ok (Frame_Out df) = wf_frame df"
| "ta_ok Sync_Ind = True"
| "ta_ok Desync_Ind = True"
| "ta_ok Timer_Expires = True"
| "ta_ok (Set_Timer T v) = True"

lemma ta_machine: "ta_wf fi \<Longrightarrow> machine (ta_step sc) ta_ok fi ta_wf"
proof
  show "\<exists>s'. ta_step sc op s = Some s' \<and> ta_wf s'" if "ta_wf s" "ta_ok op" for s op
    using that frame_in [of s] frame_out [of s] sync_ind [of s] desync_ind [of s] set_circuit [of s] timer_expires [of s] set_timer [of s]
    by (cases op) (auto, metis snd_conv option.simps(9))
qed

lemma frame_sent_head:
  assumes "ta_base fi" "wf_frame df"
  shows "s_bits (frame_sent (priv fi) df) = replicate 9 (tx_s_bits (priv fi)) \<and>
    x_bits (frame_sent (priv fi) df) = replicate 2 (tx_x_bits (priv fi)) \<and>
    (tx_d_bit_mode (priv fi) \<noteq> V110_TA_DBIT_M_FORWARD \<longrightarrow>
       d_bits (frame_sent (priv fi) df) = replicate 48 (d_bit_value (tx_d_bit_mode (priv fi))) \<and> e_bits (frame_sent (priv fi) df) = replicate 7 1)"
proof -
  let ?p = "priv fi"
  let ?df = "df\<lparr>e_bits := replicate 7 1, s_bits := replicate 9 (tx_s_bits ?p), x_bits := replicate 2 (tx_x_bits ?p)\<rparr>"
  let ?t = "tx_cb (cfg ?p) (app ?p) (chunk_of ?p)"
  obtain ra where ra: "sync_ra1 (rate (cfg ?p)) = Some ra" using assms by (auto simp: ta_base_def)
  have wf: "wf_frame ?df" using assms(2) by (simp add: wf_frame_def del: wf_frameD)
  have "length (fst ?t) = chunk_of ?p" using assms by (simp add: ta_base_def quiet_def)
  then show ?thesis using ra1_send [OF ra wf, of "fst ?t"] chunk_of_ra [OF ra] by (auto simp: frame_sent_def Let_def)
qed

text \<open>C15: a terminal adapter handles every sequence of operations. With a configuration that \<open>osmo_v110_ta_alloc\<close>
  accepts, a known rate and an application whose call-backs fill the buffers and do not call back, no assertion of the handlers ever fails, whatever
  circuits the terminal switches and whatever frames, indications and time-outs arrive; and in every state the adapter is as the standard
  asks: it transmits ones with S and X OFF when idle, connects only while circuit 108 is ON with timer T1, forwards data both
  ways in the data transfer state, sends zeros with S OFF and circuit 106 OFF when disconnecting with timer T2, and gives the terminal ones
  when resynchronising with timer X1 (\<open>ta_wf\<close>). A frame is refused only when resynchronising, a frame to send never;
  it carries the S and X bits of the state; a timer only runs in the states that have one; and the terminal may switch the
  circuits 105, 108 and 133 only.\<close>

theorem ta_reachable:
  assumes "quiet c" "sync_ra1 (rate c) \<noteq> None" "flow_ctrl_local c = OSMO_V110_LOCAL_FLOW_CTRL_NONE" "list_all ta_ok ops" "wf_frame df"
  shows "\<exists>fi0 fi. osmo_v110_ta_alloc sc c w = Some (Some fi0) \<and> run (ta_step sc) ops fi0 = Some fi \<and> ta_wf fi \<and>
    (\<exists>fi'. osmo_v110_ta_frame_in sc fi df = Some (if state fi = V110_TA_ST_RESYNCING then Some EPERM else None, fi')) \<and>
    (\<exists>fi' df'. osmo_v110_ta_frame_out sc fi df = Some (None, fi', df') \<and> s_bits df' = replicate 9 (tx_s_bits (priv fi)) \<and>
       x_bits df' = replicate 2 (tx_x_bits (priv fi))) \<and>
    (timer fi \<noteq> None \<longrightarrow> state fi \<in> {V110_TA_ST_CON_TA_TO_LINE, V110_TA_ST_DISCONNECTING, V110_TA_ST_RESYNCING}) \<and>
    (\<exists>fi'. osmo_v110_ta_set_circuit sc fi circuit active =
       Some (if circuit \<in> {OSMO_V110_TA_C_105, OSMO_V110_TA_C_108, OSMO_V110_TA_C_133} then None else Some EACCES, fi'))"
proof -
  have a: "osmo_v110_ta_alloc sc c w = Some (Some (new_ta c w))" "ta_wf (new_ta c w)" using alloc [OF assms(1-3)] by auto
  obtain fi where fi: "run (ta_step sc) ops (new_ta c w) = Some fi" "ta_wf fi"
    using machine.run_inv [OF ta_machine [OF a(2)] a(2) assms(4)] by blast
  have "\<exists>fi'. osmo_v110_ta_frame_in sc fi df = Some (if state fi = V110_TA_ST_RESYNCING then Some EPERM else None, fi')"
    using frame_in [OF fi(2) assms(5), of sc] by simp
  moreover have "\<exists>fi' df'. osmo_v110_ta_frame_out sc fi df = Some (None, fi', df') \<and> s_bits df' = replicate 9 (tx_s_bits (priv fi)) \<and>
       x_bits df' = replicate 2 (tx_x_bits (priv fi))"
    using frame_out [OF fi(2) assms(5), of sc] frame_sent_head [OF shape_base [OF wf_shape [OF fi(2)]] assms(5)] by blast
  moreover have "timer fi \<noteq> None \<longrightarrow> state fi \<in> {V110_TA_ST_CON_TA_TO_LINE, V110_TA_ST_DISCONNECTING, V110_TA_ST_RESYNCING}"
    using timer_expires [OF fi(2)] by blast
  moreover have "\<exists>fi'. osmo_v110_ta_set_circuit sc fi circuit active =
       Some (if circuit \<in> {OSMO_V110_TA_C_105, OSMO_V110_TA_C_108, OSMO_V110_TA_C_133} then None else Some EACCES, fi')"
    using set_circuit [OF fi(2), of sc circuit active] by (auto simp: dte_circuit_def)
  ultimately show ?thesis using a(1) fi by blast
qed

text \<open>An application that sends ones and counts the bits received and the status it was told.\<close>

definition demo_cfg :: "(nat \<times> u32 list) v110_ta_cfg" where
  "demo_cfg = \<lparr>rate = 5, flow_ctrl_local = 0, flow_ctrl_end_to_end = False, rx_cb = (\<lambda>(n, st) bits. ((n + length bits, st), [])),
     tx_cb = (\<lambda>w n. (replicate n 1, w, [])), status_update_cb = Some (\<lambda>(n, st) flags. ((n, st @ [flags]), []))\<rparr>"

lemma demo_cfg_ok: "quiet demo_cfg" "sync_ra1 (rate demo_cfg) \<noteq> None" "flow_ctrl_local demo_cfg = 0"
  by (auto simp: quiet_def demo_cfg_def sync_ra1_def)

theorem ta_reachable_witness:
  "\<exists>fi0 fi. osmo_v110_ta_alloc (nested 0) demo_cfg (0, []) = Some (Some fi0) \<and>
     run (ta_step (nested 0)) [Set_Circuit 3 True, Sync_Ind, Frame_In demo_frame, Timer_Expires] fi0 = Some fi \<and> ta_wf fi"
proof -
  have "wf_frame demo_frame" by (simp add: demo_frame_def wf_frame_def)
  moreover from this have "list_all ta_ok [Set_Circuit 3 True, Sync_Ind, Frame_In demo_frame, Timer_Expires]" by simp
  ultimately show ?thesis using ta_reachable [OF demo_cfg_ok, of _ demo_frame] by blast
qed

end
