(* ===== verification/Ta_Link.thy ===== *)
theory Ta_Link
  imports V110_Ta
begin

text \<open>
  Two terminal adapters of \<open>V110_Ta\<close> on a line of V.110 frames: a call from the first circuit switched to the last, with the state
  of each side in full (\<open>inst\<close>) and the user bits each application receives; and the situations the adapter does not survive.
\<close>

subsection \<open>A line between two adapters\<close>

definition blank_frame :: v110_frame where
  "blank_frame = \<lparr>d_bits = replicate 48 0, e_bits = replicate 7 0, s_bits = replicate 9 0, x_bits = replicate 2 0\<rparr>"

text \<open>One frame is pulled from the sender, encoded, and decoded and given to the receiver.\<close>

definition carry :: "'w ta_set \<Rightarrow> 'w ta_inst \<times> 'w ta_inst \<Rightarrow> ('w ta_inst \<times> 'w ta_inst) res" where
  "carry sc = (\<lambda>(a, b). do {
     (rc, a, df) \<leftarrow> osmo_v110_ta_frame_out sc a blank_frame;
     r \<leftarrow> osmo_v110_encode_frame (replicate 80 0) 80 df;
     case r of
       Inl _ \<Rightarrow> None
     | Inr (line, n) \<Rightarrow> do {
         r \<leftarrow> osmo_v110_decode_frame blank_frame line n;
         case r of
           Inl _ \<Rightarrow> None
         | Inr df \<Rightarrow> do { (rc, b) \<leftarrow> osmo_v110_ta_frame_in sc b df; Some (a, b) } } })"

datatype ta_side = A | B
datatype ta_link_event = At ta_side ta_op | Carry ta_side

primrec ta_link_step :: "'w ta_set \<Rightarrow> ta_link_event \<Rightarrow> 'w ta_inst \<times> 'w ta_inst \<Rightarrow> ('w ta_inst \<times> 'w ta_inst) res" where
  "ta_link_step sc (At s op) ab = (case s of
     A \<Rightarrow> do { a \<leftarrow> ta_step sc op (fst ab); Some (a, snd ab) }
   | B \<Rightarrow> do { b \<leftarrow> ta_step sc op (snd ab); Some (fst ab, b) })"
| "ta_link_step sc (Carry s) ab = (case s of
     A \<Rightarrow> carry sc ab
   | B \<Rightarrow> do { (b, a) \<leftarrow> carry sc (snd ab, fst ab); Some (a, b) })"

definition arrived :: "v110_frame \<Rightarrow> v110_frame" where
  "arrived df = df\<lparr>s_bits := keep_s (s_bits df) (replicate 9 0)\<rparr>"

lemma wf_blank: "wf_frame blank_frame"
  by (simp add: blank_frame_def wf_frame_def)

lemma arrived_frame [simp]:
  "d_bits (arrived df) = d_bits df" "e_bits (arrived df) = e_bits df" "x_bits (arrived df) = x_bits df"
  "v110_df_s_bits_are (arrived df) v = v110_df_s_bits_are df v" "wf_frame df \<Longrightarrow> wf_frame (arrived df)"
  by (simp_all add: arrived_def v110_df_s_bits_are_def keep_s_def wf_frame_def del: wf_frameD)

lemma carry_frame:
  assumes "ta_wf a" "ta_wf b" "state b \<noteq> 4"
  shows "carry sc (a, b) = Some (upd taken a, react_rx (arrived (frame_sent (priv a) blank_frame)) b)"
proof -
  let ?df = "frame_sent (priv a) blank_frame"
  have o: "osmo_v110_ta_frame_out sc a blank_frame = Some (None, upd taken a, ?df)" "wf_frame ?df"
    using frame_out [OF assms(1) wf_blank] by auto
  have e: "osmo_v110_encode_frame (replicate 80 0) 80 ?df = Some (Inr (v110_line ?df (replicate 80 0), 80))"
    using o(2) by (intro v110_encode) simp_all
  have d: "osmo_v110_decode_frame blank_frame (v110_line ?df (replicate 80 0)) 80 = Some (Inr (arrived ?df))"
    using v110_frame_roundtrip [OF o(2) wf_blank, of "replicate 80 0"] by (simp add: arrived_def blank_frame_def)
  show ?thesis using assms o e d frame_in [OF assms(2), of "arrived ?df" sc] by (simp add: carry_def)
qed

subsection \<open>Instances in the states of a call\<close>

text \<open>An instance in full: state, timer number, timer, flags, D bits sent, S, X, D bits received, application.\<close>

definition inst :: "'w v110_ta_cfg \<Rightarrow> nat \<Rightarrow> int \<Rightarrow> osmo_timer \<Rightarrow> u32 \<Rightarrow> v110_ta_d_bit_mode \<Rightarrow> ubit \<Rightarrow> ubit \<Rightarrow> v110_ta_d_bit_mode \<Rightarrow> 'w \<Rightarrow> 'w ta_inst" where
  "inst c st T tm flags tx s x rx w = \<lparr>state = st, fi_T = T, timer = tm, terminating = False,
     priv = \<lparr>Tdefs = ta_tdefs 3000 10000 5000, cfg = c, v24_flags = flags, tx_d_bit_mode = tx, tx_s_bits = s, tx_x_bits = x,
             rx_d_bit_mode = rx, app = w\<rparr>\<rparr>"

abbreviation ONES where "ONES \<equiv> V110_TA_DBIT_M_ALL_ONE"
abbreviation ZEROS where "ZEROS \<equiv> V110_TA_DBIT_M_ALL_ZERO"
abbreviation DATA where "DATA \<equiv> V110_TA_DBIT_M_FORWARD"

abbreviation "idle c \<equiv> inst c 0 0 None 0 ONES 1 1 ONES"
abbreviation "connecting c sx \<equiv> inst c 1 1 (Some (10, 0)) 8 ONES sx sx ONES"
abbreviation "data_transfer c \<equiv> inst c 2 0 None 30 DATA 0 0 DATA"
abbreviation "asked_to_disconnect c \<equiv> inst c 2 0 None 10 DATA 0 0 DATA"
abbreviation "disconnecting c flags \<equiv> inst c 3 2 (Some (5, 0)) flags ZEROS 1 0 DATA"

lemma flag_values:
  "circuits_off 0 = 0" "circuits_off 20 = 0" "circuits_on 8 = 28" "circuits_on 30 = 30"
  "V24_FLAGMASK_SET_ON 28 1 = 30" "V24_FLAGMASK_SET_ON 30 1 = 30" "V24_FLAGMASK_SET_OFF 22 1 = 20" "V24_FLAGMASK_SET_OFF 2 1 = 0"
  "V24_FLAGMASK_SET_OFF (V24_FLAGMASK_SET_OFF 30 2) 4 = 10" "V24_FLAGMASK_SET_ON 0 3 = 8" "V24_FLAGMASK_SET_OFF 30 3 = 22"
  "V24_FLAGMASK_SET_OFF 10 3 = 2"
  by (simp_all add: circuits_off_def circuits_on_def V24_FLAGMASK_SET_OFF_def V24_FLAGMASK_SET_ON_def S_def)

lemma flag_bits:
  "\<not> bit (0::u32) 3" "bit (8::u32) 3" "bit (30::u32) 3" "\<not> bit (22::u32) 3" "bit (10::u32) 3" "\<not> bit (2::u32) 3"
  by (simp_all add: bit_numeral_rec)

lemma ms_values: "ta_ms (ta_tdefs x1 t1 t2) 0 = 0" "ta_ms (ta_tdefs x1 t1 t2) 1 = t1" "ta_ms (ta_tdefs x1 t1 t2) 2 = 0"
  "ta_ms (ta_tdefs x1 t1 t2) 3 = t2" "ta_T 0 = 0" "ta_T 1 = 1" "ta_T 2 = 0" "ta_T 3 = 2"
  by (simp_all add: ta_ms_def ta_tdefs_def v110_ta_tdef_def ta_T_def)

lemma inst_simps [simp]:
  "state (inst c st T tm flags tx s x rx w) = st" "timer (inst c st T tm flags tx s x rx w) = tm"
  "v24_flags (priv (inst c st T tm flags tx s x rx w)) = flags" "cfg (priv (inst c st T tm flags tx s x rx w)) = c"
  "tx_d_bit_mode (priv (inst c st T tm flags tx s x rx w)) = tx" "tx_s_bits (priv (inst c st T tm flags tx s x rx w)) = s"
  "tx_x_bits (priv (inst c st T tm flags tx s x rx w)) = x" "rx_d_bit_mode (priv (inst c st T tm flags tx s x rx w)) = rx"
  "app (priv (inst c st T tm flags tx s x rx w)) = w" "fi_T (inst c st T tm flags tx s x rx w) = T"
  "Tdefs (priv (inst c st T tm flags tx s x rx w)) = ta_tdefs 3000 10000 5000" "terminating (inst c st T tm flags tx s x rx w) = False"
  by (simp_all add: inst_def)

definition good_cfg :: "'w v110_ta_cfg \<Rightarrow> bool" where
  "good_cfg c \<longleftrightarrow> quiet c \<and> sync_ra1 (rate c) \<noteq> None \<and> flow_ctrl_local c = 0"

lemma inst_base: "good_cfg c \<Longrightarrow> st < 5 \<Longrightarrow> ta_base (inst c st T tm flags tx s x rx w)"
  by (auto simp: ta_base_def good_cfg_def)

lemma wf_call:
  assumes "good_cfg c"
  shows "ta_wf (idle c w)" "sx \<in> {0, 1} \<Longrightarrow> ta_wf (connecting c sx w)" "ta_wf (data_transfer c w)" "ta_wf (asked_to_disconnect c w)"
    "\<not> bit flags 1 \<Longrightarrow> ta_wf (disconnecting c flags w)"
  using inst_base [OF assms] by (auto simp: ta_wf_def ta_shape_def Let_def flag_bits bit_numeral_rec)

lemma wf_disconnecting:
  assumes "good_cfg c"
  shows "ta_wf (disconnecting c 20 w)" "ta_wf (disconnecting c 0 w)"
proof -
  have "\<not> bit (20::u32) 1" "\<not> bit (0::u32) 1" by (simp_all add: bit_numeral_rec)
  then show "ta_wf (disconnecting c 20 w)" "ta_wf (disconnecting c 0 w)" using wf_call(5) [OF assms] by blast+
qed

text \<open>How an instance changes state.\<close>

lemma inst_entered:
  "entered n (inst c st T tm flags tx s x rx w) =
     (let p = enter n (priv (inst c st T tm flags tx s x rx w)); ms = ta_ms (ta_tdefs 3000 10000 5000) n in
      inst c n (ta_T n) (if ms = 0 then None else osmo_timer_schedule (ms div 1000) (ms mod 1000 * 1000)) (v24_flags p)
        (tx_d_bit_mode p) (tx_s_bits p) (tx_x_bits p) (rx_d_bit_mode p) (app p))"
  by (simp add: entered_def inst_def started_def upd_def Let_def)


lemma inst_upd: "Tdefs (f (priv (inst c st T tm flags tx s x rx w))) = ta_tdefs 3000 10000 5000 \<Longrightarrow>
    cfg (f (priv (inst c st T tm flags tx s x rx w))) = c \<Longrightarrow>
  upd f (inst c st T tm flags tx s x rx w) =
    (let p = f (priv (inst c st T tm flags tx s x rx w)) in
     inst c st T tm (v24_flags p) (tx_d_bit_mode p) (tx_s_bits p) (tx_x_bits p) (rx_d_bit_mode p) (app p))"
  by (simp add: upd_def inst_def Let_def)

lemma set_flags_app: "app (set_flags f p) = (if v24_flags p = f then app p else status_seen (cfg p) (app p) f)"
  by (simp add: set_flags_def)

lemmas call_simps = inst_entered inst_upd Let_def enter.simps ms_values [unfolded One_nat_def] flag_values [unfolded One_nat_def] flag_bits set_flags_app int32_small
  osmo_timer_schedule_def ta

lemma call_on: "react 2 (switched 3 True (idle c w)) = connecting c 1 w"
  by (simp add: react_def switched_def call_simps)

lemma call_sync: "react 3 (connecting c 1 w) = connecting c 0 w"
  by (simp add: react_def call_simps)

lemma call_off: "react 2 (switched 3 False (data_transfer c w)) = disconnecting c 20 (status_seen c w 20)"
  by (simp add: react_def switched_def call_simps)

lemma call_off2: "react 2 (switched 3 False (asked_to_disconnect c w)) = disconnecting c 0 (status_seen c w 0)"
  by (simp add: react_def switched_def call_simps)

definition got :: "'w v110_ta_cfg \<Rightarrow> ubit list \<Rightarrow> 'w \<Rightarrow> 'w" where
  "got c bits w = fst (rx_cb c w bits)"

definition chunk :: "'w v110_ta_cfg \<Rightarrow> nat" where
  "chunk c = (case osmo_v110_sync_ra1_get_user_data_chunk_bitlen (rate c) of Inl _ \<Rightarrow> 0 | Inr n \<Rightarrow> n)"

definition gives :: "'w v110_ta_cfg \<Rightarrow> 'w \<Rightarrow> ubit list" where
  "gives c w = fst (tx_cb c w (chunk c))"

definition gave :: "'w v110_ta_cfg \<Rightarrow> 'w \<Rightarrow> 'w" where
  "gave c w = fst (snd (tx_cb c w (chunk c)))"

lemma chunk_of_cfg: "chunk_of p = chunk (cfg p)"
  by (simp add: chunk_of_def chunk_def)

lemma taken_inst: "upd taken (inst c st T tm flags tx s x rx w) =
    inst c st T tm flags tx s x rx (if tx = DATA then gave c w else w)"
  by (simp add: inst_upd Let_def) (simp add: taken_def chunk_of_cfg gave_def)

lemma hand_inst: "upd (hand df) (inst c st T tm flags tx s x rx w) =
    inst c st T tm flags tx s x rx (case received (priv (inst c st T tm flags tx s x rx w)) df of None \<Rightarrow> w | Some bits \<Rightarrow> got c bits w)"
  by (simp add: inst_upd Let_def) (simp add: hand_def got_def split: option.split)

lemma received_constant: "rx \<noteq> DATA \<Longrightarrow> received (priv (inst c st T tm flags tx s x rx w)) df = Some (replicate (chunk c) (d_bit_value rx))"
  by (simp add: received_def chunk_of_cfg)

text \<open>Frames with constant D bits carry no user bits: their E bits name no rate.\<close>

lemma no_rate: "n < 12 \<Longrightarrow> osmo_v110_e1e2e3 ! n \<noteq> [1, 1, 1]"
proof -
  have "list_all (\<lambda>t. t \<noteq> [1, 1, 1]) osmo_v110_e1e2e3" "length osmo_v110_e1e2e3 = 12" by code_simp+
  then show "n < 12 \<Longrightarrow> osmo_v110_e1e2e3 ! n \<noteq> [1, 1, 1]" by (simp add: list_all_length)
qed

lemma received_nothing:
  assumes "good_cfg c" "wf_frame df" "take 3 (e_bits df) = [1, 1, 1]"
  shows "received (priv (inst c st T tm flags tx s x DATA w)) df = None"
proof -
  obtain ra where ra: "sync_ra1 (rate c) = Some ra" using assms(1) by (auto simp: good_cfg_def)
  then have "nat (rate c) < 12" by (auto simp: sync_ra1_def split: if_splits)
  moreover obtain u where "osmo_v110_sync_ra1_ir_to_user (rate c) (replicate 48 0) (length (replicate 48 (0::ubit))) df =
      Some (if take 3 (e_bits df) = osmo_v110_e1e2e3 ! nat (rate c) then u else Inl EINVAL)"
    using ra1_receive [OF ra assms(2), of "replicate 48 0"] ra1_receive [OF ra assms(2), of "replicate (user_data_chunk_bits ra) 0"] by auto
  ultimately show ?thesis using assms(3) no_rate [of "nat (rate c)"] by (simp add: received_def)
qed

lemma received_data:
  assumes "good_cfg ca" "good_cfg cb" "rate ca = rate cb"
  shows "received (priv (inst cb st T tm flags tx s x DATA w)) (arrived (frame_sent (priv (inst ca st' T' tm' flags' DATA s' x' rx' w')) blank_frame)) =
    Some (gives ca w')"
proof -
  let ?p = "priv (inst ca st' T' tm' flags' DATA s' x' rx' w')"
  let ?df = "blank_frame\<lparr>e_bits := replicate 7 1, s_bits := replicate 9 s', x_bits := replicate 2 x'\<rparr>"
  obtain ra where ra: "sync_ra1 (rate ca) = Some ra" using assms(1) by (auto simp: good_cfg_def)
  have wf: "wf_frame ?df" by (simp add: wf_frame_def blank_frame_def)
  have n: "chunk ca = user_data_chunk_bits ra" using ra by (simp add: chunk_def osmo_v110_sync_ra1_get_user_data_chunk_bitlen_def)
  have len: "length (gives ca w') = chunk ca" using assms(1) by (simp add: good_cfg_def quiet_def gives_def)
  have le: "chunk ca \<le> 48"
    using ra1_receive [OF ra wf, of "replicate (user_data_chunk_bits ra) 0"] n by auto
  obtain fr where fr: "osmo_v110_sync_ra1_user_to_ir (rate ca) ?df (gives ca w') (chunk ca) = Some (Inr fr)" "wf_frame fr"
    "\<forall>out fr''. user_data_chunk_bits ra \<le> length out \<longrightarrow> wf_frame fr'' \<longrightarrow> d_bits fr'' = d_bits fr \<longrightarrow>
       take 3 (e_bits fr'') = take 3 (e_bits fr) \<longrightarrow>
       osmo_v110_sync_ra1_ir_to_user (rate ca) out (length out) fr'' = Some (Inr (gives ca w' @ drop (chunk ca) out, chunk ca))"
    using ra1_send [OF ra wf, of "gives ca w'"] len n by auto
  have sent: "frame_sent ?p blank_frame = fr" using fr(1) by (simp add: frame_sent_def Let_def chunk_of_cfg gives_def)
  have "osmo_v110_sync_ra1_ir_to_user (rate ca) (replicate 48 0) 48 (arrived fr) =
      Some (Inr (gives ca w' @ drop (chunk ca) (replicate 48 0), chunk ca))"
    using fr(3) [rule_format, of "replicate 48 0" "arrived fr"] fr(2) n le by simp
  then show ?thesis using len assms(3) by (simp add: received_def sent)
qed


lemma arrived_bits:
  assumes "ta_base a"
  shows "v110_df_s_bits_are (arrived (frame_sent (priv a) blank_frame)) v \<longleftrightarrow> tx_s_bits (priv a) = v"
    and "v110_df_x_bits_are (arrived (frame_sent (priv a) blank_frame)) v \<longleftrightarrow> tx_x_bits (priv a) = v"
    and "tx_d_bit_mode (priv a) \<noteq> DATA \<Longrightarrow>
      v110_df_d_bits_are (arrived (frame_sent (priv a) blank_frame)) v \<longleftrightarrow> d_bit_value (tx_d_bit_mode (priv a)) = v"
    and "tx_d_bit_mode (priv a) \<noteq> DATA \<Longrightarrow> take 3 (e_bits (arrived (frame_sent (priv a) blank_frame))) = [1, 1, 1]"
proof -
  note h = frame_sent_head [OF assms wf_blank]
  show "v110_df_s_bits_are (arrived (frame_sent (priv a) blank_frame)) v \<longleftrightarrow> tx_s_bits (priv a) = v"
    unfolding arrived_frame(4) unfolding v110_df_s_bits_are_def using h by simp
  show "v110_df_x_bits_are (arrived (frame_sent (priv a) blank_frame)) v \<longleftrightarrow> tx_x_bits (priv a) = v"
    using h by (simp add: v110_df_x_bits_are_def numeral_2_eq_2)
  show "tx_d_bit_mode (priv a) \<noteq> DATA \<Longrightarrow>
      v110_df_d_bits_are (arrived (frame_sent (priv a) blank_frame)) v \<longleftrightarrow> d_bit_value (tx_d_bit_mode (priv a)) = v"
    using h by (simp add: v110_df_d_bits_are_def list_all_iff) (metis zero_less_numeral)
  show "tx_d_bit_mode (priv a) \<noteq> DATA \<Longrightarrow> take 3 (e_bits (arrived (frame_sent (priv a) blank_frame))) = [1, 1, 1]"
    using h by (simp add: numeral_3_eq_3)
qed

text \<open>The frames of a call.\<close>

lemma carry_inst:
  assumes "ta_wf a" "ta_wf b" "state b \<noteq> 4"
    and "upd taken a = a'" "react_rx (arrived (frame_sent (priv a) blank_frame)) b = b'"
  shows "carry sc (a, b) = Some (a', b')"
  using carry_frame [OF assms(1-3)] assms(4,5) by simp

lemma entered_connect: "entered 2 (upd connect ((connecting c 0 w)\<lparr>timer := None\<rparr>)) = data_transfer c (status_seen c w 30)"
proof -
  have "(connecting c 0 w)\<lparr>timer := None\<rparr> = inst c 1 1 None 8 ONES 0 0 ONES w" by (simp add: inst_def)
  then show ?thesis by (simp add: connect_def call_simps)
qed

lemma entered_idle: "flags = 0 \<or> flags = 20 \<Longrightarrow>
    entered 0 (disconnecting c flags w) = idle c (if flags = 0 then w else status_seen c w 0)"
  by (auto simp: call_simps)

lemma carry_connect1:
  assumes "good_cfg ca" "good_cfg cb"
  shows "carry sc (connecting ca 0 wa, connecting cb 0 wb) = Some (connecting ca 0 wa, data_transfer cb (status_seen cb wb 30))"
proof (rule carry_inst)
  let ?a = "connecting ca 0 wa"
  have b: "ta_base ?a" using inst_base [OF assms(1)] by simp
  have wf: "wf_frame (arrived (frame_sent (priv ?a) blank_frame))" using build_quiet [OF b wf_blank] by simp
  show "react_rx (arrived (frame_sent (priv ?a) blank_frame)) (connecting cb 0 wb) = data_transfer cb (status_seen cb wb 30)"
    using received_nothing [OF assms(2) wf] arrived_bits [OF b]
    by (simp add: react_rx_def sx_on_def entered_connect [unfolded One_nat_def] hand_inst del: arrived_frame)
qed (use wf_call [OF assms(1)] wf_call [OF assms(2)] in \<open>simp_all add: taken_inst del: One_nat_def\<close>)

lemma carry_connect2:
  assumes "good_cfg ca" "good_cfg cb" "rate ca = rate cb"
  shows "carry sc (data_transfer cb wb, connecting ca 0 wa) =
    Some (data_transfer cb (gave cb wb), data_transfer ca (got ca (gives cb wb) (status_seen ca wa 30)))"
proof (rule carry_inst)
  let ?b = "data_transfer cb wb"
  have b: "ta_base ?b" using inst_base [OF assms(2)] by simp
  show "react_rx (arrived (frame_sent (priv ?b) blank_frame)) (connecting ca 0 wa) = data_transfer ca (got ca (gives cb wb) (status_seen ca wa 30))"
    using received_data [OF assms(2,1)] assms(3) arrived_bits [OF b]
    by (simp add: react_rx_def sx_on_def entered_connect [unfolded One_nat_def] hand_inst del: arrived_frame)
qed (use wf_call [OF assms(1)] wf_call [OF assms(2)] in \<open>simp_all add: taken_inst del: One_nat_def\<close>)

lemma carry_data:
  assumes "good_cfg ca" "good_cfg cb" "rate ca = rate cb"
  shows "carry sc (data_transfer ca wa, data_transfer cb wb) = Some (data_transfer ca (gave ca wa), data_transfer cb (got cb (gives ca wa) wb))"
proof (rule carry_inst)
  let ?a = "data_transfer ca wa"
  have b: "ta_base ?a" using inst_base [OF assms(1)] by simp
  show "react_rx (arrived (frame_sent (priv ?a) blank_frame)) (data_transfer cb wb) = data_transfer cb (got cb (gives ca wa) wb)"
    using received_data [OF assms] arrived_bits [OF b]
    by (simp add: react_rx_def disc_request_def hand_inst del: arrived_frame)
qed (use wf_call [OF assms(1)] wf_call [OF assms(2)] in \<open>simp_all add: taken_inst del: One_nat_def\<close>)

lemma carry_request:
  assumes "good_cfg ca" "good_cfg cb"
  shows "carry sc (disconnecting ca 20 wa, data_transfer cb wb) = Some (disconnecting ca 20 wa, asked_to_disconnect cb (status_seen cb wb 10))"
proof (rule carry_inst)
  let ?a = "disconnecting ca 20 wa"
  have b: "ta_base ?a" using inst_base [OF assms(1)] by simp
  show "react_rx (arrived (frame_sent (priv ?a) blank_frame)) (data_transfer cb wb) = asked_to_disconnect cb (status_seen cb wb 10)"
    using arrived_bits [OF b] by (simp add: react_rx_def disc_request_def call_simps del: arrived_frame)
qed (use wf_disconnecting [OF assms(1)] wf_call [OF assms(2)] in \<open>simp_all add: taken_inst del: One_nat_def\<close>)

lemma carry_acknowledge:
  assumes "good_cfg ca" "good_cfg cb" "a = disconnecting ca 0 wa \<or> a = idle ca wa" "flags = 0 \<or> flags = 20"
  shows "carry sc (a, disconnecting cb flags wb) =
    Some (a, idle cb (got cb (replicate (chunk cb) 1) (if flags = 0 then wb else status_seen cb wb 0)))"
proof (rule carry_inst)
  have b: "ta_base a" using inst_base [OF assms(1)] assms(3) by auto
  have s: "tx_s_bits (priv a) = 1" using assms(3) by auto
  show "react_rx (arrived (frame_sent (priv a) blank_frame)) (disconnecting cb flags wb) =
      idle cb (got cb (replicate (chunk cb) 1) (if flags = 0 then wb else status_seen cb wb 0))"
    using arrived_bits [OF b] s entered_idle [OF assms(4), of cb wb]
    by (simp add: react_rx_def hand_inst received_constant del: arrived_frame)
  show "ta_wf a" using wf_call(1) [OF assms(1)] wf_disconnecting [OF assms(1)] assms(3) by auto
  show "ta_wf (disconnecting cb flags wb)" using wf_disconnecting [OF assms(2)] assms(4) by auto
  show "upd taken a = a" using assms(3) by (auto simp: taken_inst)
qed simp


subsection \<open>A call\<close>

lemma new_idle: "new_ta c w = idle c w"
  by (simp add: new_ta_def entered_def started_def upd_def osmo_fsm_inst_alloc_def inst_def ms_values enter.simps flag_values set_flags_def)

primrec xfer :: "'w v110_ta_cfg \<Rightarrow> 'w v110_ta_cfg \<Rightarrow> ta_side \<Rightarrow> 'w \<times> 'w \<Rightarrow> 'w \<times> 'w" where
  "xfer ca cb A w = (gave ca (fst w), got cb (gives ca (fst w)) (snd w))"
| "xfer ca cb B w = (got ca (gives cb (snd w)) (fst w), gave cb (snd w))"

lemma run_data:
  assumes "good_cfg ca" "good_cfg cb" "rate ca = rate cb"
  shows "run (ta_link_step sc) (map Carry ds) (data_transfer ca wa, data_transfer cb wb) =
    (let w = fold (xfer ca cb) ds (wa, wb) in Some (data_transfer ca (fst w), data_transfer cb (snd w)))"
proof (induction ds arbitrary: wa wb)
  case (Cons d ds)
  then show ?case using carry_data [OF assms, of sc wa wb] carry_data [OF assms(2,1), of sc wb wa] assms(3) by (cases d) simp_all
qed simp

lemma steps:
  assumes "good_cfg c"
  shows "ta_step sc (Set_Circuit 3 True) (idle c w) = Some (connecting c 1 w)"
    and "ta_step sc Sync_Ind (connecting c 1 w) = Some (connecting c 0 w)"
    and "ta_step sc (Set_Circuit 3 False) (data_transfer c w) = Some (disconnecting c 20 (status_seen c w 20))"
    and "ta_step sc (Set_Circuit 3 False) (asked_to_disconnect c w) = Some (disconnecting c 0 (status_seen c w 0))"
  using set_circuit [OF wf_call(1) [OF assms], of sc w 3 True] sync_ind [OF wf_call(2) [OF assms], of 1 sc w]
    set_circuit [OF wf_call(3) [OF assms], of sc w 3 False] set_circuit [OF wf_call(4) [OF assms], of sc w 3 False]
  by (simp_all add: dte_circuit_def flag_bits call_on [unfolded One_nat_def] call_sync [unfolded One_nat_def] call_off call_off2)

lemma steps_timeout:
  assumes "good_cfg c"
  shows "ta_step sc Timer_Expires (connecting c 1 w) = Some (inst c 0 0 None 8 ONES 1 1 ONES w)"
    and "ta_step sc Timer_Expires (disconnecting c 20 w) = Some (idle c (status_seen c w 0))"
proof -
  have t: "(inst c st T tm flags tx s x rx w)\<lparr>timer := None\<rparr> = inst c st T None flags tx s x rx w" for st T tm flags tx s x rx
    by (simp add: inst_def)
  have off8: "circuits_off 8 = 8" by (simp add: circuits_off_def V24_FLAGMASK_SET_OFF_def S_def)
  show "ta_step sc Timer_Expires (connecting c 1 w) = Some (inst c 0 0 None 8 ONES 1 1 ONES w)"
    using timer_expires [OF wf_call(2) [OF assms], of 1 sc w] by (simp add: t react_def call_simps off8)
  show "ta_step sc Timer_Expires (disconnecting c 20 w) = Some (idle c (status_seen c w 0))"
    using timer_expires [OF wf_disconnecting(1) [OF assms], of sc w] by (simp add: t react_def call_simps)
qed

definition set_up :: "ta_link_event list" where
  "set_up = [At A (Set_Circuit OSMO_V110_TA_C_108 True), At B (Set_Circuit OSMO_V110_TA_C_108 True), At A Sync_Ind, At B Sync_Ind,
             Carry A, Carry B]"

definition hang_up :: "ta_link_event list" where
  "hang_up = [At A (Set_Circuit OSMO_V110_TA_C_108 False), Carry A, At B (Set_Circuit OSMO_V110_TA_C_108 False), Carry B, Carry A]"

lemma run_set_up:
  assumes "good_cfg ca" "good_cfg cb" "rate ca = rate cb"
  shows "run (ta_link_step sc) set_up (idle ca wa, idle cb wb) =
    Some (data_transfer ca (got ca (gives cb (status_seen cb wb 30)) (status_seen ca wa 30)), data_transfer cb (gave cb (status_seen cb wb 30)))"
  using steps [OF assms(1), of sc wa] steps [OF assms(2), of sc wb] carry_connect1 [OF assms(1,2), of sc wa wb]
    carry_connect2 [OF assms, of sc "status_seen cb wb 30" wa]
  by (simp add: set_up_def del: ta_step.simps)

lemma run_hang_up:
  assumes "good_cfg ca" "good_cfg cb"
  shows "run (ta_link_step sc) hang_up (data_transfer ca wa, data_transfer cb wb) =
    Some (idle ca (got ca (replicate (chunk ca) 1) (status_seen ca (status_seen ca wa 20) 0)),
          idle cb (got cb (replicate (chunk cb) 1) (status_seen cb (status_seen cb wb 10) 0)))"
proof -
  let ?wa = "status_seen ca wa 20" let ?wb = "status_seen cb (status_seen cb wb 10) 0"
  let ?wa' = "got ca (replicate (chunk ca) 1) (status_seen ca ?wa 0)"
  have "carry sc (disconnecting cb 0 ?wb, disconnecting ca 20 ?wa) = Some (disconnecting cb 0 ?wb, idle ca ?wa')"
    using carry_acknowledge [OF assms(2,1), of "disconnecting cb 0 ?wb" ?wb 20 sc ?wa] by simp
  moreover have "carry sc (idle ca ?wa', disconnecting cb 0 ?wb) = Some (idle ca ?wa', idle cb (got cb (replicate (chunk cb) 1) ?wb))"
    using carry_acknowledge [OF assms, of "idle ca ?wa'" ?wa' 0 sc ?wb] by simp
  ultimately show ?thesis
    using steps(3) [OF assms(1), of sc wa] carry_request [OF assms, of sc ?wa wb] steps(4) [OF assms(2), of sc "status_seen cb wb 10"]
    by (simp add: hang_up_def del: ta_step.simps)
qed


text \<open>C13: two terminal adapters of the same rate complete a call over V.110 frames. Once both terminals have switched circuit 108
  ON and both receivers are synchronised, one frame each way connects both: circuits 106, 107 and 109 go ON (the status 30 tells
  both terminals), timer T1 stops, and no frame of the establishment delivers user bits that nobody sent. From then on every
  frame in either direction, in any order, takes one chunk of bits from the sender's application and delivers exactly these
  bits to the receiver's. When one side switches circuit 108 OFF it tells the other, whose terminal sees 107 and 109 go OFF, and
  after that terminal has answered both adapters are idle again with all circuits OFF and no timer running. A call that is not
  answered, and a disconnection that is not acknowledged, end with the timer.\<close>

theorem ta_call:
  assumes "good_cfg ca" "good_cfg cb" "rate ca = rate cb"
    and "(wa', wb') = fold (xfer ca cb) (B # ds) (status_seen ca wa 30, status_seen cb wb 30)"
  shows "\<exists>a b. osmo_v110_ta_alloc sc ca wa = Some (Some a) \<and> osmo_v110_ta_alloc sc cb wb = Some (Some b) \<and>
    run (ta_link_step sc) (set_up @ map Carry ds) (a, b) = Some (data_transfer ca wa', data_transfer cb wb') \<and>
    run (ta_link_step sc) (set_up @ map Carry ds @ hang_up) (a, b) =
      Some (idle ca (got ca (replicate (chunk ca) 1) (status_seen ca (status_seen ca wa' 20) 0)),
            idle cb (got cb (replicate (chunk cb) 1) (status_seen cb (status_seen cb wb' 10) 0))) \<and>
    run (ta_step sc) [Set_Circuit OSMO_V110_TA_C_108 True, Timer_Expires] a = Some (inst ca V110_TA_ST_IDLE_READY 0 None 8 ONES 1 1 ONES wa) \<and>
    run (ta_link_step sc) (set_up @ map Carry ds @ [At A (Set_Circuit OSMO_V110_TA_C_108 False), At A Timer_Expires]) (a, b) =
      Some (idle ca (status_seen ca (status_seen ca wa' 20) 0), data_transfer cb wb')"
proof (intro exI conjI)
  show "osmo_v110_ta_alloc sc ca wa = Some (Some (idle ca wa))" "osmo_v110_ta_alloc sc cb wb = Some (Some (idle cb wb))"
    using alloc [of ca sc wa] alloc [of cb sc wb] assms(1,2) by (auto simp: good_cfg_def new_idle)
  have up: "run (ta_link_step sc) (set_up @ map Carry ds) (idle ca wa, idle cb wb) = Some (data_transfer ca wa', data_transfer cb wb')"
    using assms(4) [symmetric] run_data [OF assms(1-3)] by (simp add: run_append run_set_up [OF assms(1-3)])
  then show "run (ta_link_step sc) (set_up @ map Carry ds) (idle ca wa, idle cb wb) = Some (data_transfer ca wa', data_transfer cb wb')" .
  have after: "run (ta_link_step sc) (set_up @ map Carry ds @ es) (idle ca wa, idle cb wb) =
      run (ta_link_step sc) es (data_transfer ca wa', data_transfer cb wb')" for es
    using up run_append [of "ta_link_step sc" "set_up @ map Carry ds" es] by simp
  show "run (ta_link_step sc) (set_up @ map Carry ds @ hang_up) (idle ca wa, idle cb wb) =
      Some (idle ca (got ca (replicate (chunk ca) 1) (status_seen ca (status_seen ca wa' 20) 0)),
            idle cb (got cb (replicate (chunk cb) 1) (status_seen cb (status_seen cb wb' 10) 0)))"
    unfolding after by (rule run_hang_up [OF assms(1,2)])
  show "run (ta_step sc) [Set_Circuit 3 True, Timer_Expires] (idle ca wa) = Some (inst ca 0 0 None 8 ONES 1 1 ONES wa)"
    using steps(1) [OF assms(1), of sc wa] steps_timeout(1) [OF assms(1), of sc wa] by (simp del: ta_step.simps)
  show "run (ta_link_step sc) (set_up @ map Carry ds @ [At A (Set_Circuit 3 False), At A Timer_Expires]) (idle ca wa, idle cb wb) =
      Some (idle ca (status_seen ca (status_seen ca wa' 20) 0), data_transfer cb wb')"
    unfolding after using steps(3) [OF assms(1), of sc wa'] steps_timeout(2) [OF assms(1), of sc "status_seen ca wa' 20"]
    by (simp del: ta_step.simps)
qed

theorem ta_call_witness:
  "\<exists>a b. osmo_v110_ta_alloc (nested 0) demo_cfg (0, []) = Some (Some a) \<and>
     run (ta_link_step (nested 0)) (set_up @ map Carry [A, B, A]) (a, b) =
       Some (data_transfer demo_cfg (96, [30]), data_transfer demo_cfg (96, [30]))"
proof -
  have g: "good_cfg demo_cfg" using demo_cfg_ok by (simp add: good_cfg_def)
  have n: "chunk demo_cfg = 48" by (simp add: chunk_def osmo_v110_sync_ra1_get_user_data_chunk_bitlen_def sync_ra1_def demo_cfg_def osmo_v110_sync_ra1_def_def)
  have "((96, [30]), (96, [30])) = fold (xfer demo_cfg demo_cfg) (B # [A, B, A]) (status_seen demo_cfg (0, []) 30, status_seen demo_cfg (0, []) 30)"
    by (simp add: got_def gave_def gives_def status_seen_def n) (simp add: demo_cfg_def)
  from ta_call [OF g g refl this, of "nested 0"] obtain a b where
    "osmo_v110_ta_alloc (nested 0) demo_cfg (0, []) = Some (Some a)"
    "run (ta_link_step (nested 0)) (set_up @ map Carry [A, B, A]) (a, b) =
       Some (data_transfer demo_cfg (96, [30]), data_transfer demo_cfg (96, [30]))" by (elim exE conjE)
  then show ?thesis by (intro exI conjI)
qed


subsection \<open>Hazards\<close>

definition redial_cfg :: "unit v110_ta_cfg" where
  "redial_cfg = \<lparr>rate = 5, flow_ctrl_local = 0, flow_ctrl_end_to_end = False, rx_cb = (\<lambda>w bits. ((), [])),
     tx_cb = (\<lambda>w n. (replicate n 1, (), [])), status_update_cb = Some (\<lambda>w flags. ((), if flags = 0 then [(3, True)] else []))\<rparr>"

lemmas ta_unfold = ta_dispatch_def osmo_fsm_inst_dispatch_def osmo_v110_ta_fsm_def osmo_v110_ta_fsm0_def v110_ta_states_def
  v110_ta_fsm_idle_ready_def v110_ta_fsm_connect_ta_to_line_def v110_ta_fsm_data_transfer_def v110_ta_fsm_disconnect_def
  v110_ta_fsm_resyncing_def v110_ta_fsm_state_chg_def state_chg_def UINT_FLAG_def rd_def
  osmo_tdef_fsm_inst_state_chg_def timeouts ta_T_def entries osmo_fsm_inst_state_chg_def osmo_fsm_inst_state_chg_ms_def
  v110_ta_fsm_idle_ready_onenter_def v110_ta_fsm_connect_ta_to_line_onenter_def v110_ta_flags_update_def called_def
  osmo_v110_ta_set_circuit_def v110_ta_set_status_def ta_timer_expires_def fsm_tmr_cb_def v110_ta_timer_cb_def
  upd_def inst_def Let_def wrap_ulong_def S_def V24_FLAGMASK_SET_OFF_def V24_FLAGMASK_SET_ON_def V24_FLAGMASK_IS_ON_def V24_FLAGMASK_IS_OFF_def

lemma tdef_entries [simp]:
  "tdef_val (ta_tdefs x1 t1 t2 ! 0) = x1" "tdef_val (ta_tdefs x1 t1 t2 ! Suc 0) = t1" "tdef_val (ta_tdefs x1 t1 t2 ! 2) = t2"
  "tdef_unit (ta_tdefs x1 t1 t2 ! 0) = OSMO_TDEF_MS" "tdef_unit (ta_tdefs x1 t1 t2 ! Suc 0) = OSMO_TDEF_MS" "tdef_unit (ta_tdefs x1 t1 t2 ! 2) = OSMO_TDEF_MS"
  by (simp_all add: ta_tdefs_def v110_ta_tdef_def)

definition on_frame :: v110_frame where
  "on_frame = \<lparr>d_bits = replicate 48 1, e_bits = replicate 7 1, s_bits = replicate 9 0, x_bits = replicate 2 0\<rparr>"

definition off_frame :: v110_frame where
  "off_frame = \<lparr>d_bits = replicate 48 0, e_bits = replicate 7 1, s_bits = replicate 9 1, x_bits = replicate 2 0\<rparr>"

lemma redial_start: "ta_step (nested n) (Set_Circuit 3 True) (idle redial_cfg ()) = Some (connecting redial_cfg 1 ())"
  "ta_step (nested n) Sync_Ind (connecting redial_cfg 1 ()) = Some (connecting redial_cfg 0 ())"
  by (simp_all add: ta_unfold redial_cfg_def osmo_timer_schedule_def int32_small osmo_v110_ta_sync_ind_def)

lemma nothing_received: "wf_frame df \<Longrightarrow> take 3 (e_bits df) = [1, 1, 1] \<Longrightarrow>
    osmo_v110_sync_ra1_ir_to_user 5 (replicate 48 0) 48 df = Some (Inl EINVAL)"
  by (simp add: osmo_v110_sync_ra1_ir_to_user_def sync_ra1_def osmo_v110_sync_ra1_def_def v110_adapt_IR_to_Nx4800_def e1e2e3_cmp osmo_v110_e1e2e3_def)

lemma redial_alloc: "osmo_v110_ta_alloc (nested n) redial_cfg () = Some (Some (idle redial_cfg ()))"
proof -
  have "osmo_tdefs_reset v110_ta_tdef = Some (ta_tdefs 3000 10000 5000)"
    by (simp add: v110_ta_tdef_def ta_tdefs_def tdef_used_def osmo_tdef_val_in_range_def)
  then show ?thesis by (simp add: osmo_v110_ta_alloc_def ta_unfold redial_cfg_def osmo_fsm_inst_alloc_def)
qed

lemma redial_off: "ta_step (nested n) (Set_Circuit 3 False) (data_transfer redial_cfg ()) = Some (disconnecting redial_cfg 20 ())"
  by (simp add: ta_unfold redial_cfg_def osmo_timer_schedule_def int32_small v110_ta_fsm_disconnect_onenter_def)

lemma redial_connect: "ta_step (nested n) (Frame_In on_frame) (connecting redial_cfg 0 ()) = Some (data_transfer redial_cfg ())"
proof -
  have "wf_frame on_frame" "take 3 (e_bits on_frame) = [1, 1, 1]" "v110_df_s_bits_are on_frame 0" "v110_df_x_bits_are on_frame 0"
    by (simp_all add: on_frame_def wf_frame_def v110_df_s_bits_are_def v110_df_x_bits_are_def numeral_3_eq_3 numeral_2_eq_2)
  then show ?thesis using nothing_received [of on_frame]
    by (simp add: ta_unfold redial_cfg_def osmo_v110_ta_frame_in_def v110_ta_rx_def v110_ta_handle_frame_def
        v110_ta_fsm_data_transfer_onenter_def)
qed

lemma redial: "ta_step (nested 1) Timer_Expires (disconnecting redial_cfg 20 ()) = Some (inst redial_cfg 1 1 (Some (10, 0)) 0 ONES 1 1 ONES ())"
  by (simp add: ta_unfold redial_cfg_def osmo_timer_schedule_def int32_small)


definition resyncing :: "'w v110_ta_cfg \<Rightarrow> osmo_timer \<Rightarrow> u32 \<Rightarrow> v110_ta_d_bit_mode \<Rightarrow> ubit \<Rightarrow> 'w \<Rightarrow> 'w ta_inst" where
  "resyncing c tm flags tx s w = inst c 4 (-1) tm flags tx s 1 ONES w"

lemma resync_values: "ta_ms (ta_tdefs x1 t1 t2) 4 = x1" "ta_T 4 = -1" "V24_FLAGMASK_SET_OFF 30 2 = 26" "circuits_on 22 = 22"
  "V24_FLAGMASK_SET_ON 22 (Suc 0) = 22" "V24_FLAGMASK_SET_ON 20 3 = 28" "circuits_off 28 = 8"
  by (simp_all add: ta_ms_def ta_tdefs_def v110_ta_tdef_def ta_T_def V24_FLAGMASK_SET_OFF_def V24_FLAGMASK_SET_ON_def S_def
      circuits_on_def circuits_off_def)

lemma wf_more:
  assumes "good_cfg c"
  shows "ta_wf (resyncing c tm 30 tx s w)" "ta_wf (resyncing c tm 22 tx s w)" "ta_wf (resyncing c tm 26 tx s w)" "ta_wf (disconnecting c 28 w)"
  using inst_base [OF assms] by (auto simp: resyncing_def ta_wf_def ta_shape_def Let_def bit_numeral_rec)

lemma inst_timer: "(inst c st T tm flags tx s x rx w)\<lparr>timer := None\<rparr> = inst c st T None flags tx s x rx w"
  by (simp add: inst_def)

lemma stuck_step:
  assumes "ta_wf fi" "state fi = 4" "timer fi = None" "ta_ok op" "op \<noteq> Sync_Ind"
  shows "\<exists>fi'. ta_step sc op fi = Some fi' \<and> ta_wf fi' \<and> state fi' = 4 \<and> timer fi' = None"
proof (cases op)
  case (Set_Circuit c active)
  have "state (react 2 (switched c active fi)) = 4" "timer (react 2 (switched c active fi)) = None"
    using assms(2,3) by (simp_all add: react_def switched_def)
  with Set_Circuit assms set_circuit [OF assms(1), of sc c active] show ?thesis by (auto simp: dte_circuit_def)
next
  case (Frame_Out df)
  with assms frame_out [OF assms(1), of df sc] show ?thesis by simp
next
  case (Frame_In df)
  with assms frame_in [OF assms(1), of df sc] show ?thesis by simp
next
  case (Set_Timer T v)
  obtain rc fi' where t: "osmo_v110_ta_set_timer_val_ms fi T v = Some (rc, fi')" "ta_wf fi'" using set_timer [OF assms(1)] by blast
  moreover from t obtain r where "osmo_tdef_set (Tdefs (priv fi)) T v OSMO_TDEF_MS = Some r"
    by (auto simp: osmo_v110_ta_set_timer_val_ms_def bind_eq_Some_conv)
  ultimately have "state fi' = state fi" "timer fi' = timer fi"
    by (cases r; auto simp: osmo_v110_ta_set_timer_val_ms_def)+
  with Set_Timer t assms show ?thesis by simp
qed (use assms desync_ind [OF assms(1), of sc] timer_expires [OF assms(1), of sc] in auto)

lemma stuck_run:
  "ta_wf fi \<Longrightarrow> state fi = 4 \<Longrightarrow> timer fi = None \<Longrightarrow> list_all ta_ok ops \<Longrightarrow> Sync_Ind \<notin> set ops \<Longrightarrow>
   \<exists>fi'. run (ta_step sc) ops fi = Some fi' \<and> state fi' = 4 \<and> timer fi' = None"
proof (induction ops arbitrary: fi)
  case (Cons op ops)
  then obtain fi' where "ta_step sc op fi = Some fi'" "ta_wf fi'" "state fi' = 4" "timer fi' = None"
    using stuck_step [of fi op sc] by auto
  with Cons show ?case by (auto simp del: ta_step.simps)
qed simp

lemma resync_steps:
  assumes "good_cfg c"
  shows "ta_step sc Desync_Ind (data_transfer c w) = Some (resyncing c (Some (3, 0)) 30 DATA 0 w)"
    and "ta_step sc Timer_Expires (resyncing c (Some (3, 0)) 30 DATA 0 w) = Some (resyncing c None 26 ZEROS 1 (status_seen c w 26))"
    and "ta_step sc (Set_Circuit 3 False) (resyncing c (Some (3, 0)) 30 DATA 0 w) = Some (resyncing c (Some (3, 0)) 22 DATA 0 w)"
    and "ta_step sc Sync_Ind (resyncing c (Some (3, 0)) 22 DATA 0 w) = Some (inst c 2 0 None 22 DATA 0 0 DATA w)"
    and "ta_step sc (Set_Circuit 3 True) (disconnecting c 20 w) = Some (disconnecting c 28 w)"
    and "ta_step sc Timer_Expires (disconnecting c 28 w) = Some (inst c 0 0 None 8 ONES 1 1 ONES (status_seen c w 8))"
  using desync_ind [OF wf_call(3) [OF assms], of sc w] timer_expires [OF wf_more(1) [OF assms], of sc "Some (3, 0)" DATA 0 w]
    set_circuit [OF wf_more(1) [OF assms], of sc "Some (3, 0)" DATA 0 w 3 False] sync_ind [OF wf_more(2) [OF assms], of sc "Some (3, 0)" DATA 0 w]
    set_circuit [OF wf_disconnecting(1) [OF assms], of sc w 3 True] timer_expires [OF wf_more(4) [OF assms], of sc w]
  by (simp_all add: resyncing_def react_def inst_timer switched_def dte_circuit_def call_simps resync_values bit_numeral_rec)


lemma unknown_rate:
  assumes "quiet c" "flow_ctrl_local c = 0" "sync_ra1 (rate c) = None"
  shows "osmo_v110_ta_alloc sc c w = Some (Some (idle c w)) \<and> osmo_v110_ta_frame_in sc (idle c w) df = None"
  using alloc_new [OF assms(1,2)] assms(3)
  by (simp add: new_idle) (simp add: osmo_v110_ta_frame_in_def ta_unfold v110_ta_rx_def v110_ta_handle_frame_def
      osmo_v110_sync_ra1_get_user_data_chunk_bitlen_def)

text \<open>C38: situations that the terminal adapter does not survive. (1) When frames stay out of synchronism, the time-out X1 should lead to
  the disconnected mode, but the table of transitions does not admit that one: the adapter stays resynchronising without a timer, sending
  disconnect requests, and nothing but a synchronisation indication ever ends it, neither frames nor the terminal switching circuit
  108 OFF. (2) Circuit 108 switched OFF while resynchronising is forgotten: the adapter goes back to data transfer with circuit 108 OFF.
  (3) Circuit 108 switched ON again while disconnecting is forgotten as well: the adapter ends idle with circuit 108 ON and does not connect.
  (4) An application that switches circuit 108 ON again from its status call-back, on being told that all circuits are OFF, leaves
  the adapter connecting with circuit 108 OFF, since the flags of the outer call overwrite those of the inner one; the next
  synchronisation indication then fails an assertion. (5) An unknown rate is accepted, and the first frame ends the program.\<close>

theorem ta_hazards:
  assumes "good_cfg c" "list_all ta_ok ops" "Sync_Ind \<notin> set ops" "quiet c5" "flow_ctrl_local c5 = 0" "sync_ra1 (rate c5) = None"
  shows "(\<exists>fi. run (ta_step sc) ([Desync_Ind, Timer_Expires] @ ops) (data_transfer c w) = Some fi \<and>
            state fi = V110_TA_ST_RESYNCING \<and> timer fi = None) \<and>
         (\<exists>fi. run (ta_step sc) [Desync_Ind, Set_Circuit OSMO_V110_TA_C_108 False, Sync_Ind] (data_transfer c w) = Some fi \<and>
            state fi = V110_TA_ST_DATA_TRANSFER \<and> \<not> osmo_v110_ta_get_circuit fi OSMO_V110_TA_C_108) \<and>
         (\<exists>fi. run (ta_step sc) [Set_Circuit OSMO_V110_TA_C_108 False, Set_Circuit OSMO_V110_TA_C_108 True, Timer_Expires]
              (data_transfer c w) = Some fi \<and>
            state fi = V110_TA_ST_IDLE_READY \<and> osmo_v110_ta_get_circuit fi OSMO_V110_TA_C_108 \<and> timer fi = None) \<and>
         (\<exists>fi. run (ta_step (nested 1)) [Set_Circuit OSMO_V110_TA_C_108 True, Sync_Ind, Frame_In on_frame,
              Set_Circuit OSMO_V110_TA_C_108 False, Timer_Expires] (idle redial_cfg ()) = Some fi \<and>
            osmo_v110_ta_alloc (nested 1) redial_cfg () = Some (Some (idle redial_cfg ())) \<and>
            state fi = V110_TA_ST_CON_TA_TO_LINE \<and> \<not> osmo_v110_ta_get_circuit fi OSMO_V110_TA_C_108 \<and>
            osmo_v110_ta_sync_ind (nested 1) fi = None) \<and>
         (\<exists>fi. osmo_v110_ta_alloc sc c5 w = Some (Some fi) \<and> osmo_v110_ta_frame_in sc fi df = None)"
proof (intro conjI)
  note r = resync_steps [OF assms(1)]
  have "ta_wf (resyncing c None 26 ZEROS 1 (status_seen c w 26))" by (rule wf_more(3) [OF assms(1)])
  from stuck_run [OF this _ _ assms(2,3)]
  obtain fi where "run (ta_step sc) ops (resyncing c None 26 ZEROS 1 (status_seen c w 26)) = Some fi" "state fi = 4" "timer fi = None"
    by (auto simp: resyncing_def)
  then show "\<exists>fi. run (ta_step sc) ([Desync_Ind, Timer_Expires] @ ops) (data_transfer c w) = Some fi \<and> state fi = 4 \<and> timer fi = None"
    using r(1,2) [of sc w] by (simp del: ta_step.simps)
  show "\<exists>fi. run (ta_step sc) [Desync_Ind, Set_Circuit 3 False, Sync_Ind] (data_transfer c w) = Some fi \<and> state fi = 2 \<and>
      \<not> osmo_v110_ta_get_circuit fi 3"
    using r(1,3,4) [of sc w] by (simp add: osmo_v110_ta_get_circuit_def ta bit_numeral_rec del: ta_step.simps)
  show "\<exists>fi. run (ta_step sc) [Set_Circuit 3 False, Set_Circuit 3 True, Timer_Expires] (data_transfer c w) = Some fi \<and> state fi = 0 \<and>
      osmo_v110_ta_get_circuit fi 3 \<and> timer fi = None"
    using steps(3) [OF assms(1), of sc w] r(5,6) [of sc "status_seen c w 20"]
    by (simp add: osmo_v110_ta_get_circuit_def ta flag_bits del: ta_step.simps)
  show "\<exists>fi. osmo_v110_ta_alloc sc c5 w = Some (Some fi) \<and> osmo_v110_ta_frame_in sc fi df = None"
    using unknown_rate [OF assms(4-6), of sc w df] by blast
  let ?fi = "inst redial_cfg 1 1 (Some (10, 0)) 0 ONES 1 1 ONES ()"
  have "osmo_v110_ta_sync_ind (nested 1) ?fi = None" by (simp add: osmo_v110_ta_sync_ind_def ta_unfold)
  moreover have "osmo_v110_ta_alloc (nested 1) redial_cfg () = Some (Some (idle redial_cfg ()))" by (rule redial_alloc)
  moreover have "run (ta_step (nested 1)) [Set_Circuit 3 True, Sync_Ind, Frame_In on_frame, Set_Circuit 3 False, Timer_Expires] (idle redial_cfg ()) = Some ?fi"
    using redial_start [of 1] redial_connect [of 1] redial_off [of 1] redial by (simp del: ta_step.simps nested.simps)
  ultimately show "\<exists>fi. run (ta_step (nested 1)) [Set_Circuit 3 True, Sync_Ind, Frame_In on_frame, Set_Circuit 3 False, Timer_Expires] (idle redial_cfg ()) = Some fi \<and>
      osmo_v110_ta_alloc (nested 1) redial_cfg () = Some (Some (idle redial_cfg ())) \<and> state fi = 1 \<and> \<not> osmo_v110_ta_get_circuit fi 3 \<and>
      osmo_v110_ta_sync_ind (nested 1) fi = None"
    by (intro exI [of _ ?fi]) (simp add: osmo_v110_ta_get_circuit_def ta del: nested.simps)
qed

theorem ta_hazards_witness:
  "\<exists>fi. run (ta_step (nested 0)) ([Desync_Ind, Timer_Expires] @ [Set_Circuit 3 False, Frame_In demo_frame]) (data_transfer demo_cfg (0, [])) = Some fi \<and>
     state fi = 4 \<and> timer fi = None"
proof -
  have g: "good_cfg demo_cfg" using demo_cfg_ok by (simp add: good_cfg_def)
  have f: "list_all ta_ok [Set_Circuit 3 False, Frame_In demo_frame]" by (simp add: demo_frame_def wf_frame_def)
  have "quiet (demo_cfg\<lparr>rate := 12\<rparr>)" "flow_ctrl_local (demo_cfg\<lparr>rate := 12\<rparr>) = 0" "sync_ra1 (rate (demo_cfg\<lparr>rate := 12\<rparr>)) = None"
    by (auto simp: quiet_def demo_cfg_def sync_ra1_def)
  moreover have "Sync_Ind \<notin> set [Set_Circuit 3 False, Frame_In demo_frame]" by simp
  ultimately show ?thesis using conjunct1 [OF ta_hazards [OF g f]] by blast
qed

end
