(* ===== verification/Spec2Isabelle.thy ===== *)
theory Spec2Isabelle
  imports Bits Bitvec Write_Queue Tlv Burst_Mapping Sms_Stack Sercomm Lapd_Link Csd Uart_Link Ta_Link
begin

text \<open>
  A verification development for libosmocore, the utility library of the Osmocom GSM stack.

  \<^bold>\<open>The program.\<close> The library is a collection of components that protocol programs link against. At the bottom are bits and
  octets: conversions between packed and unpacked bits (\<open>src/core/bits.c\<close>), bit vectors (\<open>src/core/bitvec.c\<close>) and the
  loading and storing of integers (\<open>bitXXgen.h.tpl\<close>). On them rest the containers every protocol uses: linked lists
  (\<open>linuxlist.h\<close>), message buffers with headroom and tailroom (\<open>msgb\<close>) that are queued on such lists, write queues
  that are drained by the select loop (\<open>write_queue.c\<close>), and the coding of type-length-value elements in messages
  (\<open>tlv.h\<close>, \<open>tlv_parser.c\<close>). The coding library interleaves blocks of bits and maps them on bursts. On top are the protocol
  layers, which keep state, run timers and call each other through callbacks: the SMS relay and connection sublayers
  (\<open>gsm0411_smr.c\<close>, \<open>gsm0411_smc.c\<close>), the serial multiplex (\<open>sercomm.c\<close>) and the LAPD data link (\<open>lapd_core.c\<close>). For circuit switched data there are a
  software UART (\<open>soft_uart.c\<close>), V.110 frames with rate adaptation (\<open>v110.c\<close>), their form on the radio interface (\<open>gsm44021.c\<close>)
  and a terminal adapter (\<open>v110_ta.c\<close>) on the framework for state machines with timers (\<open>fsm.c\<close>, \<open>tdef.c\<close>).

  \<^bold>\<open>Conventions.\<close> A C function is a HOL function of the same name on the values it reads, and returns what it writes. An
  8, 16, 32 or 64 bit integer is a word where its wrap-around or its bits matter, else \<^typ>\<open>nat\<close> or \<^typ>\<open>int\<close> with the
  bounds written out. A buffer is a list. A result of type \<open>'a res\<close> is \<^const>\<open>None\<close> when the code does what C leaves
  undefined: an access outside an array, a null dereference, or a loop that does not end; the message buffers
  distinguish in addition the \<open>Panic\<close> of a failed \<open>OSMO_ASSERT\<close> or \<open>MSGB_ABORT\<close>. Error codes are returned as the
  negative numbers of the source. Loops are structural recursion, \<open>fun\<close> with a measure, or, where the
  source gives no bound, \<open>partial_function (option)\<close>; then that they end is proved. No function of the code has fuel, except that call-backs into the terminal adapter are nested to a given depth. Of the
  loops outside the library, the driver of \<open>Sercomm\<close> pulls a given number of octets, and the exchange of frames between two data links
  in \<open>Lapd_Link\<close> has as many rounds as the messages have octets, which is shown to be enough. Callbacks are arguments. Allocation
  succeeds unless it is an argument; log output and names are left out.

  \<^bold>\<open>Theories.\<close>
  \<^item> \<open>Prelude\<close>: results, checked list access (\<open>rd\<close>, \<open>wr\<close>), machine integers, lemmas on words and lists, the collections \<open>c_mem\<close> and others
    that carry the proofs on memory.
  \<^item> \<open>Bit_Store\<close>: the interface between bit sequences and octet buffers as locales, interpreted by \<open>Bits\<close>
    and \<open>Bitvec\<close>; the round trips of both rest on it.
  \<^item> \<open>Bits\<close>: \<open>bits.c\<close> and \<open>bits.h\<close>. Packing and unpacking, with offsets and in either bit order, are inverse and stay in the buffers; the
    three ways to reverse bits agree with reversal of the bit list.
  \<^item> \<open>Bitvec\<close>: \<open>bitvec.c\<close>. Fields, integers (as 0/1 or L/H bits) and octets written at any bit position are read back, other bits kept; every error branch;
    run lengths; what \<open>bitvec_shiftl\<close> really does.
  \<^item> \<open>Load_Store\<close>: \<open>bitXXgen.h.tpl\<close>, generic in the width: loading inverts storing in both byte orders.
  \<^item> \<open>Llist\<close>: \<open>linuxlist.h\<close> on a store of next and previous pointers; the operations refine the operations on the list of nodes.
  \<^item> \<open>Msgb\<close>: \<open>msgb.c\<close>, \<open>msgb.h\<close>. The invariant of \<open>msgb_test_invariant\<close> is kept or the operation panics; pushing and pulling headers are inverse; queues of
    messages refine first-in first-out queues, by way of a locale for queues; copying and resizing.
  \<^item> \<open>Write_Queue\<close>: \<open>write_queue.c\<close>. Limits and error codes of all operations, and that under the select loop all messages are written in
    order whatever the callback returns.
  \<^item> \<open>Tlv\<close>: \<open>tlv.h\<close> and \<open>tlv_parser.c\<close>. For any definition and any octets the parser ends and reads outside its buffer in exactly two
    cases, where an initial LV element is expected and nothing is left; what the encoder writes is
    parsed back; what the shift functions accept; validation and merging of parsed elements.
  \<^item> \<open>Interleaving\<close>, \<open>Burst_Mapping\<close>: \<open>gsm0503_interleaving.c\<close>, \<open>gsm0503_mapping.c\<close> with the tables. De-interleaving inverts
    interleaving and unmapping inverts mapping, for all channel types.
  \<^item> \<open>Machine\<close>: components that handle events one at a time, their runs and reachable states, and the locale \<open>machine\<close>: an invariant
    that every event keeps, from which every run is defined; \<open>partial_machine\<close> is the contract with exactly given exceptions.
  \<^item> \<open>Sms_Cp\<close>, \<open>Sms_Rp\<close>, \<open>Sms_Stack\<close>: the two SMS sublayers and their composition, each calling the other through its callbacks. Both
    keep their invariants in every run; together they handle every event but a CP-DATA too short for the RP header, which the relay layer reads
    behind; the connection is released exactly once; retransmission
    ends; complete transfers; states that are left hanging. The relay layer sees the connection layer through the locale \<open>sms_lower\<close>.
  \<^item> \<open>Sercomm\<close>: \<open>sercomm.c\<close>. The octets a transmitter hands to the driver make the receiver dispatch the same messages in order;
    where the framing breaks.
  \<^item> \<open>Lapd\<close>, \<open>Lapd_Run\<close>, \<open>Lapd_Link\<close>: \<open>lapd_core.c\<close>. \<open>Lapd\<close> holds the data link as a record and all its handlers. In \<open>Lapd_Run\<close> every sequence of admitted
    events is handled to the end and keeps the window and the history in order; admitted are frames whose \<open>N(R)\<close> is in the range of
    sequence numbers, whose length indicator is within the message, DISC frames that are well formed (the
    others are the first hazard) and SABM frames of one length. \<open>Lapd_Link\<close> connects two data links; bursts of messages from either side in turn, of any length that
    the receiver's buffer holds, arrive complete and in order, in as many windows as it takes, over a channel without loss. It ends with the sequences of frames the handlers do not stand.
  \<^item> \<open>V110\<close>, \<open>Csd\<close>: \<open>v110.c\<close>, \<open>gsm44021.c\<close>. Assignments and copies are tables of placings with one lemma that gives
    their result. Every rate adaptation satisfies the locale \<open>ra1_rate\<close>; user bits of every rate pass V.110 and 60-bit CSD frames,
    and the low rates 36-bit frames.
  \<^item> \<open>Soft_Uart\<close>, \<open>Uart_Link\<close>: \<open>soft_uart.c\<close>. Configured instances handle every sequence of operations (\<open>machine\<close> again);
    characters pass from a transmitter to a receiver, which both refine the same description of a line; the configurations that
    are accepted and fail.
  \<^item> \<open>Tdef\<close>, \<open>Fsm\<close>: \<open>tdef.c\<close>, \<open>fsm.c\<close>. Conversion of timer values is division with the ceiling, limited to the type; what
    every kind of state change does on each branch, and the time started for every number of seconds; the locale \<open>fsm_table\<close>: a machine that handles or refuses every event.
  \<^item> \<open>V110_Ta\<close>, \<open>Ta_Link\<close>: \<open>v110_ta.c\<close>, the terminal adapter that is such a machine. It handles every sequence of operations of a terminal
    and a line; two of them complete a call and deliver the user bits of either side; where it is left hanging or ends the program.
    \<open>nested n\<close> bounds how deep an application calls back into the adapter; the results for applications that do not hold for every bound.

  \<^bold>\<open>Not modelled.\<close> The operating system interface (select, sockets, files, devices, threads), logging and statistics output, the
  command line and control interface, the cryptographic algorithms, for which the repository holds no specification, and the
  convolutional decoders with vector intrinsics. Not modelled yet: LAPDm on top of LAPD, the trees of state
  machines and their termination, the convolutional encoder, CRCs and the channel coding procedures that combine them with the interleavers, the
  GSM utilities (seven bit characters, frame numbers, channel numbers), BCD and hexadecimal conversion, the HDLC bit
  machine, the I.460 multiplex, the message codecs on top of \<open>msgb\<close> and \<open>tlv\<close>, and the network service layers of the Gb interface.
\<close>

end
